(* ===== verification/Prelude.thy ===== *)
theory Prelude
  imports "HOL-Library.Word"
begin

text \<open>
  What the components share: the integer types of \<open>lib/include/types.h\<close>, the values an
  operation can stop with, the relation between a chain of \<open>next\<close> pointers and the list
  of nodes on it, and the generic facts on words, lists and chains that the component
  theories use.
\<close>

unbundle bit_operations_syntax

section \<open>Integer types\<close>

type_synonym u8 = "8 word"
type_synonym u16 = "16 word"
type_synonym u32 = "32 word"

section \<open>Faults\<close>

text \<open>
  The C sources have undefined behaviour where an index leaves its array, a null pointer
  is followed or a variadic argument is missing or has another type.
  A model in which that can happen returns a fault on the left of a sum.
\<close>

datatype fault = OutOfBounds | NullDeref | DivideByZero | BadArgument

type_synonym 'a checked = "fault + 'a"

fun chk_bind :: "'a checked \<Rightarrow> ('a \<Rightarrow> 'b checked) \<Rightarrow> 'b checked" where
  "chk_bind (Inl e) f = Inl e"
| "chk_bind (Inr x) f = f x"

lemma chk_bind_Inr: "chk_bind c f = Inr y \<longleftrightarrow> (\<exists>x. c = Inr x \<and> f x = Inr y)"
  by (cases c) auto

section \<open>Words\<close>

named_theorems word_offset \<comment> \<open>address arithmetic on aligned blocks\<close>

lemma aligned_plus_eq_or:
  fixes a i :: "'a::len word"
  assumes "take_bit n a = 0" and "take_bit n i = i"
  shows "a + i = a OR i"
proof (rule disjunctive_add_eq_or, rule bit_word_eqI)
  fix k assume "k < LENGTH('a)"
  have "\<not> (k < n \<and> bit a k)" using assms(1) by (metis bit_0_eq bit_take_bit_iff bot_apply bot_bool_def)
  moreover have "bit i k \<Longrightarrow> k < n" using assms(2) by (metis bit_take_bit_iff)
  ultimately show "bit (a AND i) k = bit (0 :: 'a word) k"
    by (auto simp: bit_and_iff)
qed

lemma take_bit_offset:
  fixes a i :: "'a::len word"
  assumes "take_bit n a = 0" and "take_bit n i = i"
  shows "take_bit n (a + i) = i"
  using assms by (simp add: aligned_plus_eq_or)

lemma aligned_offset_eq:
  fixes a b i j :: "'a::len word"
  assumes "take_bit n a = 0" and "take_bit n b = 0"
    and "take_bit n i = i" and "take_bit n j = j"
  shows "a + i = b + j \<longleftrightarrow> a = b \<and> i = j"
  using assms take_bit_offset[of n a i] take_bit_offset[of n b j] by auto

lemma drop_bit_offset:
  fixes a i :: "'a::len word"
  assumes "take_bit n a = 0" and "take_bit n i = i"
  shows "drop_bit n (a + i) = drop_bit n a"
proof -
  have "drop_bit n (take_bit n i) = 0"
    by (simp add: drop_bit_take_bit)
  with assms show ?thesis by (simp add: aligned_plus_eq_or)
qed

lemma take_bit_mono_0:
  fixes a :: "'a::len word"
  shows "take_bit n a = 0 \<Longrightarrow> m \<le> n \<Longrightarrow> take_bit m a = 0"
  by (metis min.absorb1 take_bit_of_0 take_bit_take_bit)

lemma unat_minus_1 [simp]: "unat (- 1 :: u32) = 4294967295"
  by (simp add: unsigned_minus_1_eq_mask mask_eq_exp_minus_1)

lemma of_nat_eq_small:
  "(of_nat i :: u32) = of_nat j \<Longrightarrow> i < 2 ^ 32 \<Longrightarrow> j < 2 ^ 32 \<Longrightarrow> i = j"
  by (auto dest: arg_cong[of _ _ unat] simp: unat_of_nat)

lemma uint_small:
  assumes "unat (a :: u32) < 2 ^ 31"
  shows "0 \<le> uint a" and "uint a < 2147483648"
proof -
  have "unat a < 2147483648" using assms by simp
  then show "0 \<le> uint a" "uint a < 2147483648" unfolding uint_nat by linarith+
qed

lemma signed31_self: "- 2147483648 \<le> k \<Longrightarrow> k < 2147483648 \<Longrightarrow> signed_take_bit 31 k = (k :: int)"
  by (rule signed_take_bit_int_eq_self) simp_all

lemma sint_small:
  assumes "unat (a :: u32) < 2 ^ 31"
  shows "sint a = int (unat a)"
proof -
  have "signed_take_bit 31 (uint a) = uint a"
    using uint_small[OF assms] by (intro signed31_self) linarith+
  then show ?thesis by (simp add: sint_uint)
qed

lemma sint_diff_small:
  fixes a b :: u32
  assumes "unat a < 2 ^ 31" "unat b < 2 ^ 31"
  shows "sint (a - b) = int (unat a) - int (unat b)"
proof -
  have "signed_take_bit 31 (uint a - uint b) = uint a - uint b"
    using uint_small[OF assms(1)] uint_small[OF assms(2)]
    by (intro signed31_self) linarith+
  then show ?thesis
    using sint_word_ariths(2)[of a b] sint_small[OF assms(1)] sint_small[OF assms(2)] by simp
qed

lemma unat_add_le: "unat (a + b) \<le> unat a + unat (b :: u32)"
  by (simp add: unat_word_ariths)

lemma and_single_bit:
  fixes w :: "'a::len word"
  shows "w AND push_bit n 1 \<noteq> 0 \<longleftrightarrow> n < LENGTH('a) \<and> bit w n"
proof
  assume ne: "w AND push_bit n 1 \<noteq> 0"
  then obtain k where "bit (w AND push_bit n 1) k" by (metis bit_0_eq bit_eqI bot_apply bot_bool_def)
  then show "n < LENGTH('a) \<and> bit w n" by (auto simp: bit_simps)
next
  assume "n < LENGTH('a) \<and> bit w n"
  then have "bit (w AND push_bit n 1) n" by (simp add: bit_simps)
  then show "w AND push_bit n 1 \<noteq> 0" by (metis bit_0_eq bot_apply bot_bool_def)
qed

lemma take_bit_small:
  fixes w :: u32
  assumes "unat w < 2 ^ n"
  shows "take_bit n w = w"
  using assms by (metis take_bit_nat_eq_self unsigned_take_bit_eq unsigned_word_eqI)

section \<open>Chains of next pointers\<close>

text \<open>
  \<open>path nx p xs q\<close>: following \<open>nx\<close> from the pointer \<open>p\<close> (where \<open>None\<close> is
  \<open>NULL\<close>) visits exactly the nodes \<open>xs\<close>, in this order, and stands at the pointer
  \<open>q\<close> after the last. A chain is a path that ends at \<open>NULL\<close>.
\<close>

fun path :: "('a \<Rightarrow> 'a option) \<Rightarrow> 'a option \<Rightarrow> 'a list \<Rightarrow> 'a option \<Rightarrow> bool" where
  "path nx p [] q \<longleftrightarrow> p = q"
| "path nx p (x # xs) q \<longleftrightarrow> p = Some x \<and> path nx (nx x) xs q"

abbreviation chain :: "('a \<Rightarrow> 'a option) \<Rightarrow> 'a option \<Rightarrow> 'a list \<Rightarrow> bool" where
  "chain nx p xs \<equiv> path nx p xs None"

text \<open>A pointer of the C code, with 0 as \<open>NULL\<close>.\<close>

definition ptr_of :: "u32 \<Rightarrow> u32 option" where
  "ptr_of p = (if p = 0 then None else Some p)"

lemma ptr_of_simps [simp]: "ptr_of 0 = None" "p \<noteq> 0 \<Longrightarrow> ptr_of p = Some p"
  "ptr_of p = None \<longleftrightarrow> p = 0" "ptr_of p = Some x \<longleftrightarrow> p = x \<and> x \<noteq> 0"
  by (auto simp: ptr_of_def)

named_theorems chain_simps \<comment> \<open>chains under updates of the next pointers\<close>

lemma chain_None [simp]: "chain nx None xs \<longleftrightarrow> xs = []"
  by (cases xs) auto

lemma chain_Some: "chain nx (Some x) xs \<longleftrightarrow> (\<exists>ys. xs = x # ys \<and> chain nx (nx x) ys)"
  by (cases xs) auto

lemma path_append [chain_simps]:
  "path nx p (xs @ ys) q \<longleftrightarrow> (\<exists>r. path nx p xs r \<and> path nx r ys q)"
  by (induction xs arbitrary: p) auto

lemma path_cong: "(\<And>x. x \<in> set xs \<Longrightarrow> nx x = nx' x) \<Longrightarrow> path nx p xs q = path nx' p xs q"
  by (induction xs arbitrary: p) auto

lemma path_upd [chain_simps]: "a \<notin> set xs \<Longrightarrow> path (nx(a := v)) p xs q = path nx p xs q"
  by (rule path_cong) auto

lemma chain_unique: "chain nx p xs \<Longrightarrow> chain nx p ys \<Longrightarrow> xs = ys"
  by (induction xs arbitrary: p ys) (auto simp: chain_Some)

lemma chain_distinct: "chain nx p xs \<Longrightarrow> distinct xs"
proof (induction xs arbitrary: p)
  case Nil
  then show ?case by simp
next
  case (Cons x xs)
  have "x \<notin> set xs"
  proof
    assume "x \<in> set xs"
    then obtain us vs where xs: "xs = us @ x # vs"
      by (meson split_list)
    with Cons.prems have "chain nx (Some x) (x # us @ x # vs)" and "chain nx (Some x) (x # vs)"
      by (auto simp: path_append)
    then have "x # us @ x # vs = x # vs" by (rule chain_unique)
    then show False by simp
  qed
  with Cons show ?case by auto
qed

text \<open>Unlinking a node: its predecessor's pointer (or the head) takes its next pointer.\<close>

lemma chain_unlink_head: "chain nx (Some x) (x # xs) \<Longrightarrow> chain nx (nx x) xs"
  by simp

lemma chain_unlink:
  assumes "chain nx p (us @ y # x # vs)"
  shows "chain (nx(y := nx x)) p (us @ y # vs)"
proof -
  have "distinct (us @ y # x # vs)" by (rule chain_distinct [OF assms])
  with assms show ?thesis by (auto simp: chain_simps)
qed

text \<open>Linking a fresh node \<open>x\<close> in after \<open>y\<close>.\<close>

lemma chain_link:
  assumes "chain nx p (us @ y # vs)" and "x \<notin> set (us @ y # vs)"
  shows "chain (nx(x := nx y, y := Some x)) p (us @ y # x # vs)"
proof -
  have "distinct (us @ y # vs)" by (rule chain_distinct [OF assms(1)])
  with assms show ?thesis by (auto simp: chain_simps)
qed

end
