(* ===== verification/Memory.thy ===== *)
theory Memory
  imports Prelude
begin

text \<open>
  The kernel's address space as the C code sees it: 4 GiB (32-bit addresses), with the little-endian
  32-bit loads and stores of the x86, and address arithmetic modulo the word size. The heap, the
  string routines, the page tables and the files of the RAM file system all work on such a
  memory.
\<close>

type_synonym mem = "u32 \<Rightarrow> u8"

definition load32 :: "mem \<Rightarrow> u32 \<Rightarrow> u32" where
  "load32 m a = ucast (m a) OR push_bit 8 (ucast (m (a + 1)))
     OR push_bit 16 (ucast (m (a + 2))) OR push_bit 24 (ucast (m (a + 3)))"

definition store32 :: "mem \<Rightarrow> u32 \<Rightarrow> u32 \<Rightarrow> mem" where
  "store32 m a v = m(a := ucast v, a + 1 := ucast (drop_bit 8 v),
     a + 2 := ucast (drop_bit 16 v), a + 3 := ucast (drop_bit 24 v))"

abbreviation word_aligned :: "u32 \<Rightarrow> bool" where
  "word_aligned a \<equiv> take_bit 2 a = 0"

named_theorems mem_simps \<comment> \<open>loads after stores\<close>

lemma load32_store32 [mem_simps]: "load32 (store32 m a v) a = v"
proof (rule bit_word_eqI)
  fix k assume "k < LENGTH(32)"
  then consider "k < 8" | "8 \<le> k" "k < 16" | "16 \<le> k" "k < 24" | "24 \<le> k" "k < 32"
    by fastforce
  then show "bit (load32 (store32 m a v) a) k = bit v k"
    by cases (simp_all add: load32_def store32_def bit_simps less_diff_conv2)
qed

lemma store32_other:
  assumes "x \<notin> {a, a + 1, a + 2, a + 3}"
  shows "store32 m a v x = m x"
  using assms by (simp add: store32_def)

lemma load32_cong:
  "m a = m' a \<Longrightarrow> m (a + 1) = m' (a + 1) \<Longrightarrow> m (a + 2) = m' (a + 2) \<Longrightarrow>
    m (a + 3) = m' (a + 3) \<Longrightarrow> load32 m a = load32 m' a"
  by (simp add: load32_def)

lemma word_aligned_cells:
  fixes a b i j :: u32
  assumes "word_aligned a" "word_aligned b" "i \<in> {0, 1, 2, 3}" "j \<in> {0, 1, 2, 3}" "a \<noteq> b"
  shows "a + i \<noteq> b + j"
proof -
  have "take_bit 2 i = i" and "take_bit 2 j = j" using assms(3,4) by auto
  with aligned_offset_eq[of 2 a b i j] assms show ?thesis by simp
qed

lemma load32_store32_other [mem_simps]:
  assumes "word_aligned a" "word_aligned b" "a \<noteq> b"
  shows "load32 (store32 m a v) b = load32 m b"
proof (rule load32_cong)
  note cells = word_aligned_cells[OF assms(2,1) _ _ assms(3)[symmetric]]
  show "store32 m a v b = m b"
    using cells[of 0 0] cells[of 0 1] cells[of 0 2] cells[of 0 3] by (simp add: store32_other)
  show "store32 m a v (b + 1) = m (b + 1)"
    using cells[of 1 0] cells[of 1 1] cells[of 1 2] cells[of 1 3] by (simp add: store32_other)
  show "store32 m a v (b + 2) = m (b + 2)"
    using cells[of 2 0] cells[of 2 1] cells[of 2 2] cells[of 2 3] by (simp add: store32_other)
  show "store32 m a v (b + 3) = m (b + 3)"
    using cells[of 3 0] cells[of 3 1] cells[of 3 2] cells[of 3 3] by (simp add: store32_other)
qed

lemma same_block_iff_diff:
  fixes a x :: u32
  assumes al: "take_bit n a = 0" and n: "n < 32"
  shows "drop_bit n x = drop_bit n a \<longleftrightarrow> unat (x - a) < 2 ^ n"
proof -
  have a: "a = push_bit n (drop_bit n a)"
    using bits_ident[of n a] al by simp
  show ?thesis
  proof
    assume same: "drop_bit n x = drop_bit n a"
    have "x = push_bit n (drop_bit n x) + take_bit n x"
      by (metis bits_ident)
    with same a have "x - a = take_bit n x" by (metis add_diff_cancel_left')
    then show "unat (x - a) < 2 ^ n" by (simp add: unsigned_take_bit_eq take_bit_nat_less_exp)
  next
    assume less: "unat (x - a) < 2 ^ n"
    then have "take_bit n (x - a) = x - a"
      by (metis take_bit_nat_eq_self unsigned_take_bit_eq unsigned_word_eqI word_unat_eq_iff)
    then have "drop_bit n (a + (x - a)) = drop_bit n a" by (rule drop_bit_offset[OF al])
    then show "drop_bit n x = drop_bit n a" by simp
  qed
qed

section \<open>Areas of memory\<close>

text \<open>The \<open>c\<close> bytes from address \<open>p\<close> on.\<close>

definition payload :: "u32 \<Rightarrow> nat \<Rightarrow> u32 set" where
  "payload p c = {x. unat (x - p) < c}"

lemma payload_0 [simp]: "payload p 0 = {}"
  by (simp add: payload_def)

lemma payload_mono: "c \<le> d \<Longrightarrow> payload p c \<subseteq> payload p d"
  by (auto simp: payload_def)

lemma payload_Suc: "x \<in> payload p (Suc n) \<longleftrightarrow> x = p \<or> x \<in> payload (p + 1) n"
proof (cases "x = p")
  case True
  then show ?thesis by (simp add: payload_def)
next
  case False
  then have "x - p \<noteq> 0" by simp
  then have "unat (x - p - 1) = unat (x - p) - 1" "unat (x - p) \<noteq> 0"
    by (simp_all add: unat_minus_one unat_eq_0)
  with False show ?thesis by (auto simp: payload_def diff_diff_eq)
qed

lemma next_payload: "n < 2 ^ 32 \<Longrightarrow> p \<notin> payload (p + 1) n"
  by (simp add: payload_def)

lemma in_payload_iff: "n \<le> 2 ^ 32 \<Longrightarrow> x \<in> payload p n \<longleftrightarrow> (\<exists>i < n. x = p + of_nat i)"
proof
  assume "x \<in> payload p n"
  then show "\<exists>i < n. x = p + of_nat i"
    by (intro exI[of _ "unat (x - p)"]) (simp add: payload_def)
next
  assume n: "n \<le> 2 ^ 32" and "\<exists>i < n. x = p + of_nat i"
  then obtain i where "i < n" "x = p + of_nat i" by blast
  with n show "x \<in> payload p n" by (simp add: payload_def unat_of_nat)
qed

lemma payload_add: "a + b \<le> 2 ^ 32 \<Longrightarrow> x \<in> payload p (a + b) \<longleftrightarrow> x \<in> payload p a \<or> x \<in> payload (p + of_nat a) b"
proof (induction a arbitrary: p)
  case 0
  then show ?case by simp
next
  case (Suc a)
  have "x \<in> payload (p + 1) (a + b) \<longleftrightarrow> x \<in> payload (p + 1) a \<or> x \<in> payload (p + 1 + of_nat a) b"
    using Suc.prems by (intro Suc.IH) simp
  moreover have "p + 1 + of_nat a = p + of_nat (Suc a)" by simp
  ultimately show ?case by (simp add: payload_Suc)
qed

lemma payload_range:
  assumes "unat p + n \<le> 2 ^ 32" "x \<in> payload p n"
  shows "unat p \<le> unat x" and "unat x < unat p + n"
proof -
  have "unat (x - p) < n" using assms(2) by (simp add: payload_def)
  moreover have "unat x = unat p + unat (x - p)"
    using assms(1) calculation unat_word_ariths(1)[of p "x - p"] by simp
  ultimately show "unat p \<le> unat x" "unat x < unat p + n" by simp_all
qed

lemma payload_apart:
  assumes "unat p + n \<le> unat q" "unat q + m \<le> 2 ^ 32"
  shows "payload p n \<inter> payload q m = {}"
proof -
  have p: "unat p + n \<le> 2 ^ 32" using assms by simp
  have False if "x \<in> payload p n" "x \<in> payload q m" for x
    using payload_range(2)[OF p that(1)] payload_range(1)[OF assms(2) that(2)] assms(1) by simp
  then show ?thesis by blast
qed

end
