(* ===== verification/Machine.thy ===== *)
theory Machine
  imports Memory
begin

text \<open>
  The part of the machine state that every translation unit shares: what has been sent to
  the screen, what has been written to I/O ports, what the devices answer, and the
  interrupt flag. The state of a component is a record that extends this one by the static
  variables of its C file, and its operations are polymorphic in further extensions.

  A call of a routine of \<open>screen.c\<close> or of \<open>printf\<close> from another file is recorded as a
  console event; the theories \<open>Screen\<close> and \<open>Stdio\<close> give these events their meaning on the
  VGA text buffer. The arguments of a variadic call are a list of \<open>fmt_arg\<close>. The answers of
  the devices are an arbitrary function of the port and of how often it has been read
  (\<open>port_in\<close>), so that a theorem holds for every behaviour of the hardware.
\<close>

datatype fmt_arg =
    Word_arg u32
  | Str_arg "string option" \<comment> \<open>a \<open>char *\<close>, \<open>None\<close> for \<open>NULL\<close>\<close>

datatype console_event =
    Viprint string
  | Printf string "fmt_arg list"
  | Hexprint u32
  | Cprint u8
  | Set_text_color u8 u8
  | Init_screen
  | Clear_screen
  | Has_loaded
  | Vga_cell int u16 \<comment> \<open>a cell of the video memory written by another file\<close>
  | Set_cursor_position int int
  | Redraw_line string string int \<comment> \<open>\<open>shell_redraw_line\<close>: prompt, line and column of the cursor\<close>

record machine =
  console :: "console_event list"
  port_out :: "(u16 \<times> u32) list"
  port_in :: "u16 \<Rightarrow> nat \<Rightarrow> u32"
  port_reads :: "u16 \<Rightarrow> nat"
  iflag :: bool

section \<open>lib/io.c\<close>

definition outb :: "u16 \<Rightarrow> u8 \<Rightarrow> 'a machine_scheme \<Rightarrow> 'a machine_scheme" where
  "outb p v s = s\<lparr>port_out := port_out s @ [(p, ucast v)]\<rparr>"

definition outw :: "u16 \<Rightarrow> u16 \<Rightarrow> 'a machine_scheme \<Rightarrow> 'a machine_scheme" where
  "outw p v s = s\<lparr>port_out := port_out s @ [(p, ucast v)]\<rparr>"

definition outl :: "u16 \<Rightarrow> u32 \<Rightarrow> 'a machine_scheme \<Rightarrow> 'a machine_scheme" where
  "outl p v s = s\<lparr>port_out := port_out s @ [(p, v)]\<rparr>"

definition port_read :: "u16 \<Rightarrow> 'a machine_scheme \<Rightarrow> u32 \<times> 'a machine_scheme" where
  "port_read p s = (port_in s p (port_reads s p),
     s\<lparr>port_reads := (port_reads s)(p := Suc (port_reads s p))\<rparr>)"

definition inb :: "u16 \<Rightarrow> 'a machine_scheme \<Rightarrow> u8 \<times> 'a machine_scheme" where
  "inb p s = (let (v, s) = port_read p s in (ucast v, s))"

definition inw :: "u16 \<Rightarrow> 'a machine_scheme \<Rightarrow> u16 \<times> 'a machine_scheme" where
  "inw p s = (let (v, s) = port_read p s in (ucast v, s))"

definition inl :: "u16 \<Rightarrow> 'a machine_scheme \<Rightarrow> u32 \<times> 'a machine_scheme" where
  "inl p s = port_read p s"

definition io_wait :: "'a machine_scheme \<Rightarrow> 'a machine_scheme" where
  "io_wait = outb 0x80 0"

section \<open>Calls into screen.c\<close>

definition con :: "console_event \<Rightarrow> 'a machine_scheme \<Rightarrow> 'a machine_scheme" where
  "con e s = s\<lparr>console := console s @ [e]\<rparr>"

abbreviation viprint :: "string \<Rightarrow> 'a machine_scheme \<Rightarrow> 'a machine_scheme" where
  "viprint t \<equiv> con (Viprint t)"

abbreviation hexprint :: "u32 \<Rightarrow> 'a machine_scheme \<Rightarrow> 'a machine_scheme" where
  "hexprint v \<equiv> con (Hexprint v)"

abbreviation printf_event :: "string \<Rightarrow> fmt_arg list \<Rightarrow> 'a machine_scheme \<Rightarrow> 'a machine_scheme" where
  "printf_event f as \<equiv> con (Printf f as)"

abbreviation newline :: string where
  "newline \<equiv> [CHR 0x0A]"

section \<open>Interrupt flag\<close>

definition cli :: "'a machine_scheme \<Rightarrow> 'a machine_scheme" where
  "cli s = s\<lparr>iflag := False\<rparr>"

definition sti :: "'a machine_scheme \<Rightarrow> 'a machine_scheme" where
  "sti s = s\<lparr>iflag := True\<rparr>"

lemma con_more [simp]:
  "port_out (con e s) = port_out s" "port_in (con e s) = port_in s"
  "port_reads (con e s) = port_reads s" "iflag (con e s) = iflag s"
  "machine.more (con e s) = machine.more s"
  by (simp_all add: con_def)

lemma console_con [simp]: "console (con e s) = console s @ [e]"
  by (simp add: con_def)

end
