(* ===== verification/Heap.thy ===== *)
theory Heap
  imports Machine
begin

text \<open>
  The kernel heap of \<open>arch/x86/kernel/heap.c\<close>, a buddy allocator, at the level of the
  code: block headers are 16 bytes in memory (\<open>next\<close>, \<open>order\<close>, \<open>free\<close>, \<open>self\<close>, each
  32 bits), the free lists are singly linked through the headers, and an allocated pointer
  is the header's address plus 16. An operation that ends in the endless \<open>cli; hlt\<close> loop
  of the source, or that follows a cyclic list for ever, has the result \<open>None\<close>: it never
  returns.
\<close>

section \<open>Layout\<close>

definition HEAP_START :: u32 where "HEAP_START = 0x02000000"
definition HEAP_SIZE :: u32 where "HEAP_SIZE = 0x02000000"

abbreviation MIN_BLOCK_SHIFT :: nat where "MIN_BLOCK_SHIFT \<equiv> 5"
abbreviation MAX_BLOCK_SHIFT :: nat where "MAX_BLOCK_SHIFT \<equiv> 22"
definition MAX_BLOCK_SIZE :: u32 where "MAX_BLOCK_SIZE = push_bit MAX_BLOCK_SHIFT 1"
abbreviation HEADER_SIZE :: u32 where "HEADER_SIZE \<equiv> 16"

record heap = machine +
  hmem :: mem
  free_lists :: "nat \<Rightarrow> u32"
  heap_top :: u32

text \<open>The fields of \<open>block_t\<close> at their offsets.\<close>

definition get_fld :: "'a heap_scheme \<Rightarrow> u32 \<Rightarrow> u32 \<Rightarrow> u32" where
  "get_fld h b i = load32 (hmem h) (b + i)"

definition put_fld :: "u32 \<Rightarrow> u32 \<Rightarrow> u32 \<Rightarrow> 'a heap_scheme \<Rightarrow> 'a heap_scheme" where
  "put_fld b i v h = h\<lparr>hmem := store32 (hmem h) (b + i) v\<rparr>"

abbreviation "blk_next h b \<equiv> get_fld h b 0"
abbreviation "blk_order h b \<equiv> get_fld h b 4"
abbreviation "blk_free h b \<equiv> get_fld h b 8"
abbreviation "blk_self h b \<equiv> get_fld h b 12"

section \<open>Free lists\<close>

definition buddy_of :: "'a heap_scheme \<Rightarrow> u32 \<Rightarrow> u32" where
  "buddy_of h b = b XOR push_bit (unat (blk_order h b)) 1"

definition insert_free_block :: "u32 \<Rightarrow> 'a heap_scheme \<Rightarrow> 'a heap_scheme" where
  "insert_free_block b h =
     (let o' = unat (blk_order h b);
          h = put_fld b 0 (free_lists h o') h
      in h\<lparr>free_lists := (free_lists h)(o' := b)\<rparr>)"

text \<open>
  \<open>indirect\<close> of the source points either to a list head or to the \<open>next\<close> field of the
  block visited last.
\<close>

datatype cell = HeadCell nat | NextCell u32

fun cell_get :: "'a heap_scheme \<Rightarrow> cell \<Rightarrow> u32" where
  "cell_get h (HeadCell n) = free_lists h n"
| "cell_get h (NextCell b) = blk_next h b"

fun cell_set :: "cell \<Rightarrow> u32 \<Rightarrow> 'a heap_scheme \<Rightarrow> 'a heap_scheme" where
  "cell_set (HeadCell n) v h = h\<lparr>free_lists := (free_lists h)(n := v)\<rparr>"
| "cell_set (NextCell b) v h = put_fld b 0 v h"

partial_function (option) unlink_from ::
  "cell \<Rightarrow> u32 \<Rightarrow> 'a heap_scheme \<Rightarrow> 'a heap_scheme option" where
  "unlink_from indirect b h =
     (if cell_get h indirect = 0 then None
      else if cell_get h indirect = b
      then Some (put_fld b 0 0 (cell_set indirect (blk_next h b) h))
      else unlink_from (NextCell (cell_get h indirect)) b h)"

definition remove_free_block :: "u32 \<Rightarrow> 'a heap_scheme \<Rightarrow> 'a heap_scheme option" where
  "remove_free_block b h = unlink_from (HeadCell (unat (blk_order h b))) b h"

definition split_block :: "nat \<Rightarrow> 'a heap_scheme \<Rightarrow> 'a heap_scheme option" where
  "split_block order h =
     (let block = free_lists h order in
      case remove_free_block block h of None \<Rightarrow> None
      | Some h \<Rightarrow>
          let order = order - 1;
              h = put_fld block 4 (of_nat order) h;
              h = put_fld block 8 1 h;
              buddy = buddy_of h block;
              h = put_fld buddy 4 (of_nat order) h;
              h = put_fld buddy 8 1 h;
              h = put_fld buddy 12 0 h;
              h = insert_free_block block h;
              h = insert_free_block buddy h
          in Some h)"

function coalesce_loop :: "nat \<Rightarrow> u32 \<Rightarrow> 'a heap_scheme \<Rightarrow> (u32 \<times> 'a heap_scheme) option" where
  "coalesce_loop order block h =
     (if order < MAX_BLOCK_SHIFT then
        (let buddy = buddy_of h block in
         if blk_free h buddy = 0 \<or> blk_order h buddy \<noteq> of_nat order then Some (block, h)
         else case remove_free_block buddy h of None \<Rightarrow> None
           | Some h \<Rightarrow>
               let block = (if buddy < block then buddy else block);
                   order = order + 1;
                   h = put_fld block 4 (of_nat order) h;
                   h = put_fld block 8 1 h
               in coalesce_loop order block h)
      else Some (block, h))"
  by pat_completeness auto
termination by (relation "measure (\<lambda>(order, _, _). MAX_BLOCK_SHIFT - order)") auto

declare coalesce_loop.simps [simp del]

definition coalesce :: "u32 \<Rightarrow> 'a heap_scheme \<Rightarrow> (u32 \<times> 'a heap_scheme) option" where
  "coalesce block h = coalesce_loop (unat (blk_order h block)) block h"

section \<open>Initialisation\<close>

function shrink_order :: "u32 \<Rightarrow> nat \<Rightarrow> nat" where
  "shrink_order start max_order =
     (if MIN_BLOCK_SHIFT < max_order \<and> HEAP_START + HEAP_SIZE < start + push_bit max_order 1
      then shrink_order start (max_order - 1) else max_order)"
  by pat_completeness auto
termination by (relation "measure snd") auto

declare shrink_order.simps [simp del]

definition init_free_block :: "u32 \<Rightarrow> nat \<Rightarrow> 'a heap_scheme \<Rightarrow> 'a heap_scheme" where
  "init_free_block b order h =
     (let h = put_fld b 4 (of_nat order) h;
          h = put_fld b 8 1 h;
          h = put_fld b 0 0 h;
          h = put_fld b 12 0 h
      in h\<lparr>free_lists := (free_lists h)(order := b), heap_top := b + push_bit order 1\<rparr>)"

definition kmalloc_init :: "'a heap_scheme \<Rightarrow> 'a heap_scheme option" where
  "kmalloc_init h =
     (let h = h\<lparr>free_lists := (\<lambda>i. if i \<le> MAX_BLOCK_SHIFT then 0 else free_lists h i)\<rparr>;
          aligned_start = (HEAP_START + MAX_BLOCK_SIZE - 1) AND NOT (MAX_BLOCK_SIZE - 1)
      in if HEAP_START + HEAP_SIZE < aligned_start + MAX_BLOCK_SIZE then
           let max_order = shrink_order aligned_start MAX_BLOCK_SHIFT
           in if max_order < MIN_BLOCK_SHIFT then None
              else Some (init_free_block aligned_start max_order h)
         else Some (init_free_block aligned_start MAX_BLOCK_SHIFT h))"

definition heap_init :: "'a heap_scheme \<Rightarrow> 'a heap_scheme option" where
  "heap_init = kmalloc_init"

definition heap_get_start :: u32 where
  "heap_get_start = HEAP_START"

definition heap_get_current :: "'a heap_scheme \<Rightarrow> u32" where
  "heap_get_current h = heap_top h"

section \<open>Allocation\<close>

function order_for :: "u32 \<Rightarrow> nat \<Rightarrow> nat" where
  "order_for total_size order =
     (if order < MAX_BLOCK_SHIFT \<and> push_bit order 1 < total_size
      then order_for total_size (order + 1) else order)"
  by pat_completeness auto
termination by (relation "measure (\<lambda>(_, order). MAX_BLOCK_SHIFT - order)") auto

declare order_for.simps [simp del]

function first_nonempty :: "'a heap_scheme \<Rightarrow> nat \<Rightarrow> nat" where
  "first_nonempty h o' =
     (if o' \<le> MAX_BLOCK_SHIFT \<and> free_lists h o' = 0 then first_nonempty h (o' + 1) else o')"
  by pat_completeness auto
termination by (relation "measure (\<lambda>(_, o'). Suc MAX_BLOCK_SHIFT - o')") auto

declare first_nonempty.simps [simp del]

function split_down :: "nat \<Rightarrow> nat \<Rightarrow> 'a heap_scheme \<Rightarrow> 'a heap_scheme option" where
  "split_down o' order h =
     (if order < o' then
        (case split_block o' h of None \<Rightarrow> None | Some h \<Rightarrow> split_down (o' - 1) order h)
      else Some h)"
  by pat_completeness auto
termination by (relation "measure (\<lambda>(o', _, _). o')") auto

declare split_down.simps [simp del]

definition buddy_alloc :: "u32 \<Rightarrow> 'a heap_scheme \<Rightarrow> (u32 \<times> 'a heap_scheme) option" where
  "buddy_alloc sz h =
     (if sz = 0 then Some (0, h)
      else if - 1 - HEADER_SIZE < sz then Some (0, h)
      else
        let total_size = sz + HEADER_SIZE;
            order = order_for total_size MIN_BLOCK_SHIFT
        in if push_bit order 1 < total_size then Some (0, h)
           else
             let o' = first_nonempty h order
             in if MAX_BLOCK_SHIFT < o' then Some (0, h)
                else case split_down o' order h of None \<Rightarrow> None
                  | Some h \<Rightarrow>
                      let block = free_lists h order in
                      (case remove_free_block block h of None \<Rightarrow> None
                       | Some h \<Rightarrow>
                           let h = put_fld block 8 0 h;
                               h = put_fld block 12 block h
                           in Some (block + HEADER_SIZE, h)))"

definition buddy_free :: "u32 \<Rightarrow> 'a heap_scheme \<Rightarrow> 'a heap_scheme option" where
  "buddy_free ptr h =
     (if ptr = 0 then Some h
      else
        let block = load32 (hmem h) (ptr - 4)
        in if block = 0 \<or> blk_free h block \<noteq> 0 then None
           else case coalesce block (put_fld block 8 1 h) of None \<Rightarrow> None
             | Some (block, h) \<Rightarrow> Some (insert_free_block block h))"

definition kmalloc :: "u32 \<Rightarrow> 'a heap_scheme \<Rightarrow> (u32 \<times> 'a heap_scheme) option" where
  "kmalloc sz h =
     (if sz = 0 then Some (0, h)
      else if - 1 - 7 < sz then Some (0, h)
      else buddy_alloc ((sz + 7) AND NOT 7) h)"

definition kfree :: "u32 \<Rightarrow> 'a heap_scheme \<Rightarrow> 'a heap_scheme option" where
  "kfree = buddy_free"

fun heap_memset :: "u32 \<Rightarrow> u8 \<Rightarrow> nat \<Rightarrow> mem \<Rightarrow> mem" where
  "heap_memset p c 0 m = m"
| "heap_memset p c (Suc n) m = heap_memset (p + 1) c n (m(p := c))"

definition kcalloc :: "u32 \<Rightarrow> u32 \<Rightarrow> 'a heap_scheme \<Rightarrow> (u32 \<times> 'a heap_scheme) option" where
  "kcalloc nmemb sz h =
     (if nmemb = 0 \<or> sz = 0 then Some (0, h)
      else if - 1 div nmemb < sz then Some (0, h)
      else
        let total_size = nmemb * sz in
        case kmalloc total_size h of None \<Rightarrow> None
        | Some (ptr, h) \<Rightarrow>
            Some (ptr, if ptr \<noteq> 0 then h\<lparr>hmem := heap_memset ptr 0 (unat total_size) (hmem h)\<rparr> else h))"

text \<open>
  The search for the next power of two, with the variable \<open>a\<close> of the loop as \<open>push_bit k 1\<close>
  (\<open>k\<close> stays below 32: at 31 the doubling test fails); \<open>None\<close> is the \<open>return NULL\<close> of the
  source when the next doubling would overflow.
\<close>

function next_pow2 :: "u32 \<Rightarrow> nat \<Rightarrow> u32 option" where
  "next_pow2 alignment k =
     (if k < 32 \<and> push_bit k 1 < alignment then
        (if - 1 div 2 < (push_bit k 1 :: u32) then None else next_pow2 alignment (Suc k))
      else Some (push_bit k 1))"
  by pat_completeness auto
termination by (relation "measure (\<lambda>(_, k). 32 - k)") auto

declare next_pow2.simps [simp del]

definition kmalloc_aligned :: "u32 \<Rightarrow> u32 \<Rightarrow> 'a heap_scheme \<Rightarrow> (u32 \<times> 'a heap_scheme) option" where
  "kmalloc_aligned sz alignment h =
     (if sz = 0 then Some (0, h)
      else
        let alignment = (if alignment < 4 then 4 else alignment) in
        case (if alignment AND (alignment - 1) \<noteq> 0 then next_pow2 alignment 0 else Some alignment)
        of None \<Rightarrow> Some (0, h)
        | Some alignment \<Rightarrow>
            if - 1 - alignment - 4 < sz then Some (0, h)
            else
              let total_size = sz + alignment + 4 in
              case kmalloc total_size h of None \<Rightarrow> None
              | Some (raw, h) \<Rightarrow>
                  if raw = 0 then Some (0, h)
                  else
                    let aligned = (raw + 4 + alignment - 1) AND NOT (alignment - 1);
                        block = raw - HEADER_SIZE
                    in Some (aligned, h\<lparr>hmem := store32 (hmem h) (aligned - 4) block\<rparr>))"

end
