(* ===== verification/Heap_Blocks.thy ===== *)
theory Heap_Blocks
  imports Heap
begin

text \<open>
  The abstract view of the buddy heap: a map from block addresses to an order and a flag
  (free or in use), whose blocks partition the 4 MiB region the allocator manages. Splitting
  a block and merging two buddies keep the partition; a block's buddy address always carries
  a block of at most its own order. Everything here is about the map; the theories
  \<open>Heap_Lists\<close> and \<open>Heap_Correct\<close> relate it to the headers and free lists in memory.
\<close>

type_synonym blocks = "u32 \<Rightarrow> (nat \<times> bool) option"

definition in_region :: "u32 \<Rightarrow> bool" where
  "in_region x \<longleftrightarrow> drop_bit 22 x = 8"

abbreviation same_block :: "nat \<Rightarrow> u32 \<Rightarrow> u32 \<Rightarrow> bool" where
  "same_block n x a \<equiv> drop_bit n x = drop_bit n a"

abbreviation buddy_addr :: "nat \<Rightarrow> u32 \<Rightarrow> u32" where
  "buddy_addr n a \<equiv> flip_bit n a"

definition blocks_placed :: "blocks \<Rightarrow> bool" where
  "blocks_placed B \<longleftrightarrow> (\<forall>a n f. B a = Some (n, f) \<longrightarrow>
     5 \<le> n \<and> n \<le> 22 \<and> in_region a \<and> take_bit n a = 0)"

definition blocks_cover :: "blocks \<Rightarrow> bool" where
  "blocks_cover B \<longleftrightarrow> (\<forall>x. in_region x \<longrightarrow> (\<exists>a n f. B a = Some (n, f) \<and> same_block n x a))"

definition blocks_disjoint :: "blocks \<Rightarrow> bool" where
  "blocks_disjoint B \<longleftrightarrow> (\<forall>x a n f b m g. B a = Some (n, f) \<longrightarrow> B b = Some (m, g) \<longrightarrow>
     same_block n x a \<longrightarrow> same_block m x b \<longrightarrow> a = b)"

definition wf_blocks :: "blocks \<Rightarrow> bool" where
  "wf_blocks B \<longleftrightarrow> blocks_placed B \<and> blocks_cover B \<and> blocks_disjoint B"

section \<open>Bits of block addresses\<close>

lemma same_block_iff_bits: "same_block n x a \<longleftrightarrow> (\<forall>k. n \<le> k \<longrightarrow> k < 32 \<longrightarrow> bit x k = bit a k)"
proof
  assume *: "same_block n x a"
  show "\<forall>k. n \<le> k \<longrightarrow> k < 32 \<longrightarrow> bit x k = bit a k"
  proof (intro allI impI)
    fix k assume "n \<le> k" "k < 32"
    with * have "bit (drop_bit n x) (k - n) = bit (drop_bit n a) (k - n)" by simp
    with \<open>n \<le> k\<close> show "bit x k = bit a k" by (simp add: bit_drop_bit_eq)
  qed
next
  assume bits: "\<forall>k. n \<le> k \<longrightarrow> k < 32 \<longrightarrow> bit x k = bit a k"
  show "same_block n x a"
  proof (rule bit_word_eqI)
    fix k
    show "bit (drop_bit n x) k = bit (drop_bit n a) k"
    proof (cases "n + k < 32")
      case True
      with bits show ?thesis by (simp add: bit_drop_bit_eq)
    next
      case False
      then have "\<not> bit x (n + k)" "\<not> bit a (n + k)"
        using bit_imp_le_length[of x "n + k"] bit_imp_le_length[of a "n + k"] by auto
      then show ?thesis by (simp add: bit_drop_bit_eq)
    qed
  qed
qed

lemma take_bit_0_iff_bits: "take_bit n (a :: u32) = 0 \<longleftrightarrow> (\<forall>k < n. k < 32 \<longrightarrow> \<not> bit a k)"
proof
  assume "take_bit n a = 0"
  then show "\<forall>k < n. k < 32 \<longrightarrow> \<not> bit a k" by (metis bit_0_eq bit_take_bit_iff bot_apply bot_bool_def)
next
  assume "\<forall>k < n. k < 32 \<longrightarrow> \<not> bit a k"
  then show "take_bit n a = 0"
    by (intro bit_word_eqI) (auto simp: bit_take_bit_iff)
qed

lemma same_block_mono: "n \<le> m \<Longrightarrow> same_block n x a \<Longrightarrow> same_block m x a"
  by (auto simp: same_block_iff_bits)

lemma aligned_same_block:
  fixes a b :: u32
  assumes "take_bit n a = 0" "take_bit n b = 0" "same_block n a b"
  shows "a = b"
proof (rule bit_word_eqI)
  fix k assume "k < LENGTH(32)"
  with assms show "bit a k = bit b k"
    by (cases "n \<le> k") (auto simp: same_block_iff_bits take_bit_0_iff_bits)
qed

lemma bit_buddy: "k < 32 \<Longrightarrow> bit (buddy_addr n a) k \<longleftrightarrow> (if k = n then \<not> bit a k else bit a k)"
  by (auto simp: bit_flip_bit_iff)

lemma buddy_involution [simp]: "buddy_addr n (buddy_addr n a) = a"
  by (rule bit_word_eqI) (auto simp: bit_buddy)

lemma buddy_neq: "n < 32 \<Longrightarrow> buddy_addr n a \<noteq> a"
  by (metis bit_buddy)

lemma buddy_same_block: "n < m \<Longrightarrow> same_block m (buddy_addr n a) a"
  by (auto simp: same_block_iff_bits bit_buddy)

lemma buddy_aligned: "m \<le> n \<Longrightarrow> take_bit m (buddy_addr n a) = 0 \<longleftrightarrow> take_bit m (a :: u32) = 0"
  by (auto simp: take_bit_0_iff_bits bit_buddy)

lemma in_region_cong: "n \<le> 22 \<Longrightarrow> same_block n x a \<Longrightarrow> in_region x = in_region a"
  using same_block_mono[of n 22 x a] by (simp add: in_region_def)

lemma in_region_buddy: "n < 22 \<Longrightarrow> in_region (buddy_addr n a) = in_region a"
  by (rule in_region_cong[of 22]) (simp_all add: buddy_same_block)

lemma same_block_Suc:
  "n < 32 \<Longrightarrow> same_block (Suc n) x a \<longleftrightarrow> same_block n x a \<or> same_block n x (buddy_addr n a)"
proof
  assume n: "n < 32" and *: "same_block (Suc n) x a"
  show "same_block n x a \<or> same_block n x (buddy_addr n a)"
  proof (cases "bit x n = bit a n")
    case True
    with * show ?thesis by (metis le_antisym not_less_eq_eq same_block_iff_bits)
  next
    case False
    have "same_block n x (buddy_addr n a)"
      unfolding same_block_iff_bits
    proof (intro allI impI)
      fix k assume k: "n \<le> k" "k < 32"
      with * have "k \<noteq> n \<Longrightarrow> bit x k = bit a k" by (simp add: same_block_iff_bits)
      with k False show "bit x k = bit (buddy_addr n a) k" by (auto simp: bit_buddy)
    qed
    then show ?thesis ..
  qed
next
  assume "n < 32" and "same_block n x a \<or> same_block n x (buddy_addr n a)"
  then show "same_block (Suc n) x a"
    using same_block_mono[of n "Suc n" x] buddy_same_block[of n "Suc n" a] by (metis lessI less_or_eq_imp_le)
qed

lemma not_same_block_buddy:
  assumes "n < 32" "same_block n x a"
  shows "\<not> same_block n x (buddy_addr n a)"
  using assms by (auto simp: same_block_iff_bits bit_buddy)

lemma buddy_less_iff: "n < 32 \<Longrightarrow> buddy_addr n a < a \<longleftrightarrow> bit a n"
proof
  assume n: "n < 32" and "bit a n"
  then have "buddy_addr n a = a AND NOT (push_bit n 1)"
    by (intro bit_word_eqI) (auto simp: bit_buddy bit_simps)
  then have "buddy_addr n a \<le> a" by (simp add: word_and_le2)
  with buddy_neq[OF n, of a] show "buddy_addr n a < a" by simp
next
  assume n: "n < 32" and less: "buddy_addr n a < a"
  show "bit a n"
  proof (rule ccontr)
    assume "\<not> bit a n"
    then have "buddy_addr n a = a OR push_bit n 1"
      using n by (intro bit_word_eqI) (auto simp: bit_buddy bit_simps)
    then have "a \<le> buddy_addr n a" using le_word_or2[of a] by simp
    with less show False by simp
  qed
qed

lemma lower_buddy_aligned:
  fixes a :: u32
  assumes "n < 32" "take_bit n a = 0"
  shows "take_bit (Suc n) (if buddy_addr n a < a then buddy_addr n a else a) = 0"
  using assms buddy_less_iff[OF assms(1), of a]
  by (auto simp: take_bit_0_iff_bits bit_buddy less_Suc_eq)

section \<open>The partition\<close>

lemma placedD:
  "wf_blocks B \<Longrightarrow> B a = Some (n, f) \<Longrightarrow> 5 \<le> n \<and> n \<le> 22 \<and> in_region a \<and> take_bit n a = 0"
  by (auto simp: wf_blocks_def blocks_placed_def)

lemma disjointD:
  "wf_blocks B \<Longrightarrow> B a = Some (n, f) \<Longrightarrow> B b = Some (m, g) \<Longrightarrow> same_block n x a \<Longrightarrow>
    same_block m x b \<Longrightarrow> a = b"
  unfolding wf_blocks_def blocks_disjoint_def by blast

lemma coverD:
  "wf_blocks B \<Longrightarrow> in_region x \<Longrightarrow> \<exists>a n f. B a = Some (n, f) \<and> same_block n x a"
  unfolding wf_blocks_def blocks_cover_def by blast

lemma block_aligned32: "wf_blocks B \<Longrightarrow> B a = Some (n, f) \<Longrightarrow> take_bit 5 a = 0"
  using placedD[of B a n f] take_bit_mono_0[of n a 5] by simp

lemma region_nonzero: "in_region a \<Longrightarrow> a \<noteq> 0"
  by (auto simp: in_region_def)

text \<open>
  The header of a block's buddy is never garbage: the address carries a block, of the same
  order or a smaller one.
\<close>

lemma buddy_is_block:
  assumes wf: "wf_blocks B" and a: "B a = Some (n, f)" and n: "n < 22"
  shows "\<exists>m g. B (buddy_addr n a) = Some (m, g) \<and> m \<le> n"
proof -
  let ?b = "buddy_addr n a"
  note pa = placedD[OF wf a]
  have "in_region ?b" using pa n by (simp add: in_region_buddy)
  then obtain c m g where c: "B c = Some (m, g)" "same_block m ?b c"
    using coverD[OF wf] by blast
  note pc = placedD[OF wf c(1)]
  have "m \<le> n"
  proof (rule ccontr)
    assume "\<not> m \<le> n"
    then have "same_block m a c" using c(2) buddy_same_block[of n m a] by simp
    then have "a = c" using disjointD[OF wf a c(1), of a] by simp
    with a c \<open>\<not> m \<le> n\<close> show False by simp
  qed
  moreover have "take_bit m ?b = 0"
    using pa \<open>m \<le> n\<close> take_bit_mono_0[of n a m] by (simp add: buddy_aligned)
  then have "?b = c" using aligned_same_block c(2) pc by blast
  ultimately show ?thesis using c(1) by auto
qed

lemma buddy_not_block:
  assumes wf: "wf_blocks B" and a: "B a = Some (Suc n, f)"
  shows "B (buddy_addr n a) = None"
proof (rule ccontr)
  assume "B (buddy_addr n a) \<noteq> None"
  then obtain m g where b: "B (buddy_addr n a) = Some (m, g)" by auto
  have "buddy_addr n a = a"
    using disjointD[OF wf b a, of "buddy_addr n a"] buddy_same_block[of n "Suc n" a] by simp
  with buddy_neq[of n a] placedD[OF wf a] show False by simp
qed

definition split_blocks :: "nat \<Rightarrow> u32 \<Rightarrow> blocks \<Rightarrow> blocks" where
  "split_blocks n a B = B(a \<mapsto> (n, True), buddy_addr n a \<mapsto> (n, True))"

lemma wf_split:
  assumes wf: "wf_blocks B" and a: "B a = Some (Suc n, f)" and n: "5 \<le> n"
  shows "wf_blocks (split_blocks n a B)"
proof -
  let ?b = "buddy_addr n a" and ?B = "split_blocks n a B"
  note pa = placedD[OF wf a]
  have ab: "?b \<noteq> a" using buddy_neq pa by simp
  have b: "B ?b = None" by (rule buddy_not_block[OF wf a])
  have cases: "(c = a \<or> c = ?b) \<and> m = n \<and> g \<or> c \<noteq> a \<and> c \<noteq> ?b \<and> B c = Some (m, g)"
    if "?B c = Some (m, g)" for c m g
    using that by (auto simp: split_blocks_def split: if_splits)
  have "blocks_placed ?B"
    unfolding blocks_placed_def
  proof (intro allI impI)
    fix c m g assume "?B c = Some (m, g)"
    from cases[OF this] show "5 \<le> m \<and> m \<le> 22 \<and> in_region c \<and> take_bit m c = 0"
      using pa n placedD[OF wf, of c m g]
      by (auto simp: in_region_buddy buddy_aligned take_bit_mono_0[of "Suc n"])
  qed
  moreover have "blocks_cover ?B"
    unfolding blocks_cover_def
  proof (intro allI impI)
    fix x assume "in_region x"
    then obtain c m g where c: "B c = Some (m, g)" "same_block m x c"
      using coverD[OF wf] by blast
    show "\<exists>a' m g. ?B a' = Some (m, g) \<and> same_block m x a'"
    proof (cases "c = a")
      case True
      with c a have "same_block (Suc n) x a" by simp
      then have "same_block n x a \<or> same_block n x ?b"
        using pa same_block_Suc[of n x a] by simp
      then show ?thesis using ab by (auto simp: split_blocks_def)
    next
      case False
      with c b have "?B c = Some (m, g)" by (auto simp: split_blocks_def)
      with c show ?thesis by blast
    qed
  qed
  moreover have "blocks_disjoint ?B"
    unfolding blocks_disjoint_def
  proof (intro allI impI)
    fix x c m g d k e
    assume c: "?B c = Some (m, g)" and d: "?B d = Some (k, e)"
      and xc: "same_block m x c" and xd: "same_block k x d"
    have in_a: "same_block (Suc n) x a" if "same_block n x a \<or> same_block n x ?b"
      using that pa by (simp add: same_block_Suc)
    have not_both: "\<not> (same_block n x a \<and> same_block n x ?b)"
      using not_same_block_buddy[of n x a] pa by auto
    show "c = d"
      using cases[OF c] cases[OF d] xc xd not_both in_a
        disjointD[OF wf a, of c m g x] disjointD[OF wf a, of d k e x]
        disjointD[OF wf, of c m g d k e x] by metis
  qed
  ultimately show ?thesis by (simp add: wf_blocks_def)
qed

definition merge_blocks :: "nat \<Rightarrow> u32 \<Rightarrow> u32 \<Rightarrow> blocks \<Rightarrow> blocks" where
  "merge_blocks n lo hi B = B(hi := None, lo \<mapsto> (Suc n, True))"

lemma wf_merge:
  assumes wf: "wf_blocks B" and lo: "B lo = Some (n, f)" and hi: "B (buddy_addr n lo) = Some (n, g)"
    and al: "take_bit (Suc n) lo = 0" and n: "n < 22"
  shows "wf_blocks (merge_blocks n lo (buddy_addr n lo) B)"
proof -
  let ?hi = "buddy_addr n lo" and ?B = "merge_blocks n lo (buddy_addr n lo) B"
  note plo = placedD[OF wf lo]
  have neq: "?hi \<noteq> lo" using buddy_neq n by simp
  have cases: "c = lo \<and> m = Suc n \<or> c \<noteq> lo \<and> c \<noteq> ?hi \<and> B c = Some (m, e)"
    if "?B c = Some (m, e)" for c m e
    using that by (auto simp: merge_blocks_def split: if_splits)
  have "blocks_placed ?B"
    unfolding blocks_placed_def
  proof (intro allI impI)
    fix c m e assume "?B c = Some (m, e)"
    from cases[OF this] show "5 \<le> m \<and> m \<le> 22 \<and> in_region c \<and> take_bit m c = 0"
      using plo n al placedD[OF wf, of c m e] by auto
  qed
  moreover have "blocks_cover ?B"
    unfolding blocks_cover_def
  proof (intro allI impI)
    fix x assume "in_region x"
    then obtain c m e where c: "B c = Some (m, e)" "same_block m x c"
      using coverD[OF wf] by blast
    show "\<exists>a m g. ?B a = Some (m, g) \<and> same_block m x a"
    proof (cases "c = lo \<or> c = ?hi")
      case True
      with c lo hi have "same_block n x lo \<or> same_block n x ?hi" by auto
      then have "same_block (Suc n) x lo" using n by (simp add: same_block_Suc)
      then show ?thesis using neq by (intro exI[of _ lo]) (auto simp: merge_blocks_def)
    next
      case False
      with c show ?thesis by (auto simp: merge_blocks_def)
    qed
  qed
  moreover have "blocks_disjoint ?B"
    unfolding blocks_disjoint_def
  proof (intro allI impI)
    fix x c m e d k e'
    assume c: "?B c = Some (m, e)" and d: "?B d = Some (k, e')"
      and xc: "same_block m x c" and xd: "same_block k x d"
    have split: "same_block n x lo \<or> same_block n x ?hi" if "same_block (Suc n) x lo"
      using that n by (simp add: same_block_Suc)
    have other: "False" if "same_block (Suc n) x lo" "y \<noteq> lo" "y \<noteq> ?hi" "B y = Some (j, i)"
      "same_block j x y" for y j i
      using split[OF that(1)] disjointD[OF wf lo that(4), of x] disjointD[OF wf hi that(4), of x]
        that by auto
    show "c = d"
      using cases[OF c] cases[OF d] xc xd other[of c m e] other[of d k e']
        disjointD[OF wf, of c m e d k e' x] by metis
  qed
  ultimately show ?thesis by (simp add: wf_blocks_def)
qed

text \<open>Changing only the flags of blocks keeps the partition.\<close>

lemma wf_flags:
  assumes wf: "wf_blocks B" and orders: "\<And>a. map_option fst (C a) = map_option fst (B a)"
  shows "wf_blocks C"
proof -
  have CB: "\<exists>g. B a = Some (n, g)" if "C a = Some (n, f)" for a n f
    using orders[of a] that by (cases "B a") auto
  have BC: "\<exists>g. C a = Some (n, g)" if "B a = Some (n, f)" for a n f
    using orders[of a] that by (cases "C a") auto
  have "blocks_placed C"
    unfolding blocks_placed_def using CB placedD[OF wf] by blast
  moreover have "blocks_cover C"
    unfolding blocks_cover_def using BC coverD[OF wf] by blast
  moreover have "blocks_disjoint C"
    unfolding blocks_disjoint_def using CB disjointD[OF wf] by blast
  ultimately show ?thesis by (simp add: wf_blocks_def)
qed

lemma wf_set_flag: "wf_blocks B \<Longrightarrow> B a = Some (n, f) \<Longrightarrow> wf_blocks (B(a \<mapsto> (n, g)))"
  by (rule wf_flags[of B]) (auto split: if_splits)

section \<open>Free buddies\<close>

text \<open>
  No two buddies of the same order are both free, except possibly a pair that contains the
  block \<open>c\<close>.
\<close>

definition coalesced_but :: "u32 option \<Rightarrow> blocks \<Rightarrow> bool" where
  "coalesced_but c B \<longleftrightarrow> (\<forall>a n. B a = Some (n, True) \<longrightarrow> n < 22 \<longrightarrow>
     B (buddy_addr n a) = Some (n, True) \<longrightarrow> c = Some a \<or> c = Some (buddy_addr n a))"

abbreviation coalesced :: "blocks \<Rightarrow> bool" where
  "coalesced \<equiv> coalesced_but None"

lemma coalesced_weaken: "coalesced B \<Longrightarrow> coalesced_but c B"
  by (auto simp: coalesced_but_def)

text \<open>Without a block in use, full coalescing leaves the single maximal block.\<close>

lemma all_free_single_block:
  assumes wf: "wf_blocks B" and co: "coalesced B" and free: "\<And>a n f. B a = Some (n, f) \<Longrightarrow> f"
  shows "B = [HEAP_START \<mapsto> (22, True)]"
proof -
  have all22: "n = 22" if "B a = Some (n, f)" for a n f
    using that
  proof (induction n arbitrary: a f rule: less_induct)
    case (less n)
    show ?case
    proof (rule ccontr)
      assume "n \<noteq> 22"
      with placedD[OF wf less.prems] have n: "n < 22" by simp
      with buddy_is_block[OF wf less.prems] obtain m g
        where b: "B (buddy_addr n a) = Some (m, g)" "m \<le> n" by blast
      show False
      proof (cases "m < n")
        case True
        with less.IH b n show False by fastforce
      next
        case False
        with b have "B (buddy_addr n a) = Some (n, True)" using free by fastforce
        moreover have "B a = Some (n, True)" using free less.prems by fastforce
        ultimately show False using co n by (auto simp: coalesced_but_def)
      qed
    qed
  qed
  have start: "in_region HEAP_START" "take_bit 22 HEAP_START = 0"
    by (simp_all add: in_region_def HEAP_START_def)
  have only: "a = HEAP_START \<and> n = 22 \<and> f" if "B a = Some (n, f)" for a n f
  proof -
    note pa = placedD[OF wf that] and n22 = all22[OF that]
    have "a = HEAP_START"
      using pa n22 start aligned_same_block[of 22 a HEAP_START] by (simp add: in_region_def)
    with n22 free[OF that] show ?thesis by simp
  qed
  obtain a n f where "B a = Some (n, f)" using coverD[OF wf start(1)] by blast
  with only have *: "B HEAP_START = Some (22, True)" by metis
  have "B x = None" if "x \<noteq> HEAP_START" for x
    using only[of x] that by (cases "B x") auto
  with * show ?thesis by (intro ext) simp
qed

end
