(* ===== verification/Heap_Lists.thy ===== *)
theory Heap_Lists
  imports Heap_Blocks
begin

text \<open>
  How the memory of the heap carries a block map. \<open>heap_rep h B\<close> says that every block of
  \<open>B\<close> has its header in the memory of \<open>h\<close>, and that the free list of each order is a chain
  through the headers of exactly the free blocks of that order. The two list operations of
  \<open>heap.c\<close>, unlinking and inserting a block, are shown to keep this relation and to write
  nothing but the headers of free blocks.
\<close>

section \<open>Header fields in memory\<close>

abbreviation hdr_aligned :: "u32 \<Rightarrow> bool" where
  "hdr_aligned a \<equiv> take_bit 5 a = 0"

abbreviation is_fld :: "u32 \<Rightarrow> bool" where
  "is_fld i \<equiv> i \<in> {0, 4, 8, 12}"

lemma fld_small: "is_fld i \<Longrightarrow> take_bit 5 i = i \<and> take_bit 4 i = i \<and> take_bit 2 i = 0"
  by auto

lemma fld_addr_aligned:
  assumes "hdr_aligned a" "is_fld i"
  shows "word_aligned (a + i)"
proof -
  have "take_bit 5 (a + i) = i" using assms fld_small by (intro take_bit_offset) auto
  then have "take_bit 2 (take_bit 5 (a + i)) = 0" using assms(2) by auto
  then show ?thesis by (simp add: take_bit_take_bit)
qed

lemma get_put [simp]:
  assumes "hdr_aligned a" "hdr_aligned b" "is_fld i" "is_fld j"
  shows "get_fld (put_fld b i v h) a j = (if a = b \<and> i = j then v else get_fld h a j)"
proof (cases "a = b \<and> i = j")
  case True
  then show ?thesis by (simp add: get_fld_def put_fld_def mem_simps)
next
  case False
  then have "b + i \<noteq> a + j"
    using aligned_offset_eq[of 5 b a i j] assms fld_small[of i] fld_small[of j] by auto
  then have "load32 (store32 (hmem h) (b + i) v) (a + j) = load32 (hmem h) (a + j)"
    by (intro load32_store32_other fld_addr_aligned assms)
  with False show ?thesis by (auto simp: get_fld_def put_fld_def)
qed

lemma put_fld_lists [simp]: "free_lists (put_fld b i v h) = free_lists h"
  by (simp add: put_fld_def)

lemma get_fld_lists [simp]: "get_fld (h\<lparr>free_lists := f\<rparr>) a i = get_fld h a i"
  by (simp add: get_fld_def)

lemma hmem_put_fld:
  assumes "hdr_aligned b" "is_fld i" "drop_bit 4 x \<noteq> drop_bit 4 b"
  shows "hmem (put_fld b i v h) x = hmem h x"
proof -
  have al: "take_bit 4 b = 0" using assms(1) take_bit_mono_0[of 5 b 4] by simp
  have "x \<noteq> b + j" if "take_bit 4 j = j" for j
    using drop_bit_offset[OF al that] assms(3) by auto
  from this[of "i"] this[of "i + 1"] this[of "i + 2"] this[of "i + 3"] assms(2)
  show ?thesis by (auto simp: put_fld_def add.assoc intro!: store32_other)
qed

section \<open>The free lists as chains\<close>

definition nxt :: "'a heap_scheme \<Rightarrow> u32 \<Rightarrow> u32 option" where
  "nxt h a = ptr_of (blk_next h a)"

definition lists_ok :: "'a heap_scheme \<Rightarrow> (u32 \<Rightarrow> nat option) \<Rightarrow> bool" where
  "lists_ok h L \<longleftrightarrow> (\<forall>n \<le> 22. \<exists>xs. chain (nxt h) (ptr_of (free_lists h n)) xs \<and> set xs = {a. L a = Some n})"

definition listed_aligned :: "(u32 \<Rightarrow> nat option) \<Rightarrow> bool" where
  "listed_aligned L \<longleftrightarrow> (\<forall>a n. L a = Some n \<longrightarrow> hdr_aligned a \<and> a \<noteq> 0 \<and> n \<le> 22)"

text \<open>Memory changes only in the headers at the addresses \<open>S\<close>.\<close>

definition keeps :: "u32 set \<Rightarrow> 'a heap_scheme \<Rightarrow> 'a heap_scheme \<Rightarrow> bool" where
  "keeps S h h' \<longleftrightarrow> (\<forall>x. (\<forall>a \<in> S. drop_bit 4 x \<noteq> drop_bit 4 a) \<longrightarrow> hmem h' x = hmem h x)"

lemma keeps_refl [simp]: "keeps S h h"
  by (simp add: keeps_def)

lemma keeps_trans [trans]: "keeps S h h' \<Longrightarrow> keeps S h' h'' \<Longrightarrow> keeps S h h''"
  by (simp add: keeps_def)

lemma keeps_mono: "keeps S h h' \<Longrightarrow> S \<subseteq> R \<Longrightarrow> keeps R h h'"
  by (auto simp: keeps_def)

lemma keeps_put: "hdr_aligned b \<Longrightarrow> is_fld i \<Longrightarrow> b \<in> S \<Longrightarrow> keeps S h h' \<Longrightarrow> keeps S h (put_fld b i v h')"
  by (auto simp: keeps_def hmem_put_fld)

lemma keeps_lists [simp]: "keeps S h (h'\<lparr>free_lists := f\<rparr>) = keeps S h h'"
  by (simp add: keeps_def)

text \<open>Two states with the same order, free and self fields in every header.\<close>

definition same_hdrs :: "'a heap_scheme \<Rightarrow> 'a heap_scheme \<Rightarrow> bool" where
  "same_hdrs h h' \<longleftrightarrow> (\<forall>a i. hdr_aligned a \<longrightarrow> i \<in> {4, 8, 12} \<longrightarrow> get_fld h' a i = get_fld h a i)"

lemma same_hdrsD: "same_hdrs h h' \<Longrightarrow> hdr_aligned a \<Longrightarrow> i \<in> {4, 8, 12} \<Longrightarrow> get_fld h' a i = get_fld h a i"
  unfolding same_hdrs_def by blast

lemma ptr_next: "ptr_of (blk_next h a) = nxt h a"
  by (simp add: nxt_def)

lemma path_put_next:
  assumes "hdr_aligned b" "\<And>x. x \<in> set xs \<Longrightarrow> hdr_aligned x"
  shows "path (nxt (put_fld b 0 v h)) p xs q = path ((nxt h)(b := ptr_of v)) p xs q"
  by (rule path_cong) (use assms in \<open>auto simp: nxt_def\<close>)

lemma nxt_lists [simp]: "nxt (h\<lparr>free_lists := f\<rparr>) = nxt h"
  by (auto simp: nxt_def)

lemma nxt_put_other:
  assumes "hdr_aligned b" "is_fld i" "i \<noteq> 0" "\<And>x. x \<in> set xs \<Longrightarrow> hdr_aligned x"
  shows "path (nxt (put_fld b i v h)) p xs q = path (nxt h) p xs q"
  by (rule path_cong) (use assms in \<open>auto simp: nxt_def\<close>)

lemma lists_ok_put_other:
  assumes "lists_ok h L" "listed_aligned L" "hdr_aligned b" "is_fld i" "i \<noteq> 0 \<or> L b = None"
  shows "lists_ok (put_fld b i v h) L"
  unfolding lists_ok_def
proof (intro allI impI)
  fix n :: nat assume "n \<le> 22"
  then obtain xs where xs: "chain (nxt h) (ptr_of (free_lists h n)) xs" "set xs = {a. L a = Some n}"
    using assms(1) by (auto simp: lists_ok_def)
  have al: "hdr_aligned x" if "x \<in> set xs" for x
    using that xs(2) assms(2) by (auto simp: listed_aligned_def)
  have "chain (nxt (put_fld b i v h)) (ptr_of (free_lists h n)) xs"
  proof (cases "i = 0")
    case True
    with assms(5) xs(2) have "b \<notin> set xs" by auto
    then show ?thesis
      using xs(1) True path_put_next[OF assms(3), of xs v h] al by (simp add: path_upd)
  next
    case False
    show ?thesis
      using xs(1) nxt_put_other[OF assms(3,4) False, of xs v h] al by simp
  qed
  with xs(2) show "\<exists>xs. chain (nxt (put_fld b i v h)) (ptr_of (free_lists (put_fld b i v h) n)) xs \<and>
      set xs = {a. L a = Some n}" by (intro exI[of _ xs]) simp
qed

lemma lists_okE:
  assumes "lists_ok h L" "n \<le> 22"
  obtains xs where "chain (nxt h) (ptr_of (free_lists h n)) xs" "set xs = {a. L a = Some n}"
  using assms by (auto simp: lists_ok_def)

lemma lists_head:
  assumes "lists_ok h L" "n \<le> 22" "free_lists h n \<noteq> 0"
  shows "L (free_lists h n) = Some n"
proof -
  obtain xs where xs: "chain (nxt h) (ptr_of (free_lists h n)) xs" "set xs = {a. L a = Some n}"
    using assms(1,2) by (rule lists_okE)
  with assms(3) have "free_lists h n \<in> set xs" by (cases xs) auto
  with xs(2) show ?thesis by simp
qed

lemma lists_empty:
  assumes "lists_ok h L" "n \<le> 22" "free_lists h n = 0"
  shows "L a \<noteq> Some n"
proof -
  obtain xs where xs: "chain (nxt h) (ptr_of (free_lists h n)) xs" "set xs = {a. L a = Some n}"
    using assms(1,2) by (rule lists_okE)
  with assms(3) have "a \<notin> {a. L a = Some n}" by simp
  then show ?thesis by simp
qed

section \<open>Unlinking and linking\<close>

text \<open>
  The search loop stops at the predecessor of \<open>b\<close>: after the list head if \<open>b\<close> is first,
  otherwise at the \<open>next\<close> field of the last block before it.
\<close>

lemma unlink_from_path:
  assumes "path (nxt h) (ptr_of (cell_get h c)) (us @ [b]) q" "b \<notin> set us"
  shows "unlink_from c b h = Some (put_fld b 0 0
    (cell_set (if us = [] then c else NextCell (last us)) (blk_next h b) h))"
  using assms
proof (induction us arbitrary: c)
  case Nil
  then show ?case by (simp add: unlink_from.simps)
next
  case (Cons u us)
  then have "cell_get h c = u" "u \<noteq> 0" "u \<noteq> b"
    and "path (nxt h) (ptr_of (cell_get h (NextCell u))) (us @ [b]) q"
    by (auto simp: ptr_next)
  with Cons.IH[of "NextCell u"] Cons.prems show ?case
    by (subst unlink_from.simps) (auto simp: ptr_next)
qed

lemma same_hdrs_refl [simp]: "same_hdrs h h"
  by (simp add: same_hdrs_def)

lemma same_hdrs_put_next:
  "hdr_aligned b \<Longrightarrow> same_hdrs h h' \<Longrightarrow> same_hdrs h (put_fld b 0 v h')"
  unfolding same_hdrs_def by auto

lemma same_hdrs_lists [simp]: "same_hdrs h (h'\<lparr>free_lists := f\<rparr>) = same_hdrs h h'"
  by (simp add: same_hdrs_def)

lemma remove_free_block_spec:
  assumes lists: "lists_ok h L" and al: "listed_aligned L" and b: "L b = Some n"
    and ord: "blk_order h b = of_nat n"
  obtains h' where "remove_free_block b h = Some h'" "lists_ok h' (L(b := None))"
    "same_hdrs h h'" "keeps (dom L) h h'" "\<And>m. m \<noteq> n \<Longrightarrow> free_lists h' m = free_lists h m"
proof -
  have n: "n \<le> 22" and b_al: "hdr_aligned b" "b \<noteq> 0"
    using al b by (auto simp: listed_aligned_def)
  obtain xs where xs: "chain (nxt h) (ptr_of (free_lists h n)) xs" "set xs = {a. L a = Some n}"
    using lists n by (rule lists_okE)
  then obtain us vs where split: "xs = us @ b # vs" and "b \<notin> set us"
    using b split_list_first[of b xs] by auto
  have xs_al: "hdr_aligned x \<and> x \<noteq> 0" if "x \<in> set xs" for x
    using that xs(2) al by (auto simp: listed_aligned_def)
  have dist: "distinct xs" using xs(1) by (rule chain_distinct)
  let ?c = "if us = [] then HeadCell n else NextCell (last us)"
  define h' where "h' = put_fld b 0 0 (cell_set ?c (blk_next h b) h)"
  have ord': "unat (blk_order h b) = n"
    using n ord by (simp add: unat_of_nat)
  have "path (nxt h) (ptr_of (cell_get h (HeadCell n))) (us @ [b]) (nxt h b)"
    using xs(1) split by (auto simp: path_append)
  then have rm: "remove_free_block b h = Some h'"
    using unlink_from_path[of h "HeadCell n" us b] \<open>b \<notin> set us\<close> ord'
    by (simp add: remove_free_block_def h'_def)
  have last_al: "us \<noteq> [] \<Longrightarrow> hdr_aligned (last us) \<and> last us \<in> dom L"
    using xs_al[of "last us"] xs(2) split by auto
  have hdrs: "same_hdrs h h'"
    unfolding h'_def using b_al last_al by (auto intro!: same_hdrs_put_next)
  have keeps: "keeps (dom L) h h'"
    unfolding h'_def using b_al b last_al by (auto intro!: keeps_put)
  have heads: "free_lists h' m = free_lists h m" if "m \<noteq> n" for m
    using that by (simp add: h'_def)
  have nx: "path (nxt h') p ys q =
      path (if us = [] then (nxt h)(b := None) else (nxt h)(b := None, last us := nxt h b)) p ys q"
    if "\<And>y. y \<in> set ys \<Longrightarrow> hdr_aligned y" "b \<notin> set ys" for ys p q
  proof (rule path_cong)
    fix y assume "y \<in> set ys"
    with that b_al last_al show "nxt h' y =
        (if us = [] then (nxt h)(b := None) else (nxt h)(b := None, last us := nxt h b)) y"
      by (auto simp: h'_def nxt_def)
  qed
  have "lists_ok h' (L(b := None))"
    unfolding lists_ok_def
  proof (intro allI impI)
    fix m :: nat assume m: "m \<le> 22"
    show "\<exists>ys. chain (nxt h') (ptr_of (free_lists h' m)) ys \<and> set ys = {a. (L(b := None)) a = Some m}"
    proof (cases "m = n")
      case True
      have set: "set (us @ vs) = {a. (L(b := None)) a = Some m}"
        using dist xs(2) split True by auto
      have "chain (nxt h') (ptr_of (free_lists h' n)) (us @ vs)"
      proof (cases us)
        case Nil
        have "chain (nxt h) (nxt h b) vs" "ptr_of (free_lists h' n) = nxt h b"
          using xs(1) split Nil by (auto simp: h'_def nxt_def)
        with Nil split dist xs_al nx[of vs] show ?thesis by (auto simp: path_upd)
      next
        case (Cons u ws)
        then obtain zs y where us: "us = zs @ [y]" using rev_exhaust by blast
        then have "chain ((nxt h)(y := nxt h b)) (ptr_of (free_lists h n)) (zs @ y # vs)"
          using chain_unlink[of "nxt h" _ zs y b vs] xs(1) split by simp
        then have "chain ((nxt h)(y := nxt h b)) (ptr_of (free_lists h n)) (us @ vs)"
          using us by simp
        moreover have "b \<notin> set (us @ vs)" "b \<noteq> y" using dist split us by auto
        moreover have "free_lists h' n = free_lists h n" using us by (simp add: h'_def)
        moreover have "hdr_aligned x" if "x \<in> set (us @ vs)" for x
          using that xs_al split by auto
        ultimately show ?thesis
          using nx[of "us @ vs"] us path_upd[of b "us @ vs" "(nxt h)(y := nxt h b)" None]
          by (simp add: fun_upd_twist)
      qed
      with set True show ?thesis by blast
    next
      case False
      obtain ys where ys: "chain (nxt h) (ptr_of (free_lists h m)) ys" "set ys = {a. L a = Some m}"
        using lists m by (rule lists_okE)
      have "b \<notin> set ys" using ys(2) False b by simp
      moreover have "last us \<notin> set ys" if "us \<noteq> []"
      proof -
        from that split have "last us \<in> set xs" by simp
        with xs(2) have "L (last us) = Some n" by simp
        with ys(2) False show ?thesis by simp
      qed
      moreover have "hdr_aligned y" if "y \<in> set ys" for y
        using that ys(2) al by (auto simp: listed_aligned_def)
      ultimately have "chain (nxt h') (ptr_of (free_lists h' m)) ys"
        using ys(1) heads[OF False] nx[of ys] by (auto simp: path_upd)
      moreover have "set ys = {a. (L(b := None)) a = Some m}" using ys(2) b False by auto
      ultimately show ?thesis by blast
    qed
  qed
  with rm hdrs keeps heads that show ?thesis by blast
qed

lemma insert_free_block_spec:
  assumes lists: "lists_ok h L" and al: "listed_aligned L" and b: "L b = None" "hdr_aligned b" "b \<noteq> 0"
    and ord: "blk_order h b = of_nat n" and n: "n \<le> 22"
  shows "lists_ok (insert_free_block b h) (L(b \<mapsto> n))"
    and "same_hdrs h (insert_free_block b h)" and "keeps {b} h (insert_free_block b h)"
    and "free_lists (insert_free_block b h) = (free_lists h)(n := b)"
proof -
  let ?h = "insert_free_block b h"
  have ord': "unat (blk_order h b) = n"
    using n ord by (simp add: unat_of_nat)
  show heads: "free_lists ?h = (free_lists h)(n := b)"
    using ord' by (simp add: insert_free_block_def Let_def)
  show "same_hdrs h ?h"
    using b by (auto simp: insert_free_block_def Let_def intro!: same_hdrs_put_next)
  show "keeps {b} h ?h"
    using b by (auto simp: insert_free_block_def Let_def intro!: keeps_put)
  have nx: "path (nxt ?h) p xs q = path ((nxt h)(b := ptr_of (free_lists h n))) p xs q"
    if "\<And>x. x \<in> set xs \<Longrightarrow> hdr_aligned x" for xs p q
    using path_put_next[OF b(2), of xs _ h] that ord' by (simp add: insert_free_block_def Let_def)
  show "lists_ok ?h (L(b \<mapsto> n))"
    unfolding lists_ok_def
  proof (intro allI impI)
    fix m :: nat assume m: "m \<le> 22"
    obtain xs where xs: "chain (nxt h) (ptr_of (free_lists h m)) xs" "set xs = {a. L a = Some m}"
      using lists m by (rule lists_okE)
    have xs_al: "hdr_aligned x" if "x \<in> set xs" for x
      using that xs(2) al by (auto simp: listed_aligned_def)
    have fresh: "b \<notin> set xs" using xs(2) b(1) by simp
    have old: "path (nxt ?h) p xs None = chain (nxt h) p xs" for p
      using nx[OF xs_al] path_upd[OF fresh, of "nxt h"] by simp
    show "\<exists>ys. chain (nxt ?h) (ptr_of (free_lists ?h m)) ys \<and> set ys = {a. (L(b \<mapsto> n)) a = Some m}"
    proof (cases "m = n")
      case True
      have "chain (nxt ?h) (ptr_of (free_lists ?h m)) (b # xs)"
      proof -
        have "nxt ?h b = ptr_of (free_lists h n)"
          using b(2) ord' by (simp add: insert_free_block_def Let_def nxt_def)
        with True xs(1) old heads b(3) show ?thesis by simp
      qed
      moreover have "set (b # xs) = {a. (L(b \<mapsto> n)) a = Some m}" using xs(2) True by auto
      ultimately show ?thesis by blast
    next
      case False
      then have "chain (nxt ?h) (ptr_of (free_lists ?h m)) xs" using old heads xs(1) by simp
      moreover have "set xs = {a. (L(b \<mapsto> n)) a = Some m}" using xs(2) False b(1) by auto
      ultimately show ?thesis by blast
    qed
  qed
qed

section \<open>The representation relation\<close>

definition free_of :: "blocks \<Rightarrow> u32 \<Rightarrow> nat option" where
  "free_of B a = (case B a of Some (n, True) \<Rightarrow> Some n | _ \<Rightarrow> None)"

definition used_of :: "blocks \<Rightarrow> u32 \<Rightarrow> nat option" where
  "used_of B a = (case B a of Some (n, False) \<Rightarrow> Some n | _ \<Rightarrow> None)"

lemma free_of_Some: "free_of B a = Some n \<longleftrightarrow> B a = Some (n, True)"
  by (auto simp: free_of_def split: option.splits bool.splits)

lemma used_of_Some: "used_of B a = Some n \<longleftrightarrow> B a = Some (n, False)"
  by (auto simp: used_of_def split: option.splits bool.splits)

lemma free_of_upd: "free_of (B(a := v)) = (free_of B)(a := (case v of Some (n, True) \<Rightarrow> Some n | _ \<Rightarrow> None))"
  by (auto simp: free_of_def)

lemma used_of_upd: "used_of (B(a := v)) = (used_of B)(a := (case v of Some (n, False) \<Rightarrow> Some n | _ \<Rightarrow> None))"
  by (auto simp: used_of_def)

definition hdr_ok :: "'a heap_scheme \<Rightarrow> blocks \<Rightarrow> bool" where
  "hdr_ok h B \<longleftrightarrow> (\<forall>a n f. B a = Some (n, f) \<longrightarrow>
     blk_order h a = of_nat n \<and> blk_free h a = of_bool f \<and> (\<not> f \<longrightarrow> blk_self h a = a))"

text \<open>
  \<open>heap_mid c\<close>: the state between two list operations, when the free block \<open>c\<close> (if any) is
  on no list. \<open>heap_rep\<close> is the state between two calls.
\<close>

definition heap_mid :: "u32 option \<Rightarrow> 'a heap_scheme \<Rightarrow> blocks \<Rightarrow> bool" where
  "heap_mid c h B \<longleftrightarrow> wf_blocks B \<and> hdr_ok h B \<and>
     lists_ok h (case c of None \<Rightarrow> free_of B | Some a \<Rightarrow> (free_of B)(a := None))"

abbreviation heap_rep :: "'a heap_scheme \<Rightarrow> blocks \<Rightarrow> bool" where
  "heap_rep \<equiv> heap_mid None"

lemma listed_free: "wf_blocks B \<Longrightarrow> listed_aligned (free_of B)"
  unfolding listed_aligned_def free_of_Some
  using block_aligned32 placedD region_nonzero by blast

lemma listed_upd: "listed_aligned L \<Longrightarrow> listed_aligned (L(a := None))"
  by (auto simp: listed_aligned_def)

lemma listed_insert:
  "listed_aligned L \<Longrightarrow> hdr_aligned b \<Longrightarrow> b \<noteq> 0 \<Longrightarrow> n \<le> 22 \<Longrightarrow> listed_aligned (L(b \<mapsto> n))"
  by (auto simp: listed_aligned_def)

lemma hdr_okD:
  "hdr_ok h B \<Longrightarrow> B a = Some (n, f) \<Longrightarrow>
     blk_order h a = of_nat n \<and> blk_free h a = of_bool f \<and> (\<not> f \<longrightarrow> blk_self h a = a)"
  by (auto simp: hdr_ok_def)

lemma hdr_ok_same: "hdr_ok h B \<Longrightarrow> wf_blocks B \<Longrightarrow> same_hdrs h h' \<Longrightarrow> hdr_ok h' B"
  unfolding hdr_ok_def
proof (intro allI impI)
  fix a n f
  assume hdr: "\<forall>a n f. B a = Some (n, f) \<longrightarrow> blk_order h a = of_nat n \<and>
      blk_free h a = of_bool f \<and> (\<not> f \<longrightarrow> blk_self h a = a)"
    and wf: "wf_blocks B" and same: "same_hdrs h h'" and a: "B a = Some (n, f)"
  note al = block_aligned32[OF wf a]
  from hdr[rule_format, OF a] same_hdrsD[OF same al, of 4] same_hdrsD[OF same al, of 8]
    same_hdrsD[OF same al, of 12]
  show "blk_order h' a = of_nat n \<and> blk_free h' a = of_bool f \<and> (\<not> f \<longrightarrow> blk_self h' a = a)"
    by simp
qed

abbreviation free_blocks :: "blocks \<Rightarrow> u32 set" where
  "free_blocks B \<equiv> {a. \<exists>n. B a = Some (n, True)}"

lemma dom_free_of: "dom (free_of B) = free_blocks B"
  by (auto simp: free_of_Some)

lemma remove_rep:
  assumes rep: "heap_rep h B" and b: "B b = Some (n, True)"
  obtains h' where "remove_free_block b h = Some h'" "heap_mid (Some b) h' B" "same_hdrs h h'"
    "keeps (free_blocks B) h h'" "\<And>m. m \<noteq> n \<Longrightarrow> free_lists h' m = free_lists h m"
proof -
  from rep have wf: "wf_blocks B" and hdr: "hdr_ok h B" and lists: "lists_ok h (free_of B)"
    by (simp_all add: heap_mid_def)
  have fb: "free_of B b = Some n" "blk_order h b = of_nat n"
    using b hdr_okD[OF hdr b] by (simp_all add: free_of_Some)
  obtain h' where h': "remove_free_block b h = Some h'" "lists_ok h' ((free_of B)(b := None))"
    "same_hdrs h h'" "keeps (dom (free_of B)) h h'" "\<And>m. m \<noteq> n \<Longrightarrow> free_lists h' m = free_lists h m"
    using remove_free_block_spec[OF lists listed_free[OF wf] fb] by blast
  have "heap_mid (Some b) h' B"
    using wf hdr_ok_same[OF hdr wf h'(3)] h'(2) by (simp add: heap_mid_def)
  with h' dom_free_of[of B] that show ?thesis by metis
qed

lemma insert_rep:
  assumes mid: "heap_mid (Some b) h B" and b: "B b = Some (n, True)"
  shows "heap_rep (insert_free_block b h) B"
    and "same_hdrs h (insert_free_block b h)" and "keeps {b} h (insert_free_block b h)"
    and "free_lists (insert_free_block b h) = (free_lists h)(n := b)"
proof -
  from mid have wf: "wf_blocks B" and hdr: "hdr_ok h B" and lists: "lists_ok h ((free_of B)(b := None))"
    by (simp_all add: heap_mid_def)
  note pb = placedD[OF wf b] block_aligned32[OF wf b]
  note spec = insert_free_block_spec[OF lists listed_upd[OF listed_free[OF wf]], of b n]
  have prem: "((free_of B)(b := None)) b = None" "b \<noteq> 0" "blk_order h b = of_nat n" "n \<le> 22"
    using pb hdr_okD[OF hdr b] region_nonzero[of b] by simp_all
  have "free_of B b = Some n" using b by (simp add: free_of_Some)
  then have "((free_of B)(b := None))(b \<mapsto> n) = free_of B" by (simp add: fun_upd_idem)
  then show "heap_rep (insert_free_block b h) B"
    using spec(1,2)[OF prem(1) pb(2) prem(2-4)] wf hdr_ok_same[OF hdr wf] by (simp add: heap_mid_def)
  show "same_hdrs h (insert_free_block b h)" "keeps {b} h (insert_free_block b h)"
    "free_lists (insert_free_block b h) = (free_lists h)(n := b)"
    using spec(2-4)[OF prem(1) pb(2) prem(2-4)] by simp_all
qed

end
