(* ===== verification/Heap_Correct.thy ===== *)
theory Heap_Correct
  imports Heap_Lists
begin

text \<open>
  The operations of the buddy allocator on the representation relation: splitting, merging,
  allocation, freeing and initialisation act on the block map as intended, never run into a
  halt on a sound heap, leave no two free buddies unmerged, and change no byte of a block in
  use. At the end the allocator's contract is stated over live pointers and their
  capacities, as an interface that the clients of the heap are proved against.
\<close>

section \<open>Splitting\<close>

lemma split_header_writes:
  assumes mid: "heap_mid (Some b) h B" and b: "B b = Some (Suc n, True)" and n: "5 \<le> n"
  defines "h' \<equiv> put_fld (buddy_addr n b) 12 0 (put_fld (buddy_addr n b) 8 1
      (put_fld (buddy_addr n b) 4 (of_nat n) (put_fld b 8 1 (put_fld b 4 (of_nat n) h))))"
  shows "hdr_ok h' (split_blocks n b B)" and "lists_ok h' ((free_of B)(b := None))"
    and "keeps {b, buddy_addr n b} h h'"
proof -
  let ?b = "buddy_addr n b"
  from mid have wf: "wf_blocks B" and hdr: "hdr_ok h B" and lists: "lists_ok h ((free_of B)(b := None))"
    by (simp_all add: heap_mid_def)
  note al = block_aligned32[OF wf b]
  have al': "hdr_aligned ?b" using al n by (simp add: buddy_aligned)
  have neq: "?b \<noteq> b" using buddy_neq placedD[OF wf b] by simp
  show "hdr_ok h' (split_blocks n b B)"
    unfolding hdr_ok_def
  proof (intro allI impI)
    fix a m f assume a: "split_blocks n b B a = Some (m, f)"
    show "blk_order h' a = of_nat m \<and> blk_free h' a = of_bool f \<and> (\<not> f \<longrightarrow> blk_self h' a = a)"
    proof (cases "a = b \<or> a = ?b")
      case True
      then show ?thesis using a al al' neq by (auto simp: h'_def split_blocks_def)
    next
      case False
      then have Ba: "B a = Some (m, f)" using a by (simp add: split_blocks_def)
      with False hdr_okD[OF hdr Ba] block_aligned32[OF wf Ba] al al' show ?thesis
        by (simp add: h'_def)
    qed
  qed
  show "lists_ok h' ((free_of B)(b := None))"
    unfolding h'_def using al al' lists listed_upd[OF listed_free[OF wf]]
    by (intro lists_ok_put_other) simp_all
  show "keeps {b, ?b} h h'"
    unfolding h'_def using al al' by (intro keeps_put) simp_all
qed

lemma split_block_rep:
  assumes rep: "heap_rep h B" and n: "5 \<le> n" "n < 22" and head: "free_lists h (Suc n) = b" "b \<noteq> 0"
  obtains h' where "split_block (Suc n) h = Some h'" "heap_rep h' (split_blocks n b B)"
    "keeps (insert (buddy_addr n b) (free_blocks B)) h h'" "free_lists h' n = buddy_addr n b"
    "B b = Some (Suc n, True)"
proof -
  let ?b = "buddy_addr n b" and ?B = "split_blocks n b B"
  from rep have wf: "wf_blocks B" by (simp add: heap_mid_def)
  have b: "B b = Some (Suc n, True)"
    using lists_head[of h "free_of B" "Suc n"] rep n head by (simp add: heap_mid_def free_of_Some)
  obtain h1 where h1: "remove_free_block b h = Some h1" "heap_mid (Some b) h1 B"
    "keeps (free_blocks B) h h1"
    using remove_rep[OF rep b] by blast
  define h2 where "h2 = put_fld ?b 12 0 (put_fld ?b 8 1
      (put_fld ?b 4 (of_nat n) (put_fld b 8 1 (put_fld b 4 (of_nat n) h1))))"
  note w = split_header_writes[OF h1(2) b n(1), folded h2_def]
  have wf': "wf_blocks ?B" by (rule wf_split[OF wf b n(1)])
  have al: "hdr_aligned b" "hdr_aligned ?b" "b \<noteq> 0" "?b \<noteq> 0" "?b \<noteq> b"
    using block_aligned32[OF wf b] n placedD[OF wf b] region_nonzero[of ?b] head
    by (simp_all add: buddy_aligned in_region_buddy buddy_neq)
  have L: "listed_aligned ((free_of B)(b := None))" by (rule listed_upd[OF listed_free[OF wf]])
  have B': "?B b = Some (n, True)" "?B ?b = Some (n, True)" using al by (simp_all add: split_blocks_def)
  note ins1 = insert_free_block_spec[OF w(2) L, of b n]
  define h3 where "h3 = insert_free_block b h2"
  have o2: "blk_order h2 b = of_nat n" "blk_order h2 ?b = of_nat n"
    using hdr_okD[OF w(1) B'(1)] hdr_okD[OF w(1) B'(2)] by simp_all
  have i1: "lists_ok h3 ((free_of B)(b \<mapsto> n))" "same_hdrs h2 h3" "keeps {b} h2 h3"
    using ins1 al o2 n by (simp_all add: h3_def)
  have nb: "((free_of B)(b \<mapsto> n)) ?b = None"
    using buddy_not_block[OF wf b] al by (simp add: free_of_def)
  have L2: "listed_aligned ((free_of B)(b \<mapsto> n))"
    using listed_insert[OF listed_free[OF wf] al(1,3)] n by simp
  have o3: "blk_order h3 ?b = of_nat n" using same_hdrsD[OF i1(2) al(2), of 4] o2 by simp
  define h4 where "h4 = insert_free_block ?b h3"
  note ins2 = insert_free_block_spec[OF i1(1) L2 nb al(2,4) o3 less_imp_le[OF n(2)], folded h4_def]
  have heads: "free_lists h4 n = ?b" using ins2(4) by simp
  have eq: "(free_of B)(b \<mapsto> n, ?b \<mapsto> n) = free_of ?B"
    by (simp add: split_blocks_def free_of_upd)
  have "lists_ok h4 (free_of ?B)" using ins2(1) unfolding eq .
  moreover have "hdr_ok h4 ?B"
    using hdr_ok_same[OF hdr_ok_same[OF w(1) wf' i1(2)] wf' ins2(2)] .
  ultimately have rep': "heap_rep h4 ?B" using wf' by (simp add: heap_mid_def)
  have "buddy_of (put_fld b 8 1 (put_fld b 4 (of_nat n) h1)) b = ?b"
    using al(1) n by (simp add: buddy_of_def flip_bit_eq_xor unat_of_nat)
  then have run: "split_block (Suc n) h = Some h4"
    using head(1) h1(1) by (simp add: split_block_def h4_def h3_def h2_def Let_def)
  have "keeps (insert ?b (free_blocks B)) h h4"
  proof -
    let ?R = "insert ?b (free_blocks B)"
    have "b \<in> ?R" using b by simp
    have "keeps ?R h h1" using h1(3) by (rule keeps_mono) blast
    also have "keeps ?R h1 h2" using w(3) by (rule keeps_mono) (use \<open>b \<in> ?R\<close> in blast)
    also have "keeps ?R h2 h3" using i1(3) by (rule keeps_mono) (use \<open>b \<in> ?R\<close> in blast)
    also have "keeps ?R h3 h4" using ins2(3) by (rule keeps_mono) blast
    finally show ?thesis .
  qed
  with run rep' heads b that show ?thesis by blast
qed

text \<open>Splitting does not touch the blocks in use, and its only new free pair is the split one.\<close>

lemma used_split:
  assumes "wf_blocks B" "B b = Some (Suc n, True)"
  shows "used_of (split_blocks n b B) = used_of B"
proof -
  have "used_of B b = None" "used_of B (buddy_addr n b) = None"
    using assms buddy_not_block[OF assms] by (simp_all add: used_of_def)
  then show ?thesis by (simp add: split_blocks_def used_of_upd fun_upd_idem)
qed

lemma coalesced_split:
  assumes wf: "wf_blocks B" and b: "B b = Some (Suc n, True)" and co: "coalesced_but (Some b) B"
  shows "coalesced_but (Some (buddy_addr n b)) (split_blocks n b B)"
  unfolding coalesced_but_def
proof (intro allI impI)
  let ?b = "buddy_addr n b" and ?B = "split_blocks n b B"
  fix a m assume a: "?B a = Some (m, True)" and m: "m < 22" and a': "?B (buddy_addr m a) = Some (m, True)"
  have old: "B c = Some (m, True)" if "?B c = Some (m, True)" "c \<noteq> b" "c \<noteq> ?b" for c
    using that by (simp add: split_blocks_def)
  have mn: "m = n" if "c = b \<or> c = ?b" "?B c = Some (m, True)" for c
    using that by (auto simp: split_blocks_def split: if_splits)
  show "Some ?b = Some a \<or> Some ?b = Some (buddy_addr m a)"
  proof (cases "a = b \<or> a = ?b \<or> buddy_addr m a = b \<or> buddy_addr m a = ?b")
    case True
    then have "m = n" using mn[of a] mn[of "buddy_addr m a"] a a' by blast
    with True show ?thesis by (metis buddy_involution)
  next
    case False
    then have "B a = Some (m, True)" "B (buddy_addr m a) = Some (m, True)"
      using old a a' by simp_all
    with co m False show ?thesis by (auto simp: coalesced_but_def)
  qed
qed

lemma free_split:
  "free_blocks (split_blocks n b B) \<subseteq> insert (buddy_addr n b) (insert b (free_blocks B))"
  by (auto simp: split_blocks_def split: if_splits)

text \<open>Addresses whose header may be written by an allocation: outside every block in use.\<close>

definition unused :: "blocks \<Rightarrow> u32 set" where
  "unused B = {a. in_region a \<and> hdr_aligned a \<and> (\<forall>c n. B c = Some (n, False) \<longrightarrow> \<not> same_block n a c)}"

lemma free_unused: "wf_blocks B \<Longrightarrow> free_blocks B \<subseteq> unused B"
proof
  fix a
  assume wf: "wf_blocks B" and "a \<in> free_blocks B"
  then obtain n where a: "B a = Some (n, True)" by blast
  have "\<not> same_block m a c" if c: "B c = Some (m, False)" for c m
  proof
    assume "same_block m a c"
    then have "a = c" using disjointD[OF wf a c, of a] by simp
    with a c show False by simp
  qed
  then show "a \<in> unused B" using block_aligned32[OF wf a] placedD[OF wf a] by (auto simp: unused_def)
qed

lemma unused_cong: "used_of B = used_of B' \<Longrightarrow> unused B = unused B'"
  by (simp add: unused_def flip: used_of_Some)

lemma split_down_rep:
  assumes "heap_rep h B" "5 \<le> order" "order \<le> k" "k \<le> 22" "free_lists h k \<noteq> 0"
    "coalesced_but (Some (free_lists h k)) B"
  shows "\<exists>h' B'. split_down k order h = Some h' \<and> heap_rep h' B' \<and> used_of B' = used_of B \<and>
    keeps (unused B) h h' \<and> free_lists h' order \<noteq> 0 \<and>
    coalesced_but (Some (free_lists h' order)) B'"
  using assms
proof (induction k arbitrary: h B)
  case 0
  then show ?case by simp
next
  case (Suc k)
  show ?case
  proof (cases "order = Suc k")
    case True
    then have "split_down (Suc k) order h = Some h" by (simp add: split_down.simps)
    with True Suc.prems show ?thesis by auto
  next
    case False
    let ?b = "free_lists h (Suc k)"
    have k: "5 \<le> k" "k < 22" "order \<le> k" using False Suc.prems by simp_all
    obtain h1 where h1: "split_block (Suc k) h = Some h1" "heap_rep h1 (split_blocks k ?b B)"
      "keeps (insert (buddy_addr k ?b) (free_blocks B)) h h1" "free_lists h1 k = buddy_addr k ?b"
      "B ?b = Some (Suc k, True)"
      using split_block_rep[OF Suc.prems(1) k(1,2) refl Suc.prems(5)] by blast
    let ?B = "split_blocks k ?b B"
    have wf: "wf_blocks B" "wf_blocks ?B" using Suc.prems(1) h1(2) by (simp_all add: heap_mid_def)
    have used: "used_of ?B = used_of B" by (rule used_split[OF wf(1) h1(5)])
    have "?B (buddy_addr k ?b) = Some (k, True)" by (simp add: split_blocks_def)
    then have "buddy_addr k ?b \<in> unused B"
      using free_unused[OF wf(2)] unused_cong[OF used] by blast
    then have keep: "keeps (unused B) h h1"
      using h1(3) free_unused[OF wf(1)] keeps_mono by blast
    have "buddy_addr k ?b \<noteq> 0"
      using placedD[OF wf(2), of "buddy_addr k ?b" k True] region_nonzero by (simp add: split_blocks_def)
    then obtain h' B' where h': "split_down k order h1 = Some h'" "heap_rep h' B'"
      "used_of B' = used_of ?B" "keeps (unused ?B) h1 h'" "free_lists h' order \<noteq> 0"
      "coalesced_but (Some (free_lists h' order)) B'"
      using Suc.IH[OF h1(2) Suc.prems(2) k(3)] k(2) h1(4)
        coalesced_split[OF wf(1) h1(5) Suc.prems(6)] by auto
    have "split_down (Suc k) order h = Some h'"
      using k h1(1) h'(1) by (subst split_down.simps) simp
    moreover have "keeps (unused B) h h'"
      using keeps_trans[OF keep] h'(4) unused_cong[OF used] by simp
    ultimately show ?thesis using h' used by auto
  qed
qed

section \<open>Allocation\<close>

lemma unat_pow2: "n < 32 \<Longrightarrow> unat (push_bit n 1 :: u32) = 2 ^ n"
  by (subst unsigned_push_bit_eq) (simp add: take_bit_nat_eq_self)

lemma order_for_props:
  assumes "k \<le> 22"
  shows "k \<le> order_for t k" "order_for t k \<le> 22"
    "push_bit (order_for t k) 1 < t \<longrightarrow> order_for t k = 22"
    "\<And>j. k \<le> j \<Longrightarrow> j < order_for t k \<Longrightarrow> push_bit j 1 < t"
proof -
  have "k \<le> order_for t k \<and> order_for t k \<le> 22 \<and>
      (push_bit (order_for t k) 1 < t \<longrightarrow> order_for t k = 22) \<and>
      (\<forall>j. k \<le> j \<longrightarrow> j < order_for t k \<longrightarrow> push_bit j 1 < t)"
    using assms
  proof (induction t k rule: order_for.induct)
    case (1 t k)
    show ?case
    proof (cases "k < 22 \<and> push_bit k 1 < t")
      case True
      then have eq: "order_for t k = order_for t (k + 1)" by (simp add: order_for.simps[of t k])
      from True "1.IH" have "k + 1 \<le> order_for t (k + 1) \<and> order_for t (k + 1) \<le> 22 \<and>
        (push_bit (order_for t (k + 1)) 1 < t \<longrightarrow> order_for t (k + 1) = 22) \<and>
        (\<forall>j. k + 1 \<le> j \<longrightarrow> j < order_for t (k + 1) \<longrightarrow> push_bit j 1 < t)" by simp
      with True eq show ?thesis by (metis Suc_eq_plus1 Suc_leD le_eq_less_or_eq less_eq_Suc_le)
    next
      case False
      then have "order_for t k = k" by (subst order_for.simps) auto
      with False "1.prems" show ?thesis by auto
    qed
  qed
  then show "k \<le> order_for t k" "order_for t k \<le> 22"
    "push_bit (order_for t k) 1 < t \<longrightarrow> order_for t k = 22"
    "\<And>j. k \<le> j \<Longrightarrow> j < order_for t k \<Longrightarrow> push_bit j 1 < t" by blast+
qed

lemma first_nonempty_props:
  "k \<le> first_nonempty h k \<and> (first_nonempty h k \<le> 22 \<longrightarrow> free_lists h (first_nonempty h k) \<noteq> 0) \<and>
   (\<forall>j. k \<le> j \<longrightarrow> j < first_nonempty h k \<longrightarrow> j \<le> 22 \<longrightarrow> free_lists h j = 0)"
proof (induction h k rule: first_nonempty.induct)
  case (1 h k)
  show ?case
  proof (cases "k \<le> 22 \<and> free_lists h k = 0")
    case True
    then have eq: "first_nonempty h k = first_nonempty h (k + 1)"
      by (simp add: first_nonempty.simps[of h k])
    from "1.IH"[OF True] True eq show ?thesis
      by (metis Suc_eq_plus1 Suc_leD le_eq_less_or_eq less_eq_Suc_le)
  next
    case False
    then have "first_nonempty h k = k" by (subst first_nonempty.simps) auto
    with False show ?thesis by auto
  qed
qed

lemma take_block_rep:
  assumes rep: "heap_rep h B" and n: "n \<le> 22" and b: "free_lists h n = b" "b \<noteq> 0"
    and co: "coalesced_but (Some b) B"
  obtains h1 where "remove_free_block b h = Some h1"
    "heap_rep (put_fld b 12 b (put_fld b 8 0 h1)) (B(b \<mapsto> (n, False)))"
    "coalesced (B(b \<mapsto> (n, False)))" "B b = Some (n, True)"
    "keeps (free_blocks B) h (put_fld b 12 b (put_fld b 8 0 h1))"
proof -
  let ?B = "B(b \<mapsto> (n, False))"
  have wf: "wf_blocks B" and Bb: "B b = Some (n, True)"
    using lists_head[of h "free_of B" n] rep n b by (simp_all add: heap_mid_def free_of_Some)
  obtain h1 where h1: "remove_free_block b h = Some h1" "heap_mid (Some b) h1 B"
    "keeps (free_blocks B) h h1" using remove_rep[OF rep Bb] by blast
  let ?h = "put_fld b 12 b (put_fld b 8 0 h1)"
  have hdr: "hdr_ok h1 B" and lists: "lists_ok h1 ((free_of B)(b := None))"
    using h1(2) by (simp_all add: heap_mid_def)
  note al = block_aligned32[OF wf Bb]
  have "hdr_ok ?h ?B"
    unfolding hdr_ok_def
  proof (intro allI impI)
    fix a m f assume a: "?B a = Some (m, f)"
    show "blk_order ?h a = of_nat m \<and> blk_free ?h a = of_bool f \<and> (\<not> f \<longrightarrow> blk_self ?h a = a)"
    proof (cases "a = b")
      case True
      with a al hdr_okD[OF hdr Bb] show ?thesis by auto
    next
      case False
      then have Ba: "B a = Some (m, f)" using a by simp
      with False hdr_okD[OF hdr Ba] block_aligned32[OF wf Ba] al show ?thesis by simp
    qed
  qed
  moreover have "lists_ok ?h (free_of ?B)"
  proof -
    have eq: "free_of ?B = (free_of B)(b := None)" by (simp add: free_of_upd)
    show ?thesis unfolding eq using lists al listed_upd[OF listed_free[OF wf]]
      by (intro lists_ok_put_other) simp_all
  qed
  ultimately have "heap_rep ?h ?B" using wf_set_flag[OF wf Bb] by (simp add: heap_mid_def)
  moreover have "coalesced ?B"
    using co by (auto simp: coalesced_but_def split: if_splits)
  moreover have "keeps (free_blocks B) h ?h"
    using h1(3) al Bb by (intro keeps_put) auto
  ultimately show ?thesis using that h1(1) Bb by blast
qed

lemma buddy_alloc_rep:
  assumes rep: "heap_rep h B" and co: "coalesced B"
  shows "buddy_alloc sz h = Some (0, h) \<and>
      (sz = 0 \<or> (\<forall>a n. B a = Some (n, True) \<longrightarrow> 2 ^ n < unat sz + 16)) \<or>
    (\<exists>h' B' a n. buddy_alloc sz h = Some (a + 16, h') \<and> heap_rep h' B' \<and> coalesced B' \<and>
      used_of B a = None \<and> used_of B' = (used_of B)(a \<mapsto> n) \<and> unat sz + 16 \<le> 2 ^ n \<and>
      a \<in> unused B \<and> keeps (unused B) h h' \<and> 2 ^ n \<le> 2 * unat sz + 32)"
proof -
  have wf: "wf_blocks B" and lists: "lists_ok h (free_of B)" using rep by (simp_all add: heap_mid_def)
  let ?t = "sz + 16" and ?n = "order_for (sz + 16) 5"
  consider "sz = 0" | "sz \<noteq> 0" "- 1 - 16 < sz" | "sz \<noteq> 0" "\<not> - 1 - 16 < sz" by blast
  then show ?thesis
  proof cases
    case 1
    then show ?thesis by (simp add: buddy_alloc_def)
  next
    case 2
    have "2 ^ n < unat sz + 16" if "B a = Some (n, True)" for a n
    proof -
      have "(2::nat) ^ n \<le> 2 ^ 22" using placedD[OF wf that] by (intro power_increasing) auto
      moreover have "unat sz > 2 ^ 22" using 2(2) by (simp add: word_less_nat_alt)
      ultimately show ?thesis by simp
    qed
    with 2 show ?thesis by (simp add: buddy_alloc_def)
  next
    case 3
    then have tot: "unat ?t = unat sz + 16"
      by (simp add: unat_word_ariths word_less_nat_alt)
    have five_le: "5 \<le> (22::nat)" by simp
    note ord = order_for_props[where k = 5 and t = ?t, OF five_le]
    let ?k = "first_nonempty h ?n"
    note ne = first_nonempty_props[where k = ?n and h = h]
    show ?thesis
    proof (cases "push_bit ?n 1 < ?t")
      case True
      with ord(3) have n22: "?n = 22" by blast
      have "2 ^ n < unat sz + 16" if "B a = Some (n, True)" for a n
      proof -
        have "(2::nat) ^ n \<le> 2 ^ 22" using placedD[OF wf that] by (intro power_increasing) auto
        moreover have "2 ^ 22 < unat ?t" using True n22 unat_pow2[of 22] by (simp add: word_less_nat_alt)
        ultimately show ?thesis using tot by simp
      qed
      moreover have "buddy_alloc sz h = Some (0, h)" using 3 True by (simp add: buddy_alloc_def Let_def)
      ultimately show ?thesis by blast
    next
      case fits: False
      then have fit: "unat sz + 16 \<le> 2 ^ ?n"
        using ord(2) unat_pow2[of ?n] tot by (simp add: word_less_nat_alt)
      have tight: "2 ^ ?n \<le> 2 * unat sz + 32"
      proof (cases "?n = 5")
        case False
        then have n: "5 \<le> ?n - 1" "?n - 1 < ?n" "?n - 1 < 32" using ord(1,2) by simp_all
        have "2 ^ (?n - 1) < unat ?t"
          using ord(4)[OF n(1,2)] unat_pow2[OF n(3)] by (simp add: word_less_nat_alt)
        moreover have "(2::nat) ^ ?n = 2 * 2 ^ (?n - 1)" using n(2) by (simp add: power_eq_if)
        ultimately show ?thesis using tot by simp
      qed simp
      show ?thesis
      proof (cases "22 < ?k")
        case True
        have "2 ^ m < unat sz + 16" if m: "B a = Some (m, True)" for a m
        proof (rule ccontr)
          assume "\<not> 2 ^ m < unat sz + 16"
          then have "\<not> push_bit m 1 < ?t"
            using tot placedD[OF wf m] unat_pow2[of m] by (simp add: word_less_nat_alt)
          then have "?n \<le> m" using ord(4)[of m] placedD[OF wf m] by (meson not_le)
          with ne True placedD[OF wf m] have "free_lists h m = 0" by simp
          with lists_empty[OF lists, of m a] placedD[OF wf m] m show False by (simp add: free_of_Some)
        qed
        moreover have "buddy_alloc sz h = Some (0, h)" using 3 fits True by (simp add: buddy_alloc_def Let_def)
        ultimately show ?thesis by blast
      next
        case False
        then obtain h1 B1 where h1: "split_down ?k ?n h = Some h1" "heap_rep h1 B1"
          "used_of B1 = used_of B" "keeps (unused B) h h1" "free_lists h1 ?n \<noteq> 0"
          "coalesced_but (Some (free_lists h1 ?n)) B1"
          using split_down_rep[OF rep ord(1) conjunct1[OF ne], of ] ne coalesced_weaken[OF co] by auto
        let ?b = "free_lists h1 ?n"
        obtain h2 where h2: "remove_free_block ?b h1 = Some h2"
          "heap_rep (put_fld ?b 12 ?b (put_fld ?b 8 0 h2)) (B1(?b \<mapsto> (?n, False)))"
          "coalesced (B1(?b \<mapsto> (?n, False)))" "B1 ?b = Some (?n, True)"
          "keeps (free_blocks B1) h1 (put_fld ?b 12 ?b (put_fld ?b 8 0 h2))"
          using take_block_rep[OF h1(2) ord(2) refl h1(5,6)] by blast
        let ?h = "put_fld ?b 12 ?b (put_fld ?b 8 0 h2)"
        have wf1: "wf_blocks B1" using h1(2) by (simp add: heap_mid_def)
        have free1: "free_blocks B1 \<subseteq> unused B"
          using free_unused[OF wf1] unused_cong[OF h1(3)] by simp
        have "buddy_alloc sz h = Some (?b + 16, ?h)"
          using 3 fits False h1(1) h2(1) by (simp add: buddy_alloc_def Let_def)
        moreover have "used_of (B1(?b \<mapsto> (?n, False))) = (used_of B)(?b \<mapsto> ?n)"
          by (simp add: used_of_upd h1(3))
        moreover have "used_of B ?b = None" unfolding h1(3)[symmetric] using h2(4) by (simp add: used_of_def)
        moreover have "keeps (unused B) h ?h"
          using keeps_trans[OF h1(4) keeps_mono[OF h2(5) free1]] .
        moreover have "?b \<in> unused B" using free1 h2(4) by blast
        ultimately show ?thesis using h2(2,3) fit tight by blast
      qed
    qed
  qed
qed

section \<open>Merging and freeing\<close>

lemma order_word_eq: "m \<le> 22 \<Longrightarrow> n \<le> 22 \<Longrightarrow> (of_nat m :: u32) = of_nat n \<longleftrightarrow> m = n"
  by (auto dest: arg_cong[of _ _ unat] simp: unat_of_nat)

lemma buddy_of_rep:
  assumes "heap_mid c h B" "B b = Some (n, f)"
  shows "buddy_of h b = buddy_addr n b"
proof -
  have "blk_order h b = of_nat n" "n \<le> 22"
    using assms hdr_okD[of h B b n f] placedD[of B b n f] by (simp_all add: heap_mid_def)
  then show ?thesis by (simp add: buddy_of_def flip_bit_eq_xor unat_of_nat)
qed

text \<open>One round of the merge loop: unlink the free buddy and grow the lower half.\<close>

text \<open>Merging never clears a free flag or changes a self pointer.\<close>

definition still_free :: "'a heap_scheme \<Rightarrow> 'a heap_scheme \<Rightarrow> bool" where
  "still_free h h' \<longleftrightarrow> (\<forall>a. hdr_aligned a \<longrightarrow>
     blk_self h' a = blk_self h a \<and> (blk_free h a = 1 \<longrightarrow> blk_free h' a = 1))"

lemma still_free_refl [simp]: "still_free h h"
  by (simp add: still_free_def)

lemma still_free_trans: "still_free h h' \<Longrightarrow> still_free h' h'' \<Longrightarrow> still_free h h''"
  by (simp add: still_free_def)

lemma same_hdrs_still_free: "same_hdrs h h' \<Longrightarrow> still_free h h'"
  by (simp add: still_free_def same_hdrs_def)

lemma merge_step:
  assumes mid: "heap_mid (Some b) h B" and b: "B b = Some (n, True)" and n: "n < 22"
    and bud: "B (buddy_addr n b) = Some (n, True)" and co: "coalesced_but (Some b) B"
  defines "lo \<equiv> if buddy_addr n b < b then buddy_addr n b else b"
  defines "B' \<equiv> merge_blocks n lo (buddy_addr n lo) B"
  obtains h1 where "remove_free_block (buddy_addr n b) h = Some h1"
    "still_free h (put_fld lo 8 1 (put_fld lo 4 (of_nat (n + 1)) h1))"
    "heap_mid (Some lo) (put_fld lo 8 1 (put_fld lo 4 (of_nat (n + 1)) h1)) B'"
    "keeps (free_blocks B) h (put_fld lo 8 1 (put_fld lo 4 (of_nat (n + 1)) h1))"
    "B' lo = Some (Suc n, True)" "coalesced_but (Some lo) B'" "used_of B' = used_of B"
    "free_blocks B' \<subseteq> free_blocks B"
proof -
  let ?bud = "buddy_addr n b" and ?hi = "buddy_addr n lo"
  from mid have wf: "wf_blocks B" and hdr: "hdr_ok h B" and lists: "lists_ok h ((free_of B)(b := None))"
    by (simp_all add: heap_mid_def)
  have neq: "?bud \<noteq> b" using buddy_neq n by simp
  have pair: "lo = b \<and> ?hi = ?bud \<or> lo = ?bud \<and> ?hi = b" by (simp add: lo_def)
  have lohi: "B lo = Some (n, True)" "B ?hi = Some (n, True)" "lo \<noteq> ?hi"
    using pair b bud neq by auto
  have al_lo: "take_bit (Suc n) lo = 0"
    using lower_buddy_aligned[of n b] placedD[OF wf b] n by (simp add: lo_def)
  have wf': "wf_blocks B'" unfolding B'_def by (rule wf_merge[OF wf lohi(1,2) al_lo n])
  have L: "((free_of B)(b := None)) ?bud = Some n" "blk_order h ?bud = of_nat n"
    using bud neq hdr_okD[OF hdr bud] by (simp_all add: free_of_Some)
  obtain h1 where h1: "remove_free_block ?bud h = Some h1"
    "lists_ok h1 ((free_of B)(b := None, ?bud := None))" "same_hdrs h h1"
    "keeps (dom ((free_of B)(b := None))) h h1"
    using remove_free_block_spec[OF lists listed_upd[OF listed_free[OF wf]] L] by blast
  let ?h = "put_fld lo 8 1 (put_fld lo 4 (of_nat (n + 1)) h1)"
  note al = block_aligned32[OF wf lohi(1)]
  have hdr1: "hdr_ok h1 B" by (rule hdr_ok_same[OF hdr wf h1(3)])
  have B'_lo: "B' lo = Some (Suc n, True)" by (simp add: B'_def merge_blocks_def)
  have old: "a \<noteq> lo \<Longrightarrow> B' a = Some e \<Longrightarrow> B a = Some e" for a e
    by (auto simp: B'_def merge_blocks_def split: if_splits)
  have "hdr_ok ?h B'"
    unfolding hdr_ok_def
  proof (intro allI impI)
    fix a m f assume a: "B' a = Some (m, f)"
    show "blk_order ?h a = of_nat m \<and> blk_free ?h a = of_bool f \<and> (\<not> f \<longrightarrow> blk_self ?h a = a)"
    proof (cases "a = lo")
      case True
      with a al B'_lo show ?thesis by auto
    next
      case False
      then have Ba: "B a = Some (m, f)" using a old by blast
      with False hdr_okD[OF hdr1 Ba] block_aligned32[OF wf Ba] al show ?thesis by simp
    qed
  qed
  moreover have "lists_ok ?h ((free_of B')(lo := None))"
  proof -
    have "free_of B' = (free_of B)(?hi := None, lo \<mapsto> Suc n)"
      by (simp add: B'_def merge_blocks_def free_of_upd)
    then have eq: "(free_of B')(lo := None) = (free_of B)(b := None, ?bud := None)"
      using pair by (auto simp: fun_upd_twist)
    show ?thesis unfolding eq using h1(2) al listed_upd[OF listed_upd[OF listed_free[OF wf]]]
      by (intro lists_ok_put_other) simp_all
  qed
  ultimately have "heap_mid (Some lo) ?h B'" using wf' by (simp add: heap_mid_def)
  moreover have "keeps (free_blocks B) h ?h"
  proof -
    have "dom ((free_of B)(b := None)) \<subseteq> free_blocks B" by (auto simp: free_of_Some split: if_splits)
    then have "keeps (free_blocks B) h h1" using h1(4) keeps_mono by blast
    then show ?thesis using al lohi(1) by (intro keeps_put) auto
  qed
  moreover have "coalesced_but (Some lo) B'"
    unfolding coalesced_but_def
  proof (intro allI impI)
    fix a m assume a: "B' a = Some (m, True)" "m < 22" "B' (buddy_addr m a) = Some (m, True)"
    show "Some lo = Some a \<or> Some lo = Some (buddy_addr m a)"
    proof (rule ccontr)
      assume no: "\<not> (Some lo = Some a \<or> Some lo = Some (buddy_addr m a))"
      then have Ba: "B a = Some (m, True)" "B (buddy_addr m a) = Some (m, True)"
        using old a by auto
      with co a(2) have "b = a \<or> b = buddy_addr m a" by (auto simp: coalesced_but_def)
      moreover from this have "m = n" using Ba b by auto
      ultimately have "a = ?hi \<or> buddy_addr m a = ?hi" using no pair by auto
      then show False using a lohi(3) by (auto simp: B'_def merge_blocks_def)
    qed
  qed
  moreover have "used_of B' = used_of B"
  proof -
    have "used_of B lo = None" "used_of B ?hi = None" using lohi by (simp_all add: used_of_def)
    then show ?thesis by (simp add: B'_def merge_blocks_def used_of_upd fun_upd_idem)
  qed
  moreover have "free_blocks B' \<subseteq> free_blocks B"
  proof
    fix a assume "a \<in> free_blocks B'"
    then obtain m where a: "B' a = Some (m, True)" by blast
    show "a \<in> free_blocks B"
      by (cases "a = lo") (use lohi(1) old[OF _ a] in blast)+
  qed
  moreover have "still_free h ?h"
    using same_hdrs_still_free[OF h1(3)] al by (simp add: still_free_def)
  ultimately show ?thesis using that h1(1) B'_lo by blast
qed

lemma coalesce_loop_rep:
  assumes "heap_mid (Some b) h B" "B b = Some (n, True)" "coalesced_but (Some b) B"
  shows "\<exists>b' h' B' n'. coalesce_loop n b h = Some (b', h') \<and> heap_mid (Some b') h' B' \<and>
    B' b' = Some (n', True) \<and> coalesced B' \<and> used_of B' = used_of B \<and>
    keeps (free_blocks B) h h' \<and> b' \<in> free_blocks B \<and> still_free h h'"
  using assms
proof (induction "22 - n" arbitrary: n b h B rule: less_induct)
  case less
  let ?bud = "buddy_addr n b"
  have wf: "wf_blocks B" and hdr: "hdr_ok h B" using less.prems(1) by (simp_all add: heap_mid_def)
  have stop: ?case if "coalesce_loop n b h = Some (b, h)" "n = 22 \<or> B ?bud \<noteq> Some (n, True)"
  proof -
    have "coalesced B"
      using less.prems(2,3) that(2) unfolding coalesced_but_def
      by (metis buddy_involution less_irrefl option.inject prod.inject)
    with that(1) less.prems show ?thesis by (intro exI[of _ b] exI[of _ h] exI[of _ B] exI[of _ n]) auto
  qed
  show ?case
  proof (cases "n < 22")
    case False
    then have "coalesce_loop n b h = Some (b, h)" by (simp add: coalesce_loop.simps)
    with False placedD[OF wf less.prems(2)] show ?thesis by (intro stop) simp_all
  next
    case n: True
    obtain m g where bud: "B ?bud = Some (m, g)" "m \<le> n"
      using buddy_is_block[OF wf less.prems(2) n] by blast
    have fields: "buddy_of h b = ?bud" "blk_free h ?bud = of_bool g" "blk_order h ?bud = of_nat m"
      using buddy_of_rep[OF less.prems(1,2)] hdr_okD[OF hdr bud(1)] by simp_all
    show ?thesis
    proof (cases "g \<and> m = n")
      case False
      then have "coalesce_loop n b h = Some (b, h)"
        using n bud(2) order_word_eq[of m n] fields
        by (subst coalesce_loop.simps) (auto simp: Let_def)
      with False bud(1) show ?thesis by (intro stop) auto
    next
      case True
      then have bud': "B ?bud = Some (n, True)" using bud(1) by simp
      define lo where "lo = (if ?bud < b then ?bud else b)"
      define B' where "B' = merge_blocks n lo (buddy_addr n lo) B"
      obtain h1 where h1: "remove_free_block ?bud h = Some h1"
        "heap_mid (Some lo) (put_fld lo 8 1 (put_fld lo 4 (of_nat (n + 1)) h1)) B'"
        "keeps (free_blocks B) h (put_fld lo 8 1 (put_fld lo 4 (of_nat (n + 1)) h1))"
        "B' lo = Some (Suc n, True)" "coalesced_but (Some lo) B'" "used_of B' = used_of B"
        "free_blocks B' \<subseteq> free_blocks B"
        "still_free h (put_fld lo 8 1 (put_fld lo 4 (of_nat (n + 1)) h1))"
        using merge_step[OF less.prems(1,2) n bud' less.prems(3)] unfolding lo_def B'_def by blast
      let ?h = "put_fld lo 8 1 (put_fld lo 4 (of_nat (n + 1)) h1)"
      have step: "coalesce_loop n b h = coalesce_loop (Suc n) lo ?h"
        using n True bud(2) fields h1(1)
        by (subst coalesce_loop.simps) (simp add: Let_def lo_def)
      have dec: "22 - Suc n < 22 - n" using n by simp
      obtain b' h' B'' n' where r: "coalesce_loop (Suc n) lo ?h = Some (b', h')"
        "heap_mid (Some b') h' B''" "B'' b' = Some (n', True)" "coalesced B''"
        "used_of B'' = used_of B'" "keeps (free_blocks B') ?h h'" "b' \<in> free_blocks B'" "still_free ?h h'"
        using less.hyps[OF dec h1(2,4,5)] by blast
      have "coalesce_loop n b h = Some (b', h')" using step r(1) by (rule trans)
      moreover have "keeps (free_blocks B) h h'"
        using keeps_trans[OF h1(3) keeps_mono[OF r(6) h1(7)]] .
      moreover have "used_of B'' = used_of B" using r(5) h1(6) by (rule trans)
      moreover have "b' \<in> free_blocks B" using r(7) h1(7) by blast
      moreover have "still_free h h'" using h1(8) r(8) by (rule still_free_trans)
      ultimately show ?thesis using r(2,3,4) by blast
    qed
  qed
qed

lemma buddy_free_rep:
  assumes rep: "heap_rep h B" and co: "coalesced B" and b: "B b = Some (n, False)"
    and ptr: "p \<noteq> 0" "load32 (hmem h) (p - 4) = b"
  obtains h' B' where "buddy_free p h = Some h'" "heap_rep h' B'" "coalesced B'"
    "used_of B' = (used_of B)(b := None)" "keeps (insert b (free_blocks B)) h h'"
    "blk_free h' b = 1" "blk_self h' b = b"
proof -
  let ?B = "B(b \<mapsto> (n, True))" and ?h = "put_fld b 8 1 h"
  from rep have wf: "wf_blocks B" and hdr: "hdr_ok h B" and lists: "lists_ok h (free_of B)"
    by (simp_all add: heap_mid_def)
  note al = block_aligned32[OF wf b]
  have wf': "wf_blocks ?B" by (rule wf_set_flag[OF wf b])
  have "hdr_ok ?h ?B"
    unfolding hdr_ok_def
  proof (intro allI impI)
    fix a m f assume a: "?B a = Some (m, f)"
    show "blk_order ?h a = of_nat m \<and> blk_free ?h a = of_bool f \<and> (\<not> f \<longrightarrow> blk_self ?h a = a)"
    proof (cases "a = b")
      case True
      with a al hdr_okD[OF hdr b] show ?thesis by auto
    next
      case False
      then have Ba: "B a = Some (m, f)" using a by simp
      with False hdr_okD[OF hdr Ba] block_aligned32[OF wf Ba] al show ?thesis by simp
    qed
  qed
  moreover have "lists_ok ?h ((free_of ?B)(b := None))"
  proof -
    have "free_of B b = None" using b by (simp add: free_of_def)
    then have eq: "(free_of ?B)(b := None) = free_of B" by (simp add: free_of_upd fun_upd_idem)
    show ?thesis unfolding eq using lists al listed_free[OF wf] by (intro lists_ok_put_other) simp_all
  qed
  ultimately have mid: "heap_mid (Some b) ?h ?B" using wf' by (simp add: heap_mid_def)
  have co': "coalesced_but (Some b) ?B"
    using co by (auto simp: coalesced_but_def split: if_splits)
  have Bb: "?B b = Some (n, True)" by simp
  obtain b' h1 B1 n' where r: "coalesce_loop n b ?h = Some (b', h1)" "heap_mid (Some b') h1 B1"
    "B1 b' = Some (n', True)" "coalesced B1" "used_of B1 = used_of ?B"
    "keeps (free_blocks ?B) ?h h1" "b' \<in> free_blocks ?B" "still_free ?h h1"
    using coalesce_loop_rep[OF mid Bb co'] by blast
  have free: "free_blocks ?B = insert b (free_blocks B)" by auto
  have "unat (blk_order ?h b) = n"
    using mid Bb hdr_okD[of ?h ?B b n True] placedD[OF wf b] by (simp add: heap_mid_def unat_of_nat)
  then have "coalesce b ?h = Some (b', h1)" using r(1) by (simp add: coalesce_def)
  moreover have "b \<noteq> 0" "blk_free h b = 0" using region_nonzero placedD[OF wf b] hdr_okD[OF hdr b] by auto
  ultimately have "buddy_free p h = Some (insert_free_block b' h1)"
    using ptr by (simp add: buddy_free_def Let_def)
  moreover note ins = insert_rep[OF r(2,3)]
  moreover have "keeps (insert b (free_blocks B)) h (insert_free_block b' h1)"
  proof -
    have "keeps (insert b (free_blocks B)) h ?h" using al by (intro keeps_put) simp_all
    also have "keeps (insert b (free_blocks B)) ?h h1" using r(6) free by simp
    also have "keeps (insert b (free_blocks B)) h1 (insert_free_block b' h1)"
      using ins(3) r(7) free by (intro keeps_mono[OF ins(3)]) blast
    finally show ?thesis .
  qed
  moreover have "used_of B1 = (used_of B)(b := None)" using r(5) by (simp add: used_of_upd)
  moreover have "blk_free (insert_free_block b' h1) b = 1 \<and> blk_self (insert_free_block b' h1) b = b"
    using same_hdrsD[OF ins(2) al, of 8] same_hdrsD[OF ins(2) al, of 12] r(8) al hdr_okD[OF hdr b]
    by (simp add: still_free_def)
  ultimately show ?thesis using that r(4) by blast
qed

end
