(* ===== verification/Heap_Alloc.thy ===== *)
theory Heap_Alloc
  imports Heap_Correct
begin

text \<open>
  The contract of the kernel heap as its callers see it. A state of the heap carries a map
  \<open>U\<close> from the pointers in use to their capacities (\<open>heap_ok\<close>); the theorems say what
  \<open>kmalloc\<close>, \<open>kfree\<close>, \<open>kcalloc\<close> and \<open>kmalloc_aligned\<close> do to that map and to the bytes
  the caller owns. The locale \<open>allocator\<close> states the contract as an interface; its client
  lemmas are proved from the laws alone and interpreted on the code's model at the end.
\<close>

section \<open>Live pointers and their bytes\<close>

definition capacity_of :: "blocks \<Rightarrow> u32 \<Rightarrow> nat option" where
  "capacity_of B p = map_option (\<lambda>n. 2 ^ n - 16) (used_of B (p - 16))"

definition heap_ok :: "'a heap_scheme \<Rightarrow> (u32 \<Rightarrow> nat option) \<Rightarrow> bool" where
  "heap_ok h U \<longleftrightarrow> (\<exists>B. heap_rep h B \<and> coalesced B \<and> U = capacity_of B)"

lemma capacity_of_Some:
  "capacity_of B p = Some c \<longleftrightarrow> (\<exists>n. B (p - 16) = Some (n, False) \<and> c = 2 ^ n - 16)"
  by (auto simp: capacity_of_def used_of_Some)

text \<open>The bytes a caller owns are those of its block after the header.\<close>

lemma payload_block:
  assumes wf: "wf_blocks B" and b: "B b = Some (n, False)"
  shows "x \<in> payload (b + 16) (2 ^ n - 16) \<longleftrightarrow> same_block n x b \<and> drop_bit 4 x \<noteq> drop_bit 4 b"
proof -
  note pl = placedD[OF wf b]
  have al4: "take_bit 4 b = 0" using pl take_bit_mono_0[of n b 4] by simp
  have n: "n < 32" using pl by simp
  have less: "(2::nat) ^ n < 2 ^ 32" using n by (intro power_strict_increasing) auto
  have big: "(16::nat) \<le> 2 ^ n" using pl power_increasing[of 4 n "2::nat"] by simp
  have "unat (x - (b + 16)) < 2 ^ n - 16 \<longleftrightarrow> 16 \<le> unat (x - b) \<and> unat (x - b) < 2 ^ n"
  proof -
    have eq: "x - (b + 16) = (x - b) - 16" by simp
    show ?thesis
    proof (cases "16 \<le> x - b")
      case True
      then have "unat ((x - b) - 16) = unat (x - b) - 16" by (simp add: unat_sub)
      moreover have "16 \<le> unat (x - b)" using True by (simp add: word_le_nat_alt)
      ultimately show ?thesis unfolding eq using big by auto
    next
      case False
      then have small: "unat (x - b) < 16" by (simp add: word_le_nat_alt)
      have "unat ((x - b) - 16) = unat (x - b) + 2 ^ 32 - 16"
        using small by (simp add: unat_sub_if_size word_le_nat_alt word_size)
      then show ?thesis unfolding eq using small less n pl(1)
        power_increasing[of n 22 "2::nat"] placedD[OF wf b] by auto
    qed
  qed
  moreover have "same_block n x b \<longleftrightarrow> unat (x - b) < 2 ^ n"
    using same_block_iff_diff[of n b x] pl n by simp
  moreover have "drop_bit 4 x = drop_bit 4 b \<longleftrightarrow> unat (x - b) < 16"
    using same_block_iff_diff[of 4 b x] al4 by simp
  ultimately show ?thesis by (auto simp: payload_def)
qed

lemma kept_payload:
  assumes wf: "wf_blocks B" and b: "B b = Some (n, False)" and keep: "keeps S h h'"
    and S: "\<And>a. a \<in> S \<Longrightarrow> \<not> same_block n a b" and x: "x \<in> payload (b + 16) (2 ^ n - 16)"
  shows "hmem h' x = hmem h x"
proof -
  have "drop_bit 4 x \<noteq> drop_bit 4 a" if "a \<in> S" for a
  proof
    assume "drop_bit 4 x = drop_bit 4 a"
    then have "same_block n x a" using placedD[OF wf b] by (intro same_block_mono[of 4 n]) simp_all
    with S[OF that] x payload_block[OF wf b] show False by auto
  qed
  with keep show ?thesis by (simp add: keeps_def)
qed

text \<open>The live pointers own pairwise disjoint, aligned areas inside the region.\<close>

lemma live_disjoint:
  assumes ok: "heap_ok h U" and p: "U p = Some c" and q: "U q = Some d" and neq: "p \<noteq> q"
  shows "payload p c \<inter> payload q d = {}"
proof -
  obtain B n m where wf: "wf_blocks B" and B: "B (p - 16) = Some (n, False)" "c = 2 ^ n - 16"
    "B (q - 16) = Some (m, False)" "d = 2 ^ m - 16"
    using ok p q by (auto simp: heap_ok_def heap_mid_def capacity_of_Some)
  have "p - 16 \<noteq> q - 16" using neq by simp
  then have "x \<notin> payload q d" if "x \<in> payload p c" for x
    using that payload_block[OF wf B(1), of x] payload_block[OF wf B(3), of x] B(2,4)
      disjointD[OF wf B(1,3), of x] by auto
  then show ?thesis by blast
qed

lemma live_in_region:
  assumes ok: "heap_ok h U" and p: "U p = Some c" and x: "x \<in> payload p c"
  shows "in_region x" and "x \<noteq> 0"
proof -
  obtain B n where wf: "wf_blocks B" and B: "B (p - 16) = Some (n, False)" "c = 2 ^ n - 16"
    using ok p by (auto simp: heap_ok_def heap_mid_def capacity_of_Some)
  have "same_block n x (p - 16)" using payload_block[OF wf B(1), of x] x B(2) by simp
  then show "in_region x" using in_region_cong[of n x "p - 16"] placedD[OF wf B(1)] by simp
  then show "x \<noteq> 0" by (auto simp: in_region_def)
qed

lemma live_aligned:
  assumes ok: "heap_ok h U" and p: "U p = Some c"
  shows "take_bit 4 p = 0" and "p \<noteq> 0" and "16 \<le> c" and "c \<le> 2 ^ 22 - 16"
proof -
  obtain B n where wf: "wf_blocks B" and B: "B (p - 16) = Some (n, False)" "c = 2 ^ n - 16"
    using ok p by (auto simp: heap_ok_def heap_mid_def capacity_of_Some)
  note pl = placedD[OF wf B(1)]
  have n: "(2::nat) ^ 5 \<le> 2 ^ n" "(2::nat) ^ n \<le> 2 ^ 22"
    using pl power_increasing[of 5 n "2::nat"] power_increasing[of n 22 "2::nat"] by simp_all
  then show "16 \<le> c" "c \<le> 2 ^ 22 - 16" using B(2) by simp_all
  have al: "take_bit 5 (p - 16) = 0" using pl take_bit_mono_0[of n "p - 16" 5] by simp
  have "take_bit 5 ((p - 16) + 16) = 16" by (rule take_bit_offset[OF al]) simp
  then have t: "take_bit 5 p = 16" by simp
  then have "take_bit 4 (take_bit 5 p) = take_bit 4 (16 :: u32)" by simp
  then show "take_bit 4 p = 0" by (simp add: take_bit_take_bit)
  show "p \<noteq> 0" using t by auto
qed

section \<open>Allocation\<close>

text \<open>The request rounded up to a multiple of eight.\<close>

abbreviation round8 :: "u32 \<Rightarrow> u32" where
  "round8 sz \<equiv> (sz + 7) AND NOT 7"

lemma round8_nat:
  assumes "sz \<le> - 1 - 7"
  shows "unat (round8 sz) = (unat sz + 7) div 8 * 8"
proof -
  have "unat sz \<le> unat (- 1 - 7 :: u32)" using assms by (simp only: word_le_nat_alt)
  then have "unat (sz + 7) = unat sz + 7" by (simp add: unat_word_ariths)
  moreover have "(sz + 7) AND NOT 7 = push_bit 3 (drop_bit 3 (sz + 7))"
  proof -
    have seven: "(7 :: u32) = mask 3" by (simp add: mask_eq_exp_minus_1)
    show ?thesis unfolding seven by (rule bit_word_eqI) (auto simp: bit_simps)
  qed
  moreover have "unat (push_bit 3 (drop_bit 3 w)) = unat w div 8 * 8" for w :: u32
  proof -
    have "unat (push_bit 3 (drop_bit 3 w)) = take_bit 32 (unat w div 8 * 8)"
      by (subst unsigned_push_bit_eq) (simp add: unat_div push_bit_eq_mult drop_bit_eq_div)
    moreover have "unat w div 8 * 8 < 2 ^ 32"
      using unsigned_less[of w, where ?'a = nat] div_times_less_eq_dividend[of "unat w" 8] by simp
    ultimately show ?thesis by (simp add: take_bit_nat_eq_self)
  qed
  ultimately show ?thesis by simp
qed

lemma capacity_upd:
  "used_of B' = (used_of B)(a \<mapsto> n) \<Longrightarrow> capacity_of B' = (capacity_of B)(a + 16 \<mapsto> 2 ^ n - 16)"
  by (rule ext) (auto simp: capacity_of_def)

lemma capacity_del:
  "used_of B' = (used_of B)(a := None) \<Longrightarrow> capacity_of B' = (capacity_of B)(a + 16 := None)"
  by (rule ext) (auto simp: capacity_of_def)

text \<open>Every allocation either returns \<open>NULL\<close> and changes nothing, or adds a live pointer.\<close>

lemma kmalloc_cases:
  assumes ok: "heap_ok h U"
  obtains "kmalloc sz h = Some (0, h)"
  | p h' c where "kmalloc sz h = Some (p, h')" "p \<noteq> 0" "sz \<noteq> 0" "U p = None" "unat sz \<le> c"
      "heap_ok h' (U(p \<mapsto> c))" "\<And>q d x. U q = Some d \<Longrightarrow> x \<in> payload q d \<Longrightarrow> hmem h' x = hmem h x" "c \<le> 2 * unat sz + 30"
proof -
  obtain B where rep: "heap_rep h B" and co: "coalesced B" and U: "U = capacity_of B"
    using ok by (auto simp: heap_ok_def)
  have wf: "wf_blocks B" using rep by (simp add: heap_mid_def)
  show thesis
  proof (cases "sz = 0 \<or> - 1 - 7 < sz \<or> kmalloc sz h = Some (0, h)")
    case True
    then have "kmalloc sz h = Some (0, h)" by (auto simp: kmalloc_def)
    then show thesis by (rule that(1))
  next
    case False
    then have run: "kmalloc sz h = buddy_alloc (round8 sz) h" and sz: "sz \<noteq> 0" "sz \<le> - 1 - 7"
      and no: "kmalloc sz h \<noteq> Some (0, h)"
      by (auto simp: kmalloc_def simp del: diff_numeral_special)
    obtain h' B' a n where r: "buddy_alloc (round8 sz) h = Some (a + 16, h')" "heap_rep h' B'"
      "coalesced B'" "used_of B a = None" "used_of B' = (used_of B)(a \<mapsto> n)"
      "unat (round8 sz) + 16 \<le> 2 ^ n" "keeps (unused B) h h'"
      "2 ^ n \<le> 2 * unat (round8 sz) + 32"
      using buddy_alloc_rep[OF rep co, of "round8 sz"] no unfolding run by metis
    have U': "U(a + 16 \<mapsto> 2 ^ n - 16) = capacity_of B'"
      unfolding U by (rule capacity_upd[OF r(5), symmetric])
    have ok': "heap_ok h' (U(a + 16 \<mapsto> 2 ^ n - 16))"
      unfolding heap_ok_def using r(2,3) U' by blast
    have "U (a + 16) = None" using r(4) by (simp add: U capacity_of_def)
    moreover have "a + 16 \<noteq> 0" using live_aligned(2)[OF ok', of "a + 16"] by simp
    moreover have "2 ^ n - 16 \<le> 2 * unat sz + 30" using r(8) round8_nat[OF sz(2)] by linarith
    moreover have "unat sz \<le> 2 ^ n - 16" using r(6) round8_nat[OF sz(2)] by linarith
    moreover have "hmem h' x = hmem h x" if q: "U q = Some d" and x: "x \<in> payload q d" for q d x
    proof -
      obtain m where b: "B (q - 16) = Some (m, False)" "d = 2 ^ m - 16"
        using q U by (auto simp: capacity_of_Some)
      have "\<not> same_block m e (q - 16)" if "e \<in> unused B" for e
        using that b by (auto simp: unused_def)
      moreover have "x \<in> payload (q - 16 + 16) (2 ^ m - 16)" using x b by simp
      ultimately show ?thesis using kept_payload[OF wf b(1) r(7)] by blast
    qed
    ultimately show thesis using that(2) run r(1) sz(1) ok' by metis
  qed
qed

lemma kfree_live:
  assumes ok: "heap_ok h U" and p: "U p = Some c"
  obtains h' where "kfree p h = Some h'" "heap_ok h' (U(p := None))" "kfree p h' = None"
    "\<And>q d x. q \<noteq> p \<Longrightarrow> U q = Some d \<Longrightarrow> x \<in> payload q d \<Longrightarrow> hmem h' x = hmem h x"
proof -
  obtain B n where rep: "heap_rep h B" and co: "coalesced B" and U: "U = capacity_of B"
    and b: "B (p - 16) = Some (n, False)"
    using ok p by (auto simp: heap_ok_def capacity_of_Some)
  have wf: "wf_blocks B" and hdr: "hdr_ok h B" using rep by (simp_all add: heap_mid_def)
  have p0: "p \<noteq> 0" by (rule live_aligned(2)[OF ok p])
  have "blk_self h (p - 16) = p - 16" using hdr_okD[OF hdr b] by simp
  then have self: "load32 (hmem h) (p - 4) = p - 16" by (simp add: get_fld_def)
  obtain h' B' where r: "buddy_free p h = Some h'" "heap_rep h' B'" "coalesced B'"
    "used_of B' = (used_of B)(p - 16 := None)" "keeps (insert (p - 16) (free_blocks B)) h h'"
    "blk_free h' (p - 16) = 1" "blk_self h' (p - 16) = p - 16"
    using buddy_free_rep[OF rep co b p0 self] by blast
  have "U(p := None) = capacity_of B'" using capacity_del[OF r(4)] by (simp add: U)
  then have "heap_ok h' (U(p := None))" unfolding heap_ok_def using r(2,3) by blast
  moreover have "kfree p h' = None"
  proof -
    have "load32 (hmem h') (p - 4) = p - 16" using r(7) by (simp add: get_fld_def)
    then show ?thesis using p0 r(6) by (simp add: kfree_def buddy_free_def)
  qed
  moreover have "hmem h' x = hmem h x"
    if q: "q \<noteq> p" "U q = Some d" and x: "x \<in> payload q d" for q d x
  proof -
    obtain m where e: "B (q - 16) = Some (m, False)" "d = 2 ^ m - 16"
      using q U by (auto simp: capacity_of_Some)
    have "\<not> same_block m a (q - 16)" if a: "a \<in> insert (p - 16) (free_blocks B)" for a
    proof
      assume same: "same_block m a (q - 16)"
      obtain k f where ak: "B a = Some (k, f)" using a b by auto
      then have "a = q - 16" using disjointD[OF wf ak e(1), of a] same by simp
      with a e q show False by auto
    qed
    moreover have "x \<in> payload (q - 16 + 16) (2 ^ m - 16)" using x e by simp
    ultimately show ?thesis using kept_payload[OF wf e(1) r(5)] by blast
  qed
  ultimately show thesis using that r(1) unfolding kfree_def by blast
qed

section \<open>Initial state, and writes by the owner\<close>

lemma shrink_order_start: "shrink_order HEAP_START 22 = 22"
  by (subst shrink_order.simps) (simp add: HEAP_START_def HEAP_SIZE_def)

lemma kmalloc_init_run:
  "kmalloc_init h = Some (init_free_block HEAP_START 22
     (h\<lparr>free_lists := (\<lambda>i. if i \<le> 22 then 0 else free_lists h i)\<rparr>))"
  by (simp add: kmalloc_init_def HEAP_START_def HEAP_SIZE_def MAX_BLOCK_SIZE_def Let_def)

lemma single_block_wf: "wf_blocks [HEAP_START \<mapsto> (22, True)]"
proof -
  have start: "in_region HEAP_START" "take_bit 22 HEAP_START = 0" "drop_bit 22 HEAP_START = 8"
    by (simp_all add: in_region_def HEAP_START_def)
  have "blocks_placed [HEAP_START \<mapsto> (22, True)]"
    using start by (simp add: blocks_placed_def)
  moreover have "blocks_cover [HEAP_START \<mapsto> (22, True)]"
    using start by (auto simp: blocks_cover_def in_region_def)
  moreover have "blocks_disjoint [HEAP_START \<mapsto> (22, True)]"
    by (simp add: blocks_disjoint_def)
  ultimately show ?thesis by (simp add: wf_blocks_def)
qed

lemma single_block_coalesced: "coalesced [HEAP_START \<mapsto> (22, True)]"
  by (simp add: coalesced_but_def)

lemma kmalloc_init_rep:
  obtains h' where "kmalloc_init h = Some h'" "heap_rep h' [HEAP_START \<mapsto> (22, True)]"
proof -
  let ?B = "[HEAP_START \<mapsto> (22, True)] :: blocks"
  let ?h0 = "h\<lparr>free_lists := (\<lambda>i. if i \<le> 22 then 0 else free_lists h i)\<rparr>"
  let ?h = "init_free_block HEAP_START 22 ?h0"
  have al: "hdr_aligned HEAP_START" "HEAP_START \<noteq> 0" by (simp_all add: HEAP_START_def)
  have get_top: "get_fld (s\<lparr>free_lists := f, heap_top := t\<rparr>) a i = get_fld s a i" for s :: "'a heap_scheme" and f t a i
    by (simp add: get_fld_def)
  have flds: "blk_next ?h HEAP_START = 0" "blk_order ?h HEAP_START = 22" "blk_free ?h HEAP_START = 1"
    using al by (simp_all add: init_free_block_def Let_def get_top)
  have lists: "free_lists ?h = (\<lambda>i. if i = 22 then HEAP_START else if i \<le> 22 then 0 else free_lists h i)"
    by (auto simp: init_free_block_def Let_def)
  have "hdr_ok ?h ?B" using flds by (simp add: hdr_ok_def)
  moreover have "lists_ok ?h (free_of ?B)"
    unfolding lists_ok_def
  proof (intro allI impI)
    fix n :: nat assume "n \<le> 22"
    show "\<exists>xs. chain (nxt ?h) (ptr_of (free_lists ?h n)) xs \<and> set xs = {a. free_of ?B a = Some n}"
    proof (cases "n = 22")
      case True
      have "{a. free_of ?B a = Some n} = {HEAP_START}" using True by (auto simp: free_of_Some split: if_splits)
      then show ?thesis using True lists al flds by (intro exI[of _ "[HEAP_START]"]) (simp add: nxt_def)
    next
      case False
      then have "{a. free_of ?B a = Some n} = {}" by (auto simp: free_of_Some split: if_splits)
      then show ?thesis using False \<open>n \<le> 22\<close> lists by (intro exI[of _ "[]"]) simp
    qed
  qed
  ultimately have "heap_rep ?h ?B" using single_block_wf by (simp add: heap_mid_def)
  with kmalloc_init_run[of h] that show thesis by blast
qed

lemma kmalloc_init_ok:
  obtains h' where "kmalloc_init h = Some h'" "heap_ok h' (\<lambda>_. None)"
proof -
  obtain h' where h': "kmalloc_init h = Some h'" "heap_rep h' [HEAP_START \<mapsto> (22, True)]"
    by (rule kmalloc_init_rep)
  have "capacity_of [HEAP_START \<mapsto> (22, True)] = (\<lambda>_. None)"
    by (rule ext) (simp add: capacity_of_def used_of_def)
  then have "heap_ok h' (\<lambda>_. None)"
    unfolding heap_ok_def using h'(2) single_block_coalesced by metis
  with h'(1) that show thesis by blast
qed

text \<open>The state of the heap reads only headers, so the owner of a block may write its bytes.\<close>

lemma heap_rep_cong:
  assumes rep: "heap_rep h B"
    and hdrs: "\<And>a n f x. B a = Some (n, f) \<Longrightarrow> drop_bit 4 x = drop_bit 4 a \<Longrightarrow> m x = hmem h x"
  shows "heap_rep (h\<lparr>hmem := m\<rparr>) B"
proof -
  let ?h = "h\<lparr>hmem := m\<rparr>"
  have wf: "wf_blocks B" and hdr: "hdr_ok h B" and lists: "lists_ok h (free_of B)"
    using rep by (simp_all add: heap_mid_def)
  have fld: "get_fld ?h a i = get_fld h a i" if B: "B a = Some (n, f)" and i: "is_fld i" for a n f i
  proof -
    have al: "take_bit 4 a = 0" using block_aligned32[OF wf B] take_bit_mono_0[of 5 a 4] by simp
    have "m (a + j) = hmem h (a + j)" if "take_bit 4 j = j" for j
      by (rule hdrs[OF B]) (rule drop_bit_offset[OF al that])
    note at = this
    show ?thesis using i at[of 0] by (auto simp: get_fld_def add.assoc intro!: load32_cong at)
  qed
  have "hdr_ok ?h B"
    unfolding hdr_ok_def
  proof (intro allI impI)
    fix a n f assume a: "B a = Some (n, f)"
    show "blk_order ?h a = of_nat n \<and> blk_free ?h a = of_bool f \<and> (\<not> f \<longrightarrow> blk_self ?h a = a)"
      using hdr_okD[OF hdr a] fld[OF a, of 4] fld[OF a, of 8] fld[OF a, of 12] by simp
  qed
  moreover have "lists_ok ?h (free_of B)"
    unfolding lists_ok_def
  proof (intro allI impI)
    fix n :: nat assume n: "n \<le> 22"
    obtain xs where xs: "chain (nxt h) (ptr_of (free_lists h n)) xs" "set xs = {a. free_of B a = Some n}"
      using lists n by (rule lists_okE)
    have "nxt h x = nxt ?h x" if "x \<in> set xs" for x
    proof -
      have "B x = Some (n, True)" using that xs(2) by (simp add: free_of_Some)
      from fld[OF this, of 0] show ?thesis by (simp add: nxt_def)
    qed
    then have "chain (nxt ?h) (ptr_of (free_lists ?h n)) xs"
      using xs(1) path_cong[of xs "nxt h" "nxt ?h"] by simp
    with xs(2) show "\<exists>xs. chain (nxt ?h) (ptr_of (free_lists ?h n)) xs \<and> set xs = {a. free_of B a = Some n}"
      by blast
  qed
  ultimately show ?thesis using wf by (simp add: heap_mid_def)
qed

lemma owner_write:
  assumes ok: "heap_ok h U" and p: "U p = Some c" and m: "\<And>x. x \<notin> payload p c \<Longrightarrow> m x = hmem h x"
  shows "heap_ok (h\<lparr>hmem := m\<rparr>) U"
proof -
  obtain B n where rep: "heap_rep h B" and co: "coalesced B" and U: "U = capacity_of B"
    and b: "B (p - 16) = Some (n, False)" "c = 2 ^ n - 16"
    using ok p by (auto simp: heap_ok_def capacity_of_Some)
  have wf: "wf_blocks B" using rep by (simp add: heap_mid_def)
  have "m x = hmem h x" if a: "B a = Some (k, f)" and x: "drop_bit 4 x = drop_bit 4 a" for a k f x
  proof (rule m, rule notI)
    assume "x \<in> payload p c"
    then have px: "same_block n x (p - 16)" "drop_bit 4 x \<noteq> drop_bit 4 (p - 16)"
      using payload_block[OF wf b(1), of x] b(2) by simp_all
    have "same_block k x a" using x placedD[OF wf a] by (intro same_block_mono[of 4 k]) simp_all
    then have "a = p - 16" using disjointD[OF wf a b(1) _ px(1)] by simp
    with x px(2) show False by simp
  qed
  then have "heap_rep (h\<lparr>hmem := m\<rparr>) B" by (intro heap_rep_cong[OF rep])
  with co U show ?thesis unfolding heap_ok_def by blast
qed

section \<open>Completeness\<close>

text \<open>
  The allocator never refuses a request that a free aligned area could serve: if the aligned
  area of size \<open>2 ^ n\<close> at \<open>a\<close> meets no live block, some free block contains it, because
  free buddies have always been merged.
\<close>

lemma free_area_block:
  assumes wf: "wf_blocks B" and co: "coalesced B" and a: "in_region a" and n: "n \<le> 22"
    and free: "\<And>c m x. B c = Some (m, False) \<Longrightarrow> same_block m x c \<Longrightarrow> \<not> same_block n x a"
  obtains c m where "B c = Some (m, True)" "n \<le> m"
proof -
  have inside: False if "B c = Some (m, f)" "m < n" "same_block n c a" for c m f
    using that
  proof (induction m arbitrary: c f rule: less_induct)
    case (less m)
    have f: f using free[OF _ refl, of c m] less.prems by (cases f) auto
    have m: "m < 22" using less.prems(2) n by simp
    obtain k g where b: "B (buddy_addr m c) = Some (k, g)" "k \<le> m"
      using buddy_is_block[OF wf less.prems(1) m] by blast
    have in_a: "same_block n (buddy_addr m c) a"
      using buddy_same_block[OF less.prems(2), of c] less.prems(3) by simp
    show False
    proof (cases "k < m")
      case True
      then show False using less.IH[OF True b(1)] less.prems(2) in_a by simp
    next
      case False
      then have k: "k = m" using b(2) by simp
      have g using free[OF _ refl, of "buddy_addr m c" m] b(1) in_a k by (cases g) auto
      with b k f less.prems(1) m co show False by (auto simp: coalesced_but_def)
    qed
  qed
  obtain c m f where c: "B c = Some (m, f)" "same_block m a c" using coverD[OF wf a] by blast
  have nm: "n \<le> m"
  proof (rule ccontr)
    assume "\<not> n \<le> m"
    then have "m < n" by simp
    moreover from this have "same_block n c a" using same_block_mono[of m n a c] c(2) by simp
    ultimately show False using inside[OF c(1)] by blast
  qed
  have f using free[of c m a] c by (cases f) auto
  with c nm show thesis by (intro that[of c m]) simp_all
qed

definition area_free :: "(u32 \<Rightarrow> nat option) \<Rightarrow> u32 \<Rightarrow> nat \<Rightarrow> bool" where
  "area_free U a n \<longleftrightarrow> (\<forall>q d x. U q = Some d \<longrightarrow> unat (x - (q - 16)) < d + 16 \<longrightarrow> \<not> same_block n x a)"

lemma kmalloc_succeeds:
  assumes ok: "heap_ok h U" and a: "in_region a" "n \<le> 22" and free: "area_free U a n"
    and sz: "sz \<noteq> 0" "unat (round8 sz) + 16 \<le> 2 ^ n" "unat sz < 2 ^ 31"
  shows "kmalloc sz h \<noteq> Some (0, h)"
proof
  assume none: "kmalloc sz h = Some (0, h)"
  obtain B where rep: "heap_rep h B" and co: "coalesced B" and U: "U = capacity_of B"
    using ok by (auto simp: heap_ok_def)
  have wf: "wf_blocks B" using rep by (simp add: heap_mid_def)
  have "\<not> same_block n x a" if c: "B c = Some (m, False)" and x: "same_block m x c" for c m x
  proof -
    note pl = placedD[OF wf c]
    have "U (c + 16) = Some (2 ^ m - 16)" using c by (simp add: U capacity_of_def used_of_def)
    moreover have "(16::nat) \<le> 2 ^ m" using pl power_increasing[of 4 m "2::nat"] by simp
    moreover have "unat (x - c) < 2 ^ m" using same_block_iff_diff[of m c x] x pl by simp
    ultimately show ?thesis using free unfolding area_free_def
      by (metis add_diff_cancel_right' le_add_diff_inverse2)
  qed
  then obtain c m where c: "B c = Some (m, True)" "n \<le> m"
    using free_area_block[OF wf co a] by blast
  have le: "sz \<le> - 1 - 7" using sz(3) by (simp add: word_le_nat_alt)
  have r0: "round8 sz \<noteq> 0"
  proof
    assume "round8 sz = 0"
    then have "unat (round8 sz) = 0" by (simp only: unsigned_0)
    with round8_nat[OF le] have "(unat sz + 7) div 8 = 0" by simp
    then have "unat sz = 0" by simp
    with sz(1) show False by (simp add: unat_eq_0)
  qed
  have "\<not> - 1 - 7 < sz" using le by (simp only: not_less)
  then have "kmalloc sz h = buddy_alloc (round8 sz) h" using sz(1) by (simp only: kmalloc_def if_False)
  with none have none': "buddy_alloc (round8 sz) h = Some (0, h)" by simp
  have "(2::nat) ^ n \<le> 2 ^ m" using c(2) by (intro power_increasing) auto
  then have "\<not> 2 ^ m < unat (round8 sz) + 16" using sz(2) by linarith
  with c(1) r0 have "\<not> (round8 sz = 0 \<or> (\<forall>a n. B a = Some (n, True) \<longrightarrow> 2 ^ n < unat (round8 sz) + 16))"
    by blast
  then obtain h' B' b k where r: "buddy_alloc (round8 sz) h = Some (b + 16, h')" "heap_rep h' B'"
    "used_of B' = (used_of B)(b \<mapsto> k)"
    using buddy_alloc_rep[OF rep co, of "round8 sz"] by blast
  have "used_of B' b = Some k" "b + 16 = 0" using r(1,3) none' by simp_all
  moreover from this have "b = - 16" by (simp add: eq_neg_iff_add_eq_0)
  ultimately have "B' (- 16) = Some (k, False)" by (simp add: used_of_Some)
  then have "in_region (- 16)" using placedD[of B' "- 16" k False] r(2) by (simp add: heap_mid_def)
  then show False by (simp add: in_region_def)
qed

section \<open>The allocator interface\<close>

text \<open>Sequences of allocations and of releases, for any allocator.\<close>

fun alloc_all :: "(u32 \<Rightarrow> 's \<Rightarrow> (u32 \<times> 's) option) \<Rightarrow> u32 list \<Rightarrow> 's \<Rightarrow> (u32 list \<times> 's) option" where
  "alloc_all al [] s = Some ([], s)"
| "alloc_all al (n # ns) s = (case al n s of None \<Rightarrow> None | Some (p, s) \<Rightarrow>
     (case alloc_all al ns s of None \<Rightarrow> None | Some (ps, s) \<Rightarrow> Some (p # ps, s)))"

fun release_all :: "(u32 \<Rightarrow> 's \<Rightarrow> 's option) \<Rightarrow> u32 list \<Rightarrow> 's \<Rightarrow> 's option" where
  "release_all rel [] s = Some s"
| "release_all rel (p # ps) s = (case rel p s of None \<Rightarrow> None | Some s \<Rightarrow> release_all rel ps s)"

text \<open>
  What a client of the heap relies on. \<open>ok s U\<close> is the provider's invariant for the live
  pointers \<open>U\<close>; the client may write the bytes of a live payload directly in memory.
\<close>

locale allocator =
  fixes alloc :: "u32 \<Rightarrow> 's \<Rightarrow> (u32 \<times> 's) option"
    and release :: "u32 \<Rightarrow> 's \<Rightarrow> 's option"
    and bytes :: "'s \<Rightarrow> mem"
    and poke :: "mem \<Rightarrow> 's \<Rightarrow> 's"
    and ok :: "'s \<Rightarrow> (u32 \<Rightarrow> nat option) \<Rightarrow> bool"
  assumes alloc_cases: "ok s U \<Longrightarrow> alloc n s = Some (0, s) \<or>
      (\<exists>p s' c. alloc n s = Some (p, s') \<and> p \<noteq> 0 \<and> U p = None \<and> unat n \<le> c \<and> ok s' (U(p \<mapsto> c)) \<and>
        (\<forall>q d x. U q = Some d \<longrightarrow> x \<in> payload q d \<longrightarrow> bytes s' x = bytes s x))"
    and release_live: "ok s U \<Longrightarrow> U p = Some c \<Longrightarrow>
      \<exists>s'. release p s = Some s' \<and> ok s' (U(p := None)) \<and> release p s' = None \<and>
        (\<forall>q d x. q \<noteq> p \<longrightarrow> U q = Some d \<longrightarrow> x \<in> payload q d \<longrightarrow> bytes s' x = bytes s x)"
    and live_apart: "ok s U \<Longrightarrow> U p = Some c \<Longrightarrow> U q = Some d \<Longrightarrow> p \<noteq> q \<Longrightarrow>
      payload p c \<inter> payload q d = {}"
    and poke_live: "ok s U \<Longrightarrow> U p = Some c \<Longrightarrow> (\<And>x. x \<notin> payload p c \<Longrightarrow> m x = bytes s x) \<Longrightarrow>
      ok (poke m s) U"
    and bytes_poke: "bytes (poke m s) = m"
begin

text \<open>Releasing what was just allocated gives back the live map and keeps every other byte.\<close>

lemma alloc_release:
  assumes ok: "ok s U" and a: "alloc n s = Some (p, s')" "p \<noteq> 0"
  obtains s'' where "release p s' = Some s''" "ok s'' U"
    "\<And>q d x. U q = Some d \<Longrightarrow> x \<in> payload q d \<Longrightarrow> bytes s'' x = bytes s x"
proof -
  obtain c where c: "U p = None" "ok s' (U(p \<mapsto> c))"
    "\<And>q d x. U q = Some d \<Longrightarrow> x \<in> payload q d \<Longrightarrow> bytes s' x = bytes s x"
    using alloc_cases[OF ok, of n] a by auto
  obtain s'' where r: "release p s' = Some s''" "ok s'' ((U(p \<mapsto> c))(p := None))"
    "\<And>q d x. q \<noteq> p \<Longrightarrow> U q = Some d \<Longrightarrow> x \<in> payload q d \<Longrightarrow> bytes s'' x = bytes s' x"
    using release_live[OF c(2), of p c] by auto
  have "(U(p \<mapsto> c))(p := None) = U" using c(1) by (simp add: fun_upd_idem)
  moreover have "bytes s'' x = bytes s x" if "U q = Some d" "x \<in> payload q d" for q d x
    using that r(3)[of q d x] c(3)[of q d x] c(1) by (cases "q = p") auto
  ultimately show thesis using that r(1,2) by simp
qed

text \<open>A write to one live object cannot be seen through another.\<close>

lemma poke_other:
  assumes ok: "ok s U" and p: "U p = Some c" and q: "U q = Some d" "p \<noteq> q"
    and m: "\<And>x. x \<notin> payload p c \<Longrightarrow> m x = bytes s x" and x: "x \<in> payload q d"
  shows "bytes (poke m s) x = bytes s x"
  using live_apart[OF ok p q(1) q(2)] m x bytes_poke by auto

text \<open>Allocating several objects: they are live, and the older objects keep their bytes.\<close>

lemma alloc_all_live:
  assumes "ok s U" "alloc_all alloc ns s = Some (ps, s')" "0 \<notin> set ps"
  shows "distinct ps \<and> dom U \<inter> set ps = {} \<and>
    (\<exists>V. ok s' V \<and> dom V = dom U \<union> set ps \<and> (\<forall>q d. U q = Some d \<longrightarrow> V q = Some d) \<and>
      (\<forall>q d x. U q = Some d \<longrightarrow> x \<in> payload q d \<longrightarrow> bytes s' x = bytes s x))"
  using assms
proof (induction ns arbitrary: s U ps)
  case Nil
  then show ?case by auto
next
  case (Cons n ns)
  obtain p s1 ps' where p: "alloc n s = Some (p, s1)" "alloc_all alloc ns s1 = Some (ps', s')" "ps = p # ps'"
    using Cons.prems(2) by (auto split: option.splits)
  have p0: "p \<noteq> 0" "0 \<notin> set ps'" using Cons.prems(3) p(3) by auto
  obtain c where c: "U p = None" "ok s1 (U(p \<mapsto> c))"
    "\<And>q d x. U q = Some d \<Longrightarrow> x \<in> payload q d \<Longrightarrow> bytes s1 x = bytes s x"
    using alloc_cases[OF Cons.prems(1), of n] p p0 by auto
  obtain V where V: "distinct ps'" "dom (U(p \<mapsto> c)) \<inter> set ps' = {}" "ok s' V"
    "dom V = dom (U(p \<mapsto> c)) \<union> set ps'" "\<And>q d. (U(p \<mapsto> c)) q = Some d \<Longrightarrow> V q = Some d"
    "\<And>q d x. (U(p \<mapsto> c)) q = Some d \<Longrightarrow> x \<in> payload q d \<Longrightarrow> bytes s' x = bytes s1 x"
    using Cons.IH[OF c(2) p(2) p0(2)] by blast
  have old: "(U(p \<mapsto> c)) q = Some d" if "U q = Some d" for q d using that c(1) by auto
  have "V q = Some d" if "U q = Some d" for q d using V(5)[OF old[OF that]] .
  moreover have "bytes s' x = bytes s x" if "U q = Some d" "x \<in> payload q d" for q d x
    using V(6)[OF old[OF that(1)] that(2)] c(3)[OF that] by simp
  moreover have "dom V = dom U \<union> set ps" using V(4) p(3) by auto
  moreover have "distinct ps" "dom U \<inter> set ps = {}" using V(1,2) c(1) p(3) by auto
  ultimately show ?case using V(3) by blast
qed

text \<open>Distinct live pointers can be released in any order.\<close>

lemma release_all_live:
  assumes "ok s U" "distinct ps" "set ps \<subseteq> dom U"
  shows "\<exists>s'. release_all release ps s = Some s' \<and> ok s' (U |` (- set ps)) \<and>
    (\<forall>q d x. q \<notin> set ps \<longrightarrow> U q = Some d \<longrightarrow> x \<in> payload q d \<longrightarrow> bytes s' x = bytes s x)"
  using assms
proof (induction ps arbitrary: s U)
  case Nil
  then show ?case by simp
next
  case (Cons p ps)
  obtain c where "U p = Some c" using Cons.prems(3) by auto
  then obtain s1 where s1: "release p s = Some s1" "ok s1 (U(p := None))"
    "\<And>q d x. q \<noteq> p \<Longrightarrow> U q = Some d \<Longrightarrow> x \<in> payload q d \<Longrightarrow> bytes s1 x = bytes s x"
    using release_live[OF Cons.prems(1)] by blast
  obtain s' where s': "release_all release ps s1 = Some s'" "ok s' ((U(p := None)) |` (- set ps))"
    "\<And>q d x. q \<notin> set ps \<Longrightarrow> (U(p := None)) q = Some d \<Longrightarrow> x \<in> payload q d \<Longrightarrow> bytes s' x = bytes s1 x"
  proof -
    have "distinct ps" "set ps \<subseteq> dom (U(p := None))" using Cons.prems(2,3) by auto
    with Cons.IH[OF s1(2)] that show thesis by blast
  qed
  have eq: "(U(p := None)) |` (- set ps) = U |` (- set (p # ps))"
    by (rule ext) (simp add: restrict_map_def)
  have "bytes s' x = bytes s x" if "q \<notin> set (p # ps)" "U q = Some d" "x \<in> payload q d" for q d x
    using s'(3)[of q d x] s1(3)[of q d x] that by simp
  then show ?case using s1(1) s'(1,2) unfolding eq by auto
qed

end

interpretation kheap: allocator kmalloc kfree hmem "\<lambda>m h. h\<lparr>hmem := m\<rparr>" heap_ok
proof unfold_locales
  fix s :: "'a heap_scheme" and U n
  assume ok: "heap_ok s U"
  show "kmalloc n s = Some (0, s) \<or>
      (\<exists>p s' c. kmalloc n s = Some (p, s') \<and> p \<noteq> 0 \<and> U p = None \<and> unat n \<le> c \<and> heap_ok s' (U(p \<mapsto> c)) \<and>
        (\<forall>q d x. U q = Some d \<longrightarrow> x \<in> payload q d \<longrightarrow> hmem s' x = hmem s x))"
    by (rule kmalloc_cases[OF ok, of n]) blast+
next
  fix s :: "'a heap_scheme" and U p c
  assume "heap_ok s U" "U p = Some c"
  then show "\<exists>s'. kfree p s = Some s' \<and> heap_ok s' (U(p := None)) \<and> kfree p s' = None \<and>
        (\<forall>q d x. q \<noteq> p \<longrightarrow> U q = Some d \<longrightarrow> x \<in> payload q d \<longrightarrow> hmem s' x = hmem s x)"
    by (rule kfree_live) blast
qed (auto intro: live_disjoint owner_write dest: live_disjoint)

end
