(* ===== verification/Heap_Extra.thy ===== *)
theory Heap_Extra
  imports Heap_Alloc
begin

text \<open>
  The two derived allocators of \<open>heap.c\<close>: \<open>kcalloc\<close>, which multiplies with an overflow
  check and clears the object, and \<open>kmalloc_aligned\<close>, which over-allocates, rounds the
  pointer up and leaves the header's address in the word before it for \<open>kfree\<close>.
\<close>

section \<open>kcalloc\<close>

lemma heap_memset_at:
  "n \<le> 2 ^ 32 \<Longrightarrow> heap_memset p c n m x = (if x \<in> payload p n then c else m x)"
  by (induction n arbitrary: p m) (auto simp: payload_Suc next_payload)

lemma mult_checked:
  assumes "n \<noteq> 0" "\<not> - 1 div n < (s :: u32)"
  shows "unat (n * s) = unat n * unat s"
proof -
  have "unat s \<le> unat (- 1 :: u32) div unat n"
    using assms(2) by (simp add: word_le_nat_alt not_less unat_div)
  then have "unat n * unat s \<le> unat (- 1 :: u32)"
    by (metis div_times_less_eq_dividend le_trans mult.commute mult_le_mono1)
  then have "unat n * unat s < 2 ^ 32" by simp
  then show ?thesis by (simp add: unat_word_ariths)
qed

lemma kcalloc_cases:
  assumes ok: "heap_ok h U"
  obtains "kcalloc n s h = Some (0, h)"
  | p h' c where "kcalloc n s h = Some (p, h')" "p \<noteq> 0" "U p = None" "unat n * unat s \<le> c"
      "heap_ok h' (U(p \<mapsto> c))" "\<And>x. x \<in> payload p (unat n * unat s) \<Longrightarrow> hmem h' x = 0"
      "\<And>q d x. U q = Some d \<Longrightarrow> x \<in> payload q d \<Longrightarrow> hmem h' x = hmem h x"
proof (cases "n = 0 \<or> s = 0 \<or> - 1 div n < s")
  case True
  then have "kcalloc n s h = Some (0, h)" by (auto simp: kcalloc_def)
  then show thesis by (rule that(1))
next
  case False
  note tot = mult_checked[of n s]
  show thesis
  proof (rule kmalloc_cases[OF ok, of "n * s"])
    assume "kmalloc (n * s) h = Some (0, h)"
    then have "kcalloc n s h = Some (0, h)" using False by (simp add: kcalloc_def)
    then show thesis by (rule that(1))
  next
    fix p h1 c
    assume k: "kmalloc (n * s) h = Some (p, h1)" "p \<noteq> 0" "U p = None" "unat (n * s) \<le> c"
      "heap_ok h1 (U(p \<mapsto> c))" "\<And>q d x. U q = Some d \<Longrightarrow> x \<in> payload q d \<Longrightarrow> hmem h1 x = hmem h x"
    let ?m = "heap_memset p 0 (unat (n * s)) (hmem h1)"
    have m: "?m x = (if x \<in> payload p (unat (n * s)) then 0 else hmem h1 x)" for x
      by (rule heap_memset_at) (use unsigned_less[of "n * s", where ?'a = nat] in simp)
    have sub: "payload p (unat (n * s)) \<subseteq> payload p c" by (rule payload_mono[OF k(4)])
    have ok': "heap_ok (h1\<lparr>hmem := ?m\<rparr>) (U(p \<mapsto> c))"
      by (rule owner_write[OF k(5), of p c]) (use m sub in auto)
    have "?m x = hmem h x" if q: "U q = Some d" "x \<in> payload q d" for q d x
    proof -
      have "p \<noteq> q" using q(1) k(3) by auto
      then have "payload p c \<inter> payload q d = {}" using live_disjoint[OF k(5), of p c q d] q(1) by simp
      then show ?thesis using m sub q k(6) by auto
    qed
    moreover have "kcalloc n s h = Some (p, h1\<lparr>hmem := ?m\<rparr>)" using False k by (simp add: kcalloc_def)
    ultimately show thesis using that(2) k(2-4) ok' m tot False by simp
  qed
qed

section \<open>kmalloc_aligned\<close>

lemma power_of_two_nat: "0 < n \<Longrightarrow> n AND (n - 1) = 0 \<Longrightarrow> \<exists>k. n = (2::nat) ^ k"
proof (induction n rule: less_induct)
  case (less n)
  show ?case
  proof (cases "even n")
    case True
    then obtain m where m: "n = 2 * m" by blast
    then have pos: "0 < m" using less.prems(1) by simp
    have "n AND (n - 1) = 2 * (m AND (m - 1))"
    proof -
      have "n div 2 = m" "(n - 1) div 2 = m - 1" "odd (n - 1)" using pos m by auto
      then show ?thesis by (subst and_rec) (simp add: True)
    qed
    with less.prems(2) have "m AND (m - 1) = 0" by simp
    then obtain k where "m = 2 ^ k" using less.IH[of m] m pos by auto
    with m show ?thesis by (intro exI[of _ "Suc k"]) simp
  next
    case False
    then obtain m where m: "n = 2 * m + 1" by (blast elim: oddE)
    then have "n AND (n - 1) = 2 * m" by (subst and_rec) simp
    with less.prems(2) m have "n = 2 ^ 0" by simp
    then show ?thesis by blast
  qed
qed

lemma power_of_two_word:
  assumes "(w :: u32) \<noteq> 0" "w AND (w - 1) = 0"
  obtains k where "k < 32" "w = push_bit k 1"
proof -
  have "unat w AND unat (w - 1) = 0" using assms(2) by (metis unsigned_0 unsigned_and_eq)
  then have "unat w AND (unat w - 1) = 0" using assms(1) by (simp add: unat_minus_one)
  then obtain k where k: "unat w = 2 ^ k"
    using power_of_two_nat[of "unat w"] assms(1) by (auto simp: unat_gt_0)
  have "(2::nat) ^ k < 2 ^ 32" using k unsigned_less[of w, where ?'a = nat] by simp
  then have "k < 32" by (rule power_less_imp_less_exp[rotated]) simp
  moreover have "w = push_bit k 1" using k unat_pow2[OF \<open>k < 32\<close>] by (simp add: word_unat_eq_iff)
  ultimately show thesis by (rule that)
qed

lemma next_pow2_props:
  "next_pow2 al k = Some a \<Longrightarrow> k < 32 \<Longrightarrow> \<exists>j. k \<le> j \<and> j < 32 \<and> a = push_bit j 1 \<and> al \<le> a"
proof (induction al k rule: next_pow2.induct)
  case (1 al k)
  show ?case
  proof (cases "push_bit k 1 < al")
    case False
    then show ?thesis using 1 by (intro exI[of _ k]) (simp add: next_pow2.simps[of al k])
  next
    case True
    have small: "\<not> - 1 div 2 < (push_bit k 1 :: u32)" and rec: "next_pow2 al (Suc k) = Some a"
      using 1(2,3) True by (simp_all add: next_pow2.simps[of al k] split: if_splits)
    have "k \<noteq> 31" using small by auto
    then have "Suc k < 32" using 1(3) by simp
    with 1(1)[OF _ small rec] True 1(3) show ?thesis by (meson Suc_leD)
  qed
qed

text \<open>Rounding up to a multiple of \<open>2 ^ k\<close>, four bytes or more past the raw pointer.\<close>

lemma and_not_low:
  assumes "k < 32"
  shows "W AND NOT (push_bit k 1 - 1 :: u32) = W - take_bit k W"
    and "take_bit k (W AND NOT (push_bit k 1 - 1 :: u32)) = 0"
proof -
  have m: "push_bit k 1 - 1 = (mask k :: u32)" by (simp add: mask_eq_exp_minus_1)
  have eq: "W AND NOT (mask k) = push_bit k (drop_bit k W)"
    by (rule bit_word_eqI) (auto simp: bit_simps)
  show "W AND NOT (push_bit k 1 - 1) = W - take_bit k W"
    unfolding m eq using bits_ident[of k W] by (metis add_diff_cancel_right')
  show "take_bit k (W AND NOT (push_bit k 1 - 1)) = 0"
    unfolding m eq by (rule bit_word_eqI) (auto simp: bit_simps)
qed

lemma round_up_aligned:
  "k < 32 \<Longrightarrow> take_bit k ((raw + 4 + push_bit k 1 - 1) AND NOT (push_bit k 1 - 1 :: u32)) = 0"
  by (rule and_not_low)

lemma round_up_fits:
  assumes k: "k < 32" and c: "s + 2 ^ k + 4 \<le> c"
  shows "payload (((raw + 4 + push_bit k 1 - 1) AND NOT (push_bit k 1 - 1)) - 4) (s + 4) \<subseteq> payload raw c"
proof
  let ?W = "raw + 4 + push_bit k 1 - 1 :: u32"
  let ?a = "?W AND NOT (push_bit k 1 - 1)"
  let ?t = "take_bit k ?W"
  fix x assume "x \<in> payload (?a - 4) (s + 4)"
  then have x: "unat (x - (?a - 4)) < s + 4" by (simp add: payload_def)
  have split: "x - raw = (x - (?a - 4)) + (push_bit k 1 - 1 - ?t)"
    unfolding and_not_low(1)[OF k] by (simp only: algebra_simps)
  have "unat (push_bit k 1 - 1 - ?t :: u32) < 2 ^ k"
  proof -
    have p: "unat (push_bit k 1 - 1 :: u32) = 2 ^ k - 1"
      using unat_pow2[OF k] k by (subst unat_minus_one) auto
    have t: "unat ?t < 2 ^ k" by (simp only: unsigned_take_bit_eq take_bit_nat_less_exp)
    then have "?t \<le> push_bit k 1 - 1" unfolding word_le_nat_alt p by simp
    then have "unat (push_bit k 1 - 1 - ?t) = 2 ^ k - 1 - unat ?t" using p by (simp only: unat_sub)
    also have "\<dots> < 2 ^ k" by (simp add: less_imp_diff_less)
    finally show ?thesis .
  qed
  then have "unat (x - raw) < s + 4 + 2 ^ k"
    unfolding split using x unat_add_le[of "x - (?a - 4)" "push_bit k 1 - 1 - ?t"] by linarith
  then show "x \<in> payload raw c" using c by (simp add: payload_def)
qed

lemma aligned_total:
  assumes k: "k < 32" and sz: "sz \<le> - 1 - push_bit k 1 - (4 :: u32)"
  shows "unat (sz + push_bit k 1 + 4) = unat sz + 2 ^ k + 4"
proof -
  note w = unat_pow2[OF k]
  have k31: "(2::nat) ^ k \<le> 2 ^ 31" using k by (intro power_increasing) auto
  have "unat (- 1 - push_bit k 1 :: u32) = 4294967295 - 2 ^ k"
  proof -
    have "(2::nat) ^ k \<le> 4294967295" using k31 by simp
    with w show ?thesis by (subst unat_sub) (simp_all only: word_le_nat_alt unat_minus_1)
  qed
  moreover from this have "unat (- 1 - push_bit k 1 - 4 :: u32) = 4294967291 - 2 ^ k"
    using k31 by (subst unat_sub) (simp_all add: word_le_nat_alt)
  ultimately have "unat sz \<le> 4294967291 - 2 ^ k" using sz by (simp only: word_le_nat_alt)
  then have le: "unat sz + 2 ^ k + 4 < 4294967296" using k31 by simp
  have "unat (sz + push_bit k 1) = unat sz + 2 ^ k" using w le by (simp only: unat_word_ariths) simp
  with le show ?thesis by (simp add: unat_word_ariths)
qed

lemma kmalloc_aligned_cases:
  assumes ok: "heap_ok h U"
  obtains "kmalloc_aligned sz al h = Some (0, h)"
  | a k raw c h' where "kmalloc_aligned sz al h = Some (a, h')" "a \<noteq> 0" "k < 32" "take_bit k a = 0"
      "unat al \<le> 2 ^ k" "U raw = None" "heap_ok h' (U(raw \<mapsto> c))"
      "payload (a - 4) (unat sz + 4) \<subseteq> payload raw c" "unat sz \<le> c" "load32 (hmem h') (a - 4) = raw - 16"
      "\<And>q d x. U q = Some d \<Longrightarrow> x \<in> payload q d \<Longrightarrow> hmem h' x = hmem h x"
proof -
  define al' where "al' = (if al < 4 then 4 else al)"
  define A where "A = (if al' AND (al' - 1) \<noteq> 0 then next_pow2 al' 0 else Some al')"
  show thesis
  proof (cases "sz = 0 \<or> A = None \<or> - 1 - the A - 4 < sz \<or> kmalloc (sz + the A + 4) h = Some (0, h)")
    case True
    then have "kmalloc_aligned sz al h = Some (0, h)"
      by (auto simp: kmalloc_aligned_def A_def[symmetric] al'_def[symmetric] Let_def split: option.splits)
    then show thesis by (rule that(1))
  next
    case False
    then obtain w where w: "A = Some w" and sz: "sz \<noteq> 0" "sz \<le> - 1 - w - 4"
      and no: "kmalloc (sz + w + 4) h \<noteq> Some (0, h)" by (auto simp: not_less)
    have al'0: "al' \<noteq> 0" "4 \<le> al'" "al \<le> al'" by (auto simp: al'_def word_le_nat_alt word_less_nat_alt)
    obtain k where k: "k < 32" "w = push_bit k 1" "al' \<le> w"
      using w power_of_two_word[of al'] next_pow2_props[of al' 0 w] al'0
      unfolding A_def by (auto split: if_splits)
    have w_nat: "unat w = 2 ^ k" using k unat_pow2 by simp
    have k31: "(2::nat) ^ k \<le> 2 ^ 31" using k(1) by (intro power_increasing) auto
    show thesis
    proof (rule kmalloc_cases[OF ok, of "sz + w + 4"])
      assume "kmalloc (sz + w + 4) h = Some (0, h)"
      with no show thesis by contradiction
    next
      fix raw h1 c
      assume r: "kmalloc (sz + w + 4) h = Some (raw, h1)" "raw \<noteq> 0" "U raw = None"
        "unat (sz + w + 4) \<le> c" "heap_ok h1 (U(raw \<mapsto> c))"
        "\<And>q d x. U q = Some d \<Longrightarrow> x \<in> payload q d \<Longrightarrow> hmem h1 x = hmem h x"
      let ?a = "(raw + 4 + w - 1) AND NOT (w - 1)"
      let ?m = "store32 (hmem h1) (?a - 4) (raw - 16)"
      have tot: "unat sz + 2 ^ k + 4 \<le> c"
        using aligned_total[OF k(1) sz(2)[unfolded k(2)]] r(4) k(2) by simp
      have fit: "payload (?a - 4) (unat sz + 4) \<subseteq> payload raw c"
        using round_up_fits[OF k(1), of "unat sz" c raw] tot k(2) by simp
      have run: "kmalloc_aligned sz al h = Some (?a, h1\<lparr>hmem := ?m\<rparr>)"
      proof -
        have "\<not> - 1 - w - 4 < sz" using sz(2) by (simp only: not_less)
        then show ?thesis using sz(1) w r(1,2)
          by (simp add: kmalloc_aligned_def A_def[symmetric] al'_def[symmetric] Let_def)
      qed
      have mem: "?m x = hmem h1 x" if "x \<notin> payload (?a - 4) (unat sz + 4)" for x
        using that by (intro store32_other) (auto simp: payload_def)
      have ok': "heap_ok (h1\<lparr>hmem := ?m\<rparr>) (U(raw \<mapsto> c))"
        by (rule owner_write[OF r(5), of raw c]) (use mem fit in auto)
      have "unat (?a - (?a - 4)) < unat sz + 4"
      proof -
        have "?a - (?a - 4) = 4" by (simp only: diff_diff_eq2 add_diff_cancel_left')
        with sz(1) show ?thesis by (simp add: unat_gt_0)
      qed
      then have "?a \<in> payload (?a - 4) (unat sz + 4)" unfolding payload_def by blast
      with fit have "?a \<in> payload raw c" by blast
      then have a0: "?a \<noteq> 0" using live_in_region(2)[OF r(5), of raw c] by simp
      have al: "take_bit k ?a = 0" using round_up_aligned[OF k(1)] k(2) by simp
      have le: "unat al \<le> 2 ^ k" using al'0(3) k(3) w_nat by (simp add: word_le_nat_alt)
      have "?m x = hmem h x" if q: "U q = Some d" "x \<in> payload q d" for q d x
      proof -
        have "raw \<noteq> q" using q(1) r(3) by auto
        then have "payload raw c \<inter> payload q d = {}"
          using live_disjoint[OF r(5), of raw c q d] q(1) by simp
        then show ?thesis using mem[of x] fit q r(6) by auto
      qed
      then show thesis
        using that(2)[OF run a0 k(1) al le r(3) ok' fit] tot by (simp add: mem_simps)
    qed
  qed
qed

text \<open>Freeing an aligned pointer.\<close>

lemma aligned_payload: "payload a n \<subseteq> payload (a - 4) (n + 4)"
proof
  fix x assume "x \<in> payload a n"
  then have "unat (x - a) < n" by (simp add: payload_def)
  moreover have "x - (a - 4) = (x - a) + 4" by simp
  moreover have "unat (x - a + 4) \<le> unat (x - a) + 4"
    using unat_add_le[of "x - a" 4] by simp
  ultimately have "unat (x - (a - 4)) < n + 4" by (simp only:)
  then show "x \<in> payload (a - 4) (n + 4)" by (simp add: payload_def)
qed

lemma before_payload: "n \<le> 2 ^ 22 \<Longrightarrow> i \<in> {0, 1, 2, 3} \<Longrightarrow> a - 4 + i \<notin> payload a n"
  by (auto simp: payload_def)

lemma self_pointer:
  assumes "heap_ok h U" "U p = Some c"
  shows "load32 (hmem h) (p - 4) = p - 16"
proof -
  obtain B n where "heap_rep h B" and b: "B (p - 16) = Some (n, False)"
    using assms by (auto simp: heap_ok_def capacity_of_Some)
  then have "blk_self h (p - 16) = p - 16" using hdr_okD[where h = h and B = B and a = "p - 16" and n = n and f = False] by (simp add: heap_mid_def)
  then show ?thesis by (simp add: get_fld_def)
qed

lemma aligned_free:
  assumes ok: "heap_ok h (U(raw \<mapsto> c))" and fresh: "U raw = None"
    and sub: "payload a n \<subseteq> payload raw c" and n: "n \<le> c" and slot: "load32 (hmem h) (a - 4) = raw - 16"
    and a: "a \<noteq> 0" and m: "\<forall>x. x \<notin> payload a n \<longrightarrow> m x = hmem h x"
  shows "\<exists>h'. kfree a (h\<lparr>hmem := m\<rparr>) = Some h' \<and> heap_ok h' U"
proof -
  let ?h = "h\<lparr>hmem := m\<rparr>"
  have ok': "heap_ok ?h (U(raw \<mapsto> c))" by (rule owner_write[OF ok, of raw c]) (use m sub in auto)
  have small: "n \<le> 2 ^ 22" using live_aligned(4)[OF ok, of raw c] n by simp
  have "load32 m (a - 4) = load32 (hmem h) (a - 4)"
    using m before_payload[OF small, of 0 a] before_payload[OF small, of 1 a]
      before_payload[OF small, of 2 a] before_payload[OF small, of 3 a]
    by (intro load32_cong) simp_all
  moreover have "load32 m (raw - 4) = raw - 16" using self_pointer[OF ok', of raw c] by simp
  moreover have "raw \<noteq> 0" using live_aligned(2)[OF ok, of raw c] by simp
  ultimately have same: "kfree a ?h = kfree raw ?h"
    using a slot by (simp add: kfree_def buddy_free_def)
  have "(U(raw \<mapsto> c))(raw := None) = U" using fresh by (simp add: fun_upd_idem)
  then show ?thesis using kfree_live[OF ok', of raw c] same by (metis fun_upd_same)
qed

end
