(* ===== verification/Heap_Spec.thy ===== *)
theory Heap_Spec
  imports Heap_Extra
begin

text \<open>
  The properties of the kernel heap, stated over the live map of \<open>Heap_Alloc\<close>: what each
  entry point of \<open>heap.c\<close> returns, which bytes it leaves alone, and what sequences of
  calls come to. They rest on the interpretation \<open>kheap\<close> of the allocator interface and
  on the case lemmas of \<open>Heap_Alloc\<close> and \<open>Heap_Extra\<close>.
\<close>

text \<open>A heap before \<open>kmalloc_init\<close>, for the concrete instances below.\<close>

definition boot_heap :: heap where
  "boot_heap = \<lparr>console = [], port_out = [], port_in = (\<lambda>_ _. 0), port_reads = (\<lambda>_. 0), iflag = False,
     hmem = (\<lambda>_. 0), free_lists = (\<lambda>_. 0), heap_top = 0\<rparr>"

lemma area_free_empty: "area_free (\<lambda>_. None) a n"
  by (simp add: area_free_def)

lemma first_alloc:
  assumes "sz \<noteq> 0" "unat sz \<le> 4194288"
  obtains h1 p h2 c where "kmalloc_init boot_heap = Some h1" "heap_ok h1 (\<lambda>_. None)"
    "kmalloc sz h1 = Some (p, h2)" "p \<noteq> 0" "unat sz \<le> c" "heap_ok h2 [p \<mapsto> c]"
proof -
  obtain h1 where h1: "kmalloc_init boot_heap = Some h1" "heap_ok h1 (\<lambda>_. None)"
    by (rule kmalloc_init_ok)
  have start: "in_region HEAP_START" by (simp add: in_region_def HEAP_START_def)
  have "sz \<le> - 1 - 7" using assms(2) by (simp add: word_le_nat_alt)
  then have "unat (round8 sz) + 16 \<le> 2 ^ 22" using assms(2) round8_nat[of sz] by simp
  then have "kmalloc sz h1 \<noteq> Some (0, h1)"
    using kmalloc_succeeds[OF h1(2) start _ area_free_empty, of 22 sz] assms by simp
  with kmalloc_cases[OF h1(2), of sz] h1 that show thesis by metis
qed

text \<open>C1: On a sound heap, \<open>kmalloc\<close> always returns. Either it returns \<open>NULL\<close> and leaves the
  heap as it was, or it returns a fresh, 16-byte aligned pointer to at least the requested
  number of bytes, all inside the heap region, disjoint from every live allocation, and no byte of
  a live allocation changes.\<close>

theorem kmalloc_correct:
  assumes ok: "heap_ok h U"
  shows "kmalloc sz h = Some (0, h) \<or>
    (\<exists>p h' c. kmalloc sz h = Some (p, h') \<and> p \<noteq> 0 \<and> U p = None \<and> unat sz \<le> c \<and>
      heap_ok h' (U(p \<mapsto> c)) \<and> take_bit 4 p = 0 \<and> (\<forall>x \<in> payload p c. in_region x) \<and>
      (\<forall>q d. U q = Some d \<longrightarrow> payload p c \<inter> payload q d = {} \<and>
        (\<forall>x \<in> payload q d. hmem h' x = hmem h x)))"
proof (rule kmalloc_cases[OF ok, of sz])
  fix p h' c
  assume r: "kmalloc sz h = Some (p, h')" "p \<noteq> 0" "U p = None" "unat sz \<le> c"
    "heap_ok h' (U(p \<mapsto> c))" "\<And>q d x. U q = Some d \<Longrightarrow> x \<in> payload q d \<Longrightarrow> hmem h' x = hmem h x"
  have "payload p c \<inter> payload q d = {}" if "U q = Some d" for q d
    using live_disjoint[OF r(5), of p c q d] that r(3) by (cases "p = q") auto
  moreover have "take_bit 4 p = 0" "\<And>x. x \<in> payload p c \<Longrightarrow> in_region x"
    using live_aligned(1)[OF r(5), of p c] live_in_region(1)[OF r(5), of p c] by simp_all
  ultimately show ?thesis using r by blast
qed simp

theorem kmalloc_correct_witness:
  "\<exists>h1. kmalloc_init boot_heap = Some h1 \<and>
    (kmalloc 100 h1 = Some (0, h1) \<or> (\<exists>p h' c. kmalloc 100 h1 = Some (p, h') \<and> 100 \<le> c \<and> heap_ok h' [p \<mapsto> c]))"
proof -
  obtain h1 where h1: "kmalloc_init boot_heap = Some h1" "heap_ok h1 (\<lambda>_. None)"
    by (rule kmalloc_init_ok)
  with kmalloc_correct[OF h1(2), of 100] show ?thesis by auto
qed

text \<open>C2: \<open>kmalloc\<close> is complete: if some aligned area of \<open>2 ^ n\<close> bytes of the region meets no
  live block, a request that fits in it with its header succeeds. Fragmentation between
  free buddies cannot make it fail.\<close>

theorem kmalloc_complete:
  assumes "heap_ok h U" and "in_region a" "n \<le> 22" and "area_free U a n"
    and "sz \<noteq> 0" "unat sz < 2 ^ 31" "(unat sz + 7) div 8 * 8 + 16 \<le> 2 ^ n"
  shows "\<exists>p h'. kmalloc sz h = Some (p, h') \<and> p \<noteq> 0"
proof -
  have "sz \<le> - 1 - 7" using assms(6) by (simp add: word_le_nat_alt)
  then have "unat (round8 sz) + 16 \<le> 2 ^ n" using assms(7) round8_nat[of sz] by simp
  then have "kmalloc sz h \<noteq> Some (0, h)" using kmalloc_succeeds[OF assms(1-4)] assms(5,6) by blast
  with kmalloc_cases[OF assms(1), of sz] show ?thesis by metis
qed

theorem kmalloc_complete_witness:
  "\<exists>h1 p h2. kmalloc_init boot_heap = Some h1 \<and> kmalloc 4194288 h1 = Some (p, h2) \<and> p \<noteq> 0"
proof -
  obtain h1 where h1: "kmalloc_init boot_heap = Some h1" "heap_ok h1 (\<lambda>_. None)"
    by (rule kmalloc_init_ok)
  have "in_region HEAP_START" by (simp add: in_region_def HEAP_START_def)
  from kmalloc_complete[OF h1(2) this, of 22 4194288] h1(1) show ?thesis
    by (simp add: area_free_empty)
qed

text \<open>C3: \<open>kfree\<close> of a live pointer returns, makes exactly that pointer dead, and changes no
  byte of the other live allocations; freeing the pointer a second time runs into the
  endless halt of \<open>buddy_free\<close> (\<open>None\<close>).\<close>

theorem kfree_correct:
  assumes "heap_ok h U" "U p = Some c"
  shows "\<exists>h'. kfree p h = Some h' \<and> heap_ok h' (U(p := None)) \<and> kfree p h' = None \<and>
    (\<forall>q d. q \<noteq> p \<longrightarrow> U q = Some d \<longrightarrow> (\<forall>x \<in> payload q d. hmem h' x = hmem h x))"
  using kheap.release_live[OF assms] by blast

theorem kfree_correct_witness:
  "\<exists>h1 p h2 h3. kmalloc_init boot_heap = Some h1 \<and> kmalloc 100 h1 = Some (p, h2) \<and>
    kfree p h2 = Some h3 \<and> kfree p h3 = None"
proof -
  obtain h1 p h2 c where a: "kmalloc_init boot_heap = Some h1" "kmalloc 100 h1 = Some (p, h2)"
    "heap_ok h2 [p \<mapsto> c]"
    by (rule first_alloc[of 100]) simp_all
  with kfree_correct[of h2 "[p \<mapsto> c]" p c] show ?thesis by auto
qed

text \<open>C4: Any sequence of allocations that all succeed yields distinct fresh pointers, and
  freeing them in any order returns the heap to the live map it had, with every older
  allocation's bytes untouched.\<close>

theorem heap_lifetime:
  assumes ok: "heap_ok h U" and al: "alloc_all kmalloc ns h = Some (ps, h')" "0 \<notin> set ps"
    and perm: "distinct qs" "set qs = set ps"
  shows "distinct ps \<and> dom U \<inter> set ps = {} \<and>
    (\<exists>h''. release_all kfree qs h' = Some h'' \<and> heap_ok h'' U \<and>
      (\<forall>q d. U q = Some d \<longrightarrow> (\<forall>x \<in> payload q d. hmem h'' x = hmem h x)))"
proof -
  obtain V where V: "distinct ps" "dom U \<inter> set ps = {}" "heap_ok h' V" "dom V = dom U \<union> set ps"
    "\<And>q d. U q = Some d \<Longrightarrow> V q = Some d"
    "\<And>q d x. U q = Some d \<Longrightarrow> x \<in> payload q d \<Longrightarrow> hmem h' x = hmem h x"
    using kheap.alloc_all_live[OF ok al] by blast
  obtain h'' where h'': "release_all kfree qs h' = Some h''" "heap_ok h'' (V |` (- set qs))"
    "\<And>q d x. q \<notin> set qs \<Longrightarrow> V q = Some d \<Longrightarrow> x \<in> payload q d \<Longrightarrow> hmem h'' x = hmem h' x"
    using kheap.release_all_live[OF V(3) perm(1)] perm(2) V(4) by blast
  have "V |` (- set qs) = U"
  proof
    fix q show "(V |` (- set qs)) q = U q"
      using V(2,4) V(5)[of q] perm(2) by (cases "U q") (auto simp: restrict_map_def domIff)
  qed
  moreover have "hmem h'' x = hmem h x" if q: "U q = Some d" "x \<in> payload q d" for q d x
  proof -
    have "q \<notin> set qs" using q(1) V(2) perm(2) by blast
    from h''(3)[OF this V(5)[OF q(1)] q(2)] V(6)[OF q] show ?thesis by simp
  qed
  ultimately show ?thesis using V(1,2) h''(1,2) by metis
qed

theorem heap_lifetime_witness:
  "\<exists>h1 p h2 h3. kmalloc_init boot_heap = Some h1 \<and> alloc_all kmalloc [64] h1 = Some ([p], h2) \<and>
    release_all kfree [p] h2 = Some h3 \<and> heap_ok h3 (\<lambda>_. None)"
proof -
  obtain h1 p h2 where a: "kmalloc_init boot_heap = Some h1" "heap_ok h1 (\<lambda>_. None)"
    "kmalloc 64 h1 = Some (p, h2)" "p \<noteq> 0"
    by (rule first_alloc[of 64]) simp_all
  then have al: "alloc_all kmalloc [64] h1 = Some ([p], h2)" by simp
  with a heap_lifetime[OF a(2) al, of "[p]"] show ?thesis by auto
qed

text \<open>C5: Once every live pointer has been freed, in whatever order, the buddies have all merged
  back: the heap is again the single free block of 4 MiB it was after \<open>kmalloc_init\<close>.\<close>

theorem heap_all_freed:
  assumes "heap_ok h U" "distinct ps" "set ps = dom U"
  shows "\<exists>h'. release_all kfree ps h = Some h' \<and> heap_rep h' [HEAP_START \<mapsto> (22, True)]"
proof -
  obtain h' where h': "release_all kfree ps h = Some h'" "heap_ok h' (U |` (- set ps))"
    using kheap.release_all_live[OF assms(1,2)] assms(3) by blast
  then obtain B where B: "heap_rep h' B" "coalesced B" "U |` (- set ps) = capacity_of B"
    by (auto simp: heap_ok_def)
  have wf: "wf_blocks B" using B(1) by (simp add: heap_mid_def)
  have "f" if "B a = Some (n, f)" for a n f
  proof (rule ccontr)
    assume "\<not> f"
    with that have "capacity_of B (a + 16) = Some (2 ^ n - 16)"
      by (simp add: capacity_of_def used_of_def)
    then have "(U |` (- set ps)) (a + 16) = Some (2 ^ n - 16)" using B(3) by simp
    then show False using assms(3) by (auto simp: restrict_map_def split: if_splits)
  qed
  then have "B = [HEAP_START \<mapsto> (22, True)]" by (rule all_free_single_block[OF wf B(2)])
  with h'(1) B(1) show ?thesis by blast
qed

theorem heap_all_freed_witness:
  "\<exists>h1 h2. kmalloc_init boot_heap = Some h1 \<and> release_all kfree [] h1 = Some h2 \<and>
    heap_rep h2 [HEAP_START \<mapsto> (22, True)]"
proof -
  obtain h1 where h1: "kmalloc_init boot_heap = Some h1" "heap_ok h1 (\<lambda>_. None)"
    by (rule kmalloc_init_ok)
  with heap_all_freed[OF h1(2), of "[]"] show ?thesis by simp
qed

text \<open>A program that writes only inside one of its allocations keeps the heap sound and cannot
  be seen through any other allocation, so a buffer that stays in bounds never corrupts the
  allocator or another buffer.\<close>

theorem heap_write_in_bounds:
  assumes "heap_ok h U" "U p = Some c" "\<forall>x. x \<notin> payload p c \<longrightarrow> m x = hmem h x"
  shows "heap_ok (h\<lparr>hmem := m\<rparr>) U \<and>
    (\<forall>q d. q \<noteq> p \<longrightarrow> U q = Some d \<longrightarrow> (\<forall>x \<in> payload q d. m x = hmem h x))"
proof -
  have "m x = hmem h x" if "q \<noteq> p" "U q = Some d" "x \<in> payload q d" for q d x
    using kheap.poke_other[OF assms(1,2) that(2) _ _ that(3), of m] that(1) assms(3) by auto
  then show ?thesis using kheap.poke_live[OF assms(1,2), of m] assms(3) by blast
qed

theorem heap_write_in_bounds_witness:
  "\<exists>h1 p h2. kmalloc_init boot_heap = Some h1 \<and> kmalloc 100 h1 = Some (p, h2) \<and>
    (\<exists>c. heap_ok (h2\<lparr>hmem := (hmem h2)(p := 65)\<rparr>) [p \<mapsto> c])"
proof -
  obtain h1 p h2 c where a: "kmalloc_init boot_heap = Some h1" "kmalloc 100 h1 = Some (p, h2)"
    "unat (100 :: u32) \<le> c" "heap_ok h2 [p \<mapsto> c]"
    by (rule first_alloc[of 100]) simp_all
  have "p \<in> payload p c" using a(3) by (simp add: payload_def)
  then have "heap_ok (h2\<lparr>hmem := (hmem h2)(p := 65)\<rparr>) [p \<mapsto> c]"
    using heap_write_in_bounds[OF a(4), of p c "(hmem h2)(p := 65)"] by auto
  with a(1,2) show ?thesis by blast
qed

text \<open>\<open>kcalloc\<close> never returns an object smaller than the product of its arguments (a product
  past 32 bits is refused): the object it returns holds that many bytes, all zero, and the
  other live allocations keep their bytes.\<close>

theorem kcalloc_correct:
  assumes ok: "heap_ok h U"
  shows "kcalloc n s h = Some (0, h) \<or>
    (\<exists>p h' c. kcalloc n s h = Some (p, h') \<and> p \<noteq> 0 \<and> U p = None \<and> unat n * unat s \<le> c \<and>
      heap_ok h' (U(p \<mapsto> c)) \<and> (\<forall>x \<in> payload p (unat n * unat s). hmem h' x = 0) \<and>
      (\<forall>q d. U q = Some d \<longrightarrow> (\<forall>x \<in> payload q d. hmem h' x = hmem h x)))"
  by (rule kcalloc_cases[OF ok, of n s]) blast+

theorem kcalloc_correct_witness:
  "\<exists>h1. kmalloc_init boot_heap = Some h1 \<and>
    (kcalloc 10 4 h1 = Some (0, h1) \<or>
      (\<exists>p h2. kcalloc 10 4 h1 = Some (p, h2) \<and> (\<forall>x \<in> payload p 40. hmem h2 x = 0)))"
proof -
  obtain h1 where h1: "kmalloc_init boot_heap = Some h1" "heap_ok h1 (\<lambda>_. None)"
    by (rule kmalloc_init_ok)
  with kcalloc_correct[OF h1(2), of 10 4] show ?thesis by auto
qed

text \<open>\<open>kmalloc_aligned\<close> returns a pointer aligned to a power of two that is at least the
  requested alignment, with the requested bytes inside a fresh allocation; and however the
  caller fills those bytes, \<open>kfree\<close> of the aligned pointer frees that allocation.\<close>

theorem kmalloc_aligned_correct:
  assumes ok: "heap_ok h U"
  shows "kmalloc_aligned sz al h = Some (0, h) \<or>
    (\<exists>a h' k raw c. kmalloc_aligned sz al h = Some (a, h') \<and> a \<noteq> 0 \<and> take_bit k a = 0 \<and>
      unat al \<le> 2 ^ k \<and> U raw = None \<and> heap_ok h' (U(raw \<mapsto> c)) \<and>
      payload a (unat sz) \<subseteq> payload raw c \<and>
      (\<forall>m. (\<forall>x. x \<notin> payload a (unat sz) \<longrightarrow> m x = hmem h' x) \<longrightarrow>
        (\<exists>h''. kfree a (h'\<lparr>hmem := m\<rparr>) = Some h'' \<and> heap_ok h'' U)))"
proof (rule kmalloc_aligned_cases[OF ok, of sz al])
  fix a k raw c h'
  assume r: "kmalloc_aligned sz al h = Some (a, h')" "a \<noteq> 0" "k < 32" "take_bit k a = 0"
    "unat al \<le> 2 ^ k" "U raw = None" "heap_ok h' (U(raw \<mapsto> c))"
    "payload (a - 4) (unat sz + 4) \<subseteq> payload raw c" "unat sz \<le> c" "load32 (hmem h') (a - 4) = raw - 16"
  have sub: "payload a (unat sz) \<subseteq> payload raw c"
    using aligned_payload[of a "unat sz"] r(8) by blast
  have "\<exists>h''. kfree a (h'\<lparr>hmem := m\<rparr>) = Some h'' \<and> heap_ok h'' U"
    if m: "\<forall>x. x \<notin> payload a (unat sz) \<longrightarrow> m x = hmem h' x" for m
    using aligned_free[OF r(7) r(6) sub r(9) r(10) r(2) m] by blast
  with r sub show ?thesis by blast
qed simp

theorem kmalloc_aligned_correct_witness:
  "\<exists>h1. kmalloc_init boot_heap = Some h1 \<and>
    (kmalloc_aligned 100 4096 h1 = Some (0, h1) \<or>
      (\<exists>a h2 k. kmalloc_aligned 100 4096 h1 = Some (a, h2) \<and> take_bit k a = 0 \<and> 4096 \<le> (2::nat) ^ k))"
proof -
  obtain h1 where h1: "kmalloc_init boot_heap = Some h1" "heap_ok h1 (\<lambda>_. None)"
    by (rule kmalloc_init_ok)
  have n: "unat (4096 :: u32) = 4096" by simp
  from kmalloc_aligned_correct[OF h1(2), of 100 4096] h1(1) show ?thesis unfolding n by blast
qed

text \<open>A request above 4 MiB less the header always fails, whatever is free: the allocator manages one block
  of the maximal order, an eighth of the 32 MiB that \<open>HEAP_SIZE\<close> sets aside.\<close>

theorem kmalloc_too_big:
  assumes ok: "heap_ok h U" and sz: "4194288 < unat sz"
  shows "kmalloc sz h = Some (0, h)"
  using kmalloc_cases[OF ok, of sz]
proof cases
  case (2 p h' c)
  then show ?thesis using live_aligned(4)[OF 2(6), of p c] sz by simp
qed

theorem kmalloc_too_big_witness:
  "\<exists>h1. kmalloc_init boot_heap = Some h1 \<and> kmalloc 8388608 h1 = Some (0, h1)"
proof -
  obtain h1 where h1: "kmalloc_init boot_heap = Some h1" "heap_ok h1 (\<lambda>_. None)"
    by (rule kmalloc_init_ok)
  with kmalloc_too_big[OF h1(2), of 8388608] show ?thesis by simp
qed

end
