(* ===== verification/CString.thy ===== *)
theory CString
  imports Memory
begin

text \<open>
  The string and memory routines of \<open>lib/string.c\<close>, on byte memory. A routine returns the
  pointer or number the C function returns together with the memory it leaves; a routine whose
  loop is bounded only by a terminator in memory is partial (\<open>None\<close> when it never ends).
\<close>

section \<open>The routines\<close>

partial_function (option) strcpy_loop :: "u32 \<Rightarrow> u32 \<Rightarrow> mem \<Rightarrow> mem option" where
  "strcpy_loop dest src m =
     (if m src \<noteq> 0 then strcpy_loop (dest + 1) (src + 1) (m(dest := m src))
      else Some (m(dest := 0)))"

definition strcpy :: "u32 \<Rightarrow> u32 \<Rightarrow> mem \<Rightarrow> (u32 \<times> mem) option" where
  "strcpy dest src m = map_option (Pair dest) (strcpy_loop dest src m)"

function strncpy_copy :: "u32 \<Rightarrow> u32 \<Rightarrow> nat \<Rightarrow> nat \<Rightarrow> mem \<Rightarrow> nat \<times> mem" where
  "strncpy_copy dest src i n m =
     (if i < n \<and> m (src + of_nat i) \<noteq> 0
      then strncpy_copy dest src (Suc i) n (m(dest + of_nat i := m (src + of_nat i)))
      else (i, m))"
  by pat_completeness auto
termination by (relation "measure (\<lambda>(_, _, i, n, _). n - i)") auto

function strncpy_pad :: "u32 \<Rightarrow> nat \<Rightarrow> nat \<Rightarrow> mem \<Rightarrow> mem" where
  "strncpy_pad dest i n m =
     (if i < n then strncpy_pad dest (Suc i) n (m(dest + of_nat i := 0)) else m)"
  by pat_completeness auto
termination by (relation "measure (\<lambda>(_, i, n, _). n - i)") auto

definition strncpy :: "u32 \<Rightarrow> u32 \<Rightarrow> u32 \<Rightarrow> mem \<Rightarrow> u32 \<times> mem" where
  "strncpy dest src n m =
     (let (i, m) = strncpy_copy dest src 0 (unat n) m in (dest, strncpy_pad dest i (unat n) m))"

partial_function (option) strlen_loop :: "u32 \<Rightarrow> u32 \<Rightarrow> mem \<Rightarrow> u32 option" where
  "strlen_loop str len m = (if m (str + len) \<noteq> 0 then strlen_loop str (len + 1) m else Some len)"

definition strlen :: "u32 \<Rightarrow> mem \<Rightarrow> u32 option" where
  "strlen str m = strlen_loop str 0 m"

function copy_forward :: "u32 \<Rightarrow> u32 \<Rightarrow> nat \<Rightarrow> nat \<Rightarrow> mem \<Rightarrow> mem" where
  "copy_forward d s i n m =
     (if i < n then copy_forward d s (Suc i) n (m(d + of_nat i := m (s + of_nat i))) else m)"
  by pat_completeness auto
termination by (relation "measure (\<lambda>(_, _, i, n, _). n - i)") auto

fun copy_backward :: "u32 \<Rightarrow> u32 \<Rightarrow> nat \<Rightarrow> mem \<Rightarrow> mem" where
  "copy_backward d s 0 m = m"
| "copy_backward d s (Suc i) m = copy_backward d s i (m(d + of_nat i := m (s + of_nat i)))"

definition memcpy :: "u32 \<Rightarrow> u32 \<Rightarrow> u32 \<Rightarrow> mem \<Rightarrow> u32 \<times> mem" where
  "memcpy dest src n m = (dest, copy_forward dest src 0 (unat n) m)"

definition memmove :: "u32 \<Rightarrow> u32 \<Rightarrow> u32 \<Rightarrow> mem \<Rightarrow> u32 \<times> mem" where
  "memmove dest src n m =
     (dest, if dest < src then copy_forward dest src 0 (unat n) m
            else if src < dest then copy_backward dest src (unat n) m
            else m)"

text \<open>
  \<open>memset\<close> works in three phases: bytes up to a word boundary, whole words, and the
  remaining bytes. Each returns the pointer, the count left and the memory.
\<close>

fun memset_head :: "u32 \<Rightarrow> u8 \<Rightarrow> nat \<Rightarrow> mem \<Rightarrow> u32 \<times> nat \<times> mem" where
  "memset_head p c 0 m = (p, 0, m)"
| "memset_head p c (Suc count) m =
     (if p AND 3 \<noteq> 0 then memset_head (p + 1) c count (m(p := c)) else (p, Suc count, m))"

fun fill_word :: "u8 \<Rightarrow> nat \<Rightarrow> u32" where
  "fill_word c 0 = 0"
| "fill_word c (Suc i) = fill_word c i OR push_bit (8 * i) (ucast c)"

function memset_words :: "u32 \<Rightarrow> u32 \<Rightarrow> nat \<Rightarrow> mem \<Rightarrow> u32 \<times> nat \<times> mem" where
  "memset_words wp word count m =
     (if 4 \<le> count then memset_words (wp + 4) word (count - 4) (store32 m wp word)
      else (wp, count, m))"
  by pat_completeness auto
termination by (relation "measure (\<lambda>(_, _, count, _). count)") auto

fun memset_tail :: "u32 \<Rightarrow> u8 \<Rightarrow> nat \<Rightarrow> mem \<Rightarrow> mem" where
  "memset_tail p c 0 m = m"
| "memset_tail p c (Suc count) m = memset_tail (p + 1) c count (m(p := c))"

definition memset :: "u32 \<Rightarrow> u32 \<Rightarrow> u32 \<Rightarrow> mem \<Rightarrow> u32 \<times> mem" where
  "memset dest ch count m =
     (let c = ucast ch :: u8;
          (p, n, m) = memset_head dest c (unat count) m;
          (p, n, m) = memset_words p (fill_word c 4) n m
      in (dest, memset_tail p c n m))"

text \<open>\<open>char\<close> is signed on this target, and the result is the difference as an \<open>int\<close>.\<close>

partial_function (option) strcmp :: "u32 \<Rightarrow> u32 \<Rightarrow> mem \<Rightarrow> int option" where
  "strcmp s1 s2 m =
     (if m s1 \<noteq> 0 \<and> m s2 \<noteq> 0 \<and> m s1 = m s2 then strcmp (s1 + 1) (s2 + 1) m
      else Some (sint (m s1) - sint (m s2)))"

partial_function (option) strrchr_loop :: "u32 \<Rightarrow> u8 \<Rightarrow> u32 \<Rightarrow> mem \<Rightarrow> u32 option" where
  "strrchr_loop s c found m =
     (let found = (if m s = c then s else found) in
      if m s = 0 then Some found else strrchr_loop (s + 1) c found m)"

definition strrchr :: "u32 \<Rightarrow> u32 \<Rightarrow> mem \<Rightarrow> u32 option" where
  "strrchr s c m = strrchr_loop s (ucast c) 0 m"

declare strncpy_copy.simps [simp del] strncpy_pad.simps [simp del] copy_forward.simps [simp del]
  memset_words.simps [simp del]

section \<open>Strings in memory\<close>

text \<open>\<open>cstring m p xs\<close>: at \<open>p\<close> stand the non-zero bytes \<open>xs\<close> and a terminator.\<close>

fun cstring :: "mem \<Rightarrow> u32 \<Rightarrow> u8 list \<Rightarrow> bool" where
  "cstring m p [] \<longleftrightarrow> m p = 0"
| "cstring m p (x # xs) \<longleftrightarrow> x \<noteq> 0 \<and> m p = x \<and> cstring m (p + 1) xs"

lemma cstring_cong:
  "(\<And>x. x \<in> payload p (Suc (length xs)) \<Longrightarrow> m' x = m x) \<Longrightarrow> cstring m' p xs = cstring m p xs"
proof (induction xs arbitrary: p)
  case Nil
  then show ?case by (simp add: payload_Suc)
next
  case (Cons x xs)
  have "m' p = m p" "\<And>y. y \<in> payload (p + 1) (Suc (length xs)) \<Longrightarrow> m' y = m y"
    using Cons.prems by (simp_all add: payload_Suc[of _ p])
  with Cons.IH[of "p + 1"] show ?case by simp
qed

lemma cstring_unique: "cstring m p xs \<Longrightarrow> cstring m p ys \<Longrightarrow> xs = ys"
proof (induction xs arbitrary: p ys)
  case Nil
  then show ?case by (cases ys) auto
next
  case (Cons x xs)
  then show ?case by (cases ys) auto
qed

lemma cstring_nth: "cstring m p xs \<Longrightarrow> i < length xs \<Longrightarrow> m (p + of_nat i) = xs ! i \<and> xs ! i \<noteq> 0"
proof (induction xs arbitrary: p i)
  case Nil
  then show ?case by simp
next
  case (Cons x xs)
  then show ?case by (cases i) (auto simp flip: add.assoc)
qed

lemma cstring_end: "cstring m p xs \<Longrightarrow> m (p + of_nat (length xs)) = 0"
  by (induction xs arbitrary: p) (auto simp flip: add.assoc)

section \<open>strlen, strcpy, strcmp, strrchr\<close>

lemma strlen_loop_cstring:
  "cstring m (s + len) xs \<Longrightarrow> strlen_loop s len m = Some (len + of_nat (length xs))"
proof (induction xs arbitrary: len)
  case Nil
  then show ?case by (simp add: strlen_loop.simps)
next
  case (Cons x xs)
  then have "strlen_loop s (len + 1) m = Some (len + 1 + of_nat (length xs))"
    by (intro Cons.IH) (simp add: add.assoc)
  with Cons.prems show ?case by (subst strlen_loop.simps) (simp add: add.assoc)
qed

lemma strcpy_loop_cstring:
  assumes "cstring m src xs" "payload dest (Suc (length xs)) \<inter> payload src (Suc (length xs)) = {}"
    "Suc (length xs) < 2 ^ 32"
  shows "\<exists>m'. strcpy_loop dest src m = Some m' \<and> cstring m' dest xs \<and>
    (\<forall>x. x \<notin> payload dest (Suc (length xs)) \<longrightarrow> m' x = m x)"
  using assms
proof (induction xs arbitrary: dest src m)
  case Nil
  then show ?case by (simp add: strcpy_loop.simps payload_Suc)
next
  case (Cons x xs)
  let ?m = "m(dest := x)"
  have apart: "payload (dest + 1) (Suc (length xs)) \<inter> payload (src + 1) (Suc (length xs)) = {}"
    using Cons.prems(2) by (auto simp: payload_Suc)
  have "dest \<notin> payload src (Suc (length (x # xs)))" using Cons.prems(2) by (auto simp: payload_Suc)
  then have "\<And>y. y \<in> payload (src + 1) (Suc (length xs)) \<Longrightarrow> ?m y = m y" by (auto simp: payload_Suc)
  then have "cstring ?m (src + 1) xs" using Cons.prems(1) cstring_cong[of "src + 1" xs ?m m] by simp
  moreover have "Suc (length xs) < 2 ^ 32" using Cons.prems(3) by simp
  ultimately obtain m' where m': "strcpy_loop (dest + 1) (src + 1) ?m = Some m'" "cstring m' (dest + 1) xs"
    "\<And>y. y \<notin> payload (dest + 1) (Suc (length xs)) \<Longrightarrow> m' y = ?m y"
    using Cons.IH[OF _ apart] by blast
  have "dest \<notin> payload (dest + 1) (Suc (length xs))" using Cons.prems(3) by (intro next_payload) simp
  then have "m' dest = x" using m'(3) by simp
  moreover have "strcpy_loop dest src m = Some m'" using m'(1) Cons.prems(1) by (subst strcpy_loop.simps) simp
  ultimately show ?case using m'(2,3) Cons.prems(1) by (auto simp: payload_Suc)
qed

text \<open>The order of \<open>strcmp\<close>: the first difference decides, by signed bytes.\<close>

fun cmp_bytes :: "u8 list \<Rightarrow> u8 list \<Rightarrow> int" where
  "cmp_bytes [] [] = 0"
| "cmp_bytes [] (y # ys) = - sint y"
| "cmp_bytes (x # xs) [] = sint x"
| "cmp_bytes (x # xs) (y # ys) = (if x = y then cmp_bytes xs ys else sint x - sint y)"

lemma strcmp_cstring: "cstring m p xs \<Longrightarrow> cstring m q ys \<Longrightarrow> strcmp p q m = Some (cmp_bytes xs ys)"
proof (induction xs ys arbitrary: p q rule: cmp_bytes.induct)
  case (4 x xs y ys)
  then show ?case by (subst strcmp.simps) auto
qed (auto simp: strcmp.simps)

lemma cmp_bytes_0: "0 \<notin> set xs \<Longrightarrow> 0 \<notin> set ys \<Longrightarrow> cmp_bytes xs ys = 0 \<longleftrightarrow> xs = ys"
proof (induction xs ys rule: cmp_bytes.induct)
  case (4 x xs y ys)
  then show ?case by (auto dest: signed_word_eqI)
qed (auto simp: signed_eq_0_iff)

lemma cstring_nonzero: "cstring m p xs \<Longrightarrow> 0 \<notin> set xs"
  by (induction xs arbitrary: p) auto

section \<open>Copying\<close>

lemma copy_forward_spec:
  assumes "n \<le> 2 ^ 32" "\<And>j k. i \<le> k \<Longrightarrow> k < j \<Longrightarrow> j < n \<Longrightarrow> d + of_nat k \<noteq> s + of_nat j"
  shows "(\<forall>j. i \<le> j \<longrightarrow> j < n \<longrightarrow> copy_forward d s i n m (d + of_nat j) = m (s + of_nat j)) \<and>
    (\<forall>x. (\<forall>j. i \<le> j \<longrightarrow> j < n \<longrightarrow> x \<noteq> d + of_nat j) \<longrightarrow> copy_forward d s i n m x = m x)"
  using assms(2)
proof (induction "n - i" arbitrary: i m)
  case 0
  then show ?case by (simp add: copy_forward.simps)
next
  case (Suc r)
  let ?m = "m(d + of_nat i := m (s + of_nat i))"
  have i: "i < n" using Suc.hyps(2) by simp
  then have step: "copy_forward d s i n m = copy_forward d s (Suc i) n ?m"
    by (simp add: copy_forward.simps)
  have "r = n - Suc i" using Suc.hyps(2) by simp
  then have IH: "\<And>j. Suc i \<le> j \<Longrightarrow> j < n \<Longrightarrow> copy_forward d s (Suc i) n ?m (d + of_nat j) = ?m (s + of_nat j)"
    "\<And>x. (\<And>j. Suc i \<le> j \<Longrightarrow> j < n \<Longrightarrow> x \<noteq> d + of_nat j) \<Longrightarrow> copy_forward d s (Suc i) n ?m x = ?m x"
    using Suc.hyps(1)[of "Suc i" ?m] Suc.prems by auto
  have "copy_forward d s i n m (d + of_nat j) = m (s + of_nat j)" if j: "i \<le> j" "j < n" for j
  proof (cases "j = i")
    case True
    have "d + of_nat i \<noteq> d + of_nat k" if "Suc i \<le> k" "k < n" for k
      using that assms(1) by (auto dest: of_nat_eq_small)
    then show ?thesis using True IH(2)[of "d + of_nat i"] unfolding step by simp
  next
    case False
    then have "s + of_nat j \<noteq> d + of_nat i" using Suc.prems[of i j] j by auto
    then show ?thesis using False IH(1)[of j] j unfolding step by simp
  qed
  moreover have "copy_forward d s i n m x = m x" if x: "\<And>j. i \<le> j \<Longrightarrow> j < n \<Longrightarrow> x \<noteq> d + of_nat j" for x
    using IH(2)[of x] x i unfolding step by auto
  ultimately show ?case by blast
qed

lemma copy_backward_spec:
  assumes "i \<le> 2 ^ 32" "\<And>j k. j < k \<Longrightarrow> k < i \<Longrightarrow> d + of_nat k \<noteq> s + of_nat j"
  shows "(\<forall>j < i. copy_backward d s i m (d + of_nat j) = m (s + of_nat j)) \<and>
    (\<forall>x. (\<forall>j < i. x \<noteq> d + of_nat j) \<longrightarrow> copy_backward d s i m x = m x)"
  using assms
proof (induction i arbitrary: m)
  case 0
  then show ?case by simp
next
  case (Suc i)
  let ?m = "m(d + of_nat i := m (s + of_nat i))"
  have IH: "\<And>j. j < i \<Longrightarrow> copy_backward d s i ?m (d + of_nat j) = ?m (s + of_nat j)"
    "\<And>x. (\<And>j. j < i \<Longrightarrow> x \<noteq> d + of_nat j) \<Longrightarrow> copy_backward d s i ?m x = ?m x"
  proof -
    have "i \<le> 2 ^ 32" "\<And>j k. j < k \<Longrightarrow> k < i \<Longrightarrow> d + of_nat k \<noteq> s + of_nat j"
      using Suc.prems by simp_all
    from Suc.IH[OF this, of ?m]
    show "\<And>j. j < i \<Longrightarrow> copy_backward d s i ?m (d + of_nat j) = ?m (s + of_nat j)"
      "\<And>x. (\<And>j. j < i \<Longrightarrow> x \<noteq> d + of_nat j) \<Longrightarrow> copy_backward d s i ?m x = ?m x" by blast+
  qed
  have "copy_backward d s (Suc i) m (d + of_nat j) = m (s + of_nat j)" if j: "j < Suc i" for j
  proof (cases "j = i")
    case True
    have "d + of_nat i \<noteq> d + of_nat k" if "k < i" for k
      using that Suc.prems(1) by (auto dest: of_nat_eq_small)
    then show ?thesis using True IH(2)[of "d + of_nat i"] by simp
  next
    case False
    then have "s + of_nat j \<noteq> d + of_nat i" using Suc.prems(2)[of j i] j by auto
    then show ?thesis using False IH(1)[of j] j by simp
  qed
  moreover have "copy_backward d s (Suc i) m x = m x" if x: "\<And>j. j < Suc i \<Longrightarrow> x \<noteq> d + of_nat j" for x
    using IH(2)[of x] x[of i] x by simp
  ultimately show ?case by blast
qed

lemma no_wrap_less:
  fixes d s :: u32
  assumes "d < s" "unat s + n \<le> 2 ^ 32" "k < j" "j < n"
  shows "d + of_nat k \<noteq> s + of_nat j"
proof
  have d: "unat d < unat s" using assms(1) by (simp add: word_less_nat_alt)
  then have "unat (d + of_nat k) = unat d + k"
    using assms by (simp add: unat_word_ariths unat_of_nat)
  moreover have "unat (s + of_nat j) = unat s + j"
    using assms by (simp add: unat_word_ariths unat_of_nat)
  moreover assume "d + of_nat k = s + of_nat j"
  ultimately show False using d assms(3) by simp
qed

section \<open>Filling\<close>

definition fill :: "u32 \<Rightarrow> u8 \<Rightarrow> nat \<Rightarrow> mem \<Rightarrow> mem" where
  "fill p c n m = (\<lambda>x. if x \<in> payload p n then c else m x)"

lemma fill_0 [simp]: "fill p c 0 m = m"
  by (simp add: fill_def)

lemma fill_Suc: "n < 2 ^ 32 \<Longrightarrow> fill (p + 1) c n (m(p := c)) = fill p c (Suc n) m"
  by (auto simp: fill_def payload_Suc fun_eq_iff)

lemma fill_fill: "a + b \<le> 2 ^ 32 \<Longrightarrow> fill (p + of_nat a) c b (fill p c a m) = fill p c (a + b) m"
  by (auto simp: fill_def payload_add fun_eq_iff)

lemma memset_head_fill:
  "n < 2 ^ 32 \<Longrightarrow> \<exists>k \<le> n. memset_head p c n m = (p + of_nat k, n - k, fill p c k m)"
proof (induction p c n m rule: memset_head.induct)
  case (2 p c n m)
  show ?case
  proof (cases "p AND 3 = 0")
    case True
    then show ?thesis by (intro exI[of _ 0]) simp
  next
    case False
    have "n < 2 ^ 32" using 2(2) by simp
    with 2(1)[OF False] obtain k where k: "k \<le> n" "memset_head (p + 1) c n (m(p := c)) =
        (p + 1 + of_nat k, n - k, fill (p + 1) c k (m(p := c)))"
      by blast
    with 2(2) have "fill (p + 1) c k (m(p := c)) = fill p c (Suc k) m" by (intro fill_Suc) simp
    with k False show ?thesis by (intro exI[of _ "Suc k"]) (simp add: ac_simps)
  qed
qed simp

lemma fill_word_store: "store32 m p (fill_word c 4) = fill p c 4 m"
proof -
  have w: "fill_word c 4 = ((ucast c OR push_bit 8 (ucast c)) OR push_bit 16 (ucast c)) OR push_bit 24 (ucast c)"
    by (simp add: numeral_eq_Suc)
  have bytes: "ucast (fill_word c 4) = c" "ucast (drop_bit 8 (fill_word c 4)) = c"
    "ucast (drop_bit 16 (fill_word c 4)) = c" "ucast (drop_bit 24 (fill_word c 4)) = c"
  proof -
    have hi: "\<not> bit c k" if "8 \<le> k" for k using bit_imp_le_length[of c k] that by auto
    show "ucast (fill_word c 4) = c" "ucast (drop_bit 8 (fill_word c 4)) = c"
      "ucast (drop_bit 16 (fill_word c 4)) = c" "ucast (drop_bit 24 (fill_word c 4)) = c"
      unfolding w by (rule bit_word_eqI, auto simp: bit_simps hi)+
  qed
  have four: "x \<in> payload p 4 \<longleftrightarrow> x = p \<or> x = p + 1 \<or> x = p + 2 \<or> x = p + 3" for x
    by (simp add: numeral_eq_Suc payload_Suc add.assoc)
  show ?thesis by (rule ext) (auto simp: store32_def bytes fill_def four)
qed

lemma memset_words_fill:
  "n < 2 ^ 32 \<Longrightarrow> \<exists>k \<le> n. memset_words p (fill_word c 4) n m = (p + of_nat k, n - k, fill p c k m)"
proof (induction n arbitrary: p m rule: less_induct)
  case (less n)
  show ?case
  proof (cases "4 \<le> n")
    case False
    then show ?thesis by (intro exI[of _ 0]) (simp add: memset_words.simps)
  next
    case True
    have "n - 4 < n" "n - 4 < 2 ^ 32" using True less.prems by simp_all
    then obtain k where k: "k \<le> n - 4" "memset_words (p + 4) (fill_word c 4) (n - 4) (fill p c 4 m) =
        (p + 4 + of_nat k, n - 4 - k, fill (p + 4) c k (fill p c 4 m))"
      using less.IH[of "n - 4" "p + 4" "fill p c 4 m"] by blast
    have "fill (p + of_nat 4) c k (fill p c 4 m) = fill p c (4 + k) m"
      using k(1) True less.prems by (intro fill_fill) simp
    then show ?thesis using k True
      by (intro exI[of _ "4 + k"]) (simp add: memset_words.simps[of p] fill_word_store ac_simps)
  qed
qed

lemma memset_tail_fill: "n < 2 ^ 32 \<Longrightarrow> memset_tail p c n m = fill p c n m"
proof (induction n arbitrary: p m)
  case (Suc n)
  then show ?case using fill_Suc[of n p c m] by simp
qed simp

lemma strncpy_pad_fill: "i \<le> n \<Longrightarrow> n < 2 ^ 32 \<Longrightarrow> strncpy_pad d i n m = fill (d + of_nat i) 0 (n - i) m"
proof (induction "n - i" arbitrary: i m)
  case 0
  then show ?case by (simp add: strncpy_pad.simps)
next
  case (Suc r)
  have "strncpy_pad d i n m = strncpy_pad d (Suc i) n (m(d + of_nat i := 0))"
  proof -
    have "i < n" using Suc.hyps(2) by simp
    then show ?thesis by (subst strncpy_pad.simps) simp
  qed
  also have "\<dots> =
      fill (d + of_nat i + 1) 0 (n - Suc i) (m(d + of_nat i := 0))"
    using Suc.hyps(1)[of "Suc i"] Suc.hyps(2) Suc.prems by (simp add: ac_simps)
  also have "\<dots> = fill (d + of_nat i) 0 (Suc (n - Suc i)) m"
    using Suc.prems by (intro fill_Suc) simp
  also have "Suc (n - Suc i) = n - i" using Suc.hyps(2) by simp
  finally show ?case .
qed

lemma strncpy_copy_forward:
  assumes "k \<le> n" "\<And>j. j < k \<Longrightarrow> m (s + of_nat j) \<noteq> 0" "k < n \<Longrightarrow> m (s + of_nat k) = 0"
    and apart: "\<And>i j. i < n \<Longrightarrow> j < n \<Longrightarrow> d + of_nat i \<noteq> s + of_nat j" and "i \<le> k"
  shows "strncpy_copy d s i n m = (k, copy_forward d s i k m)"
  using assms(2,3,5)
proof (induction "k - i" arbitrary: i m)
  case 0
  then show ?case using assms(1) by (subst strncpy_copy.simps) (auto simp: copy_forward.simps)
next
  case (Suc r)
  let ?m = "m(d + of_nat i := m (s + of_nat i))"
  have i: "i < k" "i < n" using Suc.hyps(2) assms(1) by simp_all
  have same: "?m (s + of_nat j) = m (s + of_nat j)" if "j < n" for j
    using apart[OF i(2) that] by auto
  have "strncpy_copy d s (Suc i) n ?m = (k, copy_forward d s (Suc i) k ?m)"
  proof (rule Suc.hyps(1))
    show "r = k - Suc i" "Suc i \<le> k" using Suc.hyps(2) by simp_all
    show "\<And>j. j < k \<Longrightarrow> ?m (s + of_nat j) \<noteq> 0" using same Suc.prems(1) assms(1) by simp
    show "k < n \<Longrightarrow> ?m (s + of_nat k) = 0" using same Suc.prems(2) by simp
  qed
  then show ?case using i Suc.prems(1)[of i] by (simp add: strncpy_copy.simps[of d s i] copy_forward.simps[of d s i])
qed

text \<open>The last occurrence of a byte, as an index.\<close>

fun last_index :: "u8 \<Rightarrow> u8 list \<Rightarrow> nat option" where
  "last_index c [] = None"
| "last_index c (x # xs) = (case last_index c xs of Some i \<Rightarrow> Some (Suc i)
     | None \<Rightarrow> if x = c then Some 0 else None)"

lemma last_index_None: "last_index c xs = None \<longleftrightarrow> c \<notin> set xs"
  by (induction xs) (auto split: option.splits)

lemma last_index_Some:
  "last_index c xs = Some i \<Longrightarrow> i < length xs \<and> xs ! i = c \<and> (\<forall>j. i < j \<longrightarrow> j < length xs \<longrightarrow> xs ! j \<noteq> c)"
proof (induction xs arbitrary: i)
  case (Cons x xs)
  show ?case
  proof (cases "last_index c xs")
    case None
    then have "c \<notin> set xs" by (simp add: last_index_None)
    with None Cons.prems show ?thesis by (auto split: if_splits simp: nth_Cons')
  next
    case (Some k)
    with Cons.IH[OF Some] Cons.prems show ?thesis by (auto simp: nth_Cons')
  qed
qed simp

lemma strrchr_loop_cstring:
  assumes "c \<noteq> 0" "cstring m s xs"
  shows "strrchr_loop s c found m =
    Some (case last_index c xs of Some i \<Rightarrow> s + of_nat i | None \<Rightarrow> found)"
  using assms(2)
proof (induction xs arbitrary: s found)
  case Nil
  then show ?case using assms(1) by (subst strrchr_loop.simps) simp
next
  case (Cons x xs)
  then show ?case
    by (subst strrchr_loop.simps) (auto simp: Let_def ac_simps split: option.splits)
qed

lemma memset_effect:
  "memset dest ch count m = (dest, \<lambda>x. if x \<in> payload dest (unat count) then ucast ch else m x)"
proof -
  let ?c = "ucast ch :: u8"
  have n: "unat count < 2 ^ 32" using unsigned_less[of count, where ?'a = nat] by simp
  obtain k where k: "k \<le> unat count" "memset_head dest ?c (unat count) m =
      (dest + of_nat k, unat count - k, fill dest ?c k m)"
    using memset_head_fill[OF n] by blast
  have n': "unat count - k < 2 ^ 32" using n by simp
  obtain l where l: "l \<le> unat count - k"
    "memset_words (dest + of_nat k) (fill_word ?c 4) (unat count - k) (fill dest ?c k m) =
      (dest + of_nat k + of_nat l, unat count - k - l, fill (dest + of_nat k) ?c l (fill dest ?c k m))"
    using memset_words_fill[OF n'] by blast
  have f1: "fill (dest + of_nat k) ?c l (fill dest ?c k m) = fill dest ?c (k + l) m"
    using k l n by (intro fill_fill) simp
  have "fill (dest + of_nat (k + l)) ?c (unat count - (k + l)) (fill dest ?c (k + l) m) =
      fill dest ?c (k + l + (unat count - (k + l))) m"
    using k l n by (intro fill_fill) simp
  moreover have "k + l + (unat count - (k + l)) = unat count" using k l by simp
  ultimately have f2: "fill (dest + of_nat (k + l)) ?c (unat count - (k + l)) (fill dest ?c (k + l) m) =
      fill dest ?c (unat count) m" by simp
  have "memset_tail (dest + of_nat (k + l)) ?c (unat count - (k + l)) (fill dest ?c (k + l) m) =
      fill dest ?c (unat count) m"
    using memset_tail_fill[of "unat count - (k + l)"] f2 n by simp
  then show ?thesis
    by (simp add: memset_def k(2) l(2) f1 add.assoc diff_diff_eq) (simp add: fill_def)
qed

section \<open>Properties\<close>

text \<open>Two byte memories for the concrete instances.\<close>

definition hello_mem :: mem where
  "hello_mem = (\<lambda>_. 0)(100 := 104, 101 := 101, 102 := 108, 103 := 108, 104 := 111)"

text \<open>For a terminated string whose copy would not overlap it, \<open>strlen\<close> returns its length
  and \<open>strcpy\<close> returns with a terminated copy at the destination, every byte outside the
  destination unchanged.\<close>

theorem strcpy_correct:
  assumes "cstring m src xs" "length xs < 2 ^ 32 - 1"
    and "payload dest (length xs + 1) \<inter> payload src (length xs + 1) = {}"
  shows "strlen src m = Some (of_nat (length xs)) \<and>
    (\<exists>m'. strcpy dest src m = Some (dest, m') \<and> cstring m' dest xs \<and> cstring m' src xs \<and>
      (\<forall>x. x \<notin> payload dest (length xs + 1) \<longrightarrow> m' x = m x))"
proof -
  have "strlen src m = Some (of_nat (length xs))"
    using strlen_loop_cstring[of m src 0 xs] assms(1) by (simp add: strlen_def)
  moreover obtain m' where m': "strcpy_loop dest src m = Some m'" "cstring m' dest xs"
    "\<And>x. x \<notin> payload dest (Suc (length xs)) \<Longrightarrow> m' x = m x"
    using strcpy_loop_cstring[OF assms(1), of dest] assms(2,3) by auto
  moreover have "cstring m' src xs"
    using cstring_cong[of src xs m' m] m'(3) assms(1,3) by auto
  ultimately show ?thesis by (auto simp: strcpy_def)
qed

theorem strcpy_correct_witness:
  "strlen 100 hello_mem = Some 5 \<and> (\<exists>m'. strcpy 200 100 hello_mem = Some (200, m') \<and>
     cstring m' 200 [104, 101, 108, 108, 111])"
proof -
  have s: "cstring hello_mem 100 [104, 101, 108, 108, 111]" by (simp add: hello_mem_def)
  let ?n = "length [104, 101, 108, 108, 111 :: u8] + 1"
  have d: "payload 200 ?n \<inter> payload (100 :: u32) ?n = {}"
    using payload_apart[of 100 ?n 200 ?n] by auto
  have len: "length [104, 101, 108, 108, 111 :: u8] < 2 ^ 32 - 1" by simp
  from strcpy_correct[OF s len d] show ?thesis by auto
qed

text \<open>\<open>strcmp\<close> of two terminated strings returns, with a result that is zero exactly for equal
  strings and otherwise the difference of the first bytes that differ (as signed
  \<open>char\<close>s).\<close>

theorem strcmp_correct:
  assumes "cstring m p xs" "cstring m q ys"
  shows "\<exists>r. strcmp p q m = Some r \<and> (r = 0 \<longleftrightarrow> xs = ys) \<and>
    (\<forall>zs x xs' y ys'. xs = zs @ x # xs' \<longrightarrow> ys = zs @ y # ys' \<longrightarrow> x \<noteq> y \<longrightarrow> r = sint x - sint y)"
proof -
  have "cmp_bytes (zs @ x # xs') (zs @ y # ys') = sint x - sint y" if "x \<noteq> y" for zs x xs' y ys'
    using that by (induction zs) auto
  with strcmp_cstring[OF assms] cmp_bytes_0[of xs ys] assms[THEN cstring_nonzero] show ?thesis by blast
qed

theorem strcmp_correct_witness: "\<exists>r. strcmp 100 101 hello_mem = Some r \<and> r \<noteq> 0"
proof -
  have "cstring hello_mem 100 [104, 101, 108, 108, 111]" "cstring hello_mem 101 [101, 108, 108, 111]"
    by (simp_all add: hello_mem_def)
  from strcmp_correct[OF this] show ?thesis by auto
qed

text \<open>C10: \<open>memmove\<close> copies correctly whatever the overlap of the two areas: every destination
  byte gets the source byte as it was before the call, and nothing else changes.\<close>

theorem memmove_correct:
  assumes "unat dest + unat n \<le> 2 ^ 32" "unat src + unat n \<le> 2 ^ 32"
  shows "\<exists>m'. memmove dest src n m = (dest, m') \<and>
    (\<forall>j < unat n. m' (dest + of_nat j) = m (src + of_nat j)) \<and>
    (\<forall>x. x \<notin> payload dest (unat n) \<longrightarrow> m' x = m x)"
proof -
  have le: "unat n \<le> 2 ^ 32" using assms(1) by simp
  note out = in_payload_iff[OF le, of _ dest]
  consider "dest < src" | "src < dest" | "src = dest" by (cases dest src rule: linorder_cases) auto
  then show ?thesis
  proof cases
    case 1
    have "\<And>j k. 0 \<le> k \<Longrightarrow> k < j \<Longrightarrow> j < unat n \<Longrightarrow> dest + of_nat k \<noteq> src + of_nat j"
      by (rule no_wrap_less[OF 1 assms(2)])
    with copy_forward_spec[OF le this, where m = m] 1 show ?thesis
      by (auto simp: memmove_def out)
  next
    case 2
    have "\<And>j k. j < k \<Longrightarrow> k < unat n \<Longrightarrow> dest + of_nat k \<noteq> src + of_nat j"
      using no_wrap_less[OF 2 assms(1)] by metis
    from copy_backward_spec[OF le this, where m = m] 2 show ?thesis
      by (auto simp: memmove_def out)
  next
    case 3
    then show ?thesis by (simp add: memmove_def)
  qed
qed

theorem memmove_correct_witness:
  "\<exists>m'. memmove 101 100 4 hello_mem = (101, m') \<and> m' (101 + of_nat 3) = hello_mem (100 + of_nat 3)"
proof -
  obtain m' where "memmove 101 100 4 hello_mem = (101, m')"
    "\<forall>j < unat (4 :: u32). m' (101 + of_nat j) = hello_mem (100 + of_nat j)"
    using memmove_correct[of 101 4 100 hello_mem] by auto
  moreover from this(2)[rule_format, of 3]
  have "m' (101 + of_nat 3) = hello_mem (100 + of_nat 3)" by simp
  ultimately show ?thesis by blast
qed

text \<open>C11: The three phases of \<open>memset\<close> (single bytes up to a word boundary, then whole words,
  then the rest) together set exactly the \<open>count\<close> bytes from \<open>dest\<close> on to the low byte of
  \<open>ch\<close> and nothing else, for every alignment and count.\<close>

theorem memset_correct:
  "memset dest ch count m = (dest, \<lambda>x. if x \<in> payload dest (unat count) then ucast ch else m x)"
  by (rule memset_effect)

text \<open>\<open>strncpy\<close> writes exactly \<open>n\<close> bytes: the string cut to \<open>n\<close> characters, then zeros; so
  the result is terminated exactly when the string is shorter than \<open>n\<close>.\<close>

theorem strncpy_correct:
  assumes src: "cstring m src xs" and n: "unat n < 2 ^ 32 - 1" "length xs < 2 ^ 32"
    and apart: "payload dest (unat n) \<inter> payload src (unat n) = {}"
  shows "\<exists>m'. strncpy dest src n m = (dest, m') \<and>
    (\<forall>j < unat n. m' (dest + of_nat j) = (if j < length xs then xs ! j else 0)) \<and>
    (\<forall>x. x \<notin> payload dest (unat n) \<longrightarrow> m' x = m x)"
proof -
  let ?n = "unat n" and ?k = "min (unat n) (length xs)"
  have in_d: "x \<in> payload dest ?n \<longleftrightarrow> (\<exists>i < ?n. x = dest + of_nat i)" for x
    using n by (intro in_payload_iff) simp
  have in_s: "x \<in> payload src ?n \<longleftrightarrow> (\<exists>i < ?n. x = src + of_nat i)" for x
    using n by (intro in_payload_iff) simp
  have no: "dest + of_nat i \<noteq> src + of_nat j" if "i < ?n" "j < ?n" for i j
    using apart in_d in_s that by blast
  have copy: "strncpy_copy dest src 0 ?n m = (?k, copy_forward dest src 0 ?k m)"
  proof (rule strncpy_copy_forward)
    show "\<And>j. j < ?k \<Longrightarrow> m (src + of_nat j) \<noteq> 0" using cstring_nth[OF src] by simp
    show "?k < ?n \<Longrightarrow> m (src + of_nat ?k) = 0" using cstring_end[OF src] by (simp add: min_def split: if_splits)
  qed (use no in simp_all)
  define c where "c = copy_forward dest src 0 ?k m"
  have c: "\<And>j. j < ?k \<Longrightarrow> c (dest + of_nat j) = xs ! j"
    "\<And>x. (\<And>j. j < ?k \<Longrightarrow> x \<noteq> dest + of_nat j) \<Longrightarrow> c x = m x"
    using copy_forward_spec[of ?k 0 dest src m] no n cstring_nth[OF src] by (auto simp: c_def)
  define r where "r = strncpy_pad dest ?k ?n c"
  have pad: "r = fill (dest + of_nat ?k) 0 (?n - ?k) c"
    unfolding r_def using n by (intro strncpy_pad_fill) simp_all
  have split: "x \<in> payload dest ?n \<longleftrightarrow> x \<in> payload dest ?k \<or> x \<in> payload (dest + of_nat ?k) (?n - ?k)" for x
    using payload_add[of ?k "?n - ?k" x dest] n by simp
  have tail: "dest + of_nat j \<in> payload (dest + of_nat ?k) (?n - ?k) \<longleftrightarrow> ?k \<le> j" if "j < ?n" for j
  proof -
    have "dest + of_nat j \<in> payload (dest + of_nat ?k) (?n - ?k) \<longleftrightarrow>
        (\<exists>i < ?n - ?k. dest + of_nat j = dest + of_nat ?k + of_nat i)"
      using n by (intro in_payload_iff) simp
    also have "\<dots> \<longleftrightarrow> (\<exists>i < ?n - ?k. j = ?k + i)"
      using that n of_nat_eq_small[of j "?k + i" for i] by (auto simp flip: of_nat_add)
    also have "\<dots> \<longleftrightarrow> ?k \<le> j" using that by (auto intro: exI[of _ "j - ?k"])
    finally show ?thesis .
  qed
  have "r (dest + of_nat j) = (if j < length xs then xs ! j else 0)" if "j < ?n" for j
    using tail[OF that] c(1)[of j] that by (auto simp: pad fill_def)
  moreover have "r x = m x" if "x \<notin> payload dest ?n" for x
    using that split[of x] c(2)[of x] in_d[of x] by (auto simp: pad fill_def)
  moreover have "strncpy dest src n m = (dest, r)" by (simp add: strncpy_def copy r_def c_def)
  ultimately show ?thesis by blast
qed

theorem strncpy_correct_witness:
  "\<exists>m'. strncpy 200 100 3 hello_mem = (200, m') \<and> m' (200 + of_nat 2) = 108"
proof -
  have s: "cstring hello_mem 100 [104, 101, 108, 108, 111]" by (simp add: hello_mem_def)
  have d: "payload 200 (unat (3 :: u32)) \<inter> payload (100 :: u32) (unat (3 :: u32)) = {}"
    using payload_apart[of 100 3 200 3] by auto
  obtain m' where "strncpy 200 100 3 hello_mem = (200, m')"
    "\<forall>j < unat (3 :: u32). m' (200 + of_nat j) = (if j < 5 then [104, 101, 108, 108, 111] ! j else 0)"
    using strncpy_correct[OF s _ _ d] by auto
  moreover from this(2)[rule_format, of 2] have "m' (200 + of_nat 2) = 108" by simp
  ultimately show ?thesis by blast
qed

end
