(* ===== verification/Timer.thy ===== *)
theory Timer
  imports Machine
begin

text \<open>
  The software timers of \<open>cpu/timer.c\<close> and the tick source \<open>cpu/pit.c\<close>: a singly linked
  queue of timer objects ordered by expiry, a spin lock taken with interrupts off, and a tick
  handler that calls the expired timers with the lock released. A timer's function is a number
  that the parameter \<open>call\<close> of \<open>timer_tick\<close> interprets, with its argument, on the whole
  state. Results are \<open>None\<close> for an operation that never returns (a spin on a held lock), and
  in \<open>timer_tick\<close> a callback may also halt the machine (\<open>Inl\<close>).
\<close>

section \<open>State\<close>

record timer =
  expires :: u32
  period :: u32
  fn :: u32
  arg :: u32
  active :: bool
  tnext :: u32

record timers = machine +
  tick_count :: u32
  pit_hz :: u32
  current_divisor :: u32
  tobj :: "u32 \<Rightarrow> timer"
  timer_queue :: u32
  timer_ready :: bool
  timer_lock :: bool

definition PIT_HZ :: u32 where "PIT_HZ = 100"

definition ms_to_ticks :: "u32 \<Rightarrow> u32" where
  "ms_to_ticks ms = (ms * PIT_HZ + 999) div 1000"

definition ticks_to_ms :: "u32 \<Rightarrow> u32" where
  "ticks_to_ms t = t * 1000 div PIT_HZ"

definition pit_get_tick_count :: "'a timers_scheme \<Rightarrow> u32" where
  "pit_get_tick_count s = tick_count s"

definition pit_get_hz :: "'a timers_scheme \<Rightarrow> u32" where
  "pit_get_hz s = pit_hz s"

section \<open>The lock\<close>

text \<open>
  \<open>lock_acquire\<close> saves the interrupt flag, disables interrupts and spins while the lock is
  held. With interrupts off on one processor nobody can release it, so a held lock means the
  call never returns.
\<close>

definition lock_acquire :: "'a timers_scheme \<Rightarrow> (bool \<times> 'a timers_scheme) option" where
  "lock_acquire s = (if timer_lock s then None else Some (iflag s, (cli s)\<lparr>timer_lock := True\<rparr>))"

definition lock_release :: "bool \<Rightarrow> 'a timers_scheme \<Rightarrow> 'a timers_scheme" where
  "lock_release flags s =
     (let s = s\<lparr>timer_lock := False\<rparr> in if flags then sti s else s)"

section \<open>The queue\<close>

definition set_timer :: "u32 \<Rightarrow> timer \<Rightarrow> 'a timers_scheme \<Rightarrow> 'a timers_scheme" where
  "set_timer t v s = s\<lparr>tobj := (tobj s)(t := v)\<rparr>"

definition set_next :: "u32 \<Rightarrow> u32 \<Rightarrow> 'a timers_scheme \<Rightarrow> 'a timers_scheme" where
  "set_next t v s = set_timer t ((tobj s t)\<lparr>tnext := v\<rparr>) s"

text \<open>\<open>pp\<close> of the source: the queue head, or the \<open>next\<close> field of a timer.\<close>

datatype tcell = THead | TNext u32

fun tget :: "'a timers_scheme \<Rightarrow> tcell \<Rightarrow> u32" where
  "tget s THead = timer_queue s"
| "tget s (TNext t) = tnext (tobj s t)"

fun tset :: "tcell \<Rightarrow> u32 \<Rightarrow> 'a timers_scheme \<Rightarrow> 'a timers_scheme" where
  "tset THead v s = s\<lparr>timer_queue := v\<rparr>"
| "tset (TNext t) v s = set_next t v s"

partial_function (option) insert_at :: "tcell \<Rightarrow> u32 \<Rightarrow> 'a timers_scheme \<Rightarrow> 'a timers_scheme option" where
  "insert_at pp t s =
     (if tget s pp \<noteq> 0 \<and> expires (tobj s (tget s pp)) \<le> expires (tobj s t)
      then insert_at (TNext (tget s pp)) t s
      else Some (tset pp t (set_next t (tget s pp) s)))"

definition queue_insert :: "u32 \<Rightarrow> 'a timers_scheme \<Rightarrow> 'a timers_scheme option" where
  "queue_insert t s = insert_at THead t s"

partial_function (option) remove_at :: "tcell \<Rightarrow> u32 \<Rightarrow> 'a timers_scheme \<Rightarrow> 'a timers_scheme option" where
  "remove_at pp t s =
     (if tget s pp = 0 then Some s
      else if tget s pp = t then Some (set_next t 0 (tset pp (tnext (tobj s t)) s))
      else remove_at (TNext (tget s pp)) t s)"

definition queue_remove :: "u32 \<Rightarrow> 'a timers_scheme \<Rightarrow> 'a timers_scheme option" where
  "queue_remove t s = remove_at THead t s"

section \<open>Operations\<close>

definition timer_init :: "'a timers_scheme \<Rightarrow> 'a timers_scheme option" where
  "timer_init s =
     (if timer_ready s then Some s
      else case lock_acquire s of None \<Rightarrow> None
        | Some (flags, s) \<Rightarrow>
            let s = s\<lparr>timer_queue := 0, timer_ready := True\<rparr>;
                s = lock_release flags s
            in Some (viprint (''timer: ready (tick source = pit)'' @ newline) s))"

definition timer_ticks :: "'a timers_scheme \<Rightarrow> u32" where
  "timer_ticks s = pit_get_tick_count s"

definition timer_ms :: "'a timers_scheme \<Rightarrow> u32" where
  "timer_ms s = ticks_to_ms (pit_get_tick_count s)"

definition timer_setup :: "u32 \<Rightarrow> u32 \<Rightarrow> u32 \<Rightarrow> u32 \<Rightarrow> 'a timers_scheme \<Rightarrow> 'a timers_scheme" where
  "timer_setup t f a p = set_timer t
     \<lparr>expires = 0, period = p, fn = f, arg = a, active = False, tnext = 0\<rparr>"

definition timer_add :: "u32 \<Rightarrow> u32 \<Rightarrow> 'a timers_scheme \<Rightarrow> 'a timers_scheme option" where
  "timer_add t delay_ticks s =
     (case lock_acquire s of None \<Rightarrow> None
      | Some (flags, s) \<Rightarrow>
          (case (if active (tobj s t) then queue_remove t s else Some s) of None \<Rightarrow> None
           | Some s \<Rightarrow>
               let e = pit_get_tick_count s + (if delay_ticks \<noteq> 0 then delay_ticks else 1);
                   s = set_timer t ((tobj s t)\<lparr>expires := e, active := True\<rparr>) s
               in (case queue_insert t s of None \<Rightarrow> None
                   | Some s \<Rightarrow> Some (lock_release flags s))))"

definition timer_add_ms :: "u32 \<Rightarrow> u32 \<Rightarrow> 'a timers_scheme \<Rightarrow> 'a timers_scheme option" where
  "timer_add_ms t delay_ms s = timer_add t (ms_to_ticks delay_ms) s"

definition timer_cancel :: "u32 \<Rightarrow> 'a timers_scheme \<Rightarrow> (int \<times> 'a timers_scheme) option" where
  "timer_cancel t s =
     (case lock_acquire s of None \<Rightarrow> None
      | Some (flags, s) \<Rightarrow>
          if active (tobj s t) then
            (case queue_remove t s of None \<Rightarrow> None
             | Some s \<Rightarrow>
                 let s = set_timer t ((tobj s t)\<lparr>active := False\<rparr>) s
                 in Some (0, lock_release flags s))
          else Some (- 1, lock_release flags s))"

text \<open>
  The first half of an iteration of \<open>timer_tick\<close>, under the lock: the expired head leaves the
  queue; a periodic timer is queued again, a one-shot timer becomes inactive.
\<close>

definition pop_expired :: "u32 \<Rightarrow> 'a timers_scheme \<Rightarrow> (u32 \<times> 'a timers_scheme) option" where
  "pop_expired now s =
     (let t = timer_queue s;
          s = s\<lparr>timer_queue := tnext (tobj s t)\<rparr>;
          s = set_next t 0 s
      in if period (tobj s t) \<noteq> 0 then
           (case queue_insert t (set_timer t ((tobj s t)\<lparr>expires := now + period (tobj s t)\<rparr>) s) of
              None \<Rightarrow> None | Some s \<Rightarrow> Some (t, s))
         else Some (t, set_timer t ((tobj s t)\<lparr>active := False\<rparr>) s))"

abbreviation due :: "u32 \<Rightarrow> u32 \<Rightarrow> bool" where
  "due now e \<equiv> sint (e - now) \<le> 0"

partial_function (option) tick_loop ::
  "(u32 \<Rightarrow> u32 \<Rightarrow> 'a timers_scheme \<Rightarrow> ('a timers_scheme + 'a timers_scheme) option) \<Rightarrow> u32 \<Rightarrow> bool \<Rightarrow>
     'a timers_scheme \<Rightarrow> ('a timers_scheme + 'a timers_scheme) option" where
  "tick_loop call now flags s =
     (if timer_queue s \<noteq> 0 \<and> due now (expires (tobj s (timer_queue s))) then
        (case pop_expired now s of None \<Rightarrow> None
         | Some (t, s) \<Rightarrow>
             let s = lock_release flags s in
             (case (if fn (tobj s t) \<noteq> 0 then call (fn (tobj s t)) (arg (tobj s t)) s
                    else Some (Inr s)) of
                None \<Rightarrow> None
              | Some (Inl s) \<Rightarrow> Some (Inl s)
              | Some (Inr s) \<Rightarrow>
                  (case lock_acquire s of None \<Rightarrow> None
                   | Some (flags, s) \<Rightarrow> tick_loop call now flags s)))
      else Some (Inr (lock_release flags s)))"

definition timer_tick ::
  "(u32 \<Rightarrow> u32 \<Rightarrow> 'a timers_scheme \<Rightarrow> ('a timers_scheme + 'a timers_scheme) option) \<Rightarrow>
     'a timers_scheme \<Rightarrow> ('a timers_scheme + 'a timers_scheme) option" where
  "timer_tick call s =
     (let now = pit_get_tick_count s in
      case lock_acquire s of None \<Rightarrow> None
      | Some (flags, s) \<Rightarrow> tick_loop call now flags s)"

declare insert_at.simps [code] remove_at.simps [code] tick_loop.simps [code]

end
