(* ===== verification/Timer_Correct.thy ===== *)
theory Timer_Correct
  imports Timer
begin

text \<open>
  The timer queue as a sorted list. \<open>tq s xs\<close> says that the queue visits the timers \<open>xs\<close>;
  \<open>tq_ok\<close> adds that they are exactly the active timers, in order of expiry. Every
  operation is shown to keep that invariant and to act on the list as intended.
\<close>

section \<open>The queue as a list\<close>

definition tnx :: "'a timers_scheme \<Rightarrow> u32 \<Rightarrow> u32 option" where
  "tnx s t = ptr_of (tnext (tobj s t))"

abbreviation tq :: "'a timers_scheme \<Rightarrow> u32 list \<Rightarrow> bool" where
  "tq s xs \<equiv> chain (tnx s) (ptr_of (timer_queue s)) xs"

abbreviation expiry :: "'a timers_scheme \<Rightarrow> u32 \<Rightarrow> u32" where
  "expiry s t \<equiv> expires (tobj s t)"

definition tq_ok :: "'a timers_scheme \<Rightarrow> u32 list \<Rightarrow> bool" where
  "tq_ok s xs \<longleftrightarrow> tq s xs \<and> sorted (map (expiry s) xs) \<and>
     (\<forall>t. t \<noteq> 0 \<longrightarrow> (active (tobj s t) \<longleftrightarrow> t \<in> set xs))"

text \<open>\<open>relinked\<close>: only the queue's links differ.\<close>

definition relinked :: "'a timers_scheme \<Rightarrow> 'a timers_scheme \<Rightarrow> bool" where
  "relinked s s' \<longleftrightarrow> (\<exists>f q. s' = s\<lparr>tobj := (\<lambda>t. (tobj s t)\<lparr>tnext := f t\<rparr>), timer_queue := q\<rparr>)"

lemma timer_upd_id [simp]: "(r :: timer)\<lparr>tnext := tnext r\<rparr> = r"
  by (cases r) simp

lemma relinked_timer:
  assumes "relinked s s'"
  shows "expires (tobj s' t) = expires (tobj s t)" "period (tobj s' t) = period (tobj s t)"
    "fn (tobj s' t) = fn (tobj s t)" "arg (tobj s' t) = arg (tobj s t)"
    "active (tobj s' t) = active (tobj s t)"
  using assms by (auto simp: relinked_def)

lemma relinked_frame:
  assumes "relinked s s'"
  shows "tick_count s' = tick_count s" "timer_lock s' = timer_lock s" "iflag s' = iflag s"
    "timers.more s' = timers.more s" "console s' = console s" "port_out s' = port_out s"
  using assms by (auto simp: relinked_def)

lemma relinked_set_next [simp]: "relinked s (set_next t v s)"
  unfolding relinked_def set_next_def set_timer_def
  by (rule exI[of _ "\<lambda>x. if x = t then v else tnext (tobj s x)"], rule exI[of _ "timer_queue s"])
    (auto simp: fun_eq_iff)

lemma relinked_queue [simp]: "relinked s (s\<lparr>timer_queue := v\<rparr>)"
  unfolding relinked_def by (intro exI[of _ "\<lambda>x. tnext (tobj s x)"] exI[of _ v]) simp

lemma relinked_tset [simp]: "relinked s (tset pp v s)"
  by (cases pp) simp_all

lemma relinked_trans: "relinked s s' \<Longrightarrow> relinked s' s'' \<Longrightarrow> relinked s s''"
  unfolding relinked_def by force

lemma relinked_refl [simp]: "relinked s s"
  unfolding relinked_def by (intro exI[of _ "\<lambda>x. tnext (tobj s x)"] exI[of _ "timer_queue s"]) simp

lemma relinked_link [simp]:
  "relinked s (tset pp v (set_next t w s))" "relinked s (set_next t w (tset pp v s))"
  using relinked_trans relinked_tset relinked_set_next by blast+

section \<open>Inserting\<close>

lemma tnx_set_next: "tnx (set_next t v s) = (tnx s)(t := ptr_of v)"
  by (auto simp: tnx_def set_next_def set_timer_def)

lemma tnx_queue [simp]: "tnx (s\<lparr>timer_queue := v\<rparr>) = tnx s"
  by (auto simp: tnx_def)

lemma queue_set_next [simp]: "timer_queue (set_next t v s) = timer_queue s"
  by (simp add: set_next_def set_timer_def)

fun cell_after :: "u32 list \<Rightarrow> tcell" where
  "cell_after [] = THead"
| "cell_after (x # xs) = TNext (last (x # xs))"

lemma cell_after_snoc [simp]: "cell_after (xs @ [x]) = TNext x"
  by (cases xs) auto

lemma tget_cell_after:
  assumes "tq s (us @ vs)"
  shows "ptr_of (tget s (cell_after us)) = (case vs of [] \<Rightarrow> None | v # _ \<Rightarrow> Some v)"
proof (cases us rule: rev_cases)
  case Nil
  with assms show ?thesis by (cases vs) auto
next
  case (snoc ws y)
  with assms show ?thesis by (cases vs) (auto simp: path_append tnx_def)
qed

lemma link_after:
  assumes q: "tq s (us @ vs)" and t: "t \<notin> set (us @ vs)" "t \<noteq> 0"
  defines "s' \<equiv> tset (cell_after us) t (set_next t (tget s (cell_after us)) s)"
  shows "tq s' (us @ t # vs)"
proof (cases us rule: rev_cases)
  case Nil
  with q t show ?thesis by (simp add: s'_def tnx_set_next path_upd)
next
  case (snoc ws y)
  then have ne: "y \<noteq> t" using t by auto
  have nx: "tnx s' = (tnx s)(t := tnx s y, y := Some t)"
    using snoc t ne by (simp add: s'_def tnx_set_next) (simp add: tnx_def)
  have "chain (tnx s) (ptr_of (timer_queue s)) (ws @ y # vs)" "t \<notin> set (ws @ y # vs)"
    using q t snoc by simp_all
  from chain_link[OF this] show ?thesis using snoc unfolding nx by (simp add: s'_def)
qed

lemma insert_at_spec:
  assumes "tq s (us @ vs)" "t \<notin> set (us @ vs)" "t \<noteq> 0"
  shows "\<exists>s'. insert_at (cell_after us) t s = Some s' \<and> relinked s s' \<and>
    tq s' (us @ takeWhile (\<lambda>q. expiry s q \<le> expiry s t) vs @ t # dropWhile (\<lambda>q. expiry s q \<le> expiry s t) vs)"
  using assms
proof (induction vs arbitrary: us)
  case Nil
  have "ptr_of (tget s (cell_after us)) = None" using tget_cell_after[OF Nil.prems(1)] by simp
  then have "insert_at (cell_after us) t s =
      Some (tset (cell_after us) t (set_next t (tget s (cell_after us)) s))"
    by (subst insert_at.simps) simp
  with link_after[OF Nil.prems] show ?case by auto
next
  case (Cons v vs)
  have v: "tget s (cell_after us) = v" "v \<noteq> 0"
    using tget_cell_after[OF Cons.prems(1)] by simp_all
  show ?case
  proof (cases "expiry s v \<le> expiry s t")
    case False
    then have "insert_at (cell_after us) t s =
        Some (tset (cell_after us) t (set_next t (tget s (cell_after us)) s))"
      using v by (subst insert_at.simps) simp
    with link_after[OF Cons.prems] False show ?thesis
      by auto
  next
    case True
    then have "insert_at (cell_after us) t s = insert_at (cell_after (us @ [v])) t s"
      using v by (subst insert_at.simps) simp
    then show ?thesis using Cons.IH[of "us @ [v]"] Cons.prems True by simp
  qed
qed

definition insort_timer :: "'a timers_scheme \<Rightarrow> u32 \<Rightarrow> u32 list \<Rightarrow> u32 list" where
  "insort_timer s t xs = takeWhile (\<lambda>q. expiry s q \<le> expiry s t) xs @
     t # dropWhile (\<lambda>q. expiry s q \<le> expiry s t) xs"

lemma set_insort_timer [simp]: "set (insort_timer s t xs) = insert t (set xs)"
  unfolding insort_timer_def by (auto dest: set_takeWhileD set_dropWhileD) (metis UnE set_append takeWhile_dropWhile_id)

lemma sorted_insort_timer:
  "sorted (map (expiry s) xs) \<Longrightarrow> sorted (map (expiry s) (insort_timer s t xs))"
proof (induction xs)
  case (Cons x xs)
  show ?case
  proof (cases "expiry s x \<le> expiry s t")
    case True
    then have "insort_timer s t (x # xs) = x # insort_timer s t xs" by (simp add: insort_timer_def)
    moreover have "expiry s x \<le> expiry s y" if "y \<in> insert t (set xs)" for y
      using that True Cons.prems by auto
    ultimately show ?thesis using Cons by auto
  next
    case False
    then have "insort_timer s t (x # xs) = t # x # xs" by (simp add: insort_timer_def)
    with False Cons.prems show ?thesis by (auto intro: order_trans[of _ "expiry s x"])
  qed
qed (simp add: insort_timer_def)

lemma queue_insert_spec:
  assumes "tq s xs" "t \<notin> set xs" "t \<noteq> 0"
  obtains s' where "queue_insert t s = Some s'" "relinked s s'" "tq s' (insort_timer s t xs)"
  using insert_at_spec[of s "[]" xs t] assms that by (auto simp: queue_insert_def insort_timer_def)

section \<open>Removing\<close>

lemma unlink_after:
  assumes q: "tq s (us @ t # vs)"
  shows "tq (set_next t 0 (tset (cell_after us) (tnext (tobj s t)) s)) (us @ vs)"
proof (cases us rule: rev_cases)
  case Nil
  have "t \<notin> set vs" using chain_distinct[OF q] by simp
  with q Nil show ?thesis by (simp add: tnx_set_next path_upd) (simp add: tnx_def)
next
  case (snoc ws y)
  have "distinct (us @ t # vs)" by (rule chain_distinct[OF q])
  then have d: "t \<notin> set (ws @ y # vs)" "y \<noteq> t" using snoc by auto
  have "chain ((tnx s)(y := tnx s t)) (ptr_of (timer_queue s)) (ws @ y # vs)"
    using chain_unlink[of "tnx s" _ ws y t vs] q snoc by simp
  with path_upd[OF d(1), of "(tnx s)(y := tnx s t)" None]
  have "chain ((tnx s)(y := tnx s t, t := None)) (ptr_of (timer_queue s)) (ws @ y # vs)" by simp
  with snoc show ?thesis by (simp add: tnx_set_next) (simp add: tnx_def)
qed

lemma remove_at_spec:
  assumes "tq s (us @ vs)" "t \<notin> set us"
  shows "\<exists>s'. remove_at (cell_after us) t s = Some s' \<and> relinked s s' \<and> tq s' (us @ filter (\<lambda>x. x \<noteq> t) vs)"
  using assms
proof (induction vs arbitrary: us)
  case Nil
  then show ?case
    using tget_cell_after[of s us "[]"] by (subst remove_at.simps) auto
next
  case (Cons v vs)
  have v: "tget s (cell_after us) = v" "v \<noteq> 0"
    using tget_cell_after[OF Cons.prems(1)] by simp_all
  show ?case
  proof (cases "v = t")
    case True
    then have "remove_at (cell_after us) t s =
        Some (set_next t 0 (tset (cell_after us) (tnext (tobj s t)) s))"
      using v by (subst remove_at.simps) simp
    moreover have "filter (\<lambda>x. x \<noteq> t) vs = vs"
      using chain_distinct[OF Cons.prems(1)] True by (auto simp: filter_id_conv)
    ultimately show ?thesis using unlink_after[of s us t vs] Cons.prems(1) True by auto
  next
    case False
    then have "remove_at (cell_after us) t s = remove_at (cell_after (us @ [v])) t s"
      using v by (subst remove_at.simps) simp
    then show ?thesis using Cons.IH[of "us @ [v]"] Cons.prems False by simp
  qed
qed

lemma queue_remove_spec:
  assumes "tq s xs"
  obtains s' where "queue_remove t s = Some s'" "relinked s s'" "tq s' (filter (\<lambda>x. x \<noteq> t) xs)"
  using remove_at_spec[of s "[]" xs t] assms that by (auto simp: queue_remove_def)

section \<open>Adding and cancelling\<close>

text \<open>Frame of an operation that returns with the lock as it found it.\<close>

definition quiet :: "'a timers_scheme \<Rightarrow> 'a timers_scheme \<Rightarrow> bool" where
  "quiet s s' \<longleftrightarrow> timer_lock s' = timer_lock s \<and> iflag s' = iflag s \<and> tick_count s' = tick_count s \<and>
     timers.more s' = timers.more s \<and> console s' = console s \<and> port_out s' = port_out s"

lemma quiet_trans: "quiet s s' \<Longrightarrow> quiet s' s'' \<Longrightarrow> quiet s s''"
  by (simp add: quiet_def)

lemma relinked_quiet: "relinked s s' \<Longrightarrow> quiet s s'"
  by (simp add: quiet_def relinked_frame)

lemma quiet_set_timer [simp]: "quiet s (set_timer t v s)"
  by (simp add: quiet_def set_timer_def)

lemma set_timer_sel [simp]:
  "tobj (set_timer t v s) = (tobj s)(t := v)" "timer_queue (set_timer t v s) = timer_queue s"
  "tick_count (set_timer t v s) = tick_count s"
  by (simp_all add: set_timer_def)

lemma tq_set_timer:
  assumes "tnext v = tnext (tobj s t)"
  shows "tnx (set_timer t v s) = tnx s"
  using assms by (auto simp: tnx_def)

lemma locked_state: "\<not> timer_lock s \<Longrightarrow> lock_acquire s = Some (iflag s, s\<lparr>iflag := False, timer_lock := True\<rparr>)"
  by (simp add: lock_acquire_def cli_def)

lemma lock_release_sel [simp]:
  "tobj (lock_release f s) = tobj s" "timer_queue (lock_release f s) = timer_queue s"
  "timer_lock (lock_release f s) = False" "iflag (lock_release f s) = (f \<or> iflag s)"
  "tick_count (lock_release f s) = tick_count s" "timers.more (lock_release f s) = timers.more s"
  "console (lock_release f s) = console s" "port_out (lock_release f s) = port_out s"
  by (auto simp: lock_release_def sti_def Let_def)

lemma tq_ok_cong:
  "tobj s' = tobj s \<Longrightarrow> timer_queue s' = timer_queue s \<Longrightarrow> tq_ok s' xs = tq_ok s xs"
  by (simp add: tq_ok_def tnx_def [abs_def])

lemma tq_nonzero: "tq s xs \<Longrightarrow> 0 \<notin> set xs"
proof
  assume "tq s xs" "0 \<in> set xs"
  then obtain us vs where "chain (tnx s) (ptr_of (timer_queue s)) (us @ 0 # vs)" by (auto dest: split_list)
  then show False
    by (cases us rule: rev_cases) (auto simp: path_append tnx_def ptr_of_def split: if_splits)
qed

lemma map_expiry_cong: "relinked s s' \<Longrightarrow> expiry s' = expiry s"
  by (simp add: fun_eq_iff relinked_timer)

lemma tq_ok_remove:
  assumes ok: "tq_ok s xs" and r: "relinked s s'" "tq s' (filter (\<lambda>x. x \<noteq> t) xs)"
    and v: "\<not> active v" "tnext v = tnext (tobj s' t)"
  shows "tq_ok (set_timer t v s') (filter (\<lambda>x. x \<noteq> t) xs)"
proof -
  let ?ys = "filter (\<lambda>x. x \<noteq> t) xs"
  have "map (expiry (set_timer t v s')) ?ys = map (expiry s) ?ys"
    using r(1) by (simp add: relinked_timer)
  moreover have "sorted (map (expiry s) ?ys)" using ok by (simp add: tq_ok_def sorted_filter)
  ultimately have "sorted (map (expiry (set_timer t v s')) ?ys)" by (simp only:)
  moreover have "tq (set_timer t v s') ?ys" using r(2) tq_set_timer[OF v(2)] by simp
  moreover have "active (tobj (set_timer t v s') q) \<longleftrightarrow> q \<in> set ?ys" if "q \<noteq> 0" for q
    using ok that v(1) relinked_timer[OF r(1)] by (auto simp: tq_ok_def)
  ultimately show ?thesis unfolding tq_ok_def by blast
qed

lemma tq_ok_insert:
  assumes q: "tq s xs" and srt: "sorted (map (expiry s) xs)"
    and act: "\<And>q. q \<noteq> 0 \<Longrightarrow> active (tobj s q) \<longleftrightarrow> q \<in> insert t (set xs)" and t: "t \<notin> set xs" "t \<noteq> 0"
  obtains s' where "queue_insert t s = Some s'" "relinked s s'" "tq_ok s' (insort_timer s t xs)"
proof -
  obtain s' where s': "queue_insert t s = Some s'" "relinked s s'" "tq s' (insort_timer s t xs)"
    using queue_insert_spec[OF q t] by blast
  have "tq_ok s' (insort_timer s t xs)"
    using s' sorted_insort_timer[OF srt] act by (simp add: tq_ok_def relinked_timer map_expiry_cong)
  with s' that show thesis by blast
qed

lemma timer_add_spec:
  assumes ok: "tq_ok s xs" and free: "\<not> timer_lock s" and t: "t \<noteq> 0"
  obtains s' ys zs where "timer_add t d s = Some s'" "tq_ok s' (ys @ t # zs)"
    "ys @ zs = filter (\<lambda>x. x \<noteq> t) xs"
    "expiry s' t = tick_count s + (if d \<noteq> 0 then d else 1)"
    "\<And>q. q \<noteq> t \<Longrightarrow> expiry s' q = expiry s q"
    "\<And>q. period (tobj s' q) = period (tobj s q) \<and> fn (tobj s' q) = fn (tobj s q) \<and> arg (tobj s' q) = arg (tobj s q)"
    "\<And>y. y \<in> set ys \<Longrightarrow> expiry s' y \<le> expiry s' t" "quiet s s'"
proof -
  let ?s0 = "s\<lparr>iflag := False, timer_lock := True\<rparr>" and ?ys = "filter (\<lambda>x. x \<noteq> t) xs"
  have q0: "tq ?s0 xs" using ok by (simp add: tq_ok_def tnx_def [abs_def])
  have tnx0: "tnx ?s0 = tnx s" by (simp add: tnx_def [abs_def])
  obtain s1 where s1: "(if active (tobj s t) then queue_remove t ?s0 else Some ?s0) = Some s1"
    "relinked ?s0 s1" "tq s1 ?ys"
  proof (cases "active (tobj s t)")
    case True
    with queue_remove_spec[OF q0, of t] that show thesis by auto
  next
    case False
    then have "?ys = xs" using ok t by (auto simp: tq_ok_def filter_id_conv)
    with False q0 that[of ?s0] show thesis by simp
  qed
  define e where "e = tick_count s + (if d \<noteq> 0 then d else 1)"
  let ?v = "(tobj s1 t)\<lparr>expires := e, active := True\<rparr>"
  let ?s2 = "set_timer t ?v s1"
  have q2: "tq ?s2 ?ys" using s1(3) tq_set_timer[of ?v s1 t] by simp
  have same: "map (expiry ?s2) ?ys = map (expiry s) ?ys" using relinked_timer[OF s1(2)] by simp
  have srt: "sorted (map (expiry ?s2) ?ys)" unfolding same using ok by (simp add: tq_ok_def sorted_filter)
  have act: "active (tobj ?s2 q) \<longleftrightarrow> q \<in> insert t (set ?ys)" if "q \<noteq> 0" for q
    using that ok relinked_timer[OF s1(2)] by (auto simp: tq_ok_def)
  obtain s3 where s3: "queue_insert t ?s2 = Some s3" "relinked ?s2 s3" "tq_ok s3 (insort_timer ?s2 t ?ys)"
    using tq_ok_insert[OF q2 srt act _ t] by auto
  have tick: "tick_count s1 = tick_count s" using relinked_frame[OF s1(2)] by simp
  have run: "timer_add t d s = Some (lock_release (iflag s) s3)"
    using s1(1) s3(1) tick free
    by (simp add: timer_add_def locked_state Let_def pit_get_tick_count_def e_def)
  let ?P = "\<lambda>q. expiry ?s2 q \<le> expiry ?s2 t"
  show thesis
  proof (rule that[OF run, of "takeWhile ?P ?ys" "dropWhile ?P ?ys"])
    show "tq_ok (lock_release (iflag s) s3) (takeWhile ?P ?ys @ t # dropWhile ?P ?ys)"
      using s3(3) by (subst tq_ok_cong[of _ s3]) (simp_all add: insort_timer_def)
    show "quiet s (lock_release (iflag s) s3)"
      using relinked_frame[OF s1(2)] relinked_frame[OF s3(2)] free
      by (simp add: quiet_def set_timer_def)
    show "expiry (lock_release (iflag s) s3) y \<le> expiry (lock_release (iflag s) s3) t"
      if "y \<in> set (takeWhile ?P ?ys)" for y
      using set_takeWhileD[OF that] relinked_timer[OF s3(2)] by (auto split: if_splits)
  qed (use relinked_timer[OF s1(2)] relinked_timer[OF s3(2)] in \<open>auto simp: e_def\<close>)
qed

lemma timer_cancel_spec:
  assumes ok: "tq_ok s xs" and free: "\<not> timer_lock s" and t: "t \<noteq> 0"
  obtains r s' where "timer_cancel t s = Some (r, s')" "tq_ok s' (filter (\<lambda>x. x \<noteq> t) xs)"
    "r = (if t \<in> set xs then 0 else - 1)" "quiet s s'"
    "\<And>q. expiry s' q = expiry s q" "\<not> active (tobj s' t)"
proof -
  let ?s0 = "s\<lparr>iflag := False, timer_lock := True\<rparr>" and ?ys = "filter (\<lambda>x. x \<noteq> t) xs"
  have act: "active (tobj s t) \<longleftrightarrow> t \<in> set xs" using ok t by (simp add: tq_ok_def)
  have ok0: "tq_ok ?s0 xs" using ok by (subst tq_ok_cong[of _ s]) simp_all
  show thesis
  proof (cases "active (tobj s t)")
    case True
    obtain s1 where s1: "queue_remove t ?s0 = Some s1" "relinked ?s0 s1" "tq s1 ?ys"
      using queue_remove_spec[of ?s0 xs t] ok0 by (auto simp: tq_ok_def)
    let ?s2 = "set_timer t ((tobj s1 t)\<lparr>active := False\<rparr>) s1"
    have "tq_ok ?s2 ?ys" using tq_ok_remove[OF ok0 s1(2,3)] by simp
    then have "tq_ok (lock_release (iflag s) ?s2) ?ys" by (subst tq_ok_cong[of _ ?s2]) simp_all
    moreover have "timer_cancel t s = Some (0, lock_release (iflag s) ?s2)"
      using True s1(1) free by (simp add: timer_cancel_def locked_state Let_def)
    moreover have "quiet s (lock_release (iflag s) ?s2)"
      using relinked_frame[OF s1(2)] free by (simp add: quiet_def set_timer_def)
    ultimately show thesis using that True act relinked_timer[OF s1(2)] by simp
  next
    case False
    have "tq_ok (lock_release (iflag s) ?s0) xs" using ok0 by (subst tq_ok_cong[of _ ?s0]) simp_all
    moreover have "?ys = xs" using False act by (auto simp: filter_id_conv)
    moreover have "timer_cancel t s = Some (- 1, lock_release (iflag s) ?s0)"
      using False free by (simp add: timer_cancel_def locked_state)
    moreover have "quiet s (lock_release (iflag s) ?s0)" using free by (simp add: quiet_def)
    ultimately show thesis using that False act by simp
  qed
qed

section \<open>The tick\<close>

text \<open>What a tick never changes in a timer.\<close>

definition same_static :: "'a timers_scheme \<Rightarrow> 'b timers_scheme \<Rightarrow> bool" where
  "same_static s s' \<longleftrightarrow> (\<forall>t. period (tobj s' t) = period (tobj s t) \<and>
     fn (tobj s' t) = fn (tobj s t) \<and> arg (tobj s' t) = arg (tobj s t))"

lemma same_static_trans: "same_static s s' \<Longrightarrow> same_static s' s'' \<Longrightarrow> same_static s s''"
  by (simp add: same_static_def)

definition after_pop :: "u32 \<Rightarrow> 'a timers_scheme \<Rightarrow> u32 \<Rightarrow> u32 list \<Rightarrow> u32 list" where
  "after_pop now s t xs =
     (if period (tobj s t) = 0 then xs
      else takeWhile (\<lambda>q. expiry s q \<le> now + period (tobj s t)) xs @
        t # dropWhile (\<lambda>q. expiry s q \<le> now + period (tobj s t)) xs)"

lemma pop_expired_spec:
  assumes ok: "tq_ok s (t # xs)"
  obtains s' where "pop_expired now s = Some (t, s')" "tq_ok s' (after_pop now s t xs)"
    "quiet s s'" "same_static s s'"
    "\<And>q. expiry s' q = (if q = t \<and> period (tobj s t) \<noteq> 0 then now + period (tobj s t) else expiry s q)"
proof -
  let ?s1 = "set_next t 0 (s\<lparr>timer_queue := tnext (tobj s t)\<rparr>)"
  have q: "tq s (t # xs)" and srt: "sorted (map (expiry s) xs)"
    and act: "\<And>q. q \<noteq> 0 \<Longrightarrow> active (tobj s q) \<longleftrightarrow> q \<in> insert t (set xs)"
    using ok by (auto simp: tq_ok_def)
  have t: "timer_queue s = t" "t \<noteq> 0" "t \<notin> set xs"
    using q chain_distinct[OF q] by auto
  have r1: "relinked s ?s1" by (rule relinked_trans[OF relinked_queue relinked_set_next])
  have q1: "tq ?s1 xs" using unlink_after[of s "[]" t xs] q by simp
  note d1 = relinked_timer[OF r1]
  show thesis
  proof (cases "period (tobj s t) = 0")
    case True
    let ?v = "(tobj ?s1 t)\<lparr>active := False\<rparr>"
    let ?s2 = "set_timer t ?v ?s1"
    have "tq ?s2 xs" using q1 tq_set_timer[of ?v ?s1 t] by simp
    moreover have "map (expiry ?s2) xs = map (expiry s) xs" using d1 by simp
    then have "sorted (map (expiry ?s2) xs)" using srt by (simp only:)
    moreover have "active (tobj ?s2 q) \<longleftrightarrow> q \<in> set xs" if "q \<noteq> 0" for q
      using act[OF that] d1 t(3) by auto
    ultimately have "tq_ok ?s2 xs" unfolding tq_ok_def by blast
    moreover have "pop_expired now s = Some (t, ?s2)"
      using True d1 t(1) by (simp add: pop_expired_def Let_def)
    moreover have "quiet s ?s2" using quiet_trans[OF relinked_quiet[OF r1] quiet_set_timer] .
    moreover have "same_static s ?s2" using d1 by (simp add: same_static_def)
    ultimately show thesis using that[of ?s2] True d1 by (simp add: after_pop_def)
  next
    case False
    let ?v = "(tobj ?s1 t)\<lparr>expires := now + period (tobj ?s1 t)\<rparr>"
    let ?s2 = "set_timer t ?v ?s1"
    have q2: "tq ?s2 xs" using q1 tq_set_timer[of ?v ?s1 t] by simp
    have same: "map (expiry ?s2) xs = map (expiry s) xs" using d1 t(3) by auto
    have srt2: "sorted (map (expiry ?s2) xs)" unfolding same by (rule srt)
    have act2: "active (tobj ?s2 q) \<longleftrightarrow> q \<in> insert t (set xs)" if "q \<noteq> 0" for q
      using act[OF that] d1 t(2) act[OF t(2)] by auto
    obtain s3 where s3: "queue_insert t ?s2 = Some s3" "relinked ?s2 s3" "tq_ok s3 (insort_timer ?s2 t xs)"
      using tq_ok_insert[OF q2 srt2 act2 t(3,2)] by blast
    have cond: "(expiry ?s2 q \<le> expiry ?s2 t) = (expiry s q \<le> now + period (tobj s t))" if "q \<in> set xs" for q
      using that t(3) d1 by auto
    have tw: "takeWhile (\<lambda>q. expiry ?s2 q \<le> expiry ?s2 t) xs =
        takeWhile (\<lambda>q. expiry s q \<le> now + period (tobj s t)) xs"
      by (rule takeWhile_cong[OF refl]) (rule cond)
    have dw: "dropWhile (\<lambda>q. expiry ?s2 q \<le> expiry ?s2 t) xs =
        dropWhile (\<lambda>q. expiry s q \<le> now + period (tobj s t)) xs"
      by (rule dropWhile_cong[OF refl]) (rule cond)
    have "insort_timer ?s2 t xs = after_pop now s t xs"
      unfolding insort_timer_def after_pop_def tw dw using False by simp
    moreover have "pop_expired now s = Some (t, s3)"
      using False d1 t(1) s3(1) by (simp add: pop_expired_def Let_def)
    moreover have "quiet s s3"
      using quiet_trans[OF quiet_trans[OF relinked_quiet[OF r1] quiet_set_timer] relinked_quiet[OF s3(2)]] .
    moreover have "same_static s s3" using d1 relinked_timer[OF s3(2)] by (simp add: same_static_def)
    ultimately show thesis using that[of s3] s3(3) False d1 relinked_timer[OF s3(2)] by simp
  qed
qed

text \<open>
  A callback of a client whose state is the record extension: it returns, and acts on that
  state only.
\<close>

definition client_call :: "(u32 \<Rightarrow> u32 \<Rightarrow> 'a \<Rightarrow> 'a) \<Rightarrow> u32 \<Rightarrow> u32 \<Rightarrow> 'a timers_scheme \<Rightarrow>
    ('a timers_scheme + 'a timers_scheme) option" where
  "client_call g f a s = Some (Inr (timers.more_update (g f a) s))"

definition fire :: "(u32 \<Rightarrow> u32 \<Rightarrow> 'a \<Rightarrow> 'a) \<Rightarrow> 'b timers_scheme \<Rightarrow> u32 \<Rightarrow> 'a \<Rightarrow> 'a" where
  "fire g s t e = (if fn (tobj s t) \<noteq> 0 then g (fn (tobj s t)) (arg (tobj s t)) e else e)"

lemma fire_cong: "same_static s s' \<Longrightarrow> fire g s' = fire g s"
  by (simp add: fire_def same_static_def fun_eq_iff)

text \<open>All times within half the range of the counter, so that signed differences do not wrap.\<close>

definition in_window :: "u32 \<Rightarrow> 'a timers_scheme \<Rightarrow> u32 list \<Rightarrow> bool" where
  "in_window now s xs \<longleftrightarrow> unat now < 2 ^ 31 \<and>
     (\<forall>t \<in> set xs. unat (expiry s t) < 2 ^ 31 \<and> unat now + unat (period (tobj s t)) < 2 ^ 31)"

lemma due_iff:
  assumes "unat now < 2 ^ 31" "unat e < 2 ^ 31"
  shows "due now e \<longleftrightarrow> e \<le> now"
  unfolding sint_diff_small[OF assms(2,1)] word_le_nat_alt by linarith

lemma tick_loop_spec:
  assumes "tq_ok s (F @ R)" "in_window now s (F @ R)" "\<not> iflag s" "timer_lock s"
    and "\<And>t. t \<in> set F \<Longrightarrow> expiry s t \<le> now" "\<And>t. t \<in> set R \<Longrightarrow> now < expiry s t"
  shows "\<exists>s' ys. tick_loop (client_call g) now flags s = Some (Inr s') \<and> tq_ok s' ys \<and>
    set ys = set R \<union> {t \<in> set F. period (tobj s t) \<noteq> 0} \<and>
    timers.more s' = fold (fire g s) F (timers.more s) \<and>
    (\<forall>q. expiry s' q = (if q \<in> set F \<and> period (tobj s q) \<noteq> 0 then now + period (tobj s q) else expiry s q)) \<and>
    same_static s s' \<and> \<not> timer_lock s' \<and> iflag s' = flags \<and> tick_count s' = tick_count s"
  using assms
proof (induction F arbitrary: s R flags)
  case Nil
  have "\<not> (timer_queue s \<noteq> 0 \<and> due now (expiry s (timer_queue s)))"
  proof (cases R)
    case Nil
    with Nil.prems(1) show ?thesis by (simp add: tq_ok_def)
  next
    case (Cons r rs)
    then have "timer_queue s = r" using Nil.prems(1) by (simp add: tq_ok_def)
    moreover have "\<not> due now (expiry s r)"
      using Nil.prems(2,6) Cons due_iff[of now "expiry s r"] by (simp add: in_window_def not_le)
    ultimately show ?thesis by simp
  qed
  then have "tick_loop (client_call g) now flags s = Some (Inr (lock_release flags s))"
    by (subst tick_loop.simps) (rule if_not_P)
  moreover have "tq_ok (lock_release flags s) R"
    using Nil.prems(1) by (subst tq_ok_cong[of _ s]) simp_all
  ultimately show ?case using Nil.prems(3)
    by (intro exI[of _ "lock_release flags s"] exI[of _ R]) (simp add: same_static_def)
next
  case (Cons t F)
  let ?p = "period (tobj s t)"
  have t: "timer_queue s = t" "t \<noteq> 0" "t \<notin> set (F @ R)" "distinct (F @ R)"
    using Cons.prems(1) chain_distinct[of "tnx s" _ "t # F @ R"] by (auto simp: tq_ok_def)
  have win: "unat now < 2 ^ 31" "unat (expiry s t) < 2 ^ 31" "unat now + unat ?p < 2 ^ 31"
    using Cons.prems(2) by (simp_all add: in_window_def)
  have due: "due now (expiry s t)" using due_iff[OF win(1,2)] Cons.prems(5) by simp
  obtain s1 where s1: "pop_expired now s = Some (t, s1)" "tq_ok s1 (after_pop now s t (F @ R))"
    "quiet s s1" "same_static s s1"
    "\<And>q. expiry s1 q = (if q = t \<and> ?p \<noteq> 0 then now + ?p else expiry s q)"
    using pop_expired_spec[of s t "F @ R" now] Cons.prems(1) by auto
  have le: "now \<le> now + ?p" "unat (now + ?p) = unat now + unat ?p"
    using win(3) by (simp_all add: word_le_nat_alt unat_word_ariths)
  have all: "\<forall>q \<in> set F. expiry s q \<le> now + ?p"
    using Cons.prems(5) order_trans[OF _ le(1)] by simp
  define R' where "R' = after_pop now s t R"
  have list: "after_pop now s t (F @ R) = F @ R'"
    using all by (simp add: after_pop_def R'_def takeWhile_append2 dropWhile_append2)
  have setR: "set R' = set R \<union> (if ?p = 0 then {} else {t})"
  proof -
    have "set R = set (takeWhile P R) \<union> set (dropWhile P R)" for P
      by (metis set_append takeWhile_dropWhile_id)
    then show ?thesis by (auto simp: R'_def after_pop_def)
  qed
  define s2 where "s2 = timers.more_update (fire g s t) (lock_release flags s1)"
  let ?s3 = "s2\<lparr>iflag := False, timer_lock := True\<rparr>"
  have st1: "period (tobj s1 q) = period (tobj s q)" "fn (tobj s1 q) = fn (tobj s q)" "arg (tobj s1 q) = arg (tobj s q)" for q
    using s1(4) by (simp_all add: same_static_def)
  have tob: "tobj ?s3 = tobj s1" "timer_queue ?s3 = timer_queue s1" by (simp_all add: s2_def)
  have more: "timers.more ?s3 = fire g s t (timers.more s)" using s1(3) by (simp add: s2_def quiet_def)
  have fl: "iflag s2 = flags" "\<not> timer_lock s2" using s1(3) Cons.prems(3) by (simp_all add: s2_def quiet_def)
  have step: "tick_loop (client_call g) now flags s = tick_loop (client_call g) now flags ?s3"
  proof -
    have "(if fn (tobj (lock_release flags s1) t) \<noteq> 0
        then client_call g (fn (tobj (lock_release flags s1) t)) (arg (tobj (lock_release flags s1) t))
          (lock_release flags s1)
        else Some (Inr (lock_release flags s1))) = Some (Inr s2)"
      by (simp add: client_call_def s2_def fire_def[abs_def] st1)
    moreover have "lock_acquire s2 = Some (flags, ?s3)" using fl locked_state[of s2] by simp
    ultimately show ?thesis using t(1,2) due s1(1)
      by (subst tick_loop.simps) (simp add: Let_def split del: if_split)
  qed
  have ok3: "tq_ok ?s3 (F @ R')"
    using s1(2) unfolding list by (subst tq_ok_cong[of _ s1]) (simp_all add: tob)
  have e3: "expiry ?s3 q = (if q = t \<and> ?p \<noteq> 0 then now + ?p else expiry s q)" for q
    using s1(5)[of q] by (simp add: tob)
  have win3: "in_window now ?s3 (F @ R')"
    unfolding in_window_def
  proof (intro conjI ballI win(1))
    fix q assume "q \<in> set (F @ R')"
    then consider "q = t" "?p \<noteq> 0" | "q \<in> set (F @ R)" "q \<noteq> t" using setR t(3) by (auto split: if_splits)
    then have "unat (expiry ?s3 q) < 2 ^ 31 \<and> unat now + unat (period (tobj ?s3 q)) < 2 ^ 31"
    proof cases
      case 1
      then show ?thesis using win(3) le(2) e3[of q] by (simp add: tob st1)
    next
      case 2
      then show ?thesis using Cons.prems(2) e3[of q] by (auto simp: tob st1 in_window_def)
    qed
    then show "unat (expiry ?s3 q) < 2 ^ 31" "unat now + unat (period (tobj ?s3 q)) < 2 ^ 31" by simp_all
  qed
  have F3: "expiry ?s3 q \<le> now" if "q \<in> set F" for q
    using that Cons.prems(5) t(3) e3[of q] by auto
  have R3: "now < expiry ?s3 q" if "q \<in> set R'" for q
  proof (cases "q = t")
    case True
    then have p: "?p \<noteq> 0" using that setR t(3) by (auto split: if_splits)
    then have "0 < unat ?p" by (simp add: unat_gt_0)
    then have "now < now + ?p" using le(2) by (simp add: word_less_nat_alt)
    with True p e3[of q] show ?thesis by simp
  next
    case False
    then show ?thesis using that setR Cons.prems(6) e3[of q] by (auto split: if_splits)
  qed
  obtain s' ys where s': "tick_loop (client_call g) now flags ?s3 = Some (Inr s')" "tq_ok s' ys"
    "set ys = set R' \<union> {t \<in> set F. period (tobj ?s3 t) \<noteq> 0}"
    "timers.more s' = fold (fire g ?s3) F (timers.more ?s3)"
    "\<And>q. expiry s' q = (if q \<in> set F \<and> period (tobj ?s3 q) \<noteq> 0 then now + period (tobj ?s3 q) else expiry ?s3 q)"
    "same_static ?s3 s'" "\<not> timer_lock s'" "iflag s' = flags" "tick_count s' = tick_count ?s3"
    using Cons.IH[OF ok3 win3 _ _ F3 R3, of flags] by auto
  have ss: "same_static s ?s3" by (simp add: same_static_def tob st1)
  have f1: "timers.more s' = fold (fire g s) (t # F) (timers.more s)"
    using s'(4) more fire_cong[OF ss, of g] by simp
  have f2: "set ys = set R \<union> {q \<in> set (t # F). period (tobj s q) \<noteq> 0}"
    using s'(3) setR t(3) by (auto simp: tob st1)
  have f3: "expiry s' q = (if q \<in> set (t # F) \<and> period (tobj s q) \<noteq> 0 then now + period (tobj s q) else expiry s q)" for q
    using s'(5)[of q] e3[of q] t(3) by (auto simp: tob st1)
  have f4: "tick_count s' = tick_count s" using s'(9) s1(3) by (simp add: s2_def quiet_def)
  have f5: "same_static s s'" by (rule same_static_trans[OF ss s'(6)])
  have run: "tick_loop (client_call g) now flags s = Some (Inr s')" unfolding step by (rule s'(1))
  show ?case
    by (intro exI[of _ s'] exI[of _ ys] conjI allI) (rule run s'(2) f2 f1 f3 f5 s'(7) s'(8) f4)+
qed

end
