(* ===== verification/Pit.thy ===== *)
theory Pit
  imports Timer_Correct
begin

text \<open>
  The programmable interval timer of \<open>cpu/pit.c\<close>: programming the divisor, the interrupt
  handler that advances the tick counter and runs the software timers, calibration against
  the real-time clock, and sleeping. The interrupts that arrive while a loop waits are the
  parameter \<open>irq\<close>.
\<close>

definition cmos_write :: "u8 \<Rightarrow> u8 \<Rightarrow> 'a machine_scheme \<Rightarrow> 'a machine_scheme" where
  "cmos_write reg v s = outb 0x71 v (outb 0x70 ((reg AND 0x7F) OR 0x80) s)"

definition cmos_read :: "u8 \<Rightarrow> 'a machine_scheme \<Rightarrow> u8 \<times> 'a machine_scheme" where
  "cmos_read reg s = inb 0x71 (outb 0x70 (reg AND 0x7F) s)"

definition rtc_enable_periodic :: "u8 \<Rightarrow> 'a machine_scheme \<Rightarrow> 'a machine_scheme" where
  "rtc_enable_periodic rate s =
     (let (regA, s) = cmos_read 0x0A s;
          s = cmos_write 0x0A ((regA AND 0xF0) OR (rate AND 0x0F)) s;
          (regB, s) = cmos_read 0x0B s
      in cmos_write 0x0B (regB OR 0x40) s)"

definition rtc_disable_periodic :: "'a machine_scheme \<Rightarrow> 'a machine_scheme" where
  "rtc_disable_periodic s =
     (let (regB, s) = cmos_read 0x0B s in cmos_write 0x0B (regB AND NOT 0x40) s)"

definition rtc_clear_pf :: "'a machine_scheme \<Rightarrow> 'a machine_scheme" where
  "rtc_clear_pf s = snd (cmos_read 0x0C s)"

partial_function (option) rtc_wait_for_pf ::
  "('a machine_scheme \<Rightarrow> 'a machine_scheme) \<Rightarrow> 'a machine_scheme \<Rightarrow> 'a machine_scheme option" where
  "rtc_wait_for_pf irq s =
     (let (regC, s) = cmos_read 0x0C (irq s) in
      if regC AND 0x40 = 0 then rtc_wait_for_pf irq s else Some s)"

definition pit_set_divisor :: "u32 \<Rightarrow> 'a machine_scheme \<Rightarrow> 'a machine_scheme" where
  "pit_set_divisor d s =
     outb 0x40 (ucast (drop_bit 8 d AND 0xFF)) (outb 0x40 (ucast (d AND 0xFF)) (outb 0x43 0x36 s))"

definition pit_init :: "u32 \<Rightarrow> 'a timers_scheme \<Rightarrow> 'a timers_scheme checked" where
  "pit_init frequency s =
     (if frequency = 0 then Inl DivideByZero
      else let d = 1193182 div frequency in
        Inr (pit_set_divisor d (s\<lparr>pit_hz := frequency, current_divisor := d\<rparr>)))"

definition pit_handler ::
  "(u32 \<Rightarrow> u32 \<Rightarrow> 'a timers_scheme \<Rightarrow> ('a timers_scheme + 'a timers_scheme) option) \<Rightarrow>
     'a timers_scheme \<Rightarrow> ('a timers_scheme + 'a timers_scheme) option" where
  "pit_handler call s = timer_tick call (s\<lparr>tick_count := tick_count s + 1\<rparr>)"

fun count_periods ::
  "('a machine_scheme \<Rightarrow> 'a machine_scheme) \<Rightarrow> nat \<Rightarrow> 'a machine_scheme \<Rightarrow> 'a machine_scheme option" where
  "count_periods irq 0 s = Some s"
| "count_periods irq (Suc n) s =
     (case rtc_wait_for_pf irq s of None \<Rightarrow> None
      | Some s \<Rightarrow> count_periods irq n (rtc_clear_pf s))"

definition pit_calibrate_with_rtc ::
  "('a timers_scheme \<Rightarrow> 'a timers_scheme) \<Rightarrow> u32 \<Rightarrow> 'a timers_scheme \<Rightarrow> 'a timers_scheme option" where
  "pit_calibrate_with_rtc irq desired_hz s =
     (if desired_hz = 0 \<or> current_divisor s = 0 then Some s
      else
        let s = rtc_clear_pf (rtc_enable_periodic 0x06 s);
            start_ticks = tick_count s
        in case count_periods irq 1024 s of None \<Rightarrow> None
           | Some s \<Rightarrow>
               let end_ticks = tick_count s;
                   s = rtc_disable_periodic s;
                   measured_ticks = end_ticks - start_ticks
               in if measured_ticks = 0 then Some s
                  else
                    let actual_base_freq = measured_ticks * current_divisor s;
                        new_divisor = actual_base_freq div desired_hz;
                        new_divisor = (if new_divisor < 2 then 2 else new_divisor)
                    in Some (pit_set_divisor new_divisor
                         (s\<lparr>current_divisor := new_divisor, pit_hz := desired_hz\<rparr>)))"

partial_function (option) sleep_loop ::
  "('a timers_scheme \<Rightarrow> 'a timers_scheme option) \<Rightarrow> u32 \<Rightarrow> 'a timers_scheme \<Rightarrow> 'a timers_scheme option" where
  "sleep_loop irq target s =
     (if sint (tick_count s - target) < 0 then
        (case irq (sti s) of None \<Rightarrow> None | Some s \<Rightarrow> sleep_loop irq target (cli s))
      else Some s)"

definition sleep_ticks ::
  "('a timers_scheme \<Rightarrow> 'a timers_scheme option) \<Rightarrow> u32 \<Rightarrow> 'a timers_scheme \<Rightarrow> 'a timers_scheme option" where
  "sleep_ticks irq ticks s =
     (if ticks = 0 then Some s
      else case sleep_loop irq (tick_count s + ticks) s of None \<Rightarrow> None | Some s \<Rightarrow> Some (sti s))"

definition sleep ::
  "('a timers_scheme \<Rightarrow> 'a timers_scheme option) \<Rightarrow> u32 \<Rightarrow> 'a timers_scheme \<Rightarrow> 'a timers_scheme option" where
  "sleep irq milliseconds s =
     (if milliseconds = 0 then Some s
      else sleep_ticks irq ((milliseconds * pit_hz s + 999) div 1000) s)"

section \<open>Sleeping takes exactly the ticks asked for\<close>

text \<open>The interrupt of a timer chip whose handler only counts.\<close>

definition count_irq :: "'a timers_scheme \<Rightarrow> 'a timers_scheme option" where
  "count_irq s = Some (s\<lparr>tick_count := tick_count s + 1\<rparr>)"

lemma sint_neg_of_nat:
  assumes "0 < n" "n < 2 ^ 31"
  shows "sint (- of_nat n :: u32) = - int n"
proof -
  have "unat (of_nat n :: u32) = n" using assms by (simp add: unat_of_nat)
  then show ?thesis using sint_diff_small[of 0 "of_nat n"] assms by simp
qed

lemma sleep_loop_count:
  assumes "n < 2 ^ 31" "target = tick_count s + of_nat n"
  shows "sleep_loop count_irq target s =
    Some (if n = 0 then s else s\<lparr>tick_count := target, iflag := False\<rparr>)"
  using assms
proof (induction n arbitrary: s)
  case 0
  then show ?case by (simp add: sleep_loop.simps)
next
  case (Suc n)
  have "tick_count s - target = - of_nat (Suc n)" using Suc.prems(2) by simp
  then have neg: "sint (tick_count s - target) < 0"
    using sint_neg_of_nat[of "Suc n"] Suc.prems(1) by (simp only:)
  let ?s = "cli ((sti s)\<lparr>tick_count := tick_count s + 1\<rparr>)"
  have "sleep_loop count_irq target s = sleep_loop count_irq target ?s"
    using neg by (subst sleep_loop.simps) (simp add: count_irq_def sti_def)
  also have "\<dots> = Some (if n = 0 then ?s else ?s\<lparr>tick_count := target, iflag := False\<rparr>)"
    using Suc.prems by (intro Suc.IH) (simp_all add: cli_def sti_def)
  finally show ?case using Suc.prems(2) by (simp add: cli_def sti_def)
qed

end
