(* ===== verification/Shutdown.thy ===== *)
theory Shutdown
  imports Pit
begin

text \<open>
  The delayed shutdown of \<open>cpu/shutdown.c\<close>, a client of the software timers: one static
  timer object, the pending mode and message, and the callback that switches the machine
  off. A halted machine is the left summand, with the state it stops in; \<open>None\<close> stands for a
  loop that never ends.
\<close>

section \<open>State\<close>

datatype shutdown_mode = SHUTDOWN_POWEROFF | SHUTDOWN_REBOOT | SHUTDOWN_HALT

record shutdown = timers +
  sd_active :: bool
  sd_mode :: shutdown_mode
  sd_deadline :: u32
  sd_msg :: string

text \<open>The addresses of the static \<open>sd_timer\<close> and of the callback are names of the model.\<close>

definition SD_TIMER :: u32 where "SD_TIMER = 1"
definition SHUTDOWN_FIRE :: u32 where "SHUTDOWN_FIRE = 1"

definition SHUTDOWN_DEFAULT_MS :: u32 where "SHUTDOWN_DEFAULT_MS = 10 * 60 * 1000"

section \<open>Operations\<close>

definition hw_poweroff :: "'a machine_scheme \<Rightarrow> 'a machine_scheme" where
  "hw_poweroff s = cli (outw 0x8900 0x2000 (outw 0xB004 0x2000 (outw 0x604 0x2000 s)))"

partial_function (option) hw_reboot :: "'a machine_scheme \<Rightarrow> 'a machine_scheme option" where
  "hw_reboot s =
     (let (v, s) = inb 0x64 s in
      if v AND 2 \<noteq> 0 then hw_reboot s else Some (cli (outb 0x64 0xFE s)))"

definition shutdown_fire :: "'a shutdown_scheme \<Rightarrow> ('a shutdown_scheme + 'a shutdown_scheme) option" where
  "shutdown_fire s =
     (if \<not> sd_active s then Some (Inr s)
      else
        let s = s\<lparr>sd_active := False\<rparr>;
            s = viprint (newline @ ''System going down: '') s;
            s = viprint (sd_msg s) s;
            s = viprint newline s
        in (case sd_mode s of
              SHUTDOWN_POWEROFF \<Rightarrow> Some (Inl (hw_poweroff s))
            | SHUTDOWN_REBOOT \<Rightarrow> map_option Inl (hw_reboot s)
            | SHUTDOWN_HALT \<Rightarrow> Some (Inl (cli s))))"

definition shutdown_call :: "u32 \<Rightarrow> u32 \<Rightarrow> 'a shutdown_scheme \<Rightarrow> ('a shutdown_scheme + 'a shutdown_scheme) option" where
  "shutdown_call f a s = (if f = SHUTDOWN_FIRE then shutdown_fire s else Some (Inr s))"

definition cancel_shutdown :: "'a shutdown_scheme \<Rightarrow> 'a shutdown_scheme option" where
  "cancel_shutdown s =
     (if sd_active s then
        (case timer_cancel SD_TIMER s of None \<Rightarrow> None
         | Some (_, s) \<Rightarrow> Some (s\<lparr>sd_active := False\<rparr>))
      else Some s)"

text \<open>\<open>sd_msg\<close> is a buffer of 96 characters with a terminator.\<close>

definition schedule_shutdown :: "shutdown_mode \<Rightarrow> u32 \<Rightarrow> string option \<Rightarrow> 'a shutdown_scheme \<Rightarrow> 'a shutdown_scheme option" where
  "schedule_shutdown mode delay_ms msg s =
     (case cancel_shutdown s of None \<Rightarrow> None
      | Some s \<Rightarrow>
          let s = s\<lparr>sd_active := True, sd_mode := mode\<rparr>;
              s = (case msg of Some (c # cs) \<Rightarrow> s\<lparr>sd_msg := take 95 (c # cs)\<rparr>
                   | _ \<Rightarrow> s\<lparr>sd_msg := ''scheduled shutdown''\<rparr>);
              s = timer_setup SD_TIMER SHUTDOWN_FIRE 0 0 s
          in (case timer_add_ms SD_TIMER delay_ms s of None \<Rightarrow> None
              | Some s \<Rightarrow>
                  let hz = pit_get_hz s;
                      delay_ticks = (delay_ms * hz + 999) div 1000;
                      delay_ticks = (if delay_ticks = 0 then 1 else delay_ticks)
                  in Some (s\<lparr>sd_deadline := pit_get_tick_count s + delay_ticks\<rparr>)))"

definition shutdown_is_pending :: "'a shutdown_scheme \<Rightarrow> bool" where
  "shutdown_is_pending s = sd_active s"

definition shutdown_remaining_ms :: "'a shutdown_scheme \<Rightarrow> u32 checked" where
  "shutdown_remaining_ms s =
     (if \<not> sd_active s then Inr 0
      else
        let left_ticks = sd_deadline s - pit_get_tick_count s in
        if sint left_ticks \<le> 0 then Inr 0
        else if pit_get_hz s = 0 then Inl DivideByZero
        else Inr (left_ticks * 1000 div pit_get_hz s))"

definition schedule_default_shutdown :: "'a shutdown_scheme \<Rightarrow> 'a shutdown_scheme option" where
  "schedule_default_shutdown s =
     (if sd_active s then Some s
      else schedule_shutdown SHUTDOWN_POWEROFF SHUTDOWN_DEFAULT_MS (Some ''automatic 10-minute shutdown'') s)"

section \<open>The invariant\<close>

text \<open>
  A shutdown is pending exactly while its timer is queued, as a one-shot timer with the
  shutdown callback.
\<close>

definition sd_ok :: "'a shutdown_scheme \<Rightarrow> u32 list \<Rightarrow> bool" where
  "sd_ok s xs \<longleftrightarrow> tq_ok s xs \<and> \<not> timer_lock s \<and> (sd_active s \<longleftrightarrow> SD_TIMER \<in> set xs) \<and>
     (sd_active s \<longrightarrow> fn (tobj s SD_TIMER) = SHUTDOWN_FIRE \<and> period (tobj s SD_TIMER) = 0)"

lemma SD_TIMER_nonzero [simp]: "SD_TIMER \<noteq> 0"
  by (simp add: SD_TIMER_def)

lemma tq_ok_shutdown_fields [simp]:
  "tq_ok (s\<lparr>sd_active := a\<rparr>) xs = tq_ok s xs" "tq_ok (s\<lparr>sd_mode := m\<rparr>) xs = tq_ok s xs"
  "tq_ok (s\<lparr>sd_msg := t\<rparr>) xs = tq_ok s xs" "tq_ok (s\<lparr>sd_deadline := d\<rparr>) xs = tq_ok s xs"
  by (rule tq_ok_cong; simp)+

lemma cancel_shutdown_spec:
  assumes ok: "sd_ok s xs"
  obtains s' where "cancel_shutdown s = Some s'" "sd_ok s' (filter (\<lambda>x. x \<noteq> SD_TIMER) xs)"
    "\<not> sd_active s'" "tick_count s' = tick_count s" "iflag s' = iflag s" "port_out s' = port_out s"
proof (cases "sd_active s")
  case True
  have q: "tq_ok s xs" "\<not> timer_lock s" using ok by (simp_all add: sd_ok_def)
  obtain r s1 where s1: "timer_cancel SD_TIMER s = Some (r, s1)"
    "tq_ok s1 (filter (\<lambda>x. x \<noteq> SD_TIMER) xs)" "quiet s s1"
    using timer_cancel_spec[OF q SD_TIMER_nonzero] by blast
  have "cancel_shutdown s = Some (s1\<lparr>sd_active := False\<rparr>)" using True s1(1) by (simp add: cancel_shutdown_def)
  moreover have "sd_ok (s1\<lparr>sd_active := False\<rparr>) (filter (\<lambda>x. x \<noteq> SD_TIMER) xs)"
    using s1(2,3) q(2) by (simp add: sd_ok_def quiet_def)
  ultimately show thesis using that s1(3) by (simp add: quiet_def)
next
  case False
  then have "SD_TIMER \<notin> set xs" using ok by (simp add: sd_ok_def)
  then have "filter (\<lambda>x. x \<noteq> SD_TIMER) xs = xs" by (auto simp: filter_id_conv)
  with False ok that[of s] show thesis by (simp add: cancel_shutdown_def)
qed

lemma tq_ok_setup:
  assumes ok: "tq_ok s xs" and t: "t \<notin> set xs" "t \<noteq> 0"
  shows "tq_ok (timer_setup t f a p s) xs"
proof -
  let ?s = "timer_setup t f a p s"
  have q: "tq s xs" and srt: "sorted (map (expiry s) xs)" using ok by (simp_all add: tq_ok_def)
  have nx: "tnx ?s = (tnx s)(t := None)" by (auto simp: tnx_def timer_setup_def)
  have "tq ?s xs" using q path_upd[OF t(1), of "tnx s" None] unfolding nx by (simp add: timer_setup_def)
  moreover have "map (expiry ?s) xs = map (expiry s) xs" using t(1) by (auto simp: timer_setup_def)
  then have "sorted (map (expiry ?s) xs)" using srt by (simp only:)
  moreover have "active (tobj ?s q) \<longleftrightarrow> q \<in> set xs" if "q \<noteq> 0" for q
    using ok that t by (auto simp: tq_ok_def timer_setup_def)
  ultimately show ?thesis unfolding tq_ok_def by blast
qed

lemma shutdown_more:
  fixes s s' :: "'a shutdown_scheme"
  assumes "timers.more s' = timers.more s"
  shows "sd_active s' = sd_active s" "sd_mode s' = sd_mode s" "sd_msg s' = sd_msg s"
    "sd_deadline s' = sd_deadline s"
  using assms by (cases s, cases s', simp)+

lemma schedule_shutdown_spec:
  assumes ok: "sd_ok s xs"
  obtains s' xs' where "schedule_shutdown mode delay_ms msg s = Some s'" "sd_ok s' xs'"
    "sd_active s'" "sd_mode s' = mode" "set xs' = insert SD_TIMER (set xs)"
    "expiry s' SD_TIMER = tick_count s + (if ms_to_ticks delay_ms \<noteq> 0 then ms_to_ticks delay_ms else 1)"
    "tick_count s' = tick_count s" "port_out s' = port_out s" "iflag s' = iflag s"
proof -
  obtain s1 where s1: "cancel_shutdown s = Some s1" "sd_ok s1 (filter (\<lambda>x. x \<noteq> SD_TIMER) xs)"
    "tick_count s1 = tick_count s" "iflag s1 = iflag s" "port_out s1 = port_out s"
    using cancel_shutdown_spec[OF ok] by blast
  let ?ys = "filter (\<lambda>x. x \<noteq> SD_TIMER) xs"
  define s2 where "s2 = (case msg of Some (c # cs) \<Rightarrow> s1\<lparr>sd_active := True, sd_mode := mode, sd_msg := take 95 (c # cs)\<rparr>
      | _ \<Rightarrow> s1\<lparr>sd_active := True, sd_mode := mode, sd_msg := ''scheduled shutdown''\<rparr>)"
  have s2: "tq_ok s2 ?ys" "\<not> timer_lock s2" "sd_active s2" "sd_mode s2 = mode" "tick_count s2 = tick_count s"
    "iflag s2 = iflag s" "port_out s2 = port_out s"
    using s1(2-5) by (auto simp: s2_def sd_ok_def split: option.splits list.splits)
  define s3 where "s3 = timer_setup SD_TIMER SHUTDOWN_FIRE 0 0 s2"
  have ok3: "tq_ok s3 ?ys" unfolding s3_def by (rule tq_ok_setup[OF s2(1)]) simp_all
  have s3: "\<not> timer_lock s3" "sd_active s3" "sd_mode s3 = mode" "tick_count s3 = tick_count s"
    "fn (tobj s3 SD_TIMER) = SHUTDOWN_FIRE" "period (tobj s3 SD_TIMER) = 0" "port_out s3 = port_out s"
    "iflag s3 = iflag s"
    using s2(2-) by (simp_all add: s3_def timer_setup_def set_timer_def)
  obtain s4 us vs where s4: "timer_add SD_TIMER (ms_to_ticks delay_ms) s3 = Some s4"
    "tq_ok s4 (us @ SD_TIMER # vs)" "us @ vs = filter (\<lambda>x. x \<noteq> SD_TIMER) ?ys"
    "expiry s4 SD_TIMER = tick_count s3 + (if ms_to_ticks delay_ms \<noteq> 0 then ms_to_ticks delay_ms else 1)"
    "\<And>q. period (tobj s4 q) = period (tobj s3 q) \<and> fn (tobj s4 q) = fn (tobj s3 q) \<and> arg (tobj s4 q) = arg (tobj s3 q)"
    "quiet s3 s4"
    using timer_add_spec[OF ok3 s3(1) SD_TIMER_nonzero] by metis
  note q4 = s4(6)[unfolded quiet_def]
  note m4 = shutdown_more[of s4 s3]
  let ?hz = "(delay_ms * pit_hz s4 + 999) div 1000"
  let ?s = "s4\<lparr>sd_deadline := tick_count s4 + (if ?hz = 0 then 1 else ?hz)\<rparr>"
  have run: "schedule_shutdown mode delay_ms msg s = Some ?s"
    using s1(1) s4(1)
    by (simp add: schedule_shutdown_def Let_def s3_def s2_def timer_add_ms_def pit_get_hz_def
        pit_get_tick_count_def split: option.splits list.splits)
  have "set (us @ SD_TIMER # vs) = insert SD_TIMER (set xs)"
    using arg_cong[OF s4(3), of set] by auto
  moreover have "sd_ok ?s (us @ SD_TIMER # vs)"
    using s4(2,5) q4 m4 s3 by (simp add: sd_ok_def)
  ultimately show thesis using that[OF run] s4(4) s3 q4 m4 by simp
qed

declare hw_reboot.simps [code]

end
