(* ===== verification/Timer_Spec.thy ===== *)
theory Timer_Spec
  imports Shutdown
begin

text \<open>
  The properties of the software timers, of sleeping on the tick counter, and of the delayed
  shutdown, over the queue invariant of \<open>Timer_Correct\<close>.
\<close>

section \<open>Concrete states\<close>

definition idle_timer :: timer where
  "idle_timer = \<lparr>expires = 0, period = 0, fn = 0, arg = 0, active = False, tnext = 0\<rparr>"

definition timers_at :: "u32 \<Rightarrow> 'a \<Rightarrow> 'a timers_scheme" where
  "timers_at now e = \<lparr>console = [], port_out = [], port_in = (\<lambda>_ _. 0), port_reads = (\<lambda>_. 0), iflag = True,
     tick_count = now, pit_hz = 100, current_divisor = 11931, tobj = (\<lambda>_. idle_timer), timer_queue = 0,
     timer_ready = True, timer_lock = False, \<dots> = e\<rparr>"

lemma timers_at_ok: "tq_ok (timers_at now e) []" "\<not> timer_lock (timers_at now e)"
  by (simp_all add: tq_ok_def timers_at_def idle_timer_def)

definition one_due :: "u32 list timers_scheme" where
  "one_due = (timers_at 5 [])\<lparr>tobj := (\<lambda>_. idle_timer)(1 := \<lparr>expires = 5, period = 0, fn = 1, arg = 7,
     active = True, tnext = 0\<rparr>), timer_queue := 1\<rparr>"

lemma one_due_ok: "tq_ok one_due [1]" "\<not> timer_lock one_due" "tick_count one_due = 5"
  by (auto simp: tq_ok_def one_due_def timers_at_def idle_timer_def tnx_def)

section \<open>Timers\<close>

text \<open>Adding a timer (active or not) returns with the timer queued exactly once, at the current
  tick plus its delay (at least one), after every timer that expires no later; the other
  timers keep their order and data, the lock is free again and the interrupt flag is as before.\<close>

theorem timer_add_correct:
  assumes "tq_ok s xs" "\<not> timer_lock s" "t \<noteq> 0"
  shows "\<exists>s' ys zs. timer_add t d s = Some s' \<and> tq_ok s' (ys @ t # zs) \<and>
    ys @ zs = filter (\<lambda>x. x \<noteq> t) xs \<and> (\<forall>y \<in> set ys. expiry s' y \<le> expiry s' t) \<and>
    expiry s' t = tick_count s + (if d \<noteq> 0 then d else 1) \<and>
    (\<forall>q. q \<noteq> t \<longrightarrow> expiry s' q = expiry s q) \<and> \<not> timer_lock s' \<and> iflag s' = iflag s"
proof (rule timer_add_spec[OF assms, of d])
  fix s' ys zs
  assume "timer_add t d s = Some s'" "tq_ok s' (ys @ t # zs)" "ys @ zs = filter (\<lambda>x. x \<noteq> t) xs"
    "expiry s' t = tick_count s + (if d \<noteq> 0 then d else 1)" "\<And>q. q \<noteq> t \<Longrightarrow> expiry s' q = expiry s q"
    "\<And>y. y \<in> set ys \<Longrightarrow> expiry s' y \<le> expiry s' t" "quiet s s'"
  then show ?thesis using assms(2) unfolding quiet_def by blast
qed

theorem timer_add_correct_witness:
  "\<exists>s'. timer_add 7 20 (timers_at 1000 ()) = Some s' \<and> tq_ok s' [7] \<and> expiry s' 7 = 1020"
  using timer_add_correct[OF timers_at_ok, of 7 20 1000 "()"] by (auto simp: timers_at_def)

text \<open>\<open>timer_cancel\<close> returns 0 exactly when the timer was queued, and then takes exactly that
  timer out of the queue; otherwise it returns -1 and leaves the queue as it was.\<close>

theorem timer_cancel_correct:
  assumes "tq_ok s xs" "\<not> timer_lock s" "t \<noteq> 0"
  shows "\<exists>r s'. timer_cancel t s = Some (r, s') \<and> r = (if t \<in> set xs then 0 else - 1) \<and>
    tq_ok s' (filter (\<lambda>x. x \<noteq> t) xs) \<and> \<not> active (tobj s' t) \<and> \<not> timer_lock s' \<and> iflag s' = iflag s"
  by (rule timer_cancel_spec[OF assms]) (use assms(2) in \<open>auto simp: quiet_def\<close>)

theorem timer_cancel_correct_witness:
  "\<exists>s'. timer_cancel 1 one_due = Some (0, s') \<and> tq_ok s' []"
  using timer_cancel_correct[OF one_due_ok(1,2), of 1] by auto



definition wrap_run :: "(u32 \<Rightarrow> u32 \<Rightarrow> unit \<Rightarrow> unit) \<Rightarrow> (bool \<times> bool \<times> u32) option" where
  "wrap_run g = (case timer_add 1 8 (timers_at 0xFFFFFFF0 ()) of None \<Rightarrow> None
    | Some s1 \<Rightarrow> (case timer_add 2 32 s1 of None \<Rightarrow> None
      | Some s2 \<Rightarrow> (case timer_tick (client_call g) (s2\<lparr>tick_count := 0xFFFFFFF8\<rparr>) of
          Some (Inr s3) \<Rightarrow> Some (due 0xFFFFFFF8 (expiry s2 1), active (tobj s3 1), timer_queue s3)
        | _ \<Rightarrow> None)))"

lemma wrap_run_eval: "wrap_run g = Some (True, True, 2)"
  by code_simp


text \<open>\<open>MS_TO_TICKS\<close> rounds up to whole ticks of 10 ms for delays up to 42,949,662 ms (about 11.9
  hours); at 50,000,000 ms the product wraps and the result is 705,033 ticks instead of
  5,000,000.\<close>

theorem ms_to_ticks_exact:
  "(\<forall>ms. unat ms \<le> 42949662 \<longrightarrow> unat (ms_to_ticks ms) = (unat ms + 9) div 10) \<and>
   unat (ms_to_ticks 50000000) = 705033"
proof (intro conjI allI impI)
  fix ms :: u32 assume "unat ms \<le> 42949662"
  then have "unat (ms * 100 + 999) = unat ms * 100 + 999"
    by (simp add: unat_word_ariths)
  then have "unat ((ms * 100 + 999) div 1000) = (unat ms * 100 + 999) div 1000"
    by (simp add: unat_div)
  also have "\<dots> = (unat ms * 100 + 999) div 100 div 10" by (simp flip: div_mult2_eq)
  also have "(unat ms * 100 + 999) div 100 = unat ms + 9" by simp
  finally show "unat (ms_to_ticks ms) = (unat ms + 9) div 10" by (simp add: ms_to_ticks_def PIT_HZ_def)
qed (simp add: ms_to_ticks_def PIT_HZ_def)

theorem ms_to_ticks_exact_witness: "unat (ms_to_ticks 25) = 3"
  using ms_to_ticks_exact by (auto dest: spec[of _ 25])

text \<open>\<open>sleep_ticks\<close> with an interrupt per tick returns after exactly the requested number of
  ticks, also across the wrap of the counter, and with interrupts enabled.\<close>

theorem sleep_ticks_exact:
  assumes "unat ticks < 2 ^ 31" "ticks \<noteq> 0"
  shows "sleep_ticks count_irq ticks s = Some (s\<lparr>tick_count := tick_count s + ticks, iflag := True\<rparr>)"
proof -
  have "sleep_loop count_irq (tick_count s + ticks) s =
      Some (if unat ticks = 0 then s else s\<lparr>tick_count := tick_count s + ticks, iflag := False\<rparr>)"
    using assms(1) by (intro sleep_loop_count) simp_all
  moreover have "unat ticks \<noteq> 0" using assms(2) by (simp add: unat_eq_0)
  ultimately show ?thesis using assms(2) by (simp add: sleep_ticks_def sti_def)
qed

theorem sleep_ticks_exact_witness:
  "sleep_ticks count_irq 10 (timers_at 0xFFFFFFFA ()) =
    Some ((timers_at 0xFFFFFFFA ())\<lparr>tick_count := 4, iflag := True\<rparr>)"
  using sleep_ticks_exact[of 10 "timers_at 0xFFFFFFFA ()"] by (simp add: timers_at_def)

section \<open>Shutdown\<close>

definition shutdown_at :: "u32 \<Rightarrow> shutdown" where
  "shutdown_at now = timers_at now \<lparr>sd_active = False, sd_mode = SHUTDOWN_POWEROFF, sd_deadline = 0,
     sd_msg = [], \<dots> = ()\<rparr>"

lemma shutdown_at_ok: "sd_ok (shutdown_at now) []"
  using timers_at_ok by (simp add: sd_ok_def shutdown_at_def timers_at_def)

text \<open>Scheduling a shutdown, from any sound state, leaves exactly one shutdown pending, with its
  one-shot timer queued once at the current tick plus the delay and no port written; and
  cancelling it takes the timer out again, so nothing is pending.\<close>

theorem schedule_cancel_shutdown:
  assumes ok: "sd_ok s xs"
  shows "\<exists>s1 s2 ys zs. schedule_shutdown mode ms msg s = Some s1 \<and> sd_ok s1 ys \<and>
    shutdown_is_pending s1 \<and> sd_mode s1 = mode \<and> set ys = insert SD_TIMER (set xs) \<and>
    expiry s1 SD_TIMER = tick_count s + (if ms_to_ticks ms \<noteq> 0 then ms_to_ticks ms else 1) \<and>
    cancel_shutdown s1 = Some s2 \<and> sd_ok s2 zs \<and> \<not> shutdown_is_pending s2 \<and>
    SD_TIMER \<notin> set zs \<and> port_out s2 = port_out s"
proof -
  obtain s1 ys where s1: "schedule_shutdown mode ms msg s = Some s1" "sd_ok s1 ys" "sd_active s1"
    "sd_mode s1 = mode" "set ys = insert SD_TIMER (set xs)"
    "expiry s1 SD_TIMER = tick_count s + (if ms_to_ticks ms \<noteq> 0 then ms_to_ticks ms else 1)"
    "port_out s1 = port_out s"
    using schedule_shutdown_spec[OF ok, of mode ms msg] by metis
  obtain s2 where s2: "cancel_shutdown s1 = Some s2" "sd_ok s2 (filter (\<lambda>x. x \<noteq> SD_TIMER) ys)"
    "\<not> sd_active s2" "port_out s2 = port_out s1"
    using cancel_shutdown_spec[OF s1(2)] by metis
  show ?thesis
    using s1 s2 by (intro exI[of _ s1] exI[of _ s2] exI[of _ ys] exI[of _ "filter (\<lambda>x. x \<noteq> SD_TIMER) ys"])
      (simp add: shutdown_is_pending_def)
qed

theorem schedule_cancel_shutdown_witness:
  "\<exists>s1 s2. schedule_shutdown SHUTDOWN_REBOOT 1000 None (shutdown_at 50) = Some s1 \<and>
    shutdown_is_pending s1 \<and> cancel_shutdown s1 = Some s2 \<and> \<not> shutdown_is_pending s2"
  using schedule_cancel_shutdown[OF shutdown_at_ok, of SHUTDOWN_REBOOT 1000 None 50] by blast

text \<open>When the shutdown timer is the due head of the queue, the tick prints the message, writes the
  three power-off ports in order and halts with interrupts off; it never returns to the
  caller, and the shutdown is no longer pending.\<close>

theorem shutdown_powers_off:
  assumes ok: "sd_ok s (SD_TIMER # xs)" and mode: "sd_mode s = SHUTDOWN_POWEROFF"
    and due: "due (tick_count s) (expiry s SD_TIMER)"
  shows "\<exists>s'. timer_tick shutdown_call s = Some (Inl s') \<and> \<not> iflag s' \<and> \<not> sd_active s' \<and>
    port_out s' = port_out s @ [(0x604, 0x2000), (0xB004, 0x2000), (0x8900, 0x2000)] \<and>
    console s' = console s @ [Viprint (newline @ ''System going down: ''), Viprint (sd_msg s), Viprint newline]"
proof -
  let ?s = "s\<lparr>iflag := False, timer_lock := True\<rparr>"
  have q: "tq_ok s (SD_TIMER # xs)" "\<not> timer_lock s" "sd_active s" "fn (tobj s SD_TIMER) = SHUTDOWN_FIRE"
    "period (tobj s SD_TIMER) = 0"
    using ok by (auto simp: sd_ok_def)
  have q': "tq_ok ?s (SD_TIMER # xs)" using q(1) by (subst tq_ok_cong[of _ s]) simp_all
  have head: "timer_queue s = SD_TIMER" using q(1) by (simp add: tq_ok_def)
  obtain s1 where s1: "pop_expired (tick_count s) ?s = Some (SD_TIMER, s1)" "quiet ?s s1" "same_static ?s s1"
    using pop_expired_spec[OF q', of "tick_count s"] by metis
  let ?r = "lock_release (iflag s) s1"
  have fn1: "fn (tobj ?r SD_TIMER) = SHUTDOWN_FIRE" using s1(3) q(4) by (simp add: same_static_def)
  have "timers.more ?r = timers.more s" using s1(2) by (simp add: quiet_def)
  note m = shutdown_more[OF this]
  have act: "sd_active ?r" "sd_mode ?r = SHUTDOWN_POWEROFF" using m q(3) mode by simp_all
  have outs: "port_out ?r = port_out s" "console ?r = console s" using s1(2) by (simp_all add: quiet_def)
  define s' where "s' = hw_poweroff (viprint newline (viprint (sd_msg ?r)
      (viprint (newline @ ''System going down: '') (?r\<lparr>sd_active := False\<rparr>))))"
  have msg: "sd_msg (viprint t u) = sd_msg u" for t and u :: "'a shutdown_scheme"
    by (simp add: con_def)
  have call: "shutdown_call SHUTDOWN_FIRE a ?r = Some (Inl s')" for a
    using act m(3) by (simp add: shutdown_call_def shutdown_fire_def s'_def Let_def con_def)
  have "timer_tick shutdown_call s = tick_loop shutdown_call (tick_count s) (iflag s) ?s"
    using q(2) by (simp add: timer_tick_def locked_state pit_get_tick_count_def)
  also have "\<dots> = Some (Inl s')"
    using s1(1) head due fn1 call by (subst tick_loop.simps) (simp add: Let_def SHUTDOWN_FIRE_def)
  finally have "timer_tick shutdown_call s = Some (Inl s')" .
  moreover have "\<not> iflag s'" "\<not> sd_active s'" by (simp_all add: s'_def hw_poweroff_def cli_def con_def outw_def)
  moreover have "port_out s' = port_out s @ [(0x604, 0x2000), (0xB004, 0x2000), (0x8900, 0x2000)]"
    using outs by (simp add: s'_def hw_poweroff_def cli_def con_def outw_def)
  moreover have "console s' = console s @ [Viprint (newline @ ''System going down: ''), Viprint (sd_msg s), Viprint newline]"
    using outs m(3) by (simp add: s'_def hw_poweroff_def cli_def con_def outw_def)
  ultimately show ?thesis by blast
qed

definition shutdown_due :: shutdown where
  "shutdown_due = (shutdown_at 5)\<lparr>tobj := (\<lambda>_. idle_timer)(1 := \<lparr>expires = 5, period = 0,
     fn = SHUTDOWN_FIRE, arg = 0, active = True, tnext = 0\<rparr>), timer_queue := 1, sd_active := True\<rparr>"

theorem shutdown_powers_off_witness:
  "\<exists>s'. timer_tick shutdown_call shutdown_due = Some (Inl s') \<and>
    port_out s' = [(0x604, 0x2000), (0xB004, 0x2000), (0x8900, 0x2000)]"
proof -
  have "sd_ok shutdown_due [SD_TIMER]" "sd_mode shutdown_due = SHUTDOWN_POWEROFF"
    "due (tick_count shutdown_due) (expiry shutdown_due SD_TIMER)" "port_out shutdown_due = []"
    by (auto simp: sd_ok_def tq_ok_def shutdown_due_def shutdown_at_def timers_at_def SD_TIMER_def
        idle_timer_def tnx_def)
  with shutdown_powers_off[of shutdown_due "[]"] show ?thesis by auto
qed

end
