(* ===== verification/Pmm.thy ===== *)
theory Pmm
  imports Machine
begin

text \<open>
  The physical page allocator of \<open>kernel/pmm.c\<close>: a stack of free pages, a bitmap with a bit
  per free frame that catches double frees, and a count. The bitmap has 1025 words, so an
  operation on a page whose frame number is 32800 or more leaves the array; such an access is
  the fault \<open>OutOfBounds\<close>.

  The locale \<open>frame_allocator\<close> states what the page allocator promises its clients.
\<close>

section \<open>State\<close>

abbreviation PAGE_SIZE :: u32 where "PAGE_SIZE \<equiv> 4096"
abbreviation MAX_FRAMES :: nat where "MAX_FRAMES \<equiv> 32768"
abbreviation BITMAP_WORDS :: nat where "BITMAP_WORDS \<equiv> 1025"

record pmm = machine +
  pmm_bitmap :: "nat \<Rightarrow> u32"
  free_stack :: "nat \<Rightarrow> u32"
  stack_top :: nat
  total_frames :: u32
  free_page_count :: u32

section \<open>Operations\<close>

definition page_to_index :: "u32 \<Rightarrow> nat" where
  "page_to_index page = unat (page div PAGE_SIZE)"

definition bitmap_set :: "nat \<Rightarrow> 'a pmm_scheme \<Rightarrow> 'a pmm_scheme checked" where
  "bitmap_set index s =
     (if index div 32 < BITMAP_WORDS then
        Inr (s\<lparr>pmm_bitmap := (pmm_bitmap s)(index div 32 :=
          pmm_bitmap s (index div 32) OR push_bit (index mod 32) 1)\<rparr>)
      else Inl OutOfBounds)"

definition bitmap_clear :: "nat \<Rightarrow> 'a pmm_scheme \<Rightarrow> 'a pmm_scheme checked" where
  "bitmap_clear index s =
     (if index div 32 < BITMAP_WORDS then
        Inr (s\<lparr>pmm_bitmap := (pmm_bitmap s)(index div 32 :=
          pmm_bitmap s (index div 32) AND NOT (push_bit (index mod 32) 1))\<rparr>)
      else Inl OutOfBounds)"

definition bitmap_test :: "nat \<Rightarrow> 'a pmm_scheme \<Rightarrow> bool checked" where
  "bitmap_test index s =
     (if index div 32 < BITMAP_WORDS then
        Inr (pmm_bitmap s (index div 32) AND push_bit (index mod 32) 1 \<noteq> 0)
      else Inl OutOfBounds)"

definition pmm_init :: "u32 \<Rightarrow> 'a pmm_scheme \<Rightarrow> 'a pmm_scheme" where
  "pmm_init total_memory s =
     (let s = s\<lparr>total_frames := total_memory div PAGE_SIZE, stack_top := 0, free_page_count := 0,
            pmm_bitmap := (\<lambda>i. if i < BITMAP_WORDS then 0 else pmm_bitmap s i)\<rparr>;
          s = viprint ''PMM (stack + bitmap): total_frames='' s;
          s = hexprint (total_frames s) s
      in viprint newline s)"

definition pmm_alloc_page :: "'a pmm_scheme \<Rightarrow> (u32 \<times> 'a pmm_scheme) checked" where
  "pmm_alloc_page s =
     (if stack_top s = 0 then Inr (0, s)
      else
        let s = s\<lparr>stack_top := stack_top s - 1\<rparr>;
            page = free_stack s (stack_top s)
        in chk_bind (bitmap_clear (page_to_index page) s) (\<lambda>s.
             Inr (page, if 0 < free_page_count s then s\<lparr>free_page_count := free_page_count s - 1\<rparr> else s)))"

definition pmm_free_page :: "u32 \<Rightarrow> 'a pmm_scheme \<Rightarrow> 'a pmm_scheme checked" where
  "pmm_free_page page s =
     (let index = page_to_index page in
      chk_bind (bitmap_test index s) (\<lambda>already.
        if already then
          Inr (viprint newline (hexprint page (viprint ''PMM: double free at '' s)))
        else if MAX_FRAMES \<le> stack_top s then
          Inr (viprint (''PMM free stack overflow!'' @ newline) s)
        else
          let s = s\<lparr>free_stack := (free_stack s)(stack_top s := page), stack_top := stack_top s + 1\<rparr> in
          chk_bind (bitmap_set index s) (\<lambda>s.
            Inr (s\<lparr>free_page_count := free_page_count s + 1\<rparr>))))"

definition pmm_get_free_page_count :: "'a pmm_scheme \<Rightarrow> u32" where
  "pmm_get_free_page_count s = free_page_count s"

definition pmm_is_page_free :: "u32 \<Rightarrow> 'a pmm_scheme \<Rightarrow> bool checked" where
  "pmm_is_page_free page s = bitmap_test (page_to_index page) s"

section \<open>The invariant\<close>

text \<open>\<open>pages s\<close>: the free pages, bottom of the stack first.\<close>

definition pages :: "'a pmm_scheme \<Rightarrow> u32 list" where
  "pages s = map (free_stack s) [0..<stack_top s]"

definition frame_bit :: "'a pmm_scheme \<Rightarrow> nat \<Rightarrow> bool" where
  "frame_bit s i \<longleftrightarrow> bit (pmm_bitmap s (i div 32)) (i mod 32)"

definition pmm_ok :: "'a pmm_scheme \<Rightarrow> bool" where
  "pmm_ok s \<longleftrightarrow> distinct (map page_to_index (pages s)) \<and>
     (\<forall>p \<in> set (pages s). page_to_index p < 32 * BITMAP_WORDS) \<and>
     (\<forall>i < 32 * BITMAP_WORDS. frame_bit s i \<longleftrightarrow> i \<in> page_to_index ` set (pages s)) \<and>
     stack_top s \<le> MAX_FRAMES \<and> free_page_count s = of_nat (stack_top s)"

lemma bitmap_test_bit: "i < 32 * BITMAP_WORDS \<Longrightarrow> bitmap_test i s = Inr (frame_bit s i)"
  using and_single_bit[where w = "pmm_bitmap s (i div 32)" and n = "i mod 32"]
  by (simp add: bitmap_test_def frame_bit_def less_mult_imp_div_less mult.commute)

lemma bitmap_set_bit:
  assumes "i < 32 * BITMAP_WORDS"
  obtains m where "bitmap_set i s = Inr (s\<lparr>pmm_bitmap := m\<rparr>)"
    "\<And>j. frame_bit (s\<lparr>pmm_bitmap := m\<rparr>) j \<longleftrightarrow> j = i \<or> frame_bit s j"
proof -
  let ?m = "(pmm_bitmap s)(i div 32 := pmm_bitmap s (i div 32) OR push_bit (i mod 32) 1)"
  have "bitmap_set i s = Inr (s\<lparr>pmm_bitmap := ?m\<rparr>)"
    using assms by (simp add: bitmap_set_def less_mult_imp_div_less mult.commute)
  moreover have "frame_bit (s\<lparr>pmm_bitmap := ?m\<rparr>) j \<longleftrightarrow> j = i \<or> frame_bit s j" for j
  proof (cases "j div 32 = i div 32")
    case True
    then have "j mod 32 = i mod 32 \<longleftrightarrow> j = i" by (metis div_mult_mod_eq)
    with True show ?thesis by (auto simp: frame_bit_def bit_simps)
  next
    case False
    then show ?thesis by (auto simp: frame_bit_def)
  qed
  ultimately show thesis by (rule that)
qed

lemma bitmap_clear_bit:
  assumes "i < 32 * BITMAP_WORDS"
  obtains m where "bitmap_clear i s = Inr (s\<lparr>pmm_bitmap := m\<rparr>)"
    "\<And>j. frame_bit (s\<lparr>pmm_bitmap := m\<rparr>) j \<longleftrightarrow> j \<noteq> i \<and> frame_bit s j"
proof -
  let ?m = "(pmm_bitmap s)(i div 32 := pmm_bitmap s (i div 32) AND NOT (push_bit (i mod 32) 1))"
  have "bitmap_clear i s = Inr (s\<lparr>pmm_bitmap := ?m\<rparr>)"
    using assms by (simp add: bitmap_clear_def less_mult_imp_div_less mult.commute)
  moreover have "frame_bit (s\<lparr>pmm_bitmap := ?m\<rparr>) j \<longleftrightarrow> j \<noteq> i \<and> frame_bit s j" for j
  proof (cases "j div 32 = i div 32")
    case True
    then have "j mod 32 = i mod 32 \<longleftrightarrow> j = i" by (metis div_mult_mod_eq)
    with True show ?thesis by (auto simp: frame_bit_def bit_simps)
  next
    case False
    then show ?thesis by (auto simp: frame_bit_def)
  qed
  ultimately show thesis by (rule that)
qed

lemma pmm_init_ok: "pmm_ok (pmm_init n s)" "pages (pmm_init n s) = []"
proof -
  have sel: "stack_top (pmm_init n s) = 0" "free_page_count (pmm_init n s) = 0"
    "pmm_bitmap (pmm_init n s) = (\<lambda>i. if i < BITMAP_WORDS then 0 else pmm_bitmap s i)"
    by (simp_all add: pmm_init_def Let_def con_def)
  then show "pages (pmm_init n s) = []" by (simp add: pages_def)
  with sel show "pmm_ok (pmm_init n s)"
    by (simp add: pmm_ok_def frame_bit_def less_mult_imp_div_less mult.commute)
qed

lemma pages_cong:
  "stack_top s' = stack_top s \<Longrightarrow> free_stack s' = free_stack s \<Longrightarrow> pages s' = pages s"
  by (simp add: pages_def)

lemma pages_push:
  "pages (s\<lparr>free_stack := (free_stack s)(stack_top s := p), stack_top := stack_top s + 1\<rparr>) = pages s @ [p]"
  by (simp add: pages_def)

lemma pages_pop: "0 < stack_top s \<Longrightarrow>
  pages s = pages (s\<lparr>stack_top := stack_top s - 1\<rparr>) @ [free_stack s (stack_top s - 1)]"
  by (cases "stack_top s") (simp_all add: pages_def)

lemma length_pages: "length (pages s) = stack_top s"
  by (simp add: pages_def)

lemma pmm_alloc_spec:
  assumes ok: "pmm_ok s"
  shows "pages s = [] \<and> pmm_alloc_page s = Inr (0, s) \<or>
    (\<exists>p s'. pmm_alloc_page s = Inr (p, s') \<and> pages s = pages s' @ [p] \<and> pmm_ok s')"
proof (cases "stack_top s = 0")
  case True
  then show ?thesis by (simp add: pmm_alloc_page_def pages_def)
next
  case False
  let ?s = "s\<lparr>stack_top := stack_top s - 1\<rparr>" and ?p = "free_stack s (stack_top s - 1)"
  have split: "pages s = pages ?s @ [?p]" using pages_pop[of s] False by simp
  have i: "page_to_index ?p < 32 * BITMAP_WORDS" using ok split by (simp add: pmm_ok_def)
  obtain m where m: "bitmap_clear (page_to_index ?p) ?s = Inr (?s\<lparr>pmm_bitmap := m\<rparr>)"
    "\<And>j. frame_bit (?s\<lparr>pmm_bitmap := m\<rparr>) j \<longleftrightarrow> j \<noteq> page_to_index ?p \<and> frame_bit ?s j"
    using bitmap_clear_bit[OF i, of ?s] by blast
  let ?s' = "?s\<lparr>pmm_bitmap := m, free_page_count := free_page_count s - 1\<rparr>"
  have count: "0 < free_page_count s"
    using ok False by (simp add: pmm_ok_def word_gt_0 of_nat_eq_0_iff unat_of_nat word_unat_eq_iff)
  have run: "pmm_alloc_page s = Inr (?p, ?s')"
    using False m(1) count by (simp add: pmm_alloc_page_def Let_def)
  have pg: "pages ?s' = pages ?s" by (rule pages_cong) simp_all
  have fb: "frame_bit ?s' j \<longleftrightarrow> j \<noteq> page_to_index ?p \<and> frame_bit s j" for j
    using m(2)[of j] by (simp add: frame_bit_def)
  have "pmm_ok ?s'"
    using ok split False unfolding pmm_ok_def pg fb
    by (auto simp: of_nat_diff) (metis image_eqI)
  with run split pg show ?thesis by auto
qed

lemma pmm_free_spec:
  assumes ok: "pmm_ok s" and i: "page_to_index p < 32 * BITMAP_WORDS"
  obtains s' where "pmm_free_page p s = Inr s'" "pmm_ok s'"
    "pages s' = (if page_to_index p \<in> page_to_index ` set (pages s) \<or> MAX_FRAMES \<le> length (pages s)
       then pages s else pages s @ [p])"
proof -
  let ?i = "page_to_index p"
  have t: "bitmap_test ?i s = Inr (?i \<in> page_to_index ` set (pages s))"
    using bitmap_test_bit[OF i, of s] ok i by (simp add: pmm_ok_def)
  have con: "pages (con e u) = pages u" "pmm_ok (con e u) = pmm_ok u" for e and u :: "'a pmm_scheme"
    by (simp_all add: pages_def pmm_ok_def frame_bit_def con_def)
  show thesis
  proof (cases "?i \<in> page_to_index ` set (pages s) \<or> MAX_FRAMES \<le> stack_top s")
    case True
    let ?msg = "if ?i \<in> page_to_index ` set (pages s)
      then viprint newline (hexprint p (viprint ''PMM: double free at '' s))
      else viprint (''PMM free stack overflow!'' @ newline) s"
    have "pmm_free_page p s = Inr ?msg" using True t
      by (cases "?i \<in> page_to_index ` set (pages s)") (simp_all add: pmm_free_page_def Let_def)
    moreover have "pmm_ok ?msg" "pages ?msg = pages s" using ok con by simp_all
    ultimately show thesis using that True by (simp add: length_pages)
  next
    case False
    let ?s = "s\<lparr>free_stack := (free_stack s)(stack_top s := p), stack_top := stack_top s + 1\<rparr>"
    obtain m where m: "bitmap_set ?i ?s = Inr (?s\<lparr>pmm_bitmap := m\<rparr>)"
      "\<And>j. frame_bit (?s\<lparr>pmm_bitmap := m\<rparr>) j \<longleftrightarrow> j = ?i \<or> frame_bit ?s j"
      using bitmap_set_bit[OF i, of ?s] by blast
    let ?s' = "?s\<lparr>pmm_bitmap := m, free_page_count := free_page_count s + 1\<rparr>"
    have run: "pmm_free_page p s = Inr ?s'" using False m(1) t by (simp add: pmm_free_page_def Let_def)
    have pg: "pages ?s' = pages s @ [p]" by (simp add: pages_def)
    have fb: "frame_bit ?s' j \<longleftrightarrow> j = ?i \<or> frame_bit s j" for j
      using m(2)[of j] by (simp add: frame_bit_def)
    have "pmm_ok ?s'"
      using ok False i unfolding pmm_ok_def pg fb by auto
    with run pg that False show thesis by (simp add: length_pages)
  qed
qed

section \<open>The frame allocator interface\<close>

text \<open>
  What the virtual memory manager relies on: \<open>free s\<close> is the set of frames that may be handed
  out; an allocation returns 0 when there is none and otherwise takes one frame out; a frame given
  back that is not free becomes free; nothing else changes the set.
\<close>

locale frame_allocator =
  fixes alloc :: "'s \<Rightarrow> (u32 \<times> 's) checked"
    and release :: "u32 \<Rightarrow> 's \<Rightarrow> 's checked"
    and ok :: "'s \<Rightarrow> bool"
    and free :: "'s \<Rightarrow> u32 set"
    and room :: "'s \<Rightarrow> bool"
    and valid :: "u32 \<Rightarrow> bool"
  assumes alloc_cases: "ok s \<Longrightarrow> free s = {} \<and> alloc s = Inr (0, s) \<or>
      (\<exists>p s'. alloc s = Inr (p, s') \<and> p \<in> free s \<and> ok s' \<and> free s' = free s - {p})"
    and release_free: "ok s \<Longrightarrow> valid p \<Longrightarrow> room s \<Longrightarrow>
      (\<And>q. q \<in> free s \<Longrightarrow> page_to_index q \<noteq> page_to_index p) \<Longrightarrow>
      \<exists>s'. release p s = Inr s' \<and> ok s' \<and> free s' = insert p (free s)"
    and release_twice: "ok s \<Longrightarrow> valid p \<Longrightarrow> p \<in> free s \<Longrightarrow>
      \<exists>s'. release p s = Inr s' \<and> ok s' \<and> free s' = free s"
    and alloc_room: "ok s \<Longrightarrow> alloc s = Inr (p, s') \<Longrightarrow> p \<in> free s \<Longrightarrow> room s'"
    and free_apart: "ok s \<Longrightarrow> p \<in> free s \<Longrightarrow> q \<in> free s \<Longrightarrow> page_to_index p = page_to_index q \<Longrightarrow> p = q"
    and free_valid: "ok s \<Longrightarrow> p \<in> free s \<Longrightarrow> valid p"
begin

text \<open>A frame that was handed out can be given back, which restores the free set.\<close>

lemma alloc_release:
  assumes ok: "ok s" and some: "free s \<noteq> {}"
  shows "\<exists>p s' s''. alloc s = Inr (p, s') \<and> p \<in> free s \<and> p \<notin> free s' \<and>
    release p s' = Inr s'' \<and> ok s'' \<and> free s'' = free s"
proof -
  obtain p s' where a: "alloc s = Inr (p, s')" "p \<in> free s" "ok s'" "free s' = free s - {p}"
    using alloc_cases[OF ok] some by blast
  have v: "valid p" and r: "room s'" using free_valid[OF ok a(2)] alloc_room[OF ok a(1,2)] by blast+
  have apart: "page_to_index q \<noteq> page_to_index p" if "q \<in> free s'" for q
  proof -
    have "q \<in> free s" "q \<noteq> p" using that unfolding a(4) by simp_all
    with free_apart[OF ok a(2), of q] show ?thesis by metis
  qed
  obtain s'' where s'': "release p s' = Inr s''" "ok s''" "free s'' = insert p (free s')"
    using release_free[OF a(3) v r apart] by blast
  have "free s'' = free s" unfolding s''(3) a(4) using a(2) by (rule insert_Diff)
  moreover have "p \<notin> free s'" unfolding a(4) by simp
  ultimately show ?thesis
    using a(1,2) s''(1,2) by (intro exI[of _ p] exI[of _ s'] exI[of _ s'']) simp
qed

text \<open>Two allocations in a row return different frames.\<close>

lemma alloc_distinct:
  assumes "ok s" "alloc s = Inr (p, s')" "p \<in> free s" "alloc s' = Inr (q, s'')" "q \<in> free s'"
  shows "p \<noteq> q"
  using alloc_cases[OF assms(1)] assms(2-5) by auto

end

lemma pages_index_inj:
  assumes "pmm_ok s" "p \<in> set (pages s)" "q \<in> set (pages s)" "page_to_index p = page_to_index q"
  shows "p = q"
proof -
  have "inj_on page_to_index (set (pages s))" using assms(1) by (simp add: pmm_ok_def distinct_map)
  with assms(2-4) show ?thesis by (simp add: inj_on_eq_iff)
qed

interpretation frames: frame_allocator pmm_alloc_page pmm_free_page pmm_ok "\<lambda>s. set (pages s)"
  "\<lambda>s. length (pages s) < MAX_FRAMES" "\<lambda>p. page_to_index p < 32 * BITMAP_WORDS"
proof unfold_locales
  fix s :: "'a pmm_scheme"
  assume ok: "pmm_ok s"
  show "set (pages s) = {} \<and> pmm_alloc_page s = Inr (0, s) \<or>
      (\<exists>p s'. pmm_alloc_page s = Inr (p, s') \<and> p \<in> set (pages s) \<and> pmm_ok s' \<and>
        set (pages s') = set (pages s) - {p})"
  proof (cases "pages s = []")
    case True
    with pmm_alloc_spec[OF ok] show ?thesis by auto
  next
    case False
    then obtain p s' where a: "pmm_alloc_page s = Inr (p, s')" "pages s = pages s' @ [p]" "pmm_ok s'"
      using pmm_alloc_spec[OF ok] by blast
    have "distinct (pages s)" using ok by (auto simp: pmm_ok_def distinct_map)
    with a show ?thesis by auto
  qed
next
  fix s :: "'a pmm_scheme" and p
  assume "pmm_ok s" "page_to_index p < 32 * BITMAP_WORDS" "length (pages s) < MAX_FRAMES"
    "\<And>q. q \<in> set (pages s) \<Longrightarrow> page_to_index q \<noteq> page_to_index p"
  then show "\<exists>s'. pmm_free_page p s = Inr s' \<and> pmm_ok s' \<and> set (pages s') = insert p (set (pages s))"
    by (elim pmm_free_spec[of s p]) (auto split: if_splits, fastforce)
next
  fix s :: "'a pmm_scheme" and p
  assume "pmm_ok s" "page_to_index p < 32 * BITMAP_WORDS" "p \<in> set (pages s)"
  then show "\<exists>s'. pmm_free_page p s = Inr s' \<and> pmm_ok s' \<and> set (pages s') = set (pages s)"
    by (elim pmm_free_spec[of s p]) auto
next
  fix s s' :: "'a pmm_scheme" and p
  assume ok: "pmm_ok s" and a: "pmm_alloc_page s = Inr (p, s')" and p: "p \<in> set (pages s)"
  have "pages s = pages s' @ [p]" using pmm_alloc_spec[OF ok] a p by auto
  then show "length (pages s') < MAX_FRAMES" using ok length_pages[of s] by (auto simp: pmm_ok_def)
qed (auto intro: pages_index_inj simp: pmm_ok_def)

end
