(* ===== verification/Vmm.thy ===== *)
theory Vmm
  imports Pmm CString
begin

text \<open>
  The virtual memory manager \<open>cpu/vmm.c\<close>: page directory and page tables are words in
  (identity-mapped) physical memory, and a missing page table is allocated from the page
  allocator and cleared. The hardware's page walk is the specification the mappings are
  stated against.
\<close>

section \<open>The code\<close>

record vmm = pmm +
  vmem :: mem
  current_page_directory :: u32

definition vmm_init :: "u32 \<Rightarrow> 'a vmm_scheme \<Rightarrow> 'a vmm_scheme" where
  "vmm_init page_dir s = s\<lparr>current_page_directory := page_dir\<rparr>"

abbreviation pd_index :: "u32 \<Rightarrow> u32" where "pd_index virt \<equiv> drop_bit 22 virt"
abbreviation pt_index :: "u32 \<Rightarrow> u32" where "pt_index virt \<equiv> drop_bit 12 virt AND 0x3FF"

definition map_page :: "u32 \<Rightarrow> u32 \<Rightarrow> u32 \<Rightarrow> 'a vmm_scheme \<Rightarrow> (bool \<times> 'a vmm_scheme) checked" where
  "map_page virt phys flags s =
     (let page_dir = current_page_directory s;
          entry = page_dir + 4 * pd_index virt
      in chk_bind
           (if load32 (vmem s) entry AND 1 = 0 then
              chk_bind (pmm_alloc_page s) (\<lambda>(new_pt, s).
                if new_pt = 0 then Inr (False, s)
                else
                  let m = snd (memset new_pt 0 PAGE_SIZE (vmem s))
                  in Inr (True, s\<lparr>vmem := store32 m entry (new_pt OR (flags AND 0xFFF) OR 1)\<rparr>))
            else Inr (True, s))
           (\<lambda>(ready, s).
              if \<not> ready then Inr (False, s)
              else
                let page_table = load32 (vmem s) entry AND NOT 0xFFF
                in Inr (True, s\<lparr>vmem := store32 (vmem s) (page_table + 4 * pt_index virt) (phys OR flags OR 1)\<rparr>)))"

definition unmap_page :: "u32 \<Rightarrow> 'a vmm_scheme \<Rightarrow> 'a vmm_scheme" where
  "unmap_page virt s = s"

definition is_mapped :: "u32 \<Rightarrow> 'a vmm_scheme \<Rightarrow> bool" where
  "is_mapped virt s =
     (let page_dir = current_page_directory s;
          entry = load32 (vmem s) (page_dir + 4 * pd_index virt)
      in if entry AND 1 = 0 then False
         else load32 (vmem s) ((entry AND NOT 0xFFF) + 4 * pt_index virt) AND 1 \<noteq> 0)"

section \<open>The page walk\<close>

text \<open>What the processor does with an address: the page table entry, if both levels are present.\<close>

definition walk :: "mem \<Rightarrow> u32 \<Rightarrow> u32 \<Rightarrow> u32 option" where
  "walk m dir virt =
     (let pde = load32 m (dir + 4 * pd_index virt) in
      if pde AND 1 = 0 then None
      else let pte = load32 m ((pde AND NOT 0xFFF) + 4 * pt_index virt) in
        if pte AND 1 = 0 then None else Some pte)"

lemma is_mapped_walk: "is_mapped virt s \<longleftrightarrow> walk (vmem s) (current_page_directory s) virt \<noteq> None"
  by (simp add: is_mapped_def walk_def Let_def)

section \<open>Addresses inside frames\<close>

abbreviation frame_aligned :: "u32 \<Rightarrow> bool" where
  "frame_aligned a \<equiv> take_bit 12 a = 0"

lemma slot_offset:
  assumes "unat i < 1024" "unat j < 4"
  shows "take_bit 12 (4 * i + j :: u32) = 4 * i + j"
proof -
  have "unat (4 * i) = 4 * unat i" using assms(1) by (simp add: unat_word_ariths)
  then have "unat (4 * i + j) < 4096" using assms unat_add_le[of "4 * i" j] by linarith
  then show ?thesis by (intro take_bit_small) simp
qed

lemma slot_frame:
  assumes "frame_aligned t" "unat i < 1024" "unat j < 4"
  shows "drop_bit 12 (t + 4 * i + j) = drop_bit 12 t"
  using drop_bit_offset[OF assms(1) slot_offset[OF assms(2,3)]] by (simp add: add.assoc)

lemma slot_aligned:
  assumes "frame_aligned t" "unat i < 1024"
  shows "word_aligned (t + 4 * i)"
proof -
  have off: "take_bit 12 (4 * i) = 4 * i" using slot_offset[of i 0] assms(2) by simp
  have "4 * i = push_bit 2 i" by (simp add: push_bit_eq_mult)
  then have four: "take_bit 2 (4 * i) = 0" by (simp only:) (rule bit_word_eqI, auto simp: bit_simps)
  have "take_bit 12 (t + 4 * i) = 4 * i" by (rule take_bit_offset[OF assms(1) off])
  then have "take_bit 2 (take_bit 12 (t + 4 * i)) = 0" using four by simp
  then show ?thesis by (simp add: take_bit_take_bit)
qed

lemma slot_eq:
  assumes "frame_aligned t" "frame_aligned u" "unat i < 1024" "unat j < 1024"
  shows "t + 4 * i = u + 4 * j \<longleftrightarrow> t = u \<and> i = j"
proof -
  have "4 * i = 4 * j \<longleftrightarrow> i = j"
  proof
    assume "4 * i = 4 * j"
    moreover have "unat (4 * i) = 4 * unat i" "unat (4 * j) = 4 * unat j"
      using assms(3,4) by (simp_all add: unat_word_ariths)
    ultimately show "i = j" by (metis mult_cancel_left unsigned_word_eqI zero_neq_numeral)
  qed simp
  moreover have "take_bit 12 (4 * i) = 4 * i" "take_bit 12 (4 * j) = 4 * j"
    using slot_offset[of i 0] slot_offset[of j 0] assms(3,4) by simp_all
  ultimately show ?thesis using aligned_offset_eq[of 12 t u "4 * i" "4 * j"] assms(1,2) by simp
qed

lemma index_small: "unat (pd_index v) < 1024" "unat (pt_index v) < 1024"
proof -
  have "unat v < 2 ^ 32" using unsigned_less[of v, where ?'a = nat] by simp
  then show "unat (pd_index v) < 1024"
    by (simp add: drop_bit_eq_div unat_div less_mult_imp_div_less)
  have "(0x3FF :: u32) = mask 10" by (simp add: mask_eq_exp_minus_1)
  then have "pt_index v = take_bit 10 (drop_bit 12 v)" by (simp add: take_bit_eq_mask)
  then show "unat (pt_index v) < 1024"
    using take_bit_nat_less_exp[of 10 "unat (drop_bit 12 v)"] by (simp add: unsigned_take_bit_eq)
qed

lemma page_index_eq:
  "pd_index v = pd_index w \<and> pt_index v = pt_index w \<longleftrightarrow> drop_bit 12 v = drop_bit 12 w"
proof
  assume "drop_bit 12 v = drop_bit 12 w"
  moreover have "pd_index x = drop_bit 10 (drop_bit 12 x)" for x :: u32 by simp
  ultimately show "pd_index v = pd_index w \<and> pt_index v = pt_index w" by metis
next
  have m: "(0x3FF :: u32) = mask 10" by (simp add: mask_eq_exp_minus_1)
  assume eq: "pd_index v = pd_index w \<and> pt_index v = pt_index w"
  have "drop_bit 12 x = push_bit 10 (pd_index x) + take_bit 10 (drop_bit 12 x)" for x :: u32
    using bits_ident[of 10 "drop_bit 12 x"] by simp
  with eq show "drop_bit 12 v = drop_bit 12 w" unfolding m by (metis take_bit_eq_mask)
qed

section \<open>The mapping invariant\<close>

text \<open>
  The directory and the page tables are distinct frames, none of which the page allocator
  still holds; free frames are aligned and frame 0 is not among them.
\<close>

abbreviation pde_at :: "mem \<Rightarrow> u32 \<Rightarrow> u32 \<Rightarrow> u32" where
  "pde_at m dir i \<equiv> load32 m (dir + 4 * i)"

abbreviation table_of :: "u32 \<Rightarrow> u32" where
  "table_of e \<equiv> e AND NOT 0xFFF"

definition tables_ok :: "mem \<Rightarrow> u32 \<Rightarrow> u32 set \<Rightarrow> bool" where
  "tables_ok m dir F \<longleftrightarrow> frame_aligned dir \<and> dir \<notin> F \<and> 0 \<notin> F \<and> (\<forall>p \<in> F. frame_aligned p) \<and>
     (\<forall>i. unat i < 1024 \<longrightarrow> pde_at m dir i AND 1 \<noteq> 0 \<longrightarrow>
        table_of (pde_at m dir i) \<noteq> dir \<and> table_of (pde_at m dir i) \<notin> F \<and>
        (\<forall>j. unat j < 1024 \<longrightarrow> pde_at m dir j AND 1 \<noteq> 0 \<longrightarrow>
           table_of (pde_at m dir i) = table_of (pde_at m dir j) \<longrightarrow> i = j))"

definition vmm_ok :: "'a vmm_scheme \<Rightarrow> bool" where
  "vmm_ok s \<longleftrightarrow> pmm_ok s \<and> tables_ok (vmem s) (current_page_directory s) (set (pages s))"

lemma table_of_aligned: "frame_aligned (table_of e)"
proof -
  have m: "(0xFFF :: u32) = mask 12" by (simp add: mask_eq_exp_minus_1)
  show ?thesis unfolding m by (rule bit_word_eqI) (auto simp: bit_simps)
qed

lemma table_of_entry:
  assumes "frame_aligned p"
  shows "table_of (p OR (f AND 0xFFF) OR 1) = p"
proof -
  have m: "(0xFFF :: u32) = mask 12" by (simp add: mask_eq_exp_minus_1)
  have low: "\<not> bit p k" if "k < 12" for k
    using assms that by (metis bit_0_eq bit_take_bit_iff bot_apply bot_bool_def)
  show ?thesis unfolding m by (rule bit_word_eqI) (auto simp: bit_simps low)
qed

lemma present_entry [simp]: "(p OR f OR 1) AND (1 :: u32) \<noteq> 0"
proof -
  have "bit ((p OR f OR 1) AND 1 :: u32) 0" by (simp add: bit_simps)
  then show ?thesis by (metis bit_0_eq bot_apply bot_bool_def)
qed

text \<open>A store in one table is not seen in another, nor in another slot.\<close>

lemma load_other_slot:
  assumes "frame_aligned t" "frame_aligned u" "unat i < 1024" "unat j < 1024" "t \<noteq> u \<or> i \<noteq> j"
  shows "load32 (store32 m (t + 4 * i) v) (u + 4 * j) = load32 m (u + 4 * j)"
  using assms slot_eq[of t u i j] by (intro load32_store32_other slot_aligned) auto

text \<open>Clearing a frame empties its slots and leaves the other frames alone.\<close>

lemma cleared_frame: "snd (memset p 0 PAGE_SIZE m) = (\<lambda>x. if x \<in> payload p 4096 then 0 else m x)"
proof
  fix x
  have "ucast (0 :: u32) = (0 :: u8)" by simp
  then show "snd (memset p 0 PAGE_SIZE m) x = (if x \<in> payload p 4096 then 0 else m x)"
    unfolding memset_effect by simp
qed

lemma load_cleared:
  assumes "frame_aligned p" "frame_aligned t" "unat i < 1024"
  shows "load32 (snd (memset p 0 PAGE_SIZE m)) (t + 4 * i) = (if t = p then 0 else load32 m (t + 4 * i))"
proof -
  have inp: "t + 4 * i + j \<in> payload p 4096 \<longleftrightarrow> t = p" if "unat j < 4" for j
  proof -
    have "t + 4 * i + j \<in> payload p 4096 \<longleftrightarrow> drop_bit 12 (t + 4 * i + j) = drop_bit 12 p"
      using same_block_iff_diff[OF assms(1), of "t + 4 * i + j"] by (simp add: payload_def)
    also have "\<dots> \<longleftrightarrow> drop_bit 12 t = drop_bit 12 p" using slot_frame[OF assms(2,3) that] by simp
    also have "\<dots> \<longleftrightarrow> t = p"
      using assms(1,2) bits_ident[of 12 t] bits_ident[of 12 p] by (metis add.right_neutral)
    finally show ?thesis .
  qed
  show ?thesis
    using inp[of 0] inp[of 1] inp[of 2] inp[of 3] unfolding cleared_frame
    by (cases "t = p") (simp_all add: load32_def)
qed

lemma tables_okD:
  assumes "tables_ok m dir F"
  shows "frame_aligned dir" "dir \<notin> F" "0 \<notin> F" "p \<in> F \<Longrightarrow> frame_aligned p"
    "unat i < 1024 \<Longrightarrow> pde_at m dir i AND 1 \<noteq> 0 \<Longrightarrow> table_of (pde_at m dir i) \<noteq> dir"
    "unat i < 1024 \<Longrightarrow> pde_at m dir i AND 1 \<noteq> 0 \<Longrightarrow> table_of (pde_at m dir i) \<notin> F"
    "unat i < 1024 \<Longrightarrow> pde_at m dir i AND 1 \<noteq> 0 \<Longrightarrow> unat j < 1024 \<Longrightarrow> pde_at m dir j AND 1 \<noteq> 0 \<Longrightarrow>
      table_of (pde_at m dir i) = table_of (pde_at m dir j) \<Longrightarrow> i = j"
  using assms unfolding tables_ok_def by blast+

lemma tables_ok_cong:
  assumes "tables_ok m dir F" "\<And>i. unat i < 1024 \<Longrightarrow> pde_at m' dir i = pde_at m dir i"
  shows "tables_ok m' dir F"
  using assms unfolding tables_ok_def by simp

lemma write_entry:
  assumes ok: "tables_ok m dir F" and pres: "pde_at m dir (pd_index virt) AND 1 \<noteq> 0" and v: "v AND 1 \<noteq> 0"
  defines "m' \<equiv> store32 m (table_of (pde_at m dir (pd_index virt)) + 4 * pt_index virt) v"
  shows "tables_ok m' dir F" and "walk m' dir virt = Some v"
    and "drop_bit 12 w \<noteq> drop_bit 12 virt \<Longrightarrow> walk m' dir w = walk m dir w"
proof -
  let ?t = "table_of (pde_at m dir (pd_index virt))"
  note al = table_of_aligned[of "pde_at m dir (pd_index virt)"] tables_okD(1)[OF ok]
  have ne: "?t \<noteq> dir" by (rule tables_okD(5)[OF ok index_small(1) pres])
  have pde: "pde_at m' dir i = pde_at m dir i" if "unat i < 1024" for i
    unfolding m'_def using al that index_small(2)[of virt] ne by (intro load_other_slot) simp_all
  show "tables_ok m' dir F" using ok pde by (rule tables_ok_cong)
  have "load32 m' (?t + 4 * pt_index virt) = v" by (simp add: m'_def mem_simps)
  then show "walk m' dir virt = Some v"
    using pde[OF index_small(1)[of virt]] pres v by (simp add: walk_def Let_def)
  assume other: "drop_bit 12 w \<noteq> drop_bit 12 virt"
  show "walk m' dir w = walk m dir w"
  proof (cases "pde_at m dir (pd_index w) AND 1 = 0")
    case True
    then show ?thesis using pde[OF index_small(1)[of w]] by (simp add: walk_def Let_def)
  next
    case False
    let ?u = "table_of (pde_at m dir (pd_index w))"
    have "?t \<noteq> ?u \<or> pt_index virt \<noteq> pt_index w"
      using tables_okD(7)[OF ok index_small(1)[of virt] pres index_small(1)[of w] False] other
        page_index_eq[of w virt] by metis
    then have "load32 m' (?u + 4 * pt_index w) = load32 m (?u + 4 * pt_index w)"
      unfolding m'_def using al(1) table_of_aligned index_small by (intro load_other_slot) simp_all
    then show ?thesis using pde[OF index_small(1)[of w]] by (simp add: walk_def Let_def)
  qed
qed

lemma new_table:
  assumes ok: "tables_ok m dir F" and p: "p \<in> F" and i: "unat i < 1024" and absent: "pde_at m dir i AND 1 = 0"
    and e: "table_of e = p" "e AND 1 \<noteq> 0"
  defines "m' \<equiv> store32 (snd (memset p 0 PAGE_SIZE m)) (dir + 4 * i) e"
  shows "tables_ok m' dir (F - {p})" and "pde_at m' dir i = e" and "walk m' dir w = walk m dir w"
proof -
  have al: "frame_aligned p" "frame_aligned dir" and ne: "dir \<noteq> p" "p \<noteq> 0"
    using tables_okD(1-4)[OF ok] p by auto
  show at_i: "pde_at m' dir i = e" by (simp add: m'_def mem_simps)
  have pde: "pde_at m' dir j = pde_at m dir j" if "unat j < 1024" "j \<noteq> i" for j
    unfolding m'_def using load_other_slot[OF al(2,2) i that(1)] load_cleared[OF al(1,2) that(1)] that(2) ne
    by simp
  have pres: "j = i \<or> pde_at m dir j AND 1 \<noteq> 0" if "pde_at m' dir j AND 1 \<noteq> 0" "unat j < 1024" for j
    using that pde by metis
  have tab: "table_of (pde_at m' dir j) \<noteq> dir \<and> table_of (pde_at m' dir j) \<notin> F - {p}"
    if "unat j < 1024" "pde_at m' dir j AND 1 \<noteq> 0" for j
    using that pde[of j] at_i e(1) ne tables_okD(5,6)[OF ok, of j] by (cases "j = i") auto
  have inj: "j = k" if "unat j < 1024" "pde_at m' dir j AND 1 \<noteq> 0" "unat k < 1024" "pde_at m' dir k AND 1 \<noteq> 0"
    "table_of (pde_at m' dir j) = table_of (pde_at m' dir k)" for j k
  proof -
    have old: "table_of (pde_at m dir l) \<noteq> p" if "unat l < 1024" "pde_at m dir l AND 1 \<noteq> 0" for l
      using tables_okD(6)[OF ok that] p by auto
    show ?thesis
      using that pde[of j] pde[of k] at_i e(1) old[of j] old[of k] tables_okD(7)[OF ok, of j k]
      by (cases "j = i"; cases "k = i") auto
  qed
  show "tables_ok m' dir (F - {p})"
    unfolding tables_ok_def using tables_okD(1-4)[OF ok] tab inj by auto
  show "walk m' dir w = walk m dir w"
  proof (cases "pd_index w = i")
    case True
    have "load32 m' (p + 4 * pt_index w) = 0"
      unfolding m'_def using load_other_slot[OF al(2,1) i index_small(2)[of w]] ne
        load_cleared[OF al(1,1) index_small(2)[of w]] by simp
    then show ?thesis using True at_i e absent by (simp add: walk_def Let_def)
  next
    case False
    note same = pde[OF index_small(1)[of w] False]
    show ?thesis
    proof (cases "pde_at m dir (pd_index w) AND 1 = 0")
      case True
      then show ?thesis using same by (simp add: walk_def Let_def)
    next
      case pre: False
      let ?u = "table_of (pde_at m dir (pd_index w))"
      have u: "?u \<noteq> dir" "?u \<noteq> p"
        using tables_okD(5,6)[OF ok index_small(1) pre] p by auto
      then have "load32 m' (?u + 4 * pt_index w) = load32 m (?u + 4 * pt_index w)"
        unfolding m'_def
        using load_other_slot[OF al(2) table_of_aligned i index_small(2)[of w]]
          load_cleared[OF al(1) table_of_aligned index_small(2)[of w]] by simp
      then show ?thesis using same by (simp add: walk_def Let_def)
    qed
  qed
qed

end
