(* ===== verification/Vmm_Spec.thy ===== *)
theory Vmm_Spec
  imports Vmm
begin

text \<open>
  The properties of physical and virtual memory management: the page allocator never hands
  out a frame twice and reports double frees, and a mapping made with \<open>map_page\<close> is what
  the page walk finds, with every other page mapped as before.
\<close>

section \<open>The page allocator under its extensions\<close>

lemma alloc_more: "pmm_alloc_page s = Inr (p, s') \<Longrightarrow> pmm.more s' = pmm.more s"
  by (auto simp: pmm_alloc_page_def chk_bind_Inr bitmap_clear_def Let_def split: if_splits)

lemma vmm_more:
  fixes s s' :: "'a vmm_scheme"
  assumes "pmm.more s' = pmm.more s"
  shows "vmem s' = vmem s" "current_page_directory s' = current_page_directory s"
  using assms by (cases s, cases s', simp)+

lemma pages_vmem [simp]: "pages (s\<lparr>vmem := m\<rparr>) = pages s" "pmm_ok (s\<lparr>vmem := m\<rparr>) = pmm_ok s"
  by (simp_all add: pages_def pmm_ok_def frame_bit_def)

section \<open>map_page\<close>

lemma map_present:
  assumes ok: "vmm_ok s" and pres: "pde_at (vmem s) (current_page_directory s) (pd_index virt) AND 1 \<noteq> 0"
  obtains s' where "map_page virt phys flags s = Inr (True, s')" "vmm_ok s'" "pages s' = pages s"
    "current_page_directory s' = current_page_directory s"
    "walk (vmem s') (current_page_directory s) virt = Some (phys OR flags OR 1)"
    "\<And>w. drop_bit 12 w \<noteq> drop_bit 12 virt \<Longrightarrow>
      walk (vmem s') (current_page_directory s) w = walk (vmem s) (current_page_directory s) w"
proof -
  let ?d = "current_page_directory s" and ?v = "phys OR flags OR 1"
  let ?m = "store32 (vmem s) (table_of (pde_at (vmem s) ?d (pd_index virt)) + 4 * pt_index virt) ?v"
  have t: "tables_ok (vmem s) ?d (set (pages s))" using ok by (simp add: vmm_ok_def)
  note w = write_entry[OF t pres present_entry]
  have run: "map_page virt phys flags s = Inr (True, s\<lparr>vmem := ?m\<rparr>)"
    using pres by (simp add: map_page_def Let_def)
  show thesis using w ok by (intro that[OF run]) (simp_all add: vmm_ok_def)
qed

lemma map_page_cases:
  assumes ok: "vmm_ok s"
  obtains "map_page virt phys flags s = Inr (False, s)" "pages s = []"
      "walk (vmem s) (current_page_directory s) virt = None"
  | s' where "map_page virt phys flags s = Inr (True, s')" "vmm_ok s'" "set (pages s') \<subseteq> set (pages s)"
      "current_page_directory s' = current_page_directory s"
      "walk (vmem s') (current_page_directory s) virt = Some (phys OR flags OR 1)"
      "\<And>w. drop_bit 12 w \<noteq> drop_bit 12 virt \<Longrightarrow>
        walk (vmem s') (current_page_directory s) w = walk (vmem s) (current_page_directory s) w"
proof (cases "pde_at (vmem s) (current_page_directory s) (pd_index virt) AND 1 = 0")
  case False
  show thesis
  proof (rule map_present[OF ok False, of phys flags])
    fix s'
    assume "map_page virt phys flags s = Inr (True, s')" "vmm_ok s'" "pages s' = pages s"
      "current_page_directory s' = current_page_directory s"
      "walk (vmem s') (current_page_directory s) virt = Some (phys OR flags OR 1)"
      "\<And>w. drop_bit 12 w \<noteq> drop_bit 12 virt \<Longrightarrow>
        walk (vmem s') (current_page_directory s) w = walk (vmem s) (current_page_directory s) w"
    then show thesis by (intro that(2)[of s']) simp_all
  qed
next
  case True
  let ?d = "current_page_directory s" and ?i = "pd_index virt"
  have t: "tables_ok (vmem s) ?d (set (pages s))" and pok: "pmm_ok s" using ok by (simp_all add: vmm_ok_def)
  from frames.alloc_cases[OF pok] show thesis
  proof (elim disjE exE conjE)
    assume 1: "set (pages s) = {}" "pmm_alloc_page s = Inr (0, s)"
    then have "map_page virt phys flags s = Inr (False, s)" using True by (simp add: map_page_def Let_def)
    moreover have "walk (vmem s) ?d virt = None" using True by (simp add: walk_def)
    ultimately show thesis using that(1) 1(1) by simp
  next
    fix p s1
    assume 2: "pmm_alloc_page s = Inr (p, s1)" "p \<in> set (pages s)" "pmm_ok s1"
      "set (pages s1) = set (pages s) - {p}"
    have p: "frame_aligned p" "p \<noteq> 0" using tables_okD(3,4)[OF t] 2(2) by auto
    note more = vmm_more[OF alloc_more[OF 2(1)]]
    let ?e = "p OR (flags AND 0xFFF) OR 1"
    let ?m = "store32 (snd (memset p 0 PAGE_SIZE (vmem s))) (?d + 4 * ?i) ?e"
    let ?s2 = "s1\<lparr>vmem := ?m\<rparr>"
    note n = new_table[OF t 2(2) index_small(1) True table_of_entry[OF p(1), of flags]
        present_entry[of p "flags AND 0xFFF"]]
    have ok2: "vmm_ok ?s2" using n(1) 2(3,4) more(2) by (simp add: vmm_ok_def)
    have pres: "pde_at (vmem ?s2) (current_page_directory ?s2) ?i AND 1 \<noteq> 0"
      using n(2) more(2) by simp
    have step: "map_page virt phys flags s = map_page virt phys flags ?s2"
      using True 2(1) p(2) more pres by (simp add: map_page_def Let_def)
    obtain s' where s': "map_page virt phys flags ?s2 = Inr (True, s')" "vmm_ok s'" "pages s' = pages ?s2"
      "current_page_directory s' = current_page_directory ?s2"
      "walk (vmem s') (current_page_directory ?s2) virt = Some (phys OR flags OR 1)"
      "\<And>w. drop_bit 12 w \<noteq> drop_bit 12 virt \<Longrightarrow>
        walk (vmem s') (current_page_directory ?s2) w = walk (vmem ?s2) (current_page_directory ?s2) w"
      using map_present[OF ok2 pres, of phys flags] by blast
    have "set (pages s') \<subseteq> set (pages s)" using s'(3) 2(4) by auto
    with s' step more(2) n(3) show thesis by (intro that(2)[of s']) simp_all
  qed
qed

section \<open>Properties\<close>

definition boot_pmm :: pmm where
  "boot_pmm = pmm_init 0x100000 \<lparr>console = [], port_out = [], port_in = (\<lambda>_ _. 0), port_reads = (\<lambda>_. 0),
     iflag = False, pmm_bitmap = (\<lambda>_. 0), free_stack = (\<lambda>_. 0), stack_top = 0, total_frames = 0,
     free_page_count = 0\<rparr>"

lemma boot_pmm_ok: "pmm_ok boot_pmm" "pages boot_pmm = []"
  by (simp_all add: boot_pmm_def pmm_init_ok)

text \<open>The page allocator keeps its stack, bitmap and count consistent: an allocation pops the
  page freed last, which is then not free any more, or returns \<open>NULL\<close> exactly when no page is
  free; the reported number of free pages is the number of pages on the stack.\<close>

theorem pmm_alloc_correct:
  assumes "pmm_ok s"
  shows "(pages s = [] \<and> pmm_alloc_page s = Inr (0, s) \<or>
      (\<exists>p s'. pmm_alloc_page s = Inr (p, s') \<and> pages s = pages s' @ [p] \<and> pmm_ok s' \<and>
        pmm_is_page_free p s' = Inr False)) \<and>
    unat (pmm_get_free_page_count s) = length (pages s)"
proof
  show "unat (pmm_get_free_page_count s) = length (pages s)"
    using assms by (simp add: pmm_get_free_page_count_def length_pages pmm_ok_def unat_of_nat)
  show "pages s = [] \<and> pmm_alloc_page s = Inr (0, s) \<or>
      (\<exists>p s'. pmm_alloc_page s = Inr (p, s') \<and> pages s = pages s' @ [p] \<and> pmm_ok s' \<and>
        pmm_is_page_free p s' = Inr False)"
  proof (cases "pages s = []")
    case True
    with pmm_alloc_spec[OF assms] show ?thesis by auto
  next
    case False
    then obtain p s' where a: "pmm_alloc_page s = Inr (p, s')" "pages s = pages s' @ [p]" "pmm_ok s'"
      using pmm_alloc_spec[OF assms] by blast
    have i: "page_to_index p < 32 * BITMAP_WORDS" using assms a(2) by (simp add: pmm_ok_def)
    have "page_to_index p \<notin> page_to_index ` set (pages s')" using assms a(2) by (auto simp: pmm_ok_def)
    then have "\<not> frame_bit s' (page_to_index p)" using a(3) i by (simp add: pmm_ok_def)
    then have "pmm_is_page_free p s' = Inr False"
      using bitmap_test_bit[OF i, of s'] by (simp add: pmm_is_page_free_def)
    with a show ?thesis by blast
  qed
qed

theorem pmm_alloc_correct_witness: "pmm_alloc_page boot_pmm = Inr (0, boot_pmm)"
  using pmm_alloc_correct[OF boot_pmm_ok(1)] boot_pmm_ok(2) by auto

text \<open>Freeing a page of a frame below the bitmap's end pushes it and keeps the allocator
  consistent; freeing it again (or a page of the same frame) changes nothing but the message
  on the screen; and a page allocated and freed again leaves the same set of free pages.\<close>

theorem pmm_free_correct:
  assumes "pmm_ok s" "page_to_index p < 32800" "length (pages s) < MAX_FRAMES"
    and "page_to_index p \<notin> page_to_index ` set (pages s)"
  shows "\<exists>s1 s2. pmm_free_page p s = Inr s1 \<and> pmm_ok s1 \<and> pages s1 = pages s @ [p] \<and>
    pmm_free_page p s1 = Inr s2 \<and> pmm_ok s2 \<and> pages s2 = pages s1 \<and>
    (\<exists>q s3 s4. pmm_alloc_page s1 = Inr (q, s3) \<and> pmm_free_page q s3 = Inr s4 \<and> set (pages s4) = set (pages s1))"
proof -
  have i: "page_to_index p < 32 * BITMAP_WORDS" using assms(2) by simp
  obtain s1 where s1: "pmm_free_page p s = Inr s1" "pmm_ok s1" "pages s1 = pages s @ [p]"
    using pmm_free_spec[OF assms(1) i] assms(3,4) by (metis not_le)
  obtain s2 where s2: "pmm_free_page p s1 = Inr s2" "pmm_ok s2" "pages s2 = pages s1"
    by (rule pmm_free_spec[OF s1(2) i]) (use s1(3) in auto)
  have "set (pages s1) \<noteq> {}" using s1(3) by simp
  from frames.alloc_release[OF s1(2) this] show ?thesis using s1 s2 by blast
qed

theorem pmm_free_correct_witness:
  "\<exists>s1 s2. pmm_free_page 0x5000 boot_pmm = Inr s1 \<and> pages s1 = [0x5000] \<and>
    pmm_free_page 0x5000 s1 = Inr s2 \<and> pages s2 = [0x5000]"
  using pmm_free_correct[OF boot_pmm_ok(1), of "0x5000"] boot_pmm_ok(2) by (auto simp: page_to_index_def)


definition boot_vmm :: vmm where
  "boot_vmm = pmm.extend boot_pmm \<lparr>vmem = (\<lambda>_. 0), current_page_directory = 0x1000, \<dots> = ()\<rparr>"

lemma boot_vmm_ok: "vmm_ok boot_vmm"
proof -
  have "pages boot_vmm = []" "pmm_ok boot_vmm"
    using boot_pmm_ok by (simp_all add: boot_vmm_def pages_def pmm_ok_def frame_bit_def pmm.defs)
  moreover have "load32 (\<lambda>_. 0) a = 0" for a by (simp add: load32_def)
  ultimately show ?thesis by (simp add: vmm_ok_def tables_ok_def boot_vmm_def pmm.defs)
qed


end
