(* ===== verification/Multiboot.thy ===== *)
theory Multiboot
  imports Vmm_Spec
begin

text \<open>
  The boot memory map of \<open>kernel/multiboot.c\<close>: the loader's entries are read from memory, the
  available lengths are added up, and every page of an available area that is not part of the
  kernel image is given to the page allocator. The end of the kernel image is the linker symbol
  \<open>_kernel_end\<close>, the parameter \<open>kend\<close>. \<open>None\<close> stands for the endless halt without a memory
  map, and for a walk that never reaches the end of the map.
\<close>

record multiboot = vmm +
  mem_map_addr :: u32
  mem_map_length :: u32

abbreviation "mbi_flags m p \<equiv> load32 m p"
abbreviation "mbi_mmap_length m p \<equiv> load32 m (p + 44)"
abbreviation "mbi_mmap_addr m p \<equiv> load32 m (p + 48)"

abbreviation "mmap_size m p \<equiv> load32 m p"
abbreviation "mmap_base m p \<equiv> load32 m (p + 4)"
abbreviation "mmap_len m p \<equiv> load32 m (p + 12)"
abbreviation "mmap_type m p \<equiv> load32 m (p + 20)"

partial_function (option) sum_available :: "mem \<Rightarrow> u32 \<Rightarrow> u32 \<Rightarrow> u32 \<Rightarrow> u32 option" where
  "sum_available m mmap end_addr tot =
     (if mmap < end_addr then
        sum_available m (mmap + mmap_size m mmap + 4) end_addr
          (if mmap_type m mmap = 1 then tot + mmap_len m mmap else tot)
      else Some tot)"

partial_function (option) free_range :: "u32 \<Rightarrow> u32 \<Rightarrow> u32 \<Rightarrow> 'a pmm_scheme \<Rightarrow> 'a pmm_scheme checked option" where
  "free_range kend addr stop s =
     (if addr < stop then
        (if 0x100000 \<le> addr \<and> addr < kend then free_range kend (addr + PAGE_SIZE) stop s
         else case pmm_free_page addr s of
             Inl e \<Rightarrow> Some (Inl e)
           | Inr s \<Rightarrow> free_range kend (addr + PAGE_SIZE) stop s)
      else Some (Inr s))"

partial_function (option) free_available ::
  "u32 \<Rightarrow> mem \<Rightarrow> u32 \<Rightarrow> u32 \<Rightarrow> 'a pmm_scheme \<Rightarrow> 'a pmm_scheme checked option" where
  "free_available kend m mmap end_addr s =
     (if mmap < end_addr then
        (case (if mmap_type m mmap = 1
               then free_range kend (mmap_base m mmap) (mmap_base m mmap + mmap_len m mmap) s
               else Some (Inr s)) of
           None \<Rightarrow> None
         | Some (Inl e) \<Rightarrow> Some (Inl e)
         | Some (Inr s) \<Rightarrow> free_available kend m (mmap + mmap_size m mmap + 4) end_addr s)
      else Some (Inr s))"

declare sum_available.simps [code] free_range.simps [code] free_available.simps [code]

definition parse_multiboot_info :: "u32 \<Rightarrow> u32 \<Rightarrow> 'a multiboot_scheme \<Rightarrow> 'a multiboot_scheme checked option" where
  "parse_multiboot_info kend mbi s =
     (if \<not> bit (mbi_flags (vmem s) mbi) 6 then None
      else
        let s = s\<lparr>mem_map_addr := mbi_mmap_addr (vmem s) mbi, mem_map_length := mbi_mmap_length (vmem s) mbi\<rparr>;
            end_addr = mem_map_addr s + mem_map_length s
        in case sum_available (vmem s) (mem_map_addr s) end_addr 0 of None \<Rightarrow> None
           | Some tot \<Rightarrow>
               let s = pmm_init tot s;
                   s = viprint newline (hexprint kend (viprint ''Kernel physical end: 0x'' s))
               in case free_available kend (vmem s) (mem_map_addr s) end_addr s of
                    None \<Rightarrow> None
                  | Some (Inl e) \<Rightarrow> Some (Inl e)
                  | Some (Inr s) \<Rightarrow>
                      let s = viprint ''PMM: free pages after init: '' s;
                          s = hexprint (pmm_get_free_page_count s) s;
                          s = viprint newline s
                      in Some (Inr (viprint (''Memory map parsed.'' @ newline) s)))"

partial_function (option) print_entries :: "mem \<Rightarrow> u32 \<Rightarrow> u32 \<Rightarrow> 'a machine_scheme \<Rightarrow> 'a machine_scheme option" where
  "print_entries m mmap end_addr s =
     (if mmap < end_addr then
        let s = hexprint (mmap_base m mmap) (viprint ''  Base: '' s);
            s = hexprint (mmap_len m mmap) (viprint ''  Length: '' s);
            s = viprint ''  Type: '' s;
            s = (if mmap_type m mmap = 1 then viprint (''Available'' @ newline) s
                 else viprint (''Reserved'' @ newline) s)
        in print_entries m (mmap + mmap_size m mmap + 4) end_addr s
      else Some s)"

definition print_memory_map :: "'a multiboot_scheme \<Rightarrow> 'a multiboot_scheme option" where
  "print_memory_map s =
     (if mem_map_addr s = 0 then Some (viprint (''No memory map available.'' @ newline) s)
      else print_entries (vmem s) (mem_map_addr s) (mem_map_addr s + mem_map_length s)
             (viprint (''Memory Map:'' @ newline) s))"

section \<open>The kernel's own pages are never given out\<close>

definition outside_kernel :: "u32 \<Rightarrow> 'a pmm_scheme \<Rightarrow> bool" where
  "outside_kernel kend s \<longleftrightarrow> pmm_ok s \<and> (\<forall>p \<in> set (pages s). \<not> (0x100000 \<le> p \<and> p < kend))"

lemma free_page_in_range:
  assumes "pmm_free_page p s = Inr s'"
  shows "page_to_index p < 32 * BITMAP_WORDS"
proof (rule ccontr)
  assume "\<not> page_to_index p < 32 * BITMAP_WORDS"
  then have "\<not> page_to_index p div 32 < BITMAP_WORDS" by (simp add: not_less less_eq_div_iff_mult_less_eq)
  with assms show False by (simp add: pmm_free_page_def bitmap_test_def Let_def)
qed

lemma free_page_outside:
  assumes "outside_kernel kend s" "\<not> (0x100000 \<le> p \<and> p < kend)" "pmm_free_page p s = Inr s'"
  shows "outside_kernel kend s'"
proof -
  obtain s1 where "pmm_free_page p s = Inr s1" "pmm_ok s1" "set (pages s1) \<subseteq> insert p (set (pages s))"
    using pmm_free_spec[OF _ free_page_in_range[OF assms(3)], of s] assms(1)
    unfolding outside_kernel_def by (metis Un_insert_right empty_set list.simps(15) set_append subset_insertI subset_refl sup_bot_right)
  with assms show ?thesis by (auto simp: outside_kernel_def)
qed

lemma free_range_outside:
  assumes "free_range kend addr stop s = Some r"
  shows "outside_kernel kend s \<longrightarrow> (\<forall>s'. r = Inr s' \<longrightarrow> outside_kernel kend s')"
proof (rule free_range.raw_induct[OF _ assms])
  fix fr and kend addr stop :: u32 and s :: "'a pmm_scheme" and r
  assume IH: "\<And>kend addr stop s r. fr kend addr stop s = Some r \<Longrightarrow>
      outside_kernel kend s \<longrightarrow> (\<forall>s'. r = Inr s' \<longrightarrow> outside_kernel kend s')"
    and body: "(if addr < stop then
        (if 0x100000 \<le> addr \<and> addr < kend then fr kend (addr + PAGE_SIZE) stop s
         else case pmm_free_page addr s of
             Inl e \<Rightarrow> Some (Inl e)
           | Inr s \<Rightarrow> fr kend (addr + PAGE_SIZE) stop s)
      else Some (Inr s)) = Some r"
  consider "\<not> addr < stop" | "addr < stop" "0x100000 \<le> addr \<and> addr < kend"
    | "addr < stop" "\<not> (0x100000 \<le> addr \<and> addr < kend)" by blast
  then show "outside_kernel kend s \<longrightarrow> (\<forall>s'. r = Inr s' \<longrightarrow> outside_kernel kend s')"
  proof cases
    case 1
    with body show ?thesis by auto
  next
    case 2
    with body have "fr kend (addr + PAGE_SIZE) stop s = Some r" by simp
    then show ?thesis by (rule IH)
  next
    case 3
    show ?thesis
    proof (cases "pmm_free_page addr s")
      case (Inl e)
      with 3 body show ?thesis by (auto split: if_splits)
    next
      case (Inr s1)
      with 3 body have "fr kend (addr + PAGE_SIZE) stop s1 = Some r" by (simp split: if_splits)
      from IH[OF this] free_page_outside[OF _ 3(2) Inr] show ?thesis by blast
    qed
  qed
qed

lemma free_available_outside:
  assumes "free_available kend m mmap e s = Some r"
  shows "outside_kernel kend s \<longrightarrow> (\<forall>s'. r = Inr s' \<longrightarrow> outside_kernel kend s')"
proof (rule free_available.raw_induct[OF _ assms])
  fix fa and kend mmap e :: u32 and m :: mem and s :: "'a pmm_scheme" and r
  let ?area = "\<lambda>s. if mmap_type m mmap = 1
      then free_range kend (mmap_base m mmap) (mmap_base m mmap + mmap_len m mmap) s else Some (Inr s)"
  assume IH: "\<And>kend m mmap e s r. fa kend m mmap e s = Some r \<Longrightarrow>
      outside_kernel kend s \<longrightarrow> (\<forall>s'. r = Inr s' \<longrightarrow> outside_kernel kend s')"
    and body: "(if mmap < e then
        (case ?area s of None \<Rightarrow> None | Some (Inl f) \<Rightarrow> Some (Inl f)
         | Some (Inr s) \<Rightarrow> fa kend m (mmap + mmap_size m mmap + 4) e s)
      else Some (Inr s)) = Some r"
  show "outside_kernel kend s \<longrightarrow> (\<forall>s'. r = Inr s' \<longrightarrow> outside_kernel kend s')"
  proof (cases "mmap < e")
    case False
    with body show ?thesis by auto
  next
    case True
    have area: "outside_kernel kend s \<Longrightarrow> ?area s = Some (Inr s1) \<Longrightarrow> outside_kernel kend s1" for s1
      using free_range_outside[of kend "mmap_base m mmap" "mmap_base m mmap + mmap_len m mmap" s "Inr s1"]
      by (cases "mmap_type m mmap = 1") auto
    obtain q where q: "?area s = Some q" using True body by (cases "?area s") simp_all
    show ?thesis
    proof (cases q)
      case (Inl f)
      then have "r = Inl f" using True body unfolding q by simp
      then show ?thesis by simp
    next
      case (Inr s1)
      then have "fa kend m (mmap + mmap_size m mmap + 4) e s1 = Some r" using True body unfolding q by simp
      from IH[OF this] area[of s1] q Inr show ?thesis by blast
    qed
  qed
qed

section \<open>Properties\<close>

text \<open>C9: Whatever the loader's memory map says, if parsing it completes, the page allocator is
  consistent and no page of the kernel image is among the free pages.\<close>

theorem parse_multiboot_keeps_kernel:
  assumes "parse_multiboot_info kend mbi s = Some (Inr s')"
  shows "pmm_ok s' \<and> (\<forall>p \<in> set (pages s'). \<not> (0x100000 \<le> p \<and> p < kend))"
proof -
  have con: "outside_kernel k (con e u) = outside_kernel k u" for k e and u :: "'a multiboot_scheme"
    by (simp add: outside_kernel_def pages_def pmm_ok_def frame_bit_def con_def)
  have init: "outside_kernel k (pmm_init n u)" for k n and u :: "'a multiboot_scheme"
    by (simp add: outside_kernel_def pmm_init_ok)
  from assms obtain tot e u s1 where r: "free_available kend (vmem u) (mem_map_addr u) e u = Some (Inr s1)"
    "outside_kernel kend u" "s' = viprint (''Memory map parsed.'' @ newline) (viprint newline
      (hexprint (pmm_get_free_page_count (viprint ''PMM: free pages after init: '' s1))
        (viprint ''PMM: free pages after init: '' s1)))"
    unfolding parse_multiboot_info_def Let_def
    by (auto simp: con init split: if_splits option.splits sum.splits)
  then have "outside_kernel kend s1" using free_available_outside[OF r(1)] by blast
  then have "outside_kernel kend s'" unfolding r(3) by (simp only: con)
  then show ?thesis by (simp add: outside_kernel_def)
qed

text \<open>A loader's information block with one available area of two pages.\<close>

definition sample_map :: mem where
  "sample_map = (\<lambda>a. if a = 256 then 64 else if a = 300 then 24 else if a = 305 then 2
     else if a = 512 then 20 else if a = 517 then 80 else if a = 525 then 32 else if a = 532 then 1 else 0)"

definition sample_boot :: multiboot where
  "sample_boot = vmm.extend (pmm.extend boot_pmm \<lparr>vmem = sample_map, current_page_directory = 0x1000, \<dots> = ()\<rparr>)
     \<lparr>mem_map_addr = 0, mem_map_length = 0\<rparr>"

lemma sample_boot_run:
  "(case parse_multiboot_info 0x200000 256 sample_boot of
      Some (Inr s') \<Rightarrow> pages s' = [0x5000, 0x6000] | _ \<Rightarrow> False)"
  by code_simp

theorem parse_multiboot_keeps_kernel_witness:
  "\<exists>s'. parse_multiboot_info 0x200000 256 sample_boot = Some (Inr s') \<and> pages s' = [0x5000, 0x6000] \<and> pmm_ok s'"
proof -
  obtain s' where "parse_multiboot_info 0x200000 256 sample_boot = Some (Inr s')" "pages s' = [0x5000, 0x6000]"
    using sample_boot_run by (simp split: option.splits sum.splits)
  with parse_multiboot_keeps_kernel[of "0x200000" 256 sample_boot s'] show ?thesis by blast
qed

end
