(* ===== verification/Paging.thy ===== *)
theory Paging
  imports Vmm
begin

text \<open>
  The boot page tables of \<open>cpu/paging.c\<close>: sixteen tables that map the first 64 MiB onto
  themselves. The addresses of the statically allocated directory and tables are chosen by the
  linker and are parameters here.
\<close>

record paging = vmm +
  cr0 :: u32
  cr3 :: u32

definition FILL_PT :: "u32 \<Rightarrow> u32 \<Rightarrow> mem \<Rightarrow> mem" where
  "FILL_PT pt base_mb m =
     fold (\<lambda>i m. store32 m (pt + 4 * of_nat i) ((base_mb * 0x100000 + of_nat i * 4096) OR 3)) [0..<1024] m"

definition paging_init :: "u32 \<Rightarrow> (nat \<Rightarrow> u32) \<Rightarrow> 'a paging_scheme \<Rightarrow> 'a paging_scheme" where
  "paging_init page_directory pt s =
     (let m = fold (\<lambda>k. FILL_PT (pt k) (of_nat (4 * k))) [0..<16] (vmem s);
          m = snd (memset page_directory 0 4096 m);
          m = fold (\<lambda>k m. store32 m (page_directory + 4 * of_nat k) (pt k OR 3)) [0..<16] m
      in s\<lparr>vmem := m, cr3 := page_directory, cr0 := cr0 s OR 0x80000000\<rparr>)"

section \<open>Loops that fill a table\<close>

lemma fold_slots:
  assumes "frame_aligned t" "n \<le> 1024"
  shows "frame_aligned u \<Longrightarrow> unat j < 1024 \<Longrightarrow>
    load32 (fold (\<lambda>i m. store32 m (t + 4 * of_nat i) (e i)) [0..<n] m) (u + 4 * j) =
      (if u = t \<and> unat j < n then e (unat j) else load32 m (u + 4 * j))"
  using assms(2)
proof (induction n)
  case 0
  then show ?case by simp
next
  case (Suc n)
  let ?m = "fold (\<lambda>i m. store32 m (t + 4 * of_nat i) (e i)) [0..<n] m"
  have n: "unat (of_nat n :: u32) = n" using Suc.prems(3) by (simp add: unat_of_nat)
  show ?case
  proof (cases "u = t \<and> j = of_nat n")
    case True
    then show ?thesis using n by (simp add: mem_simps)
  next
    case False
    then have "load32 (store32 ?m (t + 4 * of_nat n) (e n)) (u + 4 * j) = load32 ?m (u + 4 * j)"
      using assms(1) Suc.prems n by (intro load_other_slot) auto
    moreover have "unat j < Suc n \<longleftrightarrow> unat j < n" if "u = t"
      using False that n by (metis less_Suc_eq unsigned_word_eqI)
    ultimately show ?thesis using Suc by auto
  qed
qed

lemma FILL_PT_load:
  assumes "frame_aligned t" "frame_aligned u" "unat j < 1024"
  shows "load32 (FILL_PT t b m) (u + 4 * j) =
    (if u = t then (b * 0x100000 + j * 4096) OR 3 else load32 m (u + 4 * j))"
  unfolding FILL_PT_def using fold_slots[OF assms(1) le_refl assms(2,3)] assms(3) by simp

lemma tables_load:
  assumes al: "\<And>k. k < 16 \<Longrightarrow> frame_aligned (pt k)" and inj: "inj_on pt {..<16}"
    and n: "k < n" "n \<le> 16" and j: "unat j < 1024"
  shows "load32 (fold (\<lambda>k. FILL_PT (pt k) (of_nat (4 * k))) [0..<n] m) (pt k + 4 * j) =
    (of_nat (4 * k) * 0x100000 + j * 4096) OR 3"
  using n
proof (induction n)
  case 0
  then show ?case by simp
next
  case (Suc n)
  let ?m = "fold (\<lambda>k. FILL_PT (pt k) (of_nat (4 * k))) [0..<n] m"
  have k16: "k < 16" "n < 16" using Suc.prems by simp_all
  have "load32 (FILL_PT (pt n) (of_nat (4 * n)) ?m) (pt k + 4 * j) =
      (if pt k = pt n then (of_nat (4 * n) * 0x100000 + j * 4096) OR 3 else load32 ?m (pt k + 4 * j))"
    using FILL_PT_load[OF al[OF k16(2)] al[OF k16(1)] j] .
  moreover have "pt k = pt n \<longleftrightarrow> k = n" using inj_on_eq_iff[OF inj] k16 by simp
  ultimately show ?case using Suc by (cases "k = n") simp_all
qed

text \<open>Frames other than the tables keep their words.\<close>

lemma paging_init_elsewhere:
  assumes al: "frame_aligned dir" "\<forall>k < 16. frame_aligned (pt k)" and u: "frame_aligned u" "u \<noteq> dir" "u \<notin> pt ` {..<16}" and j: "unat j < 1024"
  shows "load32 (vmem (paging_init dir pt s)) (u + 4 * j) = load32 (vmem s) (u + 4 * j)"
proof -
  have "load32 (fold (\<lambda>k. FILL_PT (pt k) (of_nat (4 * k))) [0..<n] m) (u + 4 * j) = load32 m (u + 4 * j)" if "n \<le> 16" for n m
    using that
  proof (induction n)
    case (Suc n)
    then have "frame_aligned (pt n)" "u \<noteq> pt n" using al(2) u(3) by auto
    then show ?case using Suc FILL_PT_load[OF _ u(1) j] by simp
  qed simp
  then show ?thesis
    using u(2) fold_slots[OF al(1) _ u(1) j, of 16] load_cleared[OF al(1) u(1) j] by (simp add: paging_init_def Let_def)
qed

lemma page_base:
  "of_nat (4 * unat (pd_index v)) * 0x100000 + pt_index v * 4096 = v AND NOT 0xFFF" for v :: u32
proof -
  have m: "(0x3FF :: u32) = mask 10" "(0xFFF :: u32) = mask 12" by (simp_all add: mask_eq_exp_minus_1)
  let ?d = "drop_bit 12 v"
  have "of_nat (4 * unat (pd_index v)) * 0x100000 = push_bit 12 (push_bit 10 (drop_bit 10 ?d))"
    by (simp add: push_bit_eq_mult)
  moreover have "pt_index v * 4096 = push_bit 12 (take_bit 10 ?d)"
    unfolding m by (simp add: push_bit_eq_mult take_bit_eq_mask)
  ultimately have "of_nat (4 * unat (pd_index v)) * 0x100000 + pt_index v * 4096 =
      push_bit 12 (push_bit 10 (drop_bit 10 ?d) + take_bit 10 ?d)"
    by (simp only: push_bit_add)
  also have "\<dots> = push_bit 12 ?d" by (simp only: bits_ident)
  also have "\<dots> = v AND NOT 0xFFF" unfolding m by (rule bit_word_eqI) (auto simp: bit_simps)
  finally show ?thesis .
qed

section \<open>Property\<close>

text \<open>After \<open>paging_init\<close> paging is on, every address below 64 MiB is mapped to itself, present
  and writable, and no address above is mapped, wherever the linker placed the directory and
  the tables (as distinct aligned frames).\<close>

theorem paging_init_identity:
  assumes al: "frame_aligned dir" "\<forall>k < 16. frame_aligned (pt k)"
    and apart: "inj_on pt {..<16}" "dir \<notin> pt ` {..<16}"
  shows "let s' = paging_init dir pt s in
    cr3 s' = dir \<and> bit (cr0 s') 31 \<and>
    (\<forall>v. walk (vmem s') dir v = (if v < 0x4000000 then Some ((v AND NOT 0xFFF) OR 3) else None))"
proof -
  let ?m1 = "fold (\<lambda>k. FILL_PT (pt k) (of_nat (4 * k))) [0..<16] (vmem s)"
  let ?m2 = "snd (memset dir 0 4096 ?m1)"
  let ?m3 = "fold (\<lambda>k m. store32 m (dir + 4 * of_nat k) (pt k OR 3)) [0..<16] ?m2"
  have ptk: "frame_aligned (pt k)" "pt k \<noteq> dir" if "k < 16" for k
    using that al(2) apart(2) by auto
  have pde: "pde_at ?m3 dir i = (if unat i < 16 then pt (unat i) OR 3 else 0)" if "unat i < 1024" for i
    using fold_slots[OF al(1), of 16 dir i "\<lambda>k. pt k OR 3" ?m2] load_cleared[OF al(1) al(1) that] that al(1)
    by simp
  have pte: "load32 ?m3 (pt k + 4 * j) = (of_nat (4 * k) * 0x100000 + j * 4096) OR 3"
    if k: "k < 16" and j: "unat j < 1024" for k j
  proof -
    have "load32 ?m3 (pt k + 4 * j) = load32 ?m2 (pt k + 4 * j)"
      using fold_slots[OF al(1), of 16 "pt k" j "\<lambda>k. pt k OR 3" ?m2] ptk[OF k] j by simp
    also have "\<dots> = load32 ?m1 (pt k + 4 * j)"
      using load_cleared[OF al(1) ptk(1)[OF k] j, of ?m1] ptk(2)[OF k] by simp
    also have "\<dots> = (of_nat (4 * k) * 0x100000 + j * 4096) OR 3"
      using tables_load[OF ptk(1) apart(1) k le_refl j] .
    finally show ?thesis .
  qed
  have or3: "table_of (p OR 3) = p" "(p OR 3) AND 1 \<noteq> 0" if "frame_aligned p" for p
    using table_of_entry[OF that, of 2] present_entry[of p 2] by (simp_all add: or.assoc)
  have present: "(e OR 3) AND 1 \<noteq> (0 :: u32)" for e
    using present_entry[of e 2] by (simp add: or.assoc)
  have idx: "unat (pd_index v) < 16 \<longleftrightarrow> v < 0x4000000" for v
    by (simp add: drop_bit_eq_div unat_div word_less_nat_alt less_mult_imp_div_less div_less_iff_less_mult)
  have "walk ?m3 dir v = (if v < 0x4000000 then Some ((v AND NOT 0xFFF) OR 3) else None)" for v
  proof (cases "v < 0x4000000")
    case True
    then have k: "unat (pd_index v) < 16" using idx by simp
    note e = pde[OF index_small(1)[of v]]
    have "load32 ?m3 (pt (unat (pd_index v)) + 4 * pt_index v) = (v AND NOT 0xFFF) OR 3"
      using pte[OF k index_small(2)[of v]] page_base[of v] by simp
    then show ?thesis using e k or3[OF ptk(1)[OF k]] present True by (simp add: walk_def Let_def)
  next
    case False
    then have "pde_at ?m3 dir (pd_index v) = 0" using pde[OF index_small(1)[of v]] idx[of v] by simp
    with False show ?thesis by (simp add: walk_def)
  qed
  moreover have "bit (cr0 s OR 0x80000000) 31" by (simp add: bit_simps)
  ultimately show ?thesis by (simp add: paging_init_def Let_def)
qed

definition sample_pt :: "nat \<Rightarrow> u32" where
  "sample_pt k = 0x200000 + 0x1000 * of_nat k"

lemma sample_pt_ok:
  "\<forall>k < 16. frame_aligned (sample_pt k)" "inj_on sample_pt {..<16}" "0x100000 \<notin> sample_pt ` {..<16}"
proof -
  have "\<forall>k \<in> set [0..<16]. frame_aligned (sample_pt k)" "distinct (map sample_pt [0..<16])"
    "0x100000 \<notin> set (map sample_pt [0..<16])"
    by code_simp+
  then show "\<forall>k < 16. frame_aligned (sample_pt k)" "inj_on sample_pt {..<16}" "0x100000 \<notin> sample_pt ` {..<16}"
    by (simp_all only: distinct_map set_map set_upt atLeast0LessThan Ball_def lessThan_iff simp_thms)
qed

theorem paging_init_identity_witness:
  "\<forall>s :: paging. walk (vmem (paging_init 0x100000 sample_pt s)) 0x100000 0x12345 = Some 0x12003"
proof
  fix s :: paging
  have "frame_aligned 0x100000" by simp
  from paging_init_identity[OF this sample_pt_ok, of s]
  show "walk (vmem (paging_init 0x100000 sample_pt s)) 0x100000 0x12345 = Some 0x12003"
    by (simp add: Let_def)
qed

end
