(* ===== verification/Screen.thy ===== *)
theory Screen
  imports Machine "HOL-Library.Signed_Division"
begin

text \<open>
  \<open>drivers/screen/screen.c\<close>: the VGA text console. The state is the video memory as an array of
  16-bit cells from \<open>VIDEO_MEMORY\<close> on (an access with any index is an access to that
  cell; the invariant shows that only the 80 * 25 cells of the screen are written), the text
  colour and the cursor. A C \<open>int\<close> is a HOL integer here; no val of this file comes near the
  bounds of the type for a cursor on the screen. The output of \<open>viprint\<close> is a fault when a
  conversion finds no argument of its type.
\<close>

section \<open>State\<close>

record screen = machine +
  vga :: "int \<Rightarrow> u16"
  colors :: u8
  cursor_row :: int
  cursor_col :: int

definition SCREEN_WIDTH :: int where "SCREEN_WIDTH = 80"
definition SCREEN_HEIGHT :: int where "SCREEN_HEIGHT = 25"

lemmas screen_size [simp] = SCREEN_WIDTH_def SCREEN_HEIGHT_def

definition VGA_COLOR_BLACK :: u8 where "VGA_COLOR_BLACK = 0"
definition VGA_COLOR_GREEN :: u8 where "VGA_COLOR_GREEN = 2"
definition VGA_COLOR_LIGHT_RED :: u8 where "VGA_COLOR_LIGHT_RED = 12"
definition VGA_COLOR_WHITE :: u8 where "VGA_COLOR_WHITE = 15"

definition vga_color_entry :: "u8 \<Rightarrow> u8 \<Rightarrow> u8" where
  "vga_color_entry fg bg = fg OR push_bit 4 bg"

definition vga_entry :: "u8 \<Rightarrow> u8 \<Rightarrow> u16" where
  "vga_entry uc color = ucast uc OR push_bit 8 (ucast color)"

abbreviation blank :: "'a screen_scheme \<Rightarrow> u16" where
  "blank s \<equiv> vga_entry 0x20 (colors s)"

section \<open>Colour and cursor\<close>

definition set_text_color :: "u8 \<Rightarrow> u8 \<Rightarrow> 'a screen_scheme \<Rightarrow> 'a screen_scheme" where
  "set_text_color fg bg s = s\<lparr>colors := vga_color_entry fg bg\<rparr>"

definition get_offset :: "int \<Rightarrow> int \<Rightarrow> int" where
  "get_offset col row = 2 * (row * SCREEN_WIDTH + col)"

definition set_cursor_offset :: "int \<Rightarrow> 'a screen_scheme \<Rightarrow> 'a screen_scheme" where
  "set_cursor_offset offset s =
     (let offset = offset sdiv 2;
          s = s\<lparr>cursor_row := offset sdiv SCREEN_WIDTH, cursor_col := offset smod SCREEN_WIDTH\<rparr>;
          s = outb 0x3d4 14 s;
          s = outb 0x3d5 (word_of_int (drop_bit 8 offset)) s;
          s = outb 0x3d4 15 s
      in outb 0x3d5 (word_of_int (offset AND 0xff)) s)"

definition set_cursor_position :: "int \<Rightarrow> int \<Rightarrow> 'a screen_scheme \<Rightarrow> 'a screen_scheme" where
  "set_cursor_position x y s =
     set_cursor_offset (get_offset x y) (s\<lparr>cursor_col := x, cursor_row := y\<rparr>)"

definition update_cursor :: "'a screen_scheme \<Rightarrow> 'a screen_scheme" where
  "update_cursor s =
     (let pos = word_of_int (cursor_row s * SCREEN_WIDTH + cursor_col s) :: u16;
          s = outb 0x3D4 0x0F s;
          s = outb 0x3D5 (ucast (pos AND 0xFF)) s;
          s = outb 0x3D4 0x0E s
      in outb 0x3D5 (ucast (drop_bit 8 pos AND 0xFF)) s)"

definition get_cursor_row :: "'a screen_scheme \<Rightarrow> int" where
  "get_cursor_row s = cursor_row s"

definition get_cursor_col :: "'a screen_scheme \<Rightarrow> int" where
  "get_cursor_col s = cursor_col s"

section \<open>Clearing and scrolling\<close>

definition fill_cells :: "int \<Rightarrow> nat \<Rightarrow> 'a screen_scheme \<Rightarrow> 'a screen_scheme" where
  "fill_cells i n s = fold (\<lambda>k s. s\<lparr>vga := (vga s)(i + int k := blank s)\<rparr>) [0..<n] s"

definition init_screen :: "'a screen_scheme \<Rightarrow> 'a screen_scheme" where
  "init_screen s =
     (let s = set_text_color VGA_COLOR_WHITE VGA_COLOR_BLACK s;
          s = fold (\<lambda>y. fill_cells (int y * SCREEN_WIDTH) 80) [0..<25] s;
          s = s\<lparr>cursor_row := 0, cursor_col := 0\<rparr>
      in set_cursor_offset (get_offset 0 0) s)"

definition clear_screen_row :: "int \<Rightarrow> 'a screen_scheme \<Rightarrow> 'a screen_scheme" where
  "clear_screen_row row = fill_cells (row * SCREEN_WIDTH) 80"

definition clear_screen :: "'a screen_scheme \<Rightarrow> 'a screen_scheme" where
  "clear_screen s =
     (let s = fill_cells 0 (80 * 25) s;
          s = s\<lparr>cursor_row := 0, cursor_col := 0\<rparr>
      in set_cursor_offset (get_offset 0 0) s)"

text \<open>\<open>memmove\<close> of 24 rows of cells: each takes the val the cell one row below had.\<close>

definition scroll :: "'a screen_scheme \<Rightarrow> 'a screen_scheme" where
  "scroll s =
     (let old = vga s;
          s = s\<lparr>vga := \<lambda>i. if 0 \<le> i \<and> i < (SCREEN_HEIGHT - 1) * SCREEN_WIDTH then old (i + SCREEN_WIDTH) else old i\<rparr>;
          s = fill_cells ((SCREEN_HEIGHT - 1) * SCREEN_WIDTH) 80 s
      in s\<lparr>cursor_row := SCREEN_HEIGHT - 1, cursor_col := 0\<rparr>)"

section \<open>Printing characters\<close>

text \<open>The loop of the backspace that joins the end of the row above.\<close>

function back_over :: "'a screen_scheme \<Rightarrow> 'a screen_scheme" where
  "back_over s =
     (if cursor_col s > 0 \<and> vga s (cursor_row s * SCREEN_WIDTH + cursor_col s) = blank s
      then back_over (s\<lparr>cursor_col := cursor_col s - 1\<rparr>) else s)"
  by pat_completeness auto
termination by (relation "measure (\<lambda>s. nat (cursor_col s))") auto

declare back_over.simps [simp del]

definition put_cell :: "u16 \<Rightarrow> 'a screen_scheme \<Rightarrow> 'a screen_scheme" where
  "put_cell v s = s\<lparr>vga := (vga s)(cursor_row s * SCREEN_WIDTH + cursor_col s := v)\<rparr>"

definition cprint_char :: "u8 \<Rightarrow> 'a screen_scheme \<Rightarrow> 'a screen_scheme" where
  "cprint_char c s =
     (if c = 0x0A then s\<lparr>cursor_row := cursor_row s + 1, cursor_col := 0\<rparr>
      else if c = 0x08 then
        (let s = (if cursor_col s > 0 then s\<lparr>cursor_col := cursor_col s - 1\<rparr>
                  else if cursor_row s > 0 then
                    back_over (s\<lparr>cursor_row := cursor_row s - 1, cursor_col := SCREEN_WIDTH - 1\<rparr>)
                  else s)
         in put_cell (blank s) s)
      else
        (let s = put_cell (vga_entry c (colors s)) s;
             s = s\<lparr>cursor_col := cursor_col s + 1\<rparr>
         in if cursor_col s \<ge> SCREEN_WIDTH then s\<lparr>cursor_col := 0, cursor_row := cursor_row s + 1\<rparr> else s))"

definition cprint :: "u8 \<Rightarrow> 'a screen_scheme \<Rightarrow> 'a screen_scheme" where
  "cprint c s =
     (let s = cprint_char c s;
          s = (if cursor_row s \<ge> SCREEN_HEIGHT then (scroll s)\<lparr>cursor_row := SCREEN_HEIGHT - 1\<rparr> else s);
          s = (if cursor_col s \<ge> SCREEN_WIDTH then s\<lparr>cursor_col := SCREEN_WIDTH - 1\<rparr> else s)
      in set_cursor_offset (get_offset (cursor_col s) (cursor_row s)) s)"

definition cprint_color :: "u8 \<Rightarrow> u8 \<Rightarrow> u8 \<Rightarrow> 'a screen_scheme \<Rightarrow> 'a screen_scheme" where
  "cprint_color c fg bg s =
     (let old_colors = colors s;
          s = cprint c (set_text_color fg bg s)
      in set_text_color (old_colors AND 0x0F) (drop_bit 4 old_colors) s)"

definition vprint :: "u8 list \<Rightarrow> 'a screen_scheme \<Rightarrow> 'a screen_scheme" where
  "vprint data s = fold cprint data s"

abbreviation puts :: "string \<Rightarrow> 'a screen_scheme \<Rightarrow> 'a screen_scheme" where
  "puts t \<equiv> fold (\<lambda>c. cprint (of_char c)) t"

section \<open>Numbers\<close>

definition digit_char :: "u32 \<Rightarrow> char" where
  "digit_char digit = (if digit < 10 then char_of (unat digit + 48) else char_of (unat digit - 10 + 97))"

text \<open>The digits in \<open>temp\<close>, the least significant first. The base is 10, 16 or 8 in every call.\<close>

function utoa_digits :: "u32 \<Rightarrow> u32 \<Rightarrow> string" where
  "utoa_digits val base =
     (if val = 0 \<or> base < 2 then [] else digit_char (val mod base) # utoa_digits (val div base) base)"
  by pat_completeness auto
termination
proof (relation "measure (\<lambda>(v, b). unat v)")
  fix val base :: u32
  assume a: "\<not> (val = 0 \<or> base < 2)"
  then have "0 < unat val" by (simp add: unat_gt_0)
  moreover have "1 < unat base" using a by (simp add: word_less_nat_alt)
  ultimately have "unat val div unat base < unat val" by (intro div_less_dividend)
  then show "((val div base, base), val, base) \<in> measure (\<lambda>(v, b). unat v)"
    by (simp add: unat_div)
qed simp

declare utoa_digits.simps [simp del]

definition utoa :: "u32 \<Rightarrow> u32 \<Rightarrow> string" where
  "utoa val base = (if val = 0 then ''0'' else rev (utoa_digits val base))"

definition itoa :: "u32 \<Rightarrow> string" where
  "itoa val = (if sint val < 0 then CHR ''-'' # utoa (- val) 10 else utoa val 10)"

text \<open>The loop of \<open>%X\<close> over the digits.\<close>

definition upcase_hex :: "char \<Rightarrow> char" where
  "upcase_hex c = (if 97 \<le> (of_char c :: nat) \<and> (of_char c :: nat) \<le> 102 then char_of ((of_char c :: nat) - 97 + 65) else c)"

section \<open>viprint\<close>

text \<open>What one conversion prints, and the arguments it leaves.\<close>

fun word_arg :: "fmt_arg list \<Rightarrow> (u32 \<times> fmt_arg list) checked" where
  "word_arg (Word_arg w # as) = Inr (w, as)"
| "word_arg _ = Inl BadArgument"

fun str_arg :: "fmt_arg list \<Rightarrow> (string option \<times> fmt_arg list) checked" where
  "str_arg (Str_arg t # as) = Inr (t, as)"
| "str_arg _ = Inl BadArgument"

definition conversion :: "char \<Rightarrow> fmt_arg list \<Rightarrow> (string \<times> fmt_arg list) checked" where
  "conversion f as =
     (if f = CHR ''%'' then Inr (''%'', as)
      else if f = CHR ''c'' then chk_bind (word_arg as) (\<lambda>(w, as). Inr ([char_of (take_bit 8 (unat w))], as))
      else if f = CHR ''s'' then chk_bind (str_arg as) (\<lambda>(t, as). Inr (case t of None \<Rightarrow> ''(null)'' | Some t \<Rightarrow> t, as))
      else if f = CHR ''d'' \<or> f = CHR ''i'' then chk_bind (word_arg as) (\<lambda>(w, as). Inr (itoa w, as))
      else if f = CHR ''u'' then chk_bind (word_arg as) (\<lambda>(w, as). Inr (utoa w 10, as))
      else if f = CHR ''x'' then chk_bind (word_arg as) (\<lambda>(w, as). Inr (utoa w 16, as))
      else if f = CHR ''X'' then chk_bind (word_arg as) (\<lambda>(w, as). Inr (map upcase_hex (utoa w 16), as))
      else if f = CHR ''o'' then chk_bind (word_arg as) (\<lambda>(w, as). Inr (utoa w 8, as))
      else if f = CHR ''p'' then chk_bind (word_arg as) (\<lambda>(w, as). Inr (''0x'' @ utoa w 16, as))
      else Inr ([CHR ''%'', f], as))"

fun viprintf :: "string \<Rightarrow> fmt_arg list \<Rightarrow> 'a screen_scheme \<Rightarrow> 'a screen_scheme checked" where
  "viprintf [] as s = Inr s"
| "viprintf (c # p) as s =
     (if c \<noteq> CHR ''%'' then viprintf p as (cprint (of_char c) s)
      else (case p of
              [] \<Rightarrow> Inr s
            | f # p \<Rightarrow> chk_bind (conversion f as) (\<lambda>(t, as). viprintf p as (puts t s))))"

text \<open>\<open>hexprint\<close> fills its digits from the right.\<close>

definition hex_string :: "u32 \<Rightarrow> string" where
  "hex_string val = ''0x'' @ map (\<lambda>i. ''0123456789ABCDEF'' ! unat (drop_bit (4 * (7 - i)) val AND 0xF)) [0..<8]"

definition hexprint_screen :: "u32 \<Rightarrow> 'a screen_scheme \<Rightarrow> 'a screen_scheme checked" where
  "hexprint_screen val s = chk_bind (viprintf (hex_string val) [] s) (viprintf newline [])"

definition has_loaded :: "'a screen_scheme \<Rightarrow> 'a screen_scheme checked" where
  "has_loaded s =
     chk_bind (viprintf ''[ '' [] s) (\<lambda>s.
     chk_bind (viprintf ''yes'' [] (set_text_color VGA_COLOR_GREEN VGA_COLOR_BLACK s)) (\<lambda>s.
     viprintf '' ] '' [] (set_text_color VGA_COLOR_WHITE VGA_COLOR_BLACK s)))"

end
