(* ===== verification/Screen_Spec.thy ===== *)
theory Screen_Spec
  imports Screen
begin

text \<open>
  The console as a terminal of 25 lines of 80 cells: the invariant of the cursor, the frame
  (no cell outside the screen is ever written), and the refinement of \<open>cprint\<close> and
  \<open>viprint\<close> to an abstract terminal whose state is the list of all cells and one position.
\<close>

section \<open>The cells an operation writes\<close>

lemma fold_cells:
  "fold (\<lambda>k s. s\<lparr>vga := (vga s)(i + int k := blank s)\<rparr>) [0..<n] s =
     s\<lparr>vga := \<lambda>j. if i \<le> j \<and> j < i + int n then blank s else vga s j\<rparr>"
proof (induction n)
  case 0
  have "(\<lambda>j. if i \<le> j \<and> j < i then blank s else vga s j) = vga s" by (rule ext) auto
  then show ?case by simp
next
  case (Suc n)
  have "(\<lambda>j. if i \<le> j \<and> j < i + int n then blank s else vga s j)(i + int n := blank s) =
    (\<lambda>j. if i \<le> j \<and> j < i + int (Suc n) then blank s else vga s j)"
    by (rule ext) auto
  note upd = this
  let ?F = "\<lambda>k s. s\<lparr>vga := (vga s)(i + int k := blank s)\<rparr>"
  have "fold ?F [0..<Suc n] s = ?F n (fold ?F [0..<n] s)" by simp
  also have "\<dots> = ?F n (s\<lparr>vga := \<lambda>j. if i \<le> j \<and> j < i + int n then blank s else vga s j\<rparr>)"
    by (simp only: Suc)
  also have "\<dots> = s\<lparr>vga := (\<lambda>j. if i \<le> j \<and> j < i + int n then blank s else vga s j)(i + int n := blank s)\<rparr>"
    by simp
  finally show ?case by (simp only: upd)
qed

lemma fill_cells: "fill_cells i n s =
    s\<lparr>vga := \<lambda>j. if i \<le> j \<and> j < i + int n then blank s else vga s j\<rparr>"
  unfolding fill_cells_def by (rule fold_cells)

definition screen_ok :: "'a screen_scheme \<Rightarrow> bool" where
  "screen_ok s \<longleftrightarrow> 0 \<le> cursor_row s \<and> cursor_row s < SCREEN_HEIGHT \<and> 0 \<le> cursor_col s \<and> cursor_col s < SCREEN_WIDTH"

definition same_outside :: "'a screen_scheme \<Rightarrow> 'a screen_scheme \<Rightarrow> bool" where
  "same_outside s s' \<longleftrightarrow> (\<forall>i. \<not> (0 \<le> i \<and> i < SCREEN_WIDTH * SCREEN_HEIGHT) \<longrightarrow> vga s' i = vga s i)"

lemma same_outside_refl [simp]: "same_outside s s"
  by (simp add: same_outside_def)

lemma same_outside_trans: "same_outside s t \<Longrightarrow> same_outside t u \<Longrightarrow> same_outside s u"
  by (simp add: same_outside_def)

lemma outb_screen [simp]:
  "vga (outb p v s) = vga s" "colors (outb p v s) = colors s"
  "cursor_row (outb p v s) = cursor_row s" "cursor_col (outb p v s) = cursor_col s"
  by (simp_all add: outb_def)

lemma set_cursor_offset_frame [simp]:
  "vga (set_cursor_offset d s) = vga s" "colors (set_cursor_offset d s) = colors s"
  by (simp_all add: set_cursor_offset_def Let_def)

lemma sdiv_nonneg: "0 \<le> a \<Longrightarrow> 0 < b \<Longrightarrow> a sdiv b = a div (b :: int)"
  by (simp add: signed_divide_int_def sgn_if)

lemma smod_nonneg: "0 \<le> a \<Longrightarrow> 0 < b \<Longrightarrow> a smod b = a mod (b :: int)"
  by (simp add: signed_modulo_int_def signed_divide_int_def sgn_if minus_div_mult_eq_mod)

lemma set_cursor_offset_at:
  assumes "0 \<le> r" "0 \<le> c" "c < SCREEN_WIDTH"
  shows "cursor_row (set_cursor_offset (get_offset c r) s) = r"
    and "cursor_col (set_cursor_offset (get_offset c r) s) = c"
  using assms
  by (simp_all add: set_cursor_offset_def get_offset_def Let_def sdiv_nonneg smod_nonneg)

lemma back_over_at:
  assumes "0 \<le> cursor_col s"
  shows "0 \<le> cursor_col (back_over s) \<and> cursor_col (back_over s) \<le> cursor_col s \<and>
    cursor_row (back_over s) = cursor_row s \<and> vga (back_over s) = vga s \<and> colors (back_over s) = colors s"
  using assms
proof (induction s rule: back_over.induct)
  case (1 s)
  show ?case
  proof (cases "cursor_col s > 0 \<and> vga s (cursor_row s * SCREEN_WIDTH + cursor_col s) = blank s")
    case True
    then have "back_over s = back_over (s\<lparr>cursor_col := cursor_col s - 1\<rparr>)"
      by (subst back_over.simps) simp
    with 1(1)[OF True] True show ?thesis by simp
  next
    case False
    then have "back_over s = s" by (subst back_over.simps) auto
    with 1(2) show ?thesis by simp
  qed
qed

lemma cprint_char_range:
  assumes "screen_ok s"
  shows "0 \<le> cursor_row (cprint_char c s)" "cursor_row (cprint_char c s) \<le> SCREEN_HEIGHT"
    "0 \<le> cursor_col (cprint_char c s)" "cursor_col (cprint_char c s) < SCREEN_WIDTH"
    "same_outside s (cprint_char c s)" "colors (cprint_char c s) = colors s"
proof -
  define b where "b = back_over (s\<lparr>cursor_row := cursor_row s - 1, cursor_col := SCREEN_WIDTH - 1\<rparr>)"
  have b: "0 \<le> cursor_col b" "cursor_col b \<le> 79" "cursor_row b = cursor_row s - 1" "vga b = vga s" "colors b = colors s"
    using back_over_at[of "s\<lparr>cursor_row := cursor_row s - 1, cursor_col := SCREEN_WIDTH - 1\<rparr>"]
    by (auto simp: b_def)
  show "0 \<le> cursor_row (cprint_char c s)" "cursor_row (cprint_char c s) \<le> SCREEN_HEIGHT"
    "0 \<le> cursor_col (cprint_char c s)" "cursor_col (cprint_char c s) < SCREEN_WIDTH"
    "same_outside s (cprint_char c s)" "colors (cprint_char c s) = colors s"
    using assms b unfolding cprint_char_def b_def[symmetric]
    by (auto simp: screen_ok_def same_outside_def put_cell_def Let_def)
qed

lemma scroll_range:
  "cursor_col (scroll s) = 0" "cursor_row (scroll s) = SCREEN_HEIGHT - 1" "same_outside s (scroll s)" "colors (scroll s) = colors s"
  by (auto simp: scroll_def Let_def fill_cells same_outside_def)

lemma cprint_ok:
  assumes "screen_ok s"
  shows "screen_ok (cprint c s)" and "same_outside s (cprint c s)" and "colors (cprint c s) = colors s"
proof -
  define t where "t = cprint_char c s"
  note t = cprint_char_range[OF assms, of c, folded t_def]
  define u where "u = (if cursor_row t \<ge> SCREEN_HEIGHT then (scroll t)\<lparr>cursor_row := SCREEN_HEIGHT - 1\<rparr> else t)"
  have u: "0 \<le> cursor_row u" "cursor_row u < SCREEN_HEIGHT" "0 \<le> cursor_col u" "cursor_col u < SCREEN_WIDTH"
      "same_outside s u" "colors u = colors s"
    using t same_outside_trans[OF t(5) scroll_range(3)] scroll_range[of t]
    by (auto simp: u_def same_outside_def)
  have c: "cprint c s = set_cursor_offset (get_offset (cursor_col u) (cursor_row u)) u"
    using u(4) unfolding cprint_def Let_def t_def[symmetric] u_def[symmetric] by simp
  show "screen_ok (cprint c s)"
    using u by (simp add: c screen_ok_def set_cursor_offset_at[OF u(1,3,4)])
  show "same_outside s (cprint c s)" "colors (cprint c s) = colors s"
    using u by (simp_all add: c same_outside_def)
qed

lemma puts_ok:
  assumes "screen_ok s"
  shows "screen_ok (puts t s) \<and> same_outside s (puts t s) \<and> colors (puts t s) = colors s"
  using assms
proof (induction t arbitrary: s)
  case Nil
  then show ?case by simp
next
  case (Cons c t)
  note c = cprint_ok[OF Cons.prems, of "of_char c"]
  from Cons.IH[OF c(1)] c show ?case by (auto intro: same_outside_trans)
qed

lemma viprintf_ok:
  assumes "screen_ok s" "viprintf f as s = Inr s'"
  shows "screen_ok s' \<and> same_outside s s' \<and> colors s' = colors s"
  using assms
proof (induction f as s rule: viprintf.induct)
  case (1 as s)
  then show ?case by simp
next
  case (2 c p as s)
  show ?case
  proof (cases "c = CHR ''%''")
    case False
    note c = cprint_ok[OF 2(3), of "of_char c"]
    have "viprintf p as (cprint (of_char c) s) = Inr s'" using 2(4) False by simp
    from 2(1)[OF False c(1) this] c show ?thesis by (auto intro: same_outside_trans)
  next
    case True
    show ?thesis
    proof (cases p)
      case Nil
      with 2 True show ?thesis by simp
    next
      case (Cons f p')
      with 2(4) True obtain t as' where conv: "conversion f as = Inr (t, as')"
        and r: "viprintf p' as' (puts t s) = Inr s'"
        by (auto simp: chk_bind_Inr)
      note t = puts_ok[OF 2(3), of t]
      have "\<not> c \<noteq> CHR ''%''" using True by simp
      from 2(2)[OF this Cons _ r] t show ?thesis by (auto intro: same_outside_trans)
    qed
  qed
qed

section \<open>The abstract terminal\<close>

text \<open>
  The state is the list of the 2000 cells and the position of the next character. A character
  goes to that position, a newline moves to the start of the next line, and a position past
  the last cell drops the first line.
\<close>

type_synonym terminal = "u16 list \<times> nat"

definition term_advance :: "u16 \<Rightarrow> terminal \<Rightarrow> terminal" where
  "term_advance b t = (if snd t < 2000 then t else (drop 80 (fst t) @ replicate 80 b, snd t - 80))"

definition term_char :: "u8 \<Rightarrow> u8 \<Rightarrow> terminal \<Rightarrow> terminal" where
  "term_char color c t = term_advance (vga_entry 0x20 color)
     (if c = 0x0A then (fst t, (snd t div 80 + 1) * 80) else ((fst t)[snd t := vga_entry c color], snd t + 1))"

definition terminal :: "'a screen_scheme \<Rightarrow> terminal" where
  "terminal s = (map (\<lambda>k. vga s (int k)) [0..<2000], nat (cursor_row s * 80 + cursor_col s))"

lemma terminal_set_cursor:
  assumes "0 \<le> cursor_row s" "0 \<le> cursor_col s" "cursor_col s < SCREEN_WIDTH"
  shows "terminal (set_cursor_offset (get_offset (cursor_col s) (cursor_row s)) s) = terminal s"
  using assms by (simp add: terminal_def set_cursor_offset_at[OF assms])

lemma terminal_scroll:
  assumes "cursor_row s = SCREEN_HEIGHT" "cursor_col s = 0"
  shows "terminal (scroll s) = term_advance (blank s) (terminal s)"
proof -
  have "map (\<lambda>k. vga (scroll s) (int k)) [0..<2000] =
      drop 80 (map (\<lambda>k. vga s (int k)) [0..<2000]) @ replicate 80 (blank s)"
  proof (rule nth_equalityI)
    show "length (map (\<lambda>k. vga (scroll s) (int k)) [0..<2000]) =
      length (drop 80 (map (\<lambda>k. vga s (int k)) [0..<2000]) @ replicate 80 (blank s))" by simp
    fix i assume "i < length (map (\<lambda>k. vga (scroll s) (int k)) [0..<2000])"
    then have i: "i < 2000" by simp
    show "map (\<lambda>k. vga (scroll s) (int k)) [0..<2000] ! i =
        (drop 80 (map (\<lambda>k. vga s (int k)) [0..<2000]) @ replicate 80 (blank s)) ! i"
      using i by (simp add: nth_append scroll_def Let_def fill_cells add.commute)
  qed
  with assms show ?thesis by (simp add: terminal_def term_advance_def scroll_range)
qed

lemma cells_upd:
  assumes "0 \<le> i" "i < 2000"
  shows "map (\<lambda>k. if int k = i then v else vga s (int k)) [0..<2000] = (map (\<lambda>k. vga s (int k)) [0..<2000])[nat i := v]"
  using assms by (intro nth_equalityI) (auto simp: nth_list_update)

lemma position_div:
  assumes "0 \<le> r" "0 \<le> c" "c < (80 :: int)"
  shows "(nat (r * 80 + c) div 80 + 1) * 80 = nat ((r + 1) * 80)"
proof -
  have "nat (r * 80 + c) div 80 = nat ((r * 80 + c) div 80)" using assms by (simp add: nat_div_distrib)
  also have "(r * 80 + c) div 80 = r" using assms by simp
  finally show ?thesis using assms by (simp add: nat_add_distrib nat_mult_distrib)
qed

text \<open>Before the scroll, \<open>cprint_char\<close> is the step of the terminal without its \<open>term_advance\<close>.\<close>

lemma cprint_char_terminal:
  assumes "screen_ok s" "c \<noteq> 0x08"
  shows "terminal (cprint_char c s) =
      (if c = 0x0A then (fst (terminal s), (snd (terminal s) div 80 + 1) * 80)
       else ((fst (terminal s))[snd (terminal s) := vga_entry c (colors s)], snd (terminal s) + 1))"
    and "cursor_row (cprint_char c s) = SCREEN_HEIGHT \<Longrightarrow> cursor_col (cprint_char c s) = 0"
proof -
  have r: "0 \<le> cursor_row s" "cursor_row s < 25" "0 \<le> cursor_col s" "cursor_col s < 80"
    using assms(1) by (simp_all add: screen_ok_def)
  then have p: "0 \<le> cursor_row s * 80 + cursor_col s" "cursor_row s * 80 + cursor_col s < 2000" by simp_all
  have q: "nat (cursor_row s * 80 + (cursor_col s + 1)) = nat (cursor_row s * 80 + cursor_col s) + 1"
    using r by simp
  show "terminal (cprint_char c s) =
      (if c = 0x0A then (fst (terminal s), (snd (terminal s) div 80 + 1) * 80)
       else ((fst (terminal s))[snd (terminal s) := vga_entry c (colors s)], snd (terminal s) + 1))"
  proof (cases "c = 0x0A")
    case True
    then show ?thesis
      by (simp add: cprint_char_def terminal_def position_div[OF r(1,3,4), simplified])
  next
    case False
    have "nat ((cursor_row s + 1) * 80) = nat (cursor_row s * 80 + cursor_col s) + 1" if "cursor_col s + 1 \<ge> 80"
      using that r by simp
    with False assms(2) show ?thesis
      using q by (simp add: cprint_char_def put_cell_def terminal_def Let_def cells_upd[OF p])
  qed
  show "cursor_row (cprint_char c s) = SCREEN_HEIGHT \<Longrightarrow> cursor_col (cprint_char c s) = 0"
    using assms(2) r by (auto simp: cprint_char_def put_cell_def Let_def split: if_splits)
qed

lemma cprint_terminal:
  assumes "screen_ok s" "c \<noteq> 0x08"
  shows "terminal (cprint c s) = term_char (colors s) c (terminal s)"
proof -
  define t where "t = cprint_char c s"
  note t = cprint_char_range[OF assms(1), of c, folded t_def]
  note step = cprint_char_terminal[OF assms, folded t_def]
  define u where "u = (if cursor_row t \<ge> SCREEN_HEIGHT then (scroll t)\<lparr>cursor_row := SCREEN_HEIGHT - 1\<rparr> else t)"
  have u: "0 \<le> cursor_row u" "0 \<le> cursor_col u" "cursor_col u < SCREEN_WIDTH"
    using t scroll_range[of t] by (auto simp: u_def)
  have c: "cprint c s = set_cursor_offset (get_offset (cursor_col u) (cursor_row u)) u"
    using u(3) unfolding cprint_def Let_def t_def[symmetric] u_def[symmetric] by simp
  have "terminal u = term_advance (vga_entry 0x20 (colors s)) (terminal t)"
  proof (cases "cursor_row t \<ge> SCREEN_HEIGHT")
    case True
    with t have r: "cursor_row t = SCREEN_HEIGHT" by simp
    have "scroll t = (scroll t)\<lparr>cursor_row := SCREEN_HEIGHT - 1\<rparr>" by (simp add: scroll_def Let_def)
    with True have "u = scroll t" by (simp add: u_def)
    with terminal_scroll[OF r step(2)[OF r]] t(6) show ?thesis by simp
  next
    case False
    with t have "snd (terminal t) < 2000" by (simp add: terminal_def)
    with False show ?thesis by (simp add: u_def term_advance_def)
  qed
  then show ?thesis
    by (simp add: c terminal_set_cursor[OF u] step(1) term_char_def)
qed

lemma puts_terminal:
  assumes "screen_ok s" "\<forall>c \<in> set t. of_char c \<noteq> (0x08 :: u8)"
  shows "terminal (puts t s) = fold (\<lambda>c. term_char (colors s) (of_char c)) t (terminal s)"
  using assms
proof (induction t arbitrary: s)
  case Nil
  then show ?case by simp
next
  case (Cons c t)
  note c = cprint_ok[OF Cons.prems(1), of "of_char c"]
  from Cons.prems have "terminal (cprint (of_char c) s) = term_char (colors s) (of_char c) (terminal s)"
    by (intro cprint_terminal) simp_all
  with Cons.IH[OF c(1)] Cons.prems c(3) show ?case by simp
qed

text \<open>The text that a format and its arguments stand for.\<close>

fun format_text :: "string \<Rightarrow> fmt_arg list \<Rightarrow> string checked" where
  "format_text [] as = Inr []"
| "format_text [c] as = Inr (if c = CHR ''%'' then [] else [c])"
| "format_text (c # f # p) as =
     (if c \<noteq> CHR ''%'' then chk_bind (format_text (f # p) as) (\<lambda>t. Inr (c # t))
      else chk_bind (conversion f as) (\<lambda>(t, as). chk_bind (format_text p as) (\<lambda>u. Inr (t @ u))))"

lemma viprintf_text: "viprintf f as s = chk_bind (format_text f as) (\<lambda>t. Inr (puts t s))"
proof (induction f as arbitrary: s rule: format_text.induct)
  case (3 c f p as)
  show ?case
  proof (cases "c = CHR ''%''")
    case True
    then have *: "\<not> c \<noteq> CHR ''%''" by simp
    show ?thesis
    proof (cases "conversion f as")
      case (Inl e)
      with True show ?thesis by simp
    next
      case (Inr ta)
      obtain t as' where ta: "ta = (t, as')" by (cases ta)
      from 3(2)[OF *, of as' "puts t s"] True Inr ta show ?thesis by (cases "format_text p as'") simp_all
    qed
  next
    case False
    with 3(1)[OF False] show ?thesis by (cases "format_text (f # p) as") simp_all
  qed
qed simp_all

section \<open>Digits\<close>

lemma base_at_least_two: "10 \<le> b \<Longrightarrow> \<not> (b :: u32) < 2"
  by (simp add: word_le_nat_alt word_less_nat_alt)

text \<open>A number below \<open>base ^ n\<close> has at most \<open>n\<close> digits, which bounds the local buffers.\<close>

lemma utoa_digits_length:
  assumes "2 \<le> b" "unat v < unat b ^ n"
  shows "length (utoa_digits v b) \<le> n"
  using assms
proof (induction v b arbitrary: n rule: utoa_digits.induct)
  case (1 v b)
  show ?case
  proof (cases "v = 0")
    case True
    then show ?thesis by (subst utoa_digits.simps) simp
  next
    case False
    with 1(2) have go: "\<not> (v = 0 \<or> b < 2)" by simp
    from False have pos: "0 < unat v" by (simp add: unat_gt_0)
    then obtain m where n: "n = Suc m" using 1(3) by (cases n) auto
    have "unat (v div b) < unat b ^ m"
      using 1(3) n by (simp add: unat_div less_mult_imp_div_less mult.commute)
    from 1(1)[OF go 1(2) this] show ?thesis
      using go n by (subst utoa_digits.simps) simp
  qed
qed

lemma utoa_length:
  "length (utoa v 10) \<le> 10" "length (utoa v 16) \<le> 8" "length (utoa v 8) \<le> 11"
proof -
  have v: "unat v < 4294967296" using unsigned_less[of v] by simp
  have "length (utoa_digits v 10) \<le> 10" "length (utoa_digits v 16) \<le> 8" "length (utoa_digits v 8) \<le> 11"
    using v by (intro utoa_digits_length; simp add: word_le_nat_alt)+
  then show "length (utoa v 10) \<le> 10" "length (utoa v 16) \<le> 8" "length (utoa v 8) \<le> 11"
    by (simp_all add: utoa_def)
qed

section \<open>Properties\<close>

definition blank_screen :: screen where
  "blank_screen = \<lparr>console = [], port_out = [], port_in = (\<lambda>_ _. 0), port_reads = (\<lambda>_. 0), iflag = False,
     vga = (\<lambda>_. 0x0720), colors = 0x0F, cursor_row = 0, cursor_col = 0\<rparr>"

text \<open>C12: Whatever \<open>viprint\<close> is asked to print, from a cursor on the screen, it leaves the cursor
  on the screen, keeps the colours, and writes no cell outside the 80 * 25 cells of the text
  buffer.\<close>

theorem viprint_stays_on_screen:
  assumes "screen_ok s" "viprintf f as s = Inr s'"
  shows "screen_ok s' \<and> colors s' = colors s \<and>
    (\<forall>i. i < 0 \<or> 2000 \<le> i \<longrightarrow> vga s' i = vga s i)"
proof (intro conjI allI impI)
  note ok = viprintf_ok[OF assms]
  show "screen_ok s'" "colors s' = colors s" using ok by simp_all
  fix i :: int assume i: "i < 0 \<or> 2000 \<le> i"
  have "same_outside s s'" using ok by simp
  with i show "vga s' i = vga s i" by (auto simp: same_outside_def)
qed

theorem viprint_stays_on_screen_witness:
  "\<exists>s'. viprintf ''%s is %d%%'' [Str_arg (Some ''x''), Word_arg 7] blank_screen = Inr s' \<and> screen_ok s'"
proof -
  obtain s' where s': "viprintf ''%s is %d%%'' [Str_arg (Some ''x''), Word_arg 7] blank_screen = Inr s'"
    by (simp add: viprintf_text conversion_def)
  have "screen_ok blank_screen" by (simp add: screen_ok_def blank_screen_def)
  from viprint_stays_on_screen[OF this s'] s' show ?thesis by blast
qed

text \<open>C13: \<open>viprint\<close> refines an abstract terminal of 25 lines: after printing a format whose text
  holds no backspace, the cells and the cursor are those of the terminal after it has taken
  the characters of the text one by one, wrapping at the end of a line and dropping the first
  line when the last one is full.\<close>

theorem viprint_refines_terminal:
  assumes "screen_ok s" "format_text f as = Inr t" "\<forall>c \<in> set t. of_char c \<noteq> (0x08 :: u8)"
  shows "\<exists>s'. viprintf f as s = Inr s' \<and>
    terminal s' = fold (\<lambda>c. term_char (colors s) (of_char c)) t (terminal s)"
  using puts_terminal[OF assms(1,3)] by (simp add: viprintf_text assms(2))

theorem viprint_refines_terminal_witness:
  "\<exists>s'. viprintf ''%d%%'' [Word_arg 7] blank_screen = Inr s' \<and>
    terminal s' = fold (\<lambda>c. term_char 0x0F (of_char c)) ''7%'' (terminal blank_screen)"
proof -
  have ok: "screen_ok blank_screen" by (simp add: screen_ok_def blank_screen_def)
  have "utoa 7 10 = ''7''" by code_simp
  then have t: "format_text ''%d%%'' [Word_arg 7] = Inr ''7%''"
    by (simp add: conversion_def itoa_def)
  have "\<forall>c \<in> set ''7%''. of_char c \<noteq> (0x08 :: u8)" by code_simp
  from viprint_refines_terminal[OF ok t this] show ?thesis by (simp add: blank_screen_def)
qed

end
