(* ===== verification/Stdio.thy ===== *)
theory Stdio
  imports Screen_Spec CString
begin

text \<open>
  \<open>lib/stdio.c\<close> and \<open>lib/stdlib.c\<close>: \<open>snprintf\<close> into a bounded buffer in memory, \<open>printf\<close> to the
  console, and \<open>itoa\<close>. Formats and string arguments are HOL strings (their terminating zero is
  the end of the list); reading past that zero is a fault.
\<close>

section \<open>Digits\<close>

text \<open>\<open>while (num > 0)\<close> on a signed \<open>int\<close>: the digits, least significant first.\<close>

definition dec_digits :: "u32 \<Rightarrow> string" where
  "dec_digits num = (if 0 < sint num then utoa_digits num 10 else [])"

definition hex_digit :: "bool \<Rightarrow> u32 \<Rightarrow> char" where
  "hex_digit uppercase digit =
     (if digit < 10 then char_of (48 + unat digit)
      else if uppercase then char_of (65 + (unat digit - 10)) else char_of (97 + (unat digit - 10)))"

function hex_digits :: "bool \<Rightarrow> u32 \<Rightarrow> string" where
  "hex_digits uppercase num =
     (if num = 0 then [] else hex_digit uppercase (num mod 16) # hex_digits uppercase (num div 16))"
  by pat_completeness auto
termination
proof (relation "measure (\<lambda>(u, n). unat n)")
  fix uppercase and num :: u32
  assume "num \<noteq> 0"
  then have "0 < unat num" by (simp add: unat_gt_0)
  then show "((uppercase, num div 16), uppercase, num) \<in> measure (\<lambda>(u, n). unat n)"
    by (simp add: unat_div)
qed simp

declare hex_digits.simps [simp del]

text \<open>What \<open>%d\<close> and \<open>%x\<close> print, in both routines.\<close>

definition dec_text :: "u32 \<Rightarrow> string" where
  "dec_text num =
     (let neg = sint num < 0; n = (if neg then - num else num)
      in (if neg then ''-'' else '''') @ (if n = 0 then ''0'' else rev (dec_digits n)))"

definition hex_text :: "bool \<Rightarrow> u32 \<Rightarrow> string" where
  "hex_text uppercase num = (if num = 0 then ''0'' else rev (hex_digits uppercase num))"

section \<open>snprintf\<close>

text \<open>\<open>if (written < bsize) buffer[written++] = c\<close>\<close>

definition put_char :: "u32 \<Rightarrow> u32 \<Rightarrow> char \<Rightarrow> u32 \<times> mem \<Rightarrow> u32 \<times> mem" where
  "put_char buffer bsize c = (\<lambda>(written, m).
     if written < bsize then (written + 1, m(buffer + written := of_char c)) else (written, m))"

abbreviation put_text :: "u32 \<Rightarrow> u32 \<Rightarrow> string \<Rightarrow> u32 \<times> mem \<Rightarrow> u32 \<times> mem" where
  "put_text buffer bsize \<equiv> fold (put_char buffer bsize)"

fun read_string :: "fmt_arg list \<Rightarrow> (string \<times> fmt_arg list) checked" where
  "read_string (Str_arg (Some t) # as) = Inr (t, as)"
| "read_string (Str_arg None # as) = Inl NullDeref"
| "read_string _ = Inl BadArgument"

definition snprintf_conv :: "char \<Rightarrow> fmt_arg list \<Rightarrow> (string \<times> fmt_arg list) checked" where
  "snprintf_conv f as =
     (if f = CHR ''d'' then chk_bind (word_arg as) (\<lambda>(w, as). Inr (dec_text w, as))
      else if f = CHR ''s'' then read_string as
      else if f = CHR ''c'' then chk_bind (word_arg as) (\<lambda>(w, as). Inr ([char_of (take_bit 8 (unat w))], as))
      else if f = CHR ''x'' then chk_bind (word_arg as) (\<lambda>(w, as). Inr (hex_text False w, as))
      else if f = CHR ''%'' then Inr (''%'', as)
      else Inr ([CHR ''%'', f], as))"

fun snprintf_loop :: "u32 \<Rightarrow> u32 \<Rightarrow> string \<Rightarrow> fmt_arg list \<Rightarrow> u32 \<times> mem \<Rightarrow> (u32 \<times> mem) checked" where
  "snprintf_loop buffer bsize [] as wm = Inr wm"
| "snprintf_loop buffer bsize (c # p) as wm =
     (if \<not> fst wm < bsize then Inr wm
      else if c = CHR ''%'' \<and> p \<noteq> [] then
        (case p of
           f # p \<Rightarrow> chk_bind (snprintf_conv f as) (\<lambda>(t, as). snprintf_loop buffer bsize p as (put_text buffer bsize t wm)))
      else snprintf_loop buffer bsize p as (put_char buffer bsize c wm))"

definition snprintf :: "u32 \<Rightarrow> u32 \<Rightarrow> string \<Rightarrow> fmt_arg list \<Rightarrow> mem \<Rightarrow> (u32 \<times> mem) checked" where
  "snprintf buffer bsize format as m =
     chk_bind (snprintf_loop buffer bsize format as (0, m)) (\<lambda>(written, m).
       Inr (written, if bsize > 0 then m(buffer + (if written < bsize then written else bsize - 1) := 0) else m))"

section \<open>printf\<close>

text \<open>A \<open>%\<close> at the end of the format prints \<open>%\<close> and the terminating zero, and then reads on behind it.\<close>

fun printf :: "string \<Rightarrow> fmt_arg list \<Rightarrow> 'a screen_scheme \<Rightarrow> 'a screen_scheme checked" where
  "printf [] as s = Inr s"
| "printf (c # p) as s =
     (if c \<noteq> CHR ''%'' then printf p as (cprint (of_char c) s)
      else (case p of
              [] \<Rightarrow> Inl OutOfBounds
            | f # p \<Rightarrow>
                if f = CHR ''d'' then chk_bind (word_arg as) (\<lambda>(w, as). printf p as (puts (dec_text w) s))
                else if f = CHR ''s'' then
                  chk_bind (read_string as) (\<lambda>(t, as). chk_bind (viprintf t [] s) (\<lambda>s. printf p as s))
                else if f = CHR ''c'' then chk_bind (word_arg as) (\<lambda>(w, as). printf p as (cprint (ucast w) s))
                else if f = CHR ''x'' \<or> f = CHR ''X'' then
                  chk_bind (word_arg as) (\<lambda>(w, as). printf p as (puts (hex_text (f = CHR ''X'') w) s))
                else if f = CHR ''%'' then printf p as (cprint (of_char f) s)
                else printf p as (cprint (of_char f) (cprint (of_char c) s))))"

section \<open>Console events on the screen\<close>

text \<open>\<open>shell_redraw_line\<close> of \<open>kernel/shell.c\<close>: the line is drawn again in the row the cursor is in.\<close>

definition redraw_line :: "string \<Rightarrow> string \<Rightarrow> int \<Rightarrow> 'a screen_scheme \<Rightarrow> 'a screen_scheme checked" where
  "redraw_line prompt line x s =
     (let row = get_cursor_row s;
          s = set_cursor_position 0 row (clear_screen_row row s)
      in chk_bind (viprintf prompt [] s) (\<lambda>s. Inr (set_cursor_position x row (puts line s))))"

definition show_event :: "console_event \<Rightarrow> 'a screen_scheme \<Rightarrow> 'a screen_scheme checked" where
  "show_event e s =
     (case e of
        Viprint t \<Rightarrow> viprintf t [] s
      | Printf f as \<Rightarrow> printf f as s
      | Hexprint v \<Rightarrow> hexprint_screen v s
      | Cprint c \<Rightarrow> Inr (cprint c s)
      | Set_text_color fg bg \<Rightarrow> Inr (set_text_color fg bg s)
      | Init_screen \<Rightarrow> Inr (init_screen s)
      | Clear_screen \<Rightarrow> Inr (clear_screen s)
      | Has_loaded \<Rightarrow> has_loaded s
      | Vga_cell i v \<Rightarrow> Inr (s\<lparr>vga := (vga s)(i := v)\<rparr>)
      | Set_cursor_position x y \<Rightarrow> Inr (set_cursor_position x y s)
      | Redraw_line prompt line x \<Rightarrow> redraw_line prompt line x s)"

fun show_events :: "console_event list \<Rightarrow> 'a screen_scheme \<Rightarrow> 'a screen_scheme checked" where
  "show_events [] s = Inr s"
| "show_events (e # es) s = chk_bind (show_event e s) (show_events es)"

section \<open>lib/stdlib.c\<close>

text \<open>The in-place reversal of the characters between two pointers.\<close>

function reverse_between :: "string \<Rightarrow> nat \<Rightarrow> nat \<Rightarrow> string" where
  "reverse_between xs p1 p2 =
     (if p1 < p2 then reverse_between (xs[p1 := xs ! p2, p2 := xs ! p1]) (p1 + 1) (p2 - 1) else xs)"
  by pat_completeness auto
termination by (relation "measure (\<lambda>(xs, i, j). j)") auto

declare reverse_between.simps [simp del]

text \<open>\<open>do \<dots> while (ud /= divisor)\<close>: at least one digit.\<close>

function itoa_digits :: "u32 \<Rightarrow> u32 \<Rightarrow> string" where
  "itoa_digits ud divisor =
     (if ud div divisor = 0 \<or> divisor < 2 then [digit_char (ud mod divisor)]
      else digit_char (ud mod divisor) # itoa_digits (ud div divisor) divisor)"
  by pat_completeness auto
termination
proof (relation "measure (\<lambda>(v, b). unat v)")
  fix ud divisor :: u32
  assume a: "\<not> (ud div divisor = 0 \<or> divisor < 2)"
  then have "0 < unat ud" by (auto simp: unat_gt_0)
  moreover have "1 < unat divisor" using a by (simp add: word_less_nat_alt)
  ultimately have "unat ud div unat divisor < unat ud" by (intro div_less_dividend)
  then show "((ud div divisor, divisor), ud, divisor) \<in> measure (\<lambda>(v, b). unat v)"
    by (simp add: unat_div)
qed simp

declare itoa_digits.simps [simp del]

text \<open>The string \<open>itoa\<close> leaves in its buffer.\<close>

definition itoa_buf :: "char \<Rightarrow> u32 \<Rightarrow> string" where
  "itoa_buf base d =
     (let neg = base = CHR ''d'' \<and> sint d < 0;
          ud = (if neg then - d else d);
          divisor = (if neg then 10 else if base = CHR ''x'' then 16 else 10);
          digits = itoa_digits ud divisor
      in (if neg then ''-'' else '''') @ reverse_between digits 0 (length digits - 1))"

section \<open>Properties of snprintf\<close>

text \<open>The text a format stands for, without a bound.\<close>

fun snprintf_text :: "string \<Rightarrow> fmt_arg list \<Rightarrow> string checked" where
  "snprintf_text [] as = Inr []"
| "snprintf_text [c] as = Inr [c]"
| "snprintf_text (c # f # p) as =
     (if c \<noteq> CHR ''%'' then chk_bind (snprintf_text (f # p) as) (\<lambda>t. Inr (c # t))
      else chk_bind (snprintf_conv f as) (\<lambda>(t, as). chk_bind (snprintf_text p as) (\<lambda>u. Inr (t @ u))))"

lemma put_text_full: "\<not> w < bsize \<Longrightarrow> put_text buffer bsize t (w, m) = (w, m)"
  by (induction t) (simp_all add: put_char_def)

lemma snprintf_loop_full: "\<not> w < bsize \<Longrightarrow> snprintf_loop buffer bsize f as (w, m) = Inr (w, m)"
  by (cases f) simp_all

lemma snprintf_loop_text:
  assumes "snprintf_text f as = Inr t"
  shows "snprintf_loop buffer bsize f as wm = Inr (put_text buffer bsize t wm)"
  using assms
proof (induction f as arbitrary: t wm rule: snprintf_text.induct)
  case (1 as)
  then show ?case by simp
next
  case (2 c as)
  then show ?case
    by (cases wm) (auto simp: put_char_def)
next
  case (3 c f p as)
  obtain w m where wm: "wm = (w, m)" by (cases wm)
  show ?case
  proof (cases "w < bsize")
    case False
    then show ?thesis by (simp add: wm put_text_full)
  next
    case less: True
    show ?thesis
    proof (cases "c = CHR ''%''")
      case False
      then obtain u where u: "snprintf_text (f # p) as = Inr u" "t = c # u"
        using 3(3) by (auto simp: chk_bind_Inr)
      from 3(1)[OF False u(1)] False less show ?thesis by (simp add: wm u(2))
    next
      case True
      then obtain a as' u where c: "snprintf_conv f as = Inr (a, as')" "snprintf_text p as' = Inr u" "t = a @ u"
        using 3(3) by (auto simp: chk_bind_Inr)
      have "\<not> c \<noteq> CHR ''%''" using True by simp
      from 3(2)[OF this c(2)] True less c(1,3) show ?thesis by (simp add: wm)
    qed
  qed
qed

text \<open>Characters stored one after the other.\<close>

fun store_text :: "u32 \<Rightarrow> string \<Rightarrow> mem \<Rightarrow> mem" where
  "store_text b [] m = m"
| "store_text b (c # t) m = store_text (b + 1) t (m(b := of_char c))"

lemma store_text_append: "store_text b (t @ u) m = store_text (b + of_nat (length t)) u (store_text b t m)"
  by (induction t arbitrary: b m) (simp_all add: add.assoc)

lemma store_text_outside: "a \<notin> payload b (length t) \<Longrightarrow> store_text b t m a = m a"
  by (induction t arbitrary: b m) (simp_all add: payload_Suc)

lemma store_text_cstring:
  assumes "length t < 2 ^ 32" "\<forall>c \<in> set t. of_char c \<noteq> (0 :: u8)"
  shows "cstring ((store_text b t m)(b + of_nat (length t) := 0)) b (map of_char t)"
  using assms
proof (induction t arbitrary: b m)
  case Nil
  then show ?case by simp
next
  case (Cons c t)
  let ?m = "(store_text b (c # t) m)(b + of_nat (length (c # t)) := 0)"
  have "b \<notin> payload (b + 1) (Suc (length t))" using Cons.prems(1) by (intro next_payload) simp
  then have b: "b \<notin> payload (b + 1) (length t)" "b \<noteq> b + of_nat (length (c # t))"
    using Cons.prems(1) in_payload_iff[of "Suc (length t)" b "b + 1"] payload_mono[of "length t" "Suc (length t)" "b + 1"]
    by (auto simp: algebra_simps)
  have hd: "?m b = of_char c" using b by (simp add: store_text_outside)
  have eq: "?m = (store_text (b + 1) t (m(b := of_char c)))(b + 1 + of_nat (length t) := 0)"
    by (simp add: add.assoc)
  have tl: "cstring ?m (b + 1) (map of_char t)"
    unfolding eq by (rule Cons.IH) (use Cons.prems in auto)
  have "of_char c \<noteq> (0 :: u8)" using Cons.prems(2) by simp
  with hd tl show ?case by (simp only: list.map cstring.simps simp_thms)
qed

lemma put_text_store:
  assumes "w \<le> bsize"
  shows "put_text buffer bsize t (w, m) =
    (w + of_nat (min (length t) (unat bsize - unat w)),
     store_text (buffer + w) (take (unat bsize - unat w) t) m)"
  using assms
proof (induction t arbitrary: w m)
  case Nil
  then show ?case by simp
next
  case (Cons c t)
  show ?case
  proof (cases "w < bsize")
    case True
    then have "unat w < unat bsize" "unat bsize < 2 ^ 32"
      using unsigned_less[of bsize] by (simp_all add: word_less_nat_alt)
    then have u: "unat (w + 1) = unat w + 1" "w + 1 \<le> bsize"
      by (simp_all add: word_le_nat_alt unat_word_ariths)
    then have d: "unat bsize - unat w = Suc (unat bsize - unat (w + 1))"
      using True by (simp add: word_less_nat_alt)
    show ?thesis
      using True Cons.IH[OF u(2)] by (simp add: put_char_def d add.assoc fun_upd_def)
  next
    case False
    with Cons.prems have w: "w = bsize" by simp
    show ?thesis using put_text_full[of bsize bsize buffer "c # t" m] by (simp only: w) simp
  qed
qed

lemma snprintf_run:
  assumes "snprintf_text f as = Inr t"
  shows "snprintf buffer bsize f as m =
    Inr (of_nat (min (length t) (unat bsize)),
      if bsize > 0 then (store_text buffer (take (unat bsize) t) m)
          (buffer + (if of_nat (min (length t) (unat bsize)) < bsize
             then of_nat (min (length t) (unat bsize)) else bsize - 1) := 0)
      else store_text buffer (take (unat bsize) t) m)"
  by (simp add: snprintf_def snprintf_loop_text[OF assms] put_text_store)

text \<open>C14: When the format and its arguments stand for the text \<open>t\<close>, \<open>snprintf\<close> with a buffer of
  \<open>bsize\<close> bytes returns the number of characters it wrote, leaves in the buffer the terminated
  string of the first \<open>bsize - 1\<close> characters of \<open>t\<close>, and writes no byte outside the buffer.\<close>

theorem snprintf_correct:
  assumes t: "snprintf_text f as = Inr t" "\<forall>c \<in> set t. of_char c \<noteq> (0 :: u8)" and b: "0 < bsize"
  shows "\<exists>m'. snprintf buffer bsize f as m = Inr (of_nat (min (length t) (unat bsize)), m') \<and>
    cstring m' buffer (map of_char (take (unat bsize - 1) t)) \<and>
    (\<forall>x. x \<notin> payload buffer (unat bsize) \<longrightarrow> m' x = m x)"
proof -
  define n where "n = unat bsize"
  have n: "0 < n" "n < 2 ^ 32" and bs: "bsize = of_nat n"
    using b unsigned_less[of bsize] by (simp_all add: n_def unat_gt_0 word_greater_zero_iff)
  have less: "(of_nat k :: u32) < bsize \<longleftrightarrow> k < n" if "k \<le> n" for k
    using that n(2) by (simp add: word_less_nat_alt n_def[symmetric] unat_of_nat)
  obtain u v where tk: "take n t = u @ v" and u: "u = take (n - 1) t" and l: "length u < n" and lv: "length v \<le> 1"
  proof
    show "take n t = take (n - 1) t @ take 1 (drop (n - 1) t)"
      using n(1) by (metis Suc_diff_1 Suc_eq_plus1 take_add)
  qed (use n in auto)
  define p where "p = (if of_nat (min (length t) n) < bsize then of_nat (min (length t) n) else bsize - 1)"
  have p: "p = of_nat (length u)"
  proof (cases "length t < n")
    case True
    then show ?thesis using less[of "length t"] by (simp add: p_def u min_def)
  next
    case False
    then have "p = bsize - 1" using less[of n] by (simp add: p_def)
    moreover have "length u = n - 1" using False by (simp add: u)
    ultimately show ?thesis using n(1) by (simp add: bs of_nat_diff)
  qed
  let ?m = "(store_text buffer (take n t) m)(buffer + p := 0)"
  have eq: "?m = (store_text buffer u m)(buffer + of_nat (length u) := 0)"
  proof (cases v)
    case Nil
    then show ?thesis by (simp add: tk p)
  next
    case (Cons c v')
    with lv have "v = [c]" by simp
    then show ?thesis by (simp add: tk p store_text_append)
  qed
  have "cstring ?m buffer (map of_char u)"
    unfolding eq by (rule store_text_cstring) (use l n t(2) in \<open>auto simp: u dest: in_set_takeD\<close>)
  moreover have "?m x = m x" if "x \<notin> payload buffer n" for x
  proof -
    have "x \<noteq> buffer + of_nat (length u)"
      using that in_payload_iff[of n x buffer] l n by auto
    moreover have "x \<notin> payload buffer (length u)"
      using that payload_mono[of "length u" n buffer] l by auto
    ultimately show ?thesis unfolding eq by (simp add: store_text_outside)
  qed
  moreover have "snprintf buffer bsize f as m = Inr (of_nat (min (length t) (unat bsize)), ?m)"
    using snprintf_run[OF t(1), of buffer bsize m] b by (simp only: p_def n_def if_True)
  ultimately show ?thesis unfolding u n_def by blast
qed

theorem snprintf_correct_witness:
  "\<exists>m'. snprintf 100 4 ''%d!%s'' [Word_arg (- 5), Str_arg (Some ''abc'')] hello_mem = Inr (4, m') \<and>
     cstring m' 100 [45, 53, 33]"
proof -
  have d: "dec_text (- 5) = ''-5''" by code_simp
  have t: "snprintf_text ''%d!%s'' [Word_arg (- 5), Str_arg (Some ''abc'')] = Inr ''-5!abc''"
    by (simp add: snprintf_conv_def d)
  have nz: "\<forall>c \<in> set ''-5!abc''. of_char c \<noteq> (0 :: u8)" by code_simp
  have m: "map of_char (take (unat (4 :: u32) - 1) ''-5!abc'') = [45, 53, 33 :: u8]" by code_simp
  have len: "of_nat (min (length ''-5!abc'') (unat (4 :: u32))) = (4 :: u32)" by simp
  have "(0 :: u32) < 4" by simp
  from snprintf_correct[OF t nz this, of 100 hello_mem, unfolded m len] show ?thesis by blast
qed

section \<open>Properties of printf\<close>

text \<open>\<open>printf\<close> hands the argument of \<open>%s\<close> to \<open>viprint\<close> as a format without arguments, so a
  percent sign in the argument is interpreted, and a conversion in it reads an argument that was
  never passed.\<close>

lemma printf_string: "printf ''%s'' [Str_arg (Some t)] s = viprintf t [] s"
  by (cases "viprintf t [] s") simp_all

lemma printf_percent_in_argument:
  "printf ''%s'' [Str_arg (Some ''100%d'')] s = Inl BadArgument"
  by (simp add: printf_string conversion_def)

lemma printf_trailing_percent: "printf ''%'' as s = Inl OutOfBounds"
  by simp

text \<open>The smallest \<open>int\<close> has no digits: its negation is not positive.\<close>

lemma dec_text_int_min: "dec_text 0x80000000 = ''-''"
  by code_simp

section \<open>Properties of itoa\<close>

lemma reverse_between_mid:
  "reverse_between (us @ xs @ vs) (length us) (length us + length xs - 1) = us @ rev xs @ vs"
proof (induction "length xs" arbitrary: xs us vs rule: less_induct)
  case less
  show ?case
  proof (cases "length xs < 2")
    case True
    then have "rev xs = xs" "\<not> length us < length us + length xs - 1" by (cases xs; auto)+
    then show ?thesis by (subst reverse_between.simps) simp
  next
    case False
    then obtain a ys b where xs: "xs = a # ys @ [b]"
      by (metis append_Cons append_Nil length_Cons length_append_singleton less_2_cases_iff list.exhaust list.size(3) rev_exhaust)
    let ?l = "us @ xs @ vs"
    have swap: "?l[length us := ?l ! (length us + length xs - 1), length us + length xs - 1 := ?l ! length us]
        = (us @ [b]) @ ys @ (a # vs)"
      by (simp add: xs nth_append list_update_append)
    have "reverse_between ?l (length us) (length us + length xs - 1) =
        reverse_between ((us @ [b]) @ ys @ (a # vs)) (length us + 1) (length us + length xs - 1 - 1)"
      by (subst reverse_between.simps) (use swap in \<open>simp add: xs\<close>)
    also have "\<dots> = (us @ [b]) @ rev ys @ (a # vs)"
      using less(1)[of ys "us @ [b]" "a # vs"] by (simp add: xs)
    finally show ?thesis by (simp add: xs)
  qed
qed

lemma reverse_between_rev: "reverse_between xs 0 (length xs - 1) = rev xs"
  using reverse_between_mid[of "[]" xs "[]"] by simp

lemma itoa_digits_utoa:
  assumes "2 \<le> b"
  shows "itoa_digits v b = (if v = 0 then ''0'' else utoa_digits v b)"
  using assms
proof (induction v b rule: itoa_digits.induct)
  case (1 v b)
  have b: "\<not> b < 2" using 1(2) by simp
  have d0: "digit_char 0 = CHR ''0''" by code_simp
  show ?case
  proof (cases "v div b = 0")
    case True
    then show ?thesis
      using b d0 by (subst itoa_digits.simps) (auto simp: utoa_digits.simps[of v b] utoa_digits.simps[of 0 b])
  next
    case False
    then have "v \<noteq> 0" by auto
    with False b 1 show ?thesis
      by (subst itoa_digits.simps) (simp add: utoa_digits.simps[of v b])
  qed
qed

lemma hex_digits_utoa: "hex_digits False v = utoa_digits v 16"
proof (induction False v rule: hex_digits.induct)
  case (1 num)
  have "hex_digit False d = digit_char d" for d
    by (simp add: hex_digit_def digit_char_def add.commute)
  with 1 show ?case
    by (cases "num = 0") (simp_all add: hex_digits.simps[of False num] utoa_digits.simps[of num 16]
        hex_digits.simps[of False 0] utoa_digits.simps[of 0 16])
qed

lemma sint_neg_pos:
  fixes n :: u32
  assumes "sint n < 0" "n \<noteq> 0x80000000"
  shows "0 < sint (- n)"
proof -
  have "sint n \<noteq> - (2 ^ 31)"
  proof
    assume "sint n = - (2 ^ 31)"
    then have "word_of_int (sint n) = (word_of_int (- (2 ^ 31)) :: u32)" by simp
    moreover have "word_of_int (sint n) = n" by simp
    ultimately show False using assms(2) by simp
  qed
  moreover have "- (2 ^ 31) \<le> sint n" using sint_ge[of n] by simp
  ultimately have "signed_take_bit 31 (- sint n) = - sint n"
    using assms(1) by (intro signed31_self) simp_all
  moreover have "sint (- n) = signed_take_bit 31 (- sint n)"
    using sint_word_ariths(4)[of n] by simp
  ultimately show ?thesis using assms(1) by simp
qed

text \<open>The four routines that print numbers agree: \<open>itoa\<close> of \<open>stdlib.c\<close> leaves the digits that
  \<open>viprint\<close> prints, in decimal and in hexadecimal, and so do \<open>printf\<close> and \<open>snprintf\<close>, except
  that these two print the smallest \<open>int\<close> as a lone minus sign.\<close>

theorem number_routines_agree:
  "itoa_buf CHR ''d'' num = itoa num \<and> itoa_buf CHR ''x'' num = utoa num 16 \<and>
   hex_text False num = utoa num 16 \<and>
   dec_text num = (if num = 0x80000000 then ''-'' else itoa num)"
proof (intro conjI)
  have two: "(2 :: u32) \<le> 10" "(2 :: u32) \<le> 16" by (simp_all add: word_le_nat_alt)
  have buf: "(if v = 0 then ''0'' else rev (utoa_digits v b)) = rev (itoa_digits v b)" if "2 \<le> b" for v b
    by (simp add: itoa_digits_utoa[OF that])
  show "itoa_buf CHR ''d'' num = itoa num" "itoa_buf CHR ''x'' num = utoa num 16"
    by (simp_all add: itoa_buf_def itoa_def utoa_def Let_def reverse_between_rev[simplified] buf[OF two(1)] buf[OF two(2)]
      itoa_digits_utoa[OF two(1)] itoa_digits_utoa[OF two(2)])
  show "hex_text False num = utoa num 16"
    by (simp add: hex_text_def utoa_def hex_digits_utoa)
  show "dec_text num = (if num = 0x80000000 then ''-'' else itoa num)"
  proof (cases "num = 0x80000000")
    case True
    then show ?thesis by (simp add: dec_text_int_min)
  next
    case False
    have "sint num \<noteq> 0" if "num \<noteq> 0"
    proof
      assume "sint num = 0"
      moreover have "word_of_int (sint num) = num" by simp
      ultimately show False using that by simp
    qed
    with False sint_neg_pos[of num] show ?thesis
      by (auto simp: dec_text_def itoa_def utoa_def dec_digits_def Let_def)
  qed
qed

end
