(* ===== verification/Ps2.thy ===== *)
theory Ps2
  imports Machine
begin

text \<open>
  \<open>cpu/ps2.c\<close>: the controller of the keyboard. Its loops wait for the device; a wait that the
  device never ends is the result \<open>None\<close>.
\<close>

definition check_ps2_status :: "'a machine_scheme \<Rightarrow> 'a machine_scheme" where
  "check_ps2_status s =
     (let (status, s) = inb 0x64 s;
          s = (if status AND 0x20 \<noteq> 0 then viprint (''Timeout error'' @ newline) s else s)
      in if status AND 0x40 \<noteq> 0 then viprint (''Parity error'' @ newline) s else s)"

definition scanning_on :: "'a machine_scheme \<Rightarrow> 'a machine_scheme" where
  "scanning_on s = viprint (''Scanning on'' @ newline) (con Has_loaded (outb 0x60 0xF4 s))"

text \<open>The two waiting loops: for a full output buffer, and for an empty input buffer.\<close>

partial_function (option) wait_readable :: "'a machine_scheme \<Rightarrow> 'a machine_scheme option" where
  "wait_readable s = (let (v, s) = inb 0x64 s in if v AND 1 \<noteq> 0 then Some s else wait_readable s)"

partial_function (option) wait_writable :: "'a machine_scheme \<Rightarrow> 'a machine_scheme option" where
  "wait_writable s = (let (v, s) = inb 0x64 s in if v AND 2 \<noteq> 0 then wait_writable s else Some s)"

definition ps2_read :: "'a machine_scheme \<Rightarrow> (u8 \<times> 'a machine_scheme) option" where
  "ps2_read s =
     Option.bind (wait_readable s) (\<lambda>s.
       let (data, s) = inb 0x60 s;
           s = viprint ''Scancode: '' s;
           s = hexprint (ucast data) s
       in Some (data, viprint newline s))"

definition ps2_write :: "u16 \<Rightarrow> u8 \<Rightarrow> 'a machine_scheme \<Rightarrow> 'a machine_scheme option" where
  "ps2_write port data s = map_option (outb port data) (wait_writable s)"

text \<open>\<open>while (inb(status) & 1) inb(data)\<close>\<close>

partial_function (option) ps2_flush :: "'a machine_scheme \<Rightarrow> 'a machine_scheme option" where
  "ps2_flush s =
     (let (v, s) = inb 0x64 s in if v AND 1 \<noteq> 0 then ps2_flush (snd (inb 0x60 s)) else Some s)"

text \<open>\<open>while (ps2_read() != 0xFA)\<close>\<close>

partial_function (option) ps2_wait_ack :: "'a machine_scheme \<Rightarrow> 'a machine_scheme option" where
  "ps2_wait_ack s =
     Option.bind (ps2_read s) (\<lambda>(data, s). if data = 0xFA then Some s else ps2_wait_ack s)"

definition ps2_init :: "'a machine_scheme \<Rightarrow> 'a machine_scheme option" where
  "ps2_init s =
     Option.bind (ps2_write 0x64 0xAD s) (\<lambda>s.
     Option.bind (ps2_write 0x64 0xA7 s) (\<lambda>s.
     Option.bind (ps2_flush s) (\<lambda>s.
     Option.bind (ps2_write 0x64 0x20 s) (\<lambda>s.
     Option.bind (ps2_read s) (\<lambda>(config, s).
     Option.bind (ps2_write 0x64 0x60 s) (\<lambda>s.
     Option.bind (ps2_write 0x60 (config OR 0x03) s) (\<lambda>s.
     Option.bind (ps2_write 0x64 0xAE s) (\<lambda>s.
     Option.bind (ps2_write 0x64 0xA8 s) (\<lambda>s.
     Option.bind (ps2_write 0x60 0xFF s) (\<lambda>s.
     Option.bind (ps2_wait_ack s) (\<lambda>s.
     Some (check_ps2_status (scanning_on s)))))))))))))"

declare wait_readable.simps [code] wait_writable.simps [code] ps2_flush.simps [code] ps2_wait_ack.simps [code]

end
