(* ===== verification/Key_Maps.thy ===== *)
theory Key_Maps
  imports Main
begin

text \<open>
  \<open>drivers/keyboard/include/key_maps.h\<close>: for every layout the names of the keys by scancode,
  byte for byte; the entries that a table leaves out are \<open>NULL\<close>. A key that types a character has
  a name of one byte.
\<close>

definition qwerty_lowercase_key_map :: "string list" where
  "qwerty_lowercase_key_map = [
    ''ERROR'', ''ESC'', ''1'', ''2'', ''3'', ''4'',
    ''5'', ''6'', ''7'', ''8'', ''9'', ''0'',
    ''-'', ''='', ''Backspace'', ''Tab'', ''q'', ''w'',
    ''e'', ''r'', ''t'', ''y'', ''u'', ''i'',
    ''o'', ''p'', ''['', '']'', ''ENTER'', ''LCtrl'',
    ''a'', ''s'', ''d'', ''f'', ''g'', ''h'',
    ''j'', ''k'', ''l'', '';'', [CHR 0x27], [CHR 0x60],
    ''LShift'', [CHR 0x5C], ''z'', ''x'', ''c'', ''v'',
    ''b'', ''n'', ''m'', '','', ''.'', ''/'',
    ''RShift'', ''Keypad *'', ''LAlt'', '' '', ''CapsLock'', ''F1'',
    ''F2'', ''F3'', ''F4'', ''F5'', ''F6'', ''F7'',
    ''F8'', ''F9'', ''F10'', ''NumLock'', ''ScrollLock'', ''Keypad 7'',
    ''Keypad 8'', ''Keypad 9'', ''Keypad -'', ''Keypad 4'', ''Keypad 5'', ''Keypad 6'',
    ''Keypad +'', ''Keypad 1'', ''Keypad 2'', ''Keypad 3'', ''Keypad 0'', ''Keypad .'',
    ''F11'', ''F12'']"

definition qwerty_uppercase_key_map :: "string list" where
  "qwerty_uppercase_key_map = [
    ''ERROR'', ''ESC'', ''!'', ''@'', ''#'', ''$'',
    ''%'', ''^'', ''&'', ''*'', ''('', '')'',
    ''_'', ''+'', ''Backspace'', ''Tab'', ''Q'', ''W'',
    ''E'', ''R'', ''T'', ''Y'', ''U'', ''I'',
    ''O'', ''P'', ''{'', ''}'', ''ENTER'', ''LCtrl'',
    ''A'', ''S'', ''D'', ''F'', ''G'', ''H'',
    ''J'', ''K'', ''L'', '':'', [CHR 0x22], ''~'',
    ''LShift'', ''|'', ''Z'', ''X'', ''C'', ''V'',
    ''B'', ''N'', ''M'', ''<'', ''>'', ''?'',
    ''RShift'', ''Keypad *'', ''LAlt'', '' '', ''CapsLock'', ''F1'',
    ''F2'', ''F3'', ''F4'', ''F5'', ''F6'', ''F7'',
    ''F8'', ''F9'', ''F10'', ''NumLock'', ''ScrollLock'', ''Keypad 7'',
    ''Keypad 8'', ''Keypad 9'', ''Keypad -'', ''Keypad 4'', ''Keypad 5'', ''Keypad 6'',
    ''Keypad +'', ''Keypad 1'', ''Keypad 2'', ''Keypad 3'', ''Keypad 0'', ''Keypad .'',
    ''F11'', ''F12'']"

definition azerty_lowercase_key_map :: "string list" where
  "azerty_lowercase_key_map = [
    ''ERROR'', ''ESC'', ''&'', [CHR 0xC3, CHR 0xA9], [CHR 0x22], [CHR 0x27],
    ''('', ''-'', [CHR 0xC3, CHR 0xA8], ''_'', [CHR 0xC3, CHR 0xA7], [CHR 0xC3, CHR 0xA0],
    '')'', ''='', ''Backspace'', ''Tab'', ''a'', ''z'',
    ''e'', ''r'', ''t'', ''y'', ''u'', ''i'',
    ''o'', ''p'', ''^'', ''$'', ''ENTER'', ''LCtrl'',
    ''q'', ''s'', ''d'', ''f'', ''g'', ''h'',
    ''j'', ''k'', ''l'', ''m'', [CHR 0xC3, CHR 0xB9], [CHR 0x60],
    ''LShift'', ''*'', ''w'', ''x'', ''c'', ''v'',
    ''b'', ''n'', '','', '';'', '':'', ''!'',
    ''RShift'', ''Keypad *'', ''LAlt'', '' '', ''CapsLock'', ''F1'',
    ''F2'', ''F3'', ''F4'', ''F5'', ''F6'', ''F7'',
    ''F8'', ''F9'', ''F10'', ''NumLock'', ''ScrollLock'', ''Keypad 7'',
    ''Keypad 8'', ''Keypad 9'', ''Keypad -'', ''Keypad 4'', ''Keypad 5'', ''Keypad 6'',
    ''Keypad +'', ''Keypad 1'', ''Keypad 2'', ''Keypad 3'', ''Keypad 0'', ''Keypad .'',
    ''F11'', ''F12'']"

definition azerty_uppercase_key_map :: "string list" where
  "azerty_uppercase_key_map = [
    ''ERROR'', ''ESC'', ''1'', ''2'', ''3'', ''4'',
    ''5'', ''6'', ''7'', ''8'', ''9'', ''0'',
    [CHR 0xC2, CHR 0xB0], ''+'', ''Backspace'', ''Tab'', ''A'', ''Z'',
    ''E'', ''R'', ''T'', ''Y'', ''U'', ''I'',
    ''O'', ''P'', [CHR 0xC2, CHR 0xA8], [CHR 0xC2, CHR 0xA3], ''ENTER'', ''LCtrl'',
    ''Q'', ''S'', ''D'', ''F'', ''G'', ''H'',
    ''J'', ''K'', ''L'', ''M'', ''%'', ''~'',
    ''LShift'', [CHR 0xC2, CHR 0xB5], ''W'', ''X'', ''C'', ''V'',
    ''B'', ''N'', ''?'', ''.'', ''/'', [CHR 0xC2, CHR 0xA7],
    ''RShift'', ''Keypad *'', ''LAlt'', '' '', ''CapsLock'', ''F1'',
    ''F2'', ''F3'', ''F4'', ''F5'', ''F6'', ''F7'',
    ''F8'', ''F9'', ''F10'', ''NumLock'', ''ScrollLock'', ''Keypad 7'',
    ''Keypad 8'', ''Keypad 9'', ''Keypad -'', ''Keypad 4'', ''Keypad 5'', ''Keypad 6'',
    ''Keypad +'', ''Keypad 1'', ''Keypad 2'', ''Keypad 3'', ''Keypad 0'', ''Keypad .'',
    ''F11'', ''F12'']"

definition dvorak_lowercase_key_map :: "string list" where
  "dvorak_lowercase_key_map = [
    ''ERROR'', ''ESC'', ''1'', ''2'', ''3'', ''4'',
    ''5'', ''6'', ''7'', ''8'', ''9'', ''0'',
    ''['', '']'', ''Backspace'', ''Tab'', [CHR 0x27], '','',
    ''.'', ''p'', ''y'', ''f'', ''g'', ''c'',
    ''r'', ''l'', ''/'', ''='', ''ENTER'', ''LCtrl'',
    ''a'', ''o'', ''e'', ''u'', ''i'', ''d'',
    ''h'', ''t'', ''n'', ''s'', ''-'', [CHR 0x60],
    ''LShift'', [CHR 0x5C], '';'', ''q'', ''j'', ''k'',
    ''x'', ''b'', ''m'', ''w'', ''v'', ''z'',
    ''RShift'', ''Keypad *'', ''LAlt'', '' '', ''CapsLock'', ''F1'',
    ''F2'', ''F3'', ''F4'', ''F5'', ''F6'', ''F7'',
    ''F8'', ''F9'', ''F10'', ''NumLock'', ''ScrollLock'', ''Keypad 7'',
    ''Keypad 8'', ''Keypad 9'', ''Keypad -'', ''Keypad 4'', ''Keypad 5'', ''Keypad 6'',
    ''Keypad +'', ''Keypad 1'', ''Keypad 2'', ''Keypad 3'', ''Keypad 0'', ''Keypad .'',
    ''F11'', ''F12'']"

definition dvorak_uppercase_key_map :: "string list" where
  "dvorak_uppercase_key_map = [
    ''ERROR'', ''ESC'', ''!'', ''@'', ''#'', ''$'',
    ''%'', ''^'', ''&'', ''*'', ''('', '')'',
    ''{'', ''}'', ''Backspace'', ''Tab'', [CHR 0x22], ''<'',
    ''>'', ''P'', ''Y'', ''F'', ''G'', ''C'',
    ''R'', ''L'', ''?'', ''+'', ''ENTER'', ''LCtrl'',
    ''A'', ''O'', ''E'', ''U'', ''I'', ''D'',
    ''H'', ''T'', ''N'', ''S'', ''_'', ''~'',
    ''LShift'', ''|'', '':'', ''Q'', ''J'', ''K'',
    ''X'', ''B'', ''M'', ''W'', ''V'', ''Z'',
    ''RShift'', ''Keypad *'', ''LAlt'', '' '', ''CapsLock'', ''F1'',
    ''F2'', ''F3'', ''F4'', ''F5'', ''F6'', ''F7'',
    ''F8'', ''F9'', ''F10'', ''NumLock'', ''ScrollLock'', ''Keypad 7'',
    ''Keypad 8'', ''Keypad 9'', ''Keypad -'', ''Keypad 4'', ''Keypad 5'', ''Keypad 6'',
    ''Keypad +'', ''Keypad 1'', ''Keypad 2'', ''Keypad 3'', ''Keypad 0'', ''Keypad .'',
    ''F11'', ''F12'']"

definition fallback_map :: "string list" where
  "fallback_map = [
    ''ERROR'', ''ESC'', ''1'', ''2'', ''3'', ''4'',
    ''5'', ''6'', ''7'', ''8'', ''9'', ''0'',
    ''-'', ''='', ''Backspace'', ''Tab'', ''Q'', ''W'',
    ''E'', ''R'', ''T'', ''Y'', ''I'', ''O'',
    ''P'', ''['', '']'', ''ENTER'', ''LCtrl'', ''A'',
    ''S'', ''D'', ''F'', ''G'', ''H'', ''J'',
    ''K'', ''L'', '';'', [CHR 0x27], [CHR 0x60], ''LShift'',
    [CHR 0x5C], ''Z'', ''X'', ''C'', ''V'', ''B'',
    ''N'', ''M'', '','', ''.'', ''/'', ''RShift'',
    ''Keypad *'', ''LAlt'', '' '', ''CapsLock'', ''F1'', ''F2'',
    ''F3'', ''F4'', ''F5'', ''F6'', ''F7'', ''F8'',
    ''F9'', ''F10'', ''NumLock'', ''ScrollLock'', ''Keypad 7'', ''Keypad 8'',
    ''Keypad 9'', ''Keypad -'', ''Keypad 4'', ''Keypad 5'', ''Keypad 6'', ''Keypad +'',
    ''Keypad 1'', ''Keypad 2'', ''Keypad 3'', ''Keypad 0'', ''Keypad .'', ''Unknown'',
    ''Unknown'', ''Unknown'', ''F11'', ''F12'']"

end
