(* ===== verification/Fifo.thy ===== *)
theory Fifo
  imports Prelude
begin

text \<open>
  Queues of bytes in an array with a head and a tail index, as the keyboard driver and the
  scancode queue of the kernel have them: the list of values they stand for, and the contract
  of a queue that the clients rely on.
\<close>

section \<open>Rings\<close>

text \<open>The values from index \<open>t\<close> up to, not including, index \<open>h\<close>, modulo \<open>n\<close>.\<close>

definition ring :: "(nat \<Rightarrow> 'v) \<Rightarrow> nat \<Rightarrow> nat \<Rightarrow> nat \<Rightarrow> 'v list" where
  "ring b n h t = map (\<lambda>i. b ((t + i) mod n)) [0..<(h + n - t) mod n]"

lemma ring_length: "length (ring b n h t) = (h + n - t) mod n"
  by (simp add: ring_def)

lemma ring_count:
  fixes h n t :: nat
  assumes "h < n" "t < n"
  shows "(h + n - t) mod n = (if t \<le> h then h - t else h + n - t)"
proof (cases "t \<le> h")
  case True
  then have "h + n - t = (h - t) + n" by simp
  with True assms show ?thesis by (simp only: mod_add_self2) simp
next
  case False
  with assms show ?thesis by simp
qed

lemma next_index: "(h :: nat) < n \<Longrightarrow> (h + 1) mod n = (if h + 1 = n then 0 else h + 1)"
  by simp

lemma index_wrap: "(t :: nat) < n \<Longrightarrow> i < n \<Longrightarrow> (t + i) mod n = (if t + i < n then t + i else t + i - n)"
  by (simp add: mod_if)

lemma ring_empty_iff: "h < n \<Longrightarrow> t < n \<Longrightarrow> ring b n h t = [] \<longleftrightarrow> h = t"
  by (auto simp: ring_def ring_count)

lemma ring_full_iff:
  assumes "h < n" "t < n"
  shows "(h + 1) mod n = t \<longleftrightarrow> length (ring b n h t) = n - 1"
  unfolding ring_length ring_count[OF assms] next_index[OF assms(1)] using assms by auto

lemma ring_put:
  assumes "h < n" "t < n" "(h + 1) mod n \<noteq> t"
  shows "ring (b(h := v)) n ((h + 1) mod n) t = ring b n h t @ [v]"
proof -
  define k where "k = (h + n - t) mod n"
  have k: "k = (if t \<le> h then h - t else h + n - t)" unfolding k_def by (rule ring_count[OF assms(1,2)])
  have n1: "(h + 1) mod n < n" using assms(1) by simp
  have l: "((h + 1) mod n + n - t) mod n = Suc k"
    unfolding ring_count[OF n1 assms(2)] k using assms(1,2) assms(3)[unfolded next_index[OF assms(1)]]
    unfolding next_index[OF assms(1)] by auto
  have kn: "k < n" using assms by (auto simp: k)
  have at: "(t + k) mod n = h" unfolding index_wrap[OF assms(2) kn] using assms by (auto simp: k)
  have other: "(t + i) mod n \<noteq> h" if "i < k" for i
  proof -
    have "i < n" using that kn by simp
    from index_wrap[OF assms(2) this] that assms(1,2) show ?thesis by (auto simp: k split: if_splits)
  qed
  show ?thesis
    unfolding ring_def l k_def[symmetric] using at other by simp
qed

lemma ring_get:
  assumes "h < n" "t < n" "h \<noteq> t"
  shows "ring b n h t = b t # ring b n h ((t + 1) mod n)"
proof -
  have n1: "(t + 1) mod n < n" using assms(2) by simp
  define k where "k = (h + n - (t + 1) mod n) mod n"
  have l: "(h + n - t) mod n = Suc k"
    unfolding k_def ring_count[OF assms(1,2)] ring_count[OF assms(1) n1]
    unfolding next_index[OF assms(2)] using assms by auto
  have shift: "(t + Suc i) mod n = ((t + 1) mod n + i) mod n" for i
    by (metis add.assoc add_Suc_right mod_add_left_eq plus_1_eq_Suc Suc_eq_plus1)
  have m: "map f [0..<Suc k] = f 0 # map (\<lambda>i. f (Suc i)) [0..<k]" for f :: "nat \<Rightarrow> 'a"
    by (simp add: upt_conv_Cons map_Suc_upt[symmetric] comp_def del: upt_Suc)
  show ?thesis
    unfolding ring_def l k_def[symmetric] m shift using assms(2) by simp
qed

lemma ring_cong: "(\<And>i. i < n \<Longrightarrow> b i = b' i) \<Longrightarrow> 0 < n \<Longrightarrow> ring b n h t = ring b' n h t"
  by (simp add: ring_def)

section \<open>The contract of a queue\<close>

text \<open>
  A client's run: \<open>Put v\<close> enqueues, \<open>Get\<close> dequeues when the queue is not empty. The result
  lists what was put (accepted) and what was got.
\<close>

datatype 'v qop = Put 'v | Get

fun queue_run :: "('v \<Rightarrow> 's \<Rightarrow> bool \<times> 's) \<Rightarrow> ('s \<Rightarrow> 'v \<times> 's) \<Rightarrow> ('s \<Rightarrow> bool) \<Rightarrow> 'v qop list \<Rightarrow> 's \<Rightarrow> 'v list \<times> 'v list \<times> 's" where
  "queue_run put get nonempty [] s = ([], [], s)"
| "queue_run put get nonempty (Put v # ops) s =
     (let (ok, s) = put v s; (ins, outs, s) = queue_run put get nonempty ops s
      in (if ok then v # ins else ins, outs, s))"
| "queue_run put get nonempty (Get # ops) s =
     (if nonempty s then
        let (v, s) = get s; (ins, outs, s) = queue_run put get nonempty ops s in (ins, v # outs, s)
      else queue_run put get nonempty ops s)"

locale fifo =
  fixes put :: "'v \<Rightarrow> 's \<Rightarrow> bool \<times> 's" and get :: "'s \<Rightarrow> 'v \<times> 's" and nonempty :: "'s \<Rightarrow> bool"
    and ok :: "'s \<Rightarrow> bool" and contents :: "'s \<Rightarrow> 'v list" and capacity :: nat
  assumes put_room: "ok s \<Longrightarrow> length (contents s) < capacity \<Longrightarrow>
      fst (put v s) \<and> ok (snd (put v s)) \<and> contents (snd (put v s)) = contents s @ [v]"
    and get_first: "ok s \<Longrightarrow> contents s \<noteq> [] \<Longrightarrow>
      ok (snd (get s)) \<and> contents s = fst (get s) # contents (snd (get s))"
    and nonempty_iff: "ok s \<Longrightarrow> nonempty s \<longleftrightarrow> contents s \<noteq> []"
begin

text \<open>As long as there is room for all puts, what was got and what is left is what was put, in order.\<close>

lemma run_in_order:
  assumes "ok s" "length (contents s) + length (filter (\<lambda>x. x \<noteq> Get) ops) \<le> capacity"
    "queue_run put get nonempty ops s = (ins, outs, s')"
  shows "ok s' \<and> contents s @ ins = outs @ contents s' \<and> map Put ins = filter (\<lambda>x. x \<noteq> Get) ops"
  using assms
proof (induction ops arbitrary: s ins outs)
  case Nil
  then show ?case by simp
next
  case (Cons op ops)
  show ?case
  proof (cases op)
    case (Put v)
    obtain b u where u: "put v s = (b, u)" by (cases "put v s")
    obtain ins' outs' where r: "queue_run put get nonempty ops u = (ins', outs', s')"
      "ins = (if b then v # ins' else ins')" "outs = outs'"
      using Cons.prems(3) by (auto simp: Put u split: prod.splits)
    have p: "b" "ok u" "contents u = contents s @ [v]"
      using put_room[OF Cons.prems(1), of v] Cons.prems(2) by (simp_all add: Put u)
    from Cons.IH[OF p(2) _ r(1)] Cons.prems(2) p r show ?thesis by (simp add: Put)
  next
    case Get
    show ?thesis
    proof (cases "contents s = []")
      case True
      with nonempty_iff[OF Cons.prems(1)] have "\<not> nonempty s" by simp
        with Cons.prems Cons.IH[of s ins outs] Get show ?thesis by simp
    next
      case False
      obtain v u where u: "get s = (v, u)" by (cases "get s")
      have g: "ok u" "contents s = v # contents u"
        using get_first[OF Cons.prems(1) False] by (simp_all add: u)
      obtain outs' where r: "queue_run put get nonempty ops u = (ins, outs', s')" "outs = v # outs'"
        using Cons.prems(3) False nonempty_iff[OF Cons.prems(1)] by (auto simp: Get u split: prod.splits)
      from Cons.IH[OF g(1) _ r(1)] Cons.prems(2) g r show ?thesis by (simp add: Get)
    qed
  qed
qed

end

text \<open>A queue that refuses a value when it is full keeps the order whatever the client does.\<close>

locale bounded_fifo = fifo +
  assumes put_full: "ok s \<Longrightarrow> \<not> length (contents s) < capacity \<Longrightarrow>
      \<not> fst (put v s) \<and> ok (snd (put v s)) \<and> contents (snd (put v s)) = contents s"
begin

lemma bounded_run_in_order:
  assumes "ok s" "queue_run put get nonempty ops s = (ins, outs, s')"
  shows "ok s' \<and> contents s @ ins = outs @ contents s'"
  using assms
proof (induction ops arbitrary: s ins outs)
  case Nil
  then show ?case by simp
next
  case (Cons op ops)
  show ?case
  proof (cases op)
    case (Put v)
    obtain b u where u: "put v s = (b, u)" by (cases "put v s")
    obtain ins' outs' where r: "queue_run put get nonempty ops u = (ins', outs', s')"
      "ins = (if b then v # ins' else ins')" "outs = outs'"
      using Cons.prems(2) by (auto simp: Put u split: prod.splits)
    have p: "ok u" "contents u = (if b then contents s @ [v] else contents s)"
      using put_room[OF Cons.prems(1), of v] put_full[OF Cons.prems(1), of v]
      by (cases "length (contents s) < capacity"; simp add: u)+
    from Cons.IH[OF p(1) r(1)] p r show ?thesis by auto
  next
    case Get
    show ?thesis
    proof (cases "contents s = []")
      case True
      with nonempty_iff[OF Cons.prems(1)] have "\<not> nonempty s" by simp
        with Cons.prems Cons.IH[of s ins outs] Get show ?thesis by simp
    next
      case False
      obtain v u where u: "get s = (v, u)" by (cases "get s")
      have g: "ok u" "contents s = v # contents u"
        using get_first[OF Cons.prems(1) False] by (simp_all add: u)
      obtain outs' where r: "queue_run put get nonempty ops u = (ins, outs', s')" "outs = v # outs'"
        using Cons.prems(2) False nonempty_iff[OF Cons.prems(1)] by (auto simp: Get u split: prod.splits)
      from Cons.IH[OF g(1) r(1)] g r show ?thesis by simp
    qed
  qed
qed

end

end
