(* ===== verification/Keyboard.thy ===== *)
theory Keyboard
  imports Ps2 Key_Maps Fifo
begin

text \<open>
  \<open>drivers/keyboard/keyboard.c\<close>: the interrupt handler that turns scancodes into characters in
  a ring buffer, and the readers of that buffer.
\<close>

section \<open>State\<close>

record keyboard_mods =
  shift_left :: bool
  shift_right :: bool
  ctrl_left :: bool
  ctrl_right :: bool
  alt_left :: bool
  alt_right :: bool
  gui_left :: bool
  gui_right :: bool
  caps_lock :: bool
  num_lock :: bool
  scroll_lock :: bool
  extended :: bool

datatype keyboard_layout = QWERTY | AZERTY | DVORAK

record keyboard = machine +
  mods :: keyboard_mods
  current_layout :: keyboard_layout
  key_buffer :: "u32 \<Rightarrow> u8"
  key_head :: u32
  key_tail :: u32
  buffer_overflow :: bool
  reboot_requested :: bool
  repeat_event :: bool
  key_repeat_enabled :: bool
  key_states :: "u8 \<Rightarrow> u8"

definition KB_BUFFER_SIZE :: u32 where "KB_BUFFER_SIZE = 256"

text \<open>\<open>layouts[]\<close>: name, lower case and upper case table.\<close>

fun layout_name :: "keyboard_layout \<Rightarrow> string" where
  "layout_name QWERTY = ''QWERTY''"
| "layout_name AZERTY = ''AZERTY''"
| "layout_name DVORAK = ''DVORAK''"

fun layout_map :: "bool \<Rightarrow> keyboard_layout \<Rightarrow> string list" where
  "layout_map upper QWERTY = (if upper then qwerty_uppercase_key_map else qwerty_lowercase_key_map)"
| "layout_map upper AZERTY = (if upper then azerty_uppercase_key_map else azerty_lowercase_key_map)"
| "layout_map upper DVORAK = (if upper then dvorak_uppercase_key_map else dvorak_lowercase_key_map)"

text \<open>An \<open>enum\<close> value from a caller; \<open>None\<close> when it is not below \<open>LAYOUT_COUNT\<close>.\<close>

definition layout_of :: "u32 \<Rightarrow> keyboard_layout option" where
  "layout_of n = (if n = 0 then Some QWERTY else if n = 1 then Some AZERTY else if n = 2 then Some DVORAK else None)"

section \<open>Modifiers and key states\<close>

definition shift_active :: "'a keyboard_scheme \<Rightarrow> bool" where
  "shift_active s \<longleftrightarrow> shift_left (mods s) \<or> shift_right (mods s)"

definition ctrl_active :: "'a keyboard_scheme \<Rightarrow> bool" where
  "ctrl_active s \<longleftrightarrow> ctrl_left (mods s) \<or> ctrl_right (mods s)"

definition alt_active :: "'a keyboard_scheme \<Rightarrow> bool" where
  "alt_active s \<longleftrightarrow> alt_left (mods s) \<or> alt_right (mods s)"

definition gui_active :: "'a keyboard_scheme \<Rightarrow> bool" where
  "gui_active s \<longleftrightarrow> gui_left (mods s) \<or> gui_right (mods s)"

abbreviation key_mask :: "u8 \<Rightarrow> u8" where
  "key_mask scancode \<equiv> push_bit (unat (scancode AND 7)) 1"

definition key_is_down :: "u8 \<Rightarrow> 'a keyboard_scheme \<Rightarrow> bool" where
  "key_is_down scancode s \<longleftrightarrow> key_states s (drop_bit 3 scancode) AND key_mask scancode \<noteq> 0"

definition key_set_down :: "u8 \<Rightarrow> 'a keyboard_scheme \<Rightarrow> 'a keyboard_scheme" where
  "key_set_down scancode s = s\<lparr>key_states := (key_states s)
     (drop_bit 3 scancode := key_states s (drop_bit 3 scancode) OR key_mask scancode)\<rparr>"

definition key_clear_down :: "u8 \<Rightarrow> 'a keyboard_scheme \<Rightarrow> 'a keyboard_scheme" where
  "key_clear_down scancode s = s\<lparr>key_states := (key_states s)
     (drop_bit 3 scancode := key_states s (drop_bit 3 scancode) AND NOT (key_mask scancode))\<rparr>"

section \<open>The buffer\<close>

definition buffer_is_full :: "'a keyboard_scheme \<Rightarrow> bool" where
  "buffer_is_full s \<longleftrightarrow> (key_head s + 1) mod KB_BUFFER_SIZE = key_tail s"

definition buffer_put :: "u8 \<Rightarrow> 'a keyboard_scheme \<Rightarrow> bool \<times> 'a keyboard_scheme" where
  "buffer_put c s =
     (let next = (key_head s + 1) mod KB_BUFFER_SIZE
      in if next = key_tail s then (False, s\<lparr>buffer_overflow := True\<rparr>)
         else (True, s\<lparr>key_buffer := (key_buffer s)(key_head s := c), key_head := next\<rparr>))"

definition buffer_get :: "'a keyboard_scheme \<Rightarrow> u8 \<times> 'a keyboard_scheme" where
  "buffer_get s = (key_buffer s (key_tail s), s\<lparr>key_tail := (key_tail s + 1) mod KB_BUFFER_SIZE\<rparr>)"

definition keyboard_has_char :: "'a keyboard_scheme \<Rightarrow> bool" where
  "keyboard_has_char s \<longleftrightarrow> key_head s \<noteq> key_tail s"

definition keyboard_get_char :: "'a keyboard_scheme \<Rightarrow> u8 \<times> 'a keyboard_scheme" where
  "keyboard_get_char s = (if key_head s = key_tail s then (0, s) else buffer_get s)"

section \<open>Settings\<close>

definition keyboard_consume_reboot_request :: "'a keyboard_scheme \<Rightarrow> bool \<times> 'a keyboard_scheme" where
  "keyboard_consume_reboot_request s = (reboot_requested s, s\<lparr>reboot_requested := False\<rparr>)"

definition keyboard_set_key_repeat :: "bool \<Rightarrow> 'a keyboard_scheme \<Rightarrow> 'a keyboard_scheme" where
  "keyboard_set_key_repeat enabled s = s\<lparr>key_repeat_enabled := enabled\<rparr>"

definition keyboard_get_key_repeat :: "'a keyboard_scheme \<Rightarrow> bool" where
  "keyboard_get_key_repeat s = key_repeat_enabled s"

definition set_keyboard_layout :: "u32 \<Rightarrow> 'a keyboard_scheme \<Rightarrow> 'a keyboard_scheme" where
  "set_keyboard_layout layout s =
     (case layout_of layout of
        None \<Rightarrow> viprint ''Invalid keyboard layout specified'' s
      | Some l \<Rightarrow> printf_event ''Keyboard layout set to %s'' [Str_arg (Some (layout_name l))]
          (s\<lparr>current_layout := l\<rparr>))"

definition no_mods :: keyboard_mods where
  "no_mods = \<lparr>shift_left = False, shift_right = False, ctrl_left = False, ctrl_right = False,
     alt_left = False, alt_right = False, gui_left = False, gui_right = False,
     caps_lock = False, num_lock = False, scroll_lock = False, extended = False\<rparr>"

definition init_keyboard :: "'a keyboard_scheme \<Rightarrow> 'a keyboard_scheme option" where
  "init_keyboard s =
     Option.bind (ps2_init s) (\<lambda>s.
       let s = set_keyboard_layout 0 s;
           (mask, s) = inb 0x21 s;
           s = outb 0x21 (mask AND 0xFD) s;
           s = s\<lparr>key_head := 0, key_tail := 0, buffer_overflow := False, reboot_requested := False,
                 repeat_event := False, key_repeat_enabled := True, mods := no_mods,
                 key_states := (\<lambda>i. if i < 16 then 0 else key_states s i)\<rparr>
       in Some (printf_event (''Keyboard initialized with %s layout'' @ newline)
                 [Str_arg (Some (layout_name (current_layout s)))] s))"

section \<open>Characters\<close>

definition get_char_from_scancode :: "u8 \<Rightarrow> 'a keyboard_scheme \<Rightarrow> string option" where
  "get_char_from_scancode scancode s =
     (if 128 \<le> scancode then None
      else let map = layout_map (shift_active s \<noteq> caps_lock (mods s)) (current_layout s)
           in if unat scancode < length map then Some (map ! unat scancode) else None)"

definition put_unless_repeated :: "u8 \<Rightarrow> 'a keyboard_scheme \<Rightarrow> 'a keyboard_scheme" where
  "put_unless_repeated c s =
     (if \<not> repeat_event s \<or> key_repeat_enabled s then snd (buffer_put c s) else s)"

definition process_character :: "u8 \<Rightarrow> 'a keyboard_scheme \<Rightarrow> 'a keyboard_scheme" where
  "process_character scancode s =
     (case get_char_from_scancode scancode s of
        None \<Rightarrow> s
      | Some [] \<Rightarrow> s
      | Some (ch # rest) \<Rightarrow>
          if scancode = 0x1C then put_unless_repeated 0x0A s
          else if rest \<noteq> [] then s
          else
            let c = of_char ch :: u8;
                upper = (if 97 \<le> sint c \<and> sint c \<le> 122 then c - 0x20 else c)
            in if ctrl_active s \<and> \<not> alt_active s then
                 (if 64 \<le> sint upper \<and> sint upper \<le> 95 then put_unless_repeated (upper - 64) s
                  else put_unless_repeated upper s)
               else put_unless_repeated c s)"

definition cursor_sequence :: "u8 \<Rightarrow> u8 list option" where
  "cursor_sequence scancode =
     (if scancode = 0x48 then Some [0x1B, 0x5B, 0x41]
      else if scancode = 0x50 then Some [0x1B, 0x5B, 0x42]
      else if scancode = 0x4B then Some [0x1B, 0x5B, 0x44]
      else if scancode = 0x4D then Some [0x1B, 0x5B, 0x43]
      else if scancode = 0x47 then Some [0x1B, 0x5B, 0x48]
      else if scancode = 0x4F then Some [0x1B, 0x5B, 0x46]
      else if scancode = 0x53 then Some [0x1B, 0x5B, 0x33, 0x7E]
      else None)"

fun put_sequence :: "u8 list \<Rightarrow> 'a keyboard_scheme \<Rightarrow> 'a keyboard_scheme" where
  "put_sequence [] s = s"
| "put_sequence (c # cs) s = (let (ok, s) = buffer_put c s in if ok then put_sequence cs s else s)"

definition handle_cursor_movement :: "u8 \<Rightarrow> 'a keyboard_scheme \<Rightarrow> 'a keyboard_scheme" where
  "handle_cursor_movement scancode s =
     (case cursor_sequence scancode of None \<Rightarrow> s | Some seq \<Rightarrow> put_sequence seq s)"

definition handle_special_keys :: "u8 \<Rightarrow> bool \<Rightarrow> 'a keyboard_scheme \<Rightarrow> 'a keyboard_scheme" where
  "handle_special_keys scancode ext s =
     (let base = scancode AND 0x7F;
          make = (scancode AND 0x80 = 0);
          toggle = (make \<and> \<not> repeat_event s);
          m = mods s
      in s\<lparr>mods :=
           (if base = 0x2A then m\<lparr>shift_left := make\<rparr>
            else if base = 0x36 then m\<lparr>shift_right := make\<rparr>
            else if base = 0x1D then (if ext then m\<lparr>ctrl_right := make\<rparr> else m\<lparr>ctrl_left := make\<rparr>)
            else if base = 0x38 then (if ext then m\<lparr>alt_right := make\<rparr> else m\<lparr>alt_left := make\<rparr>)
            else if base = 0x5B then m\<lparr>gui_left := make\<rparr>
            else if base = 0x5C then m\<lparr>gui_right := make\<rparr>
            else if base = 0x3A then (if toggle then m\<lparr>caps_lock := \<not> caps_lock m\<rparr> else m)
            else if base = 0x45 then (if toggle then m\<lparr>num_lock := \<not> num_lock m\<rparr> else m)
            else if base = 0x46 then (if toggle then m\<lparr>scroll_lock := \<not> scroll_lock m\<rparr> else m)
            else m)\<rparr>)"

section \<open>The interrupt handler\<close>

definition check_stack_integrity :: bool where "check_stack_integrity = True"
definition fpu_in_use :: bool where "fpu_in_use = False"
definition fpu_save :: "'a keyboard_scheme \<Rightarrow> 'a keyboard_scheme" where "fpu_save s = s"
definition fpu_restore :: "'a keyboard_scheme \<Rightarrow> 'a keyboard_scheme" where "fpu_restore s = s"

text \<open>\<open>while ((inb(status) & 1) == 0 && --timeout)\<close>\<close>

fun wait_scancode :: "nat \<Rightarrow> 'a keyboard_scheme \<Rightarrow> nat \<times> 'a keyboard_scheme" where
  "wait_scancode 0 s = (0, s)"
| "wait_scancode (Suc timeout) s =
     (let (v, s) = inb 0x64 s
      in if v AND 1 = 0 then (if timeout = 0 then (0, s) else wait_scancode timeout s)
         else (Suc timeout, s))"

text \<open>The handler notes whether the key repeats and whether it is down, and then acts on the key.\<close>

definition track_key :: "u8 \<Rightarrow> 'a keyboard_scheme \<Rightarrow> 'a keyboard_scheme" where
  "track_key scancode s =
     (let is_release = (scancode AND 0x80 \<noteq> 0);
          base = scancode AND 0x7F;
          was_down = key_is_down base s;
          s = s\<lparr>repeat_event := \<not> is_release \<and> was_down\<rparr>
      in if \<not> is_release then key_set_down base s else key_clear_down base s)"

definition dispatch_key :: "u8 \<Rightarrow> bool \<Rightarrow> 'a keyboard_scheme \<Rightarrow> 'a keyboard_scheme" where
  "dispatch_key scancode ext s =
     (let is_release = (scancode AND 0x80 \<noteq> 0);
          base = scancode AND 0x7F
      in if ext then
           let s = s\<lparr>mods := (mods s)\<lparr>extended := False\<rparr>\<rparr>
           in if is_release then s
              else if base = 0x1C then put_unless_repeated 0x0A s
              else if base = 0x53 \<and> ctrl_active s \<and> alt_active s \<and> \<not> repeat_event s
              then s\<lparr>reboot_requested := True\<rparr>
              else if \<not> repeat_event s \<or> key_repeat_enabled s then handle_cursor_movement base s else s
         else if base = 0x0E then (if \<not> is_release then put_unless_repeated 0x08 s else s)
         else if is_release then s
         else process_character scancode s)"

text \<open>The body of the handler between reading the scancode and the label \<open>cleanup\<close>.\<close>

definition process_scancode :: "u8 \<Rightarrow> 'a keyboard_scheme \<Rightarrow> 'a keyboard_scheme" where
  "process_scancode scancode s =
     (if scancode = 0xE0 then s\<lparr>mods := (mods s)\<lparr>extended := True\<rparr>\<rparr>
      else if scancode = 0xE1 then s\<lparr>mods := (mods s)\<lparr>extended := False\<rparr>\<rparr>
      else let ext = extended (mods s)
           in dispatch_key scancode ext (handle_special_keys scancode ext (track_key scancode s)))"

definition keyboard_cleanup :: "'a keyboard_scheme \<Rightarrow> 'a keyboard_scheme" where
  "keyboard_cleanup s =
     (let s = (if \<not> buffer_is_full s then s\<lparr>buffer_overflow := False\<rparr> else s);
          s = outb 0x20 0x20 s
      in if fpu_in_use then fpu_restore s else s)"

definition keyboard_handler :: "'a keyboard_scheme \<Rightarrow> 'a keyboard_scheme" where
  "keyboard_handler s =
     (if \<not> check_stack_integrity then viprint ''Stack corruption detected in keyboard handler!'' s
      else
        let s = (if fpu_in_use then fpu_save s else s);
            (timeout, s) = wait_scancode 1000 s
        in if timeout = 0 then keyboard_cleanup (viprint (''Keyboard controller timeout'' @ newline) s)
           else let (scancode, s) = inb 0x60 s in keyboard_cleanup (process_scancode scancode s))"

text \<open>\<open>ascii_converter\<close>: the bytes it stores in \<open>str\<close>, by index.\<close>

definition ascii_converter :: "u8 \<Rightarrow> nat \<Rightarrow> 'a keyboard_scheme \<Rightarrow> (nat \<Rightarrow> u8) \<Rightarrow> nat \<Rightarrow> u8" where
  "ascii_converter scancode len s str =
     (if len = 0 then str
      else case get_char_from_scancode scancode s of
             Some (c # _) \<Rightarrow> (let str = str(0 := of_char c) in if len > 1 then str(1 := 0) else str)
           | _ \<Rightarrow> str(0 := 0))"

definition check_stack :: "'a machine_scheme \<Rightarrow> 'a machine_scheme" where
  "check_stack s =
     (let canary = 0xDEADBEEF :: u32
      in if canary \<noteq> 0xDEADBEEF then viprint (''Stack corruption detected'' @ newline) s
         else viprint (''Stack healthy'' @ newline) s)"

definition debug_kb_handler :: "u32 \<Rightarrow> 'a machine_scheme \<Rightarrow> 'a machine_scheme" where
  "debug_kb_handler esp s =
     check_stack (viprint newline (hexprint esp (viprint ''Stack pointer: '' s)))"

end
