(* ===== verification/Keyboard_Spec.thy ===== *)
theory Keyboard_Spec
  imports Keyboard
begin

text \<open>
  The keyboard driver as a bounded queue of characters: the ring buffer meets the contract of
  a queue, the handler appends the characters that the key stands for, and the modifier flags
  follow the keys that are held.
\<close>

section \<open>The ring buffer is a bounded queue\<close>

definition kb_ok :: "'a keyboard_scheme \<Rightarrow> bool" where
  "kb_ok s \<longleftrightarrow> unat (key_head s) < 256 \<and> unat (key_tail s) < 256"

definition typed_ahead :: "'a keyboard_scheme \<Rightarrow> u8 list" where
  "typed_ahead s = ring (\<lambda>i. key_buffer s (of_nat i)) 256 (unat (key_head s)) (unat (key_tail s))"

lemma unat_next_256: "unat (a :: u32) < 256 \<Longrightarrow> unat ((a + 1) mod KB_BUFFER_SIZE) = (unat a + 1) mod 256"
  by (simp add: KB_BUFFER_SIZE_def unat_mod unat_word_ariths)

lemma next_eq_iff:
  "unat (a :: u32) < 256 \<Longrightarrow> (a + 1) mod KB_BUFFER_SIZE = b \<longleftrightarrow> (unat a + 1) mod 256 = unat b"
  by (metis unat_next_256 word_unat_eq_iff)

lemma key_buffer_upd:
  assumes "unat h < 256" "i < (256 :: nat)"
  shows "(f(h := c)) (of_nat i :: u32) = ((\<lambda>i. f (of_nat i))(unat h := c)) i"
proof -
  have "of_nat i = h \<longleftrightarrow> i = unat h"
    using assms of_nat_eq_small[of i "unat h"] by auto
  then show ?thesis by simp
qed

lemma buffer_put_room:
  assumes "kb_ok s" "length (typed_ahead s) < 255"
  shows "fst (buffer_put c s) \<and> kb_ok (snd (buffer_put c s)) \<and> typed_ahead (snd (buffer_put c s)) = typed_ahead s @ [c]"
proof -
  have b: "unat (key_head s) < 256" "unat (key_tail s) < 256" using assms(1) by (simp_all add: kb_ok_def)
  have ne: "(unat (key_head s) + 1) mod 256 \<noteq> unat (key_tail s)"
    using ring_full_iff[OF b, of "\<lambda>i. key_buffer s (of_nat i)"] assms(2) by (simp add: typed_ahead_def)
  then have go: "(key_head s + 1) mod KB_BUFFER_SIZE \<noteq> key_tail s" using next_eq_iff[OF b(1)] by simp
  have "ring (\<lambda>i. ((key_buffer s)(key_head s := c)) (of_nat i)) 256 ((unat (key_head s) + 1) mod 256) (unat (key_tail s)) =
      ring ((\<lambda>i. key_buffer s (of_nat i))(unat (key_head s) := c)) 256 ((unat (key_head s) + 1) mod 256) (unat (key_tail s))"
    by (rule ring_cong[OF key_buffer_upd[OF b(1)]]) simp_all
  also have "\<dots> = typed_ahead s @ [c]" unfolding typed_ahead_def by (rule ring_put[OF b ne])
  finally show ?thesis
    using go b by (simp add: buffer_put_def Let_def kb_ok_def unat_next_256 typed_ahead_def)
qed

lemma buffer_put_full:
  assumes "kb_ok s" "\<not> length (typed_ahead s) < 255"
  shows "\<not> fst (buffer_put c s) \<and> kb_ok (snd (buffer_put c s)) \<and> typed_ahead (snd (buffer_put c s)) = typed_ahead s"
proof -
  have b: "unat (key_head s) < 256" "unat (key_tail s) < 256" using assms(1) by (simp_all add: kb_ok_def)
  have "length (typed_ahead s) < 256" by (simp add: typed_ahead_def ring_length)
  with assms(2) have "(unat (key_head s) + 1) mod 256 = unat (key_tail s)"
    using ring_full_iff[OF b, of "\<lambda>i. key_buffer s (of_nat i)"] by (simp add: typed_ahead_def)
  then have "(key_head s + 1) mod KB_BUFFER_SIZE = key_tail s" using next_eq_iff[OF b(1)] by simp
  with assms(1) show ?thesis by (simp add: buffer_put_def Let_def kb_ok_def typed_ahead_def)
qed

lemma has_char_iff: "kb_ok s \<Longrightarrow> keyboard_has_char s \<longleftrightarrow> typed_ahead s \<noteq> []"
  by (simp add: keyboard_has_char_def typed_ahead_def kb_ok_def ring_empty_iff word_unat_eq_iff)

lemma get_char_first:
  assumes "kb_ok s" "typed_ahead s \<noteq> []"
  shows "kb_ok (snd (keyboard_get_char s)) \<and>
    typed_ahead s = fst (keyboard_get_char s) # typed_ahead (snd (keyboard_get_char s))"
proof -
  have b: "unat (key_head s) < 256" "unat (key_tail s) < 256" using assms(1) by (simp_all add: kb_ok_def)
  have ne: "key_head s \<noteq> key_tail s" using has_char_iff[OF assms(1)] assms(2) by (simp add: keyboard_has_char_def)
  then have "unat (key_head s) \<noteq> unat (key_tail s)" by (simp add: word_unat_eq_iff)
  from ring_get[OF b this, of "\<lambda>i. key_buffer s (of_nat i)"] ne b show ?thesis
    by (simp add: keyboard_get_char_def buffer_get_def kb_ok_def typed_ahead_def unat_next_256)
qed

interpretation kbq: bounded_fifo buffer_put keyboard_get_char keyboard_has_char kb_ok typed_ahead 255
  by unfold_locales (rule buffer_put_room buffer_put_full has_char_iff get_char_first; assumption)+

text \<open>Changes of the other fields do not touch the queue.\<close>

lemma queue_frame [simp]:
  "kb_ok (s\<lparr>mods := a\<rparr>) = kb_ok s" "typed_ahead (s\<lparr>mods := a\<rparr>) = typed_ahead s"
  "kb_ok (s\<lparr>repeat_event := b\<rparr>) = kb_ok s" "typed_ahead (s\<lparr>repeat_event := b\<rparr>) = typed_ahead s"
  "kb_ok (s\<lparr>key_states := k\<rparr>) = kb_ok s" "typed_ahead (s\<lparr>key_states := k\<rparr>) = typed_ahead s"
  "kb_ok (s\<lparr>reboot_requested := b\<rparr>) = kb_ok s" "typed_ahead (s\<lparr>reboot_requested := b\<rparr>) = typed_ahead s"
  "kb_ok (s\<lparr>buffer_overflow := b\<rparr>) = kb_ok s" "typed_ahead (s\<lparr>buffer_overflow := b\<rparr>) = typed_ahead s"
  "kb_ok (s\<lparr>port_reads := r\<rparr>) = kb_ok s" "typed_ahead (s\<lparr>port_reads := r\<rparr>) = typed_ahead s"
  "kb_ok (s\<lparr>port_out := p\<rparr>) = kb_ok s" "typed_ahead (s\<lparr>port_out := p\<rparr>) = typed_ahead s"
  "kb_ok (s\<lparr>console := e\<rparr>) = kb_ok s" "typed_ahead (s\<lparr>console := e\<rparr>) = typed_ahead s"
  by (simp_all add: kb_ok_def typed_ahead_def)

text \<open>Appending as many bytes as there is room for.\<close>

definition append_room :: "'a keyboard_scheme \<Rightarrow> u8 list \<Rightarrow> u8 list" where
  "append_room s cs = typed_ahead s @ take (255 - length (typed_ahead s)) cs"

lemma append_room_Nil [simp]: "append_room s [] = typed_ahead s"
  by (simp add: append_room_def)

lemma buffer_put_append:
  "kb_ok s \<Longrightarrow> kb_ok (snd (buffer_put c s)) \<and> typed_ahead (snd (buffer_put c s)) = append_room s [c]"
  using kbq.put_room[of s c] kbq.put_full[of s c]
  by (cases "length (typed_ahead s) < 255") (auto simp: append_room_def)

lemma put_sequence_append:
  "kb_ok s \<Longrightarrow> kb_ok (put_sequence cs s) \<and> typed_ahead (put_sequence cs s) = append_room s cs"
proof (induction cs arbitrary: s)
  case Nil
  then show ?case by simp
next
  case (Cons c cs)
  obtain b u where u: "buffer_put c s = (b, u)" by (cases "buffer_put c s")
  show ?case
  proof (cases "length (typed_ahead s) < 255")
    case True
    with kbq.put_room[OF Cons.prems, of c] have p: "b" "kb_ok u" "typed_ahead u = typed_ahead s @ [c]" by (simp_all add: u)
    have "255 - length (typed_ahead s) = Suc (255 - length (typed_ahead u))" using True p by simp
    with Cons.IH[OF p(2)] p show ?thesis by (simp add: u append_room_def)
  next
    case False
    with kbq.put_full[OF Cons.prems, of c] have p: "\<not> b" "kb_ok u" "typed_ahead u = typed_ahead s" by (simp_all add: u)
    with False show ?thesis by (simp add: u append_room_def)
  qed
qed

section \<open>What a key press types\<close>

text \<open>The characters of a key without an \<open>E0\<close> prefix.\<close>

definition key_text :: "u8 \<Rightarrow> 'a keyboard_scheme \<Rightarrow> u8 list" where
  "key_text scancode s =
     (case get_char_from_scancode scancode s of
        None \<Rightarrow> []
      | Some t \<Rightarrow>
          if t = [] then [] else if scancode = 0x1C then [0x0A] else if length t \<noteq> 1 then []
          else
            let c = of_char (hd t) :: u8; upper = (if 97 \<le> sint c \<and> sint c \<le> 122 then c - 0x20 else c)
            in if \<not> ctrl_active s \<or> alt_active s then [c]
               else if 64 \<le> sint upper \<and> sint upper \<le> 95 then [upper - 64] else [upper])"

lemma key_text_by_char:
  assumes "get_char_from_scancode k s = Some [ch]" "k \<noteq> 0x1C"
  shows "process_character k s = put_unless_repeated (hd (key_text k s)) s" "length (key_text k s) = 1"
  using assms by (simp_all add: process_character_def key_text_def Let_def)

lemma process_character_text:
  "process_character k s = (if key_text k s = [] then s else put_unless_repeated (hd (key_text k s)) s)
    \<and> length (key_text k s) \<le> 1"
proof (cases "get_char_from_scancode k s")
  case None
  then show ?thesis by (simp add: process_character_def key_text_def)
next
  case (Some t)
  consider "t = []" | ch rest where "t = ch # rest" "k = 0x1C" | ch where "t = [ch]" "k \<noteq> 0x1C"
    | ch c' rest where "t = ch # c' # rest" "k \<noteq> 0x1C"
    by (metis list.exhaust)
  then show ?thesis
  proof cases
    case 3
    with key_text_by_char[of k s ch] Some show ?thesis by auto
  qed (use Some in \<open>simp_all add: process_character_def key_text_def\<close>)
qed

lemma put_unless_append:
  assumes "kb_ok s"
  shows "kb_ok (put_unless_repeated c s) \<and> typed_ahead (put_unless_repeated c s) =
    append_room s (if repeat_event s \<and> \<not> key_repeat_enabled s then [] else [c])"
  using assms by (simp add: put_unless_repeated_def buffer_put_append)

lemma process_character_append:
  assumes "kb_ok s"
  shows "kb_ok (process_character k s) \<and> typed_ahead (process_character k s) =
    append_room s (if repeat_event s \<and> \<not> key_repeat_enabled s then [] else key_text k s)"
proof (cases "key_text k s = []")
  case True
  with assms process_character_text[of k s] show ?thesis by simp
next
  case False
  with process_character_text[of k s] have "[hd (key_text k s)] = key_text k s"
    by (cases "key_text k s") auto
  with False put_unless_append[OF assms, of "hd (key_text k s)"] process_character_text[of k s]
  show ?thesis by simp
qed

text \<open>What the handler is to append for a scancode: nothing for a prefix or a release, nothing for a
  repeated key when repetition is off; otherwise the key's characters.\<close>

definition emitted :: "u8 \<Rightarrow> 'a keyboard_scheme \<Rightarrow> u8 list" where
  "emitted scancode s =
     (let base = scancode AND 0x7F; repeated = key_is_down base s
      in if scancode = 0xE0 \<or> scancode = 0xE1 \<or> scancode AND 0x80 \<noteq> 0 \<or> repeated \<and> \<not> key_repeat_enabled s then []
         else if extended (mods s) then
           (if base = 0x1C then [0x0A]
            else if base = 0x53 \<and> ctrl_active s \<and> alt_active s \<and> \<not> repeated then []
            else (case cursor_sequence base of None \<Rightarrow> [] | Some cs \<Rightarrow> cs))
         else if base = 0x0E then [0x08]
         else key_text base s)"

lemma press_is_base: "scancode AND 0x80 = (0 :: u8) \<Longrightarrow> scancode AND 0x7F = scancode"
proof -
  assume "scancode AND 0x80 = 0"
  then have "scancode AND (0x80 OR 0x7F) = scancode AND 0x7F" by (simp only: bit.conj_disj_distrib) simp
  moreover have "(0x80 OR 0x7F :: u8) = - 1" by simp
  ultimately show "scancode AND 0x7F = scancode" by (simp only: and.right_neutral)
qed

lemma track_frame:
  "repeat_event (track_key c s) = (c AND 0x80 = 0 \<and> key_is_down (c AND 0x7F) s)"
  "key_repeat_enabled (track_key c s) = key_repeat_enabled s" "mods (track_key c s) = mods s"
  "current_layout (track_key c s) = current_layout s" "port_out (track_key c s) = port_out s"
  "kb_ok (track_key c s) = kb_ok s" "typed_ahead (track_key c s) = typed_ahead s"
  by (simp_all add: track_key_def key_set_down_def key_clear_down_def Let_def)

text \<open>The keys that change a modifier type nothing, so the text does not depend on the order.\<close>

definition special_key :: "u8 \<Rightarrow> bool" where
  "special_key k \<longleftrightarrow> k \<in> {0x2A, 0x36, 0x1D, 0x38, 0x5B, 0x5C, 0x3A, 0x45, 0x46}"

lemma not_special: "\<not> special_key (c AND 0x7F) \<Longrightarrow> handle_special_keys c e s = s"
  by (simp add: handle_special_keys_def special_key_def Let_def)


definition all_maps :: "string list list" where
  "all_maps = [qwerty_lowercase_key_map, qwerty_uppercase_key_map, azerty_lowercase_key_map,
     azerty_uppercase_key_map, dvorak_lowercase_key_map, dvorak_uppercase_key_map]"

lemma layout_map_in: "layout_map u l \<in> set all_maps"
  by (cases l) (simp_all add: all_maps_def)

lemma special_names_eval:
  "list_all (\<lambda>m. list_all (\<lambda>k. \<not> unat k < length m \<or> length (m ! unat k) \<noteq> 1)
     [0x2A, 0x36, 0x1D, 0x38, 0x5B, 0x5C, 0x3A, 0x45, 0x46 :: u8]) all_maps"
  by code_simp

lemma special_key_text:
  assumes "special_key k"
  shows "key_text k s = []"
proof -
  let ?m = "layout_map (shift_active s \<noteq> caps_lock (mods s)) (current_layout s)"
  have "unat k < length ?m \<Longrightarrow> length (?m ! unat k) \<noteq> 1"
    using special_names_eval layout_map_in assms unfolding list_all_iff special_key_def by fastforce
  moreover have "k \<noteq> 0x1C" using assms by (auto simp: special_key_def)
  ultimately show ?thesis by (simp add: key_text_def get_char_from_scancode_def Let_def)
qed

lemma special_frame:
  "port_out (handle_special_keys c e s) = port_out s" "key_states (handle_special_keys c e s) = key_states s"
  "kb_ok (handle_special_keys c e s) = kb_ok s" "typed_ahead (handle_special_keys c e s) = typed_ahead s"
  "repeat_event (handle_special_keys c e s) = repeat_event s"
  "key_repeat_enabled (handle_special_keys c e s) = key_repeat_enabled s"
  "current_layout (handle_special_keys c e s) = current_layout s"
  "extended (mods (handle_special_keys c e s)) = extended (mods s)"
  by (simp_all add: handle_special_keys_def Let_def)

lemma dispatch_release:
  "c AND 0x80 \<noteq> 0 \<Longrightarrow> kb_ok (dispatch_key c e s) = kb_ok s \<and> typed_ahead (dispatch_key c e s) = typed_ahead s"
  by (simp add: dispatch_key_def Let_def)

text \<open>A pressed key appends its text, whatever the modifiers were before.\<close>

lemma dispatch_press:
  assumes "kb_ok t" "c AND 0x80 = 0"
  shows "kb_ok (dispatch_key c e t) \<and> typed_ahead (dispatch_key c e t) = append_room t
    (if repeat_event t \<and> \<not> key_repeat_enabled t then []
     else if e then
       (if c = 0x1C then [0x0A] else if c = 0x53 \<and> ctrl_active t \<and> alt_active t \<and> \<not> repeat_event t then []
        else (case cursor_sequence c of None \<Rightarrow> [] | Some cs \<Rightarrow> cs))
     else if c = 0x0E then [0x08] else key_text c t)"
proof -
  note base = press_is_base[OF assms(2)]
  show ?thesis
  proof (cases e)
    case True
    let ?u = "t\<lparr>mods := (mods t)\<lparr>extended := False\<rparr>\<rparr>"
    have u: "kb_ok ?u" "repeat_event ?u = repeat_event t" "key_repeat_enabled ?u = key_repeat_enabled t"
      "ctrl_active ?u = ctrl_active t" "alt_active ?u = alt_active t" "\<And>cs. append_room ?u cs = append_room t cs"
      using assms(1) by (simp_all add: ctrl_active_def alt_active_def append_room_def)
    show ?thesis
      using True assms u put_unless_append[OF u(1), of "0x0A"] put_sequence_append[OF u(1)]
      unfolding dispatch_key_def base Let_def handle_cursor_movement_def
      by (cases "cursor_sequence c") auto
  next
    case False
    then show ?thesis
      using assms put_unless_append[OF assms(1), of "0x08"] process_character_append[OF assms(1), of c]
      by (simp add: dispatch_key_def base Let_def)
  qed
qed

lemma process_scancode_append:
  assumes "kb_ok s"
  shows "kb_ok (process_scancode c s) \<and> typed_ahead (process_scancode c s) = append_room s (emitted c s)"
proof (cases "c = 0xE0 \<or> c = 0xE1 \<or> c AND 0x80 \<noteq> 0")
  case True
  then have "emitted c s = []" by (auto simp: emitted_def)
  moreover have "kb_ok (process_scancode c s) = kb_ok s \<and> typed_ahead (process_scancode c s) = typed_ahead s"
    using True by (cases "c = 0xE0"; cases "c = 0xE1")
      (simp_all add: process_scancode_def Let_def dispatch_release special_frame track_frame)
  ultimately show ?thesis using assms by simp
next
  case False
  then have press: "c AND 0x80 = 0" "c \<noteq> 0xE0" "c \<noteq> 0xE1" by simp_all
  note base = press_is_base[OF press(1)]
  define t where "t = handle_special_keys c (extended (mods s)) (track_key c s)"
  have t: "kb_ok t" "typed_ahead t = typed_ahead s" "repeat_event t = key_is_down c s"
      "key_repeat_enabled t = key_repeat_enabled s" "current_layout t = current_layout s"
    using assms press(1) by (simp_all add: t_def special_frame track_frame base)
  have run: "process_scancode c s = dispatch_key c (extended (mods s)) t"
    using press by (simp add: process_scancode_def t_def Let_def)
  have room: "append_room t cs = append_room s cs" for cs by (simp add: append_room_def t)
  show ?thesis
  proof (cases "special_key c")
    case True
    then have "cursor_sequence c = None" "c \<noteq> 0x1C" "c \<noteq> 0x53" "c \<noteq> 0x0E"
      by (auto simp: special_key_def cursor_sequence_def)
    with dispatch_press[OF t(1) press(1), of "extended (mods s)"] press show ?thesis
      by (auto simp: run emitted_def base t(2-4) room special_key_text[OF True] Let_def)
  next
    case False
    then have "t = track_key c s" unfolding t_def by (intro not_special) (simp add: base)
    then have m: "mods t = mods s" by (simp add: track_frame)
    then have act: "ctrl_active t = ctrl_active s" "alt_active t = alt_active s" "shift_active t = shift_active s"
      by (simp_all add: ctrl_active_def alt_active_def shift_active_def)
    have "get_char_from_scancode c t = get_char_from_scancode c s"
      by (simp add: get_char_from_scancode_def t(5) m act(3))
    then have typed: "key_text c t = key_text c s" by (simp only: key_text_def act)
    from dispatch_press[OF t(1) press(1), of "extended (mods s)", unfolded t(3,4) room act typed] press
    show ?thesis by (auto simp: run emitted_def base Let_def)
  qed
qed

section \<open>The device\<close>

text \<open>The controller has a byte ready and the byte is \<open>c\<close>.\<close>

definition kbd_sends :: "u8 \<Rightarrow> 'a keyboard_scheme \<Rightarrow> bool" where
  "kbd_sends c s \<longleftrightarrow> ucast (port_in s 0x64 (port_reads s 0x64)) AND (1 :: u8) \<noteq> 0 \<and>
     ucast (port_in s 0x60 (port_reads s 0x60)) = c"

lemma emitted_port_reads [simp]: "emitted c (s\<lparr>port_reads := r\<rparr>) = emitted c s"
proof -
  let ?u = "s\<lparr>port_reads := r\<rparr>"
  have act: "ctrl_active ?u = ctrl_active s" "alt_active ?u = alt_active s" "shift_active ?u = shift_active s"
      "key_is_down k ?u = key_is_down k s" for k
    by (simp_all add: ctrl_active_def alt_active_def shift_active_def key_is_down_def)
  then have "get_char_from_scancode k ?u = get_char_from_scancode k s" for k
    by (simp add: get_char_from_scancode_def)
  then have typed: "key_text k ?u = key_text k s" for k by (simp only: key_text_def act)
  have rest: "mods ?u = mods s" "key_repeat_enabled ?u = key_repeat_enabled s" by simp_all
  show ?thesis unfolding emitted_def Let_def act typed rest by (rule refl)
qed

lemma put_sequence_frame:
  "port_out (put_sequence cs s) = port_out s" "mods (put_sequence cs s) = mods s" "key_states (put_sequence cs s) = key_states s"
  by (induction cs arbitrary: s) (simp_all add: buffer_put_def Let_def)

lemma put_unless_frame:
  "port_out (put_unless_repeated c s) = port_out s" "mods (put_unless_repeated c s) = mods s"
  "key_states (put_unless_repeated c s) = key_states s"
  by (simp_all add: put_unless_repeated_def buffer_put_def Let_def)

lemma process_character_frame:
  "port_out (process_character c s) = port_out s" "mods (process_character c s) = mods s"
  "key_states (process_character c s) = key_states s"
  using process_character_text[of c s] by (auto simp: put_unless_frame)

lemmas typing_frame = put_sequence_frame put_unless_frame process_character_frame

lemma handle_cursor_frame:
  "port_out (handle_cursor_movement c s) = port_out s" "mods (handle_cursor_movement c s) = mods s"
  "key_states (handle_cursor_movement c s) = key_states s"
  by (simp_all add: handle_cursor_movement_def typing_frame split: option.splits)

lemma dispatch_frame:
  "port_out (dispatch_key c e s) = port_out s" "key_states (dispatch_key c e s) = key_states s"
  "mods (dispatch_key c e s) = (if e then (mods s)\<lparr>extended := False\<rparr> else mods s)"
  by (simp_all add: dispatch_key_def Let_def typing_frame handle_cursor_frame)

lemma process_scancode_port_out: "port_out (process_scancode c s) = port_out s"
  by (simp add: process_scancode_def Let_def dispatch_frame special_frame track_frame)

lemma keyboard_handler_run:
  assumes "kbd_sends c s"
  shows "\<exists>r. keyboard_handler s = keyboard_cleanup (process_scancode c (s\<lparr>port_reads := r\<rparr>))"
proof -
  let ?s = "snd (inb 0x64 s)"
  have k: "1000 = Suc 999" by simp
  have "wait_scancode 1000 s = (1000, ?s)"
    unfolding k wait_scancode.simps
    using assms by (simp add: kbd_sends_def inb_def port_read_def)
  moreover have "inb 0x60 ?s = (c, s\<lparr>port_reads := ((port_reads s)(0x64 := Suc (port_reads s 0x64)))(0x60 := Suc (port_reads s 0x60))\<rparr>)"
    using assms by (simp add: kbd_sends_def inb_def port_read_def)
  ultimately show ?thesis
    by (auto simp: keyboard_handler_def check_stack_integrity_def fpu_in_use_def)
qed

lemma keyboard_handler_append:
  assumes "kb_ok s" "kbd_sends c s"
  shows "kb_ok (keyboard_handler s) \<and> typed_ahead (keyboard_handler s) = append_room s (emitted c s) \<and>
    port_out (keyboard_handler s) = port_out s @ [(0x20, 0x20)]"
proof -
  obtain r where r: "keyboard_handler s = keyboard_cleanup (process_scancode c (s\<lparr>port_reads := r\<rparr>))"
    using keyboard_handler_run[OF assms(2)] by blast
  let ?u = "s\<lparr>port_reads := r\<rparr>"
  have "kb_ok ?u" using assms(1) by simp
  from process_scancode_append[OF this, of c] show ?thesis
    by (simp add: r keyboard_cleanup_def Let_def fpu_in_use_def outb_def process_scancode_port_out append_room_def)
qed

section \<open>Runs\<close>

text \<open>
  An interrupt with a scancode that stands for the characters \<open>cs\<close>, a read by the main loop, and
  whatever the device does to its ports, in any order.
\<close>

datatype kbd_event = Key "u8 list" | Read u8 | Device

inductive kbd_step :: "'a keyboard_scheme \<Rightarrow> kbd_event \<Rightarrow> 'a keyboard_scheme \<Rightarrow> bool" where
  key: "kbd_sends c s \<Longrightarrow> kbd_step s (Key (emitted c s)) (keyboard_handler s)"
| read: "keyboard_has_char s \<Longrightarrow> kbd_step s (Read (fst (keyboard_get_char s))) (snd (keyboard_get_char s))"
| device: "kbd_step s Device (s\<lparr>port_in := f\<rparr>)"

inductive_cases kbd_stepE: "kbd_step s e s'"

inductive kbd_run :: "'a keyboard_scheme \<Rightarrow> kbd_event list \<Rightarrow> 'a keyboard_scheme \<Rightarrow> bool" where
  stop: "kbd_run s [] s"
| step: "kbd_step s e t \<Longrightarrow> kbd_run t es u \<Longrightarrow> kbd_run s (e # es) u"

fun reads :: "kbd_event list \<Rightarrow> u8 list" where
  "reads [] = []"
| "reads (Read c # es) = c # reads es"
| "reads (_ # es) = reads es"

fun key_texts :: "kbd_event list \<Rightarrow> u8 list list" where
  "key_texts [] = []"
| "key_texts (Key cs # es) = cs # key_texts es"
| "key_texts (_ # es) = key_texts es"

definition starts_with :: "u8 list \<Rightarrow> u8 list \<Rightarrow> bool" where
  "starts_with xs ys \<longleftrightarrow> take (length ys) xs = ys"

lemma kbd_run_order:
  assumes "kbd_run s es s'" "kb_ok s"
  shows "kb_ok s' \<and> (\<exists>taken. list_all2 starts_with (key_texts es) taken \<and>
    typed_ahead s @ concat taken = reads es @ typed_ahead s')"
  using assms
proof (induction rule: kbd_run.induct)
  case (stop s)
  then show ?case by (intro conjI exI[of _ "[]"]) simp_all
next
  case (step s e t es u)
  from step.hyps(1) consider
      (key) c where "e = Key (emitted c s)" "t = keyboard_handler s" "kbd_sends c s"
    | (read) "e = Read (fst (keyboard_get_char s))" "t = snd (keyboard_get_char s)" "keyboard_has_char s"
    | (device) f where "e = Device" "t = s\<lparr>port_in := f\<rparr>"
    by (rule kbd_stepE) blast+
  then show ?case
  proof cases
    case (key c)
    have t: "kb_ok t" "typed_ahead t = typed_ahead s @ take (255 - length (typed_ahead s)) (emitted c s)"
      using keyboard_handler_append[OF step.prems key(3)] key(2) by (simp_all add: append_room_def)
    obtain taken where r: "kb_ok u" "list_all2 starts_with (key_texts es) taken"
      "typed_ahead t @ concat taken = reads es @ typed_ahead u"
      using step.IH[OF t(1)] by blast
    have "starts_with (emitted c s) (take n (emitted c s))" for n
      by (simp add: starts_with_def min_def)
    with r t(2) key(1) show ?thesis
      by (intro conjI exI[of _ "take (255 - length (typed_ahead s)) (emitted c s) # taken"]) simp_all
  next
    case read
    have ne: "typed_ahead s \<noteq> []" using kbq.nonempty_iff[OF step.prems] read(3) by simp
    have t: "kb_ok t" "typed_ahead s = fst (keyboard_get_char s) # typed_ahead t"
      using kbq.get_first[OF step.prems ne] read(2) by simp_all
    from step.IH[OF t(1)] t(2) read(1) show ?thesis by auto
  next
    case (device f)
    then have "kb_ok t = kb_ok s" "typed_ahead t = typed_ahead s" by (simp_all add: kb_ok_def typed_ahead_def)
    with step.IH step.prems device(1) show ?thesis by simp
  qed
qed

section \<open>Modifiers follow the keys\<close>

text \<open>Whether key \<open>k\<close> is held after scancode \<open>c\<close>, and how often it was pressed afresh in a sequence.\<close>

definition key_after :: "u8 \<Rightarrow> u8 \<Rightarrow> bool \<Rightarrow> bool" where
  "key_after k c d = (if c = 0xE0 \<or> c = 0xE1 \<or> c AND 0x7F \<noteq> k then d else c AND 0x80 = 0)"

definition held :: "u8 \<Rightarrow> bool \<Rightarrow> u8 list \<Rightarrow> bool" where
  "held k d cs = fold (key_after k) cs d"

fun presses :: "u8 \<Rightarrow> bool \<Rightarrow> u8 list \<Rightarrow> nat" where
  "presses k d [] = 0"
| "presses k d (c # cs) = (if key_after k c d \<and> \<not> d then 1 else 0) + presses k (key_after k c d) cs"

lemma and_7_eq:
  fixes k b :: u8
  assumes "drop_bit 3 k = drop_bit 3 b" "k AND 7 = b AND 7"
  shows "k = b"
proof -
  have "take_bit 3 k = take_bit 3 b" using assms(2) by (simp add: take_bit_eq_mask mask_eq_exp_minus_1)
  with assms(1) show ?thesis by (metis bits_ident)
qed

lemma and_7_small: "unat (k AND 7 :: u8) < 8"
proof -
  have "k AND 7 = take_bit 3 k" by (simp add: take_bit_eq_mask mask_eq_exp_minus_1)
  then show ?thesis using take_bit_nat_less_exp[of 3 "unat k"] by (simp add: unsigned_take_bit_eq)
qed

lemma key_down_bit:
  "key_is_down k s \<longleftrightarrow> bit (key_states s (drop_bit 3 k)) (unat (k AND 7))"
  using and_7_small[of k] unfolding key_is_down_def and_single_bit by simp

lemma key_set_down_iff: "key_is_down k (key_set_down b s) \<longleftrightarrow> k = b \<or> key_is_down k s"
proof -
  have ne: "unat (k AND 7) \<noteq> unat (b AND 7)" if "drop_bit 3 k = drop_bit 3 b" "k \<noteq> b"
    using and_7_eq[OF that(1)] that(2) by (auto simp: word_unat_eq_iff)
  show ?thesis
    using ne and_7_small[of k] unfolding key_down_bit by (auto simp: key_set_down_def bit_simps)
qed

lemma key_clear_down_iff: "key_is_down k (key_clear_down b s) \<longleftrightarrow> k \<noteq> b \<and> key_is_down k s"
proof -
  have ne: "unat (k AND 7) \<noteq> unat (b AND 7)" if "drop_bit 3 k = drop_bit 3 b" "k \<noteq> b"
    using and_7_eq[OF that(1)] that(2) by (auto simp: word_unat_eq_iff)
  show ?thesis
    using ne and_7_small[of k] unfolding key_down_bit by (auto simp: key_clear_down_def bit_simps)
qed

lemma key_is_down_cong: "key_states u = key_states v \<Longrightarrow> key_is_down k u = key_is_down k v"
  by (simp add: key_is_down_def)

lemma track_keys:
  "key_is_down k (track_key c s) = (if c AND 0x7F = k then c AND 0x80 = 0 else key_is_down k s)"
proof -
  have "key_is_down k (s\<lparr>repeat_event := b\<rparr>) = key_is_down k s" for b by (simp add: key_is_down_def)
  then show ?thesis by (auto simp: track_key_def Let_def key_set_down_iff key_clear_down_iff)
qed

lemma process_scancode_keys:
  "key_is_down k (process_scancode c s) = key_after k c (key_is_down k s)"
proof (cases "c = 0xE0 \<or> c = 0xE1")
  case True
  then show ?thesis by (auto simp: process_scancode_def key_after_def intro!: key_is_down_cong)
next
  case False
  then have "key_states (process_scancode c s) = key_states (track_key c s)"
    by (simp add: process_scancode_def Let_def dispatch_frame special_frame)
  from key_is_down_cong[OF this] False show ?thesis by (simp add: track_keys key_after_def)
qed

lemma process_scancode_flags:
  "shift_left (mods (process_scancode c s)) = key_after 0x2A c (shift_left (mods s))"
  "shift_right (mods (process_scancode c s)) = key_after 0x36 c (shift_right (mods s))"
  "caps_lock (mods (process_scancode c s)) =
     (caps_lock (mods s) \<noteq> (key_after 0x3A c (key_is_down 0x3A s) \<and> \<not> key_is_down 0x3A s))"
  "num_lock (mods (process_scancode c s)) =
     (num_lock (mods s) \<noteq> (key_after 0x45 c (key_is_down 0x45 s) \<and> \<not> key_is_down 0x45 s))"
  "scroll_lock (mods (process_scancode c s)) =
     (scroll_lock (mods s) \<noteq> (key_after 0x46 c (key_is_down 0x46 s) \<and> \<not> key_is_down 0x46 s))"
  by (auto simp: process_scancode_def dispatch_frame handle_special_keys_def track_frame Let_def key_after_def)

text \<open>The flags and the key states after a whole sequence of scancodes.\<close>

lemma modifiers_after:
  fixes s :: "'a keyboard_scheme"
  defines "after \<equiv> \<lambda>s cs. fold process_scancode cs (s :: 'a keyboard_scheme)"
  shows "key_is_down k (after s cs) = held k (key_is_down k s) cs"
    and "shift_left (mods (after s cs)) = held 0x2A (shift_left (mods s)) cs"
    and "shift_right (mods (after s cs)) = held 0x36 (shift_right (mods s)) cs"
    and "caps_lock (mods (after s cs)) = (caps_lock (mods s) \<noteq> odd (presses 0x3A (key_is_down 0x3A s) cs))"
    and "num_lock (mods (after s cs)) = (num_lock (mods s) \<noteq> odd (presses 0x45 (key_is_down 0x45 s) cs))"
    and "scroll_lock (mods (after s cs)) = (scroll_lock (mods s) \<noteq> odd (presses 0x46 (key_is_down 0x46 s) cs))"
  unfolding after_def held_def
  by (induction cs arbitrary: s) (auto simp: process_scancode_keys process_scancode_flags)

section \<open>Properties\<close>

definition idle_keyboard :: keyboard where
  "idle_keyboard = \<lparr>console = [], port_out = [], port_in = (\<lambda>p _. if p = 0x64 then 1 else 0x1E),
     port_reads = (\<lambda>_. 0), iflag = False, mods = no_mods, current_layout = QWERTY,
     key_buffer = (\<lambda>_. 0), key_head = 0, key_tail = 0, buffer_overflow = False,
     reboot_requested = False, repeat_event = False, key_repeat_enabled = True, key_states = (\<lambda>_. 0)\<rparr>"

text \<open>C15: When the controller delivers a scancode, the handler appends to the buffer exactly the
  characters the key stands for under the current layout, modifiers, prefix and repeat setting,
  as far as they fit behind the at most 255 characters already there, and acknowledges the
  interrupt once.\<close>

theorem keyboard_handler_types:
  assumes "kb_ok s" "kbd_sends c s"
  shows "kb_ok (keyboard_handler s) \<and>
    typed_ahead (keyboard_handler s) = typed_ahead s @ take (255 - length (typed_ahead s)) (emitted c s) \<and>
    port_out (keyboard_handler s) = port_out s @ [(0x20, 0x20)]"
  using keyboard_handler_append[OF assms] by (simp add: append_room_def)

theorem keyboard_handler_types_witness: "typed_ahead (keyboard_handler idle_keyboard) = [97]"
proof -
  have ok: "kb_ok idle_keyboard" and q: "typed_ahead idle_keyboard = []"
    by (simp_all add: kb_ok_def typed_ahead_def idle_keyboard_def ring_def)
  have "kbd_sends 0x1E idle_keyboard" "emitted 0x1E idle_keyboard = [97]" by code_simp+
  with keyboard_handler_types[OF ok this(1)] q show ?thesis by simp
qed

text \<open>C16: Whatever the interleaving of keyboard interrupts, reads by the main loop and changes of the
  device, characters are read in the order in which they were typed, none twice and none
  garbled: what was in the buffer, followed by the accepted part of each key's characters, is
  what was read followed by what is left.\<close>

theorem keyboard_reads_in_order:
  assumes "kb_ok s" "kbd_run s es s'"
  shows "\<exists>taken. list_all2 starts_with (key_texts es) taken \<and>
    typed_ahead s @ concat taken = reads es @ typed_ahead s'"
  using kbd_run_order[OF assms(2,1)] by blast

theorem keyboard_reads_in_order_witness:
  "\<exists>s' taken. kbd_run idle_keyboard [Key [97], Read 97] s' \<and> list_all2 starts_with [[97]] taken \<and>
     concat taken = 97 # typed_ahead s'"
proof -
  have ok: "kb_ok idle_keyboard" by (simp add: kb_ok_def idle_keyboard_def)
  have k: "kbd_sends 0x1E idle_keyboard" "emitted 0x1E idle_keyboard = [97]" by code_simp+
  have r: "keyboard_has_char (keyboard_handler idle_keyboard)" "fst (keyboard_get_char (keyboard_handler idle_keyboard)) = 97"
    by code_simp+
  have run: "kbd_run idle_keyboard [Key [97], Read 97] (snd (keyboard_get_char (keyboard_handler idle_keyboard)))"
    using kbd_step.key[OF k(1)] kbd_step.read[OF r(1)] unfolding k(2) r(2) by (blast intro: kbd_run.intros)
  have "typed_ahead idle_keyboard = []" by (simp add: typed_ahead_def idle_keyboard_def ring_def)
  with keyboard_reads_in_order[OF ok run] run show ?thesis by auto
qed

text \<open>After any sequence of scancodes every key is marked down exactly when its last make or break
  was a make, each shift flag is set exactly while that shift key is held, and Caps Lock, Num Lock
  and Scroll Lock have toggled once per fresh press, however often the key repeated.\<close>

theorem modifiers_follow_keys:
  "key_is_down k (fold process_scancode cs s) = held k (key_is_down k s) cs \<and>
   shift_left (mods (fold process_scancode cs s)) = held 0x2A (shift_left (mods s)) cs \<and>
   shift_right (mods (fold process_scancode cs s)) = held 0x36 (shift_right (mods s)) cs \<and>
   caps_lock (mods (fold process_scancode cs s)) =
     (caps_lock (mods s) \<noteq> odd (presses 0x3A (key_is_down 0x3A s) cs)) \<and>
   num_lock (mods (fold process_scancode cs s)) =
     (num_lock (mods s) \<noteq> odd (presses 0x45 (key_is_down 0x45 s) cs)) \<and>
   scroll_lock (mods (fold process_scancode cs s)) =
     (scroll_lock (mods s) \<noteq> odd (presses 0x46 (key_is_down 0x46 s) cs))"
  by (intro conjI modifiers_after)

text \<open>The Pause key sends \<open>E1 1D 45 E1 9D C5\<close>; the handler skips only the prefixes and takes the
  rest for Control and Num Lock.\<close>

lemma pause_toggles_num_lock:
  assumes "\<not> key_is_down 0x45 s"
  shows "num_lock (mods (fold process_scancode [0xE1, 0x1D, 0x45, 0xE1, 0x9D, 0xC5] s)) = (\<not> num_lock (mods s))"
  unfolding modifiers_after using assms by (simp add: key_after_def)

end
