(* ===== verification/Descriptors.thy ===== *)
theory Descriptors
  imports Machine
begin

text \<open>
  \<open>cpu/gdt.c\<close>, \<open>cpu/ldt.c\<close> and \<open>cpu/tss.c\<close>: the tables of segment descriptors, and how the processor
  reads a descriptor back. The addresses of the static tables and the load instructions'
  operands are arguments and results.
\<close>

record gdt_entry =
  limit_low :: u16
  base_low :: u16
  base_middle :: u8
  access :: u8
  granularity :: u8
  base_high :: u8

text \<open>The value \<open>gdt_set_gate\<close> and \<open>gdt_set_gate_ldt\<close> leave in an entry.\<close>

definition segment_entry :: "u32 \<Rightarrow> u32 \<Rightarrow> u8 \<Rightarrow> u8 \<Rightarrow> gdt_entry" where
  "segment_entry base limit acc gran =
     \<lparr>limit_low = ucast (limit AND 0xFFFF),
      base_low = ucast (base AND 0xFFFF),
      base_middle = ucast (drop_bit 16 base AND 0xFF),
      access = acc,
      granularity = ucast (drop_bit 16 limit AND 0x0F) OR (gran AND 0xF0),
      base_high = ucast (drop_bit 24 base AND 0xFF)\<rparr>"

type_synonym gdt = "nat \<Rightarrow> gdt_entry"

definition gdt_set_gate :: "nat \<Rightarrow> u32 \<Rightarrow> u32 \<Rightarrow> u8 \<Rightarrow> u8 \<Rightarrow> gdt \<Rightarrow> gdt" where
  "gdt_set_gate index base limit acc gran gdt = gdt(index := segment_entry base limit acc gran)"

definition gdt_set_gate_ldt :: "nat \<Rightarrow> u32 \<Rightarrow> u32 \<Rightarrow> u8 \<Rightarrow> u8 \<Rightarrow> gdt \<Rightarrow> gdt" where
  "gdt_set_gate_ldt entry base limit acc gran ldt = ldt(entry := segment_entry base limit acc gran)"

text \<open>\<open>sizeof(tss)\<close> is 104 and \<open>sizeof(ldt)\<close> 16; the addresses of both are given.\<close>

definition init_gdt :: "u32 \<Rightarrow> u32 \<Rightarrow> gdt \<Rightarrow> gdt" where
  "init_gdt tss_addr ldt_addr gdt =
     (let gdt = gdt_set_gate 0 0 0 0 0 gdt;
          gdt = gdt_set_gate 1 0 0xFFFFFFFF 0x9A 0xCF gdt;
          gdt = gdt_set_gate 2 0 0xFFFFFFFF 0x92 0xCF gdt;
          gdt = gdt_set_gate 3 0 0xFFFFFFFF 0xFA 0xCF gdt;
          gdt = gdt_set_gate 4 0 0xFFFFFFFF 0xF2 0xCF gdt;
          gdt = gdt_set_gate 5 tss_addr (104 - 1) 0x89 0x00 gdt
      in gdt_set_gate 6 ldt_addr (16 - 1) 0x82 0x00 gdt)"

definition init_ldt :: "gdt \<Rightarrow> gdt" where
  "init_ldt ldt =
     (let zero = \<lparr>limit_low = 0, base_low = 0, base_middle = 0, access = 0, granularity = 0, base_high = 0\<rparr>;
          ldt = ldt(0 := zero, 1 := zero);
          ldt = gdt_set_gate_ldt 0 0 0xFFFFFFFF 0x9A 0xCF ldt
      in gdt_set_gate_ldt 1 0 0xFFFFFFFF 0x92 0xCF ldt)"

record tss_entry =
  esp0 :: u32
  ss0 :: u32
  tss_ldt :: u32
  iomap_base :: u16
  tss_rest :: "nat \<Rightarrow> u32" \<comment> \<open>the other fields, by index\<close>

definition init_tss :: "tss_entry \<Rightarrow> tss_entry" where
  "init_tss tss =
     (let tss = \<lparr>esp0 = 0, ss0 = 0, tss_ldt = 0, iomap_base = 0, tss_rest = (\<lambda>_. 0)\<rparr>
      in tss\<lparr>ss0 := 0x10, esp0 := 0x9000, tss_ldt := 0x30, iomap_base := 104\<rparr>)"

text \<open>The processor registers the load routines write.\<close>

record segment_regs =
  gdtr :: "u16 \<times> u32"
  ldtr :: u16
  tr :: u16
  seg_cs :: u16
  seg_data :: "u16 list" \<comment> \<open>\<open>ds\<close>, \<open>es\<close>, \<open>fs\<close>, \<open>gs\<close>, \<open>ss\<close>\<close>

definition load_gdt :: "u32 \<Rightarrow> segment_regs \<Rightarrow> segment_regs" where
  "load_gdt gdt_addr r = r\<lparr>gdtr := (7 * 8 - 1, gdt_addr)\<rparr>"

definition load_ldt :: "segment_regs \<Rightarrow> segment_regs" where
  "load_ldt r = r\<lparr>ldtr := 0x30\<rparr>"

definition load_tss :: "segment_regs \<Rightarrow> segment_regs" where
  "load_tss r = r\<lparr>tr := 0x28\<rparr>"

definition reload_segment_registers :: "segment_regs \<Rightarrow> segment_regs" where
  "reload_segment_registers r = r\<lparr>seg_cs := 0x08, seg_data := replicate 5 0x10\<rparr>"

section \<open>How the processor reads a descriptor\<close>

definition seg_base :: "gdt_entry \<Rightarrow> u32" where
  "seg_base e = ucast (base_low e) OR push_bit 16 (ucast (base_middle e)) OR push_bit 24 (ucast (base_high e))"

definition seg_raw_limit :: "gdt_entry \<Rightarrow> u32" where
  "seg_raw_limit e = ucast (limit_low e) OR push_bit 16 (ucast (granularity e AND 0x0F))"

text \<open>The last valid offset: the limit counts pages when the granularity bit is set.\<close>

definition seg_limit :: "gdt_entry \<Rightarrow> u32" where
  "seg_limit e = (if bit (granularity e) 7 then push_bit 12 (seg_raw_limit e) OR 0xFFF else seg_raw_limit e)"

lemma field_masks:
  "(0xFFFF :: u32) = mask 16" "(0xFF :: u32) = mask 8" "(0x0F :: u32) = mask 4"
  "(0x0F :: u8) = mask 4" "(0xF0 :: u8) = NOT (mask 4)"
  by (simp_all add: mask_eq_exp_minus_1)

lemma segment_entry_base: "seg_base (segment_entry base limit acc gran) = base"
proof (rule bit_word_eqI)
  fix n assume "n < LENGTH(32)"
  then consider "n < 16" | "16 \<le> n" "n < 24" | "24 \<le> n" "n < 32" by fastforce
  then show "bit (seg_base (segment_entry base limit acc gran)) n = bit base n"
    unfolding seg_base_def segment_entry_def field_masks
    by cases (auto simp: bit_simps less_diff_conv2)
qed

lemma segment_entry_limit: "seg_raw_limit (segment_entry base limit acc gran) = take_bit 20 limit"
proof (rule bit_word_eqI)
  fix n assume "n < LENGTH(32)"
  then consider "n < 16" | "16 \<le> n" "n < 20" | "20 \<le> n" "n < 32" by fastforce
  then show "bit (seg_raw_limit (segment_entry base limit acc gran)) n = bit (take_bit 20 limit) n"
    unfolding seg_raw_limit_def segment_entry_def field_masks
    by cases (auto simp: bit_simps less_diff_conv2)
qed

lemma segment_entry_flags:
  "granularity (segment_entry base limit acc gran) AND 0xF0 = gran AND 0xF0"
  "access (segment_entry base limit acc gran) = acc"
proof -
  show "granularity (segment_entry base limit acc gran) AND 0xF0 = gran AND 0xF0"
    unfolding segment_entry_def field_masks by (rule bit_word_eqI) (auto simp: bit_simps)
  show "access (segment_entry base limit acc gran) = acc" by (simp add: segment_entry_def)
qed

text \<open>A segment descriptor that \<open>gdt_set_gate\<close> or \<open>gdt_set_gate_ldt\<close> encodes is read back by the
  processor with the base, the low 20 bits of the limit, the access byte and the flags it was
  given; so the code and data segments \<open>init_gdt\<close> and \<open>init_ldt\<close> set up span all 4 GiB, and the
  task state and local table descriptors cover exactly those objects.\<close>

theorem segment_descriptors_roundtrip:
  "seg_base (gdt_set_gate i base limit acc gran g i) = base \<and>
   seg_raw_limit (gdt_set_gate i base limit acc gran g i) = take_bit 20 limit \<and>
   access (gdt_set_gate i base limit acc gran g i) = acc \<and>
   granularity (gdt_set_gate i base limit acc gran g i) AND 0xF0 = gran AND 0xF0 \<and>
   gdt_set_gate_ldt i base limit acc gran g i = gdt_set_gate i base limit acc gran g i \<and>
   map (\<lambda>k. (seg_base (init_gdt t l g k), seg_limit (init_gdt t l g k))) [1, 2, 3, 4, 5, 6] =
     [(0, 0xFFFFFFFF), (0, 0xFFFFFFFF), (0, 0xFFFFFFFF), (0, 0xFFFFFFFF), (t, 103), (l, 15)] \<and>
   map (\<lambda>k. (seg_base (init_ldt d k), seg_limit (init_ldt d k))) [0, 1] =
     [(0, 0xFFFFFFFF), (0, 0xFFFFFFFF)]"
proof -
  have lim: "seg_limit (segment_entry b l a 0xCF) = push_bit 12 (take_bit 20 l) OR 0xFFF"
    "seg_limit (segment_entry b l a 0) = take_bit 20 l" for b l a
    by (simp_all add: seg_limit_def segment_entry_limit) (simp_all add: segment_entry_def bit_simps)
  have ev: "push_bit 12 (take_bit 20 (0xFFFFFFFF :: u32)) OR 0xFFF = 0xFFFFFFFF"
      "take_bit 20 (103 :: u32) = 103" "take_bit 20 (15 :: u32) = 15"
    by code_simp+
  show ?thesis
    by (simp add: init_gdt_def init_ldt_def gdt_set_gate_def gdt_set_gate_ldt_def Let_def
        segment_entry_base segment_entry_limit segment_entry_flags lim ev)
qed

end
