(* ===== verification/Pic.thy ===== *)
theory Pic
  imports Machine
begin

text \<open>
  \<open>cpu/pic.c\<close>: programming of the two interrupt controllers, as the sequence of bytes written to
  their ports.
\<close>

definition PIC_COMMAND_MASTER :: u16 where "PIC_COMMAND_MASTER = 0x20"
definition PIC_DATA_MASTER :: u16 where "PIC_DATA_MASTER = 0x21"
definition PIC_COMMAND_SLAVE :: u16 where "PIC_COMMAND_SLAVE = 0xA0"
definition PIC_DATA_SLAVE :: u16 where "PIC_DATA_SLAVE = 0xA1"

lemmas pic_ports [simp] = PIC_COMMAND_MASTER_def PIC_DATA_MASTER_def PIC_COMMAND_SLAVE_def PIC_DATA_SLAVE_def

definition pic_eoi :: "u8 \<Rightarrow> 'a machine_scheme \<Rightarrow> 'a machine_scheme" where
  "pic_eoi irq s =
     (let s = (if 8 \<le> irq then outb PIC_COMMAND_SLAVE 0x20 s else s) in outb PIC_COMMAND_MASTER 0x20 s)"

abbreviation outb_wait :: "u16 \<Rightarrow> u8 \<Rightarrow> 'a machine_scheme \<Rightarrow> 'a machine_scheme" where
  "outb_wait p v s \<equiv> io_wait (outb p v s)"

definition remap :: "'a machine_scheme \<Rightarrow> 'a machine_scheme" where
  "remap s =
     (let (master_mask, s) = inb PIC_DATA_MASTER s;
          (slave_mask, s) = inb PIC_DATA_SLAVE s;
          s = outb_wait PIC_COMMAND_MASTER (0x11 OR 0x01) s;
          s = outb_wait PIC_DATA_MASTER 0x20 s;
          s = outb_wait PIC_DATA_MASTER 0x04 s;
          s = outb_wait PIC_DATA_MASTER 0x01 s;
          s = outb_wait PIC_COMMAND_SLAVE (0x11 OR 0x01) s;
          s = outb_wait PIC_DATA_SLAVE 0x28 s;
          s = outb_wait PIC_DATA_SLAVE 0x02 s;
          s = outb_wait PIC_DATA_SLAVE 0x01 s;
          s = outb_wait PIC_DATA_MASTER master_mask s;
          s = outb_wait PIC_DATA_SLAVE slave_mask s;
          s = viprint (''Remap done'' @ newline) s;
          s = viprint (''Masking all'' @ newline) s;
          s = outb PIC_DATA_MASTER 0xFF s;
          s = outb PIC_DATA_SLAVE 0xFF s
      in viprint (''Masked'' @ newline) s)"

definition set_mask :: "u8 \<Rightarrow> 'a machine_scheme \<Rightarrow> 'a machine_scheme" where
  "set_mask IRQline s =
     (let (port, line) = (if IRQline < 8 then (PIC_DATA_MASTER, IRQline) else (PIC_DATA_SLAVE, IRQline - 8));
          (v, s) = inb port s
      in outb port (v OR push_bit (unat line) 1) s)"

definition clear_mask :: "u8 \<Rightarrow> 'a machine_scheme \<Rightarrow> 'a machine_scheme" where
  "clear_mask IRQline s =
     (let (port, line) = (if IRQline < 8 then (PIC_DATA_MASTER, IRQline) else (PIC_DATA_SLAVE, IRQline - 8));
          (v, s) = inb port s
      in outb port (v AND NOT (push_bit (unat line) 1)) s)"

definition disable_pic :: "'a machine_scheme \<Rightarrow> 'a machine_scheme" where
  "disable_pic s =
     (let s = set_mask 0 s;
          s = outb_wait PIC_DATA_SLAVE 0xFF s;
          s = outb PIC_DATA_MASTER 0xFF s
      in viprint (''Disabled PIC'' @ newline) s)"

definition pic_get_irq_reg :: "u8 \<Rightarrow> 'a machine_scheme \<Rightarrow> u16 \<times> 'a machine_scheme" where
  "pic_get_irq_reg ocw3 s =
     (let s = outb PIC_COMMAND_MASTER ocw3 s;
          s = outb PIC_COMMAND_SLAVE ocw3 s;
          (hi, s) = inb PIC_COMMAND_SLAVE s;
          (lo, s) = inb PIC_COMMAND_MASTER s
      in (push_bit 8 (ucast hi) OR ucast lo, s))"

definition pic_get_irr :: "'a machine_scheme \<Rightarrow> u16 \<times> 'a machine_scheme" where
  "pic_get_irr = pic_get_irq_reg 0x0a"

definition pic_get_isr :: "'a machine_scheme \<Rightarrow> u16 \<times> 'a machine_scheme" where
  "pic_get_isr = pic_get_irq_reg 0x0b"

definition unmask_kb :: "'a machine_scheme \<Rightarrow> 'a machine_scheme" where
  "unmask_kb s = (let (master_mask, s) = inb PIC_DATA_MASTER s
     in outb PIC_DATA_MASTER (master_mask AND NOT (push_bit 1 1)) s)"

section \<open>The controllers as devices\<close>

text \<open>
  What a pair of 8259A does with the bytes written to it, as far as this file uses it: a command
  byte with bit 4 set starts the initialisation, the next three data bytes are the vector
  offset, the wiring and the mode, and any later data byte is the interrupt mask. The state of
  one controller is the number of initialisation words it waits for, its vector offset and its
  mask.
\<close>

record pic8259 =
  icw_left :: nat
  offset :: u8
  imr :: u8

definition pic_take :: "u16 \<Rightarrow> u16 \<Rightarrow> u16 \<times> u32 \<Rightarrow> pic8259 \<Rightarrow> pic8259" where
  "pic_take cmd data w p =
     (if fst w = cmd then (if bit (snd w) 4 then p\<lparr>icw_left := 3\<rparr> else p)
      else if fst w = data then
        (if icw_left p = 3 then p\<lparr>icw_left := 2, offset := ucast (snd w)\<rparr>
         else if 0 < icw_left p then p\<lparr>icw_left := icw_left p - 1\<rparr>
         else p\<lparr>imr := ucast (snd w)\<rparr>)
      else p)"

definition master_after :: "(u16 \<times> u32) list \<Rightarrow> pic8259 \<Rightarrow> pic8259" where
  "master_after ws = fold (pic_take PIC_COMMAND_MASTER PIC_DATA_MASTER) ws"

definition slave_after :: "(u16 \<times> u32) list \<Rightarrow> pic8259 \<Rightarrow> pic8259" where
  "slave_after ws = fold (pic_take PIC_COMMAND_SLAVE PIC_DATA_SLAVE) ws"

lemma inb_port_out [simp]: "port_out (snd (inb p s)) = port_out s"
  by (simp add: inb_def port_read_def)

lemma outb_port_out [simp]: "port_out (outb p v s) = port_out s @ [(p, ucast v)]"
  by (simp add: outb_def)

lemma io_wait_port_out [simp]: "port_out (io_wait s) = port_out s @ [(0x80, 0)]"
  by (simp add: io_wait_def)

text \<open>After \<open>remap\<close> the master raises vectors 32 to 39 and the slave 40 to 47, all masked.\<close>

lemma remap_writes:
  "\<exists>ws. port_out (remap s) = port_out s @ ws \<and>
    offset (master_after ws m) = 0x20 \<and> imr (master_after ws m) = 0xFF \<and> icw_left (master_after ws m) = 0 \<and>
    offset (slave_after ws v) = 0x28 \<and> imr (slave_after ws v) = 0xFF \<and> icw_left (slave_after ws v) = 0"
  by (simp add: remap_def Let_def split_def master_after_def slave_after_def pic_take_def)

end
