(* ===== verification/Interrupts.thy ===== *)
theory Interrupts
  imports Pic
begin

text \<open>
  \<open>cpu/interrupts.c\<close>: the interrupt descriptor table, the dispatch of exceptions, device
  interrupts and system calls, and the tables of registered handlers. The stubs of
  \<open>irq_stubs.asm\<close> call \<open>interrupt_dispatch\<close> with the saved registers. A handler in a table is its
  address; what a handler does is an argument (\<open>run\<close>), as the handlers belong to other files.
  A processor that stops in \<open>cli; hlt\<close> is the result \<open>Inl\<close> with the state it stops in.
\<close>

section \<open>State\<close>

record registers =
  gs :: u32
  fs :: u32
  es :: u32
  ds :: u32
  edi :: u32
  esi :: u32
  ebp :: u32
  esp :: u32
  ebx :: u32
  edx :: u32
  ecx :: u32
  eax :: u32
  int_no :: u32
  err_code :: u32
  eip :: u32
  cs :: u32
  eflags :: u32
  useresp :: u32
  ss :: u32

record idt_entry =
  low :: u16
  selector :: u16
  reserved :: u8
  type_attr :: u8
  high :: u16

record interrupts = machine +
  idt :: "nat \<Rightarrow> idt_entry"
  idtp_limit :: u16
  idtp_base :: u32
  idtr :: "u16 \<times> u32" \<comment> \<open>the processor's register\<close>
  irq_handlers :: "nat \<Rightarrow> u32"
  syscall_table :: "nat \<Rightarrow> u32"

definition IDT_SIZE :: nat where "IDT_SIZE = 256"
definition IRQ_BASE :: u32 where "IRQ_BASE = 32"
definition IRQ_COUNT :: nat where "IRQ_COUNT = 16"
definition SYSCALL_VECTOR :: nat where "SYSCALL_VECTOR = 0x80"
definition MAX_SYSCALLS :: nat where "MAX_SYSCALLS = 64"

lemmas interrupt_sizes [simp] = IDT_SIZE_def IRQ_BASE_def IRQ_COUNT_def SYSCALL_VECTOR_def MAX_SYSCALLS_def

section \<open>The table\<close>

definition set_idt_entry :: "nat \<Rightarrow> u32 \<Rightarrow> u16 \<Rightarrow> u8 \<Rightarrow> 'a interrupts_scheme \<Rightarrow> 'a interrupts_scheme" where
  "set_idt_entry vector handler sel attr s = s\<lparr>idt := (idt s)(vector :=
     \<lparr>low = ucast (handler AND 0xFFFF), selector = sel, reserved = 0, type_attr = attr,
      high = ucast (drop_bit 16 handler AND 0xFFFF)\<rparr>)\<rparr>"

definition asm_ints_on :: "'a machine_scheme \<Rightarrow> 'a machine_scheme" where
  "asm_ints_on s = viprint (''Interrupts enabled'' @ newline) (sti s)"

definition asm_ints_off :: "'a machine_scheme \<Rightarrow> 'a machine_scheme" where
  "asm_ints_off s = viprint (''Interrupts disabled'' @ newline) (cli s)"

definition load_idt :: "u32 \<Rightarrow> 'a interrupts_scheme \<Rightarrow> 'a interrupts_scheme" where
  "load_idt idt_addr s =
     (let s = s\<lparr>idtp_limit := 256 * 8 - 1, idtp_base := idt_addr\<rparr>;
          s = s\<lparr>idtr := (idtp_limit s, idtp_base s)\<rparr>
      in viprint (''Loaded IDT'' @ newline) s)"

definition gate_attr :: "nat \<Rightarrow> u8" where
  "gate_attr i = (let attr = 0x8E; attr = (if i = 3 then 0x8F OR 0x60 else attr)
     in if i = SYSCALL_VECTOR then 0x8E OR 0x60 else attr)"

definition init_ints :: "(nat \<Rightarrow> u32) \<Rightarrow> u32 \<Rightarrow> 'a interrupts_scheme \<Rightarrow> 'a interrupts_scheme" where
  "init_ints isr_stub_table idt_addr s =
     (let s = viprint (''Setting IDT entries'' @ newline) s;
          s = fold (\<lambda>i. set_idt_entry i (isr_stub_table i) 0x08 (gate_attr i)) [0..<IDT_SIZE] s;
          s = viprint (''Remapping PIC'' @ newline) s;
          s = remap s;
          s = viprint (''Loading IDT'' @ newline) s
      in load_idt idt_addr s)"

definition verify_idt :: "'a interrupts_scheme \<Rightarrow> 'a interrupts_scheme" where
  "verify_idt s =
     (if snd (idtr s) = idtp_base s \<and> fst (idtr s) = idtp_limit s then viprint (''IDT OK'' @ newline) s
      else viprint (''IDT mismatch!'' @ newline) s)"

definition read_esp :: "u32 \<Rightarrow> 'a machine_scheme \<Rightarrow> 'a machine_scheme" where
  "read_esp sp s = hexprint sp (viprint ''ESP: '' s)"

section \<open>Registration\<close>

definition irq_register_handler :: "u8 \<Rightarrow> u32 \<Rightarrow> 'a interrupts_scheme \<Rightarrow> int \<times> 'a interrupts_scheme" where
  "irq_register_handler irq handler s =
     (if IRQ_COUNT \<le> unat irq \<or> handler = 0 then (- 1, s)
      else if irq_handlers s (unat irq) \<noteq> 0 then (- 1, s)
      else (0, s\<lparr>irq_handlers := (irq_handlers s)(unat irq := handler)\<rparr>))"

definition irq_unregister_handler :: "u8 \<Rightarrow> 'a interrupts_scheme \<Rightarrow> 'a interrupts_scheme" where
  "irq_unregister_handler irq s =
     (if unat irq < IRQ_COUNT then s\<lparr>irq_handlers := (irq_handlers s)(unat irq := 0)\<rparr> else s)"

definition syscall_register :: "u8 \<Rightarrow> u32 \<Rightarrow> 'a interrupts_scheme \<Rightarrow> int \<times> 'a interrupts_scheme" where
  "syscall_register num handler s =
     (if MAX_SYSCALLS \<le> unat num \<or> handler = 0 then (- 1, s)
      else if syscall_table s (unat num) \<noteq> 0 then (- 1, s)
      else (0, s\<lparr>syscall_table := (syscall_table s)(unat num := handler)\<rparr>))"

section \<open>Dispatch\<close>

definition pic_read_isr :: "'a machine_scheme \<Rightarrow> u16 \<times> 'a machine_scheme" where
  "pic_read_isr s =
     (let (pic1, s) = inb 0x20 (outb 0x20 0x0B s);
          (pic2, s) = inb 0xA0 (outb 0xA0 0x0B s)
      in (push_bit 8 (ucast pic2) OR ucast pic1, s))"

definition pic_send_eoi :: "u8 \<Rightarrow> 'a machine_scheme \<Rightarrow> 'a machine_scheme" where
  "pic_send_eoi irq s = (let s = (if 8 \<le> irq then outb 0xA0 0x20 s else s) in outb 0x20 0x20 s)"

definition exception_names :: "string list" where
  "exception_names = [''Divide by zero'', ''Debug'', ''NMI'', ''Breakpoint'', ''Overflow'',
     ''Bound range exceeded'', ''Invalid opcode'', ''Device not available'', ''Double fault'',
     ''Coprocessor segment overrun'', ''Invalid TSS'', ''Segment not present'', ''Stack-segment fault'',
     ''General protection fault'', ''Page fault'', ''Reserved'', ''x87 FPU error'', ''Alignment check'',
     ''Machine check'', ''SIMD FPU exception'', ''Virtualization exception'',
     ''Control protection exception'', ''Reserved'', ''Reserved'', ''Reserved'', ''Reserved'', ''Reserved'',
     ''Reserved'', ''Hypervisor injection exception'', ''VMM communication exception'', ''Security exception'']"

abbreviation show_reg :: "string \<Rightarrow> u32 \<Rightarrow> 'a machine_scheme \<Rightarrow> 'a machine_scheme" where
  "show_reg t v s \<equiv> hexprint v (viprint t s)"

definition print_regs :: "registers \<Rightarrow> 'a machine_scheme \<Rightarrow> 'a machine_scheme" where
  "print_regs r s =
     (let s = show_reg ''EAX='' (eax r) s;
          s = show_reg '' EBX='' (ebx r) s;
          s = show_reg '' ECX='' (ecx r) s;
          s = show_reg '' EDX='' (edx r) s;
          s = show_reg (newline @ ''ESI='') (esi r) s;
          s = show_reg '' EDI='' (edi r) s;
          s = show_reg '' EBP='' (ebp r) s;
          s = show_reg '' ESP='' (esp r) s;
          s = show_reg (newline @ ''EIP='') (eip r) s;
          s = show_reg '' CS='' (cs r) s;
          s = show_reg '' EFLAGS='' (eflags r) s;
          s = show_reg '' USERESP='' (useresp r) s;
          s = show_reg '' SS='' (ss r) s
      in viprint newline s)"

text \<open>\<open>exception_handler\<close> always ends in \<open>cli; hlt\<close>; \<open>cr2\<close> is the processor's register.\<close>

definition exception_handler :: "u32 \<Rightarrow> registers \<Rightarrow> 'a machine_scheme \<Rightarrow> 'a machine_scheme" where
  "exception_handler cr2 r s =
     (let vector = int_no r;
          s = (if vector < 31 then viprint (exception_names ! unat vector) s else viprint ''Unknown exception'' s);
          s = viprint '' Exception '' s;
          s = hexprint vector s;
          s = viprint '' err='' s;
          s = hexprint (err_code r) s;
          s = viprint newline s;
          s = print_regs r s;
          s = (if vector = 14 then viprint newline (hexprint cr2 (viprint ''CR2='' s)) else s);
          s = viprint (''Halting.'' @ newline) s
      in cli s)"

definition irq_dispatch ::
  "(u32 \<Rightarrow> registers \<times> 'a interrupts_scheme \<Rightarrow> registers \<times> 'a interrupts_scheme) \<Rightarrow>
     registers \<Rightarrow> 'a interrupts_scheme \<Rightarrow> registers \<times> 'a interrupts_scheme" where
  "irq_dispatch run r s =
     (let irq = ucast (int_no r - IRQ_BASE) :: u8
      in if IRQ_COUNT \<le> unat irq then (r, viprint (''Invalid IRQ vector'' @ newline) s)
         else
           let (spurious, s) =
                 (if irq = 7 \<or> irq = 15
                  then let (isr, s) = pic_read_isr s in (isr AND push_bit (unat irq) 1 = 0, s)
                  else (False, s))
           in if spurious then (r, if irq = 15 then outb 0x20 0x20 s else s)
              else
                let (r, s) = (if irq_handlers s (unat irq) \<noteq> 0 then run (irq_handlers s (unat irq)) (r, s)
                              else (r, viprint newline (hexprint (ucast irq) (viprint ''Unhandled IRQ '' s))))
                in (r, pic_send_eoi irq s))"

definition syscall_dispatch ::
  "(u32 \<Rightarrow> u32 \<times> u32 \<times> u32 \<times> u32 \<Rightarrow> 'a interrupts_scheme \<Rightarrow> u32 \<times> 'a interrupts_scheme) \<Rightarrow>
     registers \<Rightarrow> 'a interrupts_scheme \<Rightarrow> u32 \<times> 'a interrupts_scheme" where
  "syscall_dispatch sys r s =
     (let num = eax r
      in if of_nat MAX_SYSCALLS \<le> num \<or> syscall_table s (unat num) = 0 then (0xFFFFFFFF, s)
         else sys (syscall_table s (unat num)) (ebx r, ecx r, edx r, esi r) s)"

definition interrupt_dispatch ::
  "u32 \<Rightarrow> (u32 \<Rightarrow> registers \<times> 'a interrupts_scheme \<Rightarrow> registers \<times> 'a interrupts_scheme) \<Rightarrow>
     (u32 \<Rightarrow> u32 \<times> u32 \<times> u32 \<times> u32 \<Rightarrow> 'a interrupts_scheme \<Rightarrow> u32 \<times> 'a interrupts_scheme) \<Rightarrow>
     registers \<Rightarrow> 'a interrupts_scheme \<Rightarrow> 'a interrupts_scheme + registers \<times> 'a interrupts_scheme" where
  "interrupt_dispatch cr2 run sys r s =
     (let vector = int_no r
      in if vector < 32 then Inl (exception_handler cr2 r s)
         else if IRQ_BASE \<le> vector \<and> vector < IRQ_BASE + of_nat IRQ_COUNT then Inr (irq_dispatch run r s)
         else if vector = of_nat SYSCALL_VECTOR then
           (let (v, s) = syscall_dispatch sys r s in Inr (r\<lparr>eax := v\<rparr>, s))
         else Inl (cli (viprint newline (hexprint vector (viprint ''Unhandled interrupt: '' s)))))"

end
