(* ===== verification/Interrupts_Spec.thy ===== *)
theory Interrupts_Spec
  imports Interrupts
begin

text \<open>
  What the processor finds in the interrupt descriptor table, and which handler runs and which
  acknowledgement is sent for every device interrupt, spurious ones included.
\<close>

section \<open>Gates\<close>

definition gate_offset :: "idt_entry \<Rightarrow> u32" where
  "gate_offset e = ucast (low e) OR push_bit 16 (ucast (high e))"

definition gate_dpl :: "idt_entry \<Rightarrow> u8" where
  "gate_dpl e = drop_bit 5 (type_attr e) AND 3"

lemma gate_halves: "gate_offset \<lparr>low = ucast (h AND 0xFFFF), selector = a, reserved = b, type_attr = c,
    high = ucast (drop_bit 16 h AND 0xFFFF)\<rparr> = h"
proof (rule bit_word_eqI)
  have m: "(0xFFFF :: u32) = mask 16" by (simp add: mask_eq_exp_minus_1)
  fix n assume "n < LENGTH(32)"
  then consider "n < 16" | "16 \<le> n" "n < 32" by fastforce
  then show "bit (gate_offset \<lparr>low = ucast (h AND 0xFFFF), selector = a, reserved = b, type_attr = c,
      high = ucast (drop_bit 16 h AND 0xFFFF)\<rparr>) n = bit h n"
    unfolding gate_offset_def m by cases (auto simp: bit_simps less_diff_conv2)
qed

lemma set_idt_entry_idt: "idt (set_idt_entry i h sel a s) = (idt s)(i :=
    \<lparr>low = ucast (h AND 0xFFFF), selector = sel, reserved = 0, type_attr = a, high = ucast (drop_bit 16 h AND 0xFFFF)\<rparr>)"
  by (simp add: set_idt_entry_def)

lemma fold_idt:
  "i < n \<Longrightarrow> idt (fold (\<lambda>i. set_idt_entry i (tbl i) 0x08 (gate_attr i)) [0..<n] s) i =
    \<lparr>low = ucast (tbl i AND 0xFFFF), selector = 0x08, reserved = 0, type_attr = gate_attr i,
     high = ucast (drop_bit 16 (tbl i) AND 0xFFFF)\<rparr>"
proof (induction n)
  case 0
  then show ?case by simp
next
  case (Suc n)
  then show ?case by (cases "i = n") (simp_all add: set_idt_entry_idt)
qed

lemma idt_frame [simp]:
  "idt (con e s) = idt s" "idt (outb p v s) = idt s" "idt (io_wait s) = idt s" "idt (snd (inb p s)) = idt s"
  by (simp_all add: con_def outb_def io_wait_def inb_def port_read_def)

lemma remap_idt [simp]: "idt (remap s) = idt s"
  by (simp add: remap_def Let_def split_def)

section \<open>Device interrupts\<close>

text \<open>The state after the in-service registers have been read, and whether the interrupt is spurious.\<close>

definition after_isr_read :: "nat \<Rightarrow> 'a interrupts_scheme \<Rightarrow> 'a interrupts_scheme" where
  "after_isr_read n s = (if n = 7 \<or> n = 15 then snd (pic_read_isr s) else s)"

definition spurious :: "nat \<Rightarrow> 'a interrupts_scheme \<Rightarrow> bool" where
  "spurious n s \<longleftrightarrow> (n = 7 \<or> n = 15) \<and> \<not> bit (fst (pic_read_isr s)) n"

lemma small_irq:
  assumes "n < 16"
  shows "unat (ucast ((32 + of_nat n :: u32) - IRQ_BASE) :: u8) = n"
    and "(ucast ((32 + of_nat n :: u32) - IRQ_BASE) :: u8) = of_nat n"
proof -
  show u: "unat (ucast ((32 + of_nat n :: u32) - IRQ_BASE) :: u8) = n"
    using assms by (simp add: unsigned_ucast_eq unat_of_nat take_bit_nat_eq_self)
  then show "(ucast ((32 + of_nat n :: u32) - IRQ_BASE) :: u8) = of_nat n"
    using assms by (simp add: word_unat_eq_iff unat_of_nat)
qed

lemma pic_read_isr_frame:
  "port_out (snd (pic_read_isr s)) = port_out s @ [(0x20, 0x0B), (0xA0, 0x0B)]"
  "irq_handlers (snd (pic_read_isr s)) = irq_handlers s"
  by (simp_all add: pic_read_isr_def Let_def split_def)
    (simp_all add: inb_def outb_def port_read_def)

lemma irq_dispatch_split:
  assumes "n < 16" "int_no r = 32 + of_nat n" "irq_handlers s n \<noteq> 0"
  shows "irq_dispatch run r s =
    (if spurious n s then (r, if n = 15 then outb 0x20 0x20 (after_isr_read n s) else after_isr_read n s)
     else (let (r, t) = run (irq_handlers s n) (r, after_isr_read n s) in (r, pic_send_eoi (of_nat n) t)))"
proof -
  note irq = small_irq[OF assms(1)]
  have eq: "(of_nat n = (7 :: u8)) = (n = 7)" "(of_nat n = (15 :: u8)) = (n = 15)"
    using irq by (auto dest: arg_cong[of _ _ unat])
  have bit: "(isr AND 0x80 = 0) = (\<not> bit isr 7)" "(isr AND 0x8000 = 0) = (\<not> bit isr 15)" for isr :: u16
    using and_single_bit[of isr 7] and_single_bit[of isr 15] by auto
  show ?thesis
  proof (cases "n = 7 \<or> n = 15")
    case True
    obtain isr t where t: "pic_read_isr s = (isr, t)" by (cases "pic_read_isr s")
    have h: "irq_handlers t = irq_handlers s" using pic_read_isr_frame(2)[of s] by (simp add: t)
    from True assms(1,3) show ?thesis
      unfolding irq_dispatch_def assms(2) Let_def irq(2) spurious_def after_isr_read_def
      by (auto simp: irq(1)[unfolded irq(2)] eq t bit h)
  next
    case False
    with assms(1,3) show ?thesis
      unfolding irq_dispatch_def assms(2) Let_def irq(2) spurious_def after_isr_read_def
      by (auto simp: irq(1)[unfolded irq(2)] eq)
  qed
qed

lemma eoi_writes:
  assumes "n < 16"
  shows "port_out (pic_send_eoi (of_nat n) t) = port_out t @ (if 8 \<le> n then [(0xA0, 0x20)] else []) @ [(0x20, 0x20)]"
proof -
  have "(8 \<le> (of_nat n :: u8)) = (8 \<le> n)"
    using assms by (simp add: word_le_nat_alt unat_of_nat)
  then show ?thesis by (simp add: pic_send_eoi_def)
qed

lemma vector_range:
  assumes "n < 16" "int_no r = 32 + of_nat n"
  shows "interrupt_dispatch cr2 run sys r s = Inr (irq_dispatch run r s)"
proof -
  have "unat (int_no r) = 32 + n" using assms by (simp add: unat_word_ariths unat_of_nat)
  with assms(1) show ?thesis
    by (simp add: interrupt_dispatch_def Let_def word_less_nat_alt word_le_nat_alt)
qed

section \<open>Properties\<close>

definition quiet_interrupts :: interrupts where
  "quiet_interrupts = \<lparr>console = [], port_out = [], port_in = (\<lambda>_ _. 0), port_reads = (\<lambda>_. 0), iflag = True,
     idt = (\<lambda>_. \<lparr>low = 0, selector = 0, reserved = 0, type_attr = 0, high = 0\<rparr>), idtp_limit = 0, idtp_base = 0,
     idtr = (0, 0), irq_handlers = (\<lambda>_. 0)(7 := 5, 9 := 6), syscall_table = (\<lambda>_. 0)\<rparr>"

definition saved :: "u32 \<Rightarrow> registers" where
  "saved v = \<lparr>gs = 0, fs = 0, es = 0, ds = 0, edi = 0, esi = 0, ebp = 0, esp = 0, ebx = 0, edx = 0, ecx = 0,
     eax = 0, int_no = v, err_code = 0, eip = 0, cs = 0, eflags = 0, useresp = 0, ss = 0\<rparr>"

text \<open>C17: A device interrupt with a registered handler runs that handler exactly once, on the saved
  registers, and then acknowledges it: always at the master, and at the slave first when it came
  from there. Only a spurious IRQ 7 or 15, one the controllers do not have in service, runs no
  handler: nothing is acknowledged for IRQ 7, and the master alone for IRQ 15.\<close>

theorem device_interrupt_handled:
  assumes "n < 16" "int_no r = 32 + of_nat n" "irq_handlers s n \<noteq> 0"
  shows "\<exists>r' s'. interrupt_dispatch cr2 run sys r s = Inr (r', s') \<and>
    (if spurious n s
     then r' = r \<and> port_out s' = port_out s @ [(0x20, 0x0B), (0xA0, 0x0B)] @ (if n = 15 then [(0x20, 0x20)] else [])
     else r' = fst (run (irq_handlers s n) (r, after_isr_read n s)) \<and>
       s' = pic_send_eoi (of_nat n) (snd (run (irq_handlers s n) (r, after_isr_read n s))) \<and>
       port_out s' = port_out (snd (run (irq_handlers s n) (r, after_isr_read n s))) @
         (if 8 \<le> n then [(0xA0, 0x20)] else []) @ [(0x20, 0x20)])"
proof (cases "spurious n s")
  case True
  then have "n = 7 \<or> n = 15" by (simp add: spurious_def)
  then show ?thesis
    using True by (auto simp: vector_range[OF assms(1,2)] irq_dispatch_split[OF assms] after_isr_read_def pic_read_isr_frame)
next
  case False
  then show ?thesis
    by (simp add: vector_range[OF assms(1,2)] irq_dispatch_split[OF assms] eoi_writes[OF assms(1)] split_def Let_def)
qed

theorem device_interrupt_handled_witness:
  "\<exists>r' s'. interrupt_dispatch 0 (\<lambda>h (r, s). (r, outb 0x60 (ucast h) s)) (\<lambda>_ _ s. (0, s)) (saved 41) quiet_interrupts
      = Inr (r', s') \<and> port_out s' = [(0x60, 6), (0xA0, 0x20), (0x20, 0x20)]"
proof -
  have "(9 :: nat) < 16" "int_no (saved 41) = 32 + of_nat 9" "irq_handlers quiet_interrupts 9 \<noteq> 0"
    by (simp_all add: saved_def quiet_interrupts_def)
  moreover have "\<not> spurious 9 quiet_interrupts" by (simp add: spurious_def)
  moreover have "port_out (snd ((\<lambda>h (r, s). (r, outb 0x60 (ucast h) s)) (irq_handlers quiet_interrupts 9)
      (saved 41, after_isr_read 9 quiet_interrupts))) = [(0x60, 6)]"
    by (simp add: after_isr_read_def quiet_interrupts_def)
  ultimately show ?thesis
    using device_interrupt_handled[of 9 "saved 41" quiet_interrupts 0 "\<lambda>h (r, s). (r, outb 0x60 (ucast h) s)" "\<lambda>_ _ s. (0, s)"]
    by auto
qed

text \<open>A handler that acknowledges the interrupt itself, as \<open>keyboard_handler\<close> does, leads to a second
  acknowledgement of the same interrupt.\<close>

lemma acknowledged_twice:
  assumes "irq_handlers s 1 \<noteq> 0" "int_no r = 33"
    and "port_out (snd (run (irq_handlers s 1) (r, s))) = port_out s @ [(0x20, 0x20)]"
  shows "\<exists>r' s'. interrupt_dispatch cr2 run sys r s = Inr (r', s') \<and> port_out s' = port_out s @ [(0x20, 0x20), (0x20, 0x20)]"
proof -
  have n: "(1 :: nat) < 16" "int_no r = 32 + of_nat 1" using assms(2) by simp_all
  have "\<not> spurious 1 s" "after_isr_read 1 s = s" by (simp_all add: spurious_def after_isr_read_def)
  with assms(3) show ?thesis
    by (simp add: vector_range[OF n] irq_dispatch_split[OF n assms(1)] eoi_writes[OF n(1), simplified] split_def Let_def)
qed

text \<open>After \<open>init_ints\<close> the gate of every vector is read by the processor as a present interrupt or
  trap gate into the kernel code segment at the address of its stub, callable from user mode only
  for the breakpoint and the system call vector; the table register covers all 256 gates, and the
  controllers raise vectors 32 to 47, all masked.\<close>

theorem init_ints_gates:
  "(\<forall>i < 256. gate_offset (idt (init_ints stubs addr s) i) = stubs i \<and>
      selector (idt (init_ints stubs addr s) i) = 0x08 \<and> bit (type_attr (idt (init_ints stubs addr s) i)) 7 \<and>
      gate_dpl (idt (init_ints stubs addr s) i) = (if i = 3 \<or> i = 0x80 then 3 else 0)) \<and>
   idtr (init_ints stubs addr s) = (2047, addr) \<and>
   (\<exists>ws. port_out (init_ints stubs addr s) = port_out s @ ws \<and>
      offset (master_after ws m) = 0x20 \<and> imr (master_after ws m) = 0xFF \<and>
      offset (slave_after ws v) = 0x28 \<and> imr (slave_after ws v) = 0xFF)"
proof (intro conjI allI impI)
  fix i :: nat assume i: "i < 256"
  have e: "idt (init_ints stubs addr s) i =
      \<lparr>low = ucast (stubs i AND 0xFFFF), selector = 0x08, reserved = 0, type_attr = gate_attr i,
       high = ucast (drop_bit 16 (stubs i) AND 0xFFFF)\<rparr>"
    using i by (simp add: init_ints_def load_idt_def Let_def fold_idt)
  have a: "bit (0x8E :: u8) 7" "bit (0xEE :: u8) 7" "bit (0xEF :: u8) 7" by code_simp+
  have d: "drop_bit 5 (0x8E :: u8) AND 3 = 0" "drop_bit 5 (0xEE :: u8) AND 3 = 3" "drop_bit 5 (0xEF :: u8) AND 3 = 3"
    by code_simp+
  show "gate_offset (idt (init_ints stubs addr s) i) = stubs i" by (simp add: e gate_halves)
  show "selector (idt (init_ints stubs addr s) i) = 0x08" by (simp add: e)
  show "bit (type_attr (idt (init_ints stubs addr s) i)) 7" using a by (simp add: e gate_attr_def)
  show "gate_dpl (idt (init_ints stubs addr s) i) = (if i = 3 \<or> i = 0x80 then 3 else 0)"
    using d by (simp add: e gate_dpl_def gate_attr_def)
next
  show "idtr (init_ints stubs addr s) = (2047, addr)"
    by (simp add: init_ints_def load_idt_def Let_def con_def)
next
  have f: "port_out (fold (\<lambda>i. set_idt_entry i (stubs i) 0x08 (gate_attr i)) is u) = port_out u" for "is" and u :: "'a interrupts_scheme"
    by (induction "is" arbitrary: u) (simp_all add: set_idt_entry_def)
  obtain ws where "port_out (init_ints stubs addr s) = port_out s @ ws"
      "offset (master_after ws m) = 0x20" "imr (master_after ws m) = 0xFF"
      "offset (slave_after ws v) = 0x28" "imr (slave_after ws v) = 0xFF"
    using remap_writes[of "viprint (''Remapping PIC'' @ newline) (fold (\<lambda>i. set_idt_entry i (stubs i) 0x08 (gate_attr i)) [0..<256]
      (viprint (''Setting IDT entries'' @ newline) s))" m v]
    by (auto simp: init_ints_def load_idt_def Let_def f)
  then show "\<exists>ws. port_out (init_ints stubs addr s) = port_out s @ ws \<and>
      offset (master_after ws m) = 0x20 \<and> imr (master_after ws m) = 0xFF \<and>
      offset (slave_after ws v) = 0x28 \<and> imr (slave_after ws v) = 0xFF"
    by blast
qed

theorem init_ints_gates_witness:
  "gate_offset (idt (init_ints (\<lambda>i. 0x100000 + 16 * of_nat i) 0x5000 quiet_interrupts) 33) = 0x100210 \<and>
   gate_dpl (idt (init_ints (\<lambda>i. 0x100000 + 16 * of_nat i) 0x5000 quiet_interrupts) 0x80) = 3 \<and>
   idtr (init_ints (\<lambda>i. 0x100000 + 16 * of_nat i) 0x5000 quiet_interrupts) = (2047, 0x5000)"
proof -
  note g = init_ints_gates[where stubs = "\<lambda>i. 0x100000 + 16 * of_nat i" and addr = "0x5000" and s = quiet_interrupts]
  have "(33 :: nat) < 256" "(0x80 :: nat) < 256" by simp_all
  with g show ?thesis by simp
qed

end
