(* ===== verification/Rtc.thy ===== *)
theory Rtc
  imports Machine
begin

text \<open>
  \<open>drivers/cmos/rtc.c\<close>: the date and time from the CMOS clock. The registers are what the device
  answers at its data port; waiting for an update that never ends is \<open>None\<close>.
\<close>

record rtc_datetime =
  second :: u8
  minute :: u8
  hour :: u8
  day :: u8
  month :: u8
  year :: u16

definition rtc_cmos_read :: "u8 \<Rightarrow> 'a machine_scheme \<Rightarrow> u8 \<times> 'a machine_scheme" where
  "rtc_cmos_read reg s = inb 0x71 (io_wait (outb 0x70 (reg AND 0x7F) s))"

definition cmos_is_updating :: "'a machine_scheme \<Rightarrow> bool \<times> 'a machine_scheme" where
  "cmos_is_updating s = (let (v, s) = rtc_cmos_read 0x0A s in (v AND 0x80 \<noteq> 0, s))"

partial_function (option) cmos_wait_ready :: "'a machine_scheme \<Rightarrow> 'a machine_scheme option" where
  "cmos_wait_ready s = (let (u, s) = cmos_is_updating s in if u then cmos_wait_ready s else Some s)"

declare cmos_wait_ready.simps [code]

definition bcd_to_bin :: "u8 \<Rightarrow> u8" where
  "bcd_to_bin bcd = drop_bit 4 (bcd AND 0xF0) * 10 + (bcd AND 0x0F)"

text \<open>The values from the raw registers, as the function computes them after its last read.\<close>

definition decode_hour :: "u8 \<Rightarrow> u8 \<Rightarrow> u8" where
  "decode_hour status_b hour_raw =
     (if status_b AND 0x02 \<noteq> 0 then
        (let pm = hour_raw AND 0x80; hour12 = bcd_to_bin (hour_raw AND 0x7F)
         in if pm \<noteq> 0 then (if hour12 = 12 then 12 else hour12 + 12)
            else (if hour12 = 12 then 0 else hour12))
      else bcd_to_bin (hour_raw AND 0x3F))"

definition decode_year :: "u8 \<Rightarrow> u8 \<Rightarrow> u16" where
  "decode_year century_raw year_raw =
     (let y = ucast (bcd_to_bin year_raw) :: u16
      in if century_raw \<noteq> 0xFF \<and> century_raw \<noteq> 0x00 then y + ucast (bcd_to_bin century_raw) * 100
         else if y < 80 then y + 2000 else y + 1900)"

definition rtc_read_datetime :: "'a machine_scheme \<Rightarrow> (rtc_datetime \<times> 'a machine_scheme) option" where
  "rtc_read_datetime s =
     Option.bind (cmos_wait_ready s) (\<lambda>s.
       let (second_raw, s) = rtc_cmos_read 0x00 s;
           (minute_raw, s) = rtc_cmos_read 0x02 s;
           (hour_raw, s) = rtc_cmos_read 0x04 s;
           (day_raw, s) = rtc_cmos_read 0x07 s;
           (month_raw, s) = rtc_cmos_read 0x08 s;
           (year_raw, s) = rtc_cmos_read 0x09 s;
           (status_b, s) = rtc_cmos_read 0x0B s;
           (century_raw, s) = rtc_cmos_read 0x32 s
       in Some (\<lparr>second = bcd_to_bin second_raw, minute = bcd_to_bin minute_raw,
            hour = decode_hour status_b hour_raw, day = bcd_to_bin day_raw,
            month = bcd_to_bin month_raw, year = decode_year century_raw year_raw\<rparr>, s))"

section \<open>What the registers mean\<close>

text \<open>
  The clock keeps two decimal digits per register. In the format of the MC146818, bit 1 of status
  register B is set in 24-hour mode; in 12-hour mode bit 7 of the hour register marks the
  afternoon.
\<close>

definition to_bcd :: "nat \<Rightarrow> u8" where
  "to_bcd n = of_nat (16 * (n div 10) + n mod 10)"

definition hour_register :: "bool \<Rightarrow> nat \<Rightarrow> u8" where
  "hour_register mode24 h =
     (if mode24 then to_bcd h
      else (let h12 = (if h mod 12 = 0 then 12 else h mod 12) in to_bcd h12 OR (if 12 \<le> h then 0x80 else 0)))"

lemma bcd_roundtrip_eval: "list_all (\<lambda>n. bcd_to_bin (to_bcd n) = of_nat n) [0..<100]"
  by code_simp

lemma bcd_roundtrip: "n < 100 \<Longrightarrow> bcd_to_bin (to_bcd n) = of_nat n"
  using bcd_roundtrip_eval by (simp add: list_all_iff)

lemma hour_eval:
  "list_all (\<lambda>h. decode_hour 0x02 (hour_register True h) = (if h = 12 then 0 else of_nat h) \<and>
     decode_hour 0x00 (hour_register False h) = (if h mod 12 = 0 then 12 else of_nat (h mod 12))) [0..<24]"
  by code_simp

text \<open>C18: The two-digit registers are decoded right, but the hour is decoded by the wrong mode: the code
  takes the 24-hour bit for the 12-hour one. On a clock in 24-hour mode the hour is right except
  at noon, which is reported as 0; on a clock in 12-hour mode the morning and the afternoon hours
  are reported alike.\<close>

theorem rtc_hour_mode_inverted:
  assumes "h < 24" "n < 100"
  shows "bcd_to_bin (to_bcd n) = of_nat n \<and>
    decode_hour 0x02 (hour_register True h) = (if h = 12 then 0 else of_nat h) \<and>
    decode_hour 0x00 (hour_register False h) = (if h mod 12 = 0 then 12 else of_nat (h mod 12))"
  using hour_eval bcd_roundtrip[OF assms(2)] assms(1) by (simp add: list_all_iff)

theorem rtc_hour_mode_inverted_witness:
  "decode_hour 0x02 (hour_register True 12) = 0 \<and> decode_hour 0x00 (hour_register False 23) = 11"
  using rtc_hour_mode_inverted[of 12 0] rtc_hour_mode_inverted[of 23 0] by simp

end
