(* ===== verification/Klog.thy ===== *)
theory Klog
  imports Machine
begin

text \<open>
  \<open>kernel/klog.c\<close>: log lines over the first serial port. Every byte waits until the port is ready to
  send; a port that never becomes ready is \<open>None\<close>.
\<close>

datatype klog_level = KLOG_DEBUG | KLOG_INFO | KLOG_WARN | KLOG_ERROR | KLOG_PANIC

fun level_number :: "klog_level \<Rightarrow> nat" where
  "level_number KLOG_DEBUG = 0"
| "level_number KLOG_INFO = 1"
| "level_number KLOG_WARN = 2"
| "level_number KLOG_ERROR = 3"
| "level_number KLOG_PANIC = 4"

instantiation klog_level :: linorder
begin

definition less_eq_klog_level :: "klog_level \<Rightarrow> klog_level \<Rightarrow> bool" where
  "a \<le> b \<longleftrightarrow> level_number a \<le> level_number b"

definition less_klog_level :: "klog_level \<Rightarrow> klog_level \<Rightarrow> bool" where
  "a < b \<longleftrightarrow> level_number a < level_number b"

instance
proof
  fix a b :: klog_level
  show "a \<le> b \<Longrightarrow> b \<le> a \<Longrightarrow> a = b"
    by (cases a; cases b) (simp_all add: less_eq_klog_level_def)
qed (auto simp: less_eq_klog_level_def less_klog_level_def)

end

definition KLOG_MIN_LEVEL :: klog_level where "KLOG_MIN_LEVEL = KLOG_DEBUG"
definition COM1 :: u16 where "COM1 = 0x3F8"

definition serial_init_com1 :: "'a machine_scheme \<Rightarrow> 'a machine_scheme" where
  "serial_init_com1 s =
     (let s = outb (COM1 + 1) 0x00 s;
          s = outb (COM1 + 3) 0x80 s;
          s = outb (COM1 + 0) 0x03 s;
          s = outb (COM1 + 1) 0x00 s;
          s = outb (COM1 + 3) 0x03 s;
          s = outb (COM1 + 2) 0xC7 s
      in outb (COM1 + 4) 0x0B s)"

partial_function (option) serial_wait :: "'a machine_scheme \<Rightarrow> 'a machine_scheme option" where
  "serial_wait s = (let (v, s) = inb (COM1 + 5) s in if v AND 0x20 = 0 then serial_wait s else Some s)"

declare serial_wait.simps [code]

definition serial_putc :: "char \<Rightarrow> 'a machine_scheme \<Rightarrow> 'a machine_scheme option" where
  "serial_putc c s =
     Option.bind (serial_wait s) (\<lambda>s.
       map_option (outb COM1 (of_char c))
         (if c = CHR 0x0A then serial_wait (outb COM1 0x0D s) else Some s))"

fun serial_puts :: "string \<Rightarrow> 'a machine_scheme \<Rightarrow> 'a machine_scheme option" where
  "serial_puts [] s = Some s"
| "serial_puts (c # t) s = Option.bind (serial_putc c s) (serial_puts t)"

definition hex8 :: "u32 \<Rightarrow> string" where
  "hex8 v = map (\<lambda>i. ''0123456789ABCDEF'' ! unat (drop_bit (i * 4) v AND 0xF)) (rev [0..<8])"

definition serial_put_hex :: "u32 \<Rightarrow> 'a machine_scheme \<Rightarrow> 'a machine_scheme option" where
  "serial_put_hex v s = Option.bind (serial_puts ''0x'' s) (serial_puts (hex8 v))"

text \<open>The digits \<open>serial_put_dec\<close> stores downwards from the end of its buffer.\<close>

function dec_buffer :: "u32 \<Rightarrow> string \<Rightarrow> string" where
  "dec_buffer v buf = (if v = 0 then buf else dec_buffer (v div 10) (char_of (48 + unat (v mod 10)) # buf))"
  by pat_completeness auto
termination
proof (relation "measure (\<lambda>(v, b). unat v)")
  fix v :: u32 and buf :: string
  assume "v \<noteq> 0"
  then have "0 < unat v" by (simp add: unat_gt_0)
  then show "((v div 10, char_of (48 + unat (v mod 10)) # buf), v, buf) \<in> measure (\<lambda>(v, b). unat v)"
    by (simp add: unat_div)
qed simp

declare dec_buffer.simps [simp del]

definition serial_put_dec :: "u32 \<Rightarrow> 'a machine_scheme \<Rightarrow> 'a machine_scheme option" where
  "serial_put_dec v s = (if v = 0 then serial_putc CHR ''0'' s else serial_puts (dec_buffer v []) s)"

abbreviation crlf :: string where "crlf \<equiv> [CHR 0x0D, CHR 0x0A]"

definition klog_init :: "'a machine_scheme \<Rightarrow> 'a machine_scheme option" where
  "klog_init s = serial_puts (crlf @ ''--- klog initialised ---'' @ crlf) (serial_init_com1 s)"

fun level_tag :: "klog_level \<Rightarrow> string" where
  "level_tag KLOG_DEBUG = ''[DBG] ''"
| "level_tag KLOG_INFO = ''[INF] ''"
| "level_tag KLOG_WARN = ''[WRN] ''"
| "level_tag KLOG_ERROR = ''[ERR] ''"
| "level_tag KLOG_PANIC = ''[!!!] ''"

text \<open>The common beginning of a line: tag, module, colon and message.\<close>

definition log_head :: "klog_level \<Rightarrow> string \<Rightarrow> string \<Rightarrow> 'a machine_scheme \<Rightarrow> 'a machine_scheme option" where
  "log_head level module msg s =
     Option.bind (serial_puts (level_tag level) s) (\<lambda>s.
     Option.bind (serial_puts module s) (\<lambda>s.
     Option.bind (serial_puts '': '' s) (serial_puts msg)))"

definition klog :: "klog_level \<Rightarrow> string \<Rightarrow> string \<Rightarrow> 'a machine_scheme \<Rightarrow> 'a machine_scheme option" where
  "klog level module msg s =
     (if level < KLOG_MIN_LEVEL then Some s
      else Option.bind (log_head level module msg s) (serial_putc CHR 0x0A))"

definition klog_hex :: "klog_level \<Rightarrow> string \<Rightarrow> string \<Rightarrow> u32 \<Rightarrow> 'a machine_scheme \<Rightarrow> 'a machine_scheme option" where
  "klog_hex level module msg val s =
     (if level < KLOG_MIN_LEVEL then Some s
      else Option.bind (log_head level module msg s) (\<lambda>s.
           Option.bind (serial_putc CHR '' '' s) (\<lambda>s.
           Option.bind (serial_put_hex val s) (serial_putc CHR 0x0A))))"

definition klog_dec :: "klog_level \<Rightarrow> string \<Rightarrow> string \<Rightarrow> u32 \<Rightarrow> 'a machine_scheme \<Rightarrow> 'a machine_scheme option" where
  "klog_dec level module msg val s =
     (if level < KLOG_MIN_LEVEL then Some s
      else Option.bind (log_head level module msg s) (\<lambda>s.
           Option.bind (serial_putc CHR '' '' s) (\<lambda>s.
           Option.bind (serial_put_dec val s) (serial_putc CHR 0x0A))))"

text \<open>
  \<open>klog_panic\<close>: the dump is a sequence of strings and register values. It halts for good, so its
  result is the state the machine stops in.
\<close>

datatype piece = Text string | Hex u32

fun put_pieces :: "piece list \<Rightarrow> 'a machine_scheme \<Rightarrow> 'a machine_scheme option" where
  "put_pieces [] s = Some s"
| "put_pieces (Text t # ps) s = Option.bind (serial_puts t s) (put_pieces ps)"
| "put_pieces (Hex v # ps) s = Option.bind (serial_put_hex v s) (put_pieces ps)"

record panic_regs =
  p_eax :: u32
  p_ebx :: u32
  p_ecx :: u32
  p_edx :: u32
  p_esi :: u32
  p_edi :: u32
  p_ebp :: u32
  p_esp :: u32
  p_eflags :: u32

definition panic_dump :: "panic_regs \<Rightarrow> string \<Rightarrow> string \<Rightarrow> piece list" where
  "panic_dump r module msg =
     [Text (crlf @ ''========================================'' @ crlf),
      Text (''[!!!] KERNEL PANIC'' @ crlf), Text ''Module : '', Text module, Text crlf,
      Text ''Reason : '', Text msg, Text crlf,
      Text (''----------------------------------------'' @ crlf),
      Text ''EAX='', Hex (p_eax r), Text ''  '', Text ''EBX='', Hex (p_ebx r), Text crlf,
      Text ''ECX='', Hex (p_ecx r), Text ''  '', Text ''EDX='', Hex (p_edx r), Text crlf,
      Text ''ESI='', Hex (p_esi r), Text ''  '', Text ''EDI='', Hex (p_edi r), Text crlf,
      Text ''EBP='', Hex (p_ebp r), Text ''  '', Text ''ESP='', Hex (p_esp r), Text crlf,
      Text ''EFLAGS='', Hex (p_eflags r), Text crlf,
      Text (''========================================'' @ crlf)]"

definition klog_panic :: "panic_regs \<Rightarrow> string \<Rightarrow> string \<Rightarrow> 'a machine_scheme \<Rightarrow> 'a machine_scheme option" where
  "klog_panic r module msg s =
     Option.bind (put_pieces (panic_dump r module msg) (cli s)) (\<lambda>s.
       let s = con (Set_text_color 12 0) s;
           s = viprint (newline @ newline @ ''*** KERNEL PANIC ***'' @ newline) s;
           s = viprint module s;
           s = viprint '': '' s;
           s = viprint msg s;
           s = viprint newline s;
           s = viprint (''System halted. Check serial output for register dump.'' @ newline) s;
           s = con (Set_text_color 15 0) s
       in Some (cli s))"

section \<open>What goes over the wire\<close>

definition uart_ready :: "'a machine_scheme \<Rightarrow> bool" where
  "uart_ready s \<longleftrightarrow> (\<forall>k. (ucast (port_in s (COM1 + 5) k) :: u8) AND 0x20 \<noteq> 0)"

text \<open>A newline goes out as carriage return and newline.\<close>

fun wire :: "string \<Rightarrow> (u16 \<times> u32) list" where
  "wire [] = []"
| "wire (c # t) = (if c = CHR 0x0A then [(COM1, 0x0D), (COM1, 0x0A)] else [(COM1, ucast (of_char c :: u8))]) @ wire t"

definition sends :: "'a machine_scheme option \<Rightarrow> string \<Rightarrow> 'a machine_scheme \<Rightarrow> bool" where
  "sends r t s \<longleftrightarrow> (\<exists>s'. r = Some s' \<and> uart_ready s' \<and> port_out s' = port_out s @ wire t)"

lemma wire_append: "wire (t @ u) = wire t @ wire u"
  by (induction t) simp_all

lemma serial_wait_ready:
  assumes "uart_ready s"
  shows "\<exists>s'. serial_wait s = Some s' \<and> uart_ready s' \<and> port_out s' = port_out s"
  using assms by (subst serial_wait.simps) (simp add: inb_def port_read_def uart_ready_def)

lemma uart_outb [simp]: "uart_ready (outb p v s) = uart_ready s"
  by (simp add: uart_ready_def outb_def)

lemma outb_writes [simp]: "port_out (outb p v s) = port_out s @ [(p, ucast v)]"
  by (simp add: outb_def)

lemma serial_putc_sends: "uart_ready s \<Longrightarrow> sends (serial_putc c s) [c] s"
proof -
  assume s: "uart_ready s"
  obtain t where t: "serial_wait s = Some t" "uart_ready t" "port_out t = port_out s"
    using serial_wait_ready[OF s] by blast
  show ?thesis
  proof (cases "c = CHR 0x0A")
    case True
    obtain u where u: "serial_wait (outb COM1 0x0D t) = Some u" "uart_ready u" "port_out u = port_out t @ [(COM1, 0x0D)]"
      using serial_wait_ready[of "outb COM1 0x0D t"] t by auto
    have "of_char CHR 0x0A = (0x0A :: u8)" by code_simp
    with True t u show ?thesis by (simp add: serial_putc_def sends_def)
  next
    case False
    with t show ?thesis by (simp add: serial_putc_def sends_def)
  qed
qed

lemma sends_bind:
  assumes "sends r t s" "\<And>u. uart_ready u \<Longrightarrow> sends (f u) t' u"
  shows "sends (Option.bind r f) (t @ t') s"
proof -
  obtain u where u: "r = Some u" "uart_ready u" "port_out u = port_out s @ wire t"
    using assms(1) by (auto simp: sends_def)
  obtain v where "f u = Some v" "uart_ready v" "port_out v = port_out u @ wire t'"
    using assms(2)[OF u(2)] by (auto simp: sends_def)
  with u show ?thesis by (simp add: sends_def wire_append)
qed

lemma serial_puts_sends: "uart_ready s \<Longrightarrow> sends (serial_puts t s) t s"
proof (induction t arbitrary: s)
  case Nil
  then show ?case by (simp add: sends_def)
next
  case (Cons c t)
  have "sends (Option.bind (serial_putc c s) (serial_puts t)) ([c] @ t) s"
    by (rule sends_bind[OF serial_putc_sends[OF Cons.prems] Cons.IH])
  then show ?case by simp
qed

lemma put_hex_sends: "uart_ready s \<Longrightarrow> sends (serial_put_hex v s) (''0x'' @ hex8 v) s"
  unfolding serial_put_hex_def by (rule sends_bind; rule serial_puts_sends)

lemma log_head_sends: "uart_ready s \<Longrightarrow> sends (log_head l m t s) (level_tag l @ m @ '': '' @ t) s"
  unfolding log_head_def by (intro sends_bind serial_puts_sends)

lemmas serial_sends = serial_putc_sends serial_puts_sends put_hex_sends log_head_sends

fun piece_text :: "piece \<Rightarrow> string" where
  "piece_text (Text t) = t"
| "piece_text (Hex v) = ''0x'' @ hex8 v"

lemma put_pieces_sends:
  "uart_ready s \<Longrightarrow> sends (put_pieces ps s) (concat (map piece_text ps)) s"
proof (induction ps arbitrary: s)
  case Nil
  then show ?case by (simp add: sends_def)
next
  case (Cons p ps)
  note IH = Cons.IH
  show ?case
  proof (cases p)
    case (Text t)
    from sends_bind[OF serial_puts_sends[OF Cons.prems] IH, of t] show ?thesis
      unfolding Text put_pieces.simps list.map concat.simps piece_text.simps .
  next
    case (Hex v)
    from sends_bind[OF put_hex_sends[OF Cons.prems] IH, of v] show ?thesis
      unfolding Hex put_pieces.simps list.map concat.simps piece_text.simps .
  qed
qed

text \<open>No level is below the minimum: every call of a log function writes a line.\<close>

lemma all_levels: "\<not> l < KLOG_MIN_LEVEL"
  by (simp add: KLOG_MIN_LEVEL_def less_klog_level_def)

lemma klog_line: "uart_ready s \<Longrightarrow> sends (klog l m t s) (level_tag l @ m @ '': '' @ t @ newline) s"
  using sends_bind[OF log_head_sends serial_putc_sends, of s l m t "CHR 0x0A"]
  by (simp add: klog_def all_levels)

lemma klog_hex_line:
  "uart_ready s \<Longrightarrow> sends (klog_hex l m t v s) (level_tag l @ m @ '': '' @ t @ '' 0x'' @ hex8 v @ newline) s"
proof -
  assume s: "uart_ready s"
  have "sends (klog_hex l m t v s) ((level_tag l @ m @ '': '' @ t) @ '' '' @ (''0x'' @ hex8 v) @ newline) s"
    unfolding klog_hex_def if_not_P[OF all_levels] by (intro sends_bind serial_sends s)
  then show ?thesis by simp
qed

end
