(* ===== verification/Heap_Client.thy ===== *)
theory Heap_Client
  imports Heap_Spec
begin

text \<open>
  What the clients of the heap rely on. First, what its operations leave alone: they change the memory, the free lists and \<open>heap_top\<close>, and no
  other variable of a state that extends the heap. With it, the components that allocate (tasks,
  files, the editor) keep their own variables across an allocation. The soundness of a heap depends
  on its memory and free lists only. And a heap with few, small live blocks has room.
\<close>

section \<open>The frame of the heap operations\<close>

definition heap_only :: "'a heap_scheme \<Rightarrow> 'a heap_scheme \<Rightarrow> bool" where
  "heap_only h h' \<longleftrightarrow> machine.truncate h' = machine.truncate h \<and> heap.more h' = heap.more h"

lemma heap_only_refl [simp]: "heap_only h h"
  by (simp add: heap_only_def)

lemma heap_only_trans: "heap_only h h' \<Longrightarrow> heap_only h' h'' \<Longrightarrow> heap_only h h''"
  by (simp add: heap_only_def)

lemma heap_only_put: "heap_only h h' \<Longrightarrow> heap_only h (put_fld b i v h')"
  by (simp add: heap_only_def put_fld_def machine.truncate_def)

lemma heap_only_lists: "heap_only h h' \<Longrightarrow> heap_only h (h'\<lparr>free_lists := f\<rparr>)"
  by (simp add: heap_only_def machine.truncate_def)

lemma heap_only_mem: "heap_only h h' \<Longrightarrow> heap_only h (h'\<lparr>hmem := m\<rparr>)"
  by (simp add: heap_only_def machine.truncate_def)

lemma heap_only_set: "heap_only h h' \<Longrightarrow> heap_only h (cell_set c v h')"
  by (cases c) (simp_all add: heap_only_put heap_only_lists)

lemmas heap_only_steps = heap_only_put heap_only_lists heap_only_mem heap_only_set

lemma unlink_from_only:
  assumes "unlink_from c b h = Some h'"
  shows "heap_only h h'"
proof (rule unlink_from.raw_induct[OF _ assms])
  fix unlink c b h h'
  assume IH: "\<And>c b h h'. unlink c b h = Some h' \<Longrightarrow> heap_only h (h' :: 'a heap_scheme)"
    and "(if cell_get h c = 0 then None
      else if cell_get h c = b then Some (put_fld b 0 0 (cell_set c (blk_next h b) h))
      else unlink (NextCell (cell_get h c)) b h) = Some h'"
  then show "heap_only h h'" by (auto split: if_splits intro!: heap_only_steps)
qed

lemma remove_only: "remove_free_block b h = Some h' \<Longrightarrow> heap_only h h'"
  by (simp add: remove_free_block_def unlink_from_only)

lemma split_block_only: "split_block n h = Some h' \<Longrightarrow> heap_only h h'"
  by (auto simp: split_block_def Let_def insert_free_block_def split: option.splits
      intro!: heap_only_steps dest: remove_only)

lemma split_down_only: "split_down n m h = Some h' \<Longrightarrow> heap_only h h'"
proof (induction n m h rule: split_down.induct)
  case (1 n m h)
  then show ?case
    by (subst (asm) split_down.simps)
      (auto split: if_splits option.splits dest: split_block_only intro: heap_only_trans)
qed

lemma coalesce_loop_only: "coalesce_loop n b h = Some (b', h') \<Longrightarrow> heap_only h h'"
proof (induction n b h rule: coalesce_loop.induct)
  case (1 n b h)
  show ?case
  proof (cases "n < 22 \<and> \<not> (blk_free h (buddy_of h b) = 0 \<or> blk_order h (buddy_of h b) \<noteq> of_nat n)")
    case False
    then have "coalesce_loop n b h = Some (b, h)" by (subst coalesce_loop.simps) (auto simp: Let_def)
    then show ?thesis using "1.prems" by simp
  next
    case True
    obtain h1 where h1: "remove_free_block (buddy_of h b) h = Some h1"
      using True "1.prems" by (subst (asm) coalesce_loop.simps) (auto simp: Let_def split: option.splits)
    define d where "d = (if buddy_of h b < b then buddy_of h b else b)"
    have "coalesce_loop (n + 1) d (put_fld d 8 1 (put_fld d 4 (of_nat (n + 1)) h1)) = Some (b', h')"
      using True "1.prems" h1 by (subst (asm) coalesce_loop.simps) (simp add: Let_def d_def)
    then have "heap_only (put_fld d 8 1 (put_fld d 4 (of_nat (n + 1)) h1)) h'"
      using "1.IH"[OF _ refl _ h1, of d] True by (simp add: d_def)
    moreover have "heap_only h (put_fld d 8 1 (put_fld d 4 (of_nat (n + 1)) h1))"
      using remove_only[OF h1] by (intro heap_only_put)
    ultimately show ?thesis by (rule heap_only_trans[rotated])
  qed
qed

lemma kmalloc_only: "kmalloc n h = Some (p, h') \<Longrightarrow> heap_only h h'"
proof -
  assume "kmalloc n h = Some (p, h')"
  then consider "h' = h" | k where "buddy_alloc k h = Some (p, h')"
    by (auto simp: kmalloc_def split: if_splits)
  then show ?thesis
  proof cases
    case 2
    then show ?thesis
      by (auto simp: buddy_alloc_def Let_def split: if_splits option.splits
          intro!: heap_only_steps dest!: split_down_only remove_only elim: heap_only_trans)
  qed simp
qed

lemma kfree_only: "kfree p h = Some h' \<Longrightarrow> heap_only h h'"
proof -
  assume free: "kfree p h = Some h'"
  show ?thesis
  proof (cases "p = 0")
    case True
    then show ?thesis using free by (simp add: kfree_def buddy_free_def)
  next
    case False
    then obtain b h1 where c: "coalesce (load32 (hmem h) (p - 4)) (put_fld (load32 (hmem h) (p - 4)) 8 1 h) = Some (b, h1)"
      and h': "h' = insert_free_block b h1"
      using free by (auto simp: kfree_def buddy_free_def Let_def split: if_splits option.splits)
    from c have "heap_only (put_fld (load32 (hmem h) (p - 4)) 8 1 h) h1"
      unfolding coalesce_def by (rule coalesce_loop_only)
    then have "heap_only h h1" by (rule heap_only_trans[rotated]) (simp add: heap_only_put)
    then show ?thesis unfolding h' insert_free_block_def Let_def by (intro heap_only_steps)
  qed
qed

lemma heap_only_more: "heap_only h h' \<Longrightarrow> heap.more h' = heap.more h"
  by (simp add: heap_only_def)

lemma heap_only_machine:
  assumes "heap_only h h'"
  shows "console h' = console h" "port_out h' = port_out h" "port_in h' = port_in h"
    "port_reads h' = port_reads h" "iflag h' = iflag h"
  using assms by (simp_all add: heap_only_def machine.truncate_def)

section \<open>Soundness depends on the heap variables\<close>

definition same_heap :: "'a heap_scheme \<Rightarrow> 'b heap_scheme \<Rightarrow> bool" where
  "same_heap h h' \<longleftrightarrow> hmem h = hmem h' \<and> free_lists h = free_lists h'"

lemma same_heap_fld: "same_heap h h' \<Longrightarrow> get_fld h a i = get_fld h' a i"
  by (simp add: same_heap_def get_fld_def)

lemma same_heap_rep:
  assumes "same_heap h h'"
  shows "heap_mid k h B = heap_mid k h' B"
proof -
  have "nxt h = nxt h'" by (simp add: nxt_def fun_eq_iff same_heap_fld[OF assms])
  moreover have "free_lists h = free_lists h'" using assms by (simp add: same_heap_def)
  ultimately show ?thesis
    by (simp only: heap_mid_def lists_ok_def hdr_ok_def same_heap_fld[OF assms])
qed

lemma heap_ok_same: "same_heap h h' \<Longrightarrow> heap_ok h U = heap_ok h' U"
  by (simp add: heap_ok_def same_heap_rep)

text \<open>
  A client may write outside the region, such as to the boot stack, and inside live allocations.
\<close>

lemma client_write:
  assumes ok: "heap_ok h U"
    and m: "\<And>x. m x = hmem h x \<or> \<not> in_region x \<or> (\<exists>q e. U q = Some e \<and> x \<in> payload q e)"
  shows "heap_ok (h\<lparr>hmem := m\<rparr>) U"
proof -
  obtain B where rep: "heap_rep h B" and co: "coalesced B" and U: "U = capacity_of B"
    using ok by (auto simp: heap_ok_def)
  have wf: "wf_blocks B" using rep by (simp add: heap_mid_def)
  have "m x = hmem h x" if a: "B a = Some (k, f)" and x: "drop_bit 4 x = drop_bit 4 a" for a k f x
  proof -
    have "in_region x" using placedD[OF wf a] in_region_cong[of 4 x a] x by simp
    moreover have "x \<notin> payload q e" if q: "U q = Some e" for q e
    proof
      assume xq: "x \<in> payload q e"
      obtain n where b: "B (q - 16) = Some (n, False)" "e = 2 ^ n - 16" using q U by (auto simp: capacity_of_Some)
      have px: "same_block n x (q - 16)" "drop_bit 4 x \<noteq> drop_bit 4 (q - 16)"
        using payload_block[OF wf b(1), of x] b(2) xq by simp_all
      have "same_block k x a" using x placedD[OF wf a] by (intro same_block_mono[of 4 k]) simp_all
      then have "a = q - 16" using disjointD[OF wf a b(1) _ px(1)] by simp
      with x px(2) show False by simp
    qed
    ultimately show ?thesis using m[of x] by blast
  qed
  then have "heap_rep (h\<lparr>hmem := m\<rparr>) B" by (rule heap_rep_cong[OF rep])
  then show ?thesis using co U by (auto simp: heap_ok_def)
qed

lemma outside_write:
  assumes "heap_ok h U" "\<And>x. in_region x \<Longrightarrow> m x = hmem h x"
  shows "heap_ok (h\<lparr>hmem := m\<rparr>) U"
  by (rule client_write[OF assms(1)]) (use assms(2) in blast)

lemma low_outside:
  assumes "unat p + n \<le> 2 ^ 22" "x \<in> payload p n"
  shows "\<not> in_region x"
proof -
  have "unat x < 2 ^ 22" using payload_range(2)[of p n x] assms by simp
  then have "unat (drop_bit 22 x) = 0" using drop_bit_eq_div[of 22 "unat x"] by (simp add: unat_drop_bit_eq)
  then have "drop_bit 22 x = 0" by (simp only: unat_eq_0)
  then show ?thesis by (simp add: in_region_def)
qed

text \<open>The heap operations write nothing outside the region.\<close>

lemma keeps_outside:
  assumes "keeps S h h'" "\<And>a. a \<in> S \<Longrightarrow> in_region a" "\<not> in_region x"
  shows "hmem h' x = hmem h x"
proof -
  have "drop_bit 4 x \<noteq> drop_bit 4 a" if "a \<in> S" for a
    using in_region_cong[of 4 x a] assms(2)[OF that] assms(3) by auto
  then show ?thesis using assms(1) by (simp add: keeps_def)
qed

lemma kmalloc_outside:
  assumes ok: "heap_ok h U" and k: "kmalloc sz h = Some (p, h')" and x: "\<not> in_region x"
  shows "hmem h' x = hmem h x"
proof -
  obtain B where rep: "heap_rep h B" "coalesced B" using ok by (auto simp: heap_ok_def)
  consider "h' = h" | n where "buddy_alloc n h = Some (p, h')" using k by (auto simp: kmalloc_def split: if_splits)
  then show ?thesis
  proof cases
    case 2
    consider "buddy_alloc n h = Some (0, h)" | a h2 where "buddy_alloc n h = Some (a, h2)" "keeps (unused B) h h2"
      using buddy_alloc_rep[OF rep, of n] by blast
    then have "h' = h \<or> keeps (unused B) h h'" using 2 by cases simp_all
    moreover have "in_region a" if "a \<in> unused B" for a using that by (simp add: unused_def)
    ultimately show ?thesis using keeps_outside[OF _ _ x] by blast
  qed simp
qed

lemma kfree_outside:
  assumes ok: "heap_ok h U" and p: "U p = Some c" and k: "kfree p h = Some h'" and x: "\<not> in_region x"
  shows "hmem h' x = hmem h x"
proof -
  obtain B n where rep: "heap_rep h B" "coalesced B" and b: "B (p - 16) = Some (n, False)"
    using ok p by (auto simp: heap_ok_def capacity_of_Some)
  have wf: "wf_blocks B" and hdr: "hdr_ok h B" using rep by (simp_all add: heap_mid_def)
  have "blk_self h (p - 16) = p - 16" using hdr_okD[OF hdr b] by simp
  then have self: "load32 (hmem h) (p - 4) = p - 16" by (simp add: get_fld_def)
  obtain t where "buddy_free p h = Some t" "keeps (insert (p - 16) (free_blocks B)) h t"
    by (rule buddy_free_rep[OF rep b live_aligned(2)[OF ok p] self])
  then have "keeps (insert (p - 16) (free_blocks B)) h h'" using k by (simp add: kfree_def)
  moreover have "in_region a" if "a \<in> insert (p - 16) (free_blocks B)" for a
    using that b placedD[OF wf] by auto
  ultimately show ?thesis using x by (rule keeps_outside)
qed

section \<open>Room\<close>

text \<open>
  By the pigeonhole principle: as long as there are fewer live blocks than areas of \<open>2 ^ n\<close> bytes, and
  none is larger than that, an area is free and requests of up to that size succeed.
\<close>

lemma unat_of_nat_small: "x < 2 ^ 32 \<Longrightarrow> unat (of_nat x :: u32) = x"
  by (simp add: unat_of_nat)

lemma live_block:
  assumes "heap_ok h U" "U q = Some d"
  obtains m where "d + 16 = 2 ^ m" "m \<le> 22" "take_bit m (q - 16) = 0"
proof -
  obtain B m where "wf_blocks B" "B (q - 16) = Some (m, False)" "d = 2 ^ m - 16"
    using assms by (auto simp: heap_ok_def heap_mid_def capacity_of_Some)
  moreover from this have "5 \<le> m" "m \<le> 22" "take_bit m (q - 16) = 0" using placedD by blast+
  moreover have "(2 :: nat) ^ 5 \<le> 2 ^ m" by (rule power_increasing) (use calculation in simp_all)
  ultimately show thesis by (intro that[of m]) simp_all
qed

lemma area_address:
  assumes "n \<le> 22" "i < 2 ^ (22 - n)"
  defines "a \<equiv> of_nat (8 * 2 ^ 22 + i * 2 ^ n) :: u32"
  shows "in_region a" and "unat (drop_bit n a) = 8 * 2 ^ (22 - n) + i"
proof -
  have p: "(2 :: nat) ^ 22 = 2 ^ (22 - n) * 2 ^ n" using assms(1) by (simp flip: power_add)
  have "i * 2 ^ n < 2 ^ (22 - n) * 2 ^ n" using assms(2) by simp
  then have less: "i * 2 ^ n < 2 ^ 22" by (simp only: p)
  then have "8 * 2 ^ 22 + i * 2 ^ n < 2 ^ 32" by simp
  then have u: "unat a = 8 * 2 ^ 22 + i * 2 ^ n"
    unfolding a_def by (rule unat_of_nat_small)
  have d: "unat (drop_bit k a) = unat a div 2 ^ k" for k
    unfolding unat_drop_bit_eq by (rule drop_bit_eq_div)
  have "unat (drop_bit 22 a) = 8" using less by (simp add: d u)
  then show "in_region a" by (simp add: in_region_def word_unat_eq_iff)
  have "(8 * 2 ^ 22 + i * 2 ^ n) div 2 ^ n = (8 * 2 ^ (22 - n) + i) * 2 ^ n div 2 ^ n"
    by (simp only: p distrib_right mult.assoc)
  then show "unat (drop_bit n a) = 8 * 2 ^ (22 - n) + i"
    by (simp add: d u)
qed

lemma room_area:
  assumes ok: "heap_ok h U" and n: "n \<le> 22" and fin: "finite (dom U)" "card (dom U) < 2 ^ (22 - n)"
    and small: "\<And>q d. U q = Some d \<Longrightarrow> d + 16 \<le> 2 ^ n"
  obtains a where "in_region a" "area_free U a n"
proof -
  let ?used = "(\<lambda>q. unat (drop_bit n (q - 16))) ` dom U"
    and ?all = "(\<lambda>i. 8 * 2 ^ (22 - n) + i) ` {..< 2 ^ (22 - n) :: nat}"
  have "card ?all = 2 ^ (22 - n)" by (simp add: card_image inj_on_def)
  moreover have "card ?used < 2 ^ (22 - n)" using card_image_le[OF fin(1)] fin(2) by (rule le_less_trans)
  ultimately have "\<not> ?all \<subseteq> ?used" using card_mono[of ?used ?all] fin(1) by auto
  then obtain i where i: "i < 2 ^ (22 - n)" "8 * 2 ^ (22 - n) + i \<notin> ?used" by auto
  define a :: u32 where "a = of_nat (8 * 2 ^ 22 + i * 2 ^ n)"
  note addr = area_address[OF n i(1), folded a_def]
  have "\<not> same_block n x a" if q: "U q = Some d" and x: "unat (x - (q - 16)) < d + 16" for q d x
  proof
    assume same: "same_block n x a"
    obtain m where m: "d + 16 = 2 ^ m" "m \<le> 22" "take_bit m (q - 16) = 0" by (rule live_block[OF ok q])
    have "same_block m x (q - 16)" using same_block_iff_diff[OF m(3)] m(1,2) x by simp
    moreover have "m \<le> n"
      using small[OF q] m(1) power_le_imp_le_exp[of "2 :: nat" m n] by simp
    ultimately have "same_block n x (q - 16)" by (rule same_block_mono[rotated])
    then have "unat (drop_bit n (q - 16)) = 8 * 2 ^ (22 - n) + i" using same addr(2) by simp
    then show False using i(2) q by force
  qed
  then show thesis by (intro that[OF addr(1)]) (auto simp: area_free_def)
qed

lemma kmalloc_room:
  assumes ok: "heap_ok h U" and n: "n \<le> 22" and fin: "finite (dom U)" "card (dom U) < 2 ^ (22 - n)"
    and small: "\<And>q d. U q = Some d \<Longrightarrow> d + 16 \<le> 2 ^ n" and sz: "sz \<noteq> 0" "unat sz + 32 \<le> 2 ^ n"
  obtains p h' c where "kmalloc sz h = Some (p, h')" "p \<noteq> 0" "U p = None" "unat sz \<le> c" "c \<le> 2 * unat sz + 30"
    "heap_ok h' (U(p \<mapsto> c))" "\<And>q d x. U q = Some d \<Longrightarrow> x \<in> payload q d \<Longrightarrow> hmem h' x = hmem h x"
proof -
  obtain a where a: "in_region a" "area_free U a n" by (rule room_area[OF ok n fin small])
  have "(2 :: nat) ^ n \<le> 2 ^ 22" using n by (intro power_increasing) simp_all
  then have s: "unat sz < 2 ^ 22" using sz(2) by simp
  then have "sz \<le> - 1 - 7" by (simp add: word_le_nat_alt)
  from round8_nat[OF this] sz(2) have "unat (round8 sz) + 16 \<le> 2 ^ n" by linarith
  then have "kmalloc sz h \<noteq> Some (0, h)"
    using kmalloc_succeeds[OF ok a(1) n a(2), of sz] sz(1) s by simp
  with kmalloc_cases[OF ok, of sz] that show thesis by metis
qed

end
