(* ===== verification/Task.thy ===== *)
theory Task
  imports Heap_Client
begin

text \<open>
  The task switcher: \<open>kernel/task.c\<close> and the routine \<open>task_switch\<close> of \<open>cpu/task_switch.asm\<close>. The
  task objects live at the addresses \<open>kmalloc\<close> returned for them; \<open>tasks\<close> holds the objects that
  have been allocated and not freed, so that following a dangling or null pointer is \<open>None\<close>, and so
  is the endless halt of \<open>kfree\<close>. The words of the stacks are in the memory of the heap. A machine
  that halts for good is a left summand.
\<close>

section \<open>State\<close>

datatype task_state = TASK_RUNNING | TASK_READY | TASK_BLOCKED | TASK_SLEEPING | TASK_TERMINATED

record task =
  t_esp :: u32
  t_page_dir :: u32
  t_stack :: u32
  t_state :: task_state
  t_pid :: u32
  t_next :: u32

record cpu_regs =
  r_edi :: u32
  r_esi :: u32
  r_ebp :: u32
  r_esp :: u32
  r_ebx :: u32
  r_edx :: u32
  r_ecx :: u32
  r_eax :: u32
  r_eflags :: u32
  r_eip :: u32
  r_cr3 :: u32

record tasking = heap +
  tasks :: "u32 \<Rightarrow> task option"
  task_queue :: u32
  current_task :: u32
  next_pid :: u32
  cpu :: cpu_regs

definition sizeof_task :: u32 where "sizeof_task = 24"
definition STACK_SIZE :: u32 where "STACK_SIZE = 4096"

text \<open>What \<open>memset(task, 0, sizeof(task_t))\<close> leaves.\<close>

definition zero_task :: task where
  "zero_task = \<lparr>t_esp = 0, t_page_dir = 0, t_stack = 0, t_state = TASK_RUNNING, t_pid = 0, t_next = 0\<rparr>"

definition upd_task :: "u32 \<Rightarrow> (task \<Rightarrow> task) \<Rightarrow> 'a tasking_scheme \<Rightarrow> 'a tasking_scheme" where
  "upd_task a f s = s\<lparr>tasks := (tasks s)(a := map_option f (tasks s a))\<rparr>"

text \<open>\<open>kfree\<close> of a task object ends its life.\<close>

definition free_task :: "u32 \<Rightarrow> 'a tasking_scheme \<Rightarrow> 'a tasking_scheme option" where
  "free_task a s = map_option (\<lambda>s. s\<lparr>tasks := (tasks s)(a := None)\<rparr>) (kfree a s)"

section \<open>The stack and \<open>task_switch\<close>\<close>

definition push :: "u32 \<Rightarrow> 'a tasking_scheme \<Rightarrow> 'a tasking_scheme" where
  "push v s = s\<lparr>hmem := store32 (hmem s) (r_esp (cpu s) - 4) v, cpu := (cpu s)\<lparr>r_esp := r_esp (cpu s) - 4\<rparr>\<rparr>"

definition pop :: "'a tasking_scheme \<Rightarrow> u32 \<times> 'a tasking_scheme" where
  "pop s = (load32 (hmem s) (r_esp (cpu s)), s\<lparr>cpu := (cpu s)\<lparr>r_esp := r_esp (cpu s) + 4\<rparr>\<rparr>)"

text \<open>The flags register as \<open>pushf\<close> stores it: bit 9 is the interrupt flag.\<close>

definition flags_word :: "'a tasking_scheme \<Rightarrow> u32" where
  "flags_word s = (if iflag s then r_eflags (cpu s) OR 0x200 else r_eflags (cpu s) AND NOT 0x200)"

definition pusha :: "'a tasking_scheme \<Rightarrow> 'a tasking_scheme" where
  "pusha s = (let r = cpu s
     in push (r_edi r) (push (r_esi r) (push (r_ebp r) (push (r_esp r)
          (push (r_ebx r) (push (r_edx r) (push (r_ecx r) (push (r_eax r) s))))))))"

definition pushf :: "'a tasking_scheme \<Rightarrow> 'a tasking_scheme" where
  "pushf s = push (flags_word s) s"

text \<open>Bit 1 of the flags register reads as one.\<close>

definition popf :: "'a tasking_scheme \<Rightarrow> 'a tasking_scheme" where
  "popf s = (let (v, s) = pop s in s\<lparr>cpu := (cpu s)\<lparr>r_eflags := v OR 2\<rparr>, iflag := bit v 9\<rparr>)"

definition popa :: "'a tasking_scheme \<Rightarrow> 'a tasking_scheme" where
  "popa s =
     (let (v, s) = pop s; s = s\<lparr>cpu := (cpu s)\<lparr>r_edi := v\<rparr>\<rparr>;
          (v, s) = pop s; s = s\<lparr>cpu := (cpu s)\<lparr>r_esi := v\<rparr>\<rparr>;
          (v, s) = pop s; s = s\<lparr>cpu := (cpu s)\<lparr>r_ebp := v\<rparr>\<rparr>;
          (v, s) = pop s;
          (v, s) = pop s; s = s\<lparr>cpu := (cpu s)\<lparr>r_ebx := v\<rparr>\<rparr>;
          (v, s) = pop s; s = s\<lparr>cpu := (cpu s)\<lparr>r_edx := v\<rparr>\<rparr>;
          (v, s) = pop s; s = s\<lparr>cpu := (cpu s)\<lparr>r_ecx := v\<rparr>\<rparr>;
          (v, s) = pop s
      in s\<lparr>cpu := (cpu s)\<lparr>r_eax := v\<rparr>\<rparr>)"

definition ret :: "'a tasking_scheme \<Rightarrow> 'a tasking_scheme" where
  "ret s = (let (v, s) = pop s in s\<lparr>cpu := (cpu s)\<lparr>r_eip := v\<rparr>\<rparr>)"

text \<open>
  The routine finds its argument 40 bytes above the stack pointer: under the nine saved words and the
  return address.
\<close>

definition task_switch :: "'a tasking_scheme \<Rightarrow> 'a tasking_scheme option" where
  "task_switch s =
     (let s = pushf (pusha s);
          s = upd_task (current_task s) (\<lambda>t. t\<lparr>t_esp := r_esp (cpu s)\<rparr>) s;
          nx = load32 (hmem s) (r_esp (cpu s) + 40)
      in Option.bind (tasks s nx) (\<lambda>t.
         Option.bind (tasks s (current_task s)) (\<lambda>c.
           let s = s\<lparr>cpu := (cpu s)\<lparr>r_esp := t_esp t,
                  r_cr3 := (if t_page_dir c = t_page_dir t then r_cr3 (cpu s) else t_page_dir t)\<rparr>,
                  current_task := nx\<rparr>
           in Some (ret (popa (popf s))))))"

section \<open>task.c\<close>

text \<open>\<open>task_t **pp\<close>: the head of the queue or the \<open>next\<close> field of a task.\<close>

datatype task_cell = Queue | Next_of u32

fun cell_load :: "'a tasking_scheme \<Rightarrow> task_cell \<Rightarrow> u32 option" where
  "cell_load s Queue = Some (task_queue s)"
| "cell_load s (Next_of a) = map_option t_next (tasks s a)"

fun cell_store :: "task_cell \<Rightarrow> u32 \<Rightarrow> 'a tasking_scheme \<Rightarrow> 'a tasking_scheme" where
  "cell_store Queue v s = s\<lparr>task_queue := v\<rparr>"
| "cell_store (Next_of a) v s = upd_task a (\<lambda>t. t\<lparr>t_next := v\<rparr>) s"

partial_function (option) reap :: "task_cell \<Rightarrow> 'a tasking_scheme \<Rightarrow> 'a tasking_scheme option" where
  "reap pp s =
     Option.bind (cell_load s pp) (\<lambda>a.
       if a = 0 then Some s
       else Option.bind (tasks s a) (\<lambda>t.
         if t_state t = TASK_TERMINATED \<and> a \<noteq> current_task s then
           (let s = cell_store pp (t_next t) s;
                s = upd_task a (\<lambda>t. t\<lparr>t_next := 0\<rparr>) s
            in Option.bind (if t_stack t \<noteq> 0 then kfree (t_stack t) s else Some s) (\<lambda>s.
               Option.bind (free_task a s) (reap pp)))
         else reap (Next_of a) s))"

declare reap.simps [code]

definition task_reap_terminated :: "'a tasking_scheme \<Rightarrow> 'a tasking_scheme option" where
  "task_reap_terminated = reap Queue"

definition tasking_init :: "'a tasking_scheme \<Rightarrow> ('a tasking_scheme + 'a tasking_scheme) option" where
  "tasking_init s =
     Option.bind (kmalloc sizeof_task s) (\<lambda>(p, s).
       let s = s\<lparr>current_task := p\<rparr>
       in if p = 0 then Some (Inl (viprint (''Failed to allocate initial task!'' @ newline) s))
          else
            let t = zero_task\<lparr>t_state := TASK_RUNNING, t_pid := next_pid s, t_stack := 0,
                      t_page_dir := r_cr3 (cpu s)\<rparr>;
                s = s\<lparr>tasks := (tasks s)(p \<mapsto> t), next_pid := next_pid s + 1, task_queue := p\<rparr>
            in Some (Inr (viprint (''Tasking initialized.'' @ newline) s)))"

text \<open>The ten words \<open>task_create\<close> stores below the end of the new stack, from the top down.\<close>

fun store_down :: "u32 \<Rightarrow> u32 list \<Rightarrow> mem \<Rightarrow> u32 \<times> mem" where
  "store_down e [] m = (e, m)"
| "store_down e (v # vs) m = store_down (e - 4) vs (store32 m (e - 4) v)"

partial_function (option) last_task :: "u32 \<Rightarrow> 'a tasking_scheme \<Rightarrow> u32 option" where
  "last_task a s = Option.bind (tasks s a) (\<lambda>t. if t_next t = 0 then Some a else last_task (t_next t) s)"

declare last_task.simps [code]

definition task_create :: "u32 \<Rightarrow> u32 \<Rightarrow> 'a tasking_scheme \<Rightarrow> (u32 \<times> 'a tasking_scheme) option" where
  "task_create entry page_dir s =
     Option.bind (kmalloc sizeof_task s) (\<lambda>(p, s).
       if p = 0 then Some (0, s)
       else
         let s = s\<lparr>tasks := (tasks s)(p \<mapsto> zero_task)\<rparr>
         in Option.bind (kmalloc STACK_SIZE s) (\<lambda>(stack, s).
              if stack = 0 then map_option (Pair 0) (free_task p s)
              else
                let (e, m) = store_down (stack + 4096) [entry, 0x202, 0, 0, 0, 0, 0, 0, 0, 0] (hmem s);
                    s = upd_task p (\<lambda>t. t\<lparr>t_stack := stack, t_state := TASK_READY, t_pid := next_pid s,
                          t_page_dir := page_dir, t_esp := e\<rparr>) s;
                    s = s\<lparr>next_pid := next_pid s + 1, hmem := m\<rparr>
                in if task_queue s = 0 then Some (p, s\<lparr>task_queue := p\<rparr>)
                   else map_option (\<lambda>l. (p, upd_task l (\<lambda>t. t\<lparr>t_next := p\<rparr>) s)) (last_task (task_queue s) s)))"

text \<open>The loop of \<open>schedule\<close>: the next task in the ring that is ready, or the current one.\<close>

definition succ_task :: "'a tasking_scheme \<Rightarrow> task \<Rightarrow> u32" where
  "succ_task s t = (if t_next t \<noteq> 0 then t_next t else task_queue s)"

partial_function (option) find_ready :: "u32 \<Rightarrow> 'a tasking_scheme \<Rightarrow> u32 option" where
  "find_ready nx s =
     (if nx = 0 \<or> nx = current_task s then Some nx
      else Option.bind (tasks s nx) (\<lambda>t.
        if t_state t \<noteq> TASK_READY then find_ready (succ_task s t) s else Some nx))"

declare find_ready.simps [code]

text \<open>
  \<open>resume\<close> is the address after the call of \<open>task_switch\<close>. A task that was switched away from
  continues there, drops the argument and marks itself as running; a new task starts at its entry.
  \<open>r_eip\<close> says where the processor goes on.
\<close>

definition switch_to :: "u32 \<Rightarrow> u32 \<Rightarrow> 'a tasking_scheme \<Rightarrow> 'a tasking_scheme option" where
  "switch_to resume nx s =
     Option.bind (task_switch (push resume (push nx s))) (\<lambda>s.
       if r_eip (cpu s) = resume then
         Some (upd_task (current_task s) (\<lambda>t. t\<lparr>t_state := TASK_RUNNING\<rparr>)
           (s\<lparr>cpu := (cpu s)\<lparr>r_esp := r_esp (cpu s) + 4\<rparr>\<rparr>))
       else Some s)"

definition schedule :: "u32 \<Rightarrow> 'a tasking_scheme \<Rightarrow> 'a tasking_scheme option" where
  "schedule resume s =
     (if current_task s = 0 then Some s
      else Option.bind (task_reap_terminated s) (\<lambda>s.
        Option.bind (tasks s (current_task s)) (\<lambda>c.
        Option.bind (find_ready (succ_task s c) s) (\<lambda>nx.
          if nx = 0 \<or> nx = current_task s then Some s
          else Option.bind (tasks s nx) (\<lambda>t.
            if t_state t \<noteq> TASK_READY then Some s
            else
              let s = upd_task nx (\<lambda>t. t\<lparr>t_state := TASK_RUNNING\<rparr>) s;
                  s = (if t_state c = TASK_RUNNING
                       then upd_task (current_task s) (\<lambda>t. t\<lparr>t_state := TASK_READY\<rparr>) s else s)
              in switch_to resume nx s)))))"

text \<open>\<open>task_exit\<close> halts for good when there is nothing to switch to.\<close>

definition task_exit :: "u32 \<Rightarrow> 'a tasking_scheme \<Rightarrow> ('a tasking_scheme + 'a tasking_scheme) option" where
  "task_exit resume s =
     (if current_task s = 0 then Some (Inr s)
      else
        let s = upd_task (current_task s) (\<lambda>t. t\<lparr>t_state := TASK_TERMINATED\<rparr>) s
        in map_option (\<lambda>s'. if current_task s' = current_task s then Inl s' else Inr s') (schedule resume s))"

end
