(* ===== verification/Task_Switch.thy ===== *)
theory Task_Switch
  imports Task
begin

text \<open>
  Stack frames: what a run of pushes leaves in memory, what the pops of \<open>task_switch\<close> read back, and
  the round trip of a context through a switch away and back.
\<close>

section \<open>Words below a stack pointer\<close>

lemma word_aligned_times: "word_aligned (4 * k)"
proof (rule bit_word_eqI)
  fix n assume "n < LENGTH(32)"
  have "4 * k = push_bit 2 k" by (simp add: push_bit_eq_mult mult.commute)
  then show "bit (take_bit 2 (4 * k)) n = bit (0 :: u32) n" by (simp add: bit_simps)
qed

lemma word_aligned_minus:
  assumes "word_aligned e"
  shows "word_aligned (e - 4 * k)"
proof -
  have "e = 4 * drop_bit 2 e"
    using bits_ident[of 2 e] assms by (simp add: push_bit_eq_mult mult.commute)
  then have "e - 4 * k = 4 * (drop_bit 2 e - k)" by (metis right_diff_distrib)
  then show ?thesis by (simp only: word_aligned_times)
qed

lemma word_aligned_4 [simp]:
  "word_aligned e \<Longrightarrow> word_aligned (e - 4)" "word_aligned e \<Longrightarrow> word_aligned (e + 4)"
  using word_aligned_minus[of e 1] word_aligned_minus[of e "- 1"] by simp_all

lemma store_down_esp: "fst (store_down e ws m) = e - 4 * of_nat (length ws)"
proof (induction ws arbitrary: e m)
  case Nil
  then show ?case by simp
next
  case (Cons v ws)
  have "fst (store_down e (v # ws) m) = e - 4 - 4 * of_nat (length ws)"
    by (simp only: store_down.simps Cons.IH)
  then show ?case by (simp add: algebra_simps)
qed

lemma store32_outside: "x \<notin> payload a 4 \<Longrightarrow> store32 m a v x = m x"
  by (rule store32_other) (auto simp: payload_def)

lemma store_down_outside:
  "length ws < 2 ^ 30 \<Longrightarrow> x \<notin> payload (e - 4 * of_nat (length ws)) (4 * length ws) \<Longrightarrow>
    snd (store_down e ws m) x = m x"
proof (induction ws arbitrary: e m)
  case Nil
  then show ?case by simp
next
  case (Cons v ws)
  let ?n = "length ws" and ?b = "e - 4 * of_nat (Suc (length ws))"
  have b: "?b = e - 4 - 4 * of_nat ?n" by (simp add: algebra_simps)
  have "4 * Suc ?n = 4 * ?n + 4" "4 * ?n + 4 \<le> 2 ^ 32" using Cons.prems(1) by simp_all
  then have "x \<in> payload ?b (4 * Suc ?n) \<longleftrightarrow> x \<in> payload ?b (4 * ?n) \<or> x \<in> payload (?b + of_nat (4 * ?n)) 4"
    by (simp only: payload_add)
  moreover have "?b + of_nat (4 * ?n) = e - 4" by (simp add: algebra_simps)
  moreover have "x \<notin> payload ?b (4 * Suc ?n)" using Cons.prems(2) by (simp only: length_Cons not_False_eq_True)
  ultimately have "x \<notin> payload ?b (4 * ?n)" and x2: "x \<notin> payload (e - 4) 4" by simp_all
  then have x: "x \<notin> payload (e - 4 - 4 * of_nat ?n) (4 * ?n)" by (simp only: b not_False_eq_True)
  have "snd (store_down (e - 4) ws (store32 m (e - 4) v)) x = store32 m (e - 4) v x"
    using Cons.IH[OF _ x] Cons.prems(1) by simp
  then show ?case using store32_outside[OF x2] by simp
qed

lemma store_down_other:
  assumes "word_aligned e" "word_aligned a" "\<And>j. j < length ws \<Longrightarrow> a \<noteq> e - 4 * of_nat (Suc j)"
  shows "load32 (snd (store_down e ws m)) a = load32 m a"
  using assms
proof (induction ws arbitrary: e m)
  case Nil
  then show ?case by simp
next
  case (Cons v ws)
  have "a \<noteq> e - 4 - 4 * of_nat (Suc j)" if "j < length ws" for j
    using Cons.prems(3)[of "Suc j"] that by (simp add: algebra_simps)
  moreover have "a \<noteq> e - 4" using Cons.prems(3)[of 0] by simp
  ultimately show ?case using Cons.IH[of "e - 4"] Cons.prems(1,2) by (simp add: mem_simps)
qed

lemma store_down_load:
  assumes "word_aligned e" "i < length ws" "length ws < 2 ^ 30"
  shows "load32 (snd (store_down e ws m)) (e - 4 * of_nat (Suc i)) = ws ! i"
  using assms
proof (induction ws arbitrary: e m i)
  case Nil
  then show ?case by simp
next
  case (Cons v ws)
  show ?case
  proof (cases i)
    case 0
    have "e - 4 \<noteq> e - 4 - 4 * of_nat (Suc j)" if "j < length ws" for j
    proof
      define d :: u32 where "d = 4 * of_nat (Suc j)"
      assume "e - 4 = e - 4 - 4 * of_nat (Suc j)"
      then have "e - 4 = e - 4 - d" by (simp only: d_def)
      then have "d = 0" by simp
      then have "of_nat (4 * Suc j) = (0 :: u32)" by (simp add: d_def)
      moreover have "4 * Suc j < 2 ^ 32" using that Cons.prems(3) by simp
      ultimately show False by (metis of_nat_eq_small of_nat_0 nat.distinct(1) mult_eq_0_iff zero_less_numeral zero_less_power zero_neq_numeral)
    qed
    then show ?thesis using store_down_other[of "e - 4" "e - 4" ws] Cons.prems(1) 0 by (simp add: mem_simps)
  next
    case (Suc k)
    then show ?thesis using Cons.IH[of "e - 4" k] Cons.prems by (simp add: algebra_simps)
  qed
qed

declare store_down.simps [simp del]

section \<open>Pushing\<close>

lemma fold_push:
  "fold push ws s = s\<lparr>hmem := snd (store_down (r_esp (cpu s)) ws (hmem s)),
     cpu := (cpu s)\<lparr>r_esp := r_esp (cpu s) - 4 * of_nat (length ws)\<rparr>\<rparr>"
proof (induction ws arbitrary: s)
  case Nil
  then show ?case by (simp add: store_down.simps)
next
  case (Cons v ws)
  show ?case by (simp only: fold_Cons o_apply Cons.IH) (simp add: push_def store_down.simps algebra_simps)
qed

text \<open>All that is on the stack when \<open>task_switch\<close> has saved the context of its caller.\<close>

definition saved_words :: "u32 \<Rightarrow> u32 \<Rightarrow> 'a tasking_scheme \<Rightarrow> u32 list" where
  "saved_words resume nx s = (let r = cpu s in
     [nx, resume, r_eax r, r_ecx r, r_edx r, r_ebx r, r_esp r - 8, r_ebp r, r_esi r, r_edi r, flags_word s])"

lemma length_saved [simp]: "length (saved_words resume nx s) = 11"
  by (simp add: saved_words_def Let_def)

lemma save_context: "pushf (pusha (push resume (push nx s))) = fold push (saved_words resume nx s) s"
  by (simp add: pushf_def pusha_def saved_words_def Let_def push_def flags_word_def)

text \<open>The processor after \<open>popf\<close>, \<open>popa\<close> and \<open>ret\<close> from a frame at \<open>b\<close>.\<close>

definition resumed :: "mem \<Rightarrow> u32 \<Rightarrow> u32 \<Rightarrow> cpu_regs" where
  "resumed m b cr3 = \<lparr>r_edi = load32 m (b + 4), r_esi = load32 m (b + 8), r_ebp = load32 m (b + 12), r_esp = b + 40,
     r_ebx = load32 m (b + 20), r_edx = load32 m (b + 24), r_ecx = load32 m (b + 28), r_eax = load32 m (b + 32),
     r_eflags = load32 m b OR 2, r_eip = load32 m (b + 36), r_cr3 = cr3\<rparr>"

lemma restore_context:
  "ret (popa (popf s)) = s\<lparr>cpu := resumed (hmem s) (r_esp (cpu s)) (r_cr3 (cpu s)), iflag := bit (load32 (hmem s) (r_esp (cpu s))) 9\<rparr>"
  by (simp add: ret_def popa_def popf_def pop_def Let_def resumed_def add.assoc)

definition switch_cr3 :: "task \<Rightarrow> task \<Rightarrow> u32 \<Rightarrow> u32" where
  "switch_cr3 c t cr3 = (if t_page_dir c = t_page_dir t then cr3 else t_page_dir t)"

definition switched_mem :: "u32 \<Rightarrow> u32 \<Rightarrow> 'a tasking_scheme \<Rightarrow> mem" where
  "switched_mem resume nx s = snd (store_down (r_esp (cpu s)) (saved_words resume nx s) (hmem s))"

lemma switched_mem_word:
  "word_aligned (r_esp (cpu s)) \<Longrightarrow> i < 11 \<Longrightarrow>
    load32 (switched_mem resume nx s) (r_esp (cpu s) - 4 * of_nat (Suc i)) = saved_words resume nx s ! i"
  unfolding switched_mem_def by (rule store_down_load) simp_all

lemma switched_mem_outside:
  "x \<notin> payload (r_esp (cpu s) - 44) 44 \<Longrightarrow> switched_mem resume nx s x = hmem s x"
  unfolding switched_mem_def by (rule store_down_outside) simp_all

lemma task_switch_run:
  assumes al: "word_aligned (r_esp (cpu s))" and c: "tasks s (current_task s) = Some c"
    and t: "tasks s nx = Some t" and ne: "nx \<noteq> current_task s"
  shows "task_switch (push resume (push nx s)) =
    Some (s\<lparr>hmem := switched_mem resume nx s, current_task := nx,
      tasks := (tasks s)(current_task s \<mapsto> c\<lparr>t_esp := r_esp (cpu s) - 44\<rparr>),
      cpu := resumed (switched_mem resume nx s) (t_esp t) (switch_cr3 c t (r_cr3 (cpu s))),
      iflag := bit (load32 (switched_mem resume nx s) (t_esp t)) 9\<rparr>)"
proof -
  have n: "load32 (switched_mem resume nx s) (r_esp (cpu s) - 4) = nx"
    using switched_mem_word[OF al, of 0 resume nx] by (simp add: saved_words_def Let_def)
  have cur: "current_task (push resume (push nx s)) = current_task s" by (simp add: push_def)
  show ?thesis
    using c t ne n
    by (simp add: task_switch_def save_context fold_push cur restore_context upd_task_def
      switched_mem_def[symmetric] switch_cr3_def)
qed

section \<open>Frames\<close>

lemma load32_payload:
  assumes "\<And>x. x \<in> payload b n \<Longrightarrow> m x = m' x" "unat k + 4 \<le> n"
  shows "load32 m (b + k) = load32 m' (b + k)"
proof (rule load32_cong)
  have "unat (k + j) < n" if "unat j < 4" for j
    using assms(2) that unat_add_le[of k j] by simp
  from this[of 0] this[of 1] this[of 2] this[of 3] assms(1)
  show "m (b + k) = m' (b + k)" "m (b + k + 1) = m' (b + k + 1)" "m (b + k + 2) = m' (b + k + 2)"
    "m (b + k + 3) = m' (b + k + 3)"
    by (simp_all add: payload_def add.assoc)
qed

text \<open>A frame at \<open>b\<close> that agrees with the words saved by a switch away.\<close>

lemma resumed_saved:
  assumes al: "word_aligned (r_esp (cpu s))"
    and m: "\<And>x. x \<in> payload (r_esp (cpu s) - 44) 44 \<Longrightarrow> m x = switched_mem resume nx s x"
  shows "resumed m (r_esp (cpu s) - 44) cr3 =
      (cpu s)\<lparr>r_eflags := flags_word s OR 2, r_eip := resume, r_esp := r_esp (cpu s) - 4, r_cr3 := cr3\<rparr>"
    and "load32 m (r_esp (cpu s) - 44) = flags_word s"
proof -
  have w: "load32 m (r_esp (cpu s) - 44 + k) = saved_words resume nx s ! i"
    if "i < 11" "k = 44 - 4 * of_nat (Suc i)" "unat k + 4 \<le> 44" for k i
  proof -
    have "load32 m (r_esp (cpu s) - 44 + k) = load32 (switched_mem resume nx s) (r_esp (cpu s) - 44 + k)"
      by (rule load32_payload[OF m]) (assumption, rule that(3))
    moreover have "r_esp (cpu s) - 44 + k = r_esp (cpu s) - 4 * of_nat (Suc i)" using that(2) by simp
    ultimately show ?thesis by (simp only: switched_mem_word[OF al that(1)])
  qed
  note words = w[of 10 0] w[of 9 4] w[of 8 8] w[of 7 12] w[of 5 20] w[of 4 24] w[of 3 28] w[of 2 32] w[of 1 36]
  from words(1) show "load32 m (r_esp (cpu s) - 44) = flags_word s" by (simp add: saved_words_def Let_def)
  with words show "resumed m (r_esp (cpu s) - 44) cr3 =
      (cpu s)\<lparr>r_eflags := flags_word s OR 2, r_eip := resume, r_esp := r_esp (cpu s) - 4, r_cr3 := cr3\<rparr>"
    by (simp add: resumed_def saved_words_def Let_def)
qed

lemma flags_bit: "bit (flags_word s) 9 = iflag s"
proof -
  have "bit (0x200 :: u32) 9" by code_simp
  then show ?thesis by (simp add: flags_word_def bit_simps)
qed

lemma switch_to_run:
  assumes "word_aligned (r_esp (cpu s))" "tasks s (current_task s) = Some c"
    "tasks s nx = Some t" "nx \<noteq> current_task s"
  defines "s1 \<equiv> \<lambda>resume. s\<lparr>hmem := switched_mem resume nx s, current_task := nx,
      tasks := (tasks s)(current_task s \<mapsto> c\<lparr>t_esp := r_esp (cpu s) - 44\<rparr>),
      cpu := resumed (switched_mem resume nx s) (t_esp t) (switch_cr3 c t (r_cr3 (cpu s))),
      iflag := bit (load32 (switched_mem resume nx s) (t_esp t)) 9\<rparr>"
  shows "switch_to resume nx s =
    Some (if r_eip (cpu (s1 resume)) = resume
      then upd_task nx (\<lambda>t. t\<lparr>t_state := TASK_RUNNING\<rparr>) (s1 resume\<lparr>cpu := (cpu (s1 resume))\<lparr>r_esp := r_esp (cpu (s1 resume)) + 4\<rparr>\<rparr>)
      else s1 resume)"
  unfolding switch_to_def task_switch_run[OF assms(1-4)] by (simp add: s1_def)

section \<open>Properties\<close>

text \<open>A switching state for the instances: two tasks with stacks in a zeroed memory.\<close>

definition demo_task :: "u32 \<Rightarrow> task" where
  "demo_task e = zero_task\<lparr>t_esp := e, t_state := TASK_READY, t_page_dir := 0x1000\<rparr>"

definition demo_tasking :: "mem \<Rightarrow> u32 \<Rightarrow> u32 \<Rightarrow> tasking" where
  "demo_tasking m e cur = \<lparr>console = [], port_out = [], port_in = (\<lambda>_ _. 0), port_reads = (\<lambda>_. 0), iflag = True,
     hmem = m, free_lists = (\<lambda>_. 0), heap_top = 0,
     tasks = [0x100 \<mapsto> demo_task (0x8000 - 44), 0x200 \<mapsto> demo_task (0xA000 - 44)], task_queue = 0x100, current_task = cur, next_pid = 3,
     cpu = \<lparr>r_edi = 1, r_esi = 2, r_ebp = 3, r_esp = e, r_ebx = 4, r_edx = 5, r_ecx = 6, r_eax = 7,
       r_eflags = 2, r_eip = 0, r_cr3 = 0x1000\<rparr>\<rparr>"

text \<open>C21: A context survives a switch: a task that switches away and is switched back to later, by any
  other task, with the 44 bytes below its stack pointer untouched, goes on at the return address with every
  general register, the stack pointer and the interrupt flag it had, running again.\<close>

theorem context_roundtrip:
  assumes s: "word_aligned (r_esp (cpu s))" "tasks s a = Some c" "current_task s = a" "tasks s nx = Some t" "nx \<noteq> a"
    and away: "switch_to resume nx s = Some s'"
    and z: "tasks z a = Some c'" "\<exists>c1. tasks s' a = Some c1 \<and> t_esp c' = t_esp c1"
      "word_aligned (r_esp (cpu z))" "tasks z (current_task z) = Some d" "current_task z \<noteq> a"
    and kept: "\<forall>x \<in> payload (r_esp (cpu s) - 44) 44. hmem z x = hmem s' x"
    and apart: "payload (r_esp (cpu z) - 44) 44 \<inter> payload (r_esp (cpu s) - 44) 44 = {}"
  shows "\<exists>z'. switch_to resume a z = Some z' \<and> current_task z' = a \<and> iflag z' = iflag s \<and>
    cpu z' = (cpu s)\<lparr>r_eflags := flags_word s OR 2, r_eip := resume, r_cr3 := switch_cr3 d c' (r_cr3 (cpu z))\<rparr> \<and>
    map_option t_state (tasks z' a) = Some TASK_RUNNING"
proof -
  let ?b = "r_esp (cpu s) - 44"
  have cur: "tasks s (current_task s) = Some c" "nx \<noteq> current_task s" using s by simp_all
  have mem: "hmem s' = switched_mem resume nx s" and esp: "t_esp c' = ?b"
    using away z(2) s(3,5) unfolding switch_to_run[OF s(1) cur(1) s(4) cur(2)]
    by (auto simp: upd_task_def split: if_splits)
  have "switched_mem resume a z x = switched_mem resume nx s x" if "x \<in> payload ?b 44" for x
    using that kept apart mem switched_mem_outside[of x z resume a] by auto
  note r = resumed_saved[OF s(1) this]
  have ne: "a \<noteq> current_task z" using z(5) by simp
  show ?thesis
    unfolding switch_to_run[OF z(3,4,1) ne]
    using z(1) ne by (simp add: esp r flags_bit upd_task_def)
qed

theorem context_roundtrip_witness:
  "\<exists>s' z'. switch_to 0x50 0x200 (demo_tasking (\<lambda>_. 0) 0x8000 0x100) = Some s' \<and> switch_to 0x50 0x100 s' = Some z' \<and>
    current_task z' = 0x100 \<and> iflag z' \<and> r_esp (cpu z') = 0x8000 \<and> r_eax (cpu z') = 7"
proof -
  let ?s = "demo_tasking (\<lambda>_. 0) 0x8000 0x100"
  have st: "tasks ?s 0x100 = Some (demo_task (0x8000 - 44))" "tasks ?s 0x200 = Some (demo_task (0xA000 - 44))"
    "current_task ?s = 0x100" "r_esp (cpu ?s) = 0x8000" "iflag ?s" "r_eax (cpu ?s) = 7" "hmem ?s = (\<lambda>_. 0)"
    by (simp_all add: demo_tasking_def)
  have al: "word_aligned (r_esp (cpu ?s))" by (simp add: st)
  have zero: "load32 (switched_mem 0x50 0x200 ?s) (0xA000 - 44 + 36) = load32 (\<lambda>_. 0) (0xA000 - 44 + 36)"
  proof (rule load32_cong)
    have out: "switched_mem 0x50 0x200 ?s x = 0" if "0x8000 \<le> x" for x
    proof -
      have "x \<notin> payload (0x8000 - 44) 44" using payload_range(2)[of "0x8000 - 44" 44 x] that by (auto simp: word_le_nat_alt)
      then show ?thesis using switched_mem_outside[of x ?s "0x50" "0x200"] by (simp add: st)
    qed
    show "switched_mem 0x50 0x200 ?s (0xA000 - 44 + 36) = 0" "switched_mem 0x50 0x200 ?s (0xA000 - 44 + 36 + 1) = 0"
      "switched_mem 0x50 0x200 ?s (0xA000 - 44 + 36 + 2) = 0" "switched_mem 0x50 0x200 ?s (0xA000 - 44 + 36 + 3) = 0"
      by (rule out; simp)+
  qed
  have c: "tasks ?s (current_task ?s) = Some (demo_task (0x8000 - 44))" "(0x200 :: u32) \<noteq> current_task ?s"
    by (simp_all add: st)
  obtain s' where s': "switch_to 0x50 0x200 ?s = Some s'" "current_task s' = 0x200" "r_esp (cpu s') = 0x9FFC"
    "tasks s' = (tasks ?s)(0x100 \<mapsto> demo_task (0x8000 - 44))"
    using zero unfolding switch_to_run[OF al c(1) st(2) c(2)]
    by (simp add: resumed_def demo_task_def zero_task_def st load32_def)
  have z: "tasks s' 0x100 = Some (demo_task (0x8000 - 44))" "tasks s' (current_task s') = Some (demo_task (0xA000 - 44))"
    by (simp_all add: s' st)
  have apart: "payload (r_esp (cpu s') - 44) 44 \<inter> payload (r_esp (cpu ?s) - 44) 44 = {}"
    using payload_apart[of "0x8000 - 44" 44 "0x9FFC - 44" 44] by (auto simp: s'(3) st)
  have al': "word_aligned (r_esp (cpu s'))" by (simp add: s')
  have cur: "current_task ?s = 0x100" "current_task s' \<noteq> 0x100" "(0x200 :: u32) \<noteq> 0x100" by (simp_all add: st s')
  from context_roundtrip[OF al st(1) cur(1) st(2) cur(3) s'(1) z(1) _ al' z(2) cur(2) _ apart]
  obtain z' where "switch_to 0x50 0x100 s' = Some z'" "current_task z' = 0x100" "iflag z' = iflag ?s"
    "r_esp (cpu z') = r_esp (cpu ?s)" "r_eax (cpu z') = r_eax (cpu ?s)"
    using z(1) by auto
  with s'(1) st show ?thesis by auto
qed

end
