(* ===== verification/Task_Spec.thy ===== *)
theory Task_Spec
  imports Task_Switch
begin

text \<open>
  The scheduler: the invariant of the task queue over the live allocations of the heap, what creating
  a task and reaping the terminated ones do to it, the round robin choice of \<open>schedule\<close>, and that a
  ready task gets the processor after at most as many turns as there are tasks.
\<close>

section \<open>Framing\<close>

lemma heap_ok_task [simp]:
  "heap_ok (s\<lparr>tasks := ts\<rparr>) U = heap_ok s U" "heap_ok (s\<lparr>task_queue := q\<rparr>) U = heap_ok s U"
  "heap_ok (s\<lparr>current_task := q\<rparr>) U = heap_ok s U" "heap_ok (s\<lparr>next_pid := q\<rparr>) U = heap_ok s U"
  "heap_ok (s\<lparr>cpu := r\<rparr>) U = heap_ok s U" "heap_ok (s\<lparr>iflag := b\<rparr>) U = heap_ok s U"
  "heap_ok (upd_task a f s) U = heap_ok s U"
  by (rule heap_ok_same; simp add: same_heap_def upd_task_def)+

lemma heap_only_tasks:
  assumes "heap_only s s'"
  shows "tasks s' = tasks s" "task_queue s' = task_queue s" "current_task s' = current_task s"
    "next_pid s' = next_pid s" "cpu s' = cpu s"
  using heap_only_more[OF assms] by (cases s; cases s'; simp)+

lemma upd_task_simps [simp]:
  "tasks (upd_task a f s) = (tasks s)(a := map_option f (tasks s a))"
  "task_queue (upd_task a f s) = task_queue s" "current_task (upd_task a f s) = current_task s"
  "cpu (upd_task a f s) = cpu s" "hmem (upd_task a f s) = hmem s"
  by (simp_all add: upd_task_def)

lemma free_task_live:
  assumes "heap_ok s U" "U a = Some c"
  obtains s' where "free_task a s = Some s'" "heap_ok s' (U(a := None))" "tasks s' = (tasks s)(a := None)"
    "task_queue s' = task_queue s" "current_task s' = current_task s" "cpu s' = cpu s" "next_pid s' = next_pid s"
    "\<And>q d x. q \<noteq> a \<Longrightarrow> U q = Some d \<Longrightarrow> x \<in> payload q d \<Longrightarrow> hmem s' x = hmem s x"
proof -
  obtain t where t: "kfree a s = Some t" "heap_ok t (U(a := None))"
    "\<And>q d x. q \<noteq> a \<Longrightarrow> U q = Some d \<Longrightarrow> x \<in> payload q d \<Longrightarrow> hmem t x = hmem s x"
    using kheap.release_live[OF assms] by metis
  note f = heap_only_tasks[OF kfree_only[OF t(1)]]
  show thesis by (rule that[of "t\<lparr>tasks := (tasks t)(a := None)\<rparr>"]) (use t f in \<open>simp_all add: free_task_def\<close>)
qed

section \<open>Fields of a task\<close>

definition next_of :: "'a tasking_scheme \<Rightarrow> u32 \<Rightarrow> u32 option" where
  "next_of s a = Option.bind (tasks s a) (\<lambda>t. ptr_of (t_next t))"

definition stack_of :: "'a tasking_scheme \<Rightarrow> u32 \<Rightarrow> u32" where
  "stack_of s a = (case tasks s a of None \<Rightarrow> 0 | Some t \<Rightarrow> t_stack t)"

definition state_of :: "'a tasking_scheme \<Rightarrow> u32 \<Rightarrow> task_state option" where
  "state_of s a = map_option t_state (tasks s a)"

text \<open>A task without its link.\<close>

definition core :: "'a tasking_scheme \<Rightarrow> u32 \<Rightarrow> task option" where
  "core s a = map_option (\<lambda>t. t\<lparr>t_next := 0\<rparr>) (tasks s a)"

lemma core_stack: "stack_of s a = (case core s a of None \<Rightarrow> 0 | Some t \<Rightarrow> t_stack t)"
  by (simp add: stack_of_def core_def split: option.splits)

lemma core_state: "state_of s a = map_option t_state (core s a)"
  by (simp add: state_of_def core_def map_option.compositionality comp_def)

lemma core_None: "core s a = None \<longleftrightarrow> tasks s a = None"
  by (simp add: core_def)

section \<open>Creating a task\<close>

text \<open>
  \<open>task_create\<close> stores the entry, then 0x202, then eight zeros; \<open>task_switch\<close> pops the flags first, so
  0x202 reaches \<open>EAX\<close> and the flags are zero.
\<close>

abbreviation new_frame :: "u32 \<Rightarrow> u32 list" where
  "new_frame entry \<equiv> [entry, 0x202, 0, 0, 0, 0, 0, 0, 0, 0]"

lemma frame_in_stack:
  assumes "4096 \<le> c" "c \<le> 2 ^ 22"
  shows "payload (e + 4056) 40 \<subseteq> payload e c"
proof
  fix x assume "x \<in> payload (e + 4056) 40"
  then have "unat (x - (e + 4056)) < 40" by (simp add: payload_def)
  moreover have "x - e = 4056 + (x - (e + 4056))" by simp
  moreover have "unat (4056 + (x - (e + 4056))) \<le> unat (4056 :: u32) + unat (x - (e + 4056))" by (rule unat_add_le)
  ultimately show "x \<in> payload e c" using assms by (simp add: payload_def)
qed

lemma new_frame_outside:
  "x \<notin> payload (e + 4056) 40 \<Longrightarrow> snd (store_down (e + 4096) (new_frame v) m) x = m x"
proof (rule store_down_outside)
  have "e + 4096 - 4 * of_nat (length (new_frame v)) = e + 4056" "4 * length (new_frame v) = 40" by simp_all
  then show "x \<notin> payload (e + 4056) 40 \<Longrightarrow>
      x \<notin> payload (e + 4096 - 4 * of_nat (length (new_frame v))) (4 * length (new_frame v))"
    by (simp only: not_False_eq_True)
qed simp

text \<open>Up to linking the new task \<open>p\<close> in, whose object is then \<open>t\<close>.\<close>

definition link_task :: "u32 \<Rightarrow> 'a tasking_scheme \<Rightarrow> 'a tasking_scheme option" where
  "link_task p s = (if task_queue s = 0 then Some (s\<lparr>task_queue := p\<rparr>)
     else map_option (\<lambda>l. upd_task l (\<lambda>t. t\<lparr>t_next := p\<rparr>) s) (last_task (task_queue s) s))"

lemma task_create_steps:
  assumes ok: "heap_ok s U" and k1: "kmalloc sizeof_task s = Some (p, s1)" "p \<noteq> 0" "U p = None" "24 \<le> c" "heap_ok s1 (U(p \<mapsto> c))"
      "\<And>q d x. U q = Some d \<Longrightarrow> x \<in> payload q d \<Longrightarrow> hmem s1 x = hmem s x"
    and s2: "s2 = s1\<lparr>tasks := (tasks s1)(p \<mapsto> zero_task)\<rparr>"
    and k2: "kmalloc STACK_SIZE s2 = Some (stack, s3)" "stack \<noteq> 0" "(U(p \<mapsto> c)) stack = None" "4096 \<le> d"
      "heap_ok s3 (U(p \<mapsto> c, stack \<mapsto> d))" "\<And>q e x. (U(p \<mapsto> c)) q = Some e \<Longrightarrow> x \<in> payload q e \<Longrightarrow> hmem s3 x = hmem s2 x"
  obtains t s4 where "task_create entry pd s = map_option (Pair p) (link_task p s4)"
    "t = \<lparr>t_esp = stack + 4056, t_page_dir = pd, t_stack = stack, t_state = TASK_READY, t_pid = next_pid s, t_next = 0\<rparr>"
    "tasks s4 = (tasks s)(p \<mapsto> t)" "task_queue s4 = task_queue s" "current_task s4 = current_task s" "cpu s4 = cpu s"
    "heap_ok s4 (U(p \<mapsto> c, stack \<mapsto> d))" "hmem s4 = snd (store_down (stack + 4096) (new_frame entry) (hmem s3))"
    "\<And>q e x. U q = Some e \<Longrightarrow> x \<in> payload q e \<Longrightarrow> hmem s4 x = hmem s x"
proof -
  define m where "m = snd (store_down (stack + 4096) (new_frame entry) (hmem s3))"
  have e: "fst (store_down (stack + 4096) (new_frame entry) (hmem s3)) = stack + 4056"
    by (simp add: store_down_esp)
  note f1 = heap_only_tasks[OF kmalloc_only[OF k1(1)]] and f3 = heap_only_tasks[OF kmalloc_only[OF k2(1)]]
  have ts: "tasks s3 = (tasks s)(p \<mapsto> zero_task)" by (simp add: f3 s2 f1)
  have dd: "d \<le> 2 ^ 22" using live_aligned(4)[OF k2(5), of stack d] by simp
  have out: "m x = hmem s3 x" if "x \<notin> payload stack d" for x
    using new_frame_outside[of x stack entry] frame_in_stack[OF k2(4) dd] that by (auto simp: m_def)
  have okm: "heap_ok (s3\<lparr>hmem := m\<rparr>) (U(p \<mapsto> c, stack \<mapsto> d))"
    by (rule owner_write[OF k2(5), of stack d]) (use out in auto)
  define s4 where "s4 = (upd_task p (\<lambda>t. t\<lparr>t_stack := stack, t_state := TASK_READY, t_pid := next_pid s3,
      t_page_dir := pd, t_esp := stack + 4056\<rparr>) s3)\<lparr>next_pid := next_pid s3 + 1, hmem := m\<rparr>"
  show thesis
  proof (rule that[OF _ refl])
    have q4: "task_queue s4 = task_queue s3" by (simp add: s4_def)
    show "task_create entry pd s = map_option (Pair p) (link_task p s4)"
      using k1(1,2) k2(1,2) e
      by (simp add: task_create_def s2[symmetric] m_def[symmetric] split_def Let_def link_task_def q4
          option.map_comp comp_def if_distrib[of "map_option _"]) (simp add: s4_def upd_task_def)
    show "tasks s4 = (tasks s)(p \<mapsto> \<lparr>t_esp = stack + 4056, t_page_dir = pd, t_stack = stack, t_state = TASK_READY,
        t_pid = next_pid s, t_next = 0\<rparr>)"
      by (simp add: s4_def ts zero_task_def f3 s2 f1)
    show "heap_ok s4 (U(p \<mapsto> c, stack \<mapsto> d))"
      using okm heap_ok_same[of s4 "s3\<lparr>hmem := m\<rparr>"] by (simp add: same_heap_def s4_def upd_task_def)
    show "hmem s4 x = hmem s x" if "U q = Some e" "x \<in> payload q e" for q e x
    proof -
      have q: "q \<noteq> p" "q \<noteq> stack" using that(1) k1(3) k2(3) by (auto split: if_splits)
      have "x \<notin> payload stack d" using live_disjoint[OF k2(5), of q e stack d] that q by auto
      then have "m x = hmem s3 x" by (rule out)
      also have "\<dots> = hmem s2 x" using k2(6)[of q e x] that q by simp
      also have "\<dots> = hmem s x" using k1(6)[OF that] by (simp add: s2)
      finally show ?thesis by (simp add: s4_def)
    qed
  qed (simp_all add: s4_def f3 s2 f1 m_def)
qed

lemma link_task_frame:
  assumes "link_task p s = Some s'"
  shows "heap_ok s' U = heap_ok s U" "hmem s' = hmem s" "core s' = core s" "current_task s' = current_task s" "cpu s' = cpu s"
proof -
  consider "s' = s\<lparr>task_queue := p\<rparr>" | l where "s' = upd_task l (\<lambda>t. t\<lparr>t_next := p\<rparr>) s"
    using assms by (auto simp: link_task_def split: if_splits)
  then show "heap_ok s' U = heap_ok s U" "hmem s' = hmem s" "core s' = core s" "current_task s' = current_task s" "cpu s' = cpu s"
    by (cases; simp add: core_def fun_eq_iff map_option.compositionality comp_def)+
qed

lemma task_create_cases:
  assumes ok: "heap_ok s U" and r: "task_create entry pd s = Some (p, s')" and p: "p \<noteq> 0"
  obtains t c d s4 m where "link_task p s4 = Some s'" "U p = None" "24 \<le> c" "U (t_stack t) = None" "t_stack t \<noteq> p" "t_stack t \<noteq> 0" "4096 \<le> d"
    "t = \<lparr>t_esp = t_stack t + 4056, t_page_dir = pd, t_stack = t_stack t, t_state = TASK_READY, t_pid = next_pid s, t_next = 0\<rparr>"
    "tasks s4 = (tasks s)(p \<mapsto> t)" "task_queue s4 = task_queue s" "current_task s4 = current_task s" "cpu s4 = cpu s"
    "heap_ok s4 (U(p \<mapsto> c, t_stack t \<mapsto> d))" "hmem s4 = snd (store_down (t_stack t + 4096) (new_frame entry) m)"
    "\<And>q e x. U q = Some e \<Longrightarrow> x \<in> payload q e \<Longrightarrow> hmem s4 x = hmem s x"
proof -
  have nz: "kmalloc sizeof_task s \<noteq> Some (0, s1)" for s1
    using r p by (auto simp: task_create_def)
  obtain a s1 c where a: "kmalloc sizeof_task s = Some (a, s1)" "a \<noteq> 0" "U a = None" "24 \<le> c"
    "heap_ok s1 (U(a \<mapsto> c))" "\<And>q d x. U q = Some d \<Longrightarrow> x \<in> payload q d \<Longrightarrow> hmem s1 x = hmem s x"
    by (rule kmalloc_cases[OF ok, of sizeof_task]) (use nz in \<open>auto simp: sizeof_task_def\<close>)
  define s2 where "s2 = s1\<lparr>tasks := (tasks s1)(a \<mapsto> zero_task)\<rparr>"
  have ok2: "heap_ok s2 (U(a \<mapsto> c))" using a(5) by (simp add: s2_def)
  have nz2: "kmalloc STACK_SIZE s2 \<noteq> Some (0, s3)" for s3
    using r p a(1,2) by (auto simp: task_create_def s2_def[symmetric] Let_def)
  obtain stack s3 d where b: "kmalloc STACK_SIZE s2 = Some (stack, s3)" "stack \<noteq> 0" "(U(a \<mapsto> c)) stack = None" "4096 \<le> d"
    "heap_ok s3 (U(a \<mapsto> c, stack \<mapsto> d))" "\<And>q e x. (U(a \<mapsto> c)) q = Some e \<Longrightarrow> x \<in> payload q e \<Longrightarrow> hmem s3 x = hmem s2 x"
    by (rule kmalloc_cases[OF ok2, of STACK_SIZE]) (use nz2 in \<open>auto simp: STACK_SIZE_def\<close>)
  obtain t s4 where n: "task_create entry pd s = map_option (Pair a) (link_task a s4)"
    "t = \<lparr>t_esp = stack + 4056, t_page_dir = pd, t_stack = stack, t_state = TASK_READY, t_pid = next_pid s, t_next = 0\<rparr>"
    "tasks s4 = (tasks s)(a \<mapsto> t)" "task_queue s4 = task_queue s" "current_task s4 = current_task s" "cpu s4 = cpu s"
    "heap_ok s4 (U(a \<mapsto> c, stack \<mapsto> d))" "hmem s4 = snd (store_down (stack + 4096) (new_frame entry) (hmem s3))"
    "\<And>q e x. U q = Some e \<Longrightarrow> x \<in> payload q e \<Longrightarrow> hmem s4 x = hmem s x"
    by (rule task_create_steps[OF ok a(1-5) _ s2_def b(1-5)]) (blast intro: a(6), blast intro: b(6), rule that)
  have "stack \<noteq> a" "U stack = None" using b(3) by (auto split: if_splits)
  moreover have "p = a" "link_task a s4 = Some s'" using n(1) r by (cases "link_task a s4"; simp)+
  ultimately show thesis using that[of s4 c t d "hmem s3"] n a(3,4) b(2,4) by simp
qed

section \<open>The task queue\<close>

text \<open>
  The invariant: the queue is a chain of allocated task objects that holds the current task, every
  stack is a live allocation of its own, and no two of these allocations are the same.
\<close>

definition task_mem :: "'a tasking_scheme \<Rightarrow> (u32 \<Rightarrow> nat option) \<Rightarrow> u32 \<Rightarrow> bool" where
  "task_mem s U a \<longleftrightarrow> core s a \<noteq> None \<and> (\<exists>c \<ge> 24. U a = Some c) \<and>
     (stack_of s a \<noteq> 0 \<longrightarrow> (\<exists>d \<ge> 4096. U (stack_of s a) = Some d))"

definition stacks :: "'a tasking_scheme \<Rightarrow> u32 list \<Rightarrow> u32 list" where
  "stacks s xs = filter (\<lambda>p. p \<noteq> 0) (map (stack_of s) xs)"

definition tasks_ok :: "'a tasking_scheme \<Rightarrow> (u32 \<Rightarrow> nat option) \<Rightarrow> u32 list \<Rightarrow> bool" where
  "tasks_ok s U xs \<longleftrightarrow> heap_ok s U \<and> chain (next_of s) (ptr_of (task_queue s)) xs \<and> current_task s \<in> set xs \<and>
     (\<forall>a \<in> set xs. task_mem s U a) \<and> distinct (xs @ stacks s xs)"

definition dead :: "'a tasking_scheme \<Rightarrow> u32 \<Rightarrow> bool" where
  "dead s a \<longleftrightarrow> state_of s a = Some TASK_TERMINATED \<and> a \<noteq> current_task s"

definition gone :: "'a tasking_scheme \<Rightarrow> u32 list \<Rightarrow> u32 set" where
  "gone s xs = set xs \<union> stack_of s ` set xs"

lemma stacks_append [simp]: "stacks s (xs @ ys) = stacks s xs @ stacks s ys"
  by (simp add: stacks_def)

lemma stacks_Cons: "stacks s (x # xs) = (if stack_of s x = 0 then [] else [stack_of s x]) @ stacks s xs"
  by (simp add: stacks_def)

lemma stacks_Nil [simp]: "stacks s [] = []"
  by (simp add: stacks_def)

lemma stacks_cong: "(\<And>a. a \<in> set xs \<Longrightarrow> core s a = core s' a) \<Longrightarrow> stacks s xs = stacks s' xs"
  by (simp add: stacks_def core_stack cong: map_cong)

lemma next_of_eq:
  "next_of (s\<lparr>tasks := (tasks s)(a := v)\<rparr>) = (next_of s)(a := Option.bind v (\<lambda>t. ptr_of (t_next t)))"
  by (simp add: fun_eq_iff next_of_def)

text \<open>Taking one terminated task out of the queue.\<close>

definition queue_cell :: "u32 list \<Rightarrow> task_cell" where
  "queue_cell us = (if us = [] then Queue else Next_of (last us))"

lemma load_queue_cell:
  assumes "tasks_ok s U (us @ vs)"
  shows "cell_load s (queue_cell us) = Some (case vs of [] \<Rightarrow> 0 | v # _ \<Rightarrow> v)"
proof (cases us rule: rev_cases)
  case Nil
  then show ?thesis using assms by (cases vs) (auto simp: tasks_ok_def queue_cell_def)
next
  case (snoc us' y)
  then have "task_mem s U y" "chain (next_of s) (next_of s y) vs"
    using assms by (auto simp: tasks_ok_def path_append)
  then obtain t where t: "tasks s y = Some t" "chain (next_of s) (ptr_of (t_next t)) vs"
    by (auto simp: task_mem_def core_None next_of_def)
  then show ?thesis by (cases vs) (auto simp: queue_cell_def snoc)
qed

lemma cell_store_frame [simp]:
  "heap_ok (cell_store c v s) U = heap_ok s U" "current_task (cell_store c v s) = current_task s"
  "cpu (cell_store c v s) = cpu s" "hmem (cell_store c v s) = hmem s" "core (cell_store c v s) = core s"
  "core (upd_task a (\<lambda>t. t\<lparr>t_next := v\<rparr>) s) = core s"
  by (cases c; simp add: core_def fun_eq_iff map_option.compositionality comp_def)+

lemma unlink_chain:
  assumes ok: "tasks_ok s U (us @ v # vs)" and t: "tasks s v = Some t"
  defines "s1 \<equiv> upd_task v (\<lambda>t. t\<lparr>t_next := 0\<rparr>) (cell_store (queue_cell us) (t_next t) s)"
  shows "chain (next_of s1) (ptr_of (task_queue s1)) (us @ vs)"
proof -
  have ch: "chain (next_of s) (ptr_of (task_queue s)) (us @ v # vs)" using ok by (simp add: tasks_ok_def)
  have v: "v \<notin> set us" "v \<notin> set vs" using chain_distinct[OF ch] by auto
  have nv: "next_of s v = ptr_of (t_next t)" by (simp add: next_of_def t)
  show ?thesis
  proof (cases us rule: rev_cases)
    case Nil
    have "next_of s1 = (next_of s)(v := None)"
      using t by (simp add: s1_def Nil queue_cell_def fun_eq_iff next_of_def)
    then show ?thesis using ch nv v by (simp add: Nil s1_def queue_cell_def path_upd)
  next
    case (snoc us' y)
    obtain ty where "tasks s y = Some ty" using ok by (auto simp: snoc tasks_ok_def task_mem_def core_None)
    moreover have y: "y \<noteq> v" using v(1) by (auto simp: snoc)
    ultimately have "next_of s1 = (next_of s)(y := next_of s v, v := None)"
      using t by (auto simp: s1_def snoc queue_cell_def fun_eq_iff next_of_def)
    moreover have "chain ((next_of s)(y := next_of s v)) (ptr_of (task_queue s)) (us' @ y # vs)"
      using chain_unlink[of "next_of s" "ptr_of (task_queue s)" us' y v vs] ch by (simp add: snoc)
    moreover have "task_queue s1 = task_queue s" by (simp add: s1_def snoc queue_cell_def)
    ultimately show ?thesis using v by (simp add: snoc path_upd)
  qed
qed

lemma gone_0: "heap_ok s U \<Longrightarrow> U 0 = None"
  using live_aligned(2)[of s U 0] by (cases "U 0") auto

lemma reap_dead:
  assumes ok: "tasks_ok s U (us @ v # vs)" and dead: "dead s v"
  obtains s' where "reap (queue_cell us) s = reap (queue_cell us) s'" "tasks_ok s' (U |` (- gone s [v])) (us @ vs)"
    "current_task s' = current_task s" "cpu s' = cpu s" "\<And>a. a \<noteq> v \<Longrightarrow> core s' a = core s a" "tasks s' v = None"
    "\<And>q d x. q \<notin> gone s [v] \<Longrightarrow> U q = Some d \<Longrightarrow> x \<in> payload q d \<Longrightarrow> hmem s' x = hmem s x"
proof -
  have hok: "heap_ok s U" and mem: "task_mem s U v" using ok by (simp_all add: tasks_ok_def)
  then obtain t c where t: "tasks s v = Some t" and c: "U v = Some c" by (auto simp: task_mem_def core_None)
  have stk: "\<exists>d \<ge> 4096. U (t_stack t) = Some d" if "t_stack t \<noteq> 0"
    using mem that by (simp add: task_mem_def stack_of_def t)
  have trm: "t_state t = TASK_TERMINATED" "v \<noteq> current_task s" using dead t by (auto simp: dead_def state_of_def)
  have st: "stack_of s v = t_stack t" by (simp add: stack_of_def t)
  have v0: "v \<noteq> 0" using live_aligned(2)[OF hok c] .
  define s1 where "s1 = upd_task v (\<lambda>t. t\<lparr>t_next := 0\<rparr>) (cell_store (queue_cell us) (t_next t) s)"
  have ch1: "chain (next_of s1) (ptr_of (task_queue s1)) (us @ vs)" unfolding s1_def by (rule unlink_chain[OF ok t])
  have fr1: "heap_ok s1 U" "core s1 = core s" "current_task s1 = current_task s" "cpu s1 = cpu s" "hmem s1 = hmem s"
    using hok by (simp_all add: s1_def)
  have dist: "distinct ((us @ v # vs) @ stacks s (us @ v # vs))" using ok by (simp add: tasks_ok_def)
  have nst: "t_stack t \<noteq> v" "t_stack t \<notin> set us \<union> set vs" if "t_stack t \<noteq> 0"
    using dist that by (auto simp: stacks_Cons st)
  obtain s2 where s2: "(if t_stack t \<noteq> 0 then kfree (t_stack t) s1 else Some s1) = Some s2"
    "heap_ok s2 (U(t_stack t := None))" "heap_only s1 s2"
    "\<And>q d x. q \<noteq> t_stack t \<Longrightarrow> U q = Some d \<Longrightarrow> x \<in> payload q d \<Longrightarrow> hmem s2 x = hmem s1 x"
  proof (cases "t_stack t = 0")
    case True
    then have "U(t_stack t := None) = U" using gone_0[OF hok] by auto
    with True fr1(1) show thesis by (intro that[of s1]) simp_all
  next
    case False
    obtain d where "U (t_stack t) = Some d" using stk[OF False] by blast
    then obtain s2 where "kfree (t_stack t) s1 = Some s2" "heap_ok s2 (U(t_stack t := None))"
      "\<And>q d x. q \<noteq> t_stack t \<Longrightarrow> U q = Some d \<Longrightarrow> x \<in> payload q d \<Longrightarrow> hmem s2 x = hmem s1 x"
      using kheap.release_live[OF fr1(1)] by metis
    with False show thesis by (intro that[of s2]) (simp_all add: kfree_only)
  qed
  note fr2 = heap_only_tasks[OF s2(3)]
  have cv: "(U(t_stack t := None)) v = Some c" using c nst(1) v0 by (cases "t_stack t = 0") auto
  obtain s3 where s3: "free_task v s2 = Some s3" "heap_ok s3 (U(t_stack t := None, v := None))"
    "tasks s3 = (tasks s2)(v := None)" "task_queue s3 = task_queue s2" "current_task s3 = current_task s2" "cpu s3 = cpu s2"
    "\<And>q d x. q \<noteq> v \<Longrightarrow> (U(t_stack t := None)) q = Some d \<Longrightarrow> x \<in> payload q d \<Longrightarrow> hmem s3 x = hmem s2 x"
    by (rule free_task_live[OF s2(2) cv]) metis
  have U': "U(t_stack t := None, v := None) = U |` (- gone s [v])"
    by (auto simp: gone_def st restrict_map_def fun_eq_iff)
  have core3: "core s3 a = core s a" if "a \<noteq> v" for a
    using that fun_cong[OF fr1(2), of a] by (simp add: core_def s3(3) fr2(1))
  have ch3: "chain (next_of s3) (ptr_of (task_queue s3)) (us @ vs)"
  proof -
    have "next_of s3 a = next_of s1 a" if "a \<in> set (us @ vs)" for a
    proof -
      have "a \<noteq> v" using that dist by auto
      then show ?thesis by (simp add: next_of_def s3(3) fr2(1))
    qed
    then show ?thesis using ch1 path_cong[of "us @ vs" "next_of s3" "next_of s1"] by (simp add: s3(4) fr2(2))
  qed
  have run: "reap (queue_cell us) s = reap (queue_cell us) s3"
    unfolding reap.simps[of "queue_cell us" s] using load_queue_cell[OF ok] v0 t trm s2(1) s3(1)
    by (auto simp: Let_def s1_def[symmetric] split: if_splits)
  have eq: "core s a = core s3 a" if "a \<in> set (us @ vs)" for a
  proof -
    have "a \<noteq> v" using that dist by auto
    then show ?thesis by (simp add: core3)
  qed
  have mem3: "task_mem s3 (U |` (- gone s [v])) a" if a: "a \<in> set (us @ vs)" for a
  proof -
    have m: "task_mem s U a" using ok a by (auto simp: tasks_ok_def)
    have apart: "a \<noteq> v" "stack_of s a \<noteq> 0 \<Longrightarrow> stack_of s a \<noteq> v" "t_stack t \<noteq> 0 \<Longrightarrow> a \<noteq> t_stack t"
      "stack_of s a \<noteq> 0 \<Longrightarrow> stack_of s a \<noteq> t_stack t"
    proof -
      have own: "stack_of s a \<in> set (stacks s us) \<union> set (stacks s vs)" if "stack_of s a \<noteq> 0"
        using that a by (auto simp: stacks_def)
      have "v \<notin> set us \<union> set vs" "v \<notin> set (stacks s us) \<union> set (stacks s vs)"
        "t_stack t \<noteq> 0 \<Longrightarrow> t_stack t \<notin> set (stacks s us) \<union> set (stacks s vs)"
        using dist by (auto simp: stacks_Cons st split: if_splits)
      with a own nst show "a \<noteq> v" "stack_of s a \<noteq> 0 \<Longrightarrow> stack_of s a \<noteq> v" "t_stack t \<noteq> 0 \<Longrightarrow> a \<noteq> t_stack t"
        "stack_of s a \<noteq> 0 \<Longrightarrow> stack_of s a \<noteq> t_stack t"
        by auto
    qed
    have "a \<noteq> 0" using m live_aligned(2)[OF hok] by (auto simp: task_mem_def)
    moreover have "gone s [v] = {v, t_stack t}" by (auto simp: gone_def st)
    moreover have "stack_of s3 a = stack_of s a" using eq[OF a] by (simp add: core_stack)
    ultimately show ?thesis using m eq[OF a] apart by (auto simp: task_mem_def restrict_map_def)
  qed
  have "tasks_ok s3 (U |` (- gone s [v])) (us @ vs)"
    using s3(2) ch3 mem3 dist ok fr1(3) fr2(3) s3(5) trm(2)
    by (auto simp: tasks_ok_def U' stacks_Cons simp flip: stacks_cong[OF eq])
  then show thesis
    using run core3 s3(3,5,6) fr1(3,4,5) fr2(3,5) s2(4) s3(7)
    by (intro that[of s3]) (auto simp: gone_def st)
qed

lemma gone_append [simp]: "gone s (xs @ ys) = gone s xs \<union> gone s ys"
  by (auto simp: gone_def)

lemma gone_Nil [simp]: "gone s [] = {}"
  by (simp add: gone_def)

lemma gone_cong: "(\<And>a. a \<in> set xs \<Longrightarrow> core s' a = core s a) \<Longrightarrow> gone s' xs = gone s xs"
  by (simp add: gone_def core_stack cong: image_cong)

lemma dead_cong: "core s' a = core s a \<Longrightarrow> current_task s' = current_task s \<Longrightarrow> dead s' a = dead s a"
  by (simp add: dead_def core_state)

lemma tasks_ok_distinct: "tasks_ok s U xs \<Longrightarrow> distinct xs"
  by (simp add: tasks_ok_def)

text \<open>The whole reaping: exactly the dead tasks leave the queue and the heap.\<close>

lemma reap_all:
  assumes "tasks_ok s U (us @ vs)" "\<And>a. a \<in> set us \<Longrightarrow> \<not> dead s a"
  shows "\<exists>s'. reap (queue_cell us) s = Some s' \<and> tasks_ok s' (U |` (- gone s (filter (dead s) vs))) (us @ filter (\<lambda>a. \<not> dead s a) vs) \<and>
    current_task s' = current_task s \<and> cpu s' = cpu s \<and>
    (\<forall>a. a \<notin> set (filter (dead s) vs) \<longrightarrow> core s' a = core s a) \<and> (\<forall>a \<in> set (filter (dead s) vs). tasks s' a = None) \<and>
    (\<forall>q d x. q \<notin> gone s (filter (dead s) vs) \<longrightarrow> U q = Some d \<longrightarrow> x \<in> payload q d \<longrightarrow> hmem s' x = hmem s x)"
  using assms
proof (induction vs arbitrary: us s U)
  case Nil
  have "reap (queue_cell us) s = Some s"
    using load_queue_cell[OF Nil.prems(1)] by (subst reap.simps) simp
  then show ?case using Nil.prems(1) by simp
next
  case (Cons v vs)
  note ok = Cons.prems(1)
  show ?case
  proof (cases "dead s v")
    case False
    have "v \<noteq> 0"
      using ok live_aligned(2)[of s U v] by (auto simp: tasks_ok_def task_mem_def)
    moreover obtain t where "tasks s v = Some t" using ok by (auto simp: tasks_ok_def task_mem_def core_None)
    ultimately have "reap (queue_cell us) s = reap (queue_cell (us @ [v])) s"
      using load_queue_cell[OF ok] False
      by (subst reap.simps) (auto simp: queue_cell_def dead_def state_of_def)
    then show ?thesis
      using Cons.IH[of s U "us @ [v]"] ok Cons.prems(2) False by auto
  next
    case True
    obtain s1 where s1: "reap (queue_cell us) s = reap (queue_cell us) s1" "tasks_ok s1 (U |` (- gone s [v])) (us @ vs)"
      "current_task s1 = current_task s" "cpu s1 = cpu s" "\<And>a. a \<noteq> v \<Longrightarrow> core s1 a = core s a" "tasks s1 v = None"
      "\<And>q d x. q \<notin> gone s [v] \<Longrightarrow> U q = Some d \<Longrightarrow> x \<in> payload q d \<Longrightarrow> hmem s1 x = hmem s x"
      by (rule reap_dead[OF ok True]) metis
    have v: "v \<notin> set us" "v \<notin> set vs" using tasks_ok_distinct[OF ok] by auto
    then have same: "core s1 a = core s a" "dead s1 a = dead s a" if "a \<in> set us \<union> set vs" for a
      using that s1(3) s1(5)[of a] dead_cong[of s1 a s] by auto
    have filt: "filter (dead s1) vs = filter (dead s) vs" "filter (\<lambda>a. \<not> dead s1 a) vs = filter (\<lambda>a. \<not> dead s a) vs"
      using same(2) by (auto intro!: filter_cong)
    have g: "gone s1 (filter (dead s) vs) = gone s (filter (dead s) vs)"
      by (rule gone_cong) (use same(1) in auto)
    have "\<not> dead s1 a" if "a \<in> set us" for a using that same(2) Cons.prems(2) by auto
    from Cons.IH[OF s1(2) this] obtain s2 where s2: "reap (queue_cell us) s1 = Some s2"
      "tasks_ok s2 (U |` (- gone s [v]) |` (- gone s (filter (dead s) vs))) (us @ filter (\<lambda>a. \<not> dead s a) vs)"
      "current_task s2 = current_task s1" "cpu s2 = cpu s1"
      "\<forall>a. a \<notin> set (filter (dead s) vs) \<longrightarrow> core s2 a = core s1 a" "\<forall>a \<in> set (filter (dead s) vs). tasks s2 a = None"
      "\<forall>q d x. q \<notin> gone s (filter (dead s) vs) \<longrightarrow> (U |` (- gone s [v])) q = Some d \<longrightarrow> x \<in> payload q d \<longrightarrow> hmem s2 x = hmem s1 x"
      unfolding filt g by blast
    have gv: "gone s (filter (dead s) (v # vs)) = gone s [v] \<union> gone s (filter (dead s) vs)"
      using True gone_append[of s "[v]" "filter (dead s) vs"] by simp
    have U': "U |` (- gone s [v]) |` (- gone s (filter (dead s) vs)) = U |` (- gone s (filter (dead s) (v # vs)))"
      by (simp only: gv restrict_restrict Compl_Un)
    have tv: "tasks s2 v = None"
      using s2(5) s1(6) v(2) core_None[of s2 v] core_None[of s1 v] by auto
    show ?thesis
    proof (intro exI conjI)
      show "reap (queue_cell us) s = Some s2" by (simp add: s1(1) s2(1))
      show "tasks_ok s2 (U |` (- gone s (filter (dead s) (v # vs)))) (us @ filter (\<lambda>a. \<not> dead s a) (v # vs))"
        using s2(2) True unfolding U' by simp
      show "current_task s2 = current_task s" "cpu s2 = cpu s" by (simp_all add: s2(3,4) s1(3,4))
      show "\<forall>a. a \<notin> set (filter (dead s) (v # vs)) \<longrightarrow> core s2 a = core s a"
        using s2(5) s1(5) True by auto
      show "\<forall>a \<in> set (filter (dead s) (v # vs)). tasks s2 a = None"
        using s2(6) tv True by auto
      show "\<forall>q d x. q \<notin> gone s (filter (dead s) (v # vs)) \<longrightarrow> U q = Some d \<longrightarrow> x \<in> payload q d \<longrightarrow> hmem s2 x = hmem s x"
        using s2(7) s1(7) unfolding gv by (auto simp: restrict_map_def)
    qed
  qed
qed

end
