(* ===== verification/Schedule.thy ===== *)
theory Schedule
  imports Task_Spec
begin

text \<open>
  What \<open>schedule\<close> does to a sound task queue: it reaps, it picks the next ready task in ring order and
  switches to it, and repeated turns reach every ready task.
\<close>

section \<open>The order of turns\<close>

definition turn_order :: "u32 \<Rightarrow> u32 list \<Rightarrow> u32 list" where
  "turn_order c xs = tl (dropWhile (\<lambda>a. a \<noteq> c) xs) @ takeWhile (\<lambda>a. a \<noteq> c) xs"

lemma turn_order_split: "c \<notin> set us \<Longrightarrow> turn_order c (us @ c # vs) = vs @ us"
proof -
  assume c: "c \<notin> set us"
  then have "dropWhile (\<lambda>a. a \<noteq> c) (us @ c # vs) = c # vs" by (subst dropWhile_append2) auto
  moreover have "takeWhile (\<lambda>a. a \<noteq> c) (us @ c # vs) = us" using c by (subst takeWhile_append2) auto
  ultimately show ?thesis by (simp add: turn_order_def)
qed

lemma turn_order_next:
  assumes "distinct xs" "c \<in> set xs" "turn_order c xs = as @ n # bs"
  shows "turn_order n xs = bs @ c # as"
proof -
  obtain us vs where xs: "xs = us @ c # vs" using assms(2) by (meson split_list)
  then have r: "vs @ us = as @ n # bs" using assms(1,3) turn_order_split[of c us vs] by auto
  then consider p where "vs = as @ n # p" "bs = p @ us" | p where "as = vs @ p" "us = p @ n # bs"
    by (auto simp: append_eq_append_conv2 append_eq_Cons_conv)
  then show ?thesis
  proof cases
    case 1
    have "xs = (us @ c # as) @ n # p" by (simp add: xs 1)
    moreover have "n \<notin> set (us @ c # as)" using assms(1) by (auto simp: xs 1)
    ultimately show ?thesis using turn_order_split[of n "us @ c # as" p] 1 by simp
  next
    case 2
    have "xs = p @ n # bs @ c # vs" by (simp add: xs 2)
    moreover have "n \<notin> set p" using assms(1) by (auto simp: xs 2)
    ultimately show ?thesis using turn_order_split[of n p "bs @ c # vs"] 2 by simp
  qed
qed

lemma turn_order_filter:
  "P c \<Longrightarrow> distinct xs \<Longrightarrow> c \<in> set xs \<Longrightarrow> turn_order c (filter P xs) = filter P (turn_order c xs)"
proof -
  assume a: "P c" "distinct xs" "c \<in> set xs"
  obtain us vs where xs: "xs = us @ c # vs" using a(3) by (meson split_list)
  then have "c \<notin> set us" using a(2) by simp
  then show ?thesis using a(1) by (simp add: xs turn_order_split)
qed

lemma set_turn_order: "distinct xs \<Longrightarrow> c \<in> set xs \<Longrightarrow> set (turn_order c xs) = set xs - {c}"
proof -
  assume a: "distinct xs" "c \<in> set xs"
  obtain us vs where xs: "xs = us @ c # vs" using a(2) by (meson split_list)
  then show ?thesis using a(1) by (auto simp: turn_order_split)
qed

section \<open>Finding the next ready task\<close>

lemma tasks_ok_member:
  assumes "tasks_ok s U xs" "a \<in> set xs"
  shows "tasks s a \<noteq> None" "a \<noteq> 0"
proof -
  have "task_mem s U a" "heap_ok s U" using assms by (simp_all add: tasks_ok_def)
  then obtain c where "U a = Some c" "heap_ok s U" "tasks s a \<noteq> None" by (auto simp: task_mem_def core_None)
  then show "tasks s a \<noteq> None" "a \<noteq> 0" using live_aligned(2) by blast+
qed

lemma chain_links:
  "chain nx p xs \<Longrightarrow> successively (\<lambda>a b. nx a = Some b) xs \<and> (xs \<noteq> [] \<longrightarrow> p = Some (hd xs) \<and> nx (last xs) = None)"
proof (induction xs arbitrary: p)
  case Nil
  then show ?case by simp
next
  case (Cons x xs)
  then show ?case using Cons.IH[of "nx x"] by (cases xs) auto
qed

definition succ_of :: "'a tasking_scheme \<Rightarrow> u32 \<Rightarrow> u32" where
  "succ_of s a = (case tasks s a of None \<Rightarrow> 0 | Some t \<Rightarrow> succ_task s t)"

lemma find_ready_ring:
  assumes "ws \<noteq> []" "successively (\<lambda>a b. succ_of s a = b) ws" "last ws = current_task s"
    "\<And>a. a \<in> set ws \<Longrightarrow> a \<noteq> 0 \<and> tasks s a \<noteq> None"
  shows "find_ready (hd ws) s = find (\<lambda>a. a = current_task s \<or> state_of s a = Some TASK_READY) ws"
  using assms
proof (induction ws)
  case Nil
  then show ?case by simp
next
  case (Cons w ws)
  obtain t where t: "tasks s w = Some t" "w \<noteq> 0" using Cons.prems(4)[of w] by auto
  show ?case
  proof (cases "w = current_task s \<or> t_state t = TASK_READY")
    case True
    then show ?thesis using t by (subst find_ready.simps) (auto simp: state_of_def)
  next
    case False
    then have ws: "ws \<noteq> []" using Cons.prems(3) by auto
    then have "succ_task s t = hd ws" using Cons.prems(2) t by (cases ws) (auto simp: succ_of_def)
    then have "find_ready w s = find_ready (hd ws) s"
      using False t by (subst find_ready.simps) simp
    moreover have "successively (\<lambda>a b. succ_of s a = b) ws" using Cons.prems(2) by (cases ws) auto
    ultimately show ?thesis using Cons.IH[OF ws] Cons.prems(3,4) ws False t by (simp add: state_of_def)
  qed
qed

lemma successively_append_iff':
  "successively P (xs @ ys) \<longleftrightarrow> successively P xs \<and> successively P ys \<and> (xs \<noteq> [] \<longrightarrow> ys \<noteq> [] \<longrightarrow> P (last xs) (hd ys))"
  by (induction xs rule: induct_list012) (cases ys; auto)+

lemma find_append: "find P (ws @ ws') = (case find P ws of None \<Rightarrow> find P ws' | Some n \<Rightarrow> Some n)"
  by (induction ws) auto

lemma find_or_other: "c \<notin> set ws \<Longrightarrow> find (\<lambda>a. a = c \<or> P a) ws = find P ws"
  by (induction ws) auto

lemma find_split: "find P xs = Some x \<Longrightarrow> \<exists>as bs. xs = as @ x # bs \<and> P x \<and> (\<forall>a \<in> set as. \<not> P a)"
proof (induction xs)
  case Nil
  then show ?case by simp
next
  case (Cons y ys)
  show ?case
  proof (cases "P y")
    case True
    with Cons.prems have "y # ys = [] @ x # ys" "P x" by simp_all
    then show ?thesis by (metis empty_iff list.set(1))
  next
    case False
    with Cons obtain as bs where "ys = as @ x # bs" "P x" "\<forall>a \<in> set as. \<not> P a" by auto
    then have "y # ys = (y # as) @ x # bs" "\<forall>a \<in> set (y # as). \<not> P a" using False by simp_all
    then show ?thesis using \<open>P x\<close> by blast
  qed
qed

lemma find_ready_schedule:
  assumes ok: "tasks_ok s U xs" and t: "tasks s (current_task s) = Some t"
  shows "find_ready (succ_task s t) s =
    (case find (\<lambda>a. state_of s a = Some TASK_READY) (turn_order (current_task s) xs) of
       None \<Rightarrow> Some (current_task s) | Some n \<Rightarrow> Some n)"
proof -
  let ?c = "current_task s"
  have ch: "chain (next_of s) (ptr_of (task_queue s)) xs" and c: "?c \<in> set xs" and dist: "distinct xs"
    using ok by (simp_all add: tasks_ok_def)
  have mem: "tasks s a \<noteq> None \<and> a \<noteq> 0" if "a \<in> set xs" for a using tasks_ok_member[OF ok that] by blast
  obtain us vs where xs: "xs = us @ ?c # vs" using c by (meson split_list)
  have cus: "?c \<notin> set us" "?c \<notin> set vs" using dist by (auto simp: xs)
  note links = chain_links[OF ch]
  have q: "task_queue s = hd xs" using links xs by (auto simp: ptr_of_def split: if_splits)
  have succ: "succ_of s a = b" if "a \<in> set xs" "next_of s a = Some b" for a b
    using that mem[of a] by (auto simp: succ_of_def next_of_def succ_task_def split: option.splits)
  have ne: "xs \<noteq> []" using c by auto
  have wrap: "succ_of s (last xs) = hd xs"
  proof -
    obtain t' where "tasks s (last xs) = Some t'" using mem[of "last xs"] ne by auto
    moreover have "next_of s (last xs) = None" using links ne by blast
    ultimately show ?thesis using q by (simp add: succ_of_def next_of_def succ_task_def)
  qed
  have s1: "successively (\<lambda>a b. succ_of s a = b) xs"
  proof -
    have "successively (\<lambda>a b. succ_of s a = b) ys" if "successively (\<lambda>a b. next_of s a = Some b) ys" "set ys \<subseteq> set xs" for ys
      using that by (induction ys rule: induct_list012) (auto intro: succ)
    then show ?thesis using links by blast
  qed
  let ?ws = "vs @ us @ [?c]"
  let ?P = "\<lambda>a b. succ_of s a = b"
  have parts: "successively ?P us" "successively ?P vs" "us \<noteq> [] \<Longrightarrow> succ_of s (last us) = ?c" "vs \<noteq> [] \<Longrightarrow> succ_of s ?c = hd vs"
    using s1 unfolding xs successively_append_iff' by (auto simp: successively_Cons)
  have hd: "hd xs = hd (us @ [?c])" by (cases us) (simp_all add: xs)
  have last: "last xs = (if vs = [] then ?c else last vs)" by (simp add: xs)
  have "successively ?P (us @ [?c])" using parts by (simp add: successively_append_iff')
  moreover have "vs \<noteq> [] \<Longrightarrow> succ_of s (last vs) = hd (us @ [?c])" using wrap hd last by simp
  ultimately have ring: "successively ?P ?ws" using parts(2) by (simp only: successively_append_iff') simp
  have head: "succ_of s ?c = hd ?ws"
  proof (cases "vs = []")
    case True
    then show ?thesis using wrap hd last by simp
  next
    case False
    then show ?thesis using parts(4) by simp
  qed
  have "find_ready (hd ?ws) s = find (\<lambda>a. a = ?c \<or> state_of s a = Some TASK_READY) ?ws"
    by (rule find_ready_ring[OF _ ring]) (use mem in \<open>auto simp: xs\<close>)
  moreover have "succ_task s t = hd ?ws" using head t by (simp add: succ_of_def)
  ultimately show ?thesis using cus turn_order_split[OF cus(1), of vs]
    by (simp add: xs find_append find_or_other split: option.splits)
qed

section \<open>Scheduling\<close>

text \<open>
  Where \<open>task_switch\<close> and its caller push: the stack the current task owns, or a stack outside the
  heap (the boot stack).
\<close>

definition stack_room :: "'a tasking_scheme \<Rightarrow> (u32 \<Rightarrow> nat option) \<Rightarrow> bool" where
  "stack_room s U \<longleftrightarrow> (let area = payload (r_esp (cpu s) - 44) 44; p = stack_of s (current_task s)
     in (\<exists>d. p \<noteq> 0 \<and> U p = Some d \<and> area \<subseteq> payload p d) \<or> (\<forall>x \<in> area. \<not> in_region x))"

lemma room_write:
  assumes ok: "heap_ok s U" and room: "stack_room s U" and m: "\<And>x. x \<notin> payload (r_esp (cpu s) - 44) 44 \<Longrightarrow> m x = hmem s x"
  shows "heap_ok (s\<lparr>hmem := m\<rparr>) U"
  using room unfolding stack_room_def Let_def
proof
  assume "\<exists>d. stack_of s (current_task s) \<noteq> 0 \<and> U (stack_of s (current_task s)) = Some d \<and>
    payload (r_esp (cpu s) - 44) 44 \<subseteq> payload (stack_of s (current_task s)) d"
  then obtain d where d: "U (stack_of s (current_task s)) = Some d"
    "payload (r_esp (cpu s) - 44) 44 \<subseteq> payload (stack_of s (current_task s)) d" by blast
  show ?thesis by (rule owner_write[OF ok d(1)]) (use d(2) m in blast)
next
  assume "\<forall>x \<in> payload (r_esp (cpu s) - 44) 44. \<not> in_region x"
  then show ?thesis by (intro outside_write[OF ok]) (use m in blast)
qed

lemma tasks_ok_transfer:
  assumes ok: "tasks_ok s U xs" and same: "next_of s' = next_of s" "stack_of s' = stack_of s"
    "\<And>a. tasks s a \<noteq> None \<Longrightarrow> tasks s' a \<noteq> None"
    and new: "task_queue s' = task_queue s" "current_task s' \<in> set xs" "heap_ok s' U"
  shows "tasks_ok s' U xs"
proof -
  have "stacks s' xs = stacks s xs" by (simp add: stacks_def same(2))
  moreover have "task_mem s' U a" if "task_mem s U a" for a
    using that same(3)[of a] by (auto simp: task_mem_def core_None same(2))
  ultimately show ?thesis using ok new by (simp add: tasks_ok_def same(1))
qed

text \<open>The switch of \<open>schedule\<close> from \<open>c\<close> to a ready task.\<close>

lemma schedule_switch:
  assumes ok: "tasks_ok s U xs" and n: "n \<in> set xs" "n \<noteq> current_task s" and t: "tasks s (current_task s) = Some t"
    and al: "word_aligned (r_esp (cpu s))" and room: "stack_room s U"
  defines "s3 \<equiv> (if t_state t = TASK_RUNNING then upd_task (current_task s) (\<lambda>t. t\<lparr>t_state := TASK_READY\<rparr>) else id)
    (upd_task n (\<lambda>t. t\<lparr>t_state := TASK_RUNNING\<rparr>) s)"
  obtains s' where "switch_to resume n s3 = Some s'" "tasks_ok s' U xs" "current_task s' = n"
    "state_of s' = (state_of s)(n \<mapsto> TASK_RUNNING, current_task s \<mapsto> (if t_state t = TASK_RUNNING then TASK_READY else t_state t))"
proof -
  let ?c = "current_task s"
  obtain tn where tn: "tasks s n = Some tn" using tasks_ok_member(1)[OF ok n(1)] by auto
  define tc where "tc = (if t_state t = TASK_RUNNING then t\<lparr>t_state := TASK_READY\<rparr> else t)"
  have s3: "s3 = s\<lparr>tasks := (tasks s)(n \<mapsto> tn\<lparr>t_state := TASK_RUNNING\<rparr>, ?c \<mapsto> tc)\<rparr>"
    using t tn n(2) by (auto simp: s3_def tc_def upd_task_def fun_eq_iff)
  have al3: "word_aligned (r_esp (cpu s3))" and c3: "tasks s3 (current_task s3) = Some tc"
    and n3: "tasks s3 n = Some (tn\<lparr>t_state := TASK_RUNNING\<rparr>)" "n \<noteq> current_task s3"
    using al n(2) by (simp_all add: s3)
  have heap: "heap_ok (s\<lparr>hmem := switched_mem resume n s3\<rparr>) U"
    by (rule room_write[OF _ room]) (use ok switched_mem_outside[of _ s3] in \<open>auto simp: tasks_ok_def s3\<close>)
  obtain s' where run: "switch_to resume n s3 = Some s'" and mem: "hmem s' = switched_mem resume n s3"
    and cur: "current_task s' = n" "task_queue s' = task_queue s" "free_lists s' = free_lists s"
    and ts: "tasks s' = (tasks s)(n \<mapsto> tn\<lparr>t_state := TASK_RUNNING\<rparr>, ?c \<mapsto> tc\<lparr>t_esp := r_esp (cpu s) - 44\<rparr>)"
    unfolding switch_to_run[OF al3 c3 n3] using n(2) by (auto simp: s3 upd_task_def fun_eq_iff)
  have "heap_ok s' U"
    using heap heap_ok_same[of s' "s\<lparr>hmem := switched_mem resume n s3\<rparr>" U] by (simp add: same_heap_def mem cur)
  moreover have "next_of s' = next_of s" "stack_of s' = stack_of s"
    using t tn n(2) by (auto simp: fun_eq_iff next_of_def stack_of_def ts tc_def)
  ultimately have "tasks_ok s' U xs"
    by (intro tasks_ok_transfer[OF ok]) (use n(1) in \<open>auto simp: cur ts\<close>)
  moreover have "state_of s' = (state_of s)(n \<mapsto> TASK_RUNNING, ?c \<mapsto> (if t_state t = TASK_RUNNING then TASK_READY else t_state t))"
    using n(2) by (auto simp: fun_eq_iff state_of_def ts tc_def)
  ultimately show thesis using run cur(1) by (intro that)
qed

text \<open>What the properties say about one call of \<open>schedule\<close>.\<close>

definition alive :: "'a tasking_scheme \<Rightarrow> u32 list \<Rightarrow> u32 list" where
  "alive s = filter (\<lambda>a. \<not> dead s a)"

definition freed :: "'a tasking_scheme \<Rightarrow> u32 list \<Rightarrow> u32 set" where
  "freed s xs = gone s (filter (dead s) xs)"

definition next_runner :: "'a tasking_scheme \<Rightarrow> u32 list \<Rightarrow> u32 option" where
  "next_runner s xs = find (\<lambda>a. state_of s a = Some TASK_READY) (turn_order (current_task s) xs)"

lemma alive_states:
  "a \<in> set (alive s xs) \<Longrightarrow> core s1 a = core s a \<Longrightarrow> state_of s1 a = state_of s a"
  by (simp add: core_state)

lemma current_alive: "tasks_ok s U xs \<Longrightarrow> current_task s \<in> set (alive s xs)"
  by (auto simp: alive_def tasks_ok_def dead_def)

lemma find_cong': "(\<And>a. a \<in> set xs \<Longrightarrow> P a = Q a) \<Longrightarrow> find P xs = find Q xs"
  by (induction xs) auto

lemma schedule_run:
  assumes ok: "tasks_ok s U xs" and al: "word_aligned (r_esp (cpu s))" and room: "stack_room s U"
  obtains s' where "schedule resume s = Some s'" "tasks_ok s' (U |` (- freed s xs)) (alive s xs)"
    "case next_runner s (alive s xs) of
       None \<Rightarrow> current_task s' = current_task s \<and> cpu s' = cpu s \<and> (\<forall>a \<in> set (alive s xs). state_of s' a = state_of s a)
     | Some n \<Rightarrow> current_task s' = n \<and> n \<in> set (alive s xs) \<and> n \<noteq> current_task s \<and> state_of s n = Some TASK_READY \<and>
         (\<forall>a \<in> set (alive s xs). state_of s' a = (if a = n then Some TASK_RUNNING
            else if a = current_task s \<and> state_of s a = Some TASK_RUNNING then Some TASK_READY else state_of s a))"
proof -
  let ?c = "current_task s" and ?live = "alive s xs" and ?U = "U |` (- freed s xs)"
  obtain s1 where s1: "task_reap_terminated s = Some s1" "tasks_ok s1 ?U ?live" "current_task s1 = ?c" "cpu s1 = cpu s"
    "\<And>a. a \<notin> set (filter (dead s) xs) \<Longrightarrow> core s1 a = core s a"
    using reap_all[of s U "[]" xs] ok by (auto simp: queue_cell_def task_reap_terminated_def alive_def freed_def)
  have st1: "core s1 a = core s a" "state_of s1 a = state_of s a" if "a \<in> set ?live" for a
    using that s1(5)[of a] by (auto simp: alive_def core_state)
  note c = current_alive[OF ok]
  have c0: "?c \<noteq> 0" using tasks_ok_member(2)[OF s1(2) c] .
  obtain t where t: "tasks s1 (current_task s1) = Some t" using tasks_ok_member(1)[OF s1(2) c] by (auto simp: s1(3))
  have dist: "distinct ?live" using tasks_ok_distinct[OF s1(2)] .
  have "next_runner s ?live = find (\<lambda>a. state_of s1 a = Some TASK_READY) (turn_order ?c ?live)"
    unfolding next_runner_def by (rule find_cong') (use set_turn_order[OF dist c] st1(2) in auto)
  then have found: "find_ready (succ_task s1 t) s1 = (case next_runner s ?live of None \<Rightarrow> Some ?c | Some n \<Rightarrow> Some n)"
    using find_ready_schedule[OF s1(2) t] unfolding s1(3) by simp
  show thesis
  proof (cases "next_runner s ?live")
    case None
    have "schedule resume s = Some s1"
      using c0 s1(1,3) t found None by (simp add: schedule_def)
    then show thesis using s1 st1 None by (intro that[of s1]) auto
  next
    case (Some n)
    then have n: "n \<in> set ?live" "n \<noteq> ?c" "state_of s n = Some TASK_READY"
    proof -
      obtain as bs where "turn_order ?c ?live = as @ n # bs" "state_of s n = Some TASK_READY"
        using find_split[OF Some[unfolded next_runner_def]] by blast
      moreover from this have "n \<in> set ?live - {?c}" using set_turn_order[OF dist c] by auto
      ultimately show "n \<in> set ?live" "n \<noteq> ?c" "state_of s n = Some TASK_READY" by simp_all
    qed
    obtain tn where tn: "tasks s1 n = Some tn" "t_state tn = TASK_READY"
      using n(3) st1(2)[OF n(1)] by (auto simp: state_of_def)
    have room1: "stack_room s1 ?U"
    proof -
      have "task_mem s1 ?U ?c" using s1(2) c by (simp add: tasks_ok_def)
      moreover have "stack_of s1 ?c = stack_of s ?c" using st1(1)[OF c] by (simp add: core_stack)
      ultimately show ?thesis using room
        by (auto simp: stack_room_def Let_def s1(3,4) task_mem_def restrict_map_def split: if_splits)
    qed
    have al1: "word_aligned (r_esp (cpu s1))" using al by (simp add: s1(4))
    obtain s' where s': "switch_to resume n ((if t_state t = TASK_RUNNING then upd_task (current_task s1) (\<lambda>t. t\<lparr>t_state := TASK_READY\<rparr>) else id)
        (upd_task n (\<lambda>t. t\<lparr>t_state := TASK_RUNNING\<rparr>) s1)) = Some s'" "tasks_ok s' ?U ?live" "current_task s' = n"
      "state_of s' = (state_of s1)(n \<mapsto> TASK_RUNNING, current_task s1 \<mapsto> (if t_state t = TASK_RUNNING then TASK_READY else t_state t))"
      by (rule schedule_switch[OF s1(2) n(1) _ t al1 room1]) (use n(2) in \<open>auto simp: s1(3)\<close>)
    have "schedule resume s = Some s'"
      using c0 s1(1,3) t found Some n(1,2) tn tasks_ok_member(2)[OF s1(2) n(1)] s'(1)
      by (cases "t_state t = TASK_RUNNING") (simp_all add: schedule_def Let_def)
    moreover have "state_of s1 ?c = Some (t_state t)" using t by (simp add: state_of_def s1(3))
    ultimately show thesis
      using s' Some n st1(2) c by (intro that[of s']) (auto simp: s1(3))
  qed
qed

section \<open>Turns\<close>

text \<open>
  Between two calls of \<open>schedule\<close> the current task computes: it may change memory and registers, as
  long as it leaves the task objects alone, keeps the heap sound and has room on its stack.
\<close>

definition computes :: "'a tasking_scheme \<Rightarrow> 'a tasking_scheme \<Rightarrow> (u32 \<Rightarrow> nat option) \<Rightarrow> bool" where
  "computes s s' U \<longleftrightarrow> tasks s' = tasks s \<and> task_queue s' = task_queue s \<and> current_task s' = current_task s \<and>
     heap_ok s' U \<and> word_aligned (r_esp (cpu s')) \<and> stack_room s' U"

inductive turn :: "u32 \<Rightarrow> u32 list \<Rightarrow> 'a tasking_scheme \<Rightarrow> u32 list \<Rightarrow> 'a tasking_scheme \<Rightarrow> bool" for resume where
  turn: "computes s s1 U \<Longrightarrow> tasks_ok s1 U xs \<Longrightarrow> schedule resume s1 = Some s2 \<Longrightarrow> turn resume xs s (alive s1 xs) s2"

inductive_cases turnE: "turn resume xs s ys s2"

lemma turn_result:
  assumes "turn resume xs s ys s2" "distinct xs" "current_task s \<in> set xs"
  shows "ys = alive s xs" "distinct ys" "current_task s2 \<in> set ys"
    "case next_runner s ys of
       None \<Rightarrow> current_task s2 = current_task s \<and> (\<forall>a \<in> set ys. state_of s2 a = state_of s a)
     | Some n \<Rightarrow> current_task s2 = n \<and> state_of s2 n = Some TASK_RUNNING \<and>
         (\<forall>a \<in> set ys. state_of s a = Some TASK_READY \<longrightarrow> a \<noteq> n \<longrightarrow> state_of s2 a = Some TASK_READY)"
proof -
  obtain s1 U where w: "computes s s1 U" "tasks_ok s1 U xs" "schedule resume s1 = Some s2" and ys: "ys = alive s1 xs"
    using assms(1) by (rule turnE) blast
  have st: "state_of s1 = state_of s" "dead s1 = dead s" "current_task s1 = current_task s"
    using w(1) by (simp_all add: computes_def fun_eq_iff state_of_def dead_def)
  then show y: "ys = alive s xs" by (simp add: ys alive_def)
  have al: "word_aligned (r_esp (cpu s1))" "stack_room s1 U" using w(1) by (simp_all add: computes_def)
  obtain s' where s': "schedule resume s1 = Some s'" "tasks_ok s' (U |` (- freed s1 xs)) (alive s1 xs)"
    "case next_runner s1 (alive s1 xs) of
       None \<Rightarrow> current_task s' = current_task s1 \<and> cpu s' = cpu s1 \<and> (\<forall>a \<in> set (alive s1 xs). state_of s' a = state_of s1 a)
     | Some n \<Rightarrow> current_task s' = n \<and> n \<in> set (alive s1 xs) \<and> n \<noteq> current_task s1 \<and> state_of s1 n = Some TASK_READY \<and>
         (\<forall>a \<in> set (alive s1 xs). state_of s' a = (if a = n then Some TASK_RUNNING
            else if a = current_task s1 \<and> state_of s1 a = Some TASK_RUNNING then Some TASK_READY else state_of s1 a))"
    by (rule schedule_run[OF w(2) al])
  then have [simp]: "s' = s2" using w(3) by simp
  show "distinct ys" "current_task s2 \<in> set ys"
    using s'(2) tasks_ok_distinct by (auto simp: ys tasks_ok_def)
  have "next_runner s1 ys = next_runner s ys" by (simp add: next_runner_def st)
  then show "case next_runner s ys of
       None \<Rightarrow> current_task s2 = current_task s \<and> (\<forall>a \<in> set ys. state_of s2 a = state_of s a)
     | Some n \<Rightarrow> current_task s2 = n \<and> state_of s2 n = Some TASK_RUNNING \<and>
         (\<forall>a \<in> set ys. state_of s a = Some TASK_READY \<longrightarrow> a \<noteq> n \<longrightarrow> state_of s2 a = Some TASK_READY)"
    using s'(3) by (cases "next_runner s ys") (auto simp: ys st)
qed

text \<open>How many tasks come before \<open>t\<close>.\<close>

definition wait_for :: "'a tasking_scheme \<Rightarrow> u32 list \<Rightarrow> u32 \<Rightarrow> nat" where
  "wait_for s xs t = length (takeWhile (\<lambda>a. a \<noteq> t) (turn_order (current_task s) xs))"

lemma takeWhile_filter_le:
  "P t \<Longrightarrow> length (takeWhile (\<lambda>a. a \<noteq> t) (filter P l)) \<le> length (takeWhile (\<lambda>a. a \<noteq> t) l)"
  by (induction l) auto

lemma turn_progress:
  assumes tn: "turn resume xs s ys s2" and xs: "distinct xs" "current_task s \<in> set xs"
    and t: "t \<in> set xs" "state_of s t = Some TASK_READY" "t \<noteq> current_task s"
  shows "t \<in> set ys \<and> (current_task s2 = t \<and> state_of s2 t = Some TASK_RUNNING \<or>
    current_task s2 \<noteq> t \<and> state_of s2 t = Some TASK_READY \<and> wait_for s2 ys t < wait_for s xs t)"
proof -
  let ?c = "current_task s"
  note r = turn_result[OF tn xs]
  have dead: "\<not> dead s t" "\<not> dead s ?c" using t(2) by (auto simp: dead_def)
  have ty: "t \<in> set ys" using t(1) dead by (simp add: r(1) alive_def)
  have cy: "?c \<in> set ys" using xs(2) dead by (simp add: r(1) alive_def)
  have order: "turn_order ?c ys = filter (\<lambda>a. \<not> dead s a) (turn_order ?c xs)"
    unfolding r(1) alive_def by (rule turn_order_filter) (use dead xs in auto)
  have "t \<in> set (turn_order ?c ys)" using set_turn_order[OF r(2) cy] ty t(3) by simp
  then obtain n where n: "next_runner s ys = Some n"
    using t(2) by (cases "next_runner s ys") (auto simp: next_runner_def find_None_iff)
  obtain as bs where sp: "turn_order ?c ys = as @ n # bs" "\<forall>a \<in> set as. state_of s a \<noteq> Some TASK_READY"
    using find_split[OF n[unfolded next_runner_def]] by blast
  show ?thesis
  proof (cases "t = n")
    case True
    then show ?thesis using r(4) n ty by simp
  next
    case False
    have "t \<notin> set as" using sp(2) t(2) by auto
    then have tb: "t \<in> set bs" using \<open>t \<in> set (turn_order ?c ys)\<close> False by (simp add: sp(1))
    have cur: "current_task s2 = n" using r(4) n by simp
    have "wait_for s2 ys t = length (takeWhile (\<lambda>a. a \<noteq> t) bs)"
      using turn_order_next[OF r(2) cy sp(1)] tb by (simp add: wait_for_def cur takeWhile_append1)
    also have "\<dots> < length (takeWhile (\<lambda>a. a \<noteq> t) (as @ n # bs))"
    proof -
      have "takeWhile (\<lambda>a. a \<noteq> t) (as @ n # bs) = as @ n # takeWhile (\<lambda>a. a \<noteq> t) bs"
        using \<open>t \<notin> set as\<close> False by (subst takeWhile_append2) auto
      then show ?thesis by simp
    qed
    also have "\<dots> \<le> wait_for s xs t"
      unfolding sp(1)[symmetric] order wait_for_def by (rule takeWhile_filter_le) (rule dead(1))
    finally show ?thesis using r(4) n ty t(2) False cur by auto
  qed
qed

lemma ready_task_reached:
  assumes "\<And>j. j < n \<Longrightarrow> turn resume (q j) (f j) (q (Suc j)) (f (Suc j))"
    and "distinct (q i)" "current_task (f i) \<in> set (q i)" "t \<in> set (q i)" "state_of (f i) t = Some TASK_READY" "t \<noteq> current_task (f i)"
      "i + wait_for (f i) (q i) t < n"
  shows "\<exists>k > i. k \<le> Suc (i + wait_for (f i) (q i) t) \<and> current_task (f k) = t \<and> state_of (f k) t = Some TASK_RUNNING"
  using assms(2-)
proof (induction "wait_for (f i) (q i) t" arbitrary: i rule: less_induct)
  case less
  have step: "turn resume (q i) (f i) (q (Suc i)) (f (Suc i))" using less.prems(6) by (intro assms(1)) simp
  note p = turn_progress[OF step less.prems(1-5)] and r = turn_result(2,3)[OF step less.prems(1,2)]
  show ?case
  proof (cases "current_task (f (Suc i)) = t")
    case True
    then show ?thesis using p by (intro exI[of _ "Suc i"]) auto
  next
    case False
    then have d: "wait_for (f (Suc i)) (q (Suc i)) t < wait_for (f i) (q i) t" "state_of (f (Suc i)) t = Some TASK_READY"
      "t \<in> set (q (Suc i))" using p by auto
    obtain k where "k > Suc i" "k \<le> Suc (Suc i + wait_for (f (Suc i)) (q (Suc i)) t)" "current_task (f k) = t"
      "state_of (f k) t = Some TASK_RUNNING"
      using less.hyps[OF d(1) r d(3,2)] False d(1) less.prems(6) by auto
    then show ?thesis using d(1) by (intro exI[of _ k]) auto
  qed
qed

lemma wait_for_less:
  assumes "distinct xs" "current_task s \<in> set xs" "t \<in> set xs" "t \<noteq> current_task s"
  shows "Suc (Suc (wait_for s xs t)) \<le> length xs"
proof -
  obtain us vs where xs: "xs = us @ current_task s # vs" using assms(2) by (meson split_list)
  have order: "turn_order (current_task s) xs = vs @ us" using assms(1) by (simp add: xs turn_order_split)
  have "t \<in> set (vs @ us)" using assms(3,4) by (auto simp: xs)
  then obtain as bs where "vs @ us = as @ t # bs" "t \<notin> set as" by (meson split_list_first)
  moreover from this have "takeWhile (\<lambda>a. a \<noteq> t) (as @ t # bs) = as" by (subst takeWhile_append2) auto
  ultimately have "wait_for s xs t = length as" "length (vs @ us) = Suc (length as + length bs)"
    by (simp_all add: wait_for_def order)
  then show ?thesis by (simp add: xs)
qed

section \<open>Starting up and creating tasks\<close>

lemma tasking_init_ok:
  assumes ok: "heap_ok s U" and r: "tasking_init s = Some (Inr s')"
  obtains p c where "current_task s' = p" "U p = None" "heap_ok s' (U(p \<mapsto> c))" "tasks_ok s' (U(p \<mapsto> c)) [p]"
    "state_of s' p = Some TASK_RUNNING" "stack_of s' p = 0" "c \<le> 78" "cpu s' = cpu s"
proof -
  have nz: "kmalloc sizeof_task s \<noteq> Some (0, s1)" for s1
    using r by (auto simp: tasking_init_def Let_def)
  obtain p s1 c where k: "kmalloc sizeof_task s = Some (p, s1)" "p \<noteq> 0" "U p = None" "24 \<le> c" "c \<le> 78" "heap_ok s1 (U(p \<mapsto> c))"
    by (rule kmalloc_cases[OF ok, of sizeof_task]) (use nz in \<open>auto simp: sizeof_task_def\<close>)
  let ?t = "zero_task\<lparr>t_state := TASK_RUNNING, t_pid := next_pid s, t_stack := 0, t_page_dir := r_cr3 (cpu s)\<rparr>"
  note f = heap_only_tasks[OF kmalloc_only[OF k(1)]]
  have s': "s' = viprint (''Tasking initialized.'' @ newline)
      (s1\<lparr>current_task := p, tasks := (tasks s1)(p \<mapsto> ?t), next_pid := next_pid s1 + 1, task_queue := p\<rparr>)"
    using r k(1,2) by (simp add: tasking_init_def Let_def f)
  have "heap_ok s' (U(p \<mapsto> c))" using k(6) heap_ok_same[of s' s1] by (simp add: s' same_heap_def con_def)
  moreover have "tasks s' p = Some ?t" "task_queue s' = p" "current_task s' = p" "cpu s' = cpu s"
    by (simp_all add: s' con_def f)
  ultimately show thesis using k(2,3,4,5)
    by (intro that[of p c])
      (auto simp: tasks_ok_def next_of_def task_mem_def core_def stack_of_def state_of_def stacks_def zero_task_def)
qed

lemma last_task_chain:
  assumes "chain (next_of s) (Some a) (us @ [l])" "\<And>b. b \<in> set (us @ [l]) \<Longrightarrow> tasks s b \<noteq> None"
  shows "last_task a s = Some l"
  using assms
proof (induction us arbitrary: a)
  case Nil
  then obtain t where "a = l" "tasks s l = Some t" "t_next t = 0" by (auto simp: next_of_def)
  then show ?case by (subst last_task.simps) simp
next
  case (Cons u us)
  obtain t where tu: "tasks s u = Some t" using Cons.prems(2)[of u] by auto
  then have t: "a = u" "tasks s u = Some t" "chain (next_of s) (ptr_of (t_next t)) (us @ [l])"
    using Cons.prems(1) next_of_def[of s u] by simp_all
  then obtain b where "t_next t = b" "b \<noteq> 0" "chain (next_of s) (Some b) (us @ [l])"
    by (cases "t_next t = 0") auto
  with Cons.IH[of b] Cons.prems(2) t show ?case by (subst last_task.simps) auto
qed

lemma task_create_ok:
  assumes ok: "tasks_ok s U xs" and r: "task_create entry pd s = Some (p, s')" and p: "p \<noteq> 0"
  obtains c d st where "tasks_ok s' (U(p \<mapsto> c, st \<mapsto> d)) (xs @ [p])" "p \<notin> set xs" "current_task s' = current_task s"
    "state_of s' = (state_of s)(p \<mapsto> TASK_READY)" "cpu s' = cpu s" "\<exists>t. tasks s' p = Some t \<and> t_esp t = t_stack t + 4056 \<and> t_stack t \<noteq> 0" "U p = None" "U st = None" "st \<noteq> p"
    "\<And>q e x. U q = Some e \<Longrightarrow> x \<in> payload q e \<Longrightarrow> hmem s' x = hmem s x"
proof -
  have hok: "heap_ok s U" and ch: "chain (next_of s) (ptr_of (task_queue s)) xs" and cur: "current_task s \<in> set xs"
    and dist: "distinct (xs @ stacks s xs)" and mem: "\<And>a. a \<in> set xs \<Longrightarrow> task_mem s U a"
    using ok by (simp_all add: tasks_ok_def)
  obtain t c d s4 m where link: "link_task p s4 = Some s'" and t: "U p = None" "24 \<le> c" "U (t_stack t) = None" "t_stack t \<noteq> p"
      "t_stack t \<noteq> 0" "4096 \<le> d"
      "t = \<lparr>t_esp = t_stack t + 4056, t_page_dir = pd, t_stack = t_stack t, t_state = TASK_READY, t_pid = next_pid s, t_next = 0\<rparr>"
    and s4: "tasks s4 = (tasks s)(p \<mapsto> t)" "task_queue s4 = task_queue s" "current_task s4 = current_task s" "cpu s4 = cpu s"
      "heap_ok s4 (U(p \<mapsto> c, t_stack t \<mapsto> d))" "hmem s4 = snd (store_down (t_stack t + 4096) (new_frame entry) m)"
      "\<And>q e x. U q = Some e \<Longrightarrow> x \<in> payload q e \<Longrightarrow> hmem s4 x = hmem s x"
    by (rule task_create_cases[OF hok r p]) blast
  have px: "p \<notin> set xs" using mem[of p] t(1) by (auto simp: task_mem_def)
  obtain us l where xs: "xs = us @ [l]" using cur by (cases xs rule: rev_cases) auto
  have q: "task_queue s \<noteq> 0" using ch by (auto simp: xs ptr_of_def)
  have n4: "next_of s4 = (next_of s)(p := None)"
    using arg_cong[OF t(7), of t_next] by (auto simp: next_of_def fun_eq_iff s4(1))
  have ch4: "chain (next_of s4) (Some (task_queue s4)) xs" using ch px q by (simp add: n4 path_upd s4(2))
  have "tasks s4 b \<noteq> None" if "b \<in> set xs" for b using tasks_ok_member(1)[OF ok that] by (simp add: s4(1))
  then have "last_task (task_queue s4) s4 = Some l" using ch4 last_task_chain[of s4 "task_queue s4" us l] by (simp add: xs)
  then have s': "s' = upd_task l (\<lambda>t. t\<lparr>t_next := p\<rparr>) s4" using link q by (simp add: link_task_def s4(2))
  have lp: "l \<noteq> p" "l \<in> set xs" using px by (auto simp: xs)
  obtain tl where tl: "tasks s4 l = Some tl" using tasks_ok_member(1)[OF ok lp(2)] lp(1) by (auto simp: s4(1))
  have p0: "p \<noteq> 0" by (rule p)
  have n': "next_of s' = (next_of s4)(l := Some p)"
    using tl p0 by (auto simp: s' next_of_def fun_eq_iff)
  have "next_of s4 l = None" "next_of s4 p = None"
    using chain_links[OF ch4] by (simp_all add: xs n4)
  then have n1: "next_of s' = (next_of s4)(p := next_of s4 l, l := Some p)" using n' by (simp add: fun_upd_idem)
  have q1: "ptr_of (task_queue s') = Some (task_queue s4)" using q by (simp add: s' s4(2))
  have "chain ((next_of s4)(p := next_of s4 l, l := Some p)) (Some (task_queue s4)) (us @ l # [p])"
    by (rule chain_link) (use ch4 px in \<open>simp_all add: xs\<close>)
  then have chain: "chain (next_of s') (ptr_of (task_queue s')) (xs @ [p])"
    unfolding n1 q1 by (simp add: xs)
  note fr = link_task_frame[OF link]
  have core: "core s' a = core s a" if "a \<noteq> p" for a using that by (simp add: fr(3)) (simp add: core_def s4(1))
  have stk: "stack_of s' a = (if a = p then t_stack t else stack_of s a)" for a
    using core[of a] fr(3) by (auto simp: core_stack) (simp add: core_def s4(1))
  have st: "stacks s' (xs @ [p]) = stacks s xs @ [t_stack t]"
  proof -
    have "stacks s' xs = stacks s xs" using px by (auto simp: stacks_def stk intro!: arg_cong[of _ _ "filter _"])
    then show ?thesis using t(5) by (simp add: stacks_Cons stk)
  qed
  have mem': "task_mem s' (U(p \<mapsto> c, t_stack t \<mapsto> d)) a" if a: "a \<in> set (xs @ [p])" for a
  proof (cases "a = p")
    case True
    then show ?thesis using t fr(3) by (auto simp: task_mem_def stk) (simp add: core_def s4(1))
  next
    case False
    then have "task_mem s U a" using a mem by simp
    then show ?thesis using False core[OF False] t(1,3) by (auto simp: task_mem_def stk)
  qed
  have own: "U b \<noteq> None" if "b \<in> set (xs @ stacks s xs)" for b
    using that mem by (auto simp: task_mem_def stacks_def)
  have "distinct ((xs @ [p]) @ stacks s' (xs @ [p]))"
    unfolding st using dist own[of p] own[of "t_stack t"] t(1,3,4) by auto
  then have "tasks_ok s' (U(p \<mapsto> c, t_stack t \<mapsto> d)) (xs @ [p])"
    using chain mem' cur s4(3,5) fr(1,4) by (auto simp: tasks_ok_def)
  moreover have "state_of s' = (state_of s)(p \<mapsto> TASK_READY)"
  proof
    fix a
    have "t_state t = TASK_READY" using arg_cong[OF t(7), of t_state] by simp
    then show "state_of s' a = ((state_of s)(p \<mapsto> TASK_READY)) a"
      using core[of a] fr(3) by (auto simp: core_state) (simp add: core_def s4(1))
  qed
  moreover have "\<exists>t. tasks s' p = Some t \<and> t_esp t = t_stack t + 4056 \<and> t_stack t \<noteq> 0"
  proof -
    have "core s' p = Some (t\<lparr>t_next := 0\<rparr>)" by (simp add: fr(3)) (simp add: core_def s4(1))
    then obtain t' where "tasks s' p = Some t'" "t'\<lparr>t_next := 0\<rparr> = t\<lparr>t_next := 0\<rparr>" by (auto simp: core_def)
    moreover from this have "t_esp t' = t_esp t" "t_stack t' = t_stack t"
      by (auto dest: arg_cong[of _ _ t_esp] arg_cong[of _ _ t_stack])
    ultimately show ?thesis using arg_cong[OF t(7), of t_esp] t(5) by simp
  qed
  ultimately show thesis using that px t(1,3,4) s4(3,4,7) fr(2,4,5) by simp
qed

section \<open>Two tasks on a fresh heap\<close>

lemma task_create_room:
  assumes ok: "tasks_ok s U xs" and few: "finite (dom U)" "card (dom U) < 200" and small: "\<And>q d. U q = Some d \<Longrightarrow> d \<le> 8222"
  obtains p s' where "task_create entry pd s = Some (p, s')" "p \<noteq> 0"
proof -
  have hok: "heap_ok s U" using ok by (simp add: tasks_ok_def)
  have room: "d + 16 \<le> 2 ^ 14" if "U q = Some d" for q d using small[OF that] by simp
  obtain p s1 c where k1: "kmalloc sizeof_task s = Some (p, s1)" "p \<noteq> 0" "U p = None" "24 \<le> c" "c \<le> 78" "heap_ok s1 (U(p \<mapsto> c))"
      "\<And>q d x. U q = Some d \<Longrightarrow> x \<in> payload q d \<Longrightarrow> hmem s1 x = hmem s x"
    by (rule kmalloc_room[OF hok, where n = 14 and sz = sizeof_task]) (use few room in \<open>auto simp: sizeof_task_def\<close>)
  define s2 where "s2 = s1\<lparr>tasks := (tasks s1)(p \<mapsto> zero_task)\<rparr>"
  have ok2: "heap_ok s2 (U(p \<mapsto> c))" using k1(6) by (simp add: s2_def)
  have few2: "finite (dom (U(p \<mapsto> c)))" "card (dom (U(p \<mapsto> c))) < 2 ^ (22 - 14)"
    using few card_insert_le_m1[of 201 "dom U" p] by simp_all
  have room2: "d + 16 \<le> 2 ^ 14" if "(U(p \<mapsto> c)) q = Some d" for q d
    using that room[of q d] k1(5) by (auto split: if_splits)
  obtain stack s3 d where k2: "kmalloc STACK_SIZE s2 = Some (stack, s3)" "stack \<noteq> 0" "(U(p \<mapsto> c)) stack = None" "4096 \<le> d"
      "heap_ok s3 (U(p \<mapsto> c, stack \<mapsto> d))" "\<And>q e x. (U(p \<mapsto> c)) q = Some e \<Longrightarrow> x \<in> payload q e \<Longrightarrow> hmem s3 x = hmem s2 x"
    by (rule kmalloc_room[OF ok2 _ few2 room2, where sz = STACK_SIZE]) (auto simp: STACK_SIZE_def)
  obtain s4 where s4: "task_create entry pd s = map_option (Pair p) (link_task p s4)" "tasks s4 p \<noteq> None"
    "\<And>a. a \<noteq> p \<Longrightarrow> tasks s4 a = tasks s a" "task_queue s4 = task_queue s"
    by (rule task_create_steps[OF hok k1(1-4,6) _ s2_def k2(1-5), where entry = entry and pd = pd])
      (blast intro: k1(7), blast intro: k2(6), fastforce)
  have ch: "chain (next_of s) (ptr_of (task_queue s)) xs" and cur: "current_task s \<in> set xs" using ok by (simp_all add: tasks_ok_def)
  obtain us l where xs: "xs = us @ [l]" using cur by (cases xs rule: rev_cases) auto
  have q: "task_queue s \<noteq> 0" using ch by (auto simp: xs ptr_of_def)
  have "task_mem s U a" if "a \<in> set xs" for a using ok that by (simp add: tasks_ok_def)
  then have px: "a \<noteq> p" if "a \<in> set xs" for a using that k1(3) by (fastforce simp: task_mem_def)
  have same: "tasks s4 a = tasks s a" if "a \<in> set xs" for a using s4(3)[OF px[OF that]] .
  have "chain (next_of s4) (Some (task_queue s4)) xs"
    using ch q path_cong[of xs "next_of s4" "next_of s"] same by (simp add: next_of_def s4(4))
  moreover have "tasks s4 b \<noteq> None" if "b \<in> set xs" for b using tasks_ok_member(1)[OF ok that] same[OF that] by simp
  ultimately have "last_task (task_queue s4) s4 = Some l" using last_task_chain[of s4 "task_queue s4" us l] by (simp add: xs)
  then have "link_task p s4 = Some (upd_task l (\<lambda>t. t\<lparr>t_next := p\<rparr>) s4)" using q by (simp add: link_task_def s4(4))
  then show thesis using s4(1) k1(2) that by simp
qed

definition boot_tasking :: tasking where
  "boot_tasking = demo_tasking (\<lambda>_. 0) 0x8000 0"

lemma kmalloc_init_only: "kmalloc_init h = Some h' \<Longrightarrow> heap_only h h'"
proof -
  have top: "heap_only a (b\<lparr>free_lists := f, heap_top := t\<rparr>)" if "heap_only a b" for a b :: "'a heap_scheme" and f t
    using that by (simp add: heap_only_def machine.truncate_def)
  have "heap_only h (init_free_block b n (h\<lparr>free_lists := f\<rparr>))" for b n f
    unfolding init_free_block_def Let_def by (intro top heap_only_steps) simp
  then show "kmalloc_init h = Some h' \<Longrightarrow> heap_only h h'"
    by (auto simp: kmalloc_init_def Let_def split: if_splits)
qed

definition two_tasks :: "tasking \<Rightarrow> tasking \<Rightarrow> tasking \<Rightarrow> u32 \<Rightarrow> u32 \<Rightarrow> (u32 \<Rightarrow> nat option) \<Rightarrow> bool" where
  "two_tasks h s1 s p q U \<longleftrightarrow> kmalloc_init boot_tasking = Some h \<and> tasking_init h = Some (Inr s1) \<and>
     task_create 0x5000 0x1000 s1 = Some (q, s) \<and> q \<noteq> 0 \<and> tasks_ok s U [p, q] \<and> current_task s = p \<and> current_task s1 = p \<and>
     p \<noteq> q \<and> state_of s p = Some TASK_RUNNING \<and> state_of s q = Some TASK_READY \<and> r_esp (cpu s) = 0x8000 \<and> stack_room s U \<and>
     (\<exists>V. heap_ok s1 V) \<and> (\<exists>t. tasks s q = Some t \<and> t_esp t = t_stack t + 4056 \<and> t_stack t \<noteq> 0) \<and>
     (\<forall>x \<in> payload (0x8000 - 44) 44. \<not> in_region x)"

lemma two_tasks:
  obtains h s1 s p q U where "two_tasks h s1 s p q U"
proof -
  obtain h where h: "kmalloc_init boot_tasking = Some h" "heap_ok h (\<lambda>_. None)" by (rule kmalloc_init_ok)
  have esp: "r_esp (cpu h) = 0x8000"
    using heap_only_tasks[OF kmalloc_init_only[OF h(1)]] by (simp add: boot_tasking_def demo_tasking_def)
  obtain a b c where k: "kmalloc sizeof_task h = Some (a, b)" "a \<noteq> 0"
    by (rule kmalloc_room[OF h(2), where n = 22 and sz = sizeof_task]) (auto simp: sizeof_task_def)
  then obtain s1 where s1: "tasking_init h = Some (Inr s1)" by (auto simp: tasking_init_def Let_def)
  obtain p c where i: "heap_ok s1 [p \<mapsto> c]" "tasks_ok s1 [p \<mapsto> c] [p]" "current_task s1 = p"
    "state_of s1 p = Some TASK_RUNNING" "stack_of s1 p = 0" "c \<le> 78" "cpu s1 = cpu h"
    by (rule tasking_init_ok[OF h(2) s1])
  obtain q s where q: "task_create 0x5000 0x1000 s1 = Some (q, s)" "q \<noteq> 0"
    by (rule task_create_room[OF i(2)]) (use i(6) in \<open>auto split: if_splits\<close>)
  obtain e d st where t: "tasks_ok s ([p \<mapsto> c](q \<mapsto> e, st \<mapsto> d)) ([p] @ [q])" "q \<notin> set [p]" "current_task s = current_task s1"
    "state_of s = (state_of s1)(q \<mapsto> TASK_READY)" "cpu s = cpu s1"
      "\<exists>t. tasks s q = Some t \<and> t_esp t = t_stack t + 4056 \<and> t_stack t \<noteq> 0"
    by (rule task_create_ok[OF i(2) q])
  have out: "\<not> in_region x" if "x \<in> payload (0x8000 - 44) 44" for x
    by (rule low_outside[OF _ that]) simp
  have "stack_room s ([p \<mapsto> c](q \<mapsto> e, st \<mapsto> d))"
    using out by (auto simp: stack_room_def Let_def t(5) i(7) esp)
  then show thesis using h(1) s1 q t i esp out by (intro that[of h s1 s p q]) (auto simp: two_tasks_def)
qed

section \<open>The properties\<close>

text \<open>C19: \<open>schedule\<close> is a round robin. It never fails on a sound queue: it frees exactly the terminated
  tasks and their stacks, keeps the others in order, and switches to the first ready task after the
  current one in the ring, which becomes the running one while a running caller becomes ready; with
  no other ready task it returns to the caller with nothing changed.\<close>

theorem schedule_round_robin:
  assumes ok: "tasks_ok s U xs" and al: "word_aligned (r_esp (cpu s))" and room: "stack_room s U"
  shows "\<exists>s'. schedule resume s = Some s' \<and> tasks_ok s' (U |` (- freed s xs)) (alive s xs) \<and>
    (case next_runner s (alive s xs) of
       None \<Rightarrow> current_task s' = current_task s \<and> cpu s' = cpu s \<and> (\<forall>a \<in> set (alive s xs). state_of s' a = state_of s a)
     | Some n \<Rightarrow> current_task s' = n \<and> n \<in> set (alive s xs) \<and> n \<noteq> current_task s \<and> state_of s n = Some TASK_READY \<and>
         (\<forall>a \<in> set (alive s xs). state_of s' a = (if a = n then Some TASK_RUNNING
            else if a = current_task s \<and> state_of s a = Some TASK_RUNNING then Some TASK_READY else state_of s a)))"
  by (rule schedule_run[OF ok al room, where resume = resume]) blast

theorem schedule_round_robin_witness:
  "\<exists>s0 s1 s s' :: tasking. \<exists>p q. tasking_init s0 = Some (Inr s1) \<and> task_create 0x5000 0x1000 s1 = Some (q, s) \<and>
    schedule 0x50 s = Some s' \<and> current_task s = p \<and> current_task s' = q \<and>
    p \<noteq> q \<and> state_of s' p = Some TASK_READY \<and> state_of s' q = Some TASK_RUNNING"
proof -
  obtain h s1 s p q U where "two_tasks h s1 s p q U" by (rule two_tasks)
  then have t: "tasking_init h = Some (Inr s1)" "task_create 0x5000 0x1000 s1 = Some (q, s)"
    "tasks_ok s U [p, q]" "current_task s = p" "p \<noteq> q" "state_of s p = Some TASK_RUNNING" "state_of s q = Some TASK_READY"
    "r_esp (cpu s) = 0x8000" "stack_room s U" "current_task s1 = p"
    by (simp_all add: two_tasks_def)
  have al: "word_aligned (r_esp (cpu s))" by (simp add: t)
  have live: "alive s [p, q] = [p, q]" using t by (simp add: alive_def dead_def)
  have "next_runner s [p, q] = Some q" using t by (simp add: next_runner_def turn_order_def)
  then have "\<exists>s'. schedule 0x50 s = Some s' \<and> current_task s' = q \<and> state_of s' p = Some TASK_READY \<and> state_of s' q = Some TASK_RUNNING"
    using schedule_round_robin[OF t(3) al t(9), of "0x50"] t(4-7) by (auto simp: live)
  then show ?thesis using t by blast
qed



text \<open>C22: A task made by \<open>task_create\<close> and switched to for the first time starts at its entry with an empty
  stack, but with interrupts disabled: the flags word 0x202 meant to enable them is popped into
  \<open>EAX\<close>, and the flags become zero, so a task that never yields can no longer be interrupted.\<close>

theorem new_task_masked:
  assumes ok: "heap_ok s U" and new: "task_create entry pd s = Some (p, s')" "p \<noteq> 0" "tasks s' p = Some t" "entry \<noteq> resume"
    and z: "tasks z p = Some t'" "t_esp t' = t_esp t" "word_aligned (r_esp (cpu z))" "tasks z (current_task z) = Some d"
      "current_task z \<noteq> p"
    and kept: "\<forall>x \<in> payload (t_esp t) 40. hmem z x = hmem s' x"
    and apart: "payload (r_esp (cpu z) - 44) 44 \<inter> payload (t_esp t) 40 = {}"
  shows "\<exists>z'. switch_to resume p z = Some z' \<and> current_task z' = p \<and> r_eip (cpu z') = entry \<and> r_esp (cpu z') = t_stack t + 4096 \<and>
    \<not> iflag z' \<and> r_eflags (cpu z') = 2 \<and> r_eax (cpu z') = 0x202"
proof -
  obtain t0 c d s4 m where link: "link_task p s4 = Some s'" and t0: "t_esp t0 = t_stack t0 + 4056" "tasks s4 p = Some t0"
      "t_stack t0 \<noteq> p" "heap_ok s4 (U(p \<mapsto> c, t_stack t0 \<mapsto> d))" "hmem s4 = snd (store_down (t_stack t0 + 4096) (new_frame entry) m)"
    by (rule task_create_cases[OF ok new(1,2)]) (metis fun_upd_same task.select_convs(1))
  have "core s' p = core s4 p" using link_task_frame(3)[OF link] by simp
  then have "t_stack t = t_stack t0" "t_esp t = t_esp t0" using t0(2) new(3) by (auto simp: core_def dest: arg_cong[of _ _ t_stack] arg_cong[of _ _ t_esp])
  then have st: "t_esp t = t_stack t + 4056" "hmem s' = snd (store_down (t_stack t + 4096) (new_frame entry) m)"
    "take_bit 4 (t_stack t) = 0"
    using t0 link_task_frame(2)[OF link] live_aligned(1)[OF t0(4), of "t_stack t0" d] by simp_all
  let ?e = "t_stack t + 4096" and ?M = "switched_mem resume p z"
  have al: "word_aligned ?e"
  proof -
    have "word_aligned (t_stack t)" by (rule take_bit_mono_0[OF st(3)]) simp
    then show ?thesis using word_aligned_minus[of "t_stack t" "- 1024"] by simp
  qed
  have w: "load32 ?M (t_esp t + k) = new_frame entry ! i" if "i < 10" "k = 40 - 4 * of_nat (Suc i)" "unat k + 4 \<le> 40" for k i
  proof -
    have same: "?M x = hmem s' x" if "x \<in> payload (t_esp t) 40" for x
      using that kept apart switched_mem_outside[of x z resume p] by auto
    have "load32 ?M (t_esp t + k) = load32 (hmem s') (t_esp t + k)"
      by (rule load32_payload[OF same]) (assumption, rule that(3))
    moreover have "t_esp t + k = ?e - 4 * of_nat (Suc i)" using that(2) by (simp add: st(1))
    moreover have "load32 (hmem s') (?e - 4 * of_nat (Suc i)) = new_frame entry ! i"
      unfolding st(2) by (rule store_down_load[OF al]) (use that(1) in simp_all)
    ultimately show ?thesis by (simp only:)
  qed
  have words: "load32 ?M (t_esp t) = 0" "load32 ?M (t_esp t + 32) = 0x202" "load32 ?M (t_esp t + 36) = entry"
    using w[of 9 0] w[of 1 32] w[of 0 36] by simp_all
  have ne: "p \<noteq> current_task z" using z(5) by simp
  show ?thesis
    unfolding switch_to_run[OF z(3,4,1) ne]
    using words new(4) st(1) by (simp add: z(2) resumed_def)
qed

theorem new_task_masked_witness:
  "\<exists>s0 s1 s p z' :: tasking. \<exists>q. tasking_init s0 = Some (Inr s1) \<and> task_create 0x5000 0x1000 s1 = Some (q, s) \<and> q \<noteq> 0 \<and>
    switch_to 0x50 q s = Some z' \<and> r_eip (cpu z') = 0x5000 \<and> \<not> iflag z' \<and> r_eax (cpu z') = 0x202"
proof -
  obtain h s1 s p q U where "two_tasks h s1 s p q U" by (rule two_tasks)
  then have t: "tasking_init h = Some (Inr s1)" "task_create 0x5000 0x1000 s1 = Some (q, s)" "q \<noteq> 0"
    "tasks_ok s U [p, q]" "current_task s = p" "p \<noteq> q" "r_esp (cpu s) = 0x8000" "\<exists>V. heap_ok s1 V"
    "\<exists>t. tasks s q = Some t \<and> t_esp t = t_stack t + 4056 \<and> t_stack t \<noteq> 0" "\<forall>x \<in> payload (0x8000 - 44) 44. \<not> in_region x"
    by (simp_all add: two_tasks_def)
  then obtain t where tq: "tasks s q = Some t" "t_esp t = t_stack t + 4056" "t_stack t \<noteq> 0" by blast
  have mem: "task_mem s U q" and ok: "heap_ok s U" using t(4) by (simp_all add: tasks_ok_def)
  have st: "stack_of s q = t_stack t" using tq(1) by (simp add: stack_of_def)
  then obtain d where d: "4096 \<le> d" "U (t_stack t) = Some d" using mem tq(3) by (auto simp: task_mem_def)
  have "payload (t_esp t) 40 \<subseteq> payload (t_stack t) d"
    unfolding tq(2) by (rule frame_in_stack[OF d(1)]) (use live_aligned(4)[OF ok d(2)] in simp)
  then have apart: "payload (r_esp (cpu s) - 44) 44 \<inter> payload (t_esp t) 40 = {}"
    using live_in_region(1)[OF ok d(2)] t(10) unfolding t(7) by blast
  obtain V where V: "heap_ok s1 V" using t(8) by blast
  obtain b where b: "tasks s (current_task s) = Some b" using tasks_ok_member(1)[OF t(4), of p] t(5) by auto
  have al: "word_aligned (r_esp (cpu s))" "(0x5000 :: u32) \<noteq> 0x50" "current_task s \<noteq> q" using t by simp_all
  from new_task_masked[OF V t(2,3) tq(1) al(2) tq(1) refl al(1) b al(3) _ apart] t(1-3)
  show ?thesis by blast
qed

end
