(* ===== verification/Ramfs.thy ===== *)
theory Ramfs
  imports Heap_Client CString
begin

text \<open>
  The RAM file system, \<open>fs/ramfs.c\<close>. Nodes and open files are typed objects at the addresses \<open>kmalloc\<close>
  returned; \<open>vnodes\<close> and \<open>vfiles\<close> hold those that have not been freed, so that a dangling or null
  pointer is \<open>None\<close>, and so is the endless halt of \<open>kfree\<close>. The contents of a file are bytes in the
  memory of the heap. A C string is its characters before the terminator, so \<open>strcmp\<close> is equality
  and \<open>strncpy\<close> keeps the first 255 characters. The lock macros are empty in this build (\<open>SMP\<close> is
  not defined anywhere).
\<close>

section \<open>Data\<close>

datatype vfs_fn = Null_fn | Default_read | Default_write | Default_finddir

record vfs_node =
  n_name :: string
  n_type :: u32
  n_size :: u32
  n_data :: u32
  n_parent :: u32
  n_children :: u32
  n_next :: u32
  n_read :: vfs_fn
  n_write :: vfs_fn
  n_finddir :: vfs_fn

record vfs_file =
  f_node :: u32
  f_flags :: u32
  f_position :: u32

record ramfs = heap +
  vnodes :: "u32 \<Rightarrow> vfs_node option"
  vfiles :: "u32 \<Rightarrow> vfs_file option"
  ramfs_root :: u32
  ramfs_cwd :: u32

definition FS_FILE :: u32 where "FS_FILE = 1"
definition FS_DIRECTORY :: u32 where "FS_DIRECTORY = 2"
definition O_READ :: u32 where "O_READ = 1"
definition O_WRITE :: u32 where "O_WRITE = 2"
definition O_APPEND :: u32 where "O_APPEND = 4"
abbreviation VFS_NAME_MAX :: nat where "VFS_NAME_MAX \<equiv> 255"

definition sizeof_vfs_node :: u32 where "sizeof_vfs_node = 292"
definition sizeof_vfs_file :: u32 where "sizeof_vfs_file = 12"

definition upd_node :: "u32 \<Rightarrow> (vfs_node \<Rightarrow> vfs_node) \<Rightarrow> 'a ramfs_scheme \<Rightarrow> 'a ramfs_scheme" where
  "upd_node a f s = s\<lparr>vnodes := (vnodes s)(a := map_option f (vnodes s a))\<rparr>"

definition is_file :: "vfs_node \<Rightarrow> bool" where "is_file n \<longleftrightarrow> n_type n AND FS_FILE \<noteq> 0"
definition is_directory :: "vfs_node \<Rightarrow> bool" where "is_directory n \<longleftrightarrow> n_type n AND FS_DIRECTORY \<noteq> 0"

section \<open>Nodes\<close>

definition new_node :: "string \<Rightarrow> u32 \<Rightarrow> vfs_node" where
  "new_node name ty = \<lparr>n_name = take VFS_NAME_MAX name, n_type = ty, n_size = 0, n_data = 0, n_parent = 0,
     n_children = 0, n_next = 0, n_read = Default_read, n_write = Default_write, n_finddir = Default_finddir\<rparr>"

definition create_vfs_node :: "string \<Rightarrow> u32 \<Rightarrow> 'a ramfs_scheme \<Rightarrow> (u32 \<times> 'a ramfs_scheme) option" where
  "create_vfs_node name ty s =
     Option.bind (kmalloc sizeof_vfs_node s) (\<lambda>(p, s).
       if p = 0 then Some (0, s) else Some (p, s\<lparr>vnodes := (vnodes s)(p \<mapsto> new_node name ty)\<rparr>))"

text \<open>The digits of a number, as \<open>int_to_str\<close> leaves them in the buffer, without a terminator.\<close>

fun int_digits :: "nat \<Rightarrow> string" where
  "int_digits v = (if v = 0 then [] else int_digits (v div 10) @ [char_of (48 + v mod 10)])"

declare int_digits.simps [simp del]

definition int_to_str :: "int \<Rightarrow> nat \<times> string" where
  "int_to_str v = (let t = (if v = 0 then ''0'' else int_digits (nat v)) in (length t, t))"

section \<open>The operations of a node\<close>

definition default_read :: "u32 \<Rightarrow> u32 \<Rightarrow> u32 \<Rightarrow> u32 \<Rightarrow> 'a ramfs_scheme \<Rightarrow> (int \<times> 'a ramfs_scheme) option" where
  "default_read node offset sz buffer s =
     (if node = 0 then Some (- 1, s)
      else Option.bind (vnodes s node) (\<lambda>n.
        if \<not> is_file n then Some (- 1, s)
        else if n_size n \<le> offset then Some (0, s)
        else
          let sz = (if n_size n < offset + sz then n_size n - offset else sz)
          in if sz = 0 then Some (0, s)
             else Some (sint sz, s\<lparr>hmem := snd (memcpy buffer (n_data n + offset) sz (hmem s))\<rparr>)))"

text \<open>A larger file moves to a new, zero-filled buffer first.\<close>

definition grow_data :: "u32 \<Rightarrow> u32 \<Rightarrow> 'a ramfs_scheme \<Rightarrow> (bool \<times> 'a ramfs_scheme) option" where
  "grow_data node new_size s =
     Option.bind (vnodes s node) (\<lambda>n.
     Option.bind (kmalloc new_size s) (\<lambda>(p, s).
       if p = 0 then Some (False, s)
       else
         Option.bind
           (if n_data n \<noteq> 0 then kfree (n_data n) (s\<lparr>hmem := snd (memcpy p (n_data n) (n_size n) (hmem s))\<rparr>)
            else Some s)
           (\<lambda>s. let s = s\<lparr>hmem := snd (memset (p + n_size n) 0 (new_size - n_size n) (hmem s))\<rparr>
                in Some (True, upd_node node (\<lambda>n. n\<lparr>n_data := p, n_size := new_size\<rparr>) s))))"

definition default_write :: "u32 \<Rightarrow> u32 \<Rightarrow> u32 \<Rightarrow> u32 \<Rightarrow> 'a ramfs_scheme \<Rightarrow> (int \<times> 'a ramfs_scheme) option" where
  "default_write node offset sz buffer s =
     (if node = 0 then Some (- 1, s)
      else Option.bind (vnodes s node) (\<lambda>n.
        if \<not> is_file n then Some (- 1, s)
        else
          let new_size = offset + sz
          in Option.bind (if n_size n < new_size then grow_data node new_size s else Some (True, s)) (\<lambda>(ok, s).
               if \<not> ok then Some (- 1, s)
               else Option.bind (vnodes s node) (\<lambda>n.
                 Some (sint sz, s\<lparr>hmem := snd (memcpy (n_data n + offset) buffer sz (hmem s))\<rparr>)))))"

partial_function (option) find_child :: "u32 \<Rightarrow> string \<Rightarrow> 'a ramfs_scheme \<Rightarrow> u32 option" where
  "find_child c name s =
     (if c = 0 then Some 0
      else Option.bind (vnodes s c) (\<lambda>n. if n_name n = name then Some c else find_child (n_next n) name s))"

declare find_child.simps [code]

definition default_finddir :: "u32 \<Rightarrow> string \<Rightarrow> 'a ramfs_scheme \<Rightarrow> u32 option" where
  "default_finddir node name s =
     (if node = 0 then Some 0
      else Option.bind (vnodes s node) (\<lambda>n. if \<not> is_directory n then Some 0 else find_child (n_children n) name s))"

text \<open>Calls through the function pointers of a node.\<close>

definition call_read :: "u32 \<Rightarrow> u32 \<Rightarrow> u32 \<Rightarrow> u32 \<Rightarrow> 'a ramfs_scheme \<Rightarrow> (int \<times> 'a ramfs_scheme) option" where
  "call_read node offset sz buffer s = Option.bind (vnodes s node) (\<lambda>n.
     if n_read n = Default_read then default_read node offset sz buffer s else None)"

definition call_write :: "u32 \<Rightarrow> u32 \<Rightarrow> u32 \<Rightarrow> u32 \<Rightarrow> 'a ramfs_scheme \<Rightarrow> (int \<times> 'a ramfs_scheme) option" where
  "call_write node offset sz buffer s = Option.bind (vnodes s node) (\<lambda>n.
     if n_write n = Default_write then default_write node offset sz buffer s else None)"

definition call_finddir :: "u32 \<Rightarrow> string \<Rightarrow> 'a ramfs_scheme \<Rightarrow> u32 option" where
  "call_finddir node name s = Option.bind (vnodes s node) (\<lambda>n.
     if n_finddir n = Default_finddir then default_finddir node name s else None)"

section \<open>Linking and unlinking\<close>

definition add_child :: "u32 \<Rightarrow> u32 \<Rightarrow> 'a ramfs_scheme \<Rightarrow> 'a ramfs_scheme option" where
  "add_child parent child s =
     Option.bind (vnodes (upd_node child (\<lambda>c. c\<lparr>n_parent := parent\<rparr>) s) parent) (\<lambda>n.
       let s = upd_node child (\<lambda>c. c\<lparr>n_parent := parent, n_next := n_children n\<rparr>) s
       in Some (upd_node parent (\<lambda>n. n\<lparr>n_children := child\<rparr>) s))"

partial_function (option) remove_loop :: "u32 \<Rightarrow> u32 \<Rightarrow> u32 \<Rightarrow> u32 \<Rightarrow> 'a ramfs_scheme \<Rightarrow> 'a ramfs_scheme option" where
  "remove_loop parent child prev cur s =
     (if cur = 0 then Some s
      else Option.bind (vnodes s cur) (\<lambda>n.
        if cur = child then
          (let s = (if prev \<noteq> 0 then upd_node prev (\<lambda>q. q\<lparr>n_next := n_next n\<rparr>) s
                    else upd_node parent (\<lambda>q. q\<lparr>n_children := n_next n\<rparr>) s)
           in Some (upd_node child (\<lambda>c. c\<lparr>n_parent := 0, n_next := 0\<rparr>) s))
        else remove_loop parent child cur (n_next n) s))"

declare remove_loop.simps [code]

definition remove_child :: "u32 \<Rightarrow> 'a ramfs_scheme \<Rightarrow> 'a ramfs_scheme option" where
  "remove_child child s =
     Option.bind (vnodes s child) (\<lambda>n.
       if n_parent n = 0 then Some s
       else Option.bind (vnodes s (n_parent n)) (\<lambda>d. remove_loop (n_parent n) child 0 (n_children d) s))"

section \<open>The file system\<close>

definition ramfs_init :: "'a ramfs_scheme \<Rightarrow> 'a ramfs_scheme option" where
  "ramfs_init s =
     (if ramfs_root s \<noteq> 0 then Some s
      else map_option (\<lambda>(p, s). viprint (''RAMFS: root node created'' @ newline) (s\<lparr>ramfs_root := p\<rparr>))
             (create_vfs_node ''/'' FS_DIRECTORY s))"

definition ramfs_get_root :: "'a ramfs_scheme \<Rightarrow> u32" where "ramfs_get_root s = ramfs_root s"

definition ramfs_find :: "u32 \<Rightarrow> string \<Rightarrow> 'a ramfs_scheme \<Rightarrow> u32 option" where
  "ramfs_find dir name s = (if dir = 0 then Some 0 else call_finddir dir name s)"

definition ramfs_create :: "u32 \<Rightarrow> string \<Rightarrow> u32 \<Rightarrow> 'a ramfs_scheme \<Rightarrow> (int \<times> 'a ramfs_scheme) option" where
  "ramfs_create parent name ty s =
     (if parent = 0 then Some (- 1, s)
      else Option.bind (vnodes s parent) (\<lambda>d.
        if \<not> is_directory d then Some (- 1, s)
        else Option.bind (ramfs_find parent name s) (\<lambda>f.
          if f \<noteq> 0 then Some (- 2, s)
          else Option.bind (create_vfs_node name ty s) (\<lambda>(p, s).
            if p = 0 then Some (- 3, s) else map_option (Pair 0) (add_child parent p s)))))"

definition free_node :: "u32 \<Rightarrow> 'a ramfs_scheme \<Rightarrow> 'a ramfs_scheme option" where
  "free_node a s = map_option (\<lambda>s. s\<lparr>vnodes := (vnodes s)(a := None)\<rparr>) (kfree a s)"

definition ramfs_delete :: "u32 \<Rightarrow> 'a ramfs_scheme \<Rightarrow> (int \<times> 'a ramfs_scheme) option" where
  "ramfs_delete node s =
     (if node = 0 \<or> node = ramfs_root s then Some (- 1, s)
      else Option.bind (vnodes s node) (\<lambda>n.
        if is_directory n \<and> n_children n \<noteq> 0 then Some (- 2, s)
        else Option.bind
          (if n_data n \<noteq> 0 then map_option (upd_node node (\<lambda>n. n\<lparr>n_data := 0\<rparr>)) (kfree (n_data n) s) else Some s) (\<lambda>s.
          Option.bind (remove_child node s) (\<lambda>s. map_option (Pair 0) (free_node node s)))))"

definition ramfs_open :: "u32 \<Rightarrow> u32 \<Rightarrow> 'a ramfs_scheme \<Rightarrow> (u32 \<times> 'a ramfs_scheme) option" where
  "ramfs_open node flags s =
     (if node = 0 then Some (0, s)
      else Option.bind (vnodes s node) (\<lambda>n.
        if \<not> is_file n then Some (0, s)
        else Option.bind (kmalloc sizeof_vfs_file s) (\<lambda>(f, s).
          if f = 0 then Some (0, s)
          else Some (f, s\<lparr>vfiles := (vfiles s)(f \<mapsto>
                 \<lparr>f_node = node, f_flags = flags, f_position = (if flags AND O_APPEND \<noteq> 0 then n_size n else 0)\<rparr>)\<rparr>))))"

definition ramfs_close :: "u32 \<Rightarrow> 'a ramfs_scheme \<Rightarrow> 'a ramfs_scheme option" where
  "ramfs_close file s =
     (if file = 0 then Some s else map_option (\<lambda>s. s\<lparr>vfiles := (vfiles s)(file := None)\<rparr>) (kfree file s))"

definition advance :: "u32 \<Rightarrow> int \<Rightarrow> 'a ramfs_scheme \<Rightarrow> 'a ramfs_scheme" where
  "advance file n s = (if 0 < n
     then s\<lparr>vfiles := (vfiles s)(file := map_option (\<lambda>f. f\<lparr>f_position := f_position f + of_int n\<rparr>) (vfiles s file))\<rparr> else s)"

definition ramfs_read :: "u32 \<Rightarrow> u32 \<Rightarrow> u32 \<Rightarrow> 'a ramfs_scheme \<Rightarrow> (int \<times> 'a ramfs_scheme) option" where
  "ramfs_read file sz buffer s =
     (if file = 0 then Some (- 1, s)
      else Option.bind (vfiles s file) (\<lambda>f.
        if f_flags f AND O_READ = 0 then Some (- 1, s)
        else map_option (\<lambda>(n, s). (n, advance file n s)) (call_read (f_node f) (f_position f) sz buffer s)))"

definition ramfs_write :: "u32 \<Rightarrow> u32 \<Rightarrow> u32 \<Rightarrow> 'a ramfs_scheme \<Rightarrow> (int \<times> 'a ramfs_scheme) option" where
  "ramfs_write file sz buffer s =
     (if file = 0 then Some (- 1, s)
      else Option.bind (vfiles s file) (\<lambda>f.
        if f_flags f AND O_WRITE = 0 then Some (- 1, s)
        else map_option (\<lambda>(n, s). (n, advance file n s)) (call_write (f_node f) (f_position f) sz buffer s)))"

section \<open>Paths\<close>

definition slash :: char where "slash = CHR ''/''"

definition skip_slashes :: "string \<Rightarrow> string" where
  "skip_slashes p = dropWhile (\<lambda>c. c = slash) p"

text \<open>
  One component. \<open>Inl\<close> is the node to go on with; \<open>Inr\<close> is a return with \<open>NULL\<close>. The length of a
  component that is too long is printed from a buffer that \<open>int_to_str\<close> does not terminate: \<open>junk\<close> is
  what follows the digits on the stack.
\<close>

definition path_step :: "string \<Rightarrow> u32 \<Rightarrow> string \<Rightarrow> 'a ramfs_scheme \<Rightarrow> ((u32 + unit) \<times> 'a ramfs_scheme) option" where
  "path_step junk cur token s =
     (if VFS_NAME_MAX < length token then
        Some (Inr (), viprint ('')'' @ newline) (viprint (snd (int_to_str (int (length token))) @ junk)
          (viprint ''vfs_resolve_path: token too long ('' s)))
      else if token = ''.'' then Some (Inl cur, s)
      else Option.bind (vnodes s cur) (\<lambda>n.
        if token = ''..'' then
          (if n_parent n \<noteq> 0 then
             Option.bind (vnodes s (n_parent n)) (\<lambda>p.
               Some (Inl (n_parent n), viprint ([CHR 0x27] @ newline) (viprint (n_name p)
                 (viprint (''vfs_resolve_path: .. -> '' @ [CHR 0x27]) s))))
           else Some (Inl cur, viprint (''vfs_resolve_path: .. but no parent, stay at root'' @ newline) s))
        else if n_finddir n \<noteq> Null_fn then
          Option.bind (call_finddir cur token s) (\<lambda>c. Some (if c = 0 then Inr () else Inl c, s))
        else Some (Inr (), viprint (''vfs_resolve_path: current node has no finddir'' @ newline) s)))"

function path_walk :: "string \<Rightarrow> u32 \<Rightarrow> string \<Rightarrow> 'a ramfs_scheme \<Rightarrow> (u32 \<times> 'a ramfs_scheme) option" where
  "path_walk junk cur p s =
     (if p = [] then Some (cur, s)
      else
        let token = takeWhile (\<lambda>c. c \<noteq> slash) p; rest = dropWhile (\<lambda>c. c \<noteq> slash) p
        in if token = [] then path_walk junk cur (tl rest) s
           else case path_step junk cur token s of
             None \<Rightarrow> None
           | Some (Inr _, s) \<Rightarrow> Some (0, s)
           | Some (Inl cur, s) \<Rightarrow> path_walk junk cur (skip_slashes rest) s)"
  by pat_completeness auto
termination
proof (relation "measure (\<lambda>(_, _, p, _). length p)", goal_cases)
  case (2 junk cur p s token rest)
  then have "rest = p" by (metis append_Nil takeWhile_dropWhile_id)
  then show ?case using 2(1) by simp
next
  case (3 junk cur p s token rest)
  have "length rest + length token = length p" unfolding 3(2,3) by (metis add.commute length_append takeWhile_dropWhile_id)
  moreover have "length (skip_slashes rest) \<le> length rest" by (simp add: skip_slashes_def length_dropWhile_le)
  ultimately show ?case using 3(4) by (cases token) simp_all
qed simp

declare path_walk.simps [simp del]

definition vfs_resolve_path :: "string \<Rightarrow> u32 \<Rightarrow> string option \<Rightarrow> u32 \<Rightarrow> 'a ramfs_scheme \<Rightarrow> (u32 \<times> 'a ramfs_scheme) option" where
  "vfs_resolve_path junk root pathname cwd s =
     (if root = 0 then Some (0, viprint (''vfs_resolve_path: root is NULL'' @ newline) s)
      else case pathname of
        None \<Rightarrow> Some (0, viprint (''vfs_resolve_path: path empty'' @ newline) s)
      | Some [] \<Rightarrow> Some (0, viprint (''vfs_resolve_path: path empty'' @ newline) s)
      | Some (c # cs) \<Rightarrow>
          let current = (if c = slash then root else if cwd \<noteq> 0 then cwd else root);
              p = skip_slashes (c # cs)
          in if p = [] then Some (current, viprint (''vfs_resolve_path: path is root only'' @ newline) s)
             else path_walk junk current p s)"

definition ramfs_set_cwd :: "u32 \<Rightarrow> 'a ramfs_scheme \<Rightarrow> 'a ramfs_scheme" where
  "ramfs_set_cwd dir s = s\<lparr>ramfs_cwd := dir\<rparr>"

definition ramfs_resolve :: "string \<Rightarrow> string option \<Rightarrow> 'a ramfs_scheme \<Rightarrow> (u32 \<times> 'a ramfs_scheme) option" where
  "ramfs_resolve junk pathname s = vfs_resolve_path junk (ramfs_get_root s) pathname (ramfs_cwd s) s"

end
