(* ===== verification/Ramfs_Data.thy ===== *)
theory Ramfs_Data
  imports Ramfs
begin

text \<open>
  The contents of files: reading and writing as operations on lists of bytes.
\<close>

section \<open>Framing\<close>

lemma heap_ok_ramfs [simp]:
  "heap_ok (s\<lparr>vnodes := ns\<rparr>) U = heap_ok s U" "heap_ok (s\<lparr>vfiles := fs\<rparr>) U = heap_ok s U"
  "heap_ok (s\<lparr>ramfs_root := r\<rparr>) U = heap_ok s U" "heap_ok (s\<lparr>ramfs_cwd := r\<rparr>) U = heap_ok s U"
  "heap_ok (upd_node a f s) U = heap_ok s U" "heap_ok (con e s) U = heap_ok (s :: 'a ramfs_scheme) U"
  by (rule heap_ok_same; simp add: same_heap_def upd_node_def con_def)+

lemma heap_only_ramfs:
  assumes "heap_only s s'"
  shows "vnodes s' = vnodes s" "vfiles s' = vfiles s" "ramfs_root s' = ramfs_root s" "ramfs_cwd s' = ramfs_cwd s"
  using heap_only_more[OF assms] by (cases s; cases s'; simp)+

lemma upd_node_simps [simp]:
  "vnodes (upd_node a f s) b = (if b = a then map_option f (vnodes s a) else vnodes s b)"
  "vfiles (upd_node a f s) = vfiles s" "ramfs_root (upd_node a f s) = ramfs_root s" "ramfs_cwd (upd_node a f s) = ramfs_cwd s"
  "hmem (upd_node a f s) = hmem s" "free_lists (upd_node a f s) = free_lists s"
  by (simp_all add: upd_node_def)

lemma memcpy_effect:
  assumes apart: "payload d (unat n) \<inter> payload p (unat n) = {}"
  shows "snd (memcpy d p n m) x = (if x \<in> payload d (unat n) then m (p + (x - d)) else m x)"
proof -
  have le: "unat n \<le> 2 ^ 32" using unsigned_less[of n, where ?'a = nat] by simp
  note cells = in_payload_iff[OF le]
  have "d + of_nat k \<noteq> p + of_nat j" if "k < unat n" "j < unat n" for j k
  proof
    assume same: "d + of_nat k = p + of_nat j"
    have "d + of_nat k \<in> payload d (unat n)" unfolding cells using that(1) by blast
    moreover have "p + of_nat j \<in> payload p (unat n)" unfolding cells using that(2) by blast
    ultimately show False using apart unfolding same by blast
  qed
  then have "\<And>j k. 0 \<le> k \<Longrightarrow> k < j \<Longrightarrow> j < unat n \<Longrightarrow> d + of_nat k \<noteq> p + of_nat j" by simp
  from copy_forward_spec[OF le this, where m = m]
  have c: "\<And>j. j < unat n \<Longrightarrow> snd (memcpy d p n m) (d + of_nat j) = m (p + of_nat j)"
    "x \<notin> payload d (unat n) \<Longrightarrow> snd (memcpy d p n m) x = m x"
    by (auto simp: memcpy_def cells)
  show ?thesis
  proof (cases "x \<in> payload d (unat n)")
    case True
    then obtain j where "j < unat n" "x = d + of_nat j" using cells by blast
    then show ?thesis using c(1)[of j] True by simp
  qed (use c(2) in simp)
qed

section \<open>Contents\<close>

definition bytes_at :: "mem \<Rightarrow> u32 \<Rightarrow> nat \<Rightarrow> u8 list" where
  "bytes_at m p n = map (\<lambda>i. m (p + of_nat i)) [0..<n]"

definition data_of :: "'a ramfs_scheme \<Rightarrow> u32 \<Rightarrow> u32" where
  "data_of s a = (case vnodes s a of None \<Rightarrow> 0 | Some n \<Rightarrow> n_data n)"

definition contents :: "'a ramfs_scheme \<Rightarrow> u32 \<Rightarrow> u8 list" where
  "contents s a = (case vnodes s a of None \<Rightarrow> [] | Some n \<Rightarrow> bytes_at (hmem s) (n_data n) (unat (n_size n)))"

text \<open>What writing \<open>bs\<close> at \<open>i\<close> makes of \<open>xs\<close>: a gap is filled with zeros.\<close>

definition splice :: "u8 list \<Rightarrow> nat \<Rightarrow> u8 list \<Rightarrow> u8 list" where
  "splice xs i bs = take i (xs @ replicate (i - length xs) 0) @ bs @ drop (i + length bs) xs"

lemma length_bytes_at [simp]: "length (bytes_at m p n) = n"
  by (simp add: bytes_at_def)

lemma nth_bytes_at [simp]: "i < n \<Longrightarrow> bytes_at m p n ! i = m (p + of_nat i)"
  by (simp add: bytes_at_def)

lemma bytes_at_cong: "(\<And>x. x \<in> payload p n \<Longrightarrow> m x = m' x) \<Longrightarrow> n < 2 ^ 32 \<Longrightarrow> bytes_at m p n = bytes_at m' p n"
  using in_payload_iff[of n _ p] by (fastforce simp: bytes_at_def)

lemma splice_nth:
  "j < length (splice xs i bs) \<Longrightarrow> splice xs i bs ! j =
     (if i \<le> j \<and> j < i + length bs then bs ! (j - i) else if j < length xs then xs ! j else 0)"
  by (auto simp: splice_def nth_append min_def)

lemma length_splice [simp]: "length (splice xs i bs) = max (length xs) (i + length bs)"
  by (simp add: splice_def)

text \<open>The storage invariant: nodes, their data and the open files are live allocations, all different.\<close>

definition data_ok :: "'a ramfs_scheme \<Rightarrow> (u32 \<Rightarrow> nat option) \<Rightarrow> vfs_node \<Rightarrow> bool" where
  "data_ok s U n \<longleftrightarrow> (if n_data n = 0 then n_size n = 0
     else (\<exists>c. U (n_data n) = Some c \<and> unat (n_size n) \<le> c) \<and> vnodes s (n_data n) = None \<and> vfiles s (n_data n) = None)"

definition store_ok :: "'a ramfs_scheme \<Rightarrow> (u32 \<Rightarrow> nat option) \<Rightarrow> bool" where
  "store_ok s U \<longleftrightarrow> heap_ok s U \<and>
     (\<forall>a n. vnodes s a = Some n \<longrightarrow> (\<exists>c \<ge> 292. U a = Some c) \<and> data_ok s U n) \<and>
     (\<forall>a b. data_of s a = data_of s b \<longrightarrow> data_of s a \<noteq> 0 \<longrightarrow> a = b) \<and>
     (\<forall>f. vfiles s f \<noteq> None \<longrightarrow> (\<exists>c \<ge> 12. U f = Some c) \<and> vnodes s f = None)"

text \<open>
  The caller's buffer of \<open>n\<close> bytes: outside the heap, or in live allocations other than the data of
  the file.
\<close>

definition buffer_ok :: "(u32 \<Rightarrow> nat option) \<Rightarrow> u32 \<Rightarrow> u32 \<Rightarrow> nat \<Rightarrow> bool" where
  "buffer_ok U d buf n \<longleftrightarrow> (\<forall>x \<in> payload buf n. \<not> in_region x \<or> (\<exists>q e. U q = Some e \<and> q \<noteq> d \<and> x \<in> payload q e))"

lemma buffer_apart:
  assumes "heap_ok h U" "U d = Some c" "buffer_ok U d buf n"
  shows "payload d c \<inter> payload buf n = {}"
proof -
  have False if x: "x \<in> payload d c" "x \<in> payload buf n" for x
  proof -
    have "in_region x" by (rule live_in_region(1)[OF assms(1,2) x(1)])
    then obtain q e where "U q = Some e" "q \<noteq> d" "x \<in> payload q e" using assms(3) x(2) by (auto simp: buffer_ok_def)
    with live_disjoint[OF assms(1) _ assms(2), of q e] x(1) show False by blast
  qed
  then show ?thesis by blast
qed

lemma store_okD:
  assumes "store_ok s U" "vnodes s a = Some n"
  shows "heap_ok s U" "data_ok s U n" "\<exists>c \<ge> 292. U a = Some c" "a \<noteq> 0"
proof -
  show ok: "heap_ok s U" "data_ok s U n" "\<exists>c \<ge> 292. U a = Some c" using assms by (auto simp: store_ok_def)
  then show "a \<noteq> 0" using live_aligned(2)[OF ok(1)] by blast
qed

lemma data_small:
  assumes "store_ok s U" "vnodes s a = Some n"
  shows "unat (n_size n) \<le> 2 ^ 22"
  using store_okD[OF assms] live_aligned(4)[of s U "n_data n"] by (auto simp: data_ok_def split: if_splits dest!: spec)

section \<open>Reading\<close>

lemma default_read_spec:
  assumes ok: "store_ok s U" and a: "vnodes s a = Some n" "is_file n"
    and buf: "buffer_ok U (n_data n) buf (unat sz)" and fits: "unat offset + unat sz < 2 ^ 32"
  defines "k \<equiv> min (unat sz) (unat (n_size n) - unat offset)"
  obtains m where "default_read a offset sz buf s = Some (int k, s\<lparr>hmem := m\<rparr>)"
    "bytes_at m buf k = take (unat sz) (drop (unat offset) (contents s a))"
    "\<And>x. x \<notin> payload buf k \<Longrightarrow> m x = hmem s x"
proof -
  note so = store_okD[OF ok a(1)]
  have con: "contents s a = bytes_at (hmem s) (n_data n) (unat (n_size n))" by (simp add: contents_def a(1))
  have small: "unat (n_size n) \<le> 2 ^ 22" by (rule data_small[OF ok a(1)])
  show thesis
  proof (cases "k = 0")
    case True
    then have "n_size n \<le> offset \<or> sz = 0" by (auto simp: k_def word_le_nat_alt unat_eq_0 min_def split: if_splits)
    then have "default_read a offset sz buf s = Some (0, s)"
      using so(4) a by (auto simp: default_read_def Let_def)
    moreover have "take (unat sz) (drop (unat offset) (contents s a)) = []" using True by (auto simp: con k_def)
    ultimately show thesis using True by (intro that[of "hmem s"]) (simp_all add: bytes_at_def)
  next
    case False
    then have off: "unat offset < unat (n_size n)" "0 < unat sz" by (auto simp: k_def)
    define l where "l = (if n_size n < offset + sz then n_size n - offset else sz)"
    have sum: "unat (offset + sz) = unat offset + unat sz" using fits by (simp add: unat_word_ariths)
    have "unat (n_size n - offset) = unat (n_size n) - unat offset" using off(1) by (simp add: unat_sub word_le_nat_alt)
    then have l: "unat l = k" using off by (auto simp: l_def k_def word_less_nat_alt sum)
    have "n_data n \<noteq> 0" using so(2) off(1) by (auto simp: data_ok_def split: if_splits)
    then obtain c where c: "U (n_data n) = Some c" "unat (n_size n) \<le> c" using so(2) by (auto simp: data_ok_def)
    have sub: "payload (n_data n + offset) k \<subseteq> payload (n_data n) c"
    proof
      fix x assume "x \<in> payload (n_data n + offset) k"
      then have "unat (x - (n_data n + offset)) < k" by (simp add: payload_def)
      moreover have "x - n_data n = offset + (x - (n_data n + offset))" by simp
      ultimately have "unat (x - n_data n) < unat offset + k"
        using unat_add_le[of offset "x - (n_data n + offset)"] by simp
      then show "x \<in> payload (n_data n) c" using c(2) off(1) by (simp add: payload_def k_def)
    qed
    have "payload buf k \<subseteq> payload buf (unat sz)" by (rule payload_mono) (simp add: k_def)
    then have apart: "payload buf (unat l) \<inter> payload (n_data n + offset) (unat l) = {}"
      using sub buffer_apart[OF so(1) c(1) buf] unfolding l by blast
    let ?m = "snd (memcpy buf (n_data n + offset) l (hmem s))"
    note eff = memcpy_effect[OF apart, where m = "hmem s", unfolded l]
    have k32: "k < 2 ^ 32" using small by (simp add: k_def)
    have "sint l = int k" using l small by (subst sint_small) (simp_all add: k_def)
    then have run: "default_read a offset sz buf s = Some (int k, s\<lparr>hmem := ?m\<rparr>)"
      using so(4) a off l False unat_eq_0[of l] by (simp add: default_read_def Let_def l_def[symmetric] word_le_nat_alt)
    have "?m (buf + of_nat i) = hmem s (n_data n + offset + of_nat i)" if "i < k" for i
      using that k32 by (simp add: eff payload_def unat_of_nat add.assoc)
    moreover have "take (unat sz) (drop (unat offset) (contents s a)) ! i = hmem s (n_data n + offset + of_nat i)" if "i < k" for i
    proof -
      have "unat offset + i < unat (n_size n)" using that by (simp add: k_def less_diff_conv add.commute)
      then show ?thesis using that off(1) by (simp add: con k_def add.assoc)
    qed
    ultimately have "bytes_at ?m buf k = take (unat sz) (drop (unat offset) (contents s a))"
      by (intro nth_equalityI) (auto simp: con k_def)
    then show thesis using run eff by (intro that[of ?m]) simp_all
  qed
qed

section \<open>Growing\<close>

lemma heap_ok_mem: "heap_ok (s\<lparr>hmem := hmem s\<rparr>) U = heap_ok s U"
  by (simp add: heap_ok_same[of "s\<lparr>hmem := hmem s\<rparr>" s] same_heap_def)

lemma sub_payload:
  assumes "unat i + n \<le> c"
  shows "payload (p + i) n \<subseteq> payload p c"
proof
  fix x assume "x \<in> payload (p + i) n"
  then have "unat (x - (p + i)) < n" by (simp add: payload_def)
  moreover have "x - p = i + (x - (p + i))" by simp
  ultimately show "x \<in> payload p c" using unat_add_le[of i "x - (p + i)"] assms by (simp add: payload_def)
qed

text \<open>The move to a new buffer: \<open>U1\<close> is the live map after it.\<close>

lemma grow_data_spec:
  assumes ok: "store_ok s U" and a: "vnodes s a = Some n" and grow: "unat (n_size n) < unat new_size"
  obtains "grow_data a new_size s = Some (False, s)"
  | p c s' where "grow_data a new_size s = Some (True, s')" "p \<noteq> 0" "U p = None" "unat new_size \<le> c"
      "heap_ok s' (U(n_data n := None, p \<mapsto> c))"
      "vnodes s' = (vnodes s)(a \<mapsto> n\<lparr>n_data := p, n_size := new_size\<rparr>)" "vfiles s' = vfiles s" "ramfs_root s' = ramfs_root s" "ramfs_cwd s' = ramfs_cwd s"
      "bytes_at (hmem s') p (unat new_size) = contents s a @ replicate (unat new_size - unat (n_size n)) 0"
      "\<And>q e x. U q = Some e \<Longrightarrow> q \<noteq> n_data n \<Longrightarrow> x \<in> payload q e \<Longrightarrow> hmem s' x = hmem s x"
      "\<And>x. \<not> in_region x \<Longrightarrow> hmem s' x = hmem s x"
proof -
  note so = store_okD[OF ok a]
  show thesis
  proof (rule kmalloc_cases[OF so(1), of new_size])
    assume "kmalloc new_size s = Some (0, s)"
    then show thesis using a by (intro that(1)) (simp add: grow_data_def)
  next
    fix p s1 c
    assume k: "kmalloc new_size s = Some (p, s1)" "p \<noteq> 0" "U p = None" "unat new_size \<le> c" "heap_ok s1 (U(p \<mapsto> c))"
      "\<And>q d x. U q = Some d \<Longrightarrow> x \<in> payload q d \<Longrightarrow> hmem s1 x = hmem s x"
    note f1 = heap_only_ramfs[OF kmalloc_only[OF k(1)]] and o1 = kmalloc_outside[OF so(1) k(1)]
    have c: "c \<le> 2 ^ 22" using live_aligned(4)[OF k(5), of p c] by simp
    have new: "payload p (unat (n_size n)) \<subseteq> payload p c" by (rule payload_mono) (use grow k(4) in simp)
    let ?d = "n_data n" and ?l = "unat (n_size n)"
    obtain s2 where s2: "(if ?d \<noteq> 0 then kfree ?d (s1\<lparr>hmem := snd (memcpy p ?d (n_size n) (hmem s1))\<rparr>) else Some s1) = Some s2"
      "heap_ok s2 (U(?d := None, p \<mapsto> c))" "heap_only s1 s2"
      "\<And>i. i < ?l \<Longrightarrow> hmem s2 (p + of_nat i) = hmem s (?d + of_nat i)"
      "\<And>q e x. U q = Some e \<Longrightarrow> q \<noteq> ?d \<Longrightarrow> x \<in> payload q e \<Longrightarrow> hmem s2 x = hmem s x"
      "\<And>x. \<not> in_region x \<Longrightarrow> hmem s2 x = hmem s x"
    proof (cases "?d = 0")
      case True
      then have "?l = 0" using so(2) by (simp add: data_ok_def)
      have "U 0 = None" using live_aligned(2)[OF so(1), of 0] by (cases "U 0") auto
      then have "U(?d := None, p \<mapsto> c) = U(p \<mapsto> c)" using True by (auto simp: fun_eq_iff)
      then show thesis using True k o1 \<open>?l = 0\<close> by (intro that[of s1]) auto
    next
      case False
      then obtain e where e: "U ?d = Some e" "?l \<le> e" using so(2) by (auto simp: data_ok_def)
      have dp: "?d \<noteq> p" using e k(3) by auto
      have disj: "payload p c \<inter> payload ?d e = {}" by (rule live_disjoint[OF k(5)]) (use e dp in auto)
      have "payload ?d ?l \<subseteq> payload ?d e" by (rule payload_mono[OF e(2)])
      then have apart: "payload p ?l \<inter> payload ?d ?l = {}" using disj new by blast
      let ?m = "snd (memcpy p ?d (n_size n) (hmem s1))"
      note eff = memcpy_effect[OF apart, where m = "hmem s1"]
      have okm: "heap_ok (s1\<lparr>hmem := ?m\<rparr>) (U(p \<mapsto> c))"
        by (rule owner_write[OF k(5), of p c]) (use eff new in auto)
      have d1: "(U(p \<mapsto> c)) ?d = Some e" using e dp by simp
      obtain s2 where s2: "kfree ?d (s1\<lparr>hmem := ?m\<rparr>) = Some s2" "heap_ok s2 ((U(p \<mapsto> c))(?d := None))"
        "\<And>q d x. q \<noteq> ?d \<Longrightarrow> (U(p \<mapsto> c)) q = Some d \<Longrightarrow> x \<in> payload q d \<Longrightarrow> hmem s2 x = ?m x"
        by (rule kfree_live[OF okm d1]) (use that in auto)
      have o2: "hmem s2 x = ?m x" if "\<not> in_region x" for x
        using kfree_outside[OF okm d1 s2(1) that] by simp
      show thesis
      proof (rule that)
        show "(if ?d \<noteq> 0 then kfree ?d (s1\<lparr>hmem := ?m\<rparr>) else Some s1) = Some s2" using False s2(1) by simp
        show "heap_ok s2 (U(?d := None, p \<mapsto> c))" using s2(2) fun_upd_twist[OF dp, of U None "Some c"] by (simp only:)
        have "heap_only (s1\<lparr>hmem := ?m\<rparr>) s2" by (rule kfree_only[OF s2(1)])
        then show "heap_only s1 s2" by (rule heap_only_trans[rotated]) (rule heap_only_mem, simp)
        show "hmem s2 (p + of_nat i) = hmem s (?d + of_nat i)" if i: "i < ?l" for i
        proof -
          have "i < 2 ^ 32" using i c k(4) grow by simp
          then have px: "p + of_nat i \<in> payload p ?l" and dx: "?d + of_nat i \<in> payload ?d ?l"
            using i by (simp_all add: payload_def unat_of_nat)
          have "hmem s2 (p + of_nat i) = ?m (p + of_nat i)" by (rule s2(3)[of p c]) (use dp px new in auto)
          also have "\<dots> = hmem s1 (?d + of_nat i)" using px by (simp add: eff)
          also have "\<dots> = hmem s (?d + of_nat i)" using k(6)[OF e(1)] dx payload_mono[OF e(2)] by blast
          finally show ?thesis .
        qed
        show "hmem s2 x = hmem s x" if q: "U q = Some e'" "q \<noteq> ?d" "x \<in> payload q e'" for q e' x
        proof -
          have qp: "q \<noteq> p" using q(1) k(3) by auto
          have "x \<notin> payload p c" using live_disjoint[OF k(5), of q e' p c] q qp by auto
          then have "x \<notin> payload p ?l" using new by blast
          then show ?thesis using s2(3)[of q e' x] q qp k(6)[OF q(1,3)] by (simp add: eff)
        qed
        show "hmem s2 x = hmem s x" if x: "\<not> in_region x" for x
        proof -
          have "x \<notin> payload p c" using live_in_region(1)[OF k(5), of p c x] x by auto
          then have "x \<notin> payload p ?l" using new by blast
          then show ?thesis using o2[OF x] o1[OF x] by (simp add: eff)
        qed
      qed
    qed
    let ?m = "snd (memset (p + n_size n) 0 (new_size - n_size n) (hmem s2))"
    have gap: "unat (new_size - n_size n) = unat new_size - ?l" using grow by (simp add: unat_sub word_le_nat_alt)
    have m: "?m x = (if x \<in> payload (p + n_size n) (unat new_size - ?l) then 0 else hmem s2 x)" for x
      by (simp add: memset_effect gap)
    have tail: "payload (p + n_size n) (unat new_size - ?l) \<subseteq> payload p c" by (rule sub_payload) (use grow k(4) in simp)
    have okm: "heap_ok (s2\<lparr>hmem := ?m\<rparr>) (U(?d := None, p \<mapsto> c))"
      by (rule owner_write[OF s2(2), of p c]) (use m tail in auto)
    note f2 = heap_only_ramfs[OF s2(3)]
    let ?s = "upd_node a (\<lambda>n. n\<lparr>n_data := p, n_size := new_size\<rparr>) (s2\<lparr>hmem := ?m\<rparr>)"
    show thesis
    proof (rule that(2))
      show "grow_data a new_size s = Some (True, ?s)" using a k(1,2) s2(1) by (simp add: grow_data_def Let_def)
      show "heap_ok ?s (U(?d := None, p \<mapsto> c))" using okm by simp
      show "vnodes ?s = (vnodes s)(a \<mapsto> n\<lparr>n_data := p, n_size := new_size\<rparr>)" using a by (auto simp: fun_eq_iff f1 f2)
      show "bytes_at (hmem ?s) p (unat new_size) = contents s a @ replicate (unat new_size - ?l) 0"
      proof (intro nth_equalityI)
        show len: "length (bytes_at (hmem ?s) p (unat new_size)) = length (contents s a @ replicate (unat new_size - ?l) 0)"
          using grow by (simp add: contents_def a)
        fix i assume "i < length (bytes_at (hmem ?s) p (unat new_size))"
        then have i: "i < unat new_size" "i < 2 ^ 32" using c k(4) by simp_all
        show "bytes_at (hmem ?s) p (unat new_size) ! i = (contents s a @ replicate (unat new_size - ?l) 0) ! i"
        proof (cases "i < ?l")
          case True
          have out: "p + of_nat i \<notin> payload (p + n_size n) (unat new_size - ?l)"
          proof
            assume "p + of_nat i \<in> payload (p + n_size n) (unat new_size - ?l)"
            then obtain j where j: "j < unat new_size - ?l" "p + of_nat i = p + n_size n + of_nat j"
              using in_payload_iff[of "unat new_size - ?l"] c k(4) by auto
            then have "unat (of_nat i :: u32) = unat (n_size n + of_nat j)" by simp
            moreover have "unat (n_size n + of_nat j) = ?l + j" using j(1) c k(4) by (simp add: unat_word_ariths unat_of_nat)
            ultimately show False using True i(2) by (simp add: unat_of_nat)
          qed
          then show ?thesis using i True s2(4)[OF True] by (simp add: m nth_append contents_def a)
        next
          case False
          have "of_nat i - n_size n = (of_nat (i - ?l) :: u32)" using False by (simp add: of_nat_diff)
          then have "unat (of_nat i - n_size n :: u32) = i - ?l" using i by (simp add: unat_of_nat)
          then have "p + of_nat i \<in> payload (p + n_size n) (unat new_size - ?l)"
            using i False by (simp add: payload_def unat_of_nat)
          then show ?thesis using i False by (simp add: m nth_append contents_def a)
        qed
      qed
      show "hmem ?s x = hmem s x" if q: "U q = Some e" "q \<noteq> ?d" "x \<in> payload q e" for q e x
      proof -
        have "q \<noteq> p" using q(1) k(3) by auto
        then have "x \<notin> payload p c" using live_disjoint[OF s2(2), of q e p c] q by auto
        then show ?thesis using tail s2(5)[OF q] by (auto simp: m)
      qed
      show "hmem ?s x = hmem s x" if x: "\<not> in_region x" for x
      proof -
        have "x \<notin> payload p c" using live_in_region(1)[OF s2(2), of p c x] x by auto
        then show ?thesis using tail s2(6)[OF x] by (auto simp: m)
      qed
    qed (use k f1 f2 in simp_all)
  qed
qed

section \<open>Writing\<close>

text \<open>The bytes of a file after the final \<open>memcpy\<close> of \<open>default_write\<close>.\<close>

lemma overwrite:
  assumes c: "unat offset + length bs \<le> n" "n < 2 ^ 32"
    and m': "\<And>i. i < length bs \<Longrightarrow> m' (p + offset + of_nat i) = bs ! i"
      "\<And>x. x \<notin> payload (p + offset) (length bs) \<Longrightarrow> m' x = m x"
  shows "bytes_at m' p n = take (unat offset) (bytes_at m p n) @ bs @ drop (unat offset + length bs) (bytes_at m p n)"
proof (intro nth_equalityI)
  fix i assume "i < length (bytes_at m' p n)"
  then have i: "i < n" "i < 2 ^ 32" using c(2) by simp_all
  show "bytes_at m' p n ! i = (take (unat offset) (bytes_at m p n) @ bs @ drop (unat offset + length bs) (bytes_at m p n)) ! i"
  proof (cases "unat offset \<le> i \<and> i < unat offset + length bs")
    case True
    have "p + of_nat i = p + offset + of_nat (i - unat offset)" using True by (simp add: of_nat_diff)
    then have "m' (p + of_nat i) = bs ! (i - unat offset)" by (simp only:) (rule m'(1), use True in linarith)
    moreover have "i - unat offset < length bs" using True by linarith
    ultimately show ?thesis using i True c(1) by (simp add: nth_append)
  next
    case False
    have "p + of_nat i \<notin> payload (p + offset) (length bs)"
    proof
      assume "p + of_nat i \<in> payload (p + offset) (length bs)"
      then obtain j where j: "j < length bs" "p + of_nat i = p + offset + of_nat j"
        using in_payload_iff[of "length bs"] c by auto
      then have "unat (of_nat i :: u32) = unat (offset + of_nat j)" by simp
      moreover have "unat (offset + of_nat j) = unat offset + j" using j(1) c by (simp add: unat_word_ariths unat_of_nat)
      ultimately show False using False j(1) i(2) by (simp add: unat_of_nat)
    qed
    then have "m' (p + of_nat i) = m (p + of_nat i)" by (rule m'(2))
    then show ?thesis using i False c(1) by (auto simp: nth_append min_def)
  qed
qed (use c in simp)

text \<open>The data of a file moves from \<open>d\<close> to \<open>p\<close>, or stays.\<close>

definition moved :: "(u32 \<Rightarrow> nat option) \<Rightarrow> u32 \<Rightarrow> (u32 \<Rightarrow> nat option) \<Rightarrow> u32 \<Rightarrow> bool" where
  "moved U d U' p \<longleftrightarrow> U' = U \<and> p = d \<or> (\<exists>c. U p = None \<and> U' = U(d := None, p \<mapsto> c))"

lemma default_write_spec:
  assumes ok: "store_ok s U" and a: "vnodes s a = Some n" "is_file n"
    and buf: "buffer_ok U (n_data n) buf (unat sz)" and fits: "unat offset + unat sz < 2 ^ 31"
  defines "bs \<equiv> bytes_at (hmem s) buf (unat sz)"
  obtains "default_write a offset sz buf s = Some (- 1, s)" "unat (n_size n) < unat offset + unat sz"
  | s' n' U' where "default_write a offset sz buf s = Some (int (unat sz), s')"
      "store_ok s' U'" "moved U (n_data n) U' (n_data n')" "vnodes s' = (vnodes s)(a \<mapsto> n')" "vfiles s' = vfiles s"
      "ramfs_root s' = ramfs_root s" "ramfs_cwd s' = ramfs_cwd s" "n' = n\<lparr>n_data := n_data n', n_size := n_size n'\<rparr>"
      "contents s' a = splice (contents s a) (unat offset) bs" "\<And>b. b \<noteq> a \<Longrightarrow> contents s' b = contents s b"
      "\<And>q e x. U q = Some e \<Longrightarrow> q \<noteq> n_data n \<Longrightarrow> x \<in> payload q e \<Longrightarrow> hmem s' x = hmem s x"
      "\<And>x. \<not> in_region x \<Longrightarrow> hmem s' x = hmem s x"
proof -
  note so = store_okD[OF ok a(1)]
  let ?new = "offset + sz" and ?l = "unat (n_size n)"
  have sum: "unat ?new = unat offset + unat sz" using fits by (simp add: unat_word_ariths)
  have con: "contents s a = bytes_at (hmem s) (n_data n) ?l" by (simp add: contents_def a(1))
  have sz: "sint sz = int (unat sz)" using fits by (intro sint_small) simp
  \<comment> \<open>the state before the final copy\<close>
  consider "?l < unat ?new" "grow_data a ?new s = Some (False, s)"
    | s1 p c l U1 where "(if n_size n < ?new then grow_data a ?new s else Some (True, s)) = Some (True, s1)"
      "U1 p = Some c" "p \<noteq> 0" "unat l \<le> c" "heap_ok s1 U1" "U1 = U \<and> p = n_data n \<or> U p = None \<and> U1 = U(n_data n := None, p \<mapsto> c)"
      "vnodes s1 = (vnodes s)(a \<mapsto> n\<lparr>n_data := p, n_size := l\<rparr>)" "vfiles s1 = vfiles s" "ramfs_root s1 = ramfs_root s" "ramfs_cwd s1 = ramfs_cwd s"
      "bytes_at (hmem s1) p (unat l) = contents s a @ replicate (unat l - ?l) 0" "unat l = max ?l (unat ?new)"
      "\<And>q e x. U q = Some e \<Longrightarrow> q \<noteq> n_data n \<Longrightarrow> x \<in> payload q e \<Longrightarrow> hmem s1 x = hmem s x"
      "\<And>x. \<not> in_region x \<Longrightarrow> hmem s1 x = hmem s x"
    | "n_data n = 0" "unat ?new = 0"
  proof (cases "?l < unat ?new")
    case True
    show thesis
    proof (rule grow_data_spec[OF ok a(1) True])
      assume "grow_data a ?new s = Some (False, s)"
      then show thesis by (rule that(1)[OF True])
    next
      fix p c s1
      assume g: "grow_data a ?new s = Some (True, s1)" "p \<noteq> 0" "U p = None" "unat ?new \<le> c" "heap_ok s1 (U(n_data n := None, p \<mapsto> c))"
        "vnodes s1 = (vnodes s)(a \<mapsto> n\<lparr>n_data := p, n_size := ?new\<rparr>)" "vfiles s1 = vfiles s" "ramfs_root s1 = ramfs_root s"
        "ramfs_cwd s1 = ramfs_cwd s" "bytes_at (hmem s1) p (unat ?new) = contents s a @ replicate (unat ?new - ?l) 0"
        "\<And>q e x. U q = Some e \<Longrightarrow> q \<noteq> n_data n \<Longrightarrow> x \<in> payload q e \<Longrightarrow> hmem s1 x = hmem s x"
        "\<And>x. \<not> in_region x \<Longrightarrow> hmem s1 x = hmem s x"
      show thesis
        by (rule that(2)[OF _ _ g(2,4,5) _ g(6-10) _ g(11,12)]) (use g True in \<open>simp_all add: word_less_nat_alt max_def\<close>)
    qed
  next
    case False
    show thesis
    proof (cases "n_data n = 0")
      case True
      then show thesis using so(2) False that(3) by (simp add: data_ok_def)
    next
      case data: False
      then obtain c where "U (n_data n) = Some c" "?l \<le> c" using so(2) by (auto simp: data_ok_def)
      then show thesis using False data so(1) a con
        by (intro that(2)[of s U "n_data n" c "n_size n"]) (auto simp: word_less_nat_alt max_def fun_upd_idem)
    qed
  qed
  then show thesis
  proof cases
    case 1
    then show thesis using so(4) a sum by (intro that(1)) (simp_all add: default_write_def word_less_nat_alt)
  next
    case 3
    then have z: "sz = 0" "offset = 0" "?l = 0" using sum so(2) by (simp_all add: unat_eq_0[symmetric] data_ok_def)
    have "default_write a offset sz buf s = Some (0, s)"
      using so(4) a z by (simp add: default_write_def memcpy_def copy_forward.simps)
    moreover have "contents s a = splice (contents s a) (unat offset) bs"
      using z by (simp add: con splice_def bs_def bytes_at_def)
    ultimately show thesis using ok a z by (intro that(2)[of s U n]) (auto simp: moved_def)
  next
    case w: (2 s1 p c l U1)
    have lc: "unat offset + unat sz \<le> unat l" "unat l \<le> c" using w(4,12) sum by simp_all
    have c32: "c < 2 ^ 32" using live_aligned(4)[OF w(5,2)] by simp
    have cap: "payload (p + offset) (unat sz) \<subseteq> payload p c" by (rule sub_payload) (use lc in simp)
    have buf1: "buffer_ok U1 p buf (unat sz)"
      using buf w(6) by (fastforce simp: buffer_ok_def)
    have apart: "payload p c \<inter> payload buf (unat sz) = {}" by (rule buffer_apart[OF w(5,2) buf1])
    then have "payload (p + offset) (unat sz) \<inter> payload buf (unat sz) = {}" using cap by blast
    note eff = memcpy_effect[OF this, where m = "hmem s1"]
    let ?m = "snd (memcpy (p + offset) buf sz (hmem s1))" and ?n = "n\<lparr>n_data := p, n_size := l\<rparr>"
    let ?s = "s1\<lparr>hmem := ?m\<rparr>"
    have same: "hmem s1 x = hmem s x" if "x \<in> payload buf (unat sz)" for x
      using buf that w(13,14) unfolding buffer_ok_def by blast
    have run: "default_write a offset sz buf s = Some (int (unat sz), ?s)"
      using so(4) a w(1,7) sz by (simp add: default_write_def Let_def)
    have hok: "heap_ok ?s U1" by (rule owner_write[OF w(5,2)]) (use eff cap in auto)
    have keep: "hmem ?s x = hmem s1 x" if "x \<notin> payload p c" for x using that cap eff by auto
    have mem: "hmem ?s x = hmem s x" if q: "U q = Some e" "q \<noteq> n_data n" "x \<in> payload q e" for q e x
    proof -
      have qp: "q \<noteq> p" "U1 q = Some e" using w(6) q(1,2) by auto
      have "x \<notin> payload p c" using live_disjoint[OF w(5) qp(2) w(2) qp(1)] q(3) by blast
      then show ?thesis using keep w(13)[OF q] by simp
    qed
    have con': "contents ?s a = splice (contents s a) (unat offset) bs"
    proof -
      have b: "?m (p + offset + of_nat i) = bs ! i" if "i < length bs" for i
      proof -
        have "i < unat sz" "i < 2 ^ 32" using that fits by (simp_all add: bs_def)
        then have "p + offset + of_nat i \<in> payload (p + offset) (unat sz)" "buf + of_nat i \<in> payload buf (unat sz)"
          by (simp_all add: payload_def unat_of_nat)
        then show ?thesis using that same by (simp add: eff bs_def)
      qed
      have "contents ?s a = bytes_at ?m p (unat l)" by (simp add: contents_def w(7))
      also have "\<dots> = take (unat offset) (bytes_at (hmem s1) p (unat l)) @ bs @ drop (unat offset + length bs) (bytes_at (hmem s1) p (unat l))"
        by (rule overwrite) (use lc c32 b eff in \<open>simp_all add: bs_def\<close>)
      also have "\<dots> = splice (contents s a) (unat offset) bs"
        unfolding w(11) using w(12) sum by (auto simp: splice_def bs_def con max_def)
      finally show ?thesis .
    qed
    have dist: "data_of s x = data_of s y \<Longrightarrow> data_of s x \<noteq> 0 \<Longrightarrow> x = y" for x y using ok by (auto simp: store_ok_def)
    have node: "(\<exists>c \<ge> 292. U x = Some c) \<and> data_ok s U y" if "vnodes s x = Some y" for x y
      using store_okD[OF ok that] by blast
    have other: "n_data y \<noteq> n_data n \<or> n_data y = 0" if "vnodes s b = Some y" "b \<noteq> a" for b y
      using dist[of b a] that a by (auto simp: data_of_def)
    have fresh: "vnodes s p = None" "vfiles s p = None" if "p \<noteq> n_data n"
    proof -
      have "U p = None" using w(6) that by blast
      then show "vnodes s p = None" "vfiles s p = None" using node[of p] ok
        by (force simp: store_ok_def)+
    qed
    have none: "vnodes s p = None" "vfiles s p = None" "p \<noteq> a"
    proof -
      show n: "vnodes s p = None" "vfiles s p = None"
        using fresh node[OF a(1)] w(3) by (cases "p = n_data n"; simp add: data_ok_def split: if_splits)+
      then show "p \<noteq> a" using a(1) by auto
    qed
    have same_con: "contents ?s b = contents s b" if b: "b \<noteq> a" for b
    proof (cases "vnodes s b")
      case None
      then show ?thesis using b by (simp add: contents_def w(7))
    next
      case (Some y)
      have "bytes_at (hmem ?s) (n_data y) (unat (n_size y)) = bytes_at (hmem s) (n_data y) (unat (n_size y))"
      proof (cases "n_data y = 0")
        case True
        then show ?thesis using node[OF Some] by (simp add: data_ok_def bytes_at_def)
      next
        case False
        then obtain e where e: "U (n_data y) = Some e" "unat (n_size y) \<le> e" using node[OF Some] by (auto simp: data_ok_def)
        have "e < 2 ^ 32" using live_aligned(4)[OF so(1) e(1)] by simp
        then show ?thesis using mem[OF e(1)] other[OF Some b] False payload_mono[OF e(2), of "n_data y"] e(2)
          by (intro bytes_at_cong) auto
      qed
      then show ?thesis using b Some by (simp add: contents_def w(7))
    qed
    show thesis
    proof (rule that(2)[OF run, where U' = U1 and n' = ?n])
      show "moved U (n_data n) U1 (n_data ?n)" using w(6) by (auto simp: moved_def)
      have live: "U1 x = U x" if "U x \<noteq> None" "x \<noteq> n_data n" for x using w(6) that by auto
      show "store_ok ?s U1"
        unfolding store_ok_def
      proof (intro conjI allI impI)
        show "heap_ok ?s U1" by (rule hok)
        fix x y assume xy: "vnodes ?s x = Some y"
        obtain z where z: "vnodes s x = Some z" using xy w(7) a(1) by (cases "x = a") auto
        have "x \<noteq> n_data n" using node[OF a(1)] store_okD(4)[OF ok z] z by (auto simp: data_ok_def split: if_splits)
        then show "\<exists>c \<ge> 292. U1 x = Some c" using node[OF z] live[of x] by auto
        show "data_ok ?s U1 y"
        proof (cases "x = a")
          case True
          then have "y = ?n" using xy w(7) by simp
          then show ?thesis using w(2-4,7,8) none by (simp add: data_ok_def)
        next
          case False
          then have yz: "y = z" using xy z w(7) by simp
          have "data_ok s U z" using node[OF z] by blast
          then show ?thesis using other[OF z False] live[of "n_data z"] a(1) unfolding yz by (auto simp: data_ok_def w(7,8) split: if_splits)
        qed
      next
        fix x y assume xy: "data_of ?s x = data_of ?s y" "data_of ?s x \<noteq> 0"
        have d: "data_of ?s v = (if v = a then p else data_of s v)" for v by (simp add: data_of_def w(7))
        have np: "data_of s v \<noteq> p" if "v \<noteq> a" for v
        proof
          assume v: "data_of s v = p"
          then obtain m where m: "vnodes s v = Some m" "n_data m = p" using w(3) by (auto simp: data_of_def split: option.splits)
          then have "U p \<noteq> None" using node[OF m(1)] w(3) by (auto simp: data_ok_def)
          then show False using w(6) other[OF m(1) that] m(2) w(3) by auto
        qed
        show "x = y" using xy np[of x] np[of y] dist[of x y] by (auto simp: d split: if_splits)
      next
        fix f assume f: "vfiles ?s f \<noteq> None"
        then have g: "\<exists>c \<ge> 12. U f = Some c" "vnodes s f = None" using ok by (auto simp: store_ok_def w(8))
        then have "f \<noteq> 0" using live_aligned(2)[OF so(1)] by blast
        then have "f \<noteq> n_data n" using node[OF a(1)] f by (auto simp: data_ok_def w(8) split: if_splits)
        then show "\<exists>c \<ge> 12. U1 f = Some c" using g live[of f] by auto
        show "vnodes ?s f = None" using g(2) a(1) by (auto simp: w(7))
      qed
      show "hmem ?s x = hmem s x" if x: "\<not> in_region x" for x
        using live_in_region(1)[OF w(5,2), of x] x keep[of x] w(14)[OF x] by auto
    qed (use w(7-10) mem con' same_con in auto)
  qed
qed

end
