(* ===== verification/Ramfs_Tree.thy ===== *)
theory Ramfs_Tree
  imports Ramfs_Data
begin

text \<open>
  The directory tree: the children of each node as a list, looking names up, linking and unlinking
  nodes, and resolving paths.
\<close>

section \<open>The shape of the tree\<close>

definition sib :: "'a ramfs_scheme \<Rightarrow> u32 \<Rightarrow> u32 option" where
  "sib s a = Option.bind (vnodes s a) (\<lambda>n. ptr_of (n_next n))"

definition name_of :: "'a ramfs_scheme \<Rightarrow> u32 \<Rightarrow> string option" where
  "name_of s a = map_option n_name (vnodes s a)"

definition parent_of :: "'a ramfs_scheme \<Rightarrow> u32 \<Rightarrow> u32" where
  "parent_of s a = (case vnodes s a of None \<Rightarrow> 0 | Some n \<Rightarrow> n_parent n)"

definition fns_ok :: "vfs_node \<Rightarrow> bool" where
  "fns_ok n \<longleftrightarrow> n_read n = Default_read \<and> n_write n = Default_write \<and> n_finddir n = Default_finddir"

text \<open>\<open>K d\<close> are the children of \<open>d\<close>.\<close>

definition dir_ok :: "'a ramfs_scheme \<Rightarrow> (u32 \<Rightarrow> u32 list) \<Rightarrow> u32 \<Rightarrow> vfs_node \<Rightarrow> bool" where
  "dir_ok s K d n \<longleftrightarrow> chain (sib s) (ptr_of (n_children n)) (K d) \<and>
     (\<forall>k \<in> set (K d). vnodes s k \<noteq> None \<and> parent_of s k = d) \<and> inj_on (name_of s) (set (K d)) \<and>
     (n_parent n \<noteq> 0 \<longrightarrow> vnodes s (n_parent n) \<noteq> None \<and> d \<in> set (K (n_parent n))) \<and>
     (\<not> is_directory n \<longrightarrow> K d = []) \<and> fns_ok n"

definition tree_ok :: "'a ramfs_scheme \<Rightarrow> (u32 \<Rightarrow> u32 list) \<Rightarrow> bool" where
  "tree_ok s K \<longleftrightarrow> (\<forall>d n. vnodes s d = Some n \<longrightarrow> dir_ok s K d n) \<and> vnodes s 0 = None"

lemma tree_okD: "tree_ok s K \<Longrightarrow> vnodes s d = Some n \<Longrightarrow> dir_ok s K d n"
  by (simp add: tree_ok_def)

lemma tree_node_0: "tree_ok s K \<Longrightarrow> vnodes s d = Some n \<Longrightarrow> d \<noteq> 0"
  by (auto simp: tree_ok_def)

lemma child_node: "tree_ok s K \<Longrightarrow> vnodes s d = Some n \<Longrightarrow> k \<in> set (K d) \<Longrightarrow> \<exists>m. vnodes s k = Some m \<and> n_parent m = d"
  using tree_okD[of s K d n] by (auto simp: dir_ok_def parent_of_def split: option.splits)

lemma tree_distinct: "tree_ok s K \<Longrightarrow> vnodes s d = Some n \<Longrightarrow> distinct (K d)"
  using tree_okD[of s K d n] chain_distinct by (auto simp: dir_ok_def)

section \<open>Looking up a name\<close>

definition lookup :: "'a ramfs_scheme \<Rightarrow> u32 list \<Rightarrow> string \<Rightarrow> u32 option" where
  "lookup s ks nm = find (\<lambda>k. name_of s k = Some nm) ks"

lemma find_child_chain:
  "chain (sib s) (ptr_of c) ks \<Longrightarrow> \<forall>k \<in> set ks. vnodes s k \<noteq> None \<Longrightarrow>
    find_child c nm s = Some (case lookup s ks nm of None \<Rightarrow> 0 | Some k \<Rightarrow> k)"
proof (induction ks arbitrary: c)
  case Nil
  then show ?case by (simp add: find_child.simps[of 0] lookup_def)
next
  case (Cons k ks)
  then obtain n where n: "c = k" "k \<noteq> 0" "vnodes s k = Some n" by auto
  have "sib s k = ptr_of (n_next n)" by (simp add: sib_def n)
  then have "chain (sib s) (ptr_of (n_next n)) ks" using Cons.prems(1) by simp
  then show ?case using Cons.IH[of "n_next n"] Cons.prems(2) n
    by (subst find_child.simps) (simp add: lookup_def name_of_def)
qed

lemma call_finddir_tree:
  assumes "tree_ok s K" "vnodes s d = Some n"
  shows "call_finddir d nm s = Some (case lookup s (K d) nm of None \<Rightarrow> 0 | Some k \<Rightarrow> k)"
proof -
  have d: "dir_ok s K d n" "d \<noteq> 0" using tree_okD[OF assms] tree_node_0[OF assms] by simp_all
  then have "\<not> is_directory n \<Longrightarrow> lookup s (K d) nm = None" by (simp add: dir_ok_def lookup_def)
  then show ?thesis using d assms(2) find_child_chain[of s "n_children n" "K d" nm]
    by (auto simp: call_finddir_def default_finddir_def dir_ok_def fns_ok_def)
qed

lemma lookup_Some:
  "lookup s ks nm = Some k \<Longrightarrow> k \<in> set ks \<and> name_of s k = Some nm"
  by (auto simp: lookup_def find_Some_iff)

lemma lookup_None: "lookup s ks nm = None \<longleftrightarrow> (\<forall>k \<in> set ks. name_of s k \<noteq> Some nm)"
  by (auto simp: lookup_def find_None_iff)

section \<open>Linking and unlinking\<close>

lemma tree_add:
  assumes ok: "tree_ok s K" and d: "vnodes s d = Some dn" "is_directory dn" and p: "vnodes s p = None" "p \<noteq> 0"
    and fresh: "lookup s (K d) (n_name m) = None"
    and m: "n_parent m = d" "n_next m = n_children dn" "n_children m = 0" "fns_ok m"
    and s': "vnodes s' = (vnodes s)(p \<mapsto> m, d \<mapsto> dn\<lparr>n_children := p\<rparr>)"
  shows "tree_ok s' (K(d := p # K d, p := []))"
proof -
  let ?K = "K(d := p # K d, p := [])"
  have dp: "d \<noteq> p" using d p by auto
  have dok: "dir_ok s K d dn" by (rule tree_okD[OF ok d(1)])
  have d0: "d \<noteq> 0" by (rule tree_node_0[OF ok d(1)])
  have out: "p \<notin> set (K x)" if "vnodes s x = Some n" for x n using child_node[OF ok that, of p] p by auto
  have sib: "sib s' = (sib s)(p := ptr_of (n_children dn))" using d dp by (auto simp: fun_eq_iff sib_def s' m)
  have old: "name_of s' k = name_of s k" "parent_of s' k = parent_of s k" "(vnodes s' k \<noteq> None) = (vnodes s k \<noteq> None)" if "k \<noteq> p" for k
    using that d by (auto simp: name_of_def parent_of_def s')
  have new: "name_of s' p = Some (n_name m)" "parent_of s' p = d" using dp by (simp_all add: name_of_def parent_of_def s' m)
  have kids: "chain (sib s') (ptr_of (n_children n)) (K x)" "\<forall>k \<in> set (K x). vnodes s' k \<noteq> None \<and> parent_of s' k = x"
    "inj_on (name_of s') (set (K x))" if x: "vnodes s x = Some n" for x n
  proof -
    have "dir_ok s K x n" by (rule tree_okD[OF ok x])
    moreover have "inj_on (name_of s') (set (K x)) = inj_on (name_of s) (set (K x))"
      by (rule inj_on_cong) (use old(1) out[OF x] in metis)
    ultimately show "chain (sib s') (ptr_of (n_children n)) (K x)" "\<forall>k \<in> set (K x). vnodes s' k \<noteq> None \<and> parent_of s' k = x"
      "inj_on (name_of s') (set (K x))"
      using out[OF x] old(2,3) unfolding sib dir_ok_def path_upd[OF out[OF x]] by metis+
  qed
  have "dir_ok s' ?K x n" if x: "vnodes s' x = Some n" for x n
  proof -
    consider "x = p" | "x = d" | n0 where "x \<noteq> p" "x \<noteq> d" "vnodes s x = Some n0" using x by (auto simp: s' split: if_splits)
    then show ?thesis
    proof cases
      case 1
      then have "n = m" using x dp by (simp add: s')
      then show ?thesis using 1 m d dp by (simp add: dir_ok_def s')
    next
      case 2
      then have n: "n = dn\<lparr>n_children := p\<rparr>" using x dp by (simp add: s')
      have "name_of s' k \<noteq> name_of s' p" if k: "k \<in> set (K d)" for k
      proof -
        have "k \<noteq> p" using out[OF d(1)] k by auto
        then show ?thesis using fresh old(1)[of k] k new(1) by (simp add: lookup_None)
      qed
      then have "inj_on (name_of s') (insert p (set (K d)))" using kids(3)[OF d(1)] out[OF d(1)] by (fastforce simp: inj_on_insert)
      moreover have "chain (sib s') (Some p) (p # K d)" using kids(1)[OF d(1)] by (simp add: sib)
      moreover have "n_parent dn \<noteq> 0 \<longrightarrow> vnodes s' (n_parent dn) \<noteq> None \<and> d \<in> set (?K (n_parent dn))"
        using dok p d dp by (auto simp: dir_ok_def s')
      moreover have "is_directory n" "fns_ok n" using d dok by (simp_all add: n is_directory_def dir_ok_def fns_ok_def)
      moreover have "\<forall>k \<in> insert p (set (K d)). vnodes s' k \<noteq> None \<and> parent_of s' k = d"
        using kids(2)[OF d(1)] new(2) dp by (auto simp: s')
      ultimately show ?thesis using p dp by (simp add: dir_ok_def 2 n)
    next
      case 3
      then have n: "n = n0" using x by (simp add: s')
      have "n_parent n0 \<noteq> 0 \<longrightarrow> vnodes s' (n_parent n0) \<noteq> None \<and> x \<in> set (?K (n_parent n0))"
        using tree_okD[OF ok 3(3)] p d by (auto simp: dir_ok_def s')
      then show ?thesis using kids[OF 3(3)] tree_okD[OF ok 3(3)] 3 unfolding n by (simp add: dir_ok_def)
    qed
  qed
  then show ?thesis using ok p d0 by (auto simp: tree_ok_def s')
qed

lemma remove_loop_spec:
  assumes "chain (sib s) (ptr_of cur) (us @ child # vs)" "\<forall>k \<in> set (us @ [child]). vnodes s k \<noteq> None" "child \<notin> set us"
    and c: "vnodes s child = Some c"
  shows "remove_loop par child prev cur s = Some (upd_node child (\<lambda>c. c\<lparr>n_parent := 0, n_next := 0\<rparr>)
    (let q = (if us = [] then prev else last us) in
      if q \<noteq> 0 then upd_node q (\<lambda>n. n\<lparr>n_next := n_next c\<rparr>) s else upd_node par (\<lambda>n. n\<lparr>n_children := n_next c\<rparr>) s))"
  using assms(1-3)
proof (induction us arbitrary: cur prev)
  case Nil
  then have "cur = child" "child \<noteq> 0" by auto
  then show ?case using c by (subst remove_loop.simps) (simp add: Let_def)
next
  case (Cons u us)
  then obtain n where n: "cur = u" "u \<noteq> 0" "vnodes s u = Some n" "u \<noteq> child" by auto
  have "sib s u = ptr_of (n_next n)" by (simp add: sib_def n)
  then have "chain (sib s) (ptr_of (n_next n)) (us @ child # vs)" using Cons.prems(1) by simp
  from Cons.IH[OF this] Cons.prems(2,3) n show ?case
    by (subst remove_loop.simps) (simp add: Let_def)
qed

lemma is_directory_upd [simp]:
  "is_directory (n\<lparr>n_children := x\<rparr>) = is_directory n" "is_directory (n\<lparr>n_next := x\<rparr>) = is_directory n"
  "is_directory (n\<lparr>n_data := x\<rparr>) = is_directory n" "is_directory (n\<lparr>n_size := x\<rparr>) = is_directory n"
  "fns_ok (n\<lparr>n_children := x\<rparr>) = fns_ok n" "fns_ok (n\<lparr>n_next := x\<rparr>) = fns_ok n"
  "fns_ok (n\<lparr>n_data := x\<rparr>) = fns_ok n" "fns_ok (n\<lparr>n_size := x\<rparr>) = fns_ok n"
  by (simp_all add: is_directory_def fns_ok_def)

lemma filter_other: "a \<notin> set xs \<Longrightarrow> filter (\<lambda>k. k \<noteq> a) xs = xs"
  by (induction xs) auto

text \<open>What linking leaves alone, and the tree without a childless node.\<close>

definition skel :: "vfs_node \<Rightarrow> string \<times> u32 \<times> u32 \<times> vfs_fn \<times> vfs_fn \<times> vfs_fn" where
  "skel n = (n_name n, n_type n, n_parent n, n_read n, n_write n, n_finddir n)"

definition without :: "u32 \<Rightarrow> (u32 \<Rightarrow> u32 list) \<Rightarrow> u32 \<Rightarrow> u32 list" where
  "without a K = (\<lambda>d. if d = a then [] else filter (\<lambda>k. k \<noteq> a) (K d))"

lemma tree_remove:
  assumes ok: "tree_ok s K" and a: "K a = []" "vnodes s' a = None"
    and same: "\<And>x. x \<noteq> a \<Longrightarrow> map_option skel (vnodes s' x) = map_option skel (vnodes s x)"
    and kids: "\<And>x n. x \<noteq> a \<Longrightarrow> vnodes s' x = Some n \<Longrightarrow> chain (sib s') (ptr_of (n_children n)) (filter (\<lambda>k. k \<noteq> a) (K x))"
  shows "tree_ok s' (without a K)"
proof -
  have "dir_ok s' (without a K) x n" if x: "vnodes s' x = Some n" for x n
  proof -
    have xa: "x \<noteq> a" using x a(2) by auto
    obtain m where m: "vnodes s x = Some m" "skel m = skel n" using same[OF xa] x by (cases "vnodes s x") auto
    have d: "dir_ok s K x m" by (rule tree_okD[OF ok m(1)])
    have f: "name_of s' k = name_of s k" "parent_of s' k = parent_of s k" "(vnodes s' k \<noteq> None) = (vnodes s k \<noteq> None)" if "k \<noteq> a" for k
      using same[OF that] by (cases "vnodes s k"; cases "vnodes s' k"; simp add: name_of_def parent_of_def skel_def)+
    have sub: "set (filter (\<lambda>k. k \<noteq> a) (K x)) \<subseteq> set (K x)" by auto
    have "inj_on (name_of s') (set (filter (\<lambda>k. k \<noteq> a) (K x))) = inj_on (name_of s) (set (filter (\<lambda>k. k \<noteq> a) (K x)))"
      by (rule inj_on_cong) (use f(1) in auto)
    then have "inj_on (name_of s') (set (filter (\<lambda>k. k \<noteq> a) (K x)))" using d sub inj_on_subset by (fastforce simp: dir_ok_def)
    moreover have "vnodes s' (n_parent n) \<noteq> None \<and> x \<in> set (without a K (n_parent n))" if "n_parent n \<noteq> 0"
    proof -
      have p: "n_parent m = n_parent n" using m(2) by (simp add: skel_def)
      then have "vnodes s (n_parent n) \<noteq> None" "x \<in> set (K (n_parent n))" using d that by (auto simp: dir_ok_def)
      moreover from this have "n_parent n \<noteq> a" using a(1) by auto
      ultimately show ?thesis using f(3) xa by (simp add: without_def)
    qed
    moreover have "is_directory n = is_directory m" "fns_ok n = fns_ok m" using m(2) by (auto simp: skel_def is_directory_def fns_ok_def)
    moreover have "\<forall>k \<in> set (filter (\<lambda>k. k \<noteq> a) (K x)). vnodes s' k \<noteq> None \<and> parent_of s' k = x"
      using d f(2,3) by (auto simp: dir_ok_def)
    ultimately show ?thesis using kids[OF xa x] xa d by (auto simp: dir_ok_def without_def)
  qed
  moreover have "vnodes s' 0 = None"
    using same[of 0] a(2) ok by (cases "a = 0") (auto simp: tree_ok_def)
  ultimately show ?thesis by (simp add: tree_ok_def)
qed

text \<open>\<open>remove_child\<close> of a childless node \<open>a\<close> that is freed afterwards.\<close>

definition same_data :: "'a ramfs_scheme \<Rightarrow> 'a ramfs_scheme \<Rightarrow> bool" where
  "same_data s s' \<longleftrightarrow> (\<exists>ns. s' = s\<lparr>vnodes := ns\<rparr> \<and> (\<forall>b. map_option (\<lambda>n. (n_name n, n_type n, n_size n, n_data n)) (ns b) =
     map_option (\<lambda>n. (n_name n, n_type n, n_size n, n_data n)) (vnodes s b)))"

lemma same_data_upd:
  "(\<And>n. (n_name (f n), n_type (f n), n_size (f n), n_data (f n)) = (n_name n, n_type n, n_size n, n_data n)) \<Longrightarrow>
    same_data s s' \<Longrightarrow> same_data s (upd_node a f s')"
  by (auto simp: same_data_def upd_node_def option.map_comp comp_def)

lemma same_data_refl: "same_data s s"
  unfolding same_data_def by (rule exI[of _ "vnodes s"]) simp

lemma remove_child_tree:
  assumes ok: "tree_ok s K" and a: "vnodes s a = Some n" "K a = []"
  obtains s' where "remove_child a s = Some s'" "tree_ok (s'\<lparr>vnodes := (vnodes s')(a := None)\<rparr>) (without a K)" "same_data s s'"
proof (cases "n_parent n = 0")
  case True
  have out: "a \<notin> set (K x)" if "vnodes s x = Some m" for x m
    using child_node[OF ok that, of a] a True tree_node_0[OF ok that] by auto
  let ?s = "s\<lparr>vnodes := (vnodes s)(a := None)\<rparr>"
  have sib: "sib ?s = (sib s)(a := None)" by (auto simp: fun_eq_iff sib_def)
  have "tree_ok ?s (without a K)"
  proof (rule tree_remove[OF ok a(2)])
    fix x m assume x: "x \<noteq> a" "vnodes ?s x = Some m"
    then have "vnodes s x = Some m" by simp
    from out[OF this] tree_okD[OF ok this] show "chain (sib ?s) (ptr_of (n_children m)) (filter (\<lambda>k. k \<noteq> a) (K x))"
      by (simp add: dir_ok_def sib path_upd filter_other)
  qed simp_all
  then show thesis using a True by (intro that[of s]) (simp_all add: remove_child_def same_data_refl)
next
  case False
  let ?d = "n_parent n"
  obtain dn where d: "vnodes s ?d = Some dn" "a \<in> set (K ?d)" using tree_okD[OF ok a(1)] False by (auto simp: dir_ok_def)
  obtain us vs where K: "K ?d = us @ a # vs" using d(2) by (meson split_list)
  have dist: "a \<notin> set us" "a \<notin> set vs" "distinct us" using tree_distinct[OF ok d(1)] by (auto simp: K)
  have ch: "chain (sib s) (ptr_of (n_children dn)) (us @ a # vs)" using tree_okD[OF ok d(1)] by (simp add: dir_ok_def K)
  have mem: "\<exists>m. vnodes s k = Some m \<and> n_parent m = ?d" if "k \<in> set (K ?d)" for k using child_node[OF ok d(1) that] .
  have da: "?d \<noteq> a" using a(2) d(2) by auto
  have nz: "k \<noteq> 0" if "k \<in> set (K ?d)" for k using mem[OF that] tree_node_0[OF ok] by blast
  define q where "q = (if us = [] then 0 else last us)"
  define s1 where "s1 = (if q \<noteq> 0 then upd_node q (\<lambda>m. m\<lparr>n_next := n_next n\<rparr>) s else upd_node ?d (\<lambda>m. m\<lparr>n_children := n_next n\<rparr>) s)"
  define s' where "s' = upd_node a (\<lambda>c. c\<lparr>n_parent := 0, n_next := 0\<rparr>) s1"
  have "remove_loop ?d a 0 (n_children dn) s = Some s'"
    using remove_loop_spec[OF ch _ dist(1) a(1), of ?d 0] mem by (fastforce simp: K s'_def s1_def q_def Let_def)
  then have run: "remove_child a s = Some s'" using a(1) d(1) False by (simp add: remove_child_def)
  have qa: "q \<noteq> a" using dist(1) q_def nz[of a] d(2) by (cases us rule: rev_cases) auto
  let ?s = "s'\<lparr>vnodes := (vnodes s')(a := None)\<rparr>"
  have v: "vnodes s' x = (if x = a then map_option (\<lambda>c. c\<lparr>n_parent := 0, n_next := 0\<rparr>) (vnodes s1 a) else vnodes s1 x)" for x
    by (simp add: s'_def)
  have "tree_ok ?s (without a K)"
  proof (rule tree_remove[OF ok a(2)])
    show "vnodes ?s a = None" by simp
    show "map_option skel (vnodes ?s x) = map_option skel (vnodes s x)" if "x \<noteq> a" for x
      using that by (cases "vnodes s x") (auto simp: s'_def s1_def skel_def)
    fix x m assume x: "x \<noteq> a" "vnodes ?s x = Some m"
    have "vnodes s x \<noteq> None" using x by (auto simp: s'_def s1_def split: if_splits)
    then obtain m0 where m0: "vnodes s x = Some m0" by blast
    have chx: "chain (sib s) (ptr_of (n_children m0)) (K x)" using tree_okD[OF ok m0] by (simp add: dir_ok_def)
    show "chain (sib ?s) (ptr_of (n_children m)) (filter (\<lambda>k. k \<noteq> a) (K x))"
    proof (cases us rule: rev_cases)
      case Nil
      have sib: "sib ?s = (sib s)(a := None)" using Nil by (auto simp: fun_eq_iff sib_def v s1_def q_def d(1))
      show ?thesis
      proof (cases "x = ?d")
        case True
        have "sib s a = ptr_of (n_next n)" using a(1) by (simp add: sib_def)
        then have "chain (sib s) (ptr_of (n_next n)) vs" using ch Nil by simp
        moreover have "m = dn\<lparr>n_children := n_next n\<rparr>" using x True d(1) Nil by (simp add: v s1_def q_def)
        moreover have "filter (\<lambda>k. k \<noteq> a) (K ?d) = vs" using dist Nil by (simp add: K filter_other)
        ultimately show ?thesis using dist by (simp add: True sib path_upd)
      next
        case other: False
        then have "m = m0" using x m0 Nil by (simp add: v s1_def q_def)
        moreover have "a \<notin> set (K x)" using child_node[OF ok m0, of a] a(1) other by auto
        ultimately show ?thesis using chx by (simp add: sib path_upd filter_other)
      qed
    next
      case (snoc us' y)
      have qy: "q = y" "y \<noteq> 0" "y \<noteq> a" using snoc nz[of y] dist by (auto simp: q_def K)
      obtain yn where yn: "vnodes s y = Some yn" "n_parent yn = ?d" using mem[of y] by (auto simp: K snoc)
      have sib: "sib ?s = ((sib s)(y := sib s a))(a := None)"
        using qy a(1) yn(1) by (auto simp: fun_eq_iff sib_def v s1_def)
      have cm: "n_children m = n_children m0" using x m0 qy by (auto simp: v s1_def split: if_splits)
      show ?thesis
      proof (cases "x = ?d")
        case True
        then have mm: "m0 = dn" using m0 d(1) by simp
        have "chain ((sib s)(y := sib s a)) (ptr_of (n_children dn)) (us' @ y # vs)"
          by (rule chain_unlink) (use ch snoc in simp)
        moreover have "filter (\<lambda>k. k \<noteq> a) (K ?d) = us' @ y # vs" using dist qy(3) by (simp add: K snoc filter_other)
        moreover have "a \<notin> set (us' @ y # vs)" using dist snoc qy(3) by auto
        ultimately show ?thesis using True mm cm by (simp add: sib path_upd)
      next
        case other: False
        have "a \<notin> set (K x)" "y \<notin> set (K x)" using child_node[OF ok m0, of a] child_node[OF ok m0, of y] a(1) yn other by auto
        then show ?thesis using chx cm by (simp add: sib path_upd filter_other)
      qed
    qed
  qed
  moreover have "same_data s s'"
    unfolding s'_def s1_def by (auto intro!: same_data_upd same_data_refl)
  ultimately show thesis using run by (intro that)
qed

section \<open>Paths\<close>

function components :: "string \<Rightarrow> string list" where
  "components p =
     (let p = skip_slashes p
      in if p = [] then [] else takeWhile (\<lambda>c. c \<noteq> slash) p # components (dropWhile (\<lambda>c. c \<noteq> slash) p))"
  by pat_completeness auto
termination
proof (relation "measure length", goal_cases)
  case (2 p q)
  then have "q \<noteq> []" "hd q \<noteq> slash" using hd_dropWhile[of "\<lambda>c. c = slash" p] by (auto simp: skip_slashes_def)
  then have "length (dropWhile (\<lambda>c. c \<noteq> slash) q) < length q"
    by (cases q) (simp_all add: le_imp_less_Suc length_dropWhile_le)
  also have "\<dots> \<le> length p" unfolding 2 skip_slashes_def by (rule length_dropWhile_le)
  finally show ?case by simp
qed simp

declare components.simps [simp del]

fun walk :: "'a ramfs_scheme \<Rightarrow> (u32 \<Rightarrow> u32 list) \<Rightarrow> u32 \<Rightarrow> string list \<Rightarrow> u32 option" where
  "walk s K cur [] = Some cur"
| "walk s K cur (t # ts) =
     (if VFS_NAME_MAX < length t then None
      else if t = ''.'' then walk s K cur ts
      else if t = ''..'' then walk s K (if parent_of s cur = 0 then cur else parent_of s cur) ts
      else Option.bind (lookup s (K cur) t) (\<lambda>c. walk s K c ts))"

lemma skip_slashes_hd: "skip_slashes p \<noteq> [] \<Longrightarrow> hd (skip_slashes p) \<noteq> slash"
  using hd_dropWhile[of "\<lambda>c. c = slash" p] by (simp add: skip_slashes_def)

lemma skip_slashes_idem: "p = [] \<or> hd p \<noteq> slash \<Longrightarrow> skip_slashes p = p"
  by (cases p) (simp_all add: skip_slashes_def)

lemma components_skip: "components (skip_slashes p) = components p"
  by (subst (1 2) components.simps) (simp add: skip_slashes_def)

definition printed :: "'a ramfs_scheme \<Rightarrow> 'a ramfs_scheme \<Rightarrow> bool" where
  "printed s s' \<longleftrightarrow> (\<exists>es. s' = s\<lparr>console := console s @ es\<rparr>)"

lemma printed_refl [simp]: "printed s s"
  unfolding printed_def by (rule exI[of _ "[]"]) simp

lemma printed_con: "printed s s' \<Longrightarrow> printed s (con e s')"
  by (auto simp: printed_def con_def)

lemma printed_trans: "printed s s' \<Longrightarrow> printed s' s'' \<Longrightarrow> printed s s''"
  by (auto simp: printed_def)

lemma printed_same: "printed s s' \<Longrightarrow> vnodes s' = vnodes s"
  by (auto simp: printed_def)

lemma tree_printed: "printed s s' \<Longrightarrow> tree_ok s' K = tree_ok s K"
  by (auto simp: printed_def tree_ok_def dir_ok_def sib_def[abs_def] name_of_def[abs_def] parent_of_def)

lemma walk_printed: "printed s s' \<Longrightarrow> walk s' K cur ts = walk s K cur ts"
proof (induction ts arbitrary: cur)
  case (Cons t ts)
  have "lookup s' = lookup s" "parent_of s' = parent_of s"
    using printed_same[OF Cons.prems] by (simp_all add: fun_eq_iff lookup_def name_of_def parent_of_def)
  then show ?case using Cons by simp
qed simp

lemma path_step_tree:
  assumes ok: "tree_ok s K" and cur: "vnodes s cur \<noteq> None"
  obtains s' where "printed s s'"
    "path_step junk cur t s = Some (case walk s K cur [t] of None \<Rightarrow> Inr () | Some c \<Rightarrow> Inl c, s')"
    "\<forall>c. walk s K cur [t] = Some c \<longrightarrow> vnodes s c \<noteq> None"
proof -
  obtain n where n: "vnodes s cur = Some n" using cur by auto
  have d: "dir_ok s K cur n" by (rule tree_okD[OF ok n])
  have par: "parent_of s cur = n_parent n" by (simp add: parent_of_def n)
  consider "VFS_NAME_MAX < length t" | "t = ''.''" | "t = ''..''" | "length t \<le> VFS_NAME_MAX" "t \<noteq> ''.''" "t \<noteq> ''..''" by fastforce
  then show thesis
  proof cases
    case 1
    show thesis by (rule that[of "snd (the (path_step junk cur t s))"]) (use 1 in \<open>auto simp: path_step_def intro!: printed_con\<close>)
  next
    case 2
    show thesis by (rule that[of s]) (use 2 n in \<open>simp_all add: path_step_def\<close>)
  next
    case 3
    show thesis
    proof (cases "n_parent n = 0")
      case True
      show thesis
        by (rule that[of "snd (the (path_step junk cur t s))"])
          (use 3 n True par in \<open>auto simp: path_step_def intro!: printed_con\<close>)
    next
      case False
      then obtain m where "vnodes s (n_parent n) = Some m" using d by (auto simp: dir_ok_def)
      then show thesis using False
        by (intro that[of "snd (the (path_step junk cur t s))"])
          (use 3 n par in \<open>auto simp: path_step_def intro!: printed_con\<close>)
    qed
  next
    case 4
    have "lookup s (K cur) t = Some c \<Longrightarrow> c \<noteq> 0 \<and> vnodes s c \<noteq> None" for c
      using lookup_Some[of s "K cur" t c] child_node[OF ok n, of c] tree_node_0[OF ok] by auto
    then show thesis using 4 n d call_finddir_tree[OF ok n, of t]
      by (intro that[of s]) (auto simp: path_step_def dir_ok_def fns_ok_def split: option.splits)
  qed
qed

lemma path_walk_tree:
  assumes "tree_ok s K" "vnodes s cur \<noteq> None" "p = [] \<or> hd p \<noteq> slash"
  shows "\<exists>s'. path_walk junk cur p s = Some (case walk s K cur (components p) of None \<Rightarrow> 0 | Some c \<Rightarrow> c, s') \<and> printed s s'"
  using assms
proof (induction "length p" arbitrary: p cur s rule: less_induct)
  case less
  show ?case
  proof (cases "p = []")
    case True
    then show ?thesis by (simp add: path_walk.simps components.simps skip_slashes_def)
  next
    case False
    let ?t = "takeWhile (\<lambda>c. c \<noteq> slash) p" and ?rest = "dropWhile (\<lambda>c. c \<noteq> slash) p"
    have hd: "hd p \<noteq> slash" using less.prems(3) False by simp
    then have t: "?t \<noteq> []" using False by (cases p) auto
    have len: "length ?rest < length p" using hd False by (cases p) (simp_all add: le_imp_less_Suc length_dropWhile_le)
    have comp: "components p = ?t # components (skip_slashes ?rest)"
      using False skip_slashes_idem[of p] hd by (subst components.simps) (simp add: components_skip)
    obtain s1 where s1: "printed s s1" "path_step junk cur ?t s = Some (case walk s K cur [?t] of None \<Rightarrow> Inr () | Some c \<Rightarrow> Inl c, s1)"
      "\<forall>c. walk s K cur [?t] = Some c \<longrightarrow> vnodes s c \<noteq> None"
      by (rule path_step_tree[OF less.prems(1,2), where t = ?t and junk = junk])
    have step: "walk s K cur (components p) = Option.bind (walk s K cur [?t]) (\<lambda>c. walk s K c (components (skip_slashes ?rest)))"
      unfolding comp by (simp split: bind_splits)
    show ?thesis
    proof (cases "walk s K cur [?t]")
      case None
      then have "path_walk junk cur p s = Some (0, s1)" using False t s1(2) by (subst path_walk.simps) (simp add: Let_def)
      then show ?thesis using None s1(1) by (simp only: step) simp
    next
      case (Some c)
      have "length (skip_slashes ?rest) < length p" using len by (simp add: skip_slashes_def le_less_trans[OF length_dropWhile_le])
      moreover have "tree_ok s1 K" "vnodes s1 c \<noteq> None"
        using tree_printed[OF s1(1)] less.prems(1) printed_same[OF s1(1)] s1(3) Some by simp_all
      moreover have "skip_slashes ?rest = [] \<or> hd (skip_slashes ?rest) \<noteq> slash" using skip_slashes_hd by blast
      ultimately obtain s2 where s2: "path_walk junk c (skip_slashes ?rest) s1 =
          Some (case walk s1 K c (components (skip_slashes ?rest)) of None \<Rightarrow> 0 | Some c \<Rightarrow> c, s2)" "printed s1 s2"
        using less.hyps[of "skip_slashes ?rest" s1 c] by blast
      have "path_walk junk cur p s = path_walk junk c (skip_slashes ?rest) s1"
        using False t s1(2) Some by (subst path_walk.simps) (simp add: Let_def)
      then show ?thesis using s2 printed_trans[OF s1(1) s2(2)] Some walk_printed[OF s1(1)]
        by (simp only: step) simp
    qed
  qed
qed

end
