(* ===== verification/Ramfs_Spec.thy ===== *)
theory Ramfs_Spec
  imports Ramfs_Tree
begin

text \<open>
  The properties of the RAM file system: creating and deleting keep the tree and the storage sound,
  files are arrays of bytes, and paths are walks in the tree.
\<close>

section \<open>The invariant\<close>

definition fs_ok :: "'a ramfs_scheme \<Rightarrow> (u32 \<Rightarrow> nat option) \<Rightarrow> (u32 \<Rightarrow> u32 list) \<Rightarrow> bool" where
  "fs_ok s U K \<longleftrightarrow> store_ok s U \<and> tree_ok s K"

definition same_nodes :: "'a ramfs_scheme \<Rightarrow> 'a ramfs_scheme \<Rightarrow> u32 set \<Rightarrow> bool" where
  "same_nodes s s' A \<longleftrightarrow> (\<forall>b. b \<notin> A \<longrightarrow> contents s' b = contents s b)"

lemma live_not_0: "heap_ok s U \<Longrightarrow> U 0 = None"
  using live_aligned(2)[of s U 0] by (cases "U 0") auto

lemma contents_cong:
  assumes ok: "store_ok s U" and b: "vnodes s b = Some n" and m: "vnodes s' b = Some n'" "n_data n' = n_data n" "n_size n' = n_size n"
    and mem: "\<And>x e. U (n_data n) = Some e \<Longrightarrow> x \<in> payload (n_data n) e \<Longrightarrow> hmem s' x = hmem s x"
  shows "contents s' b = contents s b"
proof -
  have "bytes_at (hmem s') (n_data n) (unat (n_size n)) = bytes_at (hmem s) (n_data n) (unat (n_size n))"
  proof (cases "n_data n = 0")
    case True
    then show ?thesis using store_okD(2)[OF ok b] by (simp add: data_ok_def bytes_at_def)
  next
    case False
    then obtain e where e: "U (n_data n) = Some e" "unat (n_size n) \<le> e"
      using store_okD(2)[OF ok b] by (auto simp: data_ok_def)
    have "unat (n_size n) < 2 ^ 32" using data_small[OF ok b] by simp
    then show ?thesis using mem[OF e(1)] payload_mono[OF e(2), of "n_data n"] by (intro bytes_at_cong) auto
  qed
  then show ?thesis by (simp add: contents_def b m)
qed

section \<open>Creating\<close>

lemma store_add:
  assumes ok: "store_ok s U" and heap: "heap_ok s' (U(p \<mapsto> c))" and p: "U p = None" "292 \<le> c"
    and nodes: "\<And>b. b \<noteq> p \<Longrightarrow> map_option (\<lambda>n. (n_size n, n_data n)) (vnodes s' b) = map_option (\<lambda>n. (n_size n, n_data n)) (vnodes s b)"
    and new: "vnodes s' p = Some m" "n_data m = 0" "n_size m = 0" and files: "vfiles s' = vfiles s"
  shows "store_ok s' (U(p \<mapsto> c))"
proof -
  have old: "\<exists>k. vnodes s b = Some k \<and> n_data k = n_data n \<and> n_size k = n_size n" if "vnodes s' b = Some n" "b \<noteq> p" for b n
    using nodes[OF that(2)] that(1) by (cases "vnodes s b") auto
  have none: "vnodes s' b = None" if "vnodes s b = None" "b \<noteq> p" for b
    using nodes[OF that(2)] that(1) by (cases "vnodes s' b") auto
  have d: "data_of s' b = (if b = p then 0 else data_of s b)" for b
    using nodes[of b] new by (cases "b = p"; cases "vnodes s b"; cases "vnodes s' b") (simp_all add: data_of_def)
  have dist: "data_of s a = data_of s b \<Longrightarrow> data_of s a \<noteq> 0 \<Longrightarrow> a = b" for a b using ok by (auto simp: store_ok_def)
  have fs: "(\<exists>c \<ge> 12. U f = Some c) \<and> vnodes s f = None" if "vfiles s f \<noteq> None" for f using ok that by (auto simp: store_ok_def)
  show ?thesis
    unfolding store_ok_def
  proof (intro conjI allI impI)
    show "heap_ok s' (U(p \<mapsto> c))" by (rule heap)
    fix b n assume b: "vnodes s' b = Some n"
    show "\<exists>c' \<ge> 292. (U(p \<mapsto> c)) b = Some c'"
      using p(2) old[OF b] store_okD(3)[OF ok] by (cases "b = p") auto
    show "data_ok s' (U(p \<mapsto> c)) n"
    proof (cases "b = p")
      case True
      then show ?thesis using b new by (simp add: data_ok_def)
    next
      case False
      then obtain k where k: "vnodes s b = Some k" "n_data k = n_data n" "n_size k = n_size n" using old[OF b] by blast
      have "data_ok s U k" by (rule store_okD(2)[OF ok k(1)])
      then show ?thesis using p(1) none[of "n_data n"] k(2,3)
        by (cases "n_data n = p") (auto simp: data_ok_def files split: if_splits)
    qed
  next
    fix a b assume "data_of s' a = data_of s' b" "data_of s' a \<noteq> 0"
    then show "a = b" using dist[of a b] by (auto simp: d split: if_splits)
  next
    fix f assume "vfiles s' f \<noteq> None"
    then have f: "(\<exists>c \<ge> 12. U f = Some c) \<and> vnodes s f = None" using fs by (simp add: files)
    then have "f \<noteq> p" using p(1) by auto
    then show "\<exists>c' \<ge> 12. (U(p \<mapsto> c)) f = Some c'" "vnodes s' f = None" using f none by auto
  qed
qed

lemma ramfs_create_run:
  assumes ok: "fs_ok s U K" and d: "vnodes s d = Some n" "is_directory n" and nm: "length name \<le> VFS_NAME_MAX"
  shows "\<exists>r s'. ramfs_create d name ty s = Some (r, s') \<and>
    (if lookup s (K d) name \<noteq> None then r = - 2 \<and> s' = s
     else r = - 3 \<and> s' = s \<and> kmalloc sizeof_vfs_node s = Some (0, s) \<or>
       r = 0 \<and> (\<exists>p c. U p = None \<and> c \<le> 614 \<and> fs_ok s' (U(p \<mapsto> c)) (K(d := p # K d, p := [])) \<and> ramfs_find d name s' = Some p \<and>
         map_option n_type (vnodes s' p) = Some ty \<and> contents s' p = [] \<and> same_nodes s s' {p} \<and> ramfs_root s' = ramfs_root s))"
proof -
  have st: "store_ok s U" and tr: "tree_ok s K" using ok by (simp_all add: fs_ok_def)
  note so = store_okD[OF st d(1)]
  have find: "ramfs_find d name s = Some (case lookup s (K d) name of None \<Rightarrow> 0 | Some k \<Rightarrow> k)"
    using call_finddir_tree[OF tr d(1)] so(4) by (simp add: ramfs_find_def)
  have run: "ramfs_create d name ty s = (if lookup s (K d) name \<noteq> None then Some (- 2, s)
      else Option.bind (create_vfs_node name ty s) (\<lambda>(p, s). if p = 0 then Some (- 3, s) else map_option (Pair 0) (add_child d p s)))"
  proof (cases "lookup s (K d) name")
    case None
    then show ?thesis using d so(4) find by (simp add: ramfs_create_def)
  next
    case (Some k)
    then have "k \<noteq> 0" using lookup_Some[OF Some] child_node[OF tr d(1), of k] tree_node_0[OF tr] by blast
    then show ?thesis using d so(4) find Some by (simp add: ramfs_create_def)
  qed
  show ?thesis
  proof (cases "lookup s (K d) name")
    case (Some k)
    then show ?thesis using run by simp
  next
    case None
    show ?thesis
    proof (rule kmalloc_cases[OF so(1), of sizeof_vfs_node])
      assume "kmalloc sizeof_vfs_node s = Some (0, s)"
      then show ?thesis using run None by (simp add: create_vfs_node_def)
    next
      fix p s1 c
      assume k: "kmalloc sizeof_vfs_node s = Some (p, s1)" "p \<noteq> 0" "U p = None" "unat sizeof_vfs_node \<le> c" "heap_ok s1 (U(p \<mapsto> c))"
        "\<And>q e x. U q = Some e \<Longrightarrow> x \<in> payload q e \<Longrightarrow> hmem s1 x = hmem s x" "c \<le> 2 * unat sizeof_vfs_node + 30"
      note f = heap_only_ramfs[OF kmalloc_only[OF k(1)]]
      have pn: "vnodes s p = None" using store_okD(3)[OF st, of p] k(3) by (cases "vnodes s p") auto
      have dp: "d \<noteq> p" using d(1) pn by auto
      define m where "m = (new_node name ty)\<lparr>n_parent := d, n_next := n_children n\<rparr>"
      define s' where "s' = s1\<lparr>vnodes := (vnodes s)(p \<mapsto> m, d \<mapsto> n\<lparr>n_children := p\<rparr>)\<rparr>"
      have run': "ramfs_create d name ty s = Some (0, s')"
        using run None k(1,2) d dp by (simp add: create_vfs_node_def add_child_def upd_node_def f s'_def m_def fun_upd_twist)
      have m: "n_name m = name" "n_data m = 0" "n_size m = 0" "n_type m = ty" "fns_ok m" "n_children m = 0" "n_parent m = d" "n_next m = n_children n"
        using nm by (simp_all add: m_def new_node_def fns_ok_def)
      have tree: "tree_ok s' (K(d := p # K d, p := []))"
        by (rule tree_add[OF tr d pn k(2), of m]) (use None m in \<open>simp_all add: s'_def\<close>)
      have "292 \<le> c" using k(4) by (simp add: sizeof_vfs_node_def)
      then have store: "store_ok s' (U(p \<mapsto> c))"
        by (intro store_add[OF st, where m = m]) (use k m dp d(1) in \<open>auto simp: s'_def f\<close>)
      have vd: "vnodes s' d = Some (n\<lparr>n_children := p\<rparr>)" by (simp add: s'_def)
      have found: "ramfs_find d name s' = Some p"
        using call_finddir_tree[OF tree vd, of name] so(4) dp m(1)
        by (simp add: ramfs_find_def lookup_def name_of_def s'_def)
      have same: "contents s' b = contents s b" if b: "b \<noteq> p" for b
      proof (cases "vnodes s b")
        case None
        then show ?thesis using b d(1) by (auto simp: contents_def s'_def)
      next
        case (Some k')
        show ?thesis
          by (rule contents_cong[OF st Some, where n' = "if b = d then n\<lparr>n_children := p\<rparr> else k'"])
            (use b Some d(1) k(6) in \<open>auto simp: s'_def\<close>)
      qed
      have "contents s' p = []" using dp m by (simp add: contents_def s'_def bytes_at_def)
      moreover have "map_option n_type (vnodes s' p) = Some ty" using dp m by (simp add: s'_def)
      moreover have "c \<le> 614" using k(7) by (simp add: sizeof_vfs_node_def)
      moreover have "ramfs_root s' = ramfs_root s" by (simp add: s'_def f)
      ultimately show ?thesis using run' None tree store found same k(3)
        by (intro exI[of _ 0] exI[of _ s']) (auto simp: fs_ok_def same_nodes_def)
    qed
  qed
qed

section \<open>Deleting\<close>

lemma store_remove:
  assumes ok: "store_ok s U" and a: "vnodes s a = Some n" and heap: "heap_ok s' (U(n_data n := None, a := None))"
    and nodes: "\<And>b. map_option (\<lambda>n. (n_size n, n_data n)) (vnodes s' b) = (if b = a then None else map_option (\<lambda>n. (n_size n, n_data n)) (vnodes s b))"
    and files: "vfiles s' = vfiles s"
  shows "store_ok s' (U(n_data n := None, a := None))"
proof -
  let ?U = "U(n_data n := None, a := None)"
  have none: "vnodes s' a = None" using nodes[of a] by simp
  have old: "b \<noteq> a \<and> (\<exists>k. vnodes s b = Some k \<and> n_data k = n_data m \<and> n_size k = n_size m)" if "vnodes s' b = Some m" for b m
    using nodes[of b] that by (cases "vnodes s b") (auto split: if_splits)
  have gone: "vnodes s' b = None" if "vnodes s b = None" for b
    using nodes[of b] that by (cases "vnodes s' b") (auto split: if_splits)
  have d: "data_of s' b = (if b = a then 0 else data_of s b)" for b
    using nodes[of b] none by (cases "b = a"; cases "vnodes s b"; cases "vnodes s' b") (simp_all add: data_of_def)
  have dist: "data_of s a = data_of s b \<Longrightarrow> data_of s a \<noteq> 0 \<Longrightarrow> a = b" for a b using ok by (auto simp: store_ok_def)
  have fs: "(\<exists>c \<ge> 12. U f = Some c) \<and> vnodes s f = None" if "vfiles s f \<noteq> None" for f using ok that by (auto simp: store_ok_def)
  have dn: "data_ok s U n" by (rule store_okD(2)[OF ok a])
  have f0: "f \<noteq> 0" if "U f \<noteq> None" for f using that live_not_0[OF store_okD(1)[OF ok a]] by auto
  show ?thesis
    unfolding store_ok_def
  proof (intro conjI allI impI)
    show "heap_ok s' ?U" by (rule heap)
    fix b m assume b: "vnodes s' b = Some m"
    obtain k where k: "b \<noteq> a" "vnodes s b = Some k" "n_data k = n_data m" "n_size k = n_size m" using old[OF b] by blast
    have "b \<noteq> n_data n" using dn k(2) store_okD(4)[OF ok k(2)] by (auto simp: data_ok_def split: if_splits)
    then show "\<exists>c' \<ge> 292. ?U b = Some c'" using store_okD(3)[OF ok k(2)] k(1) by auto
    have "data_ok s U k" by (rule store_okD(2)[OF ok k(2)])
    moreover have "n_data m \<noteq> n_data n" if "n_data m \<noteq> 0"
      using dist[of b a] k a that by (auto simp: data_of_def)
    moreover have "n_data m \<noteq> a" if "n_data m \<noteq> 0" using calculation(1) a k(3) that by (auto simp: data_ok_def)
    ultimately show "data_ok s' ?U m" using gone[of "n_data m"] k(3,4) by (auto simp: data_ok_def files)
  next
    fix x y assume "data_of s' x = data_of s' y" "data_of s' x \<noteq> 0"
    then show "x = y" using dist[of x y] by (auto simp: d split: if_splits)
  next
    fix f assume "vfiles s' f \<noteq> None"
    then have f: "(\<exists>c \<ge> 12. U f = Some c) \<and> vnodes s f = None" "vfiles s f \<noteq> None" using fs by (simp_all add: files)
    then have "f \<noteq> a" "f \<noteq> n_data n" using a dn f0[of f] by (auto simp: data_ok_def split: if_splits)
    then show "\<exists>c' \<ge> 12. ?U f = Some c'" "vnodes s' f = None" using f gone by auto
  qed
qed

lemma tree_ok_links:
  assumes "tree_ok s K" "\<And>b. map_option (\<lambda>n. (skel n, n_children n, n_next n)) (vnodes s' b) = map_option (\<lambda>n. (skel n, n_children n, n_next n)) (vnodes s b)"
  shows "tree_ok s' K"
proof -
  have pt: "sib s' b = sib s b" "name_of s' b = name_of s b" "parent_of s' b = parent_of s b" "(vnodes s' b = None) = (vnodes s b = None)" for b
    using assms(2)[of b]
    by (cases "vnodes s b"; cases "vnodes s' b"; simp add: sib_def name_of_def parent_of_def skel_def)+
  then have eq: "sib s' = sib s" "name_of s' = name_of s" "parent_of s' = parent_of s" "(vnodes s' b = None) = (vnodes s b = None)" for b
    by (simp_all add: fun_eq_iff)
  have "dir_ok s' K d n" if d: "vnodes s' d = Some n" for d n
  proof -
    obtain m where m: "vnodes s d = Some m" "skel m = skel n" "n_children m = n_children n"
      using assms(2)[of d] d by (cases "vnodes s d") auto
    have "dir_ok s K d m" by (rule tree_okD[OF assms(1) m(1)])
    moreover have "is_directory n = is_directory m" "fns_ok n = fns_ok m" "n_parent n = n_parent m"
      using m(2) by (auto simp: skel_def is_directory_def fns_ok_def)
    ultimately show ?thesis using m(3) by (simp add: dir_ok_def eq)
  qed
  then show ?thesis using assms(1) eq(4) by (simp add: tree_ok_def)
qed

lemma ramfs_delete_run:
  assumes ok: "fs_ok s U K" and a: "vnodes s a = Some n" "a \<noteq> ramfs_root s"
  shows "\<exists>r s'. ramfs_delete a s = Some (r, s') \<and>
    (if K a \<noteq> [] then r = - 2 \<and> s' = s
     else r = 0 \<and> vnodes s' a = None \<and> fs_ok s' (U(n_data n := None, a := None)) (without a K) \<and>
       same_nodes s s' {a} \<and> ramfs_root s' = ramfs_root s)"
proof -
  have st: "store_ok s U" and tr: "tree_ok s K" using ok by (simp_all add: fs_ok_def)
  note so = store_okD[OF st a(1)]
  have dok: "dir_ok s K a n" by (rule tree_okD[OF tr a(1)])
  have kids: "n_children n \<noteq> 0 \<longleftrightarrow> K a \<noteq> []"
    using dok by (cases "K a") (auto simp: dir_ok_def)
  show ?thesis
  proof (cases "K a = []")
    case False
    then have "is_directory n" using dok by (auto simp: dir_ok_def)
    then show ?thesis using False a kids so(4) by (simp add: ramfs_delete_def)
  next
    case True
    obtain s1 where s1: "(if n_data n \<noteq> 0 then map_option (upd_node a (\<lambda>n. n\<lparr>n_data := 0\<rparr>)) (kfree (n_data n) s) else Some s) = Some s1"
      "heap_ok s1 (U(n_data n := None))" "vnodes s1 = (vnodes s)(a \<mapsto> n\<lparr>n_data := 0\<rparr>)" "vfiles s1 = vfiles s" "ramfs_root s1 = ramfs_root s"
      "\<And>q e x. U q = Some e \<Longrightarrow> q \<noteq> n_data n \<Longrightarrow> x \<in> payload q e \<Longrightarrow> hmem s1 x = hmem s x"
    proof (cases "n_data n = 0")
      case True
      have "U(0 := None) = U" using live_not_0[OF so(1)] by auto
      moreover have "n\<lparr>n_data := 0\<rparr> = n" using True by simp
      ultimately show thesis using True a(1) so(1) by (intro that[of s]) (auto simp: fun_upd_idem)
    next
      case False
      then obtain e where e: "U (n_data n) = Some e" using so(2) by (auto simp: data_ok_def)
      obtain s2 where s2: "kfree (n_data n) s = Some s2" "heap_ok s2 (U(n_data n := None))"
        "\<And>q d x. q \<noteq> n_data n \<Longrightarrow> U q = Some d \<Longrightarrow> x \<in> payload q d \<Longrightarrow> hmem s2 x = hmem s x"
        by (rule kfree_live[OF so(1) e]) (use that in auto)
      note f = heap_only_ramfs[OF kfree_only[OF s2(1)]]
      show thesis using False s2 a(1)
        by (intro that[of "upd_node a (\<lambda>n. n\<lparr>n_data := 0\<rparr>) s2"]) (auto simp: f fun_eq_iff)
    qed
    have tr1: "tree_ok s1 K" by (rule tree_ok_links[OF tr]) (use a(1) in \<open>auto simp: s1(3) skel_def\<close>)
    obtain s2 where s2: "remove_child a s1 = Some s2" "tree_ok (s2\<lparr>vnodes := (vnodes s2)(a := None)\<rparr>) (without a K)" "same_data s1 s2"
      by (rule remove_child_tree[OF tr1 _ True, of "n\<lparr>n_data := 0\<rparr>"]) (use a(1) s1(3) in auto)
    obtain ns where ns: "s2 = s1\<lparr>vnodes := ns\<rparr>" "\<And>b. map_option (\<lambda>n. (n_name n, n_type n, n_size n, n_data n)) (ns b) =
        map_option (\<lambda>n. (n_name n, n_type n, n_size n, n_data n)) (vnodes s1 b)"
      using s2(3) by (auto simp: same_data_def)
    obtain c where c: "U a = Some c" using so(3) by blast
    have an: "a \<noteq> n_data n" using so(2,4) a(1) by (auto simp: data_ok_def split: if_splits)
    have ok2: "heap_ok s2 (U(n_data n := None))" "(U(n_data n := None)) a = Some c" using s1(2) c an by (simp_all add: ns(1))
    obtain s3 where s3: "kfree a s2 = Some s3" "heap_ok s3 (U(n_data n := None, a := None))"
      "\<And>q d x. q \<noteq> a \<Longrightarrow> (U(n_data n := None)) q = Some d \<Longrightarrow> x \<in> payload q d \<Longrightarrow> hmem s3 x = hmem s2 x"
      by (rule kfree_live[OF ok2]) (use that in auto)
    note f = heap_only_ramfs[OF kfree_only[OF s3(1)]]
    define s' where "s' = s3\<lparr>vnodes := (vnodes s3)(a := None)\<rparr>"
    have run: "ramfs_delete a s = Some (0, s')"
      using a so(4) kids True s1(1) s2(1) s3(1) by (simp add: ramfs_delete_def free_node_def s'_def)
    have v: "vnodes s' b = (if b = a then None else ns b)" for b by (simp add: s'_def f ns(1))
    have nb: "map_option (\<lambda>n. (n_name n, n_type n, n_size n, n_data n)) (ns b) = map_option (\<lambda>n. (n_name n, n_type n, n_size n, n_data n)) (vnodes s b)" if "b \<noteq> a" for b
      using ns(2)[of b] that by (simp add: s1(3))
    have sz: "map_option (\<lambda>n. (n_size n, n_data n)) (vnodes s' b) = (if b = a then None else map_option (\<lambda>n. (n_size n, n_data n)) (vnodes s b))" for b
      using nb[of b] by (cases "ns b"; cases "vnodes s b") (auto simp: v)
    have "store_ok s' (U(n_data n := None, a := None))"
      by (rule store_remove[OF st a(1)]) (use s3(2) sz in \<open>simp_all add: s'_def f ns(1) s1(4)\<close>)
    moreover have "tree_ok s' (without a K)"
      by (rule tree_ok_links[OF s2(2)]) (simp add: s'_def f)
    moreover have "contents s' b = contents s b" if b: "b \<noteq> a" for b
    proof (cases "vnodes s b")
      case None
      then show ?thesis using sz[of b] b by (simp add: contents_def)
    next
      case (Some m)
      obtain m' where m': "vnodes s' b = Some m'" "n_data m' = n_data m" "n_size m' = n_size m"
        using sz[of b] b Some by (cases "vnodes s' b") auto
      have da: "n_data m \<noteq> n_data n" "n_data m \<noteq> a" if "U (n_data m) = Some e" for e
      proof -
        have "n_data m \<noteq> 0" using that live_not_0[OF so(1)] by auto
        moreover have "data_of s b = n_data m" "data_of s a = n_data n" using Some a(1) by (simp_all add: data_of_def)
        ultimately show "n_data m \<noteq> n_data n" using st b unfolding store_ok_def by metis
        have "vnodes s (n_data m) = None" using \<open>n_data m \<noteq> 0\<close> store_okD(2)[OF st Some] by (simp add: data_ok_def)
        then show "n_data m \<noteq> a" using a(1) by auto
      qed
      show ?thesis
        by (rule contents_cong[OF st Some m'])
          (use da s3(3) s1(6) in \<open>auto simp: s'_def ns(1)\<close>)
    qed
    ultimately show ?thesis using run True
      by (intro exI[of _ 0] exI[of _ s']) (simp add: fs_ok_def same_nodes_def v, simp add: s'_def f ns(1) s1(5))
  qed
qed

section \<open>Open files\<close>

lemma store_ok_cong:
  assumes "store_ok s U" "heap_ok s' U" "vnodes s' = vnodes s" "\<And>f. (vfiles s' f = None) = (vfiles s f = None)"
  shows "store_ok s' U"
proof -
  have "data_of s' = data_of s" "data_ok s' U = data_ok s U"
    using assms(3,4) by (simp_all add: fun_eq_iff data_of_def data_ok_def)
  then show ?thesis using assms by (simp add: store_ok_def)
qed

lemma store_ok_files:
  "store_ok s U \<Longrightarrow> vfiles s f \<noteq> None \<Longrightarrow> store_ok (s\<lparr>vfiles := (vfiles s)(f \<mapsto> x)\<rparr>) U"
  by (rule store_ok_cong) (auto simp: store_ok_def)

lemma tree_ok_files: "tree_ok (s\<lparr>vfiles := v\<rparr>) K = tree_ok s K" "tree_ok (s\<lparr>hmem := m\<rparr>) K = tree_ok s K"
  by (auto simp: tree_ok_def dir_ok_def sib_def[abs_def] name_of_def[abs_def] parent_of_def)

lemma contents_files [simp]: "contents (s\<lparr>vfiles := v\<rparr>) = contents s"
  by (auto simp: fun_eq_iff contents_def split: option.splits)

lemma advance_position:
  assumes "vfiles s f = Some fl"
  shows "advance f (int m) s = s\<lparr>vfiles := (vfiles s)(f \<mapsto> fl\<lparr>f_position := f_position fl + of_nat m\<rparr>)\<rparr>"
  using assms by (cases "m = 0") (simp_all add: advance_def fun_upd_idem)

text \<open>A file handle on node \<open>a\<close>, whose object is \<open>n\<close>, with the right \<open>flag\<close>.\<close>

definition handle :: "'a ramfs_scheme \<Rightarrow> u32 \<Rightarrow> vfs_file \<Rightarrow> u32 \<Rightarrow> vfs_node \<Rightarrow> bool" where
  "handle s f fl flag n \<longleftrightarrow> vfiles s f = Some fl \<and> f_flags fl AND flag \<noteq> 0 \<and> vnodes s (f_node fl) = Some n \<and> is_file n"

lemma handle_ok:
  assumes "fs_ok s U K" "handle s f fl flag n"
  shows "f \<noteq> 0" "fns_ok n" "store_ok s U" "tree_ok s K" "vnodes s (f_node fl) = Some n" "is_file n" "vfiles s f = Some fl"
proof -
  show st: "store_ok s U" "tree_ok s K" "vnodes s (f_node fl) = Some n" "is_file n" "vfiles s f = Some fl"
    using assms by (simp_all add: fs_ok_def handle_def)
  have "\<exists>c \<ge> 12. U f = Some c" using st(1,5) by (auto simp: store_ok_def)
  then show "f \<noteq> 0" using live_not_0[OF store_okD(1)[OF st(1,3)]] by auto
  show "fns_ok n" using tree_okD[OF st(2,3)] by (simp add: dir_ok_def)
qed

lemma ramfs_write_run:
  assumes ok: "fs_ok s U K" and h: "handle s f fl O_WRITE n"
    and buf: "buffer_ok U (n_data n) buf (unat sz)" and fits: "unat (f_position fl) + unat sz < 2 ^ 31"
  shows "ramfs_write f sz buf s = Some (- 1, s) \<and> unat (n_size n) < unat (f_position fl) + unat sz \<or>
    (\<exists>s' U' n'. ramfs_write f sz buf s = Some (int (unat sz), s') \<and> fs_ok s' U' K \<and> moved U (n_data n) U' (n_data n') \<and>
       vnodes s' = (vnodes s)(f_node fl \<mapsto> n') \<and> n' = n\<lparr>n_data := n_data n', n_size := n_size n'\<rparr> \<and>
       vfiles s' = (vfiles s)(f \<mapsto> fl\<lparr>f_position := f_position fl + sz\<rparr>) \<and>
       contents s' (f_node fl) = splice (contents s (f_node fl)) (unat (f_position fl)) (bytes_at (hmem s) buf (unat sz)) \<and>
       same_nodes s s' {f_node fl} \<and> ramfs_root s' = ramfs_root s)"
proof -
  note ho = handle_ok[OF ok h]
  have run: "ramfs_write f sz buf s = map_option (\<lambda>(n, s). (n, advance f n s)) (default_write (f_node fl) (f_position fl) sz buf s)"
    using h ho(1,2) by (simp add: ramfs_write_def handle_def call_write_def fns_ok_def)
  show ?thesis
  proof (rule default_write_spec[OF ho(3,5,6) buf fits])
    assume "default_write (f_node fl) (f_position fl) sz buf s = Some (- 1, s)" "unat (n_size n) < unat (f_position fl) + unat sz"
    then show ?thesis using run by (simp add: advance_def)
  next
    fix s' n' U'
    assume w: "default_write (f_node fl) (f_position fl) sz buf s = Some (int (unat sz), s')"
      "store_ok s' U'" "moved U (n_data n) U' (n_data n')" "vnodes s' = (vnodes s)(f_node fl \<mapsto> n')" "vfiles s' = vfiles s"
      "ramfs_root s' = ramfs_root s" "n' = n\<lparr>n_data := n_data n', n_size := n_size n'\<rparr>"
      "contents s' (f_node fl) = splice (contents s (f_node fl)) (unat (f_position fl)) (bytes_at (hmem s) buf (unat sz))"
      "\<And>b. b \<noteq> f_node fl \<Longrightarrow> contents s' b = contents s b"
    let ?s = "s'\<lparr>vfiles := (vfiles s')(f \<mapsto> fl\<lparr>f_position := f_position fl + sz\<rparr>)\<rparr>"
    have r: "ramfs_write f sz buf s = Some (int (unat sz), ?s)"
      using run w(1) advance_position[of s' f fl "unat sz"] ho(7) by (simp add: w(5))
    have "store_ok ?s U'" by (rule store_ok_files[OF w(2)]) (simp add: w(5) ho(7))
    moreover have "tree_ok ?s K"
    proof (rule tree_ok_links[OF ho(4)])
      have "skel n' = skel n" "n_children n' = n_children n" "n_next n' = n_next n"
        using arg_cong[OF w(7), of skel] arg_cong[OF w(7), of n_children] arg_cong[OF w(7), of n_next] by (simp_all add: skel_def)
      then show "map_option (\<lambda>n. (skel n, n_children n, n_next n)) (vnodes ?s b) = map_option (\<lambda>n. (skel n, n_children n, n_next n)) (vnodes s b)" for b
        by (simp add: w(4) ho(5))
    qed
    ultimately have "fs_ok ?s U' K" by (simp add: fs_ok_def)
    moreover have "same_nodes s ?s {f_node fl}" using w(9) by (simp add: same_nodes_def)
    ultimately show ?thesis using r w(3,4,6-8)
      by (intro disjI2 exI[of _ ?s] exI[of _ U'] exI[of _ n']) (simp add: w(5))
  qed
qed

lemma ramfs_read_run:
  assumes ok: "fs_ok s U K" and h: "handle s f fl O_READ n"
    and buf: "buffer_ok U (n_data n) buf (unat sz)" and fits: "unat (f_position fl) + unat sz < 2 ^ 31"
  defines "bs \<equiv> take (unat sz) (drop (unat (f_position fl)) (contents s (f_node fl)))"
  shows "\<exists>s'. ramfs_read f sz buf s = Some (int (length bs), s') \<and> fs_ok s' U K \<and> bytes_at (hmem s') buf (length bs) = bs \<and>
    vnodes s' = vnodes s \<and> vfiles s' = (vfiles s)(f \<mapsto> fl\<lparr>f_position := f_position fl + of_nat (length bs)\<rparr>) \<and>
    contents s' (f_node fl) = contents s (f_node fl) \<and> (\<forall>x. x \<notin> payload buf (length bs) \<longrightarrow> hmem s' x = hmem s x)"
proof -
  note ho = handle_ok[OF ok h]
  note so = store_okD[OF ho(3,5)]
  let ?k = "min (unat sz) (unat (n_size n) - unat (f_position fl))"
  have run: "ramfs_read f sz buf s = map_option (\<lambda>(n, s). (n, advance f n s)) (default_read (f_node fl) (f_position fl) sz buf s)"
    using h ho(1,2) by (simp add: ramfs_read_def handle_def call_read_def fns_ok_def)
  have k: "length bs = ?k" by (simp add: bs_def contents_def ho(5))
  obtain m where m: "default_read (f_node fl) (f_position fl) sz buf s = Some (int ?k, s\<lparr>hmem := m\<rparr>)"
    "bytes_at m buf ?k = take (unat sz) (drop (unat (f_position fl)) (contents s (f_node fl)))" "\<And>x. x \<notin> payload buf ?k \<Longrightarrow> m x = hmem s x"
    by (rule default_read_spec[OF ho(3,5,6) buf, where offset = "f_position fl"]) (use fits in simp, rule that)
  have adv: "advance f (int ?k) (s\<lparr>hmem := m\<rparr>) = s\<lparr>hmem := m, vfiles := (vfiles s)(f \<mapsto> fl\<lparr>f_position := f_position fl + of_nat ?k\<rparr>)\<rparr>"
    using advance_position[of "s\<lparr>hmem := m\<rparr>" f fl ?k] ho(7) by simp
  let ?s = "s\<lparr>hmem := m, vfiles := (vfiles s)(f \<mapsto> fl\<lparr>f_position := f_position fl + of_nat ?k\<rparr>)\<rparr>"
  have sub: "payload buf ?k \<subseteq> payload buf (unat sz)" by (rule payload_mono) simp
  have "heap_ok (s\<lparr>hmem := m\<rparr>) U"
  proof (rule client_write[OF so(1)])
    fix x show "m x = hmem s x \<or> \<not> in_region x \<or> (\<exists>q e. U q = Some e \<and> x \<in> payload q e)"
      using m(3)[of x] sub buf by (auto simp: buffer_ok_def)
  qed
  then have "store_ok (s\<lparr>hmem := m\<rparr>) U" by (rule store_ok_cong[OF ho(3)]) simp_all
  then have "store_ok ?s U" using store_ok_files[of "s\<lparr>hmem := m\<rparr>" U f] ho(7) by simp
  moreover have "tree_ok ?s K" using ho(4) by (simp add: tree_ok_files)
  moreover have "contents ?s (f_node fl) = contents s (f_node fl)"
  proof (rule contents_cong[OF ho(3,5)])
    fix x e assume e: "U (n_data n) = Some e" "x \<in> payload (n_data n) e"
    then have "x \<notin> payload buf (unat sz)" using buffer_apart[OF so(1) e(1) buf] by blast
    then show "hmem ?s x = hmem s x" using m(3)[of x] sub by auto
  qed (simp_all add: ho(5))
  ultimately show ?thesis using run m adv unfolding k
    by (intro exI[of _ ?s]) (simp add: fs_ok_def bs_def)
qed

lemma moved_buffer:
  assumes "moved U d U' d'" "buffer_ok U d buf n" "heap_ok s U"
  shows "buffer_ok U' d' buf n"
  unfolding buffer_ok_def
proof
  fix x assume "x \<in> payload buf n"
  then consider "\<not> in_region x" | q e where "U q = Some e" "q \<noteq> d" "x \<in> payload q e" using assms(2) by (auto simp: buffer_ok_def)
  then show "\<not> in_region x \<or> (\<exists>q e. U' q = Some e \<and> q \<noteq> d' \<and> x \<in> payload q e)"
  proof cases
    case 2
    then have "U' q = Some e" "q \<noteq> d'" using assms(1) by (auto simp: moved_def)
    then show ?thesis using 2(3) by blast
  qed simp
qed

section \<open>A file system with one file\<close>

definition demo_ramfs :: ramfs where
  "demo_ramfs = \<lparr>console = [], port_out = [], port_in = (\<lambda>_ _. 0), port_reads = (\<lambda>_. 0), iflag = True,
     hmem = (\<lambda>_. 0x41), free_lists = (\<lambda>_. 0), heap_top = 0, vnodes = (\<lambda>_. None), vfiles = (\<lambda>_. None), ramfs_root = 0, ramfs_cwd = 0\<rparr>"

lemma alloc_some:
  assumes "n \<le> 100"
  shows "\<exists>(s :: ramfs) U ps. heap_ok s U \<and> dom U = set ps \<and> length ps = n \<and> distinct ps \<and> (\<forall>p c. U p = Some c \<longrightarrow> 292 \<le> c \<and> c \<le> 614)"
  using assms
proof (induction n)
  case 0
  obtain h where "heap_ok (h :: ramfs) (\<lambda>_. None)" by (rule kmalloc_init_ok[of demo_ramfs])
  then show ?case by (intro exI[of _ h] exI[of _ "\<lambda>_. None"]) simp
next
  case (Suc n)
  then obtain s :: ramfs and U ps where i: "heap_ok s U" "dom U = set ps" "length ps = n" "distinct ps" "\<And>p c. U p = Some c \<Longrightarrow> 292 \<le> c \<and> c \<le> 614"
    by (metis Suc_leD)
  have fin: "finite (dom U)" "card (dom U) < 2 ^ (22 - 10)" using i(2-4) Suc.prems by (simp_all add: distinct_card)
  have room: "c + 16 \<le> 2 ^ 10" if "U p = Some c" for p c using i(5)[OF that] by simp
  obtain p c and s' :: ramfs where k: "U p = None" "heap_ok s' (U(p \<mapsto> c))" "292 \<le> c" "c \<le> 614"
    by (rule kmalloc_room[OF i(1) _ fin room, where sz = sizeof_vfs_node]) (simp_all add: sizeof_vfs_node_def)
  define V where "V = U(p \<mapsto> c)"
  have "\<forall>q d. V q = Some d \<longrightarrow> 292 \<le> d \<and> d \<le> 614" using i(5) k(3,4) by (simp add: V_def)
  moreover have "dom V = set (p # ps)" using i(2) by (simp add: V_def)
  moreover have "distinct (p # ps)" using i(2,4) k(1) by (auto simp: domIff)
  moreover have "heap_ok s' V" using k(2) by (simp add: V_def)
  ultimately show ?case using i(3) by (intro exI[of _ s'] exI[of _ V] exI[of _ "p # ps"]) simp
qed

definition one_file :: "ramfs \<Rightarrow> (u32 \<Rightarrow> nat option) \<Rightarrow> u32 \<Rightarrow> u32 \<Rightarrow> u32 \<Rightarrow> u32 \<Rightarrow> bool" where
  "one_file s U r a f g \<longleftrightarrow> fs_ok s U ((\<lambda>_. [])(r := [a])) \<and> r \<noteq> a \<and> f \<noteq> g \<and> ramfs_root s = r \<and> ramfs_cwd s = r \<and> dom U = {r, a, f, g, data_of s a} \<and>
     (\<forall>p c. U p = Some c \<longrightarrow> c \<le> 614) \<and> data_of s a \<noteq> 0 \<and>
     vnodes s r = Some ((new_node ''/'' FS_DIRECTORY)\<lparr>n_children := a\<rparr>) \<and>
     vnodes s a = Some ((new_node ''a'' FS_FILE)\<lparr>n_parent := r, n_data := data_of s a, n_size := 16\<rparr>) \<and>
     vfiles s f = Some \<lparr>f_node = a, f_flags = O_WRITE, f_position = 0\<rparr> \<and> vfiles s g = Some \<lparr>f_node = a, f_flags = O_READ, f_position = 0\<rparr>"

lemma one_file:
  obtains s U r a f g where "one_file s U r a f g"
proof -
  obtain h :: ramfs and U ps where h: "heap_ok h U" "dom U = set ps" "length ps = 5" "distinct ps" "\<And>p c. U p = Some c \<Longrightarrow> 292 \<le> c \<and> c \<le> 614"
    using alloc_some[of 5] by auto
  then obtain r a d f g where ps: "ps = [r, a, d, f, g]" by (auto simp: length_Suc_conv eval_nat_numeral)
  have z: "x \<noteq> 0" if "x \<in> set ps" for x using that h(2) live_not_0[OF h(1)] by (auto simp: domIff)
  have cap: "\<exists>c. U x = Some c \<and> 292 \<le> c" if "x \<in> set ps" for x
    using that h(2,5) by blast
  note neq = h(4)[unfolded ps]
  define nr where "nr = (new_node ''/'' FS_DIRECTORY)\<lparr>n_children := a\<rparr>"
  define na where "na = (new_node ''a'' FS_FILE)\<lparr>n_parent := r, n_data := d, n_size := 16\<rparr>"
  define s where "s = h\<lparr>vnodes := [r \<mapsto> nr, a \<mapsto> na], ramfs_root := r, ramfs_cwd := r,
    vfiles := [f \<mapsto> \<lparr>f_node = a, f_flags = O_WRITE, f_position = 0\<rparr>, g \<mapsto> \<lparr>f_node = a, f_flags = O_READ, f_position = 0\<rparr>]\<rparr>"
  have v: "vnodes s = [r \<mapsto> nr, a \<mapsto> na]" by (simp add: s_def)
  have vf: "vfiles s x \<noteq> None \<longleftrightarrow> x = f \<or> x = g" for x by (simp add: s_def)
  have n: "n_data nr = 0" "n_size nr = 0" "n_data na = d" "n_size na = 16" "n_children nr = a" "n_parent nr = 0" "n_children na = 0"
    "n_parent na = r" "n_next na = 0" "n_next nr = 0" "is_directory nr" "fns_ok nr" "fns_ok na" "n_name na = ''a''"
    by (simp_all add: nr_def na_def new_node_def is_directory_def FS_DIRECTORY_def fns_ok_def)
  have da: "data_of s x = (if x = a then d else 0)" for x using neq n by (simp add: data_of_def v)
  obtain c where c: "U d = Some c" "292 \<le> c" using cap[of d] by (auto simp: ps)
  have "store_ok s U"
    unfolding store_ok_def
  proof (intro conjI allI impI)
    show "heap_ok s U" using h(1) by (simp add: s_def)
    fix x y assume xy: "vnodes s x = Some y"
    show "\<exists>c \<ge> 292. U x = Some c" using xy cap[of x] by (auto simp: v ps split: if_splits)
    have "y = nr \<or> y = na" using xy by (auto simp: v split: if_splits)
    then show "data_ok s U y" using neq n c z[of d] vf[of d] by (auto simp: data_ok_def v ps)
  next
    fix x assume "vfiles s x \<noteq> None"
    then have x: "x = f \<or> x = g" by (rule iffD1[OF vf])
    then obtain c where "U x = Some c" "292 \<le> c" using cap[of x] by (auto simp: ps)
    then show "\<exists>c \<ge> 12. U x = Some c" by (intro exI[of _ c]) simp
    show "vnodes s x = None" using x neq by (auto simp: v)
  qed (auto simp: da split: if_splits)
  moreover have "tree_ok s ((\<lambda>_. [])(r := [a]))"
  proof -
    have "dir_ok s ((\<lambda>_. [])(r := [a])) r nr"
      using neq n z[of a] z[of r] by (simp add: dir_ok_def sib_def v parent_of_def ps)
    moreover have "dir_ok s ((\<lambda>_. [])(r := [a])) a na"
      using neq n z[of a] z[of r] by (auto simp: dir_ok_def sib_def v parent_of_def ps)
    moreover have "vnodes s 0 = None" using z[of a] z[of r] by (simp add: v ps)
    ultimately show ?thesis by (auto simp: tree_ok_def v split: if_splits)
  qed
  moreover have "r \<noteq> a" "f \<noteq> g" "dom U = {r, a, f, g, data_of s a}" using neq h(2) by (auto simp: ps da)
  moreover have "vnodes s r = Some nr" "vnodes s a = Some na" using neq by (simp_all add: v)
  moreover have "data_of s a \<noteq> 0" using z[of d] by (simp add: da ps)
  ultimately show thesis
    using h(5) neq by (intro that[of s U r a f g])
      (auto simp: one_file_def fs_ok_def nr_def na_def da, simp_all add: s_def)
qed

section \<open>The properties\<close>

text \<open>C23: \<open>ramfs_create\<close> in a directory refuses a name that exists, fails without memory, and otherwise
  adds one empty node of the given type that \<open>ramfs_find\<close> then finds: the tree stays sound (sibling
  chains, parents, unique names, storage), and every other file keeps its contents.\<close>

theorem ramfs_create_correct:
  assumes "fs_ok s U K" "vnodes s d = Some n" "is_directory n" "length name \<le> VFS_NAME_MAX"
  shows "\<exists>r s'. ramfs_create d name ty s = Some (r, s') \<and>
    (if lookup s (K d) name \<noteq> None then r = - 2 \<and> s' = s
     else r = - 3 \<and> s' = s \<and> kmalloc sizeof_vfs_node s = Some (0, s) \<or>
       r = 0 \<and> (\<exists>p c. U p = None \<and> c \<le> 614 \<and> fs_ok s' (U(p \<mapsto> c)) (K(d := p # K d, p := [])) \<and> ramfs_find d name s' = Some p \<and>
         map_option n_type (vnodes s' p) = Some ty \<and> contents s' p = [] \<and> same_nodes s s' {p} \<and> ramfs_root s' = ramfs_root s))"
  by (rule ramfs_create_run[OF assms])

theorem ramfs_create_correct_witness:
  "\<exists>(s :: ramfs) r a p s'. ramfs_find r ''a'' s = Some a \<and> ramfs_create r ''a'' FS_FILE s = Some (- 2, s) \<and>
    (ramfs_create r ''b'' FS_FILE s = Some (- 3, s) \<or> ramfs_create r ''b'' FS_FILE s = Some (0, s') \<and> ramfs_find r ''b'' s' = Some p)"
proof -
  obtain s U r a f g where o: "one_file s U r a f g" by (rule one_file)
  then have ok: "fs_ok s U ((\<lambda>_. [])(r := [a]))" and r: "vnodes s r = Some ((new_node ''/'' FS_DIRECTORY)\<lparr>n_children := a\<rparr>)"
    "is_directory ((new_node ''/'' FS_DIRECTORY)\<lparr>n_children := a\<rparr>)" and nm: "name_of s a = Some ''a''"
    by (auto simp: one_file_def name_of_def new_node_def is_directory_def FS_DIRECTORY_def)
  have look: "lookup s (((\<lambda>_. [])(r := [a])) r) ''a'' = Some a" "lookup s (((\<lambda>_. [])(r := [a])) r) ''b'' = None"
    using nm by (simp_all add: lookup_def)
  have r0: "r \<noteq> 0" using ok r(1) tree_node_0 by (auto simp: fs_ok_def)
  have "ramfs_find r ''a'' s = Some a"
    using ok call_finddir_tree[of s "(\<lambda>_. [])(r := [a])" r _ "''a''"] r(1) look r0 by (simp add: ramfs_find_def fs_ok_def)
  moreover have "ramfs_create r ''a'' FS_FILE s = Some (- 2, s)"
    using ramfs_create_correct[OF ok r, of "''a''" FS_FILE] look(1) by auto
  moreover have "\<exists>p s'. ramfs_create r ''b'' FS_FILE s = Some (- 3, s) \<or> ramfs_create r ''b'' FS_FILE s = Some (0, s') \<and> ramfs_find r ''b'' s' = Some p"
    using ramfs_create_correct[OF ok r, of "''b''" FS_FILE] look(2) by auto
  ultimately show ?thesis by blast
qed

text \<open>C24: \<open>ramfs_delete\<close> refuses a directory with entries, and otherwise takes the node out of its
  directory, frees exactly its data and its object, and leaves a sound tree in which every other
  file keeps its contents.\<close>

theorem ramfs_delete_correct:
  assumes "fs_ok s U K" "vnodes s a = Some n" "a \<noteq> ramfs_root s"
  shows "\<exists>r s'. ramfs_delete a s = Some (r, s') \<and>
    (if K a \<noteq> [] then r = - 2 \<and> s' = s
     else r = 0 \<and> vnodes s' a = None \<and> fs_ok s' (U(n_data n := None, a := None)) (without a K) \<and>
       same_nodes s s' {a} \<and> ramfs_root s' = ramfs_root s)"
  by (rule ramfs_delete_run[OF assms])

theorem ramfs_delete_correct_witness:
  "\<exists>(s :: ramfs) r a s'. ramfs_find r ''a'' s = Some a \<and> ramfs_delete a s = Some (0, s') \<and> vnodes s' a = None \<and> vnodes s r \<noteq> None"
proof -
  obtain s U r a f g where o: "one_file s U r a f g" by (rule one_file)
  then have ok: "fs_ok s U ((\<lambda>_. [])(r := [a]))" and nm: "name_of s a = Some ''a''" "vnodes s r \<noteq> None" "r \<noteq> a" "ramfs_root s = r"
    by (auto simp: one_file_def name_of_def new_node_def)
  obtain n where n: "vnodes s a = Some n" using nm(1) by (auto simp: name_of_def)
  obtain nr where nr: "vnodes s r = Some nr" using nm(2) by auto
  have r0: "r \<noteq> 0" using ok nr tree_node_0 by (auto simp: fs_ok_def)
  have "ramfs_find r ''a'' s = Some a"
    using ok call_finddir_tree[of s "(\<lambda>_. [])(r := [a])" r _ "''a''"] nr nm(1) r0 by (simp add: ramfs_find_def fs_ok_def lookup_def)
  moreover have "a \<noteq> ramfs_root s" using nm(3,4) by simp
  ultimately show ?thesis using ramfs_delete_correct[OF ok n] nm(2,3) by fastforce
qed

text \<open>C25: A file is an array of bytes: what \<open>ramfs_write\<close> stores at the position of a handle is what
  \<open>ramfs_read\<close> returns through another handle at that position, the file's bytes are the old ones
  with the new spliced in (a gap reads as zeros), and no other file changes; a write that cannot
  get memory returns -1 and changes nothing.\<close>

theorem ramfs_write_read:
  assumes ok: "fs_ok s U K" and f: "handle s f fl O_WRITE n" and g: "handle s g gl O_READ n"
    and same: "f_node gl = f_node fl" "f_position gl = f_position fl" "f \<noteq> g"
    and buf: "buffer_ok U (n_data n) buf (unat sz)" "buffer_ok U (n_data n) buf2 (unat sz)"
    and fits: "unat (f_position fl) + unat sz < 2 ^ 31"
  shows "ramfs_write f sz buf s = Some (- 1, s) \<and> unat (n_size n) < unat (f_position fl) + unat sz \<or>
    (\<exists>s1 s2. ramfs_write f sz buf s = Some (int (unat sz), s1) \<and> ramfs_read g sz buf2 s1 = Some (int (unat sz), s2) \<and>
       bytes_at (hmem s2) buf2 (unat sz) = bytes_at (hmem s) buf (unat sz) \<and>
       contents s2 (f_node fl) = splice (contents s (f_node fl)) (unat (f_position fl)) (bytes_at (hmem s) buf (unat sz)) \<and>
       same_nodes s s1 {f_node fl})"
proof -
  let ?a = "f_node fl" and ?bs = "bytes_at (hmem s) buf (unat sz)" and ?p = "unat (f_position fl)"
  consider "ramfs_write f sz buf s = Some (- 1, s)" "unat (n_size n) < unat (f_position fl) + unat sz"
    | s1 U' n' where "ramfs_write f sz buf s = Some (int (unat sz), s1)" "fs_ok s1 U' K" "moved U (n_data n) U' (n_data n')"
        "vnodes s1 = (vnodes s)(?a \<mapsto> n')" "n' = n\<lparr>n_data := n_data n', n_size := n_size n'\<rparr>"
        "vfiles s1 = (vfiles s)(f \<mapsto> fl\<lparr>f_position := f_position fl + sz\<rparr>)"
        "contents s1 ?a = splice (contents s ?a) ?p ?bs" "same_nodes s s1 {?a}"
    using ramfs_write_run[OF ok f buf(1) fits] by blast
  then show ?thesis
  proof cases
    case (2 s1 U' n')
    have isf: "is_file n'" using f arg_cong[OF 2(5), of n_type] by (simp add: handle_def is_file_def)
    have g1: "handle s1 g gl O_READ n'" using g same(1,3) 2(4,6) isf by (simp add: handle_def)
    have hok: "heap_ok s U" using handle_ok[OF ok f] store_okD(1) by blast
    have b2: "buffer_ok U' (n_data n') buf2 (unat sz)" by (rule moved_buffer[OF 2(3) buf(2) hok])
    have fits': "unat (f_position gl) + unat sz < 2 ^ 31" using fits same(2) by simp
    have bs: "take (unat sz) (drop ?p (contents s1 ?a)) = ?bs"
      unfolding 2(7) by (simp add: splice_def)
    obtain s2 where "ramfs_read g sz buf2 s1 = Some (int (unat sz), s2)" "bytes_at (hmem s2) buf2 (unat sz) = ?bs" "contents s2 ?a = contents s1 ?a"
      using ramfs_read_run[OF 2(2) g1 b2 fits'] unfolding same bs by auto
    then show ?thesis using 2(1,7,8) by auto
  qed simp
qed

theorem ramfs_write_read_witness:
  "\<exists>(s :: ramfs) f g s1 s2. ramfs_write f 4 0x500 s = Some (4, s1) \<and> ramfs_read g 4 0x600 s1 = Some (4, s2) \<and>
    bytes_at (hmem s2) 0x600 4 = bytes_at (hmem s) 0x500 4"
proof -
  obtain s U r a f g where o: "one_file s U r a f g" by (rule one_file)
  define fl where "fl = \<lparr>f_node = a, f_flags = O_WRITE, f_position = 0\<rparr>"
  define gl where "gl = \<lparr>f_node = a, f_flags = O_READ, f_position = 0\<rparr>"
  define n where "n = (new_node ''a'' FS_FILE)\<lparr>n_parent := r, n_data := data_of s a, n_size := 16\<rparr>"
  have ok: "fs_ok s U ((\<lambda>_. [])(r := [a]))" using o by (simp add: one_file_def)
  have h: "handle s f fl O_WRITE n" "handle s g gl O_READ n"
    using o by (simp_all add: one_file_def handle_def fl_def gl_def n_def O_WRITE_def O_READ_def is_file_def FS_FILE_def new_node_def)
  have fg: "f_node gl = f_node fl" "f_position gl = f_position fl" "f \<noteq> g" using o by (simp_all add: fl_def gl_def one_file_def)
  have buf: "buffer_ok U (n_data n) 0x500 (unat (4 :: u32))" "buffer_ok U (n_data n) 0x600 (unat (4 :: u32))"
    using low_outside[of "0x500" 4] low_outside[of "0x600" 4] by (simp_all add: buffer_ok_def)
  have fits: "unat (f_position fl) + unat (4 :: u32) < 2 ^ 31" "\<not> unat (n_size n) < unat (f_position fl) + unat (4 :: u32)"
    by (simp_all add: fl_def n_def)
  from ramfs_write_read[OF ok h fg buf fits(1)] fits(2)
  obtain s1 s2 where "ramfs_write f 4 0x500 s = Some (4, s1)" "ramfs_read g 4 0x600 s1 = Some (4, s2)"
    "bytes_at (hmem s2) 0x600 4 = bytes_at (hmem s) 0x500 4" by auto
  then show ?thesis by blast
qed

lemma ramfs_resolve_run:
  assumes "tree_ok s K" "vnodes s (ramfs_root s) \<noteq> None" "ramfs_cwd s = 0 \<or> vnodes s (ramfs_cwd s) \<noteq> None" "p \<noteq> []"
  shows "\<exists>s'. ramfs_resolve junk (Some p) s =
    Some (case walk s K (if hd p = slash \<or> ramfs_cwd s = 0 then ramfs_root s else ramfs_cwd s) (components p) of None \<Rightarrow> 0 | Some c \<Rightarrow> c, s') \<and>
    printed s s'"
proof -
  let ?cur = "if hd p = slash \<or> ramfs_cwd s = 0 then ramfs_root s else ramfs_cwd s"
  have root: "ramfs_root s \<noteq> 0" using assms(1,2) by (auto simp: tree_ok_def)
  have cur: "vnodes s ?cur \<noteq> None" using assms(2,3) by auto
  have run: "ramfs_resolve junk (Some p) s =
      (if skip_slashes p = [] then Some (?cur, viprint (''vfs_resolve_path: path is root only'' @ newline) s)
       else path_walk junk ?cur (skip_slashes p) s)"
    using assms(4) root by (cases p) (auto simp: ramfs_resolve_def vfs_resolve_path_def ramfs_get_root_def Let_def)
  show ?thesis
  proof (cases "skip_slashes p = []")
    case True
    then have "components p = []" by (subst components.simps) simp
    then show ?thesis using True run printed_con[OF printed_refl] by auto
  next
    case False
    then have "skip_slashes p = [] \<or> hd (skip_slashes p) \<noteq> slash" using skip_slashes_hd by blast
    from path_walk_tree[OF assms(1) cur this, of junk] show ?thesis using False run by (simp add: components_skip)
  qed
qed

text \<open>C26: Resolving a path is a walk in the tree from the root, or from the current directory when the path
  is relative, along the components of the path: empty ones and \<open>.\<close> stay, \<open>..\<close> goes to the parent and
  stays at the root, a name is looked up, and a name that is too long or does not exist gives
  \<open>NULL\<close>. It always ends and changes nothing but the screen.\<close>

theorem ramfs_resolve_correct:
  assumes "tree_ok s K" "vnodes s (ramfs_root s) \<noteq> None" "ramfs_cwd s = 0 \<or> vnodes s (ramfs_cwd s) \<noteq> None" "p \<noteq> []"
  shows "\<exists>s'. ramfs_resolve junk (Some p) s =
    Some (case walk s K (if hd p = slash \<or> ramfs_cwd s = 0 then ramfs_root s else ramfs_cwd s) (components p) of None \<Rightarrow> 0 | Some c \<Rightarrow> c, s') \<and>
    printed s s'"
  by (rule ramfs_resolve_run[OF assms])

theorem ramfs_resolve_correct_witness:
  "\<exists>(s :: ramfs) a s'. ramfs_resolve [] (Some ''/./../a'') s = Some (a, s') \<and> a \<noteq> 0 \<and> name_of s a = Some ''a''"
proof -
  obtain s U r a f g where o: "one_file s U r a f g" by (rule one_file)
  let ?K = "(\<lambda>_. [])(r := [a])"
  have ok: "tree_ok s ?K" and v: "vnodes s r \<noteq> None" "ramfs_root s = r" "ramfs_cwd s = r" "name_of s a = Some ''a''" "parent_of s r = 0" "a \<noteq> 0" "r \<noteq> 0"
    using o tree_node_0[of s ?K] by (auto simp: one_file_def fs_ok_def name_of_def parent_of_def new_node_def)
  have p: "vnodes s (ramfs_root s) \<noteq> None" "ramfs_cwd s = 0 \<or> vnodes s (ramfs_cwd s) \<noteq> None" "''/./../a'' \<noteq> []"
    using v by simp_all
  have "components ''/./../a'' = [''.'', ''..'', ''a'']"
    by (simp add: components.simps skip_slashes_def slash_def)
  moreover have "lookup s (?K r) ''a'' = Some a" using v(4) by (simp add: lookup_def)
  ultimately have "walk s ?K r (components ''/./../a'') = Some a" using v(5) by simp
  then obtain s' where "ramfs_resolve [] (Some ''/./../a'') s = Some (a, s')"
    using ramfs_resolve_correct[OF ok p, of "[]"] v(2,3) by (auto simp: slash_def)
  then show ?thesis using v(4,6) by blast
qed

end
