(* ===== verification/Spinlock.thy ===== *)
theory Spinlock
  imports Prelude
begin

text \<open>
  The spin lock of \<open>kernel/spinlock.c\<close>: threads on their own processors, interleaved at the accesses
  to the shared word. Each thread keeps its place in the routines, its interrupt flag and the flags
  it saved. The properties: mutual exclusion, interrupts off while the lock is held by the variants
  that save the flags, and their restoration.
\<close>

section \<open>The operations\<close>

record spinlock =
  locked :: u32

definition SPINLOCK_INIT :: spinlock where "SPINLOCK_INIT = \<lparr>locked = 0\<rparr>"

text \<open>\<open>__sync_lock_test_and_set\<close>: the old value, in one step with the store.\<close>

definition test_and_set :: "spinlock \<Rightarrow> u32 \<times> spinlock" where
  "test_and_set l = (locked l, l\<lparr>locked := 1\<rparr>)"

definition spinlock_release :: "spinlock \<Rightarrow> spinlock" where
  "spinlock_release l = l\<lparr>locked := 0\<rparr>"

definition spinlock_is_locked :: "spinlock \<Rightarrow> int" where
  "spinlock_is_locked l = (if locked l \<noteq> 0 then 1 else 0)"

text \<open>Where a thread is: outside, at the exchange, in the inner loop, holding, or before \<open>popf\<close>.\<close>

datatype place = Outside | At_exchange | At_pause | Holding | At_popf

record thread =
  place :: place
  t_if :: bool
  t_eflags :: u32
  saving :: bool
  saved_flags :: u32

definition thread_flags :: "thread \<Rightarrow> u32" where
  "thread_flags t = (if t_if t then t_eflags t OR 0x200 else t_eflags t AND NOT 0x200)"

text \<open>One access of \<open>spinlock_acquire\<close>.\<close>

definition acquire_step :: "thread \<Rightarrow> spinlock \<Rightarrow> thread \<times> spinlock" where
  "acquire_step t l =
     (case place t of
        At_exchange \<Rightarrow> (let (old, l) = test_and_set l in (t\<lparr>place := if old \<noteq> 0 then At_pause else Holding\<rparr>, l))
      | At_pause \<Rightarrow> (t\<lparr>place := if locked l \<noteq> 0 then At_pause else At_exchange\<rparr>, l)
      | _ \<Rightarrow> (t, l))"

definition spinlock_acquire :: "thread \<Rightarrow> thread" where
  "spinlock_acquire t = t\<lparr>place := At_exchange, saving := False\<rparr>"

definition spinlock_acquire_irq :: "thread \<Rightarrow> thread" where
  "spinlock_acquire_irq t = t\<lparr>saved_flags := thread_flags t, t_if := False, place := At_exchange, saving := True\<rparr>"

text \<open>\<open>spinlock_release_irq\<close>: the release, then \<open>popf\<close> of the saved flags.\<close>

definition restore_flags :: "thread \<Rightarrow> thread" where
  "restore_flags t = t\<lparr>t_eflags := saved_flags t OR 2, t_if := bit (saved_flags t) 9, place := Outside\<rparr>"

section \<open>Interleavings\<close>

record lock_state =
  the_lock :: spinlock
  threads :: "nat \<Rightarrow> thread"

definition put_thread :: "nat \<Rightarrow> thread \<Rightarrow> spinlock \<Rightarrow> lock_state \<Rightarrow> lock_state" where
  "put_thread i t l s = s\<lparr>the_lock := l, threads := (threads s)(i := t)\<rparr>"

text \<open>
  Outside the routines a thread may turn its interrupts on or off; an interrupt handler runs on a
  processor whose flag is set.
\<close>

inductive lock_step :: "nat \<Rightarrow> lock_state \<Rightarrow> lock_state \<Rightarrow> bool" for i where
  call: "place (threads s i) = Outside \<Longrightarrow> t' = spinlock_acquire (threads s i) \<Longrightarrow>
    lock_step i s (put_thread i t' (the_lock s) s)"
| call_irq: "place (threads s i) = Outside \<Longrightarrow> t' = spinlock_acquire_irq (threads s i) \<Longrightarrow>
    lock_step i s (put_thread i t' (the_lock s) s)"
| acquire: "place (threads s i) \<in> {At_exchange, At_pause} \<Longrightarrow> acquire_step (threads s i) (the_lock s) = (t', l) \<Longrightarrow>
    lock_step i s (put_thread i t' l s)"
| release: "place (threads s i) = Holding \<Longrightarrow> t' = (threads s i)\<lparr>place := if saving (threads s i) then At_popf else Outside\<rparr> \<Longrightarrow>
    lock_step i s (put_thread i t' (spinlock_release (the_lock s)) s)"
| restore: "place (threads s i) = At_popf \<Longrightarrow> lock_step i s (put_thread i (restore_flags (threads s i)) (the_lock s) s)"
| outside: "place (threads s i) = Outside \<Longrightarrow> t' = (threads s i)\<lparr>t_if := b\<rparr> \<Longrightarrow>
    lock_step i s (put_thread i t' (the_lock s) s)"

inductive lock_reachable :: "lock_state \<Rightarrow> lock_state \<Rightarrow> bool" for s0 where
  start: "lock_reachable s0 s0"
| step: "lock_reachable s0 s \<Longrightarrow> lock_step i s s' \<Longrightarrow> lock_reachable s0 s'"

definition lock_start :: "lock_state \<Rightarrow> bool" where
  "lock_start s \<longleftrightarrow> the_lock s = SPINLOCK_INIT \<and> (\<forall>i. place (threads s i) = Outside)"

section \<open>Mutual exclusion\<close>

definition quiet :: "thread \<Rightarrow> bool" where
  "quiet t \<longleftrightarrow> (place t \<noteq> Outside \<and> saving t \<longrightarrow> \<not> t_if t) \<and> (place t = At_popf \<longrightarrow> saving t)"

definition lock_inv :: "lock_state \<Rightarrow> bool" where
  "lock_inv s \<longleftrightarrow> (\<forall>i. quiet (threads s i)) \<and>
     (\<forall>i j. place (threads s i) = Holding \<longrightarrow> place (threads s j) = Holding \<longrightarrow> i = j) \<and>
     (locked (the_lock s) \<noteq> 0 \<longleftrightarrow> (\<exists>i. place (threads s i) = Holding))"

lemma put_thread_simps [simp]:
  "the_lock (put_thread i t l s) = l" "threads (put_thread i t l s) j = (if j = i then t else threads s j)"
  by (simp_all add: put_thread_def)

lemma lock_inv_start: "lock_start s \<Longrightarrow> lock_inv s"
  by (simp add: lock_start_def lock_inv_def quiet_def SPINLOCK_INIT_def)

lemma lock_inv_waiting:
  assumes "lock_inv s" "place (threads s i) \<noteq> Holding" "place t \<noteq> Holding" "quiet t"
    "(locked l \<noteq> 0) = (locked (the_lock s) \<noteq> 0)"
  shows "lock_inv (put_thread i t l s)"
proof -
  have "(place (threads (put_thread i t l s) j) = Holding) = (place (threads s j) = Holding)" for j
    using assms(2,3) by simp
  then show ?thesis using assms(1,4,5) unfolding lock_inv_def by simp
qed

lemma lock_inv_step:
  assumes "lock_step i s s'" "lock_inv s"
  shows "lock_inv s'"
proof -
  have q: "quiet (threads s i)" using assms(2) by (simp add: lock_inv_def)
  from assms(1) show ?thesis
  proof (cases rule: lock_step.cases)
    case (acquire t' l)
    show ?thesis
    proof (cases "place (threads s i) = At_exchange \<and> locked (the_lock s) = 0")
      case True
      then have "t' = (threads s i)\<lparr>place := Holding\<rparr>" "locked l = 1"
        using acquire by (auto simp: acquire_step_def test_and_set_def)
      moreover have "place (threads s j) \<noteq> Holding" for j using assms(2) True by (auto simp: lock_inv_def)
      ultimately show ?thesis using assms(2) True by (auto simp: lock_inv_def acquire quiet_def)
    next
      case False
      then obtain p where "t' = (threads s i)\<lparr>place := p\<rparr>" "p \<in> {At_exchange, At_pause}"
        and "(locked l \<noteq> 0) = (locked (the_lock s) \<noteq> 0)"
        using acquire by (auto simp: acquire_step_def test_and_set_def)
      then show ?thesis unfolding acquire(1)
        by (intro lock_inv_waiting[OF assms(2)]) (use acquire(2) q in \<open>auto simp: quiet_def\<close>)
    qed
  next
    case (release t')
    then have "place (threads s j) \<noteq> Holding" if "j \<noteq> i" for j using assms(2) that by (auto simp: lock_inv_def)
    then show ?thesis using assms(2) release q by (auto simp: lock_inv_def quiet_def spinlock_release_def)
  qed (use assms(2) q in \<open>auto intro!: lock_inv_waiting simp: quiet_def spinlock_acquire_def spinlock_acquire_irq_def restore_flags_def\<close>)
qed

lemma lock_inv_reachable: "lock_reachable s0 s \<Longrightarrow> lock_start s0 \<Longrightarrow> lock_inv s"
  by (induction rule: lock_reachable.induct) (auto intro: lock_inv_start lock_inv_step)

text \<open>C27: Mutual exclusion: in every interleaving at most one thread holds the lock, the word is set exactly
  while one does, and a thread that took it with \<open>spinlock_acquire_irq\<close> has its interrupts off from the
  call to the restoration.\<close>

theorem spinlock_exclusive:
  assumes "lock_start s0" "lock_reachable s0 s"
  shows "(\<forall>i j. place (threads s i) = Holding \<and> place (threads s j) = Holding \<longrightarrow> i = j) \<and>
    (spinlock_is_locked (the_lock s) = 1 \<longleftrightarrow> (\<exists>i. place (threads s i) = Holding)) \<and>
    (\<forall>i. place (threads s i) \<noteq> Outside \<and> saving (threads s i) \<longrightarrow> \<not> t_if (threads s i))"
  using lock_inv_reachable[OF assms(2,1)] by (auto simp: lock_inv_def quiet_def spinlock_is_locked_def)

definition two_threads :: lock_state where
  "two_threads = \<lparr>the_lock = SPINLOCK_INIT, threads = (\<lambda>_. \<lparr>place = Outside, t_if = True, t_eflags = 2, saving = False, saved_flags = 0\<rparr>)\<rparr>"

definition two_racing :: lock_state where
  "two_racing = put_thread 1 (spinlock_acquire (threads two_threads 1)) SPINLOCK_INIT
     (put_thread 0 (spinlock_acquire_irq (threads two_threads 0)) SPINLOCK_INIT two_threads)"

definition one_holding :: lock_state where
  "one_holding = (let (t, l) = acquire_step (threads two_racing 0) (the_lock two_racing) in put_thread 0 t l two_racing)"

lemma one_holding_reachable: "lock_reachable two_threads one_holding"
proof -
  have "lock_step 0 two_threads (put_thread 0 (spinlock_acquire_irq (threads two_threads 0)) SPINLOCK_INIT two_threads)"
    using lock_step.call_irq[of two_threads 0, OF _ refl] by (simp add: two_threads_def)
  moreover have "lock_step 1 (put_thread 0 (spinlock_acquire_irq (threads two_threads 0)) SPINLOCK_INIT two_threads) two_racing"
    using lock_step.call[of "put_thread 0 (spinlock_acquire_irq (threads two_threads 0)) SPINLOCK_INIT two_threads" 1, OF _ refl]
    by (simp add: two_threads_def two_racing_def)
  moreover have "place (threads two_racing 0) \<in> {At_exchange, At_pause}"
    by (simp add: two_racing_def two_threads_def spinlock_acquire_irq_def)
  then have "lock_step 0 two_racing one_holding"
    unfolding one_holding_def split_def Let_def by (rule lock_step.acquire) simp
  ultimately show ?thesis by (blast intro: lock_reachable.intros)
qed

theorem spinlock_exclusive_witness:
  "spinlock_is_locked (the_lock one_holding) = 1 \<and> place (threads one_holding 0) = Holding \<and> place (threads one_holding 1) \<noteq> Holding \<and>
    \<not> t_if (threads one_holding 0)"
proof -
  have st: "lock_start two_threads" by (simp add: lock_start_def two_threads_def)
  have h: "place (threads one_holding 0) = Holding" "saving (threads one_holding 0)"
    by (simp_all add: one_holding_def two_racing_def two_threads_def acquire_step_def test_and_set_def spinlock_acquire_irq_def SPINLOCK_INIT_def)
  show ?thesis using spinlock_exclusive[OF st one_holding_reachable] h by (metis place.distinct(5) zero_neq_one)
qed

text \<open>The word that \<open>spinlock_release_irq\<close> restores is the one \<open>spinlock_acquire_irq\<close> saved.\<close>

lemma irq_flag_restored:
  assumes "saved_flags t' = saved_flags (spinlock_acquire_irq t)"
  shows "t_if (restore_flags t') = t_if t"
  using assms by (auto simp: restore_flags_def spinlock_acquire_irq_def thread_flags_def bit_simps)

text \<open>A free lock is taken by the first thread that tries.\<close>

lemma free_lock_taken:
  assumes "locked l = 0" "place t = At_exchange"
  shows "place (fst (acquire_step t l)) = Holding \<and> locked (snd (acquire_step t l)) = 1"
  using assms by (simp add: acquire_step_def test_and_set_def)

end
