(* ===== verification/Tty.thy ===== *)
theory Tty
  imports Ramfs Keyboard
begin

text \<open>
  What an interactive program sees of the keyboard driver: the ring of \<open>keyboard.c\<close>, into which the
  interrupt handler puts characters while the program runs. The variables of the driver are the part
  \<open>kbd\<close> of the state, next to those of the heap and the file system; \<open>typed n\<close> are the characters the
  handler stores before the \<open>n\<close>-th time the program looks at the ring, an arbitrary function, so that
  the theorems hold whatever is typed and when.
\<close>

record tty = ramfs +
  kbd :: "unit keyboard_ext"
  typed :: "nat \<Rightarrow> u8 list"
  polls :: nat

definition driver :: "'a tty_scheme \<Rightarrow> keyboard" where
  "driver s = machine.extend (machine.truncate s) (kbd s)"

definition poll_has_char :: "'a tty_scheme \<Rightarrow> bool \<times> 'a tty_scheme" where
  "poll_has_char s =
     (let k = fold (\<lambda>c k. snd (buffer_put c k)) (typed s (polls s)) (driver s)
      in (keyboard_has_char k, s\<lparr>kbd := machine.more k, polls := Suc (polls s)\<rparr>))"

definition read_char :: "'a tty_scheme \<Rightarrow> u8 \<times> 'a tty_scheme" where
  "read_char s = (let (c, k) = keyboard_get_char (driver s) in (c, s\<lparr>kbd := machine.more k\<rparr>))"

end
