(* ===== verification/Line_Edit.thy ===== *)
theory Line_Edit
  imports Tty
begin

text \<open>
  The command line of the shell, \<open>kernel/shell.c\<close>: the line being edited, the escape sequence being
  read and the history. The arrays are lists of their length; indices and counts that start at 0 are
  natural numbers, and \<open>history_index\<close>, which is -1 while no entry is shown, is an integer. A redraw
  is one console event, to which \<open>Stdio\<close> gives its meaning on the screen, since it depends on the row
  the cursor is in.
\<close>

section \<open>State\<close>

definition MAX_CMD_LEN :: nat where "MAX_CMD_LEN = 256"
definition HISTORY_SIZE :: nat where "HISTORY_SIZE = 20"
abbreviation ESC :: char where "ESC \<equiv> CHR 0x1B"
abbreviation NUL :: char where "NUL \<equiv> CHR 0x00"
definition PROMPT :: string where "PROMPT = ''> ''"
definition PROMPT_LEN :: int where "PROMPT_LEN = 2"

lemmas line_sizes [simp] = MAX_CMD_LEN_def HISTORY_SIZE_def

datatype esc_state_t = ESC_NONE | ESC_START | ESC_BRACKET

record line_edit = tty +
  cmd_buffer :: string
  cmd_pos :: nat
  cmd_len :: nat
  history :: "string list" \<comment> \<open>each entry up to its terminator\<close>
  history_count :: nat
  history_index :: int
  esc_state :: esc_state_t
  esc_buf :: string
  esc_pos :: nat

text \<open>A C string in a buffer, and \<open>strcpy\<close> of one over the start of a buffer.\<close>

definition c_string :: "string \<Rightarrow> string" where
  "c_string b = takeWhile (\<lambda>c. c \<noteq> NUL) b"

definition put_string :: "string \<Rightarrow> string \<Rightarrow> string" where
  "put_string t b = t @ [NUL] @ drop (length t + 1) b"

section \<open>Editing\<close>

definition shell_redraw_line :: "'a line_edit_scheme \<Rightarrow> 'a line_edit_scheme" where
  "shell_redraw_line s =
     con (Redraw_line PROMPT (take (cmd_len s) (cmd_buffer s)) (PROMPT_LEN + int (cmd_pos s))) s"

text \<open>The loops that move the rest of the line up and down by one.\<close>

fun shift_up :: "nat \<Rightarrow> nat \<Rightarrow> string \<Rightarrow> string" where
  "shift_up i pos b = (if pos < i then shift_up (i - 1) pos (b[i := b ! (i - 1)]) else b)"

function shift_down :: "nat \<Rightarrow> nat \<Rightarrow> string \<Rightarrow> string" where
  "shift_down i n b = (if i < n then shift_down (i + 1) n (b[i := b ! (i + 1)]) else b)"
  by pat_completeness auto
termination by (relation "measure (\<lambda>(i, n, _). n - i)") auto

declare shift_up.simps [simp del] shift_down.simps [simp del]

definition shell_insert_char :: "char \<Rightarrow> 'a line_edit_scheme \<Rightarrow> 'a line_edit_scheme" where
  "shell_insert_char c s =
     (if cmd_len s \<ge> MAX_CMD_LEN - 1 then s
      else
        let s = s\<lparr>cmd_buffer := shift_up (cmd_len s) (cmd_pos s) (cmd_buffer s)\<rparr>;
            s = s\<lparr>cmd_buffer := (cmd_buffer s)[cmd_pos s := c]\<rparr>
        in shell_redraw_line (s\<lparr>cmd_len := cmd_len s + 1, cmd_pos := cmd_pos s + 1\<rparr>))"

definition shell_delete_char_before :: "'a line_edit_scheme \<Rightarrow> 'a line_edit_scheme" where
  "shell_delete_char_before s =
     (if cmd_pos s = 0 then s
      else
        let s = s\<lparr>cmd_buffer := shift_down (cmd_pos s - 1) (cmd_len s - 1) (cmd_buffer s)\<rparr>
        in shell_redraw_line (s\<lparr>cmd_len := cmd_len s - 1, cmd_pos := cmd_pos s - 1\<rparr>))"

definition shell_delete_char_at :: "'a line_edit_scheme \<Rightarrow> 'a line_edit_scheme" where
  "shell_delete_char_at s =
     (if cmd_pos s \<ge> cmd_len s then s
      else
        let s = s\<lparr>cmd_buffer := shift_down (cmd_pos s) (cmd_len s - 1) (cmd_buffer s)\<rparr>
        in shell_redraw_line (s\<lparr>cmd_len := cmd_len s - 1\<rparr>))"

definition shell_move_left :: "'a line_edit_scheme \<Rightarrow> 'a line_edit_scheme" where
  "shell_move_left s = (if cmd_pos s > 0 then shell_redraw_line (s\<lparr>cmd_pos := cmd_pos s - 1\<rparr>) else s)"

definition shell_move_right :: "'a line_edit_scheme \<Rightarrow> 'a line_edit_scheme" where
  "shell_move_right s = (if cmd_pos s < cmd_len s then shell_redraw_line (s\<lparr>cmd_pos := cmd_pos s + 1\<rparr>) else s)"

definition shell_move_home :: "'a line_edit_scheme \<Rightarrow> 'a line_edit_scheme" where
  "shell_move_home s = shell_redraw_line (s\<lparr>cmd_pos := 0\<rparr>)"

definition shell_move_end :: "'a line_edit_scheme \<Rightarrow> 'a line_edit_scheme" where
  "shell_move_end s = shell_redraw_line (s\<lparr>cmd_pos := cmd_len s\<rparr>)"

section \<open>History\<close>

definition history_entry :: "'a line_edit_scheme \<Rightarrow> int \<Rightarrow> string" where
  "history_entry s i = history s ! (nat i mod HISTORY_SIZE)"

text \<open>What every walk through the history ends with: the cursor goes behind the line in the buffer.\<close>

definition show_buffer :: "'a line_edit_scheme \<Rightarrow> 'a line_edit_scheme" where
  "show_buffer s =
     (let s = s\<lparr>cmd_len := length (c_string (cmd_buffer s))\<rparr>
      in shell_redraw_line (s\<lparr>cmd_pos := cmd_len s\<rparr>))"

definition history_back :: "'a line_edit_scheme \<Rightarrow> 'a line_edit_scheme" where
  "history_back s =
     (if history_count s = 0 then s
      else
        let s = (if history_index s = - 1 then s\<lparr>history_index := int (history_count s) - 1\<rparr>
                 else if history_index s > 0 then s\<lparr>history_index := history_index s - 1\<rparr>
                 else s)
        in show_buffer (s\<lparr>cmd_buffer := put_string (history_entry s (history_index s)) (cmd_buffer s)\<rparr>))"

definition history_forward :: "'a line_edit_scheme \<Rightarrow> 'a line_edit_scheme" where
  "history_forward s =
     (if history_index s = - 1 then s
      else show_buffer
        (if history_index s < int (history_count s) - 1 then
           let s = s\<lparr>history_index := history_index s + 1\<rparr>
           in s\<lparr>cmd_buffer := put_string (history_entry s (history_index s)) (cmd_buffer s)\<rparr>
         else s\<lparr>history_index := - 1, cmd_buffer := (cmd_buffer s)[0 := NUL]\<rparr>))"

definition shell_handle_escape :: "char \<Rightarrow> 'a line_edit_scheme \<Rightarrow> 'a line_edit_scheme" where
  "shell_handle_escape final s =
     (if final = CHR ''A'' then history_back s
      else if final = CHR ''B'' then history_forward s
      else if final = CHR ''C'' then shell_move_right s
      else if final = CHR ''D'' then shell_move_left s
      else if final = CHR ''H'' then shell_move_home s
      else if final = CHR ''F'' then shell_move_end s
      else if final = CHR ''~'' then
        (if esc_pos s \<ge> 3 \<and> esc_buf s ! 2 = CHR ''3'' then shell_delete_char_at s else s)
      else s)"

definition shell_add_history :: "string \<Rightarrow> 'a line_edit_scheme \<Rightarrow> 'a line_edit_scheme" where
  "shell_add_history cmd s =
     (if history_count s > 0 \<and> history_entry s (int (history_count s) - 1) = cmd then s
      else s\<lparr>history := (history s)[history_count s mod HISTORY_SIZE := cmd], history_count := history_count s + 1\<rparr>)"

section \<open>Characters\<close>

text \<open>A character inside an escape sequence; \<open>None\<close> when it is an ordinary one.\<close>

definition esc_reset :: "'a line_edit_scheme \<Rightarrow> 'a line_edit_scheme" where
  "esc_reset s = s\<lparr>esc_state := ESC_NONE, esc_pos := 0\<rparr>"

definition escape_char :: "char \<Rightarrow> 'a line_edit_scheme \<Rightarrow> 'a line_edit_scheme" where
  "escape_char c s =
     (let s = s\<lparr>esc_buf := (esc_buf s)[esc_pos s := c], esc_pos := esc_pos s + 1\<rparr>
      in if esc_state s = ESC_START then
           (if c = CHR ''['' then s\<lparr>esc_state := ESC_BRACKET\<rparr> else esc_reset s)
         else if c \<in> {CHR ''A'', CHR ''B'', CHR ''C'', CHR ''D'', CHR ''H'', CHR ''F''}
           then esc_reset (shell_handle_escape c s)
         else if c = CHR ''~'' then esc_reset (shell_handle_escape (CHR ''~'') s)
         else if esc_pos s < 7 then s
         else esc_reset s)"

definition begin_escape :: "'a line_edit_scheme \<Rightarrow> 'a line_edit_scheme" where
  "begin_escape s = s\<lparr>esc_state := ESC_START, esc_buf := (esc_buf s)[0 := ESC], esc_pos := 1\<rparr>"

definition printable :: "char \<Rightarrow> bool" where
  "printable c \<longleftrightarrow> 32 \<le> (of_char c :: nat) \<and> (of_char c :: nat) \<le> 126"

text \<open>Every character but the end of a line.\<close>

definition edit_char :: "char \<Rightarrow> 'a line_edit_scheme \<Rightarrow> 'a line_edit_scheme" where
  "edit_char c s =
     (if esc_state s \<noteq> ESC_NONE then escape_char c s
      else if c = ESC then begin_escape s
      else if c = CHR 0x08 \<or> c = CHR 0x7F then shell_delete_char_before s
      else if printable c then shell_insert_char c s
      else s)"

end
