(* ===== verification/Line_Edit_Spec.thy ===== *)
theory Line_Edit_Spec
  imports Line_Edit
begin

text \<open>
  The command line as its user sees it: the text before and the text behind the cursor. Every key,
  as the character or the escape sequence that the keyboard driver delivers for it, is one step on
  this pair, and every index stays in its array.
\<close>

section \<open>Moving the rest of the line\<close>

lemma shift_up_nth:
  "i < length b \<Longrightarrow> length (shift_up i pos b) = length b \<and>
    (\<forall>k < length b. shift_up i pos b ! k = b ! (if pos < k \<and> k \<le> i then k - 1 else k))"
proof (induction i pos b rule: shift_up.induct)
  case (1 i pos b)
  show ?case
  proof (cases "pos < i")
    case True
    have "length (shift_up i pos b) = length b \<and>
      (\<forall>k < length b. shift_up i pos b ! k = b[i := b ! (i - 1)] ! (if pos < k \<and> k \<le> i - 1 then k - 1 else k))"
      using "1.IH"[OF True] "1.prems" True by (subst (1 2) shift_up.simps) auto
    then show ?thesis using True "1.prems" by (auto simp: nth_list_update)
  next
    case False
    then show ?thesis by (subst (1 2) shift_up.simps) auto
  qed
qed

lemma shift_down_nth:
  "n < length b \<Longrightarrow> length (shift_down i n b) = length b \<and>
    (\<forall>k < length b. shift_down i n b ! k = b ! (if i \<le> k \<and> k < n then k + 1 else k))"
proof (induction i n b rule: shift_down.induct)
  case (1 i n b)
  show ?case
  proof (cases "i < n")
    case True
    have "length (shift_down i n b) = length b \<and>
      (\<forall>k < length b. shift_down i n b ! k = b[i := b ! (i + 1)] ! (if i + 1 \<le> k \<and> k < n then k + 1 else k))"
      using "1.IH"[OF True] "1.prems" True by (subst (1 2) shift_down.simps) auto
    then show ?thesis using True "1.prems" by (auto simp: nth_list_update)
  next
    case False
    then show ?thesis by (subst (1 2) shift_down.simps) auto
  qed
qed

text \<open>The two on the text before and behind the cursor.\<close>

lemma insert_text:
  assumes "pos \<le> len" "len < length b"
  shows "take (len + 1) ((shift_up len pos b)[pos := c]) = take pos b @ c # drop pos (take len b)"
    and "length ((shift_up len pos b)[pos := c]) = length b"
proof -
  note n = shift_up_nth[OF assms(2), of pos]
  show "length ((shift_up len pos b)[pos := c]) = length b" using n by simp
  show "take (len + 1) ((shift_up len pos b)[pos := c]) = take pos b @ c # drop pos (take len b)"
  proof (rule nth_equalityI)
    fix i assume "i < length (take (len + 1) ((shift_up len pos b)[pos := c]))"
    then have i: "i < len + 1" by simp
    consider "i < pos" | "i = pos" | "pos < i" by linarith
    then show "take (len + 1) ((shift_up len pos b)[pos := c]) ! i = (take pos b @ c # drop pos (take len b)) ! i"
    proof cases
      case 3
      then have "pos + (i - Suc pos) = i - 1" by simp
      with 3 show ?thesis using i n assms by (simp add: nth_append nth_Cons')
    qed (use i n assms in \<open>simp_all add: nth_append\<close>)
  qed (use n assms in simp)
qed

lemma delete_text:
  assumes "pos < len" "len \<le> length b"
  shows "take (len - 1) (shift_down pos (len - 1) b) = take pos b @ drop (Suc pos) (take len b)"
    and "length (shift_down pos (len - 1) b) = length b"
proof -
  have "len - 1 < length b" using assms by simp
  note n = shift_down_nth[OF this, of pos]
  show "length (shift_down pos (len - 1) b) = length b" using n by simp
  show "take (len - 1) (shift_down pos (len - 1) b) = take pos b @ drop (Suc pos) (take len b)"
  proof (rule nth_equalityI)
    fix i assume "i < length (take (len - 1) (shift_down pos (len - 1) b))"
    then have i: "i < len - 1" by simp
    then show "take (len - 1) (shift_down pos (len - 1) b) ! i = (take pos b @ drop (Suc pos) (take len b)) ! i"
      using n assms by (cases "i < pos") (simp_all add: nth_append)
  qed (use n assms in simp)
qed

section \<open>The invariant\<close>

definition entry_ok :: "string \<Rightarrow> bool" where
  "entry_ok t \<longleftrightarrow> length t < MAX_CMD_LEN \<and> (\<forall>c \<in> set t. printable c)"

definition esc_ok :: "'a line_edit_scheme \<Rightarrow> bool" where
  "esc_ok s \<longleftrightarrow> length (esc_buf s) = 8 \<and>
     (esc_state s = ESC_START \<longrightarrow> esc_pos s = 1) \<and> (esc_state s = ESC_BRACKET \<longrightarrow> 2 \<le> esc_pos s \<and> esc_pos s < 7)"

definition line_ok :: "'a line_edit_scheme \<Rightarrow> bool" where
  "line_ok s \<longleftrightarrow> length (cmd_buffer s) = MAX_CMD_LEN \<and> cmd_pos s \<le> cmd_len s \<and>
     entry_ok (take (cmd_len s) (cmd_buffer s)) \<and> cmd_len s < MAX_CMD_LEN \<and>
     length (history s) = HISTORY_SIZE \<and> (\<forall>t \<in> set (history s). entry_ok t) \<and>
     - 1 \<le> history_index s \<and> history_index s < int (history_count s) \<and> esc_ok s"

section \<open>The line as a pair of texts\<close>

type_synonym zipper = "string \<times> string"

definition zip_of :: "'a line_edit_scheme \<Rightarrow> zipper" where
  "zip_of s = (take (cmd_pos s) (cmd_buffer s), drop (cmd_pos s) (take (cmd_len s) (cmd_buffer s)))"

datatype line_key = Type char | Backspace | Delete | Left | Right | Home | End

fun key_step :: "line_key \<Rightarrow> zipper \<Rightarrow> zipper" where
  "key_step (Type c) (l, r) = (if length l + length r < 255 then (l @ [c], r) else (l, r))"
| "key_step Backspace (l, r) = (butlast l, r)"
| "key_step Delete (l, r) = (l, tl r)"
| "key_step Left (l, r) = (if l = [] then (l, r) else (butlast l, last l # r))"
| "key_step Right (l, r) = (if r = [] then (l, r) else (l @ [hd r], tl r))"
| "key_step Home (l, r) = ([], l @ r)"
| "key_step End (l, r) = (l @ r, [])"

text \<open>What \<open>keyboard.c\<close> puts into its ring for a key.\<close>

fun key_chars :: "line_key \<Rightarrow> string" where
  "key_chars (Type c) = [c]"
| "key_chars Backspace = [CHR 0x08]"
| "key_chars Delete = [ESC] @ ''[3~''"
| "key_chars Left = [ESC] @ ''[D''"
| "key_chars Right = [ESC] @ ''[C''"
| "key_chars Home = [ESC] @ ''[H''"
| "key_chars End = [ESC] @ ''[F''"

section \<open>The operations\<close>

lemma line_okD:
  assumes "line_ok s"
  shows "length (cmd_buffer s) = 256" "cmd_pos s \<le> cmd_len s" "cmd_len s \<le> 255"
    "\<And>c. c \<in> set (take (cmd_len s) (cmd_buffer s)) \<Longrightarrow> printable c"
  using assms by (auto simp: line_ok_def entry_ok_def)

lemma zip_length: "line_ok s \<Longrightarrow> length (fst (zip_of s)) + length (snd (zip_of s)) = cmd_len s"
  using line_okD(1-3)[of s] by (auto simp: zip_of_def min_def)

text \<open>An operation that rewrites the line keeps the invariant when the new text is printable.\<close>

lemma line_ok_edit:
  assumes ok: "line_ok s" and b: "length b = 256" and pos: "p \<le> n" "n \<le> 255" and t: "\<forall>c \<in> set (take n b). printable c"
  shows "line_ok (shell_redraw_line (s\<lparr>cmd_buffer := b, cmd_len := n, cmd_pos := p\<rparr>))"
  using ok b pos t by (simp add: line_ok_def entry_ok_def shell_redraw_line_def con_def esc_ok_def)

lemma zip_redraw [simp]: "zip_of (shell_redraw_line s) = zip_of s" "esc_state (shell_redraw_line s) = esc_state s"
  by (simp_all add: zip_of_def shell_redraw_line_def con_def)

lemma insert_zip:
  assumes ok: "line_ok s" and c: "printable c"
  shows "line_ok (shell_insert_char c s)" and "zip_of (shell_insert_char c s) = key_step (Type c) (zip_of s)"
proof -
  note o = line_okD[OF ok]
  have z: "length (fst (zip_of s)) + length (snd (zip_of s)) = cmd_len s" by (rule zip_length[OF ok])
  let ?b = "(shift_up (cmd_len s) (cmd_pos s) (cmd_buffer s))[cmd_pos s := c]"
  have "cmd_len s < length (cmd_buffer s)" using o by simp
  note t = insert_text[OF o(2) this, of c]
  have "line_ok (shell_insert_char c s) \<and> zip_of (shell_insert_char c s) = key_step (Type c) (zip_of s)"
  proof (cases "cmd_len s \<ge> 255")
    case True
    then show ?thesis using ok z by (cases "zip_of s") (simp add: shell_insert_char_def)
  next
    case False
    have run: "shell_insert_char c s =
        shell_redraw_line (s\<lparr>cmd_buffer := ?b, cmd_len := cmd_len s + 1, cmd_pos := cmd_pos s + 1\<rparr>)"
      using False by (simp add: shell_insert_char_def Let_def)
    have "take (cmd_pos s + 1) ?b = take (cmd_pos s + 1) (take (cmd_len s + 1) ?b)" using o(2) by (simp add: min_def)
    also have "\<dots> = take (cmd_pos s) (cmd_buffer s) @ [c]" unfolding t using o by simp
    finally have l: "take (cmd_pos s + 1) ?b = take (cmd_pos s) (cmd_buffer s) @ [c]" .
    have r: "drop (cmd_pos s + 1) (take (cmd_len s + 1) ?b) = drop (cmd_pos s) (take (cmd_len s) (cmd_buffer s))"
      unfolding t using o by simp
    have "\<forall>x \<in> set (take (cmd_len s + 1) ?b). printable x"
      unfolding t using o(4) c set_take_subset_set_take[OF o(2), of "cmd_buffer s"] by (auto dest: in_set_dropD)
    then have "line_ok (shell_insert_char c s)"
      unfolding run using o t False by (intro line_ok_edit[OF ok]) simp_all
    moreover have "zip_of (shell_insert_char c s) = (take (cmd_pos s) (cmd_buffer s) @ [c], drop (cmd_pos s) (take (cmd_len s) (cmd_buffer s)))"
      unfolding run zip_redraw using l r by (simp add: zip_of_def)
    moreover have "key_step (Type c) (zip_of s) = (take (cmd_pos s) (cmd_buffer s) @ [c], drop (cmd_pos s) (take (cmd_len s) (cmd_buffer s)))"
      using z False by (simp add: zip_of_def)
    ultimately show ?thesis by simp
  qed
  then show "line_ok (shell_insert_char c s)" "zip_of (shell_insert_char c s) = key_step (Type c) (zip_of s)" by simp_all
qed

lemma delete_zip:
  assumes ok: "line_ok s" and p: "p < cmd_len s" and p': "p = cmd_pos s \<or> cmd_pos s = p + 1"
  defines "t \<equiv> shell_redraw_line (s\<lparr>cmd_buffer := shift_down p (cmd_len s - 1) (cmd_buffer s),
    cmd_len := cmd_len s - 1, cmd_pos := p\<rparr>)"
  shows "line_ok t" and "zip_of t = (take p (cmd_buffer s), drop (Suc p) (take (cmd_len s) (cmd_buffer s)))"
proof -
  note o = line_okD[OF ok]
  have "cmd_len s \<le> length (cmd_buffer s)" using o by simp
  note d = delete_text[OF p this]
  have l: "take p (shift_down p (cmd_len s - 1) (cmd_buffer s)) = take p (cmd_buffer s)"
  proof -
    have "take p (shift_down p (cmd_len s - 1) (cmd_buffer s)) = take p (take (cmd_len s - 1) (shift_down p (cmd_len s - 1) (cmd_buffer s)))"
      using p by (subst take_take) (simp add: min_absorb1)
    also have "\<dots> = take p (cmd_buffer s)" unfolding d using o p by simp
    finally show ?thesis .
  qed
  have "\<forall>x \<in> set (take (cmd_len s - 1) (shift_down p (cmd_len s - 1) (cmd_buffer s))). printable x"
    unfolding d using o(4) set_take_subset_set_take[of p "cmd_len s" "cmd_buffer s"] p by (auto dest: in_set_dropD)
  then show "line_ok t" unfolding t_def using o d p by (intro line_ok_edit[OF ok]) simp_all
  have "drop p (take p (cmd_buffer s) @ drop (Suc p) (take (cmd_len s) (cmd_buffer s))) = drop (Suc p) (take (cmd_len s) (cmd_buffer s))"
    using o p by simp
  then have "drop p (take (cmd_len s - 1) (shift_down p (cmd_len s - 1) (cmd_buffer s))) = drop (Suc p) (take (cmd_len s) (cmd_buffer s))"
    unfolding d .
  then show "zip_of t = (take p (cmd_buffer s), drop (Suc p) (take (cmd_len s) (cmd_buffer s)))"
    unfolding t_def zip_redraw using l by (simp add: zip_of_def)
qed

lemma delete_before_zip:
  assumes ok: "line_ok s"
  shows "line_ok (shell_delete_char_before s)" and "zip_of (shell_delete_char_before s) = key_step Backspace (zip_of s)"
proof -
  note o = line_okD[OF ok]
  have "line_ok (shell_delete_char_before s) \<and> zip_of (shell_delete_char_before s) = key_step Backspace (zip_of s)"
  proof (cases "cmd_pos s = 0")
    case False
    then have p: "cmd_pos s - 1 < cmd_len s" "cmd_pos s = cmd_pos s - 1 + 1" using o by simp_all
    note d = delete_zip[OF ok p(1) disjI2[OF p(2)]]
    have "shell_delete_char_before s = shell_redraw_line (s\<lparr>cmd_buffer := shift_down (cmd_pos s - 1) (cmd_len s - 1) (cmd_buffer s),
        cmd_len := cmd_len s - 1, cmd_pos := cmd_pos s - 1\<rparr>)"
      using False by (simp add: shell_delete_char_before_def Let_def)
    then show ?thesis using d o False by (simp add: zip_of_def butlast_take)
  qed (use ok in \<open>simp add: shell_delete_char_before_def zip_of_def\<close>)
  then show "line_ok (shell_delete_char_before s)" "zip_of (shell_delete_char_before s) = key_step Backspace (zip_of s)" by simp_all
qed

lemma delete_at_zip:
  assumes ok: "line_ok s"
  shows "line_ok (shell_delete_char_at s)" and "zip_of (shell_delete_char_at s) = key_step Delete (zip_of s)"
proof -
  note o = line_okD[OF ok]
  have "line_ok (shell_delete_char_at s) \<and> zip_of (shell_delete_char_at s) = key_step Delete (zip_of s)"
  proof (cases "cmd_pos s \<ge> cmd_len s")
    case False
    then have p: "cmd_pos s < cmd_len s" by simp
    note d = delete_zip[OF ok p disjI1[OF refl]]
    have "shell_delete_char_at s = shell_redraw_line (s\<lparr>cmd_buffer := shift_down (cmd_pos s) (cmd_len s - 1) (cmd_buffer s),
        cmd_len := cmd_len s - 1, cmd_pos := cmd_pos s\<rparr>)"
      using False by (simp add: shell_delete_char_at_def Let_def)
    then show ?thesis using d o by (simp add: zip_of_def drop_Suc tl_drop)
  qed (use ok o in \<open>simp add: shell_delete_char_at_def zip_of_def\<close>)
  then show "line_ok (shell_delete_char_at s)" "zip_of (shell_delete_char_at s) = key_step Delete (zip_of s)" by simp_all
qed

lemma move_ok:
  assumes ok: "line_ok s" and p: "p \<le> cmd_len s"
  shows "line_ok (shell_redraw_line (s\<lparr>cmd_pos := p\<rparr>))"
    and "zip_of (shell_redraw_line (s\<lparr>cmd_pos := p\<rparr>)) = (take p (cmd_buffer s), drop p (take (cmd_len s) (cmd_buffer s)))"
proof -
  have "line_ok (shell_redraw_line (s\<lparr>cmd_buffer := cmd_buffer s, cmd_len := cmd_len s, cmd_pos := p\<rparr>))"
    using line_okD[OF ok] p by (intro line_ok_edit[OF ok]) simp_all
  then show "line_ok (shell_redraw_line (s\<lparr>cmd_pos := p\<rparr>))" by simp
qed (simp only: zip_redraw, simp add: zip_of_def)

lemma move_zip:
  assumes ok: "line_ok s"
  shows "line_ok (shell_move_left s)" "zip_of (shell_move_left s) = key_step Left (zip_of s)"
    and "line_ok (shell_move_right s)" "zip_of (shell_move_right s) = key_step Right (zip_of s)"
    and "line_ok (shell_move_home s)" "zip_of (shell_move_home s) = key_step Home (zip_of s)"
    and "line_ok (shell_move_end s)" "zip_of (shell_move_end s) = key_step End (zip_of s)"
proof -
  note o = line_okD[OF ok] and m = move_ok[OF ok]
  let ?t = "take (cmd_len s) (cmd_buffer s)"
  have split: "take (cmd_pos s) (cmd_buffer s) @ drop (cmd_pos s) ?t = ?t"
    using o(2) by (metis append_take_drop_id min.absorb1 take_take)
  show "line_ok (shell_move_left s)" "line_ok (shell_move_right s)" "line_ok (shell_move_home s)" "line_ok (shell_move_end s)"
    using ok o m by (simp_all add: shell_move_left_def shell_move_right_def shell_move_home_def shell_move_end_def)
  show "zip_of (shell_move_home s) = key_step Home (zip_of s)" "zip_of (shell_move_end s) = key_step End (zip_of s)"
    using m(2)[of 0] m(2)[of "cmd_len s"] split by (simp_all add: shell_move_home_def shell_move_end_def zip_of_def)
  show "zip_of (shell_move_left s) = key_step Left (zip_of s)"
  proof (cases "cmd_pos s = 0")
    case False
    then obtain p where p: "cmd_pos s = Suc p" by (cases "cmd_pos s") auto
    then have "p < cmd_len s" "p < length (cmd_buffer s)" using o by simp_all
    then have "take (Suc p) (cmd_buffer s) = take p (cmd_buffer s) @ [cmd_buffer s ! p]"
      "drop p ?t = cmd_buffer s ! p # drop (Suc p) ?t"
      by (simp_all add: take_Suc_conv_app_nth flip: Cons_nth_drop_Suc)
    then show ?thesis using p m(2)[of p] o by (simp add: shell_move_left_def zip_of_def)
  qed (simp add: shell_move_left_def zip_of_def)
  show "zip_of (shell_move_right s) = key_step Right (zip_of s)"
  proof (cases "cmd_pos s < cmd_len s")
    case True
    then have "take (Suc (cmd_pos s)) (cmd_buffer s) = take (cmd_pos s) (cmd_buffer s) @ [cmd_buffer s ! cmd_pos s]"
      "drop (cmd_pos s) ?t = cmd_buffer s ! cmd_pos s # drop (Suc (cmd_pos s)) ?t"
      using o by (simp_all add: take_Suc_conv_app_nth flip: Cons_nth_drop_Suc)
    then show ?thesis using True m(2)[of "Suc (cmd_pos s)"] o by (simp add: shell_move_right_def zip_of_def)
  qed (use o in \<open>simp add: shell_move_right_def zip_of_def\<close>)
qed

section \<open>Escape sequences\<close>

abbreviation in_escape :: "esc_state_t \<Rightarrow> string \<Rightarrow> nat \<Rightarrow> 'a line_edit_scheme \<Rightarrow> 'a line_edit_scheme" where
  "in_escape e b n s \<equiv> s\<lparr>esc_state := e, esc_buf := b, esc_pos := n\<rparr>"

lemma zip_escape [simp]:
  "zip_of (s\<lparr>esc_state := e\<rparr>) = zip_of s" "zip_of (s\<lparr>esc_buf := b\<rparr>) = zip_of s" "zip_of (s\<lparr>esc_pos := n\<rparr>) = zip_of s"
  by (simp_all add: zip_of_def)

lemma line_ok_escape:
  assumes "line_ok s" "length b = 8" "e = ESC_START \<longrightarrow> n = 1" "e = ESC_BRACKET \<longrightarrow> 2 \<le> n \<and> n < 7"
  shows "line_ok (in_escape e b n s)"
  using assms by (simp add: line_ok_def esc_ok_def)

lemma line_ok_reset: "line_ok s \<Longrightarrow> line_ok (esc_reset s)"
  using line_ok_escape[of s "esc_buf s" ESC_NONE 0] by (simp add: esc_reset_def line_ok_def esc_ok_def)

lemma zip_reset [simp]: "zip_of (esc_reset s) = zip_of s" "esc_state (esc_reset s) = ESC_NONE"
  by (simp_all add: esc_reset_def)

lemma escape_run:
  assumes "esc_state s = ESC_NONE"
  shows "fold edit_char ([ESC] @ ''['') s = in_escape ESC_BRACKET ((esc_buf s)[0 := ESC, 1 := CHR ''['']) 2 s"
  using assms by (simp add: edit_char_def begin_escape_def escape_char_def)

lemma line_ok_bracket:
  assumes "line_ok s" "n < 5"
  shows "line_ok (in_escape ESC_BRACKET ((esc_buf s)[0 := ESC, 1 := CHR ''['']) (2 + n) s)"
  using assms by (intro line_ok_escape) (simp_all add: line_ok_def esc_ok_def)

lemma escape_final:
  assumes "f \<in> {CHR ''C'', CHR ''D'', CHR ''H'', CHR ''F''}"
  shows "edit_char f (in_escape ESC_BRACKET b 2 s) = esc_reset (shell_handle_escape f (in_escape ESC_BRACKET (b[2 := f]) 3 s))"
proof -
  have "f \<in> {CHR ''A'', CHR ''B'', CHR ''C'', CHR ''D'', CHR ''H'', CHR ''F''}" using assms by blast
  then show ?thesis unfolding edit_char_def escape_char_def Let_def by simp
qed

lemma final_key:
  assumes ok: "line_ok s" and none: "esc_state s = ESC_NONE" and k: "k \<in> {Left, Right, Home, End}"
  shows "line_ok (fold edit_char (key_chars k) s)" "esc_state (fold edit_char (key_chars k) s) = ESC_NONE"
    "zip_of (fold edit_char (key_chars k) s) = key_step k (zip_of s)"
proof -
  define f where "f = (if k = Left then CHR ''D'' else if k = Right then CHR ''C'' else if k = Home then CHR ''H'' else CHR ''F'')"
  have f: "key_chars k = [ESC] @ ''['' @ [f]" "f \<in> {CHR ''C'', CHR ''D'', CHR ''H'', CHR ''F''}"
    using k by (auto simp: f_def)
  define u where "u = in_escape ESC_BRACKET ((esc_buf s)[0 := ESC, 1 := CHR ''['', 2 := f]) 3 s"
  have u: "line_ok u" "zip_of u = zip_of s"
    unfolding u_def using ok by (intro line_ok_escape) (simp_all add: line_ok_def esc_ok_def)
  have "fold edit_char (key_chars k) s = edit_char f (fold edit_char ([ESC] @ ''['') s)" unfolding f(1) by simp
  also have "\<dots> = esc_reset (shell_handle_escape f u)"
    unfolding escape_run[OF none] escape_final[OF f(2)] u_def ..
  finally have run: "fold edit_char (key_chars k) s = esc_reset (shell_handle_escape f u)" .
  have "shell_handle_escape f u = (if k = Left then shell_move_left u else if k = Right then shell_move_right u
      else if k = Home then shell_move_home u else shell_move_end u)"
    by (simp add: shell_handle_escape_def f_def)
  then show "line_ok (fold edit_char (key_chars k) s)" "esc_state (fold edit_char (key_chars k) s) = ESC_NONE"
    "zip_of (fold edit_char (key_chars k) s) = key_step k (zip_of s)"
    unfolding run using k move_zip[OF u(1)] u(2) by (auto intro: line_ok_reset)
qed

lemma delete_key:
  assumes ok: "line_ok s" and none: "esc_state s = ESC_NONE"
  shows "line_ok (fold edit_char (key_chars Delete) s)" "esc_state (fold edit_char (key_chars Delete) s) = ESC_NONE"
    "zip_of (fold edit_char (key_chars Delete) s) = key_step Delete (zip_of s)"
proof -
  have len: "length (esc_buf s) = 8" using ok by (simp add: line_ok_def esc_ok_def)
  define u where "u = in_escape ESC_BRACKET ((esc_buf s)[0 := ESC, 1 := CHR ''['', 2 := CHR ''3'', 3 := CHR ''~'']) 4 s"
  have u: "line_ok u" "zip_of u = zip_of s" "esc_buf u ! 2 = CHR ''3''" "esc_pos u = 4"
    unfolding u_def using line_ok_escape[OF ok] len by simp_all
  have "fold edit_char (key_chars Delete) s = edit_char (CHR ''~'') (edit_char (CHR ''3'') (fold edit_char ([ESC] @ ''['') s))"
    by simp
  also have "\<dots> = esc_reset (shell_handle_escape (CHR ''~'') u)"
    unfolding escape_run[OF none] by (simp add: edit_char_def escape_char_def u_def)
  also have "shell_handle_escape (CHR ''~'') u = shell_delete_char_at u" using u(3,4) by (simp add: shell_handle_escape_def)
  finally have run: "fold edit_char (key_chars Delete) s = esc_reset (shell_delete_char_at u)" .
  show "line_ok (fold edit_char (key_chars Delete) s)" "esc_state (fold edit_char (key_chars Delete) s) = ESC_NONE"
    "zip_of (fold edit_char (key_chars Delete) s) = key_step Delete (zip_of s)"
    unfolding run using delete_at_zip[OF u(1)] u(2) by (auto intro: line_ok_reset)
qed

definition key_ok :: "line_key \<Rightarrow> bool" where
  "key_ok k \<longleftrightarrow> (case k of Type c \<Rightarrow> printable c | _ \<Rightarrow> True)"

lemma key_refines:
  assumes ok: "line_ok s" "esc_state s = ESC_NONE" and k: "key_ok k"
  shows "line_ok (fold edit_char (key_chars k) s)" "esc_state (fold edit_char (key_chars k) s) = ESC_NONE"
    "zip_of (fold edit_char (key_chars k) s) = key_step k (zip_of s)"
proof -
  have keep: "esc_state (shell_insert_char c s) = esc_state s" "esc_state (shell_delete_char_before s) = esc_state s" for c
    by (simp_all add: shell_insert_char_def shell_delete_char_before_def Let_def)
  have "line_ok (fold edit_char (key_chars k) s) \<and> esc_state (fold edit_char (key_chars k) s) = ESC_NONE \<and>
    zip_of (fold edit_char (key_chars k) s) = key_step k (zip_of s)"
  proof (cases k)
    case (Type c)
    then have "printable c" "c \<noteq> ESC" "c \<noteq> CHR 0x08" "c \<noteq> CHR 0x7F" using k by (auto simp: key_ok_def printable_def)
    then show ?thesis using Type insert_zip[OF ok(1)] ok(2) keep by (simp add: edit_char_def)
  next
    case Backspace
    then show ?thesis using delete_before_zip[OF ok(1)] ok(2) keep by (simp add: edit_char_def)
  next
    case Delete
    show ?thesis unfolding Delete using delete_key[OF ok] by blast
  qed (use final_key[OF ok, of k] in simp_all)
  then show "line_ok (fold edit_char (key_chars k) s)" "esc_state (fold edit_char (key_chars k) s) = ESC_NONE"
    "zip_of (fold edit_char (key_chars k) s) = key_step k (zip_of s)" by blast+
qed

section \<open>Every character keeps the arrays in bounds\<close>

lemma c_string_put: "\<forall>c \<in> set t. c \<noteq> NUL \<Longrightarrow> c_string (put_string t b) = t"
  by (simp add: c_string_def put_string_def takeWhile_tail)

lemma entry_no_nul: "entry_ok t \<Longrightarrow> \<forall>c \<in> set t. c \<noteq> NUL"
  by (auto simp: entry_ok_def printable_def)

lemma history_entry_ok: "line_ok s \<Longrightarrow> entry_ok (history_entry s i)"
  by (simp add: line_ok_def history_entry_def)

text \<open>The line an entry of the history leaves: its text, with the cursor behind it.\<close>

lemma recall:
  assumes ok: "line_ok s" and i: "- 1 \<le> i" "i < int (history_count s)" and t: "entry_ok t"
  shows "line_ok (show_buffer (s\<lparr>history_index := i, cmd_buffer := put_string t (cmd_buffer s)\<rparr>))"
    and "zip_of (show_buffer (s\<lparr>history_index := i, cmd_buffer := put_string t (cmd_buffer s)\<rparr>)) = (t, [])"
proof -
  let ?b = "put_string t (cmd_buffer s)"
  have b: "take (length t) ?b = t" "c_string ?b = t"
    using c_string_put[OF entry_no_nul[OF t]] by (simp_all add: put_string_def)
  have len: "length ?b = 256" using t ok by (simp add: put_string_def entry_ok_def line_ok_def)
  have ok': "line_ok (s\<lparr>history_index := i\<rparr>)" using ok i by (simp add: line_ok_def esc_ok_def)
  have "line_ok (shell_redraw_line (s\<lparr>history_index := i, cmd_buffer := ?b, cmd_len := length t, cmd_pos := length t\<rparr>))"
    using t b len by (intro line_ok_edit[OF ok']) (simp_all add: entry_ok_def)
  then show "line_ok (show_buffer (s\<lparr>history_index := i, cmd_buffer := ?b\<rparr>))" using b by (simp add: show_buffer_def)
  show "zip_of (show_buffer (s\<lparr>history_index := i, cmd_buffer := ?b\<rparr>)) = (t, [])"
    using b by (simp add: show_buffer_def zip_of_def[of "_\<lparr>cmd_len := _, cmd_pos := _\<rparr>"])
qed

definition back_index :: "'a line_edit_scheme \<Rightarrow> int" where
  "back_index s = (if history_index s = - 1 then int (history_count s) - 1
     else if history_index s > 0 then history_index s - 1 else history_index s)"

lemma history_back_eq:
  "history_back s = (if history_count s = 0 then s
     else show_buffer (s\<lparr>history_index := back_index s, cmd_buffer := put_string (history_entry s (back_index s)) (cmd_buffer s)\<rparr>))"
  by (simp add: history_back_def back_index_def Let_def history_entry_def)

lemma history_forward_eq:
  "history_forward s = (if history_index s = - 1 then s
     else if history_index s < int (history_count s) - 1 then
       show_buffer (s\<lparr>history_index := history_index s + 1, cmd_buffer := put_string (history_entry s (history_index s + 1)) (cmd_buffer s)\<rparr>)
     else show_buffer (s\<lparr>history_index := - 1, cmd_buffer := (cmd_buffer s)[0 := NUL]\<rparr>))"
  by (simp add: history_forward_def Let_def history_entry_def)

lemma back_index_range: "line_ok s \<Longrightarrow> history_count s \<noteq> 0 \<Longrightarrow> - 1 \<le> back_index s \<and> back_index s < int (history_count s)"
  by (auto simp: back_index_def line_ok_def)

lemma history_ok:
  assumes ok: "line_ok s"
  shows "line_ok (history_back s)" "line_ok (history_forward s)"
proof -
  have i: "- 1 \<le> history_index s" "history_index s < int (history_count s)" "length (cmd_buffer s) = 256" using ok by (simp_all add: line_ok_def)
  show "line_ok (history_back s)"
    using recall(1)[OF ok, of "back_index s"] back_index_range[OF ok] history_entry_ok[OF ok] ok by (simp add: history_back_eq)
  have "line_ok (show_buffer (s\<lparr>history_index := history_index s + 1,
      cmd_buffer := put_string (history_entry s (history_index s + 1)) (cmd_buffer s)\<rparr>))"
    if "history_index s < int (history_count s) - 1"
    using that i by (intro recall(1)[OF ok] history_entry_ok[OF ok]) simp_all
  moreover have "(cmd_buffer s)[0 := NUL] = put_string [] (cmd_buffer s)"
    using i(3) by (cases "cmd_buffer s") (simp_all add: put_string_def)
  then have "line_ok (show_buffer (s\<lparr>history_index := - 1, cmd_buffer := (cmd_buffer s)[0 := NUL]\<rparr>))"
    using recall(1)[OF ok, of "- 1" "[]"] i by (simp add: entry_ok_def)
  ultimately show "line_ok (history_forward s)" using ok by (simp add: history_forward_eq)
qed

lemma shell_handle_escape_ok: "line_ok s \<Longrightarrow> line_ok (shell_handle_escape c s)"
  by (simp add: shell_handle_escape_def move_zip delete_at_zip history_ok)

text \<open>No editing operation looks at the state of the escape sequence.\<close>

lemma redraw_state: "shell_redraw_line (s\<lparr>esc_state := e\<rparr>) = (shell_redraw_line s)\<lparr>esc_state := e\<rparr>"
  by (simp add: shell_redraw_line_def con_def)

lemma moves_state:
  "shell_move_left (s\<lparr>esc_state := e\<rparr>) = (shell_move_left s)\<lparr>esc_state := e\<rparr>"
  "shell_move_right (s\<lparr>esc_state := e\<rparr>) = (shell_move_right s)\<lparr>esc_state := e\<rparr>"
  "shell_move_home (s\<lparr>esc_state := e\<rparr>) = (shell_move_home s)\<lparr>esc_state := e\<rparr>"
  "shell_move_end (s\<lparr>esc_state := e\<rparr>) = (shell_move_end s)\<lparr>esc_state := e\<rparr>"
  by (simp_all add: shell_move_left_def shell_move_right_def shell_move_home_def shell_move_end_def shell_redraw_line_def con_def)

lemma delete_at_state: "shell_delete_char_at (s\<lparr>esc_state := e\<rparr>) = (shell_delete_char_at s)\<lparr>esc_state := e\<rparr>"
  by (simp add: shell_delete_char_at_def Let_def shell_redraw_line_def con_def)

lemma show_state:
  "show_buffer (s\<lparr>esc_state := e, history_index := i, cmd_buffer := b\<rparr>) =
     (show_buffer (s\<lparr>history_index := i, cmd_buffer := b\<rparr>))\<lparr>esc_state := e\<rparr>"
  by (simp add: show_buffer_def Let_def shell_redraw_line_def con_def)

lemma history_state:
  "history_back (s\<lparr>esc_state := e\<rparr>) = (history_back s)\<lparr>esc_state := e\<rparr>"
  "history_forward (s\<lparr>esc_state := e\<rparr>) = (history_forward s)\<lparr>esc_state := e\<rparr>"
  by (simp_all add: history_back_eq history_forward_eq show_state history_entry_def back_index_def)

lemma handle_state: "esc_reset (shell_handle_escape c (s\<lparr>esc_state := e\<rparr>)) = esc_reset (shell_handle_escape c s)"
  by (simp add: shell_handle_escape_def moves_state delete_at_state history_state esc_reset_def)

lemma edit_char_ok:
  assumes ok: "line_ok s"
  shows "line_ok (edit_char c s)"
proof (cases "esc_state s = ESC_NONE")
  case True
  have "line_ok (begin_escape s)" unfolding begin_escape_def
    using line_ok_escape[OF ok, of "(esc_buf s)[0 := ESC]" ESC_START 1] ok by (simp add: line_ok_def esc_ok_def)
  then show ?thesis using True ok insert_zip(1)[OF ok] delete_before_zip(1)[OF ok] by (simp add: edit_char_def)
next
  case False
  define b where "b = (esc_buf s)[esc_pos s := c]"
  have b: "length b = 8" using ok by (simp add: b_def line_ok_def esc_ok_def)
  note e = line_ok_escape[OF ok b]
  have pos: "esc_state s = ESC_START \<longrightarrow> esc_pos s = 1" "esc_state s = ESC_BRACKET \<longrightarrow> 2 \<le> esc_pos s \<and> esc_pos s < 7"
    using ok by (simp_all add: line_ok_def esc_ok_def)
  let ?u = "s\<lparr>esc_buf := b, esc_pos := esc_pos s + 1\<rparr>"
  show ?thesis
  proof (cases "esc_state s = ESC_START")
    case True
    have "line_ok (in_escape ESC_BRACKET b 2 s)" "line_ok (in_escape ESC_NONE b 0 s)" by (rule e; simp)+
    moreover have "edit_char c s = (if c = CHR ''['' then in_escape ESC_BRACKET b 2 s else in_escape ESC_NONE b 0 s)"
      using True pos by (simp add: edit_char_def escape_char_def esc_reset_def b_def Let_def)
    ultimately show ?thesis by simp
  next
    case f: False
    then have st: "esc_state s = ESC_BRACKET" using False by (cases "esc_state s") simp_all
    have n: "line_ok (in_escape ESC_NONE b 0 s)" by (rule e; simp)
    have u: "line_ok ?u" if "esc_pos s + 1 < 7"
    proof -
      have "line_ok (in_escape ESC_BRACKET b (esc_pos s + 1) s)" using that pos st by (intro e) simp_all
      moreover have "in_escape ESC_BRACKET b (esc_pos s + 1) s = ?u" using st by simp
      ultimately show ?thesis by simp
    qed
    have h: "line_ok (esc_reset (shell_handle_escape d ?u))" for d
    proof -
      have "line_ok (in_escape ESC_NONE b (esc_pos s + 1) s)" by (rule e; simp)
      then have "line_ok (esc_reset (shell_handle_escape d (in_escape ESC_NONE b (esc_pos s + 1) s)))"
        by (intro line_ok_reset shell_handle_escape_ok)
      moreover have "in_escape ESC_NONE b (esc_pos s + 1) s = ?u\<lparr>esc_state := ESC_NONE\<rparr>" by simp
      ultimately show ?thesis by (simp only: handle_state)
    qed
    have "edit_char c s = escape_char c s" using False by (simp add: edit_char_def)
    also have "\<dots> = (if c \<in> {CHR ''A'', CHR ''B'', CHR ''C'', CHR ''D'', CHR ''H'', CHR ''F''}
           then esc_reset (shell_handle_escape c ?u)
         else if c = CHR ''~'' then esc_reset (shell_handle_escape (CHR ''~'') ?u)
         else if esc_pos s + 1 < 7 then ?u else in_escape ESC_NONE b 0 s)"
      unfolding escape_char_def Let_def b_def[symmetric] using st by (simp add: esc_reset_def)
    finally show ?thesis using n u h by simp
  qed
qed

section \<open>History\<close>

lemma add_history_ok:
  assumes "line_ok s" "entry_ok t"
  shows "line_ok (shell_add_history t s)"
  using assms set_update_subset_insert[of "history s" "history_count s mod 20" t]
  by (auto simp: shell_add_history_def line_ok_def esc_ok_def)

lemma history_filled:
  assumes "history_count s = 0" "length (history s) = HISTORY_SIZE"
    and "\<And>i. Suc i < length cmds \<Longrightarrow> cmds ! i \<noteq> cmds ! Suc i"
  shows "history_count (fold shell_add_history cmds s) = length cmds \<and>
    length (history (fold shell_add_history cmds s)) = HISTORY_SIZE \<and>
    (\<forall>i < length cmds. length cmds \<le> i + HISTORY_SIZE \<longrightarrow> history (fold shell_add_history cmds s) ! (i mod HISTORY_SIZE) = cmds ! i)"
  using assms
proof (induction cmds rule: rev_induct)
  case (snoc c cmds)
  let ?u = "fold shell_add_history cmds s" and ?n = "length cmds"
  have "cmds ! i \<noteq> cmds ! Suc i" if "Suc i < ?n" for i using snoc.prems(3)[of i] that by (simp add: nth_append)
  then have IH: "history_count ?u = ?n" "length (history ?u) = 20"
    "\<And>i. i < ?n \<Longrightarrow> ?n \<le> i + 20 \<Longrightarrow> history ?u ! (i mod 20) = cmds ! i"
    using snoc.IH[OF snoc.prems(1,2)] by auto
  have new: "history_entry ?u (int (history_count ?u) - 1) \<noteq> c" if "history_count ?u > 0"
  proof -
    have "?n \<noteq> 0" using that IH(1) by simp
    then obtain m where m: "?n = Suc m" by (rule not0_implies_Suc[THEN exE])
    then have "history_entry ?u (int (history_count ?u) - 1) = cmds ! m" using IH(1) IH(3)[of m] by (simp add: history_entry_def)
    then show ?thesis using snoc.prems(3)[of m] m by (simp add: nth_append)
  qed
  have u: "fold shell_add_history (cmds @ [c]) s = ?u\<lparr>history := (history ?u)[?n mod 20 := c], history_count := ?n + 1\<rparr>"
    using new IH(1) by (auto simp: shell_add_history_def)
  have "(history ?u)[?n mod 20 := c] ! (i mod 20) = (cmds @ [c]) ! i" if i: "i < ?n + 1" "?n + 1 \<le> i + 20" for i
  proof (cases "i = ?n")
    case False
    have "i mod 20 \<noteq> ?n mod 20"
    proof
      assume "i mod 20 = ?n mod 20"
      moreover have "i < ?n" "?n - i < 20" using i False by simp_all
      ultimately show False by (metis diff_is_0_eq mod_eq_dvd_iff_nat nat_dvd_not_less not_less order_less_imp_le zero_less_diff)
    qed
    then show ?thesis using i False IH(3)[of i] by (simp add: nth_append)
  qed (use IH(2) in simp)
  then show ?case unfolding u using IH(2) by simp
qed simp

definition up_key :: string where "up_key = [ESC] @ ''[A''"

lemma up_run:
  assumes ok: "line_ok s" "esc_state s = ESC_NONE" "history_count s \<noteq> 0"
  defines "t \<equiv> fold edit_char up_key s"
  shows "line_ok t" "esc_state t = ESC_NONE" "history t = history s" "history_count t = history_count s"
    "history_index t = back_index s" "zip_of t = (history_entry s (back_index s), [])"
proof -
  define u where "u = in_escape ESC_BRACKET ((esc_buf s)[0 := ESC, 1 := CHR ''['', 2 := CHR ''A'']) 3 s"
  have u: "line_ok u" unfolding u_def using line_ok_escape[OF ok(1)] ok(1) by (simp add: line_ok_def esc_ok_def)
  have b: "back_index u = back_index s" "history_entry u (back_index s) = history_entry s (back_index s)" "history_count u = history_count s"
    "history u = history s"
    by (simp_all add: u_def back_index_def history_entry_def)
  have "t = edit_char (CHR ''A'') (fold edit_char ([ESC] @ ''['') s)" by (simp add: t_def up_key_def)
  also have "\<dots> = esc_reset (shell_handle_escape (CHR ''A'') u)"
    unfolding escape_run[OF ok(2)] edit_char_def escape_char_def Let_def u_def by simp
  finally have t: "t = esc_reset (history_back u)" by (simp add: shell_handle_escape_def)
  show "line_ok t" "esc_state t = ESC_NONE" unfolding t using history_ok(1)[OF u] by (auto intro: line_ok_reset)
  have h: "history_back u = show_buffer (u\<lparr>history_index := back_index s, cmd_buffer := put_string (history_entry s (back_index s)) (cmd_buffer u)\<rparr>)"
    using ok(3) by (simp add: history_back_eq b)
  show "history t = history s" "history_count t = history_count s" "history_index t = back_index s"
    unfolding t h by (simp_all add: esc_reset_def show_buffer_def Let_def shell_redraw_line_def con_def b)
  show "zip_of t = (history_entry s (back_index s), [])"
    unfolding t h zip_reset
    by (rule recall(2)[OF u]) (use back_index_range[OF ok(1,3)] history_entry_ok[OF ok(1)] in \<open>simp_all add: b\<close>)
qed

lemma ups_run:
  assumes ok: "line_ok s" "esc_state s = ESC_NONE" and i: "history_index s = - 1" and k: "0 < k" "k \<le> history_count s"
  shows "let t = fold edit_char (concat (replicate k up_key)) s in
    line_ok t \<and> esc_state t = ESC_NONE \<and> history t = history s \<and> history_count t = history_count s \<and>
    history_index t = int (history_count s - k) \<and> zip_of t = (history_entry s (int (history_count s - k)), [])"
  using k
proof (induction k)
  case (Suc k)
  show ?case
  proof (cases "k = 0")
    case True
    then show ?thesis using up_run[OF ok] Suc.prems i by (simp add: back_index_def Let_def of_nat_diff)
  next
    case False
    define t where "t = fold edit_char (concat (replicate k up_key)) s"
    have t: "line_ok t" "esc_state t = ESC_NONE" "history t = history s" "history_count t = history_count s"
      "history_index t = int (history_count s - k)"
      using Suc.IH False Suc.prems by (simp_all add: t_def Let_def)
    have "concat (replicate (Suc k) up_key) = concat (replicate k up_key @ [up_key])"
      by (simp only: replicate_append_same replicate_Suc)
    then have "concat (replicate (Suc k) up_key) = concat (replicate k up_key) @ up_key" by simp
    then have "fold edit_char (concat (replicate (Suc k) up_key)) s = fold edit_char up_key t" by (simp add: t_def)
    moreover have "back_index t = int (history_count s - Suc k)" using t Suc.prems by (auto simp: back_index_def)
    moreover have "history_entry t x = history_entry s x" for x using t by (simp add: history_entry_def)
    ultimately show ?thesis using up_run[OF t(1,2)] t Suc.prems by (simp add: Let_def)
  qed
qed simp

section \<open>Properties\<close>

definition fresh_line :: line_edit where
  "fresh_line = \<lparr>console = [], port_out = [], port_in = (\<lambda>_ _. 0), port_reads = (\<lambda>_. 0), iflag = True,
     hmem = (\<lambda>_. 0), free_lists = (\<lambda>_. 0), heap_top = 0, vnodes = (\<lambda>_. None), vfiles = (\<lambda>_. None), ramfs_root = 0, ramfs_cwd = 0,
     kbd = machine.more (undefined :: keyboard), typed = (\<lambda>_. []), polls = 0,
     cmd_buffer = replicate 256 NUL, cmd_pos = 0, cmd_len = 0, history = replicate 20 [], history_count = 0, history_index = - 1,
     esc_state = ESC_NONE, esc_buf = replicate 8 NUL, esc_pos = 0\<rparr>"

lemma fresh_line_ok: "line_ok fresh_line" "esc_state fresh_line = ESC_NONE"
  by (simp_all add: fresh_line_def line_ok_def entry_ok_def esc_ok_def)

text \<open>C32: The command line is a text with a cursor: for every sequence of keys, the characters and
  escape sequences the driver delivers for them leave the line that the keys describe - typing,
  backspace, delete, the arrows, home and end - and never more than 255 characters.\<close>

theorem line_edit_refines:
  assumes "line_ok s" "esc_state s = ESC_NONE" "\<forall>k \<in> set ks. key_ok k"
  shows "line_ok (fold edit_char (concat (map key_chars ks)) s) \<and>
    esc_state (fold edit_char (concat (map key_chars ks)) s) = ESC_NONE \<and>
    zip_of (fold edit_char (concat (map key_chars ks)) s) = fold key_step ks (zip_of s)"
  using assms
proof (induction ks arbitrary: s)
  case (Cons k ks)
  have "key_ok k" "\<forall>k \<in> set ks. key_ok k" using Cons.prems by simp_all
  with key_refines[OF Cons.prems(1,2)] Cons.IH[of "fold edit_char (key_chars k) s"] show ?case by simp
qed simp

theorem line_edit_refines_witness:
  "zip_of (fold edit_char (concat (map key_chars [Type (CHR ''l''), Type (CHR ''x''), Backspace, Type (CHR ''s''), Left])) fresh_line) =
    (''l'', ''s'')"
proof -
  let ?ks = "[Type (CHR ''l''), Type (CHR ''x''), Backspace, Type (CHR ''s''), Left]"
  have "\<forall>k \<in> set ?ks. key_ok k" by (simp add: key_ok_def printable_def)
  from line_edit_refines[OF fresh_line_ok this] have
    "zip_of (fold edit_char (concat (map key_chars ?ks)) fresh_line) = fold key_step ?ks (zip_of fresh_line)" by blast
  also have "zip_of fresh_line = ([], [])" by (simp add: zip_of_def fresh_line_def)
  finally show ?thesis by simp
qed

text \<open>C33: The history gives back what was entered: after lines of which no two neighbours are equal,
  pressing the up key \<open>k\<close> times, \<open>k\<close> at most 20, shows the \<open>k\<close>-th last of them with the cursor
  behind it.\<close>

theorem history_recalls:
  assumes ok: "line_ok s" "esc_state s = ESC_NONE" "history_count s = 0" "\<forall>c \<in> set cmds. entry_ok c"
    and distinct: "\<And>i. Suc i < length cmds \<Longrightarrow> cmds ! i \<noteq> cmds ! Suc i"
    and k: "0 < k" "k \<le> length cmds" "k \<le> HISTORY_SIZE"
  shows "zip_of (fold edit_char (concat (replicate k up_key)) (fold shell_add_history cmds s)) = (cmds ! (length cmds - k), [])"
proof -
  let ?t = "fold shell_add_history cmds s"
  have keep: "line_ok ?t \<and> esc_state ?t = ESC_NONE \<and> history_index ?t = history_index s"
    using ok(1,2,4)
  proof (induction cmds arbitrary: s)
    case (Cons c cmds)
    have "esc_state (shell_add_history c s) = esc_state s" "history_index (shell_add_history c s) = history_index s"
      by (simp_all add: shell_add_history_def)
    then show ?case using Cons.IH[of "shell_add_history c s"] add_history_ok[of s c] Cons.prems by simp
  qed simp
  have "history_index s = - 1" using ok(1,3) by (simp add: line_ok_def)
  then have i: "history_index ?t = - 1" using keep by simp
  have "length (history s) = HISTORY_SIZE" using ok(1) by (simp add: line_ok_def)
  note f = history_filled[OF ok(3) this distinct]
  have "zip_of (fold edit_char (concat (replicate k up_key)) ?t) = (history_entry ?t (int (history_count ?t - k)), [])"
    using ups_run[OF _ _ i k(1)] keep f k(2) by (simp add: Let_def)
  also have "history_entry ?t (int (history_count ?t - k)) = cmds ! (length cmds - k)"
    using f k by (simp add: history_entry_def of_nat_diff[symmetric] del: of_nat_diff)
  finally show ?thesis .
qed

theorem history_recalls_witness:
  "zip_of (fold edit_char (concat (replicate 2 up_key)) (fold shell_add_history [''ls'', ''pwd'', ''date''] fresh_line)) = (''pwd'', [])"
proof -
  have "history_count fresh_line = 0" by (simp add: fresh_line_def)
  moreover have "\<forall>c \<in> set [''ls'', ''pwd'', ''date'']. entry_ok c" by (simp add: entry_ok_def printable_def)
  moreover have "[''ls'', ''pwd'', ''date''] ! i \<noteq> [''ls'', ''pwd'', ''date''] ! Suc i" if "Suc i < length [''ls'', ''pwd'', ''date'']" for i
    using that by (cases i) (auto simp: less_Suc_eq)
  ultimately show ?thesis using history_recalls[OF fresh_line_ok, of "[''ls'', ''pwd'', ''date'']" 2] by simp
qed

end
