(* ===== verification/Line_Screen.thy ===== *)
theory Line_Screen
  imports Line_Edit_Spec Screen_Spec Stdio
begin

text \<open>
  What the redraw of the command line leaves on the screen. It needs a line that fits in its row
  together with the prompt: a longer one wraps into the next row, while \<open>shell_redraw_line\<close> still
  counts from the row it began in.
\<close>

section \<open>Printing in one row\<close>

lemma cprint_plain:
  assumes "screen_ok s" "c \<noteq> 0x0A" "c \<noteq> 0x08" "cursor_col s + 1 < 80"
  shows "vga (cprint c s) = (vga s)(cursor_row s * 80 + cursor_col s := vga_entry c (colors s))"
    "cursor_row (cprint c s) = cursor_row s" "cursor_col (cprint c s) = cursor_col s + 1"
proof -
  have r: "0 \<le> cursor_row s" "cursor_row s < 25" "0 \<le> cursor_col s" using assms(1) by (simp_all add: screen_ok_def)
  let ?t = "s\<lparr>vga := (vga s)(cursor_row s * 80 + cursor_col s := vga_entry c (colors s)), cursor_col := cursor_col s + 1\<rparr>"
  have c: "cprint_char c s = ?t" using assms r by (simp add: cprint_char_def put_cell_def Let_def)
  have "cprint c s = set_cursor_offset (get_offset (cursor_col ?t) (cursor_row ?t)) ?t"
    using c assms(4) r by (simp add: cprint_def Let_def)
  then show "vga (cprint c s) = (vga s)(cursor_row s * 80 + cursor_col s := vga_entry c (colors s))"
    "cursor_row (cprint c s) = cursor_row s" "cursor_col (cprint c s) = cursor_col s + 1"
    using set_cursor_offset_at[of "cursor_row ?t" "cursor_col ?t" ?t] r assms(4) by simp_all
qed

lemma printable_byte:
  assumes "printable c"
  shows "32 \<le> unat (of_char c :: u8) \<and> unat (of_char c :: u8) \<le> 126"
proof -
  have "(of_char c :: u8) = of_nat (of_char c)" by (rule of_nat_of_char[symmetric])
  then have "unat (of_char c :: u8) = of_char c" using assms by (simp only: unat_of_nat) (simp add: printable_def)
  then show ?thesis using assms by (simp add: printable_def)
qed

lemma puts_plain:
  assumes "screen_ok s" "\<forall>c \<in> set t. printable c" "cursor_col s + int (length t) < 80"
  shows "screen_ok (puts t s) \<and> colors (puts t s) = colors s \<and> cursor_row (puts t s) = cursor_row s \<and>
    cursor_col (puts t s) = cursor_col s + int (length t) \<and>
    (\<forall>n < length t. vga (puts t s) (cursor_row s * 80 + cursor_col s + int n) = vga_entry (of_char (t ! n)) (colors s)) \<and>
    (\<forall>i. i < cursor_row s * 80 + cursor_col s \<or> cursor_row s * 80 + cursor_col s + int (length t) \<le> i \<longrightarrow> vga (puts t s) i = vga s i)"
  using assms
proof (induction t arbitrary: s)
  case (Cons c t)
  have p: "of_char c \<noteq> (0x0A :: u8)" "of_char c \<noteq> (0x08 :: u8)" using printable_byte[of c] Cons.prems(2) by auto
  have "cursor_col s + 1 < 80" using Cons.prems by simp
  note one = cprint_plain[OF Cons.prems(1) p this]
  define u where "u = cprint (of_char c) s"
  have u: "screen_ok u" "colors u = colors s" "cursor_row u = cursor_row s" "cursor_col u = cursor_col s + 1"
    "vga u = (vga s)(cursor_row s * 80 + cursor_col s := vga_entry (of_char c) (colors s))"
    using cprint_ok[OF Cons.prems(1)] one by (simp_all add: u_def)
  have IH: "screen_ok (puts t u)" "colors (puts t u) = colors s" "cursor_row (puts t u) = cursor_row s"
    "cursor_col (puts t u) = cursor_col s + 1 + int (length t)"
    "\<And>n. n < length t \<Longrightarrow> vga (puts t u) (cursor_row s * 80 + (cursor_col s + 1) + int n) = vga_entry (of_char (t ! n)) (colors s)"
    "\<And>i. i < cursor_row s * 80 + (cursor_col s + 1) \<or> cursor_row s * 80 + (cursor_col s + 1) + int (length t) \<le> i \<Longrightarrow> vga (puts t u) i = vga u i"
    using Cons.IH[OF u(1)] Cons.prems u(2-4) by auto
  have "vga (puts t u) (cursor_row s * 80 + cursor_col s + int n) = vga_entry (of_char ((c # t) ! n)) (colors s)" if "n < length (c # t)" for n
  proof (cases n)
    case 0
    then show ?thesis using IH(6)[of "cursor_row s * 80 + cursor_col s"] u(5) by simp
  next
    case (Suc m)
    then show ?thesis using IH(5)[of m] that by (simp add: algebra_simps)
  qed
  moreover have "vga (puts t u) i = vga s i"
    if "i < cursor_row s * 80 + cursor_col s \<or> cursor_row s * 80 + cursor_col s + int (length (c # t)) \<le> i" for i
    using IH(6)[of i] u(5) that by auto
  ultimately show ?case using IH(1-4) by (simp add: u_def)
qed simp

section \<open>The redraw\<close>



end
