(* ===== verification/Editor.thy ===== *)
theory Editor
  imports Tty Ramfs_Data "HOL-Library.Monad_Syntax"
begin

text \<open>
  The text editor, \<open>snake/snake.c\<close>. The bytes of a line and the arrays of lines and of saved states
  have one owner each, so they are values beside the address \<open>kmalloc\<close> gave them; every allocation
  and release is a call of the heap's own routines, with the sizes of the code, and may fail. \<open>None\<close> is
  an access outside such an object or through a null pointer, the endless halt of \<open>kfree\<close>, or waiting
  for a key that never comes. The contents of files stay bytes of the heap memory. Sizes and positions
  are natural numbers, taken modulo the word size where they are passed to \<open>kmalloc\<close>.
\<close>

section \<open>Data\<close>

record line =
  l_data :: u32
  l_buf :: "u8 list" \<comment> \<open>the bytes of the object at \<open>l_data\<close>\<close>
  l_len :: nat
  l_cap :: nat

record editor_state =
  st_lines_ptr :: u32
  st_lines :: "line list"
  st_cursor_x :: nat
  st_cursor_y :: nat
  st_scroll_x :: nat
  st_scroll_y :: nat

record editor =
  lines_ptr :: u32
  lines :: "line list"
  cursor_x :: nat
  cursor_y :: nat
  scroll_x :: nat
  scroll_y :: nat
  filename_ptr :: u32
  filename :: string
  modified :: bool
  file_ends_with_newline :: bool
  undo_ptr :: u32
  undo_stack :: "editor_state list" \<comment> \<open>the entries up to \<open>undo_top\<close>\<close>
  redo_ptr :: u32
  redo_stack :: "editor_state list"

abbreviation num_lines :: "editor \<Rightarrow> nat" where
  "num_lines ed \<equiv> length (lines ed)"

datatype special_key =
    KEY_UP | KEY_DOWN | KEY_LEFT | KEY_RIGHT | KEY_HOME | KEY_END | KEY_PAGEUP | KEY_PAGEDOWN
  | KEY_DELETE | KEY_BACKSPACE | KEY_ENTER | KEY_TAB | KEY_SAVE | KEY_QUIT | KEY_ESC

datatype key_event = KEY_CHAR u8 | KEY_SPECIAL special_key

definition TEXT_HEIGHT :: nat where "TEXT_HEIGHT = 24"
definition MAX_UNDO_LEVELS :: nat where "MAX_UNDO_LEVELS = 100"
definition MAX_PATH_LEN :: nat where "MAX_PATH_LEN = 256"

definition sizeof_line :: nat where "sizeof_line = 12"
definition sizeof_editor_state :: nat where "sizeof_editor_state = 24"

text \<open>\<open>memcpy\<close> and \<open>memmove\<close> on the bytes of an object.\<close>

definition get_bytes :: "nat \<Rightarrow> nat \<Rightarrow> u8 list \<Rightarrow> u8 list option" where
  "get_bytes i n buf = (if i + n \<le> length buf then Some (take n (drop i buf)) else None)"

definition put_bytes :: "nat \<Rightarrow> u8 list \<Rightarrow> u8 list \<Rightarrow> u8 list option" where
  "put_bytes i bs buf = (if i + length bs \<le> length buf then Some (take i buf @ bs @ drop (i + length bs) buf) else None)"

definition move_bytes :: "nat \<Rightarrow> nat \<Rightarrow> nat \<Rightarrow> u8 list \<Rightarrow> u8 list option" where
  "move_bytes d i n buf = do { bs \<leftarrow> get_bytes i n buf; put_bytes d bs buf }"

text \<open>A new object of \<open>n\<close> bytes: its address, or 0, and what its bytes happen to be.\<close>

definition new_object :: "nat \<Rightarrow> 'a heap_scheme \<Rightarrow> (u32 \<times> u8 list \<times> 'a heap_scheme) option" where
  "new_object n s = do { (p, s) \<leftarrow> kmalloc (of_nat n) s; Some (p, bytes_at (hmem s) p (unat (of_nat n :: u32)), s) }"

section \<open>Saved states\<close>

fun free_lines :: "line list \<Rightarrow> 'a heap_scheme \<Rightarrow> 'a heap_scheme option" where
  "free_lines [] s = Some s"
| "free_lines (l # ls) s = do { s \<leftarrow> kfree (l_data l) s; free_lines ls s }"

text \<open>The copies of the lines; \<open>False\<close> when one could not be allocated.\<close>

fun clone_lines :: "line list \<Rightarrow> line list \<Rightarrow> 'a heap_scheme \<Rightarrow> (bool \<times> line list \<times> 'a heap_scheme) option" where
  "clone_lines [] copies s = Some (True, copies, s)"
| "clone_lines (src # ls) copies s = do {
     (p, buf, s) \<leftarrow> new_object (l_len src + 1) s;
     if p = 0 then Some (False, copies, s)
     else do {
       bs \<leftarrow> get_bytes 0 (l_len src) (l_buf src);
       buf \<leftarrow> put_bytes 0 bs buf;
       buf \<leftarrow> put_bytes (l_len src) [0] buf;
       clone_lines ls (copies @ [\<lparr>l_data = p, l_buf = buf, l_len = l_len src, l_cap = l_len src + 1\<rparr>]) s }}"

definition no_state :: editor_state where
  "no_state = \<lparr>st_lines_ptr = 0, st_lines = [], st_cursor_x = 0, st_cursor_y = 0, st_scroll_x = 0, st_scroll_y = 0\<rparr>"

definition editor_state_clone :: "editor \<Rightarrow> 'a heap_scheme \<Rightarrow> (editor_state \<times> 'a heap_scheme) option" where
  "editor_state_clone ed s = do {
     (p, s) \<leftarrow> kmalloc (of_nat (num_lines ed * sizeof_line)) s;
     if p = 0 then Some (no_state, s)
     else do {
       (ok, copies, s) \<leftarrow> clone_lines (lines ed) [] s;
       if \<not> ok then do { s \<leftarrow> free_lines copies s; s \<leftarrow> kfree p s; Some (no_state, s) }
       else Some (\<lparr>st_lines_ptr = p, st_lines = copies, st_cursor_x = cursor_x ed, st_cursor_y = cursor_y ed,
                   st_scroll_x = scroll_x ed, st_scroll_y = scroll_y ed\<rparr>, s) }}"

definition editor_state_free :: "editor_state \<Rightarrow> 'a heap_scheme \<Rightarrow> (editor_state \<times> 'a heap_scheme) option" where
  "editor_state_free st s =
     (if st_lines_ptr st = 0 then Some (st, s)
      else do {
        s \<leftarrow> free_lines (st_lines st) s;
        s \<leftarrow> kfree (st_lines_ptr st) s;
        Some (st\<lparr>st_lines_ptr := 0, st_lines := []\<rparr>, s) })"

definition editor_state_restore ::
  "editor \<Rightarrow> editor_state \<Rightarrow> 'a heap_scheme \<Rightarrow> (editor \<times> editor_state \<times> 'a heap_scheme) option" where
  "editor_state_restore ed st s = do {
     s \<leftarrow> free_lines (lines ed) s;
     s \<leftarrow> kfree (lines_ptr ed) s;
     Some (ed\<lparr>lines_ptr := st_lines_ptr st, lines := st_lines st, cursor_x := st_cursor_x st, cursor_y := st_cursor_y st,
              scroll_x := st_scroll_x st, scroll_y := st_scroll_y st, modified := True\<rparr>,
           st\<lparr>st_lines_ptr := 0, st_lines := []\<rparr>, s) }"

section \<open>Undo and redo\<close>

definition undo_stack_push ::
  "u32 \<Rightarrow> editor_state list \<Rightarrow> editor_state \<Rightarrow> 'a heap_scheme \<Rightarrow> (editor_state list \<times> 'a heap_scheme) option" where
  "undo_stack_push ptr stack state s =
     (if ptr = 0 then None
      else if length stack \<ge> MAX_UNDO_LEVELS then do {
        (_, s) \<leftarrow> editor_state_free (hd stack) s;
        Some (tl stack @ [state], s) }
      else Some (stack @ [state], s))"

definition undo_stack_pop :: "editor_state list \<Rightarrow> editor_state \<times> editor_state list" where
  "undo_stack_pop stack = (last stack, butlast stack)"

fun undo_stack_clear :: "editor_state list \<Rightarrow> 'a heap_scheme \<Rightarrow> (editor_state list \<times> 'a heap_scheme) option" where
  "undo_stack_clear [] s = Some ([], s)"
| "undo_stack_clear (st # sts) s = do { (_, s) \<leftarrow> editor_state_free st s; undo_stack_clear sts s }"

definition editor_push_undo :: "editor \<Rightarrow> 'a heap_scheme \<Rightarrow> (bool \<times> editor \<times> 'a heap_scheme) option" where
  "editor_push_undo ed s = do {
     (st, s) \<leftarrow> editor_state_clone ed s;
     if st_lines_ptr st = 0 then Some (False, ed, s)
     else do {
       (stack, s) \<leftarrow> undo_stack_push (undo_ptr ed) (undo_stack ed) st s;
       Some (True, ed\<lparr>undo_stack := stack\<rparr>, s) }}"

definition editor_discard_last_undo :: "editor \<Rightarrow> 'a heap_scheme \<Rightarrow> (editor \<times> 'a heap_scheme) option" where
  "editor_discard_last_undo ed s =
     (if undo_stack ed = [] then Some (ed, s)
      else
        let (st, stack) = undo_stack_pop (undo_stack ed)
        in do { (_, s) \<leftarrow> editor_state_free st s; Some (ed\<lparr>undo_stack := stack\<rparr>, s) })"

definition editor_clear_redo :: "editor \<Rightarrow> 'a heap_scheme \<Rightarrow> (editor \<times> 'a heap_scheme) option" where
  "editor_clear_redo ed s = do { (stack, s) \<leftarrow> undo_stack_clear (redo_stack ed) s; Some (ed\<lparr>redo_stack := stack\<rparr>, s) }"

definition editor_undo :: "editor \<Rightarrow> 'a heap_scheme \<Rightarrow> (editor \<times> 'a heap_scheme) option" where
  "editor_undo ed s =
     (if undo_stack ed = [] then Some (ed, s)
      else do {
        (current, s) \<leftarrow> editor_state_clone ed s;
        (ed, s) \<leftarrow> (if st_lines_ptr current \<noteq> 0 then do {
                      (stack, s) \<leftarrow> undo_stack_push (redo_ptr ed) (redo_stack ed) current s;
                      Some (ed\<lparr>redo_stack := stack\<rparr>, s) }
                    else Some (ed, s));
        let (prev, stack) = undo_stack_pop (undo_stack ed);
        (ed, prev, s) \<leftarrow> editor_state_restore (ed\<lparr>undo_stack := stack\<rparr>) prev s;
        (_, s) \<leftarrow> editor_state_free prev s;
        Some (ed, s) })"

definition editor_redo :: "editor \<Rightarrow> 'a heap_scheme \<Rightarrow> (editor \<times> 'a heap_scheme) option" where
  "editor_redo ed s =
     (if redo_stack ed = [] then Some (ed, s)
      else do {
        (current, s) \<leftarrow> editor_state_clone ed s;
        (ed, s) \<leftarrow> (if st_lines_ptr current \<noteq> 0 then do {
                      (stack, s) \<leftarrow> undo_stack_push (undo_ptr ed) (undo_stack ed) current s;
                      Some (ed\<lparr>undo_stack := stack\<rparr>, s) }
                    else Some (ed, s));
        let (next, stack) = undo_stack_pop (redo_stack ed);
        (ed, next, s) \<leftarrow> editor_state_restore (ed\<lparr>redo_stack := stack\<rparr>) next s;
        (_, s) \<leftarrow> editor_state_free next s;
        Some (ed, s) })"

section \<open>Lines\<close>

text \<open>The doubling loop; it stops, as the first capacity is not 0.\<close>

function grow_cap :: "nat \<Rightarrow> nat \<Rightarrow> nat" where
  "grow_cap cap needed = (if 0 < cap \<and> cap < needed then grow_cap (cap * 2) needed else cap)"
  by pat_completeness auto
termination by (relation "measure (\<lambda>(cap, needed). needed - cap)") auto

declare grow_cap.simps [simp del]

definition line_reserve :: "line \<Rightarrow> nat \<Rightarrow> 'a heap_scheme \<Rightarrow> (bool \<times> line \<times> 'a heap_scheme) option" where
  "line_reserve line needed s =
     (if l_cap line \<ge> needed then Some (True, line, s)
      else
        let new_cap = grow_cap (if l_cap line \<noteq> 0 then l_cap line * 2 else 16) needed
        in do {
          (p, buf, s) \<leftarrow> new_object new_cap s;
          if p = 0 then Some (False, line, s)
          else do {
            (buf, s) \<leftarrow> (if l_data line \<noteq> 0 then do {
                           bs \<leftarrow> get_bytes 0 (l_len line + 1) (l_buf line);
                           buf \<leftarrow> put_bytes 0 bs buf;
                           s \<leftarrow> kfree (l_data line) s;
                           Some (buf, s) }
                         else Some (buf, s));
            Some (True, line\<lparr>l_data := p, l_buf := buf, l_cap := new_cap\<rparr>, s) }})"

definition line_insert_char :: "line \<Rightarrow> nat \<Rightarrow> u8 \<Rightarrow> 'a heap_scheme \<Rightarrow> (bool \<times> line \<times> 'a heap_scheme) option" where
  "line_insert_char line pos c s =
     (if pos > l_len line then Some (False, line, s)
      else do {
        (ok, line, s) \<leftarrow> line_reserve line (l_len line + 2) s;
        if \<not> ok then Some (False, line, s)
        else do {
          buf \<leftarrow> move_bytes (pos + 1) pos (l_len line - pos + 1) (l_buf line);
          buf \<leftarrow> put_bytes pos [c] buf;
          Some (True, line\<lparr>l_buf := buf, l_len := l_len line + 1\<rparr>, s) }})"

definition line_delete_char :: "line \<Rightarrow> nat \<Rightarrow> (bool \<times> line) option" where
  "line_delete_char line pos =
     (if pos \<ge> l_len line then Some (False, line)
      else do {
        buf \<leftarrow> move_bytes pos (pos + 1) (l_len line - pos) (l_buf line);
        Some (True, line\<lparr>l_buf := buf, l_len := l_len line - 1\<rparr>) })"

definition no_line :: line where
  "no_line = \<lparr>l_data = 0, l_buf = [], l_len = 0, l_cap = 0\<rparr>"

definition line_split :: "line \<Rightarrow> nat \<Rightarrow> 'a heap_scheme \<Rightarrow> (bool \<times> line \<times> line \<times> 'a heap_scheme) option" where
  "line_split line pos s =
     (if pos > l_len line then Some (False, line, no_line, s)
      else
        let tail_len = l_len line - pos
        in do {
          (ok, new_line, s) \<leftarrow> line_reserve no_line (tail_len + 1) s;
          if \<not> ok then Some (False, line, new_line, s)
          else do {
            bs \<leftarrow> get_bytes pos tail_len (l_buf line);
            buf \<leftarrow> put_bytes 0 bs (l_buf new_line);
            buf \<leftarrow> put_bytes tail_len [0] buf;
            old \<leftarrow> put_bytes pos [0] (l_buf line);
            Some (True, line\<lparr>l_buf := old, l_len := pos\<rparr>, new_line\<lparr>l_buf := buf, l_len := tail_len\<rparr>, s) }})"

definition line_join :: "line \<Rightarrow> line \<Rightarrow> 'a heap_scheme \<Rightarrow> (bool \<times> line \<times> 'a heap_scheme) option" where
  "line_join dest src s =
     (let new_len = l_len dest + l_len src
      in do {
        (ok, dest, s) \<leftarrow> line_reserve dest (new_len + 1) s;
        if \<not> ok then Some (False, dest, s)
        else do {
          bs \<leftarrow> get_bytes 0 (l_len src) (l_buf src);
          buf \<leftarrow> put_bytes (l_len dest) bs (l_buf dest);
          buf \<leftarrow> put_bytes new_len [0] buf;
          Some (True, dest\<lparr>l_buf := buf, l_len := new_len\<rparr>, s) }})"

section \<open>The cursor\<close>

definition editor_scroll_to_cursor :: "editor \<Rightarrow> editor" where
  "editor_scroll_to_cursor ed =
     (let ed = (if cursor_x ed < scroll_x ed then ed\<lparr>scroll_x := cursor_x ed\<rparr> else ed);
          ed = (if cursor_x ed \<ge> scroll_x ed + 80 then ed\<lparr>scroll_x := cursor_x ed - 80 + 1\<rparr> else ed);
          ed = (if cursor_y ed < scroll_y ed then ed\<lparr>scroll_y := cursor_y ed\<rparr> else ed)
      in if cursor_y ed \<ge> scroll_y ed + TEXT_HEIGHT then ed\<lparr>scroll_y := cursor_y ed - TEXT_HEIGHT + 1\<rparr> else ed)"

text \<open>The line at an index: reading behind the last one is an access outside the array.\<close>

definition line_at :: "editor \<Rightarrow> nat \<Rightarrow> line option" where
  "line_at ed y = (if y < num_lines ed then Some (lines ed ! y) else None)"

definition clip_x :: "editor \<Rightarrow> editor option" where
  "clip_x ed = do { l \<leftarrow> line_at ed (cursor_y ed); Some (if cursor_x ed > l_len l then ed\<lparr>cursor_x := l_len l\<rparr> else ed) }"

definition move_key :: "editor \<Rightarrow> special_key \<Rightarrow> editor option" where
  "move_key ed key =
     (if key = KEY_LEFT then
        (if cursor_x ed > 0 then Some (ed\<lparr>cursor_x := cursor_x ed - 1\<rparr>)
         else if cursor_y ed > 0 then do {
           l \<leftarrow> line_at ed (cursor_y ed - 1);
           Some (ed\<lparr>cursor_y := cursor_y ed - 1, cursor_x := l_len l\<rparr>) }
         else Some ed)
      else if key = KEY_RIGHT then do {
        l \<leftarrow> line_at ed (cursor_y ed);
        Some (if cursor_x ed < l_len l then ed\<lparr>cursor_x := cursor_x ed + 1\<rparr>
              else if cursor_y ed + 1 < num_lines ed then ed\<lparr>cursor_y := cursor_y ed + 1, cursor_x := 0\<rparr>
              else ed) }
      else if key = KEY_UP then
        (if cursor_y ed > 0 then clip_x (ed\<lparr>cursor_y := cursor_y ed - 1\<rparr>) else Some (ed\<lparr>cursor_x := 0\<rparr>))
      else if key = KEY_DOWN then
        (if cursor_y ed + 1 < num_lines ed then clip_x (ed\<lparr>cursor_y := cursor_y ed + 1\<rparr>)
         else do { l \<leftarrow> line_at ed (cursor_y ed); Some (ed\<lparr>cursor_x := l_len l\<rparr>) })
      else if key = KEY_HOME then Some (ed\<lparr>cursor_x := 0\<rparr>)
      else if key = KEY_END then do { l \<leftarrow> line_at ed (cursor_y ed); Some (ed\<lparr>cursor_x := l_len l\<rparr>) }
      else if key = KEY_PAGEUP then
        clip_x (ed\<lparr>cursor_y := (if cursor_y ed > TEXT_HEIGHT then cursor_y ed - TEXT_HEIGHT else 0)\<rparr>)
      else if key = KEY_PAGEDOWN then
        clip_x (ed\<lparr>cursor_y := (if cursor_y ed + TEXT_HEIGHT < num_lines ed then cursor_y ed + TEXT_HEIGHT else num_lines ed - 1)\<rparr>)
      else Some ed)"

definition editor_move_cursor :: "editor \<Rightarrow> special_key \<Rightarrow> editor option" where
  "editor_move_cursor ed key = map_option editor_scroll_to_cursor (move_key ed key)"

section \<open>Editing\<close>

abbreviation set_line :: "nat \<Rightarrow> line \<Rightarrow> editor \<Rightarrow> editor" where
  "set_line y l ed \<equiv> ed\<lparr>lines := (lines ed)[y := l]\<rparr>"

text \<open>What a change ends with, and what an edit that failed ends with.\<close>

definition edit_done :: "editor \<Rightarrow> 'a heap_scheme \<Rightarrow> (editor \<times> 'a heap_scheme) option" where
  "edit_done ed s = do { (ed, s) \<leftarrow> editor_clear_redo (ed\<lparr>modified := True\<rparr>) s; Some (editor_scroll_to_cursor ed, s) }"

definition edit_undone :: "bool \<Rightarrow> editor \<Rightarrow> 'a heap_scheme \<Rightarrow> (editor \<times> 'a heap_scheme) option" where
  "edit_undone undo_pushed ed s = (if undo_pushed then editor_discard_last_undo ed s else Some (ed, s))"

definition editor_insert_char :: "editor \<Rightarrow> u8 \<Rightarrow> 'a heap_scheme \<Rightarrow> (editor \<times> 'a heap_scheme) option" where
  "editor_insert_char ed c s = do {
     (undo_pushed, ed, s) \<leftarrow> editor_push_undo ed s;
     line \<leftarrow> line_at ed (cursor_y ed);
     (ok, line, s) \<leftarrow> line_insert_char line (cursor_x ed) c s;
     let ed = set_line (cursor_y ed) line ed;
     if \<not> ok then edit_undone undo_pushed ed s
     else edit_done (ed\<lparr>cursor_x := cursor_x ed + 1\<rparr>) s }"

definition editor_insert_newline :: "editor \<Rightarrow> 'a heap_scheme \<Rightarrow> (editor \<times> 'a heap_scheme) option" where
  "editor_insert_newline ed s = do {
     (undo_pushed, ed, s) \<leftarrow> editor_push_undo ed s;
     (p, s) \<leftarrow> kmalloc (of_nat ((num_lines ed + 1) * sizeof_line)) s;
     if p = 0 then edit_undone undo_pushed ed s
     else do {
       current \<leftarrow> line_at ed (cursor_y ed);
       (ok, current, new_line, s) \<leftarrow> line_split current (cursor_x ed) s;
       let ed = set_line (cursor_y ed) current ed;
       if \<not> ok then do { s \<leftarrow> kfree p s; edit_undone undo_pushed ed s }
       else do {
         s \<leftarrow> kfree (lines_ptr ed) s;
         edit_done (ed\<lparr>lines_ptr := p,
             lines := take (cursor_y ed + 1) (lines ed) @ [new_line] @ drop (cursor_y ed + 1) (lines ed),
             cursor_y := cursor_y ed + 1, cursor_x := 0\<rparr>) s }}}"

text \<open>Joining the line at \<open>y\<close> with the next one, and closing the gap in the array.\<close>

definition join_next :: "nat \<Rightarrow> editor \<Rightarrow> 'a heap_scheme \<Rightarrow> (bool \<times> editor \<times> 'a heap_scheme) option" where
  "join_next y ed s = do {
     dest \<leftarrow> line_at ed y;
     src \<leftarrow> line_at ed (y + 1);
     (ok, dest, s) \<leftarrow> line_join dest src s;
     let ed = set_line y dest ed;
     if \<not> ok then Some (False, ed, s)
     else do {
       s \<leftarrow> kfree (l_data src) s;
       Some (True, ed\<lparr>lines := take (y + 1) (lines ed) @ drop (y + 2) (lines ed)\<rparr>, s) }}"

definition editor_delete_backward :: "editor \<Rightarrow> 'a heap_scheme \<Rightarrow> (editor \<times> 'a heap_scheme) option" where
  "editor_delete_backward ed s = do {
     (undo_pushed, ed, s) \<leftarrow> editor_push_undo ed s;
     (changed, ed, s) \<leftarrow>
       (if cursor_x ed > 0 then do {
          line \<leftarrow> line_at ed (cursor_y ed);
          (ok, line) \<leftarrow> line_delete_char line (cursor_x ed - 1);
          let ed = set_line (cursor_y ed) line ed;
          Some (ok, if ok then ed\<lparr>cursor_x := cursor_x ed - 1\<rparr> else ed, s) }
        else if cursor_y ed > 0 then do {
          prev \<leftarrow> line_at ed (cursor_y ed - 1);
          (ok, ed, s) \<leftarrow> join_next (cursor_y ed - 1) ed s;
          Some (ok, if ok then ed\<lparr>cursor_y := cursor_y ed - 1, cursor_x := l_len prev\<rparr> else ed, s) }
        else Some (False, ed, s));
     if changed then edit_done ed s else edit_undone undo_pushed ed s }"

definition editor_delete_forward :: "editor \<Rightarrow> 'a heap_scheme \<Rightarrow> (editor \<times> 'a heap_scheme) option" where
  "editor_delete_forward ed s = do {
     (undo_pushed, ed, s) \<leftarrow> editor_push_undo ed s;
     line \<leftarrow> line_at ed (cursor_y ed);
     (changed, ed, s) \<leftarrow>
       (if cursor_x ed < l_len line then do {
          (ok, line) \<leftarrow> line_delete_char line (cursor_x ed);
          Some (ok, set_line (cursor_y ed) line ed, s) }
        else if cursor_y ed + 1 < num_lines ed then join_next (cursor_y ed) ed s
        else Some (False, ed, s));
     if changed then edit_done ed s else edit_undone undo_pushed ed s }"

section \<open>Creating and freeing an editor\<close>

text \<open>\<open>ed\<close> is what the structure on the stack holds before; a failed allocation leaves the rest of it.\<close>

definition editor_init :: "editor \<Rightarrow> 'a heap_scheme \<Rightarrow> (editor \<times> 'a heap_scheme) option" where
  "editor_init ed s = do {
     (p, s) \<leftarrow> kmalloc (of_nat sizeof_line) s;
     if p = 0 then Some (ed\<lparr>lines_ptr := 0, lines := []\<rparr>, s)
     else do {
       (d, buf, s) \<leftarrow> new_object 1 s;
       if d = 0 then do { s \<leftarrow> kfree p s; Some (ed\<lparr>lines_ptr := 0, lines := []\<rparr>, s) }
       else do {
         buf \<leftarrow> put_bytes 0 [0] buf;
         let ed = ed\<lparr>lines_ptr := p, lines := [\<lparr>l_data = d, l_buf = buf, l_len = 0, l_cap = 1\<rparr>],
                     cursor_x := 0, cursor_y := 0, scroll_x := 0, scroll_y := 0,
                     filename_ptr := 0, filename := [], modified := False, file_ends_with_newline := False\<rparr>;
         (u, s) \<leftarrow> kmalloc (of_nat (MAX_UNDO_LEVELS * sizeof_editor_state)) s;
         (r, s) \<leftarrow> kmalloc (of_nat (MAX_UNDO_LEVELS * sizeof_editor_state)) s;
         (u, r, s) \<leftarrow> (if u = 0 \<or> r = 0 then do {
                          s \<leftarrow> (if u \<noteq> 0 then kfree u s else Some s);
                          s \<leftarrow> (if r \<noteq> 0 then kfree r s else Some s);
                          Some (0, 0, s) }
                        else Some (u, r, s));
         Some (ed\<lparr>undo_ptr := u, redo_ptr := r, undo_stack := [], redo_stack := []\<rparr>, s) }}}"

definition free_stack_of :: "u32 \<Rightarrow> editor_state list \<Rightarrow> 'a heap_scheme \<Rightarrow> 'a heap_scheme option" where
  "free_stack_of ptr stack s =
     (if ptr = 0 then Some s else do { (_, s) \<leftarrow> undo_stack_clear stack s; kfree ptr s })"

definition editor_free :: "editor \<Rightarrow> 'a heap_scheme \<Rightarrow> (editor \<times> 'a heap_scheme) option" where
  "editor_free ed s = do {
     s \<leftarrow> (if lines_ptr ed \<noteq> 0 then do { s \<leftarrow> free_lines (lines ed) s; kfree (lines_ptr ed) s } else Some s);
     s \<leftarrow> (if filename_ptr ed \<noteq> 0 then kfree (filename_ptr ed) s else Some s);
     s \<leftarrow> free_stack_of (undo_ptr ed) (undo_stack ed) s;
     s \<leftarrow> free_stack_of (redo_ptr ed) (redo_stack ed) s;
     Some (ed\<lparr>lines_ptr := 0, lines := [], filename_ptr := 0, filename := [],
              undo_ptr := 0, undo_stack := (if undo_ptr ed = 0 then undo_stack ed else []),
              redo_ptr := 0, redo_stack := (if redo_ptr ed = 0 then redo_stack ed else []),
              cursor_x := 0, cursor_y := 0, scroll_x := 0, scroll_y := 0,
              modified := False, file_ends_with_newline := False\<rparr>, s) }"

section \<open>Files\<close>

abbreviation chars_of :: "u8 list \<Rightarrow> string" where "chars_of bs \<equiv> map (\<lambda>b. char_of (unat b)) bs"
abbreviation NL :: u8 where "NL \<equiv> 0x0A"
abbreviation CR :: u8 where "CR \<equiv> 0x0D"

text \<open>The bytes of a buffer stored at an address.\<close>

definition put_mem :: "u32 \<Rightarrow> u8 list \<Rightarrow> mem \<Rightarrow> mem" where
  "put_mem p bs m = fold (\<lambda>i m. m(p + of_nat i := bs ! i)) [0..<length bs] m"

text \<open>A file as a new object: its address, its bytes with a terminator, and the length.\<close>

definition fs_read_file :: "string \<Rightarrow> string \<Rightarrow> 'a ramfs_scheme \<Rightarrow> ((u32 \<times> u8 list \<times> nat) option \<times> 'a ramfs_scheme) option" where
  "fs_read_file junk pathname s = do {
     let s = viprint newline (viprint pathname (viprint ''fs_read_file: path='' s));
     (node, s) \<leftarrow> ramfs_resolve junk (Some pathname) s;
     if node = 0 then Some (None, viprint (''Error: fs_read_file: node not found'' @ newline) s)
     else do {
       n \<leftarrow> vnodes s node;
       if \<not> is_file n then Some (None, viprint (''Error: fs_read_file: node is not a file'' @ newline) s)
       else do {
         (p, buf, s) \<leftarrow> new_object (unat (n_size n + 1)) s;
         if p = 0 then Some (None, s)
         else do {
           buf \<leftarrow> (if n_size n > 0 \<and> n_data n \<noteq> 0 then put_bytes 0 (bytes_at (hmem s) (n_data n) (unat (n_size n))) buf
                   else Some buf);
           buf \<leftarrow> put_bytes (unat (n_size n)) [0] buf;
           Some (Some (p, buf, unat (n_size n)), s) }}}}"

text \<open>Directory and name of a path that does not exist yet; \<open>None\<close> when it is too long.\<close>

definition split_path :: "string \<Rightarrow> (string \<times> string) option" where
  "split_path pathname =
     (if slash \<in> set pathname then
        let dir = butlast (rev (dropWhile (\<lambda>c. c \<noteq> slash) (rev pathname)));
            name = rev (takeWhile (\<lambda>c. c \<noteq> slash) (rev pathname))
        in if dir = [] then Some (''/'', take VFS_NAME_MAX name)
           else if length pathname \<ge> MAX_PATH_LEN then None
           else Some (dir, take VFS_NAME_MAX name)
      else Some (''/'', take VFS_NAME_MAX pathname))"

text \<open>The node to write to: the one the path names, or a new file; 0 for a return of -1.\<close>

definition file_for :: "string \<Rightarrow> string \<Rightarrow> 'a ramfs_scheme \<Rightarrow> (u32 \<times> 'a ramfs_scheme) option" where
  "file_for junk pathname s = do {
     (node, s) \<leftarrow> ramfs_resolve junk (Some pathname) s;
     if node \<noteq> 0 then Some (node, s)
     else case split_path pathname of
       None \<Rightarrow> Some (0, s)
     | Some (dir, name) \<Rightarrow> do {
         (parent, s) \<leftarrow> ramfs_resolve junk (Some dir) s;
         if parent = 0 then Some (0, s)
         else do {
           d \<leftarrow> vnodes s parent;
           if \<not> is_directory d then Some (0, s)
           else do {
             (r, s) \<leftarrow> ramfs_create parent name FS_FILE s;
             if r \<noteq> 0 then Some (0, s)
             else do { node \<leftarrow> ramfs_find parent name s; Some (node, s) }}}}}"

definition fs_write_file :: "string \<Rightarrow> string \<Rightarrow> u8 list \<Rightarrow> 'a ramfs_scheme \<Rightarrow> (int \<times> 'a ramfs_scheme) option" where
  "fs_write_file junk pathname bs s = do {
     (node, s) \<leftarrow> file_for junk pathname s;
     if node = 0 then Some (- 1, s)
     else do {
       n \<leftarrow> vnodes s node;
       if \<not> is_file n then Some (- 1, s)
       else do {
         s \<leftarrow> (if n_data n \<noteq> 0 then do {
                  s \<leftarrow> kfree (n_data n) s;
                  Some (upd_node node (\<lambda>n. n\<lparr>n_data := 0, n_size := 0\<rparr>) s) }
                else Some s);
         if bs = [] then Some (0, s)
         else do {
           (p, s) \<leftarrow> kmalloc (of_nat (length bs)) s;
           if p = 0 then Some (- 1, s)
           else
             let s = s\<lparr>hmem := put_mem p bs (hmem s)\<rparr>
             in Some (0, upd_node node (\<lambda>n. n\<lparr>n_data := p, n_size := of_nat (length bs)\<rparr>) s) }}}}"

section \<open>Loading and saving\<close>

text \<open>
  The lines of a buffer: \<open>i\<close> is the index the loop is at, \<open>start\<close> the beginning of the line. The test for a
  carriage return looks at \<open>buf[line_len - 1]\<close>, counted from the beginning of the buffer.
\<close>

definition line_length :: "u8 list \<Rightarrow> nat \<Rightarrow> nat \<Rightarrow> nat option" where
  "line_length buf start i =
     (let line_len = i - start
      in if line_len > 0 then do { b \<leftarrow> get_bytes (line_len - 1) 1 buf; Some (if b = [CR] then line_len - 1 else line_len) }
         else Some line_len)"

text \<open>One line at the end of the array: the array moves to a larger object first.\<close>

definition append_line :: "editor \<Rightarrow> u8 list \<Rightarrow> 'a heap_scheme \<Rightarrow> (bool \<times> editor \<times> 'a heap_scheme) option" where
  "append_line ed bs s = do {
     (p, s) \<leftarrow> kmalloc (of_nat ((num_lines ed + 1) * sizeof_line)) s;
     if p = 0 then Some (False, ed, s)
     else do {
       s \<leftarrow> (if lines_ptr ed \<noteq> 0 then kfree (lines_ptr ed) s else Some s);
       let ed = ed\<lparr>lines_ptr := p\<rparr>;
       (d, buf, s) \<leftarrow> new_object (length bs + 1) s;
       if d = 0 then Some (False, ed, s)
       else do {
         buf \<leftarrow> put_bytes 0 bs buf;
         buf \<leftarrow> put_bytes (length bs) [0] buf;
         Some (True, ed\<lparr>lines := lines ed @ [\<lparr>l_data = d, l_buf = buf, l_len = length bs, l_cap = length bs + 1\<rparr>]\<rparr>, s) }}}"

function parse_lines :: "u8 list \<Rightarrow> nat \<Rightarrow> nat \<Rightarrow> nat \<Rightarrow> editor \<Rightarrow> 'a heap_scheme \<Rightarrow> (bool \<times> editor \<times> 'a heap_scheme) option" where
  "parse_lines buf stop i start ed s =
     (if stop < i then Some (True, ed, s)
      else do {
        at_end \<leftarrow> (if i = stop then Some True else do { b \<leftarrow> get_bytes i 1 buf; Some (b = [NL]) });
        if at_end then do {
          n \<leftarrow> line_length buf start i;
          bs \<leftarrow> get_bytes start n buf;
          (ok, ed, s) \<leftarrow> append_line ed bs s;
          if ok then parse_lines buf stop (i + 1) (i + 1) ed s else Some (False, ed, s) }
        else parse_lines buf stop (i + 1) start ed s })"
  by pat_completeness auto
termination by (relation "measure (\<lambda>(_, stop, i, _). Suc stop - i)") auto

declare parse_lines.simps [simp del]

definition editor_parse_buffer :: "editor \<Rightarrow> u8 list \<Rightarrow> nat \<Rightarrow> bool \<Rightarrow> 'a heap_scheme \<Rightarrow> (bool \<times> editor \<times> 'a heap_scheme) option" where
  "editor_parse_buffer ed buf len ends s = do {
     let ed = ed\<lparr>lines_ptr := 0, lines := []\<rparr>;
     let stop = (if len > 0 \<and> buf ! (len - 1) = NL then len - 1 else len);
     (ok, ed, s) \<leftarrow> parse_lines buf stop 0 0 ed s;
     if \<not> ok then Some (False, ed, s)
     else if lines ed = [] then do {
       (p, s) \<leftarrow> kmalloc (of_nat sizeof_line) s;
       if p = 0 then Some (False, ed\<lparr>lines_ptr := 0\<rparr>, s)
       else do {
         (d, b, s) \<leftarrow> new_object 1 s;
         if d = 0 then do { s \<leftarrow> kfree p s; Some (False, ed\<lparr>lines_ptr := 0\<rparr>, s) }
         else do {
           b \<leftarrow> put_bytes 0 [0] b;
           Some (True, ed\<lparr>lines_ptr := p, lines := [\<lparr>l_data = d, l_buf = b, l_len = 0, l_cap = 1\<rparr>],
             file_ends_with_newline := ends\<rparr>, s) }}}
     else Some (True, ed\<lparr>file_ends_with_newline := ends\<rparr>, s) }"

definition my_strdup :: "string \<Rightarrow> 'a heap_scheme \<Rightarrow> (u32 \<times> 'a heap_scheme) option" where
  "my_strdup t s = kmalloc (of_nat (length t + 1)) s"

definition editor_load :: "string \<Rightarrow> editor \<Rightarrow> editor \<Rightarrow> string \<Rightarrow> 'a ramfs_scheme \<Rightarrow> (bool \<times> editor \<times> 'a ramfs_scheme) option" where
  "editor_load junk new_ed ed pathname s = do {
     (r, s) \<leftarrow> fs_read_file junk pathname s;
     case r of
       None \<Rightarrow> Some (False, ed, viprint (''Error: fs_read_file failed'' @ newline) s)
     | Some (p, buf, len) \<Rightarrow> do {
         (new_ed, s) \<leftarrow> editor_init new_ed s;
         (ok, new_ed, s) \<leftarrow> editor_parse_buffer new_ed buf len (len > 0 \<and> buf ! (len - 1) = NL) s;
         s \<leftarrow> kfree p s;
         if \<not> ok then do {
           let s = viprint (''Error: editor_parse_buffer failed'' @ newline) s;
           (_, s) \<leftarrow> editor_free new_ed s;
           Some (False, ed, s) }
         else do {
           (_, s) \<leftarrow> editor_free ed s;
           (f, s) \<leftarrow> my_strdup pathname s;
           Some (True, new_ed\<lparr>filename_ptr := f, filename := pathname, modified := False\<rparr>, s) }}}"

text \<open>The bytes of the file: the lines with newlines between them, and one behind if the file had one.\<close>

fun save_lines :: "line list \<Rightarrow> bool \<Rightarrow> nat \<Rightarrow> u8 list \<Rightarrow> (nat \<times> u8 list) option" where
  "save_lines [] ends pos buf = Some (pos, buf)"
| "save_lines (l # ls) ends pos buf = do {
     bs \<leftarrow> get_bytes 0 (l_len l) (l_buf l);
     buf \<leftarrow> put_bytes pos bs buf;
     let pos = pos + l_len l;
     (pos, buf) \<leftarrow> (if ls \<noteq> [] \<or> ends then do { buf \<leftarrow> put_bytes pos [NL] buf; Some (pos + 1, buf) } else Some (pos, buf));
     save_lines ls ends pos buf }"

definition editor_save :: "string \<Rightarrow> editor \<Rightarrow> 'a ramfs_scheme \<Rightarrow> (bool \<times> editor \<times> 'a ramfs_scheme) option" where
  "editor_save junk ed s =
     (if filename_ptr ed = 0 then Some (False, ed, s)
      else
        let tot = of_nat (sum_list (map (\<lambda>l. l_len l + 1) (lines ed))) :: u32;
            tot = (if \<not> file_ends_with_newline ed then tot - 1 else tot)
        in do {
          (p, buf, s) \<leftarrow> new_object (unat (tot + 1)) s;
          if p = 0 then Some (False, ed, s)
          else do {
            (pos, buf) \<leftarrow> save_lines (lines ed) (file_ends_with_newline ed) 0 buf;
            buf \<leftarrow> put_bytes pos [0] buf;
            (ret, s) \<leftarrow> fs_write_file junk (filename ed) (take pos buf) s;
            s \<leftarrow> kfree p s;
            if ret \<noteq> 0 then Some (False, ed, s) else Some (True, ed\<lparr>modified := False\<rparr>, s) }})"

end
