(* ===== verification/Heap_Owner.thy ===== *)
theory Heap_Owner
  imports Heap_Client "HOL-Library.Multiset"
begin

text \<open>
  Ownership, for clients that allocate and release many objects. A client owns a multiset of pairs of a
  pointer and a size; the other live allocations are a map \<open>R\<close> it does not touch. \<open>owns\<close> says that the
  heap is sound, that all owned pointers are live, different, and have at least their sizes, and that
  nothing else is live. An allocation adds a pair and a release removes one, whatever their order.
  \<open>returns m Q\<close> is total correctness of a computation that may fail: it has a result, which satisfies \<open>Q\<close>.
\<close>

section \<open>Total correctness of partial computations\<close>

definition returns :: "'r option \<Rightarrow> ('r \<Rightarrow> bool) \<Rightarrow> bool" where
  "returns m Q \<longleftrightarrow> (\<exists>r. m = Some r \<and> Q r)"

lemma returns_Some [simp]: "returns (Some r) Q = Q r"
  by (simp add: returns_def)

lemma returns_None [simp]: "\<not> returns None Q"
  by (simp add: returns_def)

lemma returns_bind: "returns (Option.bind m f) Q = returns m (\<lambda>r. returns (f r) Q)"
  by (cases m) simp_all

lemma returns_map_option: "returns (map_option f m) Q = returns m (\<lambda>r. Q (f r))"
  by (cases m) simp_all

lemma returns_mono: "returns m P \<Longrightarrow> (\<And>r. P r \<Longrightarrow> Q r) \<Longrightarrow> returns m Q"
  by (auto simp: returns_def)

lemma returns_if: "returns (if b then m else m') Q = (if b then returns m Q else returns m' Q)"
  by simp

lemma returnsE: "returns m Q \<Longrightarrow> (\<And>r. m = Some r \<Longrightarrow> Q r \<Longrightarrow> thesis) \<Longrightarrow> thesis"
  by (auto simp: returns_def)

section \<open>Ownership\<close>

type_synonym owned = "(u32 \<times> nat) multiset"

definition own_map :: "(u32 \<Rightarrow> nat option) \<Rightarrow> owned \<Rightarrow> (u32 \<Rightarrow> nat option) \<Rightarrow> bool" where
  "own_map R P U \<longleftrightarrow> R \<subseteq>\<^sub>m U \<and> dom U = dom R \<union> fst ` set_mset P \<and> (\<forall>p. count (image_mset fst P) p \<le> 1) \<and>
     (\<forall>p n. (p, n) \<in># P \<longrightarrow> p \<noteq> 0 \<and> p \<notin> dom R \<and> (\<exists>c. U p = Some c \<and> n \<le> c))"

definition owns :: "('s \<Rightarrow> (u32 \<Rightarrow> nat option) \<Rightarrow> bool) \<Rightarrow> (u32 \<Rightarrow> nat option) \<Rightarrow> owned \<Rightarrow> 's \<Rightarrow> bool" where
  "owns ok R P s \<longleftrightarrow> (\<exists>U. ok s U \<and> own_map R P U)"

lemma own_map_add:
  assumes o: "own_map R P U" and p: "U p = None" "p \<noteq> 0" "n \<le> c"
  shows "own_map R (add_mset (p, n) P) (U(p \<mapsto> c))"
proof -
  have new: "p \<notin> dom R" "p \<notin> fst ` set_mset P" using o p(1) by (auto simp: own_map_def)
  then have "count (image_mset fst P) p = 0" by (simp add: count_eq_zero_iff)
  then have "count (image_mset fst (add_mset (p, n) P)) q \<le> 1" for q using o by (cases "p = q") (simp_all add: own_map_def)
  moreover have "R \<subseteq>\<^sub>m U(p \<mapsto> c)" using o new(1) by (auto simp: own_map_def map_le_def)
  moreover have "q \<noteq> 0 \<and> q \<notin> dom R \<and> (\<exists>d. (U(p \<mapsto> c)) q = Some d \<and> k \<le> d)" if "(q, k) \<in># add_mset (p, n) P" for q k
  proof (cases "(q, k) \<in># P")
    case True
    then have "q \<noteq> p" using new(2) by force
    then show ?thesis using o True by (simp add: own_map_def)
  qed (use that p new in simp)
  moreover have "dom (U(p \<mapsto> c)) = dom R \<union> fst ` set_mset (add_mset (p, n) P)" using o by (auto simp: own_map_def)
  ultimately show ?thesis unfolding own_map_def by blast
qed

lemma own_map_owned:
  assumes "own_map R P U" "(p, n) \<in># P"
  shows "p \<noteq> 0" "p \<notin> dom R" "\<exists>c. U p = Some c \<and> n \<le> c"
proof -
  have "p \<noteq> 0 \<and> p \<notin> dom R \<and> (\<exists>c. U p = Some c \<and> n \<le> c)" using assms unfolding own_map_def by blast
  then show "p \<noteq> 0" "p \<notin> dom R" "\<exists>c. U p = Some c \<and> n \<le> c" by blast+
qed

lemma own_map_remove:
  assumes o: "own_map R (add_mset (p, n) P) U"
  shows "own_map R P (U(p := None))"
proof -
  have c1: "count (image_mset fst (add_mset (p, n) P)) q \<le> 1" for q using o unfolding own_map_def by blast
  have "count (image_mset fst P) p = 0" using c1[of p] by simp
  then have new: "p \<notin> fst ` set_mset P" by (simp add: count_eq_zero_iff)
  have R: "p \<notin> dom R" using own_map_owned(2)[OF o, of p n] by simp
  have "q \<noteq> 0 \<and> q \<notin> dom R \<and> (\<exists>c. (U(p := None)) q = Some c \<and> k \<le> c)" if q: "(q, k) \<in># P" for q k
  proof -
    have "q \<noteq> p" using new q by force
    then show ?thesis using own_map_owned[OF o, of q k] q by simp
  qed
  moreover have "count (image_mset fst P) q \<le> 1" for q using c1[of q] by (simp split: if_splits)
  moreover have "R \<subseteq>\<^sub>m U(p := None)" using o R by (auto simp: own_map_def map_le_def)
  moreover have "dom (U(p := None)) = dom R \<union> fst ` set_mset P" using o R new by (auto simp: own_map_def)
  ultimately show ?thesis unfolding own_map_def by blast
qed

text \<open>The bytes of the allocations in \<open>R\<close> are the same.\<close>

definition kept :: "('s \<Rightarrow> mem) \<Rightarrow> (u32 \<Rightarrow> nat option) \<Rightarrow> 's \<Rightarrow> 's \<Rightarrow> bool" where
  "kept bytes R s s' \<longleftrightarrow> (\<forall>q d x. R q = Some d \<longrightarrow> x \<in> payload q d \<longrightarrow> bytes s' x = bytes s x)"

lemma kept_refl [simp]: "kept bytes R s s"
  by (simp add: kept_def)

lemma kept_trans: "kept bytes R s s' \<Longrightarrow> kept bytes R s' s'' \<Longrightarrow> kept bytes R s s''"
  by (simp add: kept_def)

context allocator begin

lemma owns_alloc:
  assumes own: "owns ok R P s"
  shows "alloc n s = Some (0, s) \<or>
    (\<exists>p s'. alloc n s = Some (p, s') \<and> p \<noteq> 0 \<and> owns ok R (add_mset (p, unat n) P) s' \<and> kept bytes R s s')"
proof -
  obtain U where U: "ok s U" "own_map R P U" using own by (auto simp: owns_def)
  show ?thesis
  proof (cases "alloc n s = Some (0, s)")
    case False
    then obtain p s' c where a: "alloc n s = Some (p, s')" "p \<noteq> 0" "U p = None" "unat n \<le> c" "ok s' (U(p \<mapsto> c))"
      and b: "\<And>q d x. U q = Some d \<Longrightarrow> x \<in> payload q d \<Longrightarrow> bytes s' x = bytes s x"
      using alloc_cases[OF U(1), of n] by blast
    have "owns ok R (add_mset (p, unat n) P) s'" using own_map_add[OF U(2) a(3,2,4)] a(5) by (auto simp: owns_def)
    moreover have "kept bytes R s s'" using b U(2) by (auto simp: kept_def own_map_def map_le_def dom_def)
    ultimately show ?thesis using a by blast
  qed simp
qed

lemma owns_release:
  assumes own: "owns ok R (add_mset (p, n) P) s"
  shows "\<exists>s'. release p s = Some s' \<and> owns ok R P s' \<and> kept bytes R s s'"
proof -
  obtain U where U: "ok s U" "own_map R (add_mset (p, n) P) U" using own by (auto simp: owns_def)
  obtain c where c: "U p = Some c" "p \<notin> dom R" using own_map_owned[OF U(2), of p n] by auto
  obtain s' where s': "release p s = Some s'" "ok s' (U(p := None))"
    "\<And>q d x. q \<noteq> p \<Longrightarrow> U q = Some d \<Longrightarrow> x \<in> payload q d \<Longrightarrow> bytes s' x = bytes s x"
    using release_live[OF U(1) c(1)] by blast
  have "owns ok R P s'" using own_map_remove[OF U(2)] s'(2) by (auto simp: owns_def)
  moreover have "kept bytes R s s'"
    unfolding kept_def
  proof (intro allI impI)
    fix q d x assume q: "R q = Some d" "x \<in> payload q d"
    then have "q \<noteq> p" "U q = Some d" using c(2) U(2) by (auto simp: own_map_def map_le_def dom_def)
    then show "bytes s' x = bytes s x" using s'(3) q(2) by blast
  qed
  ultimately show ?thesis using s'(1) by blast
qed

end

section \<open>On the heap of the kernel\<close>

text \<open>A step of a client: it owns \<open>P\<close> now, and since \<open>s0\<close> it has changed nothing but the heap, and in it
  no byte of another allocation.\<close>

definition mine :: "(u32 \<Rightarrow> nat option) \<Rightarrow> owned \<Rightarrow> 'a heap_scheme \<Rightarrow> 'a heap_scheme \<Rightarrow> bool" where
  "mine R P s0 s \<longleftrightarrow> owns heap_ok R P s \<and> heap_only s0 s \<and> kept hmem R s0 s"

lemma mine_start: "owns heap_ok R P s \<Longrightarrow> mine R P s s"
  by (simp add: mine_def)

lemma mine_owns: "mine R P s0 s \<Longrightarrow> owns heap_ok R P s"
  by (simp add: mine_def)

lemma mine_trans: "mine R P s0 s1 \<Longrightarrow> mine R P' s1 s2 \<Longrightarrow> mine R P' s0 s2"
  by (auto simp: mine_def intro: heap_only_trans kept_trans)

lemma kmalloc_returns:
  assumes m: "mine R P s0 s"
    and fail: "Q (0, s)"
    and got: "\<And>p s'. p \<noteq> 0 \<Longrightarrow> mine R (add_mset (p, unat n) P) s0 s' \<Longrightarrow> Q (p, s')"
  shows "returns (kmalloc n s) Q"
proof -
  have "owns heap_ok R P s" using m by (simp add: mine_def)
  then consider "kmalloc n s = Some (0, s)" | p s' where "kmalloc n s = Some (p, s')" "p \<noteq> 0"
    "owns heap_ok R (add_mset (p, unat n) P) s'" "kept hmem R s s'"
    using kheap.owns_alloc[of R P s n] by blast
  then show ?thesis
  proof cases
    case 2
    have "mine R (add_mset (p, unat n) P) s0 s'"
      using m 2 kmalloc_only[OF 2(1)] by (auto simp: mine_def intro: heap_only_trans kept_trans)
    then show ?thesis using 2 got by simp
  qed (simp add: fail)
qed

lemma kfree_returns:
  assumes m: "mine R (add_mset (p, n) P) s0 s"
    and freed: "\<And>s'. mine R P s0 s' \<Longrightarrow> Q s'"
  shows "returns (kfree p s) Q"
proof -
  obtain s' where s': "kfree p s = Some s'" "owns heap_ok R P s'" "kept hmem R s s'"
    using kheap.owns_release[of R p n P s] m by (auto simp: mine_def)
  have "mine R P s0 s'" using m s' kfree_only[OF s'(1)] by (auto simp: mine_def intro: heap_only_trans kept_trans)
  then show ?thesis using s'(1) freed by simp
qed

lemma owned_not_0: "mine R (add_mset (p, n) P) s0 s \<Longrightarrow> p \<noteq> 0"
  using own_map_owned(1)[of R "add_mset (p, n) P" _ p n] by (auto simp: mine_def owns_def)

section \<open>All that is owned fits in the heap\<close>

lemma live_total:
  assumes ok: "heap_ok h U" and A: "A \<subseteq> dom U"
  shows "finite A" "(\<Sum>p \<in> A. the (U p)) \<le> 2 ^ 22"
proof -
  show fin: "finite A" using finite_subset[OF A] by simp
  have card: "card (payload p (the (U p))) = the (U p)" if "p \<in> A" for p
  proof -
    have "p \<in> dom U" using that A by blast
    then obtain c where c: "U p = Some c" by blast
    have le: "c \<le> 2 ^ 32" using live_aligned(4)[OF ok c] by simp
    have "payload p c = (\<lambda>i. p + of_nat i) ` {..<c}" using in_payload_iff[OF le] by auto
    moreover have "inj_on (\<lambda>i. p + of_nat i :: u32) {..<c}"
    proof (rule inj_onI)
      fix x y assume "x \<in> {..<c}" "y \<in> {..<c}" and eq: "p + of_nat x = (p + of_nat y :: u32)"
      then have "x < 2 ^ 32" "y < 2 ^ 32" using le by auto
      moreover have "(of_nat x :: u32) = of_nat y" using eq by simp
      ultimately show "x = y" using unat_of_nat_small by metis
    qed
    ultimately show ?thesis using c by (simp add: card_image)
  qed
  have "(\<Sum>p \<in> A. the (U p)) = (\<Sum>p \<in> A. card (payload p (the (U p))))" by (rule sum.cong) (simp_all add: card)
  also have "\<dots> = card (\<Union>p \<in> A. payload p (the (U p)))"
  proof (rule card_UN_disjoint[symmetric])
    show "\<forall>p \<in> A. \<forall>q \<in> A. p \<noteq> q \<longrightarrow> payload p (the (U p)) \<inter> payload q (the (U q)) = {}"
    proof (intro ballI impI)
      fix p q assume pq: "p \<in> A" "q \<in> A" "p \<noteq> q"
      then obtain c d where "U p = Some c" "U q = Some d" using A by blast
      then show "payload p (the (U p)) \<inter> payload q (the (U q)) = {}" using live_disjoint[OF ok _ _ pq(3)] by simp
    qed
  qed (simp_all add: fin)
  also have "\<dots> \<le> card {x. in_region x}"
    using A live_in_region(1)[OF ok] by (intro card_mono) (auto simp: dom_def)
  also have "\<dots> \<le> 2 ^ 22"
  proof -
    have "{x. in_region x} \<subseteq> (\<lambda>i. 0x2000000 + of_nat i :: u32) ` {..<2 ^ 22}"
    proof
      fix x :: u32 assume "x \<in> {x. in_region x}"
      then have "unat (drop_bit 22 x) = 8" by (simp only: mem_Collect_eq in_region_def) simp
      then have d: "unat x div 2 ^ 22 = 8" using drop_bit_eq_div[of 22 "unat x"] by (simp add: unat_drop_bit_eq)
      show "x \<in> (\<lambda>i. 0x2000000 + of_nat i :: u32) ` {..<2 ^ 22}"
      proof (rule image_eqI[of _ _ "unat x mod 2 ^ 22"])
        have "unat x = 8 * 2 ^ 22 + unat x mod 2 ^ 22" using d by (metis div_mult_mod_eq)
        then have "(of_nat (unat x) :: u32) = of_nat (8 * 2 ^ 22) + of_nat (unat x mod 2 ^ 22)" by (metis of_nat_add)
        then show "x = 0x2000000 + of_nat (unat x mod 2 ^ 22)" by simp
      qed simp
    qed
    then have "card {x. in_region x} \<le> card ((\<lambda>i. 0x2000000 + of_nat i :: u32) ` {..<2 ^ 22})" by (intro card_mono) simp_all
    also have "\<dots> \<le> card {..<2 ^ 22 :: nat}" by (rule card_image_le) simp
    finally show ?thesis by simp
  qed
  finally show "(\<Sum>p \<in> A. the (U p)) \<le> 2 ^ 22" .
qed

lemma owned_sum: "own_map R P U \<Longrightarrow> sum_mset (image_mset snd P) \<le> (\<Sum>p \<in> fst ` set_mset P. the (U p))"
proof (induction P arbitrary: U)
  case (add x P)
  obtain p n where x: "x = (p, n)" by (cases x)
  have o: "own_map R (add_mset (p, n) P) U" using add.prems unfolding x .
  obtain c where c: "U p = Some c" "n \<le> c" using own_map_owned(3)[OF o, of p n] by auto
  have c1: "count (image_mset fst (add_mset (p, n) P)) p \<le> 1" using o unfolding own_map_def by blast
  then have "count (image_mset fst P) p = 0" by simp
  then have new: "p \<notin> fst ` set_mset P" by (simp add: count_eq_zero_iff)
  have "sum_mset (image_mset snd P) \<le> (\<Sum>q \<in> fst ` set_mset P. the ((U(p := None)) q))" by (rule add.IH[OF own_map_remove[OF o]])
  also have "\<dots> = (\<Sum>q \<in> fst ` set_mset P. the (U q))" using new by (intro sum.cong) auto
  finally show ?case using x c new by simp
qed simp

lemma mine_total: "mine R P s0 s \<Longrightarrow> sum_mset (image_mset snd P) \<le> 2 ^ 22"
proof -
  assume "mine R P s0 s"
  then obtain U where U: "heap_ok s U" "own_map R P U" by (auto simp: mine_def owns_def)
  have "fst ` set_mset P \<subseteq> dom U" using U(2) by (auto simp: own_map_def)
  from live_total(2)[OF U(1) this] owned_sum[OF U(2)] show ?thesis by simp
qed

end
