(* ===== verification/Editor_Lines.thy ===== *)
theory Editor_Lines
  imports Editor Heap_Owner
begin

text \<open>
  The lines of the editor: what each routine does to the text of a line, and that it stays inside the
  objects the line owns, with no object lost. The routines that may run out of memory leave the line
  as it was.
\<close>

section \<open>Objects\<close>

lemma new_object_returns:
  assumes m: "mine R P s0 s" and n: "n < 2 ^ 32"
    and fail: "\<And>b. Q (0, b, s)"
    and got: "\<And>p buf s'. p \<noteq> 0 \<Longrightarrow> mine R (add_mset (p, n) P) s0 s' \<Longrightarrow> length buf = n \<Longrightarrow> Q (p, buf, s')"
  shows "returns (new_object n s) Q"
proof -
  have n': "unat (of_nat n :: u32) = n" using n by (rule unat_of_nat_small)
  show ?thesis
    unfolding new_object_def returns_bind n'
    by (rule kmalloc_returns[OF m]) (use fail got n' in simp_all)
qed

lemma get_bytes_Some [simp]: "i + n \<le> length buf \<Longrightarrow> get_bytes i n buf = Some (take n (drop i buf))"
  by (simp add: get_bytes_def)

lemma put_bytes_Some [simp]:
  "i + length bs \<le> length buf \<Longrightarrow> put_bytes i bs buf = Some (take i buf @ bs @ drop (i + length bs) buf)"
  by (simp add: put_bytes_def)

section \<open>Well-formed lines\<close>

definition line_wf :: "line \<Rightarrow> bool" where
  "line_wf l \<longleftrightarrow> l_data l \<noteq> 0 \<and> length (l_buf l) = l_cap l \<and> l_len l < l_cap l \<and> l_buf l ! l_len l = 0"

definition text_of :: "line \<Rightarrow> u8 list" where
  "text_of l = take (l_len l) (l_buf l)"

definition line_own :: "line \<Rightarrow> owned" where
  "line_own l = (if l_data l = 0 then {#} else {#(l_data l, l_cap l)#})"

definition lines_own :: "line list \<Rightarrow> owned" where
  "lines_own ls = sum_list (map line_own ls)"

lemma lines_own_simps [simp]:
  "lines_own [] = {#}" "lines_own (l # ls) = line_own l + lines_own ls" "lines_own (ls @ ks) = lines_own ls + lines_own ks"
  by (simp_all add: lines_own_def)

lemma length_text [simp]: "line_wf l \<Longrightarrow> length (text_of l) = l_len l"
  by (simp add: line_wf_def text_of_def)

lemma line_own_wf: "line_wf l \<Longrightarrow> line_own l = {#(l_data l, l_cap l)#}"
  by (simp add: line_own_def line_wf_def)

lemma lines_own_update:
  assumes "i < length ls"
  shows "lines_own ls = line_own (ls ! i) + lines_own (take i ls @ drop (Suc i) ls)"
    and "lines_own (ls[i := l]) = line_own l + lines_own (take i ls @ drop (Suc i) ls)"
proof -
  have "lines_own ls = lines_own (take i ls @ ls ! i # drop (Suc i) ls)" using assms by (simp only: id_take_nth_drop[symmetric])
  then show "lines_own ls = line_own (ls ! i) + lines_own (take i ls @ drop (Suc i) ls)" by simp
  show "lines_own (ls[i := l]) = line_own l + lines_own (take i ls @ drop (Suc i) ls)"
    using assms by (simp add: upd_conv_take_nth_drop)
qed

text \<open>A size the client owns is no larger than the heap, so no request wraps around.\<close>

lemma owned_small:
  assumes "mine R P s0 s" "(p, n) \<in># P"
  shows "n \<le> 2 ^ 22"
proof -
  obtain P' where "P = add_mset (p, n) P'" using multi_member_split[OF assms(2)] by blast
  then show ?thesis using mine_total[OF assms(1)] by simp
qed

lemma line_small: "mine R (line_own l + P) s0 s \<Longrightarrow> line_wf l \<Longrightarrow> l_cap l \<le> 2 ^ 22"
  using owned_small[of R "line_own l + P" s0 s "l_data l" "l_cap l"] by (simp add: line_own_wf)

text \<open>Ownership may forget some of the size of an object.\<close>

lemma mine_shrink:
  assumes m: "mine R (add_mset (p, n) P) s0 s" and k: "k \<le> n"
  shows "mine R (add_mset (p, k) P) s0 s"
proof -
  obtain U where U: "heap_ok s U" "own_map R (add_mset (p, n) P) U" using m by (auto simp: mine_def owns_def)
  have "own_map R (add_mset (p, k) P) U"
    unfolding own_map_def
  proof (intro conjI allI impI)
    fix q j assume q: "(q, j) \<in># add_mset (p, k) P"
    then have "\<exists>i. (q, i) \<in># add_mset (p, n) P \<and> j \<le> i" using k by auto
    then obtain i where i: "(q, i) \<in># add_mset (p, n) P" "j \<le> i" by blast
    note o = own_map_owned[OF U(2) i(1)]
    show "q \<noteq> 0" "q \<notin> dom R" using o by simp_all
    show "\<exists>c. U q = Some c \<and> j \<le> c" using o(3) i(2) by auto
  next
    fix q have "count (image_mset fst (add_mset (p, n) P)) q \<le> 1" using U(2) unfolding own_map_def by blast
    then show "count (image_mset fst (add_mset (p, k) P)) q \<le> 1" by simp
  qed (use U(2) in \<open>simp_all add: own_map_def\<close>)
  then show ?thesis using m U(1) by (auto simp: mine_def owns_def)
qed

section \<open>Freeing and copying\<close>

lemma free_lines_returns:
  assumes "mine R (lines_own ls + P) s0 s" "\<forall>l \<in> set ls. line_wf l" "\<And>s'. mine R P s0 s' \<Longrightarrow> Q s'"
  shows "returns (free_lines ls s) Q"
  using assms
proof (induction ls arbitrary: s)
  case (Cons l ls)
  have m: "mine R (add_mset (l_data l, l_cap l) (lines_own ls + P)) s0 s"
    using Cons.prems(1,2) by (simp add: line_own_wf)
  show ?case
    unfolding free_lines.simps returns_bind
    by (rule kfree_returns[OF m]) (use Cons in simp)
qed simp

definition same_text :: "line list \<Rightarrow> line list \<Rightarrow> bool" where
  "same_text ls ks \<longleftrightarrow> map text_of ls = map text_of ks"

lemma clone_lines_returns:
  assumes "mine R (lines_own cs + P) s0 s" "\<forall>l \<in> set ls. line_wf l" "\<forall>l \<in> set cs. line_wf l"
    and small: "\<forall>l \<in> set ls. l_cap l \<le> 2 ^ 22"
  shows "returns (clone_lines ls cs s) (\<lambda>(ok, ds, s'). mine R (lines_own ds + P) s0 s' \<and> (\<forall>l \<in> set ds. line_wf l) \<and>
    (ok \<longrightarrow> map text_of ds = map text_of cs @ map text_of ls))"
  using assms
proof (induction ls arbitrary: cs s)
  case (Cons l ls)
  have l: "line_wf l" "l_cap l \<le> 2 ^ 22" using Cons.prems by simp_all
  have len: "l_len l < 2 ^ 22" using l by (simp add: line_wf_def)
  show ?case
    unfolding clone_lines.simps returns_bind
  proof (rule new_object_returns[OF Cons.prems(1)], goal_cases)
    case 1
    show ?case using len by simp
  next
    case (2 b)
    show ?case using Cons.prems by simp
  next
    case (3 p buf s')
    define d where "d = \<lparr>l_data = p, l_buf = take (l_len l) (l_buf l) @ [0], l_len = l_len l, l_cap = l_len l + 1\<rparr>"
    have wf: "line_wf d" "text_of d = text_of l" using 3(1) l(1) by (simp_all add: d_def line_wf_def text_of_def nth_append)
    have "l_len l \<le> length (l_buf l)" using l(1) by (simp add: line_wf_def)
    then have run: "(case (p, buf, s') of (p, buf, s) \<Rightarrow>
        if p = 0 then Some (False, cs, s)
        else do { bs \<leftarrow> get_bytes 0 (l_len l) (l_buf l); buf \<leftarrow> put_bytes 0 bs buf; buf \<leftarrow> put_bytes (l_len l) [0] buf;
          clone_lines ls (cs @ [\<lparr>l_data = p, l_buf = buf, l_len = l_len l, l_cap = l_len l + 1\<rparr>]) s })
      = clone_lines ls (cs @ [d]) s'"
      using 3(1,3) by (simp add: d_def)
    have "mine R (lines_own (cs @ [d]) + P) s0 s'" using 3(1,2) by (simp add: line_own_def d_def ac_simps)
    then have "returns (clone_lines ls (cs @ [d]) s') (\<lambda>(ok, ds, s'). mine R (lines_own ds + P) s0 s' \<and> (\<forall>l \<in> set ds. line_wf l) \<and>
        (ok \<longrightarrow> map text_of ds = map text_of (cs @ [d]) @ map text_of ls))"
      by (rule Cons.IH) (use Cons.prems wf in auto)
    then show ?case unfolding run using wf(2) by simp
  qed
qed simp

lemma clone_lines_rule:
  assumes m: "mine R P s0 s" "\<forall>l \<in> set ls. line_wf l" "\<forall>l \<in> set ls. l_cap l \<le> 2 ^ 22"
    and fail: "\<And>ds s'. mine R (lines_own ds + P) s0 s' \<Longrightarrow> \<forall>l \<in> set ds. line_wf l \<Longrightarrow> Q (False, ds, s')"
    and got: "\<And>ds s'. mine R (lines_own ds + P) s0 s' \<Longrightarrow> \<forall>l \<in> set ds. line_wf l \<Longrightarrow>
      map text_of ds = map text_of ls \<Longrightarrow> Q (True, ds, s')"
  shows "returns (clone_lines ls [] s) Q"
proof (rule returns_mono[OF clone_lines_returns[OF _ m(2) _ m(3)]])
  fix r
  assume r: "case r of (ok, ds, s') \<Rightarrow> mine R (lines_own ds + P) s0 s' \<and> (\<forall>l \<in> set ds. line_wf l) \<and>
    (ok \<longrightarrow> map text_of ds = map text_of [] @ map text_of ls)"
  obtain ok ds s' where "r = (ok, ds, s')" by (cases r)
  with r fail got show "Q r" by (cases ok) simp_all
qed (use m in simp_all)

section \<open>Editing one line\<close>

lemma take_len: "length xs = n \<Longrightarrow> take n (xs @ ys) = xs"
  by simp

lemma grow_cap_bounds: "0 < c \<Longrightarrow> needed \<le> grow_cap c needed \<and> grow_cap c needed \<le> max c (2 * needed)"
proof (induction c needed rule: grow_cap.induct)
  case (1 c needed)
  then show ?case by (subst (1 2) grow_cap.simps) auto
qed

text \<open>The room \<open>line_reserve\<close> makes: the bytes up to the terminator are the same.\<close>

definition reserved :: "line \<Rightarrow> nat \<Rightarrow> line \<Rightarrow> bool" where
  "reserved l needed l' \<longleftrightarrow> l_data l' \<noteq> 0 \<and> length (l_buf l') = l_cap l' \<and> needed \<le> l_cap l' \<and> l_len l' = l_len l \<and>
     (l_data l \<noteq> 0 \<longrightarrow> take (l_len l + 1) (l_buf l') = take (l_len l + 1) (l_buf l))"

lemma line_reserve_returns:
  assumes m: "mine R (line_own l + P) s0 s" and l: "line_wf l \<or> l = no_line" and n: "0 < needed" "needed \<le> 2 ^ 24"
    and fail: "mine R (line_own l + P) s0 s \<Longrightarrow> Q (False, l, s)"
    and got: "\<And>l' s'. mine R (line_own l' + P) s0 s' \<Longrightarrow> reserved l needed l' \<Longrightarrow> Q (True, l', s')"
  shows "returns (line_reserve l needed s) Q"
proof (cases "l_cap l \<ge> needed")
  case True
  then have "line_wf l" using l n(1) by (auto simp: no_line_def)
  then have "reserved l needed l" using True by (simp add: reserved_def line_wf_def)
  then show ?thesis using got[OF m] True by (simp add: line_reserve_def)
next
  case False
  define c where "c = (if l_cap l \<noteq> 0 then l_cap l * 2 else 16)"
  have "l_cap l \<le> 2 ^ 22" using l line_small[OF m] by (auto simp: no_line_def)
  then have "0 < c" "c \<le> 2 ^ 23" by (simp_all add: c_def)
  then have cap: "needed \<le> grow_cap c needed" "grow_cap c needed < 2 ^ 32" using grow_cap_bounds[of c needed] n(2) by auto
  have run: "line_reserve l needed s = do {
      (p, buf, s) \<leftarrow> new_object (grow_cap c needed) s;
      if p = 0 then Some (False, l, s)
      else do {
        (buf, s) \<leftarrow> (if l_data l \<noteq> 0 then do {
                       bs \<leftarrow> get_bytes 0 (l_len l + 1) (l_buf l); buf \<leftarrow> put_bytes 0 bs buf; s \<leftarrow> kfree (l_data l) s; Some (buf, s) }
                     else Some (buf, s));
        Some (True, l\<lparr>l_data := p, l_buf := buf, l_cap := grow_cap c needed\<rparr>, s) }}"
    unfolding line_reserve_def Let_def c_def[symmetric] using False by (simp only: if_False)
  show ?thesis
    unfolding run returns_bind
  proof (rule new_object_returns[OF m cap(2)], goal_cases)
    case (1 b)
    show ?case using fail[OF m] by simp
  next
    case (2 p buf s')
    show ?case
    proof (cases "l_data l = 0")
      case True
      then have "l = no_line" using l by (auto simp: line_wf_def)
      then have "mine R (line_own (l\<lparr>l_data := p, l_buf := buf, l_cap := grow_cap c needed\<rparr>) + P) s0 s'"
        "reserved l needed (l\<lparr>l_data := p, l_buf := buf, l_cap := grow_cap c needed\<rparr>)"
        using 2 cap(1) by (simp_all add: line_own_def no_line_def reserved_def)
      then show ?thesis using got 2(1) True by simp
    next
      case nz: False
      then have wf: "line_wf l" using l by (auto simp: no_line_def)
      then have len: "l_len l + 1 \<le> length (l_buf l)" "l_len l + 1 \<le> length buf" using False cap(1) 2(3) by (simp_all add: line_wf_def)
      let ?b = "take (l_len l + 1) (l_buf l) @ drop (l_len l + 1) buf"
      have m': "mine R (add_mset (l_data l, l_cap l) (add_mset (p, grow_cap c needed) P)) s0 s'"
        using 2(2) by (simp add: line_own_wf[OF wf] add_mset_commute)
      have "returns (kfree (l_data l) s') (\<lambda>s'. Q (True, l\<lparr>l_data := p, l_buf := ?b, l_cap := grow_cap c needed\<rparr>, s'))"
      proof (rule kfree_returns[OF m'])
        fix s'' assume m'': "mine R (add_mset (p, grow_cap c needed) P) s0 s''"
        have "reserved l needed (l\<lparr>l_data := p, l_buf := ?b, l_cap := grow_cap c needed\<rparr>)"
          using 2(1,3) cap(1) len by (simp add: reserved_def)
        moreover have "mine R (line_own (l\<lparr>l_data := p, l_buf := ?b, l_cap := grow_cap c needed\<rparr>) + P) s0 s''"
          using m'' 2(1) by (simp add: line_own_def)
        ultimately show "Q (True, l\<lparr>l_data := p, l_buf := ?b, l_cap := grow_cap c needed\<rparr>, s'')" using got by blast
      qed
      then show ?thesis using nz 2(1) len by (simp add: returns_bind)
    qed
  qed
qed

lemma line_insert_char_returns:
  assumes m: "mine R (line_own l + P) s0 s" and l: "line_wf l" and pos: "pos \<le> l_len l"
    and fail: "mine R (line_own l + P) s0 s \<Longrightarrow> Q (False, l, s)"
    and got: "\<And>l' s'. mine R (line_own l' + P) s0 s' \<Longrightarrow> line_wf l' \<Longrightarrow>
      text_of l' = take pos (text_of l) @ c # drop pos (text_of l) \<Longrightarrow> Q (True, l', s')"
  shows "returns (line_insert_char l pos c s) Q"
proof -
  have small: "l_len l + 2 \<le> 2 ^ 24" using line_small[OF m l] l by (simp add: line_wf_def)
  have run: "line_insert_char l pos c s = do {
      (ok, l, s) \<leftarrow> line_reserve l (l_len l + 2) s;
      if \<not> ok then Some (False, l, s)
      else do {
        buf \<leftarrow> move_bytes (pos + 1) pos (l_len l - pos + 1) (l_buf l);
        buf \<leftarrow> put_bytes pos [c] buf;
        Some (True, l\<lparr>l_buf := buf, l_len := l_len l + 1\<rparr>, s) }}"
    using pos by (simp add: line_insert_char_def)
  show ?thesis
    unfolding run returns_bind
  proof (rule line_reserve_returns[OF m disjI1[OF l] _ small], goal_cases)
    case 2
    then show ?case using fail by simp
  next
    case (3 l' s')
    let ?n = "l_len l" and ?b = "l_buf l'"
    have r: "l_data l' \<noteq> 0" "length ?b = l_cap l'" "?n + 2 \<le> l_cap l'" "l_len l' = ?n"
      "take (?n + 1) ?b = take (?n + 1) (l_buf l)"
      using 3(2) l by (simp_all add: reserved_def line_wf_def)
    have bn: "?b ! ?n = 0" using arg_cong[OF r(5), of "\<lambda>xs. xs ! ?n"] l r(2,3) by (simp add: line_wf_def)
    have tx: "take k (text_of l) = take k ?b" if "k \<le> ?n" for k
      using arg_cong[OF r(5), of "take k"] that by (simp add: text_of_def min_def)
    have t: "text_of l = take ?n ?b" using arg_cong[OF r(5), of "take ?n"] by (simp add: text_of_def)
    let ?mid = "take (?n - pos + 1) (drop pos ?b)"
    define nb where "nb = take pos ?b @ c # ?mid @ drop (?n + 2) ?b"
    have mv: "move_bytes (pos + 1) pos (?n - pos + 1) ?b = Some (take (pos + 1) ?b @ ?mid @ drop (?n + 2) ?b)"
      using r pos by (simp add: move_bytes_def)
    have put: "put_bytes pos [c] (take (pos + 1) ?b @ ?mid @ drop (?n + 2) ?b) = Some nb"
      using r pos by (simp add: nb_def)
    define l2 where "l2 = l'\<lparr>l_buf := nb, l_len := ?n + 1\<rparr>"
    have mid: "?mid = drop pos (take ?n ?b) @ [0]"
    proof -
      have "?mid = take (?n - pos) (drop pos ?b) @ [drop pos ?b ! (?n - pos)]"
        using r pos by (simp add: take_Suc_conv_app_nth)
      also have "drop pos ?b ! (?n - pos) = 0" using bn r pos by simp
      finally show ?thesis by (simp add: drop_take)
    qed
    have nb: "nb = (take pos ?b @ c # drop pos (take ?n ?b)) @ 0 # drop (?n + 2) ?b" unfolding nb_def mid by simp
    have len: "length (take pos ?b @ c # drop pos (take ?n ?b)) = ?n + 1" using r pos by simp
    have "length nb = l_cap l'" using r pos unfolding nb by simp
    moreover have "nb ! (?n + 1) = 0" unfolding nb using len by (metis nth_append_length)
    ultimately have wf: "line_wf l2" using r by (simp add: l2_def line_wf_def)
    have "text_of l2 = take pos (text_of l) @ c # drop pos (text_of l)"
    proof -
      have "take (?n + 1) nb = take pos ?b @ c # drop pos (take ?n ?b)" unfolding nb by (rule take_len[OF len])
      then show ?thesis unfolding t using pos by (simp add: l2_def text_of_def min_def)
    qed
    moreover have "mine R (line_own l2 + P) s0 s'" using 3(1) r(1) by (simp add: l2_def line_own_def)
    ultimately have "Q (True, l2, s')" using got wf by blast
    then show ?case using r(4) mv put by (simp add: l2_def)
  qed simp
qed

lemma line_delete_char_spec:
  assumes l: "line_wf l" and pos: "pos < l_len l"
  obtains l' where "line_delete_char l pos = Some (True, l')" "line_wf l'" "line_own l' = line_own l"
    "text_of l' = take pos (text_of l) @ drop (Suc pos) (text_of l)" "l_cap l' = l_cap l" "l_len l' = l_len l - 1"
proof -
  let ?n = "l_len l" and ?b = "l_buf l"
  have r: "length ?b = l_cap l" "?n < l_cap l" "?b ! ?n = 0" "l_data l \<noteq> 0" using l by (simp_all add: line_wf_def)
  let ?mid = "take (?n - pos) (drop (pos + 1) ?b)"
  define nb where "nb = take pos ?b @ ?mid @ drop ?n ?b"
  have mv: "move_bytes pos (pos + 1) (?n - pos) ?b = Some nb" using r pos by (simp add: move_bytes_def nb_def)
  define l2 where "l2 = l\<lparr>l_buf := nb, l_len := ?n - 1\<rparr>"
  have mid: "?mid = drop (pos + 1) (take ?n ?b) @ [0]"
  proof -
    have "?mid = take (Suc (?n - pos - 1)) (drop (pos + 1) ?b)" using pos by (simp add: Suc_diff_Suc)
    also have "\<dots> = take (?n - pos - 1) (drop (pos + 1) ?b) @ [drop (pos + 1) ?b ! (?n - pos - 1)]"
      using r pos by (intro take_Suc_conv_app_nth) simp
    also have "drop (pos + 1) ?b ! (?n - pos - 1) = 0" using r pos by simp
    finally show ?thesis by (simp add: drop_take)
  qed
  have nb: "nb = (take pos ?b @ drop (pos + 1) (take ?n ?b)) @ 0 # drop ?n ?b" unfolding nb_def mid by simp
  have len: "length (take pos ?b @ drop (pos + 1) (take ?n ?b)) = ?n - 1" using r pos by simp
  have "length nb = l_cap l" using r pos unfolding nb by simp
  moreover have "nb ! (?n - 1) = 0" unfolding nb using len by (metis nth_append_length)
  ultimately have wf: "line_wf l2" using r by (simp add: l2_def line_wf_def)
  show thesis
  proof (rule that[of l2])
    show "line_delete_char l pos = Some (True, l2)" using mv pos by (simp add: line_delete_char_def l2_def)
    show "text_of l2 = take pos (text_of l) @ drop (Suc pos) (text_of l)"
    proof -
      have "take (?n - 1) nb = take pos ?b @ drop (pos + 1) (take ?n ?b)" unfolding nb by (rule take_len[OF len])
      then show ?thesis using pos by (simp add: l2_def text_of_def min_def)
    qed
  qed (use wf in \<open>simp_all add: l2_def line_own_def\<close>)
qed

lemma own_no_line [simp]: "line_own no_line = {#}"
  by (simp add: line_own_def no_line_def)

lemma line_split_returns:
  assumes m: "mine R (line_own l + P) s0 s" and l: "line_wf l" and pos: "pos \<le> l_len l"
    and fail: "\<And>n. mine R (line_own l + P) s0 s \<Longrightarrow> Q (False, l, n, s)"
    and got: "\<And>l' n s'. mine R (line_own l' + line_own n + P) s0 s' \<Longrightarrow> line_wf l' \<Longrightarrow> line_wf n \<Longrightarrow>
      text_of l' = take pos (text_of l) \<Longrightarrow> text_of n = drop pos (text_of l) \<Longrightarrow> Q (True, l', n, s')"
  shows "returns (line_split l pos s) Q"
proof -
  let ?k = "l_len l - pos"
  have "l_len l < 2 ^ 22" using line_small[OF m l] l by (simp add: line_wf_def)
  then have small: "?k + 1 \<le> 2 ^ 24" by simp
  have m': "mine R (line_own no_line + (line_own l + P)) s0 s" using m by (simp add: own_no_line)
  have run: "line_split l pos s = do {
      (ok, new_line, s) \<leftarrow> line_reserve no_line (?k + 1) s;
      if \<not> ok then Some (False, l, new_line, s)
      else do {
        bs \<leftarrow> get_bytes pos ?k (l_buf l); buf \<leftarrow> put_bytes 0 bs (l_buf new_line); buf \<leftarrow> put_bytes ?k [0] buf;
        old \<leftarrow> put_bytes pos [0] (l_buf l);
        Some (True, l\<lparr>l_buf := old, l_len := pos\<rparr>, new_line\<lparr>l_buf := buf, l_len := ?k\<rparr>, s) }}"
    using pos by (simp add: line_split_def Let_def)
  show ?thesis
    unfolding run returns_bind
  proof (rule line_reserve_returns[OF m' disjI2[OF refl] _ small], goal_cases)
    case 2
    then show ?case using fail[OF m] by simp
  next
    case (3 n' s')
    have r: "l_data n' \<noteq> 0" "length (l_buf n') = l_cap n'" "?k + 1 \<le> l_cap n'" using 3(2) by (simp_all add: reserved_def)
    have w: "length (l_buf l) = l_cap l" "l_len l < l_cap l" "l_data l \<noteq> 0" using l by (simp_all add: line_wf_def)
    let ?t = "take ?k (drop pos (l_buf l))"
    define n2 where "n2 = n'\<lparr>l_buf := ?t @ 0 # drop (?k + 1) (l_buf n'), l_len := ?k\<rparr>"
    define l2 where "l2 = l\<lparr>l_buf := take pos (l_buf l) @ 0 # drop (pos + 1) (l_buf l), l_len := pos\<rparr>"
    have lt: "length ?t = ?k" "length (take pos (l_buf l)) = pos" using w pos by simp_all
    have z: "(?t @ 0 # drop (?k + 1) (l_buf n')) ! ?k = 0" "(take pos (l_buf l) @ 0 # drop (pos + 1) (l_buf l)) ! pos = 0"
      using lt by (metis nth_append_length)+
    have wf: "line_wf n2" "line_wf l2"
      using r w pos lt z by (simp_all add: n2_def l2_def line_wf_def del: length_take)
    have "text_of n2 = ?t" "text_of l2 = take pos (l_buf l)"
      using lt by (simp_all add: n2_def l2_def text_of_def del: length_take)
    then have tx: "text_of n2 = drop pos (text_of l)" "text_of l2 = take pos (text_of l)"
      using pos by (simp_all add: text_of_def drop_take min_def)
    have "mine R (line_own l2 + line_own n2 + P) s0 s'"
      using 3(1) r(1) w(3) by (simp add: line_own_def l2_def n2_def add_mset_commute)
    then have "Q (True, l2, n2, s')" using got wf tx by blast
    moreover have "put_bytes ?k [0] (?t @ drop ?k (l_buf n')) = Some (?t @ 0 # drop (?k + 1) (l_buf n'))"
      using r lt by (simp del: length_take)
    ultimately show ?case using r w pos lt by (simp add: n2_def l2_def del: length_take)
  qed simp
qed

lemma line_join_returns:
  assumes m: "mine R (line_own d + P) s0 s" and d: "line_wf d" and src: "line_wf src" "l_cap src \<le> 2 ^ 22"
    and fail: "mine R (line_own d + P) s0 s \<Longrightarrow> Q (False, d, s)"
    and got: "\<And>d' s'. mine R (line_own d' + P) s0 s' \<Longrightarrow> line_wf d' \<Longrightarrow>
      text_of d' = text_of d @ text_of src \<Longrightarrow> Q (True, d', s')"
  shows "returns (line_join d src s) Q"
proof -
  let ?n = "l_len d" and ?k = "l_len src"
  have small: "?n + ?k + 1 \<le> 2 ^ 24" using line_small[OF m d] d src by (simp add: line_wf_def)
  show ?thesis
    unfolding line_join_def Let_def returns_bind
  proof (rule line_reserve_returns[OF m disjI1[OF d] _ small], goal_cases)
    case 2
    then show ?case using fail by simp
  next
    case (3 d' s')
    let ?b = "l_buf d'" and ?t = "take ?k (l_buf src)"
    have r: "l_data d' \<noteq> 0" "length ?b = l_cap d'" "?n + ?k + 1 \<le> l_cap d'" "l_len d' = ?n" "take (?n + 1) ?b = take (?n + 1) (l_buf d)"
      using 3(2) d by (simp_all add: reserved_def line_wf_def)
    have w: "length (l_buf src) = l_cap src" "?k < l_cap src" using src by (simp_all add: line_wf_def)
    have t: "text_of d = take ?n ?b" using arg_cong[OF r(5), of "take ?n"] by (simp add: text_of_def)
    have len: "length (take ?n ?b @ ?t) = ?n + ?k" "length ?t = ?k" using r w by simp_all
    define nb where "nb = (take ?n ?b @ ?t) @ 0 # drop (?n + ?k + 1) ?b"
    have put: "put_bytes ?n ?t ?b = Some (take ?n ?b @ ?t @ drop (?n + ?k) ?b)" using r len by (simp del: length_take)
    have "take (?n + ?k) (take ?n ?b @ ?t @ drop (?n + ?k) ?b) = take ?n ?b @ ?t"
      using take_len[OF len(1), of "drop (?n + ?k) ?b"] by simp
    moreover have "drop (?n + ?k + 1) (take ?n ?b @ ?t @ drop (?n + ?k) ?b) = drop (?n + ?k + 1) ?b"
      using r w by simp
    ultimately have put2: "put_bytes (?n + ?k) [0] (take ?n ?b @ ?t @ drop (?n + ?k) ?b) = Some nb"
      using r w by (simp add: nb_def)
    define d2 where "d2 = d'\<lparr>l_buf := nb, l_len := ?n + ?k\<rparr>"
    have "length nb = l_cap d'" using r w by (simp add: nb_def)
    moreover have "nb ! (?n + ?k) = 0" unfolding nb_def using len(1) by (metis nth_append_length)
    ultimately have wf: "line_wf d2" using r by (simp add: d2_def line_wf_def)
    have "text_of d2 = text_of d @ text_of src"
    proof -
      have "take (?n + ?k) nb = take ?n ?b @ ?t" unfolding nb_def by (rule take_len[OF len(1)])
      then show ?thesis unfolding t by (simp add: d2_def text_of_def)
    qed
    moreover have "mine R (line_own d2 + P) s0 s'" using 3(1) r(1) by (simp add: d2_def line_own_def)
    ultimately have "Q (True, d2, s')" using got wf by blast
    then show ?case using r(4) w put put2 by (simp add: d2_def)
  qed simp
qed

end
