(* ===== verification/Editor_Spec.thy ===== *)
theory Editor_Spec
  imports Editor_Lines
begin

text \<open>
  The editor as operations on a document, the texts of its lines with a cursor, and on the documents
  its undo and redo stacks hold. Every operation returns, keeps the structure well-formed and owns
  exactly the objects it should afterwards; what it does to the document is either the whole edit or,
  where memory may run out, nothing.
\<close>

section \<open>Documents\<close>

type_synonym doc = "u8 list list \<times> nat \<times> nat" \<comment> \<open>the lines, the line and the column of the cursor\<close>

definition doc_of :: "editor \<Rightarrow> doc" where
  "doc_of ed = (map text_of (lines ed), cursor_y ed, cursor_x ed)"

definition saved :: "editor_state \<Rightarrow> doc" where
  "saved st = (map text_of (st_lines st), st_cursor_y st, st_cursor_x st)"

fun doc_insert :: "u8 \<Rightarrow> doc \<Rightarrow> doc" where
  "doc_insert c (ls, y, x) = (ls[y := take x (ls ! y) @ c # drop x (ls ! y)], y, x + 1)"

fun doc_newline :: "doc \<Rightarrow> doc" where
  "doc_newline (ls, y, x) = (take y ls @ [take x (ls ! y), drop x (ls ! y)] @ drop (y + 1) ls, y + 1, 0)"

text \<open>Joins the line at \<open>y\<close> with the one behind it.\<close>

definition join_at :: "nat \<Rightarrow> u8 list list \<Rightarrow> u8 list list" where
  "join_at y ls = take y ls @ [ls ! y @ ls ! (y + 1)] @ drop (y + 2) ls"

fun doc_backspace :: "doc \<Rightarrow> doc" where
  "doc_backspace (ls, y, x) =
     (if x > 0 then (ls[y := take (x - 1) (ls ! y) @ drop x (ls ! y)], y, x - 1)
      else if y > 0 then (join_at (y - 1) ls, y - 1, length (ls ! (y - 1)))
      else (ls, y, x))"

fun doc_delete :: "doc \<Rightarrow> doc" where
  "doc_delete (ls, y, x) =
     (if x < length (ls ! y) then (ls[y := take x (ls ! y) @ drop (x + 1) (ls ! y)], y, x)
      else if y + 1 < length ls then (join_at y ls, y, x)
      else (ls, y, x))"

text \<open>A stack of at most 100 entries that drops its oldest one.\<close>

definition pushed :: "'x list \<Rightarrow> 'x \<Rightarrow> 'x list" where
  "pushed xs x = (if length xs \<ge> MAX_UNDO_LEVELS then tl xs else xs) @ [x]"

lemma map_pushed: "map f (pushed xs x) = pushed (map f xs) (f x)"
  by (simp add: pushed_def map_tl)

lemma length_pushed: "length xs \<le> MAX_UNDO_LEVELS \<Longrightarrow> length (pushed xs x) \<le> MAX_UNDO_LEVELS"
  by (simp add: pushed_def MAX_UNDO_LEVELS_def)

lemma pushed_simps [simp]: "pushed xs x \<noteq> []" "last (pushed xs x) = x"
  by (simp_all add: pushed_def)

lemma set_pushed: "set (pushed xs x) \<subseteq> insert x (set xs)"
  by (cases xs) (auto simp: pushed_def)

section \<open>Well-formedness and ownership\<close>

definition state_wf :: "editor_state \<Rightarrow> bool" where
  "state_wf st \<longleftrightarrow> st_lines_ptr st \<noteq> 0 \<and> (\<forall>l \<in> set (st_lines st). line_wf l) \<and> st_cursor_y st < length (st_lines st) \<and>
     st_cursor_x st \<le> l_len (st_lines st ! st_cursor_y st)"

definition text_wf :: "editor \<Rightarrow> bool" where
  "text_wf ed \<longleftrightarrow> (\<forall>l \<in> set (lines ed). line_wf l) \<and> cursor_y ed < num_lines ed \<and> cursor_x ed \<le> l_len (lines ed ! cursor_y ed)"

definition stacks_wf :: "editor \<Rightarrow> bool" where
  "stacks_wf ed \<longleftrightarrow> undo_ptr ed \<noteq> 0 \<and> redo_ptr ed \<noteq> 0 \<and> (\<forall>st \<in> set (undo_stack ed) \<union> set (redo_stack ed). state_wf st) \<and>
     length (undo_stack ed) \<le> MAX_UNDO_LEVELS \<and> length (redo_stack ed) \<le> MAX_UNDO_LEVELS"

definition ed_wf :: "editor \<Rightarrow> bool" where
  "ed_wf ed \<longleftrightarrow> text_wf ed \<and> stacks_wf ed"

definition state_own :: "editor_state \<Rightarrow> owned" where
  "state_own st = add_mset (st_lines_ptr st, length (st_lines st) * sizeof_line) (lines_own (st_lines st))"

definition states_own :: "editor_state list \<Rightarrow> owned" where
  "states_own sts = sum_list (map state_own sts)"

lemma states_own_simps [simp]:
  "states_own [] = {#}" "states_own (st # sts) = state_own st + states_own sts" "states_own (us @ vs) = states_own us + states_own vs"
  by (simp_all add: states_own_def)

definition text_own :: "editor \<Rightarrow> owned" where
  "text_own ed = add_mset (lines_ptr ed, num_lines ed * sizeof_line) (lines_own (lines ed))"

definition rest_own :: "editor \<Rightarrow> owned" where
  "rest_own ed = {#(undo_ptr ed, MAX_UNDO_LEVELS * sizeof_editor_state), (redo_ptr ed, MAX_UNDO_LEVELS * sizeof_editor_state)#} +
     (if filename_ptr ed = 0 then {#} else {#(filename_ptr ed, length (filename ed) + 1)#})"

definition ed_own :: "editor \<Rightarrow> owned" where
  "ed_own ed = text_own ed + states_own (undo_stack ed) + states_own (redo_stack ed) + rest_own ed"

lemma rest_own_upd [simp]:
  "rest_own (ed\<lparr>lines_ptr := p\<rparr>) = rest_own ed" "rest_own (ed\<lparr>lines := ls\<rparr>) = rest_own ed"
  "rest_own (ed\<lparr>cursor_x := x\<rparr>) = rest_own ed" "rest_own (ed\<lparr>cursor_y := x\<rparr>) = rest_own ed"
  "rest_own (ed\<lparr>scroll_x := x\<rparr>) = rest_own ed" "rest_own (ed\<lparr>scroll_y := x\<rparr>) = rest_own ed"
  "rest_own (ed\<lparr>modified := b\<rparr>) = rest_own ed"
  "rest_own (ed\<lparr>undo_stack := u\<rparr>) = rest_own ed" "rest_own (ed\<lparr>redo_stack := u\<rparr>) = rest_own ed"
  by (simp_all add: rest_own_def)

lemma text_own_upd [simp]:
  "text_own (ed\<lparr>cursor_x := x\<rparr>) = text_own ed" "text_own (ed\<lparr>cursor_y := x\<rparr>) = text_own ed"
  "text_own (ed\<lparr>scroll_x := x\<rparr>) = text_own ed" "text_own (ed\<lparr>scroll_y := x\<rparr>) = text_own ed"
  "text_own (ed\<lparr>modified := b\<rparr>) = text_own ed"
  "text_own (ed\<lparr>undo_stack := u\<rparr>) = text_own ed" "text_own (ed\<lparr>redo_stack := u\<rparr>) = text_own ed"
  by (simp_all add: text_own_def)

text \<open>The texts and the array are small, as the heap is.\<close>

lemma text_small:
  assumes "mine R P s0 s" "text_own ed \<subseteq># P" "\<forall>l \<in> set (lines ed). line_wf l"
  shows "num_lines ed * sizeof_line \<le> 2 ^ 22" "\<forall>l \<in> set (lines ed). l_cap l \<le> 2 ^ 22"
proof -
  have sub: "x \<in># P" if "x \<in># text_own ed" for x using mset_subset_eqD[OF assms(2)] that by blast
  show "num_lines ed * sizeof_line \<le> 2 ^ 22" by (rule owned_small[OF assms(1) sub, of "lines_ptr ed"]) (simp add: text_own_def)
  show "\<forall>l \<in> set (lines ed). l_cap l \<le> 2 ^ 22"
  proof
    fix l assume l: "l \<in> set (lines ed)"
    then obtain us vs where "lines ed = us @ l # vs" by (meson split_list)
    then have "(l_data l, l_cap l) \<in># text_own ed" using assms(3) l by (simp add: text_own_def line_own_wf)
    then show "l_cap l \<le> 2 ^ 22" by (rule owned_small[OF assms(1) sub])
  qed
qed

section \<open>Saved states\<close>

lemma clone_returns:
  assumes m: "mine R P s0 s" and own: "text_own ed \<subseteq># P" and wf: "text_wf ed"
    and fail: "\<And>s'. mine R P s0 s' \<Longrightarrow> Q (no_state, s')"
    and got: "\<And>st s'. state_wf st \<Longrightarrow> saved st = doc_of ed \<Longrightarrow> mine R (state_own st + P) s0 s' \<Longrightarrow> Q (st, s')"
  shows "returns (editor_state_clone ed s) Q"
proof -
  have l: "\<forall>l \<in> set (lines ed). line_wf l" using wf by (simp add: text_wf_def)
  note small = text_small[OF m own l]
  have n: "unat (of_nat (num_lines ed * sizeof_line) :: u32) = num_lines ed * sizeof_line"
    by (rule unat_of_nat_small) (use small(1) in simp)
  show ?thesis
    unfolding editor_state_clone_def returns_bind
  proof (rule kmalloc_returns[OF m], goal_cases)
    case 1
    show ?case using fail[OF m] by simp
  next
    case (2 p s')
    let ?P = "add_mset (p, num_lines ed * sizeof_line) P"
    have m': "mine R ?P s0 s'" using 2(2) n by simp
    show ?case
      unfolding prod.case if_not_P[OF 2(1)] returns_bind
    proof (rule clone_lines_rule[OF m' l small(2)], goal_cases)
      case (1 ds s'')
      show ?case
        unfolding prod.case not_False_eq_True if_True returns_bind
        by (rule free_lines_returns[OF 1]) (rule kfree_returns, assumption, simp add: fail)
    next
      case (2 ds s'')
      let ?st = "\<lparr>st_lines_ptr = p, st_lines = ds, st_cursor_x = cursor_x ed, st_cursor_y = cursor_y ed,
          st_scroll_x = scroll_x ed, st_scroll_y = scroll_y ed\<rparr>"
      have len: "length ds = num_lines ed" using 2(3) by (metis length_map)
      have y: "cursor_y ed < num_lines ed" using wf by (simp add: text_wf_def)
      have "text_of (ds ! cursor_y ed) = text_of (lines ed ! cursor_y ed)"
        using arg_cong[OF 2(3), of "\<lambda>xs. xs ! cursor_y ed"] y len by simp
      then have "l_len (ds ! cursor_y ed) = l_len (lines ed ! cursor_y ed)"
        using length_text[of "ds ! cursor_y ed"] length_text[of "lines ed ! cursor_y ed"] 2(2) l y len by (simp add: nth_mem)
      then have "state_wf ?st" using \<open>p \<noteq> 0\<close> 2(2) len wf by (simp add: state_wf_def text_wf_def)
      moreover have "saved ?st = doc_of ed" using 2(3) by (simp add: saved_def doc_of_def)
      moreover have "mine R (state_own ?st + P) s0 s''" using 2(1) len by (simp add: state_own_def)
      ultimately show ?case using got by simp
    qed
  qed
qed

lemma state_free_returns:
  assumes m: "mine R (state_own st + P) s0 s" and wf: "state_wf st"
    and freed: "\<And>s'. mine R P s0 s' \<Longrightarrow> Q (st\<lparr>st_lines_ptr := 0, st_lines := []\<rparr>, s')"
  shows "returns (editor_state_free st s) Q"
proof -
  have m': "mine R (lines_own (st_lines st) + add_mset (st_lines_ptr st, length (st_lines st) * sizeof_line) P) s0 s"
    using m by (simp add: state_own_def)
  have "returns (free_lines (st_lines st) s) (\<lambda>s. returns (kfree (st_lines_ptr st) s) (\<lambda>s. Q (st\<lparr>st_lines_ptr := 0, st_lines := []\<rparr>, s)))"
    by (rule free_lines_returns[OF m']) (use wf in \<open>simp add: state_wf_def\<close>, rule kfree_returns, assumption, rule freed)
  then show ?thesis using wf by (simp add: editor_state_free_def returns_bind state_wf_def)
qed

lemma push_returns:
  assumes m: "mine R (states_own stack + (state_own st + P)) s0 s" and ptr: "ptr \<noteq> 0"
    and wf: "\<forall>st \<in> set stack. state_wf st"
    and pushed: "\<And>s'. mine R (states_own (pushed stack st) + P) s0 s' \<Longrightarrow> Q (pushed stack st, s')"
  shows "returns (undo_stack_push ptr stack st s) Q"
proof (cases "length stack \<ge> MAX_UNDO_LEVELS")
  case True
  then obtain x xs where x: "stack = x # xs" by (cases stack) (auto simp: MAX_UNDO_LEVELS_def)
  have m': "mine R (state_own x + (states_own xs + (state_own st + P))) s0 s" using m by (simp add: x add.assoc)
  have "returns (editor_state_free x s) (\<lambda>(_, s). Q (pushed stack st, s))"
  proof (rule state_free_returns[OF m'])
    fix s' assume "mine R (states_own xs + (state_own st + P)) s0 s'"
    then have "mine R (states_own (pushed stack st) + P) s0 s'" using True by (simp add: pushed_def x add.assoc)
    then show "case (x\<lparr>st_lines_ptr := 0, st_lines := []\<rparr>, s') of (_, s) \<Rightarrow> Q (pushed stack st, s)" using pushed by simp
  qed (use wf x in simp)
  then show ?thesis using True ptr by (simp add: undo_stack_push_def returns_bind case_prod_unfold pushed_def x)
next
  case False
  then have "mine R (states_own (pushed stack st) + P) s0 s" using m by (simp add: pushed_def add.assoc)
  then have "Q (pushed stack st, s)" by (rule pushed)
  then show ?thesis using False ptr by (simp add: undo_stack_push_def pushed_def)
qed

lemma clear_returns:
  assumes "mine R (states_own stack + P) s0 s" "\<forall>st \<in> set stack. state_wf st"
    and "\<And>s'. mine R P s0 s' \<Longrightarrow> Q ([], s')"
  shows "returns (undo_stack_clear stack s) Q"
  using assms
proof (induction stack arbitrary: s)
  case (Cons st sts)
  have m: "mine R (state_own st + (states_own sts + P)) s0 s" using Cons.prems(1) by (simp add: add.assoc)
  show ?case
    unfolding undo_stack_clear.simps returns_bind
    by (rule state_free_returns[OF m]) (use Cons in simp_all)
qed simp

section \<open>The editor's stacks\<close>

lemma own_undo: "ed_own ed = states_own (undo_stack ed) + (text_own ed + states_own (redo_stack ed) + rest_own ed)"
  by (simp add: ed_own_def ac_simps)

lemma own_redo: "ed_own ed = states_own (redo_stack ed) + (text_own ed + states_own (undo_stack ed) + rest_own ed)"
  by (simp add: ed_own_def ac_simps)

lemma own_text: "ed_own ed = text_own ed + (states_own (undo_stack ed) + states_own (redo_stack ed) + rest_own ed)"
  by (simp add: ed_own_def ac_simps)

lemma text_sub: "text_own ed \<subseteq># ed_own ed + P"
  by (simp add: ed_own_def add.assoc)

lemma wf_upd [simp]:
  "text_wf (ed\<lparr>undo_stack := u\<rparr>) = text_wf ed" "text_wf (ed\<lparr>redo_stack := u\<rparr>) = text_wf ed"
  "text_wf (ed\<lparr>modified := b\<rparr>) = text_wf ed"
  "stacks_wf (ed\<lparr>lines := ls\<rparr>) = stacks_wf ed" "stacks_wf (ed\<lparr>lines_ptr := p\<rparr>) = stacks_wf ed"
  "stacks_wf (ed\<lparr>cursor_x := x\<rparr>) = stacks_wf ed" "stacks_wf (ed\<lparr>cursor_y := x\<rparr>) = stacks_wf ed"
  "stacks_wf (ed\<lparr>scroll_x := x\<rparr>) = stacks_wf ed" "stacks_wf (ed\<lparr>scroll_y := x\<rparr>) = stacks_wf ed"
  "stacks_wf (ed\<lparr>modified := b\<rparr>) = stacks_wf ed"
  by (simp_all add: text_wf_def stacks_wf_def)

lemma stacks_wf_push:
  assumes wf: "stacks_wf ed" and st: "state_wf st"
  shows "stacks_wf (ed\<lparr>undo_stack := pushed (undo_stack ed) st\<rparr>)" "stacks_wf (ed\<lparr>redo_stack := pushed (redo_stack ed) st\<rparr>)"
proof -
  have u: "x \<in> set (pushed (undo_stack ed) st) \<Longrightarrow> state_wf x" and r: "x \<in> set (pushed (redo_stack ed) st) \<Longrightarrow> state_wf x" for x
    using set_pushed[of "undo_stack ed" st] set_pushed[of "redo_stack ed" st] wf st by (auto simp: stacks_wf_def)
  then show "stacks_wf (ed\<lparr>undo_stack := pushed (undo_stack ed) st\<rparr>)" "stacks_wf (ed\<lparr>redo_stack := pushed (redo_stack ed) st\<rparr>)"
    using wf length_pushed[of "undo_stack ed" st] length_pushed[of "redo_stack ed" st] by (auto simp: stacks_wf_def)
qed

lemma stacks_wf_shorter:
  assumes "stacks_wf ed" "set u \<subseteq> set (undo_stack ed)" "length u \<le> length (undo_stack ed)"
    "set r \<subseteq> set (redo_stack ed)" "length r \<le> length (redo_stack ed)"
  shows "stacks_wf (ed\<lparr>undo_stack := u, redo_stack := r\<rparr>)"
  using assms by (auto simp: stacks_wf_def)

lemma push_undo_returns:
  assumes m: "mine R (ed_own ed + P) s0 s" and wf: "ed_wf ed"
    and fail: "\<And>s'. mine R (ed_own ed + P) s0 s' \<Longrightarrow> Q (False, ed, s')"
    and got: "\<And>st s'. state_wf st \<Longrightarrow> saved st = doc_of ed \<Longrightarrow>
      mine R (ed_own (ed\<lparr>undo_stack := pushed (undo_stack ed) st\<rparr>) + P) s0 s' \<Longrightarrow>
      Q (True, ed\<lparr>undo_stack := pushed (undo_stack ed) st\<rparr>, s')"
  shows "returns (editor_push_undo ed s) Q"
  unfolding editor_push_undo_def returns_bind
proof (rule clone_returns[OF m text_sub], goal_cases)
  case 1
  show ?case using wf by (simp add: ed_wf_def)
next
  case (2 s')
  then show ?case using fail by (simp add: no_state_def)
next
  case (3 st s')
  have nz: "st_lines_ptr st \<noteq> 0" using 3(1) by (simp add: state_wf_def)
  have m': "mine R (states_own (undo_stack ed) + (state_own st + (text_own ed + states_own (redo_stack ed) + rest_own ed + P))) s0 s'"
    using 3(3) by (simp add: own_undo ac_simps)
  show ?case
    unfolding prod.case if_not_P[OF nz] returns_bind
  proof (rule push_returns[OF m'], goal_cases)
    case (3 s'')
    have "mine R (ed_own (ed\<lparr>undo_stack := pushed (undo_stack ed) st\<rparr>) + P) s0 s''"
      using 3 by (simp add: own_undo ac_simps)
    then show ?case using got[OF \<open>state_wf st\<close> \<open>saved st = doc_of ed\<close>] by simp
  qed (use wf in \<open>simp_all add: ed_wf_def stacks_wf_def\<close>)
qed

lemma discard_returns:
  assumes m: "mine R (ed_own ed + P) s0 s" and wf: "stacks_wf ed"
    and got: "\<And>s'. mine R (ed_own (ed\<lparr>undo_stack := butlast (undo_stack ed)\<rparr>) + P) s0 s' \<Longrightarrow>
      Q (ed\<lparr>undo_stack := butlast (undo_stack ed)\<rparr>, s')"
  shows "returns (editor_discard_last_undo ed s) Q"
proof (cases "undo_stack ed = []")
  case True
  then have eq: "ed\<lparr>undo_stack := butlast (undo_stack ed)\<rparr> = ed" by simp
  have "Q (ed, s)" using got[of s] m unfolding eq .
  then show ?thesis using True by (simp add: editor_discard_last_undo_def)
next
  case False
  let ?u = "butlast (undo_stack ed)" and ?st = "last (undo_stack ed)"
  have "states_own (undo_stack ed) = states_own ?u + state_own ?st"
    using arg_cong[OF append_butlast_last_id[OF False], of states_own] by simp
  then have m': "mine R (state_own ?st + (ed_own (ed\<lparr>undo_stack := ?u\<rparr>) + P)) s0 s"
    using m by (simp add: own_undo ac_simps)
  have "returns (editor_state_free ?st s) (\<lambda>(_, s). Q (ed\<lparr>undo_stack := ?u\<rparr>, s))"
    by (rule state_free_returns[OF m']) (use wf False got in \<open>simp_all add: stacks_wf_def\<close>)
  then show ?thesis using False by (simp add: editor_discard_last_undo_def undo_stack_pop_def returns_bind case_prod_unfold)
qed

lemma clear_redo_returns:
  assumes m: "mine R (ed_own ed) s0 s" and wf: "stacks_wf ed"
    and got: "\<And>s'. mine R (ed_own (ed\<lparr>redo_stack := []\<rparr>)) s0 s' \<Longrightarrow> Q (ed\<lparr>redo_stack := []\<rparr>, s')"
  shows "returns (editor_clear_redo ed s) Q"
proof -
  have m': "mine R (states_own (redo_stack ed) + ed_own (ed\<lparr>redo_stack := []\<rparr>)) s0 s"
    using m by (simp add: own_redo)
  show ?thesis
    unfolding editor_clear_redo_def returns_bind
    by (rule clear_returns[OF m']) (use wf got in \<open>simp_all add: stacks_wf_def\<close>)
qed

section \<open>What an edit comes to\<close>

text \<open>The cursor is in the part of the text that is shown.\<close>

definition visible :: "editor \<Rightarrow> bool" where
  "visible ed \<longleftrightarrow> scroll_x ed \<le> cursor_x ed \<and> cursor_x ed < scroll_x ed + 80 \<and>
     scroll_y ed \<le> cursor_y ed \<and> cursor_y ed < scroll_y ed + TEXT_HEIGHT"

lemma scroll_visible: "visible (editor_scroll_to_cursor ed)"
  by (auto simp: visible_def editor_scroll_to_cursor_def TEXT_HEIGHT_def Let_def)

lemma scroll_keeps [simp]:
  "lines (editor_scroll_to_cursor ed) = lines ed" "lines_ptr (editor_scroll_to_cursor ed) = lines_ptr ed"
  "cursor_x (editor_scroll_to_cursor ed) = cursor_x ed" "cursor_y (editor_scroll_to_cursor ed) = cursor_y ed"
  "modified (editor_scroll_to_cursor ed) = modified ed" "filename_ptr (editor_scroll_to_cursor ed) = filename_ptr ed"
  "filename (editor_scroll_to_cursor ed) = filename ed" "file_ends_with_newline (editor_scroll_to_cursor ed) = file_ends_with_newline ed"
  "undo_ptr (editor_scroll_to_cursor ed) = undo_ptr ed" "undo_stack (editor_scroll_to_cursor ed) = undo_stack ed"
  "redo_ptr (editor_scroll_to_cursor ed) = redo_ptr ed" "redo_stack (editor_scroll_to_cursor ed) = redo_stack ed"
  by (simp_all add: editor_scroll_to_cursor_def Let_def)

lemma scroll_wf [simp]:
  "text_wf (editor_scroll_to_cursor ed) = text_wf ed" "stacks_wf (editor_scroll_to_cursor ed) = stacks_wf ed"
  "ed_own (editor_scroll_to_cursor ed) = ed_own ed" "doc_of (editor_scroll_to_cursor ed) = doc_of ed"
  by (simp_all add: text_wf_def stacks_wf_def ed_own_def text_own_def rest_own_def doc_of_def)

definition same_file :: "editor \<Rightarrow> editor \<Rightarrow> bool" where
  "same_file ed ed' \<longleftrightarrow> filename_ptr ed' = filename_ptr ed \<and> filename ed' = filename ed \<and>
     file_ends_with_newline ed' = file_ends_with_newline ed"

text \<open>
  An edit \<open>f\<close>: the document changes by \<open>f\<close>, nothing can be redone any more, and the old document is on
  the undo stack, if it could be copied. Or, with \<open>may_fail\<close>, the document stays, while the undo stack may
  have lost its oldest entry.
\<close>

definition edited :: "bool \<Rightarrow> (doc \<Rightarrow> doc) \<Rightarrow> editor \<Rightarrow> editor \<Rightarrow> bool" where
  "edited may_fail f ed ed' \<longleftrightarrow> same_file ed ed' \<and>
     (doc_of ed' = f (doc_of ed) \<and> modified ed' \<and> visible ed' \<and> redo_stack ed' = [] \<and>
        map saved (undo_stack ed') \<in> {map saved (undo_stack ed), pushed (map saved (undo_stack ed)) (doc_of ed)} \<or>
      may_fail \<and> doc_of ed' = doc_of ed \<and> modified ed' = modified ed \<and> redo_stack ed' = redo_stack ed \<and>
        map saved (undo_stack ed') \<in> {map saved (undo_stack ed), butlast (pushed (map saved (undo_stack ed)) (doc_of ed))})"

text \<open>After \<open>editor_push_undo\<close>.\<close>

definition noted :: "bool \<Rightarrow> editor \<Rightarrow> editor \<Rightarrow> bool" where
  "noted b ed ed1 \<longleftrightarrow> (\<exists>u. ed1 = ed\<lparr>undo_stack := u\<rparr> \<and>
     (if b then map saved u = pushed (map saved (undo_stack ed)) (doc_of ed) else u = undo_stack ed))"

lemma push_undo_rule:
  assumes m: "mine R (ed_own ed) s0 s" and wf: "ed_wf ed"
    and got: "\<And>b ed1 s'. noted b ed ed1 \<Longrightarrow> text_wf ed1 \<Longrightarrow> stacks_wf ed1 \<Longrightarrow> mine R (ed_own ed1) s0 s' \<Longrightarrow> Q (b, ed1, s')"
  shows "returns (editor_push_undo ed s) Q"
proof (rule push_undo_returns[of R ed "{#}" s0 s Q, OF _ wf], goal_cases)
  case 1
  show ?case using m by simp
next
  case (2 s')
  have "noted False ed ed" by (auto simp: noted_def intro: exI[of _ "undo_stack ed"])
  then show ?case using got 2 wf by (simp add: ed_wf_def)
next
  case (3 st s')
  have "noted True ed (ed\<lparr>undo_stack := pushed (undo_stack ed) st\<rparr>)"
    using 3(2) by (auto simp: noted_def map_pushed intro: exI[of _ "pushed (undo_stack ed) st"])
  then show ?case using got 3 wf stacks_wf_push(1)[OF _ 3(1)] by (simp add: ed_wf_def)
qed

lemma noted_fields:
  assumes "noted b ed ed1"
  shows "doc_of ed1 = doc_of ed" "lines ed1 = lines ed" "cursor_x ed1 = cursor_x ed" "cursor_y ed1 = cursor_y ed"
    "redo_stack ed1 = redo_stack ed" "modified ed1 = modified ed" "same_file ed ed1" "text_own ed1 = text_own ed" "rest_own ed1 = rest_own ed"
    "lines_ptr ed1 = lines_ptr ed"
  using assms by (auto simp: noted_def doc_of_def same_file_def)

lemma noted_undo:
  "noted b ed ed1 \<Longrightarrow> map saved (undo_stack ed1) \<in> {map saved (undo_stack ed), pushed (map saved (undo_stack ed)) (doc_of ed)}"
  "noted True ed ed1 \<Longrightarrow> map saved (undo_stack ed1) = pushed (map saved (undo_stack ed)) (doc_of ed)"
  "noted False ed ed1 \<Longrightarrow> undo_stack ed1 = undo_stack ed"
  by (auto simp: noted_def split: if_splits)

lemma same_file_trans: "same_file ed ed1 \<Longrightarrow> same_file ed1 ed2 \<Longrightarrow> same_file ed ed2"
  by (simp add: same_file_def)

lemma same_file_upd [simp]:
  "same_file ed (ed2\<lparr>undo_stack := u\<rparr>) = same_file ed ed2" "same_file ed (ed2\<lparr>redo_stack := u\<rparr>) = same_file ed ed2"
  "same_file ed (ed2\<lparr>modified := b\<rparr>) = same_file ed ed2" "same_file ed (ed2\<lparr>lines := ls\<rparr>) = same_file ed ed2"
  "same_file ed (ed2\<lparr>lines_ptr := p\<rparr>) = same_file ed ed2"
  "same_file ed (ed2\<lparr>cursor_x := x\<rparr>) = same_file ed ed2" "same_file ed (ed2\<lparr>cursor_y := x\<rparr>) = same_file ed ed2"
  "same_file ed (editor_scroll_to_cursor ed2) = same_file ed ed2" "same_file ed ed"
  by (simp_all add: same_file_def)

lemma doc_upd [simp]:
  "doc_of (ed\<lparr>undo_stack := u\<rparr>) = doc_of ed" "doc_of (ed\<lparr>redo_stack := u\<rparr>) = doc_of ed" "doc_of (ed\<lparr>modified := b\<rparr>) = doc_of ed"
  by (simp_all add: doc_of_def)

text \<open>The two ends of an edit. \<open>ed1\<close> is the editor behind \<open>editor_push_undo\<close>, \<open>ed2\<close> what the edit made of it.\<close>

lemma edit_done_rule:
  assumes m: "mine R (ed_own ed2) s0 s" and n: "noted b ed ed1"
    and wf: "text_wf ed2" "stacks_wf ed2" and doc: "doc_of ed2 = f (doc_of ed)" and same: "same_file ed1 ed2" "undo_stack ed2 = undo_stack ed1"
    and got: "\<And>ed' s'. edited may_fail f ed ed' \<Longrightarrow> ed_wf ed' \<Longrightarrow> mine R (ed_own ed') s0 s' \<Longrightarrow> Q (ed', s')"
  shows "returns (edit_done ed2 s) Q"
  unfolding edit_done_def returns_bind
proof (rule clear_redo_returns[of R _ s0], goal_cases)
  case (3 s')
  let ?ed = "editor_scroll_to_cursor (ed2\<lparr>modified := True, redo_stack := []\<rparr>)"
  have "edited may_fail f ed ?ed"
    using noted_undo(1)[OF n] doc same same_file_trans[OF noted_fields(7)[OF n] same(1)]
      scroll_visible[of "ed2\<lparr>modified := True, redo_stack := []\<rparr>"]
    by (simp add: edited_def)
  moreover have "stacks_wf (ed2\<lparr>modified := True, redo_stack := []\<rparr>)" using wf(2) by (auto simp: stacks_wf_def)
  then have "ed_wf ?ed" using wf by (simp add: ed_wf_def)
  ultimately show ?case using got 3 by simp
qed (use m wf in \<open>simp_all add: ed_own_def\<close>)

lemma edit_undone_rule:
  assumes m: "mine R (ed_own ed2) s0 s" and n: "noted b ed ed1"
    and wf: "text_wf ed2" "stacks_wf ed2" and doc: "doc_of ed2 = doc_of ed" and same: "same_file ed1 ed2" "undo_stack ed2 = undo_stack ed1"
      "redo_stack ed2 = redo_stack ed" "modified ed2 = modified ed"
    and got: "\<And>ed' s'. edited True f ed ed' \<Longrightarrow> ed_wf ed' \<Longrightarrow> mine R (ed_own ed') s0 s' \<Longrightarrow> Q (ed', s')"
  shows "returns (edit_undone b ed2 s) Q"
proof (cases b)
  case True
  show ?thesis
    unfolding edit_undone_def if_P[OF True]
  proof (rule discard_returns[of R _ "{#}" s0], goal_cases)
    case (3 s')
    have "edited True f ed (ed2\<lparr>undo_stack := butlast (undo_stack ed2)\<rparr>)"
      using noted_undo(2)[of ed ed1] n True doc same same_file_trans[OF noted_fields(7)[OF n] same(1)]
      by (simp add: edited_def map_butlast)
    moreover have "ed_wf (ed2\<lparr>undo_stack := butlast (undo_stack ed2)\<rparr>)"
      using wf stacks_wf_shorter[OF wf(2), of "butlast (undo_stack ed2)" "redo_stack ed2"]
      by (simp add: ed_wf_def in_set_butlastD subset_iff)
    ultimately show ?case using got 3 by simp
  qed (use m wf in simp_all)
next
  case False
  then have "edited True f ed ed2"
    using noted_undo(3)[of ed ed1] n doc same same_file_trans[OF noted_fields(7)[OF n] same(1)] by (simp add: edited_def)
  moreover have "ed_wf ed2" using wf by (simp add: ed_wf_def)
  ultimately have "Q (ed2, s)" using got m by blast
  then show ?thesis using False by (simp add: edit_undone_def)
qed

section \<open>Editing one line of the text\<close>

definition besides :: "nat \<Rightarrow> editor \<Rightarrow> owned" where
  "besides y ed = lines_own (take y (lines ed) @ drop (Suc y) (lines ed)) + {#(lines_ptr ed, num_lines ed * sizeof_line)#} +
     states_own (undo_stack ed) + states_own (redo_stack ed) + rest_own ed"

lemma own_line:
  assumes "y < num_lines ed"
  shows "ed_own ed = line_own (lines ed ! y) + besides y ed" "ed_own (set_line y l ed) = line_own l + besides y ed"
  using lines_own_update(1)[OF assms] lines_own_update(2)[OF assms, of l] assms
  by (simp_all add: ed_own_def text_own_def besides_def ac_simps)

lemma line_at_Some [simp]: "y < num_lines ed \<Longrightarrow> line_at ed y = Some (lines ed ! y)"
  by (simp add: line_at_def)

lemma cursor_line: "text_wf ed \<Longrightarrow> line_wf (lines ed ! cursor_y ed)"
  by (simp add: text_wf_def)

lemma text_wf_set_line:
  assumes wf: "text_wf ed" and l: "line_wf l" and x: "y = cursor_y ed \<longrightarrow> cursor_x ed \<le> l_len l"
  shows "text_wf (set_line y l ed)"
proof -
  have "\<forall>k \<in> set ((lines ed)[y := l]). line_wf k"
    using set_update_subset_insert[of "lines ed" y l] wf l by (auto simp: text_wf_def)
  then show ?thesis using wf x by (cases "y = cursor_y ed") (simp_all add: text_wf_def)
qed

lemma map_text_nth: "y < num_lines ed \<Longrightarrow> map text_of (lines ed) ! y = text_of (lines ed ! y)"
  by simp

theorem editor_insert_char_run:
  assumes own: "owns heap_ok R (ed_own ed) s" and wf: "ed_wf ed"
  shows "returns (editor_insert_char ed c s) (\<lambda>(ed', s'). edited True (doc_insert c) ed ed' \<and> ed_wf ed' \<and> mine R (ed_own ed') s s')"
  unfolding editor_insert_char_def returns_bind
proof (rule push_undo_rule[OF mine_start[OF own] wf], goal_cases)
  case (1 b ed1 s1)
  note n = noted_fields[OF 1(1)]
  have y: "cursor_y ed1 < num_lines ed1" "cursor_x ed1 \<le> l_len (lines ed1 ! cursor_y ed1)" using 1(2) by (simp_all add: text_wf_def)
  have m: "mine R (line_own (lines ed1 ! cursor_y ed1) + besides (cursor_y ed1) ed1) s s1" using 1(4) own_line(1)[OF y(1)] by simp
  have "(lines ed1)[cursor_y ed1 := lines ed1 ! cursor_y ed1] = lines ed1" by simp
  then have same: "set_line (cursor_y ed1) (lines ed1 ! cursor_y ed1) ed1 = ed1" by simp
  show ?case
    unfolding prod.case line_at_Some[OF y(1)] bind.bind_lunit returns_bind
  proof (rule line_insert_char_returns[OF m cursor_line[OF 1(2)] y(2)], goal_cases)
    case 1
    show ?case
      unfolding prod.case Let_def same not_False_eq_True if_True
      by (rule edit_undone_rule[OF \<open>mine R (ed_own ed1) s s1\<close> \<open>noted b ed ed1\<close>]) (use n 1 \<open>text_wf ed1\<close> \<open>stacks_wf ed1\<close> in simp_all)
  next
    case (2 l2 s2)
    let ?ed = "set_line (cursor_y ed1) l2 ed1"
    have "length (text_of l2) = Suc (l_len (lines ed1 ! cursor_y ed1))"
      unfolding 2(3) using length_text[OF cursor_line[OF \<open>text_wf ed1\<close>]] y(2) by simp
    then have len: "l_len l2 = Suc (l_len (lines ed1 ! cursor_y ed1))" using length_text[OF 2(2)] by simp
    have wf2: "text_wf (?ed\<lparr>cursor_x := cursor_x ed1 + 1\<rparr>)"
      using text_wf_set_line[OF \<open>text_wf ed1\<close> 2(2), of "cursor_y ed1"] y len by (simp add: text_wf_def)
    have m2: "mine R (ed_own (?ed\<lparr>cursor_x := cursor_x ed1 + 1\<rparr>)) s s2"
      using 2(1) own_line(2)[OF y(1), of l2] by (simp add: ed_own_def)
    have doc: "doc_of (?ed\<lparr>cursor_x := cursor_x ed1 + 1\<rparr>) = doc_insert c (doc_of ed)"
      unfolding n(1)[symmetric] using 2(3) y(1) by (simp add: doc_of_def map_update)
    have eq: "cursor_x ?ed = cursor_x ed1" by simp
    show ?case
      unfolding prod.case Let_def not_True_eq_False if_False eq
      by (rule edit_done_rule[where f = "doc_insert c" and may_fail = True, OF m2 \<open>noted b ed ed1\<close> wf2 _ doc])
        (use \<open>stacks_wf ed1\<close> in simp_all)
  qed
qed

theorem editor_insert_newline_run:
  assumes own: "owns heap_ok R (ed_own ed) s" and wf: "ed_wf ed"
  shows "returns (editor_insert_newline ed s) (\<lambda>(ed', s'). edited True doc_newline ed ed' \<and> ed_wf ed' \<and> mine R (ed_own ed') s s')"
  unfolding editor_insert_newline_def returns_bind
proof (rule push_undo_rule[OF mine_start[OF own] wf], goal_cases)
  case (1 b ed1 s1)
  note n = noted_fields[OF 1(1)] and wf1 = 1(2,3)
  let ?y = "cursor_y ed1" and ?x = "cursor_x ed1"
  have y: "?y < num_lines ed1" "?x \<le> l_len (lines ed1 ! ?y)" using 1(2) by (simp_all add: text_wf_def)
  have l: "line_wf (lines ed1 ! ?y)" by (rule cursor_line[OF 1(2)])
  have "text_own ed1 \<subseteq># ed_own ed1" using text_sub[of ed1 "{#}"] by simp
  moreover have lw: "\<forall>l \<in> set (lines ed1). line_wf l" using wf1 by (simp add: text_wf_def)
  ultimately have "num_lines ed1 * sizeof_line \<le> 2 ^ 22" using text_small(1)[OF 1(4)] by blast
  then have sz: "unat (of_nat ((num_lines ed1 + 1) * sizeof_line) :: u32) = (num_lines ed1 + 1) * sizeof_line"
    by (intro unat_of_nat_small) (simp add: sizeof_line_def)
  have "(lines ed1)[?y := lines ed1 ! ?y] = lines ed1" by simp
  then have same: "set_line ?y (lines ed1 ! ?y) ed1 = ed1" by simp
  show ?case
    unfolding prod.case returns_bind
  proof (rule kmalloc_returns[OF 1(4)], goal_cases)
    case 1
    show ?case
      unfolding prod.case if_P[OF refl]
      by (rule edit_undone_rule[OF \<open>mine R (ed_own ed1) s s1\<close> \<open>noted b ed ed1\<close>]) (use n wf1 in simp_all)
  next
    case (2 p s2)
    let ?P = "add_mset (p, (num_lines ed1 + 1) * sizeof_line) (besides ?y ed1)"
    have m: "mine R (line_own (lines ed1 ! ?y) + ?P) s s2" using 2(2) own_line(1)[OF y(1)] sz by simp
    show ?case
      unfolding prod.case if_not_P[OF 2(1)] line_at_Some[OF y(1)] bind.bind_lunit returns_bind
    proof (rule line_split_returns[OF m l y(2)], goal_cases)
      case (1 k)
      have "mine R (add_mset (p, (num_lines ed1 + 1) * sizeof_line) (ed_own ed1)) s s2" using 1 own_line(1)[OF y(1)] by simp
      then show ?case
        unfolding prod.case Let_def same not_False_eq_True if_True returns_bind
      proof (rule kfree_returns, goal_cases)
        case (1 s3)
        show ?case by (rule edit_undone_rule[OF 1 \<open>noted b ed ed1\<close>]) (use n wf1 in simp_all)
      qed
    next
      case (2 l' k s3)
      let ?ed = "set_line ?y l' ed1"
      have fields: "cursor_y ?ed = ?y" "lines_ptr ?ed = lines_ptr ed1" by simp_all
      define ls where "ls = take (?y + 1) (lines ?ed) @ [k] @ drop (?y + 1) (lines ?ed)"
      have ls: "ls = take ?y (lines ed1) @ [l', k] @ drop (Suc ?y) (lines ed1)"
        using y(1) by (simp add: ls_def take_Suc_conv_app_nth drop_update_cancel)
      let ?ed2 = "?ed\<lparr>lines_ptr := p, lines := ls, cursor_y := ?y + 1, cursor_x := 0\<rparr>"
      have len: "length ls = num_lines ed1 + 1" using y(1) by (simp add: ls)
      have "lines_own ls = line_own l' + line_own k + lines_own (take ?y (lines ed1) @ drop (Suc ?y) (lines ed1))"
        by (simp add: ls ac_simps)
      then have own2: "ed_own ?ed2 = add_mset (p, (num_lines ed1 + 1) * sizeof_line)
          (line_own l' + line_own k + lines_own (take ?y (lines ed1) @ drop (Suc ?y) (lines ed1)) +
           states_own (undo_stack ed1) + states_own (redo_stack ed1) + rest_own ed1)"
        using len by (simp add: ed_own_def text_own_def ac_simps)
      have m3: "mine R (add_mset (lines_ptr ed1, num_lines ed1 * sizeof_line) (ed_own ?ed2)) s s3"
        using 2(1) unfolding own2 by (simp add: besides_def ac_simps add_mset_commute)
      have wf2: "text_wf ?ed2" "stacks_wf ?ed2"
      proof -
        have "\<forall>l \<in> set ls. line_wf l" using lw 2(2,3) unfolding ls by (auto dest: in_set_takeD in_set_dropD)
        then show "text_wf ?ed2" using y(1) len by (simp add: text_wf_def)
        show "stacks_wf ?ed2" using wf1(2) by simp
      qed
      have doc: "doc_of ?ed2 = doc_newline (doc_of ed)"
        unfolding n(1)[symmetric] using y(1) 2(4,5) by (simp add: doc_of_def ls take_map drop_map)
      show ?case
        unfolding prod.case Let_def not_True_eq_False if_False returns_bind fields ls_def[symmetric]
      proof (rule kfree_returns[OF m3], goal_cases)
        case (1 s4)
        show ?case
          by (rule edit_done_rule[where f = doc_newline and may_fail = True, OF 1 \<open>noted b ed ed1\<close> wf2 doc]) (simp_all add: same_file_def)
      qed
    qed
  qed
qed

end
