(* ===== verification/Editor_Edits.thy ===== *)
theory Editor_Edits
  imports Editor_Spec
begin

text \<open>
  The deletions of the editor, undo and redo, and the cursor: each returns, keeps the editor well-formed
  and does to the document what its name says.
\<close>

section \<open>Joining lines\<close>

lemma join_next_returns:
  assumes m: "mine R (ed_own ed) s0 s" and lw: "\<forall>l \<in> set (lines ed). line_wf l" and y: "Suc y < num_lines ed"
    and fail: "mine R (ed_own ed) s0 s \<Longrightarrow> Q (False, ed, s)"
    and got: "\<And>ls s'. mine R (ed_own (ed\<lparr>lines := ls\<rparr>)) s0 s' \<Longrightarrow> \<forall>l \<in> set ls. line_wf l \<Longrightarrow>
      map text_of ls = join_at y (map text_of (lines ed)) \<Longrightarrow> Q (True, ed\<lparr>lines := ls\<rparr>, s')"
  shows "returns (join_next y ed s) Q"
proof -
  let ?L = "lines ed" and ?src = "lines ed ! Suc y"
  have y': "y < num_lines ed" using y by simp
  have dst: "line_wf (?L ! y)" and src: "line_wf ?src" using lw y y' by simp_all
  have m1: "mine R (line_own (?L ! y) + besides y ed) s0 s" using m own_line(1)[OF y'] by simp
  have small: "l_cap ?src \<le> 2 ^ 22" using m own_line(1)[OF y] src by (intro line_small[of R ?src]) simp_all
  have at: "line_at ed y = Some (?L ! y)" "line_at ed (y + 1) = Some ?src" using y y' by simp_all
  have same: "set_line y (?L ! y) ed = ed" by simp
  define P where "P = states_own (undo_stack ed) + states_own (redo_stack ed) + rest_own ed"
  have gap: "besides y ed = add_mset (l_data ?src, l_cap ?src) (add_mset (lines_ptr ed, num_lines ed * sizeof_line)
      (lines_own (take y ?L @ drop (y + 2) ?L) + P))"
    using Cons_nth_drop_Suc[OF y, symmetric] line_own_wf[OF src] by (simp add: besides_def P_def ac_simps)
  show ?thesis
    unfolding join_next_def at bind.bind_lunit returns_bind
  proof (rule line_join_returns[OF m1 dst src small], goal_cases)
    case 1
    then show ?case using fail[OF m] unfolding prod.case Let_def same by simp
  next
    case (2 d s')
    let ?ls = "take y ?L @ d # drop (y + 2) ?L"
    have ls: "take (y + 1) (lines (set_line y d ed)) @ drop (y + 2) (lines (set_line y d ed)) = ?ls"
      using y by (simp add: take_Suc_conv_app_nth drop_update_cancel)
    have m2: "mine R (add_mset (l_data ?src, l_cap ?src) (add_mset (lines_ptr ed, num_lines ed * sizeof_line)
        (line_own d + lines_own (take y ?L @ drop (y + 2) ?L) + P))) s0 s'"
      using 2(1) by (simp add: gap ac_simps add_mset_commute)
    show ?case
      unfolding prod.case Let_def not_True_eq_False if_False returns_bind ls
    proof (rule kfree_returns[OF m2], goal_cases)
      case (1 s'')
      have "length ?ls * sizeof_line \<le> num_lines ed * sizeof_line" by (intro mult_le_mono1) (use y in simp)
      from mine_shrink[OF 1 this]
      have "mine R (ed_own (ed\<lparr>lines := ?ls\<rparr>)) s0 s''"
        by (simp add: ed_own_def text_own_def P_def ac_simps)
      moreover have "\<forall>l \<in> set ?ls. line_wf l" using lw 2(2) by (auto dest: in_set_takeD in_set_dropD)
      moreover have "map text_of ?ls = join_at y (map text_of ?L)"
        using 2(3) y by (simp add: join_at_def take_map drop_map)
      ultimately show ?case using got[of ?ls s''] by simp
    qed
  qed
qed

section \<open>Deleting\<close>

lemma delete_in_line:
  assumes m: "mine R (ed_own ed1) s0 s" and n: "noted b ed ed1" and wf: "text_wf ed1" "stacks_wf ed1"
    and pos: "pos < l_len (lines ed1 ! cursor_y ed1)"
    and doc: "f (doc_of ed) = ((map text_of (lines ed))[cursor_y ed := take pos (text_of (lines ed ! cursor_y ed)) @
      drop (Suc pos) (text_of (lines ed ! cursor_y ed))], cursor_y ed, pos)"
    and got: "\<And>ed' s'. edited may_fail f ed ed' \<Longrightarrow> ed_wf ed' \<Longrightarrow> mine R (ed_own ed') s0 s' \<Longrightarrow> Q (ed', s')"
  obtains l where "line_delete_char (lines ed1 ! cursor_y ed1) pos = Some (True, l)"
    "returns (edit_done (set_line (cursor_y ed1) l ed1\<lparr>cursor_x := pos\<rparr>) s) Q"
proof -
  note n' = noted_fields[OF n]
  have y: "cursor_y ed1 < num_lines ed1" using wf(1) by (simp add: text_wf_def)
  obtain l where l: "line_delete_char (lines ed1 ! cursor_y ed1) pos = Some (True, l)" "line_wf l"
      "line_own l = line_own (lines ed1 ! cursor_y ed1)"
      "text_of l = take pos (text_of (lines ed1 ! cursor_y ed1)) @ drop (Suc pos) (text_of (lines ed1 ! cursor_y ed1))"
      "l_len l = l_len (lines ed1 ! cursor_y ed1) - 1"
    by (rule line_delete_char_spec[OF cursor_line[OF wf(1)] pos])
  let ?ed = "set_line (cursor_y ed1) l ed1\<lparr>cursor_x := pos\<rparr>"
  have own: "ed_own ?ed = ed_own ed1" using own_line[OF y] l(3) by (simp add: ed_own_def)
  have "text_wf (set_line (cursor_y ed1) l (ed1\<lparr>cursor_x := pos\<rparr>))"
    by (rule text_wf_set_line) (use wf(1) l pos in \<open>simp_all add: text_wf_def\<close>)
  then have wf2: "text_wf ?ed" using y by (simp add: text_wf_def)
  have doc2: "doc_of ?ed = f (doc_of ed)" unfolding doc using n' l(4) y by (simp add: doc_of_def map_update)
  have "returns (edit_done ?ed s) Q"
    by (rule edit_done_rule[where f = f and may_fail = may_fail, OF _ n wf2 _ doc2]) (use m own wf got in simp_all)
  then show thesis using that l(1) by blast
qed

theorem editor_delete_backward_run:
  assumes own: "owns heap_ok R (ed_own ed) s" and wf: "ed_wf ed"
  shows "returns (editor_delete_backward ed s)
    (\<lambda>(ed', s'). edited (cursor_x ed = 0) doc_backspace ed ed' \<and> ed_wf ed' \<and> mine R (ed_own ed') s s')"
  unfolding editor_delete_backward_def returns_bind
proof (rule push_undo_rule[OF mine_start[OF own] wf], goal_cases)
  case (1 b ed1 s1)
  note n = noted_fields[OF 1(1)]
  let ?y = "cursor_y ed1"
  have y: "?y < num_lines ed1" "cursor_x ed1 \<le> l_len (lines ed1 ! ?y)" and lw: "\<forall>l \<in> set (lines ed1). line_wf l"
    using 1(2) by (simp_all add: text_wf_def)
  show ?case
  proof (cases "cursor_x ed1 > 0")
    case True
    then have pos: "cursor_x ed1 - 1 < l_len (lines ed1 ! ?y)" using y by simp
    have doc: "doc_backspace (doc_of ed) = ((map text_of (lines ed))[cursor_y ed := take (cursor_x ed1 - 1) (text_of (lines ed ! cursor_y ed)) @
        drop (Suc (cursor_x ed1 - 1)) (text_of (lines ed ! cursor_y ed))], cursor_y ed, cursor_x ed1 - 1)"
      using True y n by (simp add: doc_of_def)
    let ?Q = "\<lambda>(ed', s' :: 'a heap_scheme). edited (cursor_x ed = 0) doc_backspace ed ed' \<and> ed_wf ed' \<and> mine R (ed_own ed') s s'"
    obtain l where l: "line_delete_char (lines ed1 ! ?y) (cursor_x ed1 - 1) = Some (True, l)"
        "returns (edit_done (set_line ?y l ed1\<lparr>cursor_x := cursor_x ed1 - 1\<rparr>) s1)
          ?Q"
      by (rule delete_in_line[where f = doc_backspace and may_fail = "cursor_x ed = 0" and Q = ?Q, OF 1(4,1,2,3) pos doc]) simp_all
    then show ?thesis using True by (simp add: line_at_Some[OF y(1)])
  next
    case False
    then have x: "(cursor_x ed = 0) = True" "cursor_x ed1 = 0" using n by simp_all
    show ?thesis
    proof (cases "?y > 0")
      case True
      then have py: "Suc (?y - 1) < num_lines ed1" "?y - 1 < num_lines ed1" using y by simp_all
      let ?k = "l_len (lines ed1 ! (?y - 1))"
      show ?thesis
        unfolding prod.case x if_not_P[OF less_irrefl] if_P[OF True] line_at_Some[OF py(2)] bind.bind_lunit returns_bind
      proof (rule join_next_returns[OF 1(4) lw py(1)], goal_cases)
        case 1
        show ?case
          by (simp, rule edit_undone_rule[OF 1 \<open>noted b ed ed1\<close>]) (use n \<open>text_wf ed1\<close> \<open>stacks_wf ed1\<close> in simp_all)
      next
        case (2 ls s2)
        let ?ed = "ed1\<lparr>lines := ls, cursor_y := ?y - 1, cursor_x := ?k\<rparr>"
        have len: "length ls = num_lines ed1 - 1" using arg_cong[OF 2(3), of length] py by (simp add: join_at_def)
        have "text_of (ls ! (?y - 1)) = text_of (lines ed1 ! (?y - 1)) @ text_of (lines ed1 ! ?y)"
          using arg_cong[OF 2(3), of "\<lambda>xs. xs ! (?y - 1)"] True y len by (simp add: join_at_def nth_append)
        from arg_cong[OF this, of length] have "?k \<le> l_len (ls ! (?y - 1))"
          using 2(2) lw py y len by simp
        then have wf2: "text_wf ?ed" using 2(2) len py by (simp add: text_wf_def)
        have doc: "doc_of ?ed = doc_backspace (doc_of ed)"
          unfolding n(1)[symmetric] using 2(3) x(2) True y py lw by (simp add: doc_of_def)
        have m2: "mine R (ed_own ?ed) s s2" using 2(1) by (simp add: ed_own_def)
        have eq: "cursor_y (ed1\<lparr>lines := ls\<rparr>) = cursor_y ed1" by simp
        show ?case
          by (simp only: prod.case if_True returns_Some eq, rule edit_done_rule[where f = doc_backspace and may_fail = True, OF m2 \<open>noted b ed ed1\<close> wf2 _ doc])
            (use \<open>stacks_wf ed1\<close> in simp_all)
      qed
    next
      case False
      then have "doc_backspace (doc_of ed) = doc_of ed" using x n by (simp add: doc_of_def)
      show ?thesis
        using x False
        by (simp, intro edit_undone_rule[OF 1(4,1,2,3)]) (use n in simp_all)
    qed
  qed
qed

theorem editor_delete_forward_run:
  assumes own: "owns heap_ok R (ed_own ed) s" and wf: "ed_wf ed"
  shows "returns (editor_delete_forward ed s)
    (\<lambda>(ed', s'). edited (cursor_x ed = l_len (lines ed ! cursor_y ed)) doc_delete ed ed' \<and> ed_wf ed' \<and> mine R (ed_own ed') s s')"
  unfolding editor_delete_forward_def returns_bind
proof (rule push_undo_rule[OF mine_start[OF own] wf], goal_cases)
  case (1 b ed1 s1)
  note n = noted_fields[OF 1(1)]
  let ?y = "cursor_y ed1" and ?x = "cursor_x ed1"
  have y: "?y < num_lines ed1" "?x \<le> l_len (lines ed1 ! ?y)" and lw: "\<forall>l \<in> set (lines ed1). line_wf l"
    using 1(2) by (simp_all add: text_wf_def)
  have len1: "length (text_of (lines ed1 ! ?y)) = l_len (lines ed1 ! ?y)" using lw y by simp
  show ?case
  proof (cases "?x < l_len (lines ed1 ! ?y)")
    case True
    have doc: "doc_delete (doc_of ed) = ((map text_of (lines ed))[cursor_y ed := take ?x (text_of (lines ed ! cursor_y ed)) @
        drop (Suc ?x) (text_of (lines ed ! cursor_y ed))], cursor_y ed, ?x)"
      using True y n len1 by (simp add: doc_of_def)
    let ?Q = "\<lambda>(ed', s' :: 'a heap_scheme). edited (cursor_x ed = l_len (lines ed ! cursor_y ed)) doc_delete ed ed' \<and> ed_wf ed' \<and> mine R (ed_own ed') s s'"
    obtain l where l: "line_delete_char (lines ed1 ! ?y) ?x = Some (True, l)"
        "returns (edit_done (set_line ?y l ed1\<lparr>cursor_x := ?x\<rparr>) s1)
          ?Q"
      by (rule delete_in_line[where f = doc_delete and may_fail = "cursor_x ed = l_len (lines ed ! cursor_y ed)" and Q = ?Q, OF 1(4,1,2,3) True doc]) simp_all
    then show ?thesis using True by (simp add: line_at_Some[OF y(1)])
  next
    case False
    then have x: "(cursor_x ed = l_len (lines ed ! cursor_y ed)) = True" "?x = l_len (lines ed1 ! ?y)" using n y by simp_all
    show ?thesis
    proof (cases "Suc ?y < num_lines ed1")
      case True
      then have py: "?y + 1 < num_lines ed1" by simp
      show ?thesis
        unfolding prod.case x(1) line_at_Some[OF y(1)] bind.bind_lunit if_not_P[OF False] if_P[OF py] returns_bind
      proof (rule join_next_returns[OF 1(4) lw True], goal_cases)
        case 1
        show ?case
          by (simp, rule edit_undone_rule[OF 1 \<open>noted b ed ed1\<close>]) (use n \<open>text_wf ed1\<close> \<open>stacks_wf ed1\<close> in simp_all)
      next
        case (2 ls s2)
        let ?ed = "ed1\<lparr>lines := ls\<rparr>"
        have len: "length ls = num_lines ed1 - 1" using arg_cong[OF 2(3), of length] True by (simp add: join_at_def)
        have "text_of (ls ! ?y) = text_of (lines ed1 ! ?y) @ text_of (lines ed1 ! Suc ?y)"
          using arg_cong[OF 2(3), of "\<lambda>xs. xs ! ?y"] True y len by (simp add: join_at_def nth_append)
        from arg_cong[OF this, of length] have "?x \<le> l_len (ls ! ?y)"
          using 2(2) lw True y len by simp
        then have wf2: "text_wf ?ed" using 2(2) len True by (simp add: text_wf_def)
        have doc: "doc_of ?ed = doc_delete (doc_of ed)"
          unfolding n(1)[symmetric] using 2(3) x(2) True y lw by (simp add: doc_of_def)
        show ?case
          by (simp, rule edit_done_rule[where f = doc_delete and may_fail = True, OF 2(1) \<open>noted b ed ed1\<close> wf2 _ doc])
            (use \<open>stacks_wf ed1\<close> in simp_all)
      qed
    next
      case last: False
      show ?thesis
        using x False last
        by (simp add: line_at_Some[OF y(1)], intro edit_undone_rule[OF 1(4,1,2,3)]) (use n in simp_all)
    qed
  qed
qed

end
