(* ===== verification/Editor_Undo.thy ===== *)
theory Editor_Undo
  imports Editor_Edits
begin

text \<open>
  Undo and redo of the editor: restoring a saved state, keeping the current one for the other stack, and
  what a whole undo or redo does to the document and to the objects the editor owns.
\<close>

section \<open>Restoring a saved state\<close>

lemma restore_returns:
  assumes m: "mine R (text_own ed + (state_own st + P)) s0 s" and lw: "\<forall>l \<in> set (lines ed). line_wf l"
    and got: "\<And>s'. mine R (state_own st + P) s0 s' \<Longrightarrow>
      Q (ed\<lparr>lines_ptr := st_lines_ptr st, lines := st_lines st, cursor_x := st_cursor_x st, cursor_y := st_cursor_y st,
            scroll_x := st_scroll_x st, scroll_y := st_scroll_y st, modified := True\<rparr>, s')"
  shows "returns (do { (ed, prev, s) \<leftarrow> editor_state_restore ed st s; (_, s) \<leftarrow> editor_state_free prev s; Some (ed, s) }) Q"
proof -
  have m': "mine R (lines_own (lines ed) + add_mset (lines_ptr ed, num_lines ed * sizeof_line) (state_own st + P)) s0 s"
    using m by (simp add: text_own_def)
  show ?thesis
    unfolding returns_bind editor_state_restore_def
  proof (rule free_lines_returns[OF m' lw], rule kfree_returns, assumption, goal_cases)
    case (1 s1 s2)
    then show ?case using got by (simp add: editor_state_free_def)
  qed
qed

text \<open>Copying the current state to the other stack first, which memory may not allow.\<close>

lemma keep_current_returns:
  assumes m: "mine R (states_own stack + (text_own ed + P)) s0 s" and ptr: "ptr \<noteq> 0" and wf: "text_wf ed" "\<forall>st \<in> set stack. state_wf st"
    and fail: "\<And>s'. mine R (states_own stack + (text_own ed + P)) s0 s' \<Longrightarrow> Q (ed, s')"
    and got: "\<And>st s'. state_wf st \<Longrightarrow> saved st = doc_of ed \<Longrightarrow>
      mine R (states_own (pushed stack st) + (text_own ed + P)) s0 s' \<Longrightarrow> Q (upd (pushed stack st) ed, s')"
  shows "returns (do { (current, s) \<leftarrow> editor_state_clone ed s;
    if st_lines_ptr current \<noteq> 0 then do { (stack, s) \<leftarrow> undo_stack_push ptr stack current s; Some (upd stack ed, s) }
    else Some (ed, s) }) Q"
  unfolding returns_bind
proof (rule clone_returns[OF m _ wf(1)], goal_cases)
  case 1
  show ?case by (simp add: ac_simps)
next
  case (2 s')
  then show ?case using fail by (simp add: no_state_def)
next
  case (3 st s')
  have nz: "st_lines_ptr st \<noteq> 0" using 3(1) by (simp add: state_wf_def)
  have m': "mine R (states_own stack + (state_own st + (text_own ed + P))) s0 s'" using 3(3) by (simp add: ac_simps)
  show ?case
    unfolding prod.case if_P[OF nz] returns_bind
    by (rule push_returns[OF m' ptr wf(2)]) (simp, rule got[OF 3(1,2)])
qed

section \<open>Undo and redo\<close>

definition undone :: "editor \<Rightarrow> editor \<Rightarrow> bool" where
  "undone ed ed' \<longleftrightarrow>
     (if undo_stack ed = [] then ed' = ed
      else doc_of ed' = last (map saved (undo_stack ed)) \<and> modified ed' \<and> same_file ed ed' \<and>
        map saved (undo_stack ed') = butlast (map saved (undo_stack ed)) \<and>
        map saved (redo_stack ed') \<in> {map saved (redo_stack ed), pushed (map saved (redo_stack ed)) (doc_of ed)})"

definition redone :: "editor \<Rightarrow> editor \<Rightarrow> bool" where
  "redone ed ed' \<longleftrightarrow>
     (if redo_stack ed = [] then ed' = ed
      else doc_of ed' = last (map saved (redo_stack ed)) \<and> modified ed' \<and> same_file ed ed' \<and>
        map saved (redo_stack ed') = butlast (map saved (redo_stack ed)) \<and>
        map saved (undo_stack ed') \<in> {map saved (undo_stack ed), pushed (map saved (undo_stack ed)) (doc_of ed)})"

lemma states_own_last: "sts \<noteq> [] \<Longrightarrow> states_own sts = states_own (butlast sts) + state_own (last sts)"
  by (cases sts rule: rev_cases) simp_all

text \<open>The editor after a saved state has been put in place.\<close>

abbreviation restored :: "editor_state \<Rightarrow> editor \<Rightarrow> editor" where
  "restored st ed \<equiv> ed\<lparr>lines_ptr := st_lines_ptr st, lines := st_lines st, cursor_x := st_cursor_x st, cursor_y := st_cursor_y st,
     scroll_x := st_scroll_x st, scroll_y := st_scroll_y st, modified := True\<rparr>"

lemma restored_wf: "state_wf st \<Longrightarrow> stacks_wf ed \<Longrightarrow> ed_wf (restored st ed)"
  by (simp add: ed_wf_def text_wf_def state_wf_def stacks_wf_def)

lemma restored_doc [simp]:
  "doc_of (ed\<lparr>lines_ptr := st_lines_ptr st, lines := st_lines st, cursor_x := st_cursor_x st, cursor_y := st_cursor_y st,
     scroll_x := st_scroll_x st, scroll_y := st_scroll_y st\<rparr>) = saved st"
  "same_file ed (restored st ed)"
  by (simp_all add: doc_of_def saved_def same_file_def)

lemma restored_own [simp]: "text_own (ed\<lparr>lines_ptr := st_lines_ptr st, lines := st_lines st\<rparr>) = state_own st" "rest_own (restored st ed) = rest_own ed"
  by (simp_all add: text_own_def state_own_def rest_own_def)

lemma undo_in_place:
  assumes m: "mine R (ed_own ed1) s0 s" and wf: "text_wf ed1" "stacks_wf ed1" and ne: "undo_stack ed1 \<noteq> []"
    and got: "\<And>s'. ed_wf (restored (last (undo_stack ed1)) (ed1\<lparr>undo_stack := butlast (undo_stack ed1)\<rparr>)) \<Longrightarrow>
      mine R (ed_own (restored (last (undo_stack ed1)) (ed1\<lparr>undo_stack := butlast (undo_stack ed1)\<rparr>))) s0 s' \<Longrightarrow>
      Q (restored (last (undo_stack ed1)) (ed1\<lparr>undo_stack := butlast (undo_stack ed1)\<rparr>), s')"
  shows "returns (let (prev, stack) = undo_stack_pop (undo_stack ed1) in do {
    (ed, prev, s) \<leftarrow> editor_state_restore (ed1\<lparr>undo_stack := stack\<rparr>) prev s; (_, s) \<leftarrow> editor_state_free prev s; Some (ed, s) }) Q"
proof -
  let ?st = "last (undo_stack ed1)" and ?ed = "ed1\<lparr>undo_stack := butlast (undo_stack ed1)\<rparr>"
  have m': "mine R (text_own ?ed + (state_own ?st + (states_own (undo_stack ?ed) + states_own (redo_stack ?ed) + rest_own ?ed))) s0 s"
    using m by (simp add: ed_own_def states_own_last[OF ne] ac_simps)
  have "state_wf ?st" using wf(2) ne by (simp add: stacks_wf_def)
  moreover have "stacks_wf ?ed"
    using stacks_wf_shorter[OF wf(2), of "butlast (undo_stack ed1)" "redo_stack ed1"] by (simp add: in_set_butlastD subset_iff)
  ultimately have "ed_wf (restored ?st ?ed)" by (rule restored_wf)
  moreover have "\<forall>l \<in> set (lines ?ed). line_wf l" using wf(1) by (simp add: text_wf_def)
  ultimately show ?thesis
    unfolding undo_stack_pop_def Let_def prod.case
    by (intro restore_returns[OF m'] got) (simp_all add: ed_own_def ac_simps)
qed

lemma redo_in_place:
  assumes m: "mine R (ed_own ed1) s0 s" and wf: "text_wf ed1" "stacks_wf ed1" and ne: "redo_stack ed1 \<noteq> []"
    and got: "\<And>s'. ed_wf (restored (last (redo_stack ed1)) (ed1\<lparr>redo_stack := butlast (redo_stack ed1)\<rparr>)) \<Longrightarrow>
      mine R (ed_own (restored (last (redo_stack ed1)) (ed1\<lparr>redo_stack := butlast (redo_stack ed1)\<rparr>))) s0 s' \<Longrightarrow>
      Q (restored (last (redo_stack ed1)) (ed1\<lparr>redo_stack := butlast (redo_stack ed1)\<rparr>), s')"
  shows "returns (let (next, stack) = undo_stack_pop (redo_stack ed1) in do {
    (ed, next, s) \<leftarrow> editor_state_restore (ed1\<lparr>redo_stack := stack\<rparr>) next s; (_, s) \<leftarrow> editor_state_free next s; Some (ed, s) }) Q"
proof -
  let ?st = "last (redo_stack ed1)" and ?ed = "ed1\<lparr>redo_stack := butlast (redo_stack ed1)\<rparr>"
  have m': "mine R (text_own ?ed + (state_own ?st + (states_own (undo_stack ?ed) + states_own (redo_stack ?ed) + rest_own ?ed))) s0 s"
    using m by (simp add: ed_own_def states_own_last[OF ne] ac_simps)
  have "state_wf ?st" using wf(2) ne by (simp add: stacks_wf_def)
  moreover have "stacks_wf ?ed"
    using stacks_wf_shorter[OF wf(2), of "undo_stack ed1" "butlast (redo_stack ed1)"] by (simp add: in_set_butlastD subset_iff)
  ultimately have "ed_wf (restored ?st ?ed)" by (rule restored_wf)
  moreover have "\<forall>l \<in> set (lines ?ed). line_wf l" using wf(1) by (simp add: text_wf_def)
  ultimately show ?thesis
    unfolding undo_stack_pop_def Let_def prod.case
    by (intro restore_returns[OF m'] got) (simp_all add: ed_own_def ac_simps)
qed

lemma editor_undo_run:
  assumes own: "owns heap_ok R (ed_own ed) s" and wf: "ed_wf ed"
  shows "returns (editor_undo ed s) (\<lambda>(ed', s'). undone ed ed' \<and> ed_wf ed' \<and> mine R (ed_own ed') s s')"
proof (cases "undo_stack ed = []")
  case True
  then show ?thesis using wf mine_start[OF own] by (simp add: editor_undo_def undone_def)
next
  case False
  have wf1: "text_wf ed" "stacks_wf ed" using wf by (simp_all add: ed_wf_def)
  have m: "mine R (states_own (redo_stack ed) + (text_own ed + (states_own (undo_stack ed) + rest_own ed))) s s"
    using mine_start[OF own] by (simp add: own_redo ac_simps)
  have run: "editor_undo ed s = do {
      (ed, s) \<leftarrow> do { (current, s) \<leftarrow> editor_state_clone ed s;
        if st_lines_ptr current \<noteq> 0 then do { (stack, s) \<leftarrow> undo_stack_push (redo_ptr ed) (redo_stack ed) current s; Some (ed\<lparr>redo_stack := stack\<rparr>, s) }
        else Some (ed, s) };
      let (prev, stack) = undo_stack_pop (undo_stack ed);
      (ed, prev, s) \<leftarrow> editor_state_restore (ed\<lparr>undo_stack := stack\<rparr>) prev s;
      (_, s) \<leftarrow> editor_state_free prev s;
      Some (ed, s) }"
    using False by (simp add: editor_undo_def case_prod_unfold)
  show ?thesis
    unfolding run returns_bind[of "do { (current, s) \<leftarrow> editor_state_clone ed s; _ current s }"]
  proof (rule keep_current_returns[OF m, where upd = "\<lambda>stack ed. ed\<lparr>redo_stack := stack\<rparr>"], goal_cases)
    case (4 s1)
    show ?case
      unfolding prod.case
      by (rule undo_in_place[of R _ s]) (use 4 wf1 False in \<open>simp_all add: own_redo ac_simps undone_def last_map map_butlast same_file_def\<close>)
  next
    case (5 st s1)
    show ?case
      unfolding prod.case
      by (rule undo_in_place[of R _ s])
        (use 5 wf1 False stacks_wf_push(2)[OF wf1(2) 5(1)] in
          \<open>simp_all add: own_redo ac_simps undone_def map_pushed last_map map_butlast same_file_def\<close>)
  qed (use wf1 in \<open>simp_all add: stacks_wf_def\<close>)
qed

lemma editor_redo_run:
  assumes own: "owns heap_ok R (ed_own ed) s" and wf: "ed_wf ed"
  shows "returns (editor_redo ed s) (\<lambda>(ed', s'). redone ed ed' \<and> ed_wf ed' \<and> mine R (ed_own ed') s s')"
proof (cases "redo_stack ed = []")
  case True
  then show ?thesis using wf mine_start[OF own] by (simp add: editor_redo_def redone_def)
next
  case False
  have wf1: "text_wf ed" "stacks_wf ed" using wf by (simp_all add: ed_wf_def)
  have m: "mine R (states_own (undo_stack ed) + (text_own ed + (states_own (redo_stack ed) + rest_own ed))) s s"
    using mine_start[OF own] by (simp add: own_undo ac_simps)
  have run: "editor_redo ed s = do {
      (ed, s) \<leftarrow> do { (current, s) \<leftarrow> editor_state_clone ed s;
        if st_lines_ptr current \<noteq> 0 then do { (stack, s) \<leftarrow> undo_stack_push (undo_ptr ed) (undo_stack ed) current s; Some (ed\<lparr>undo_stack := stack\<rparr>, s) }
        else Some (ed, s) };
      let (next, stack) = undo_stack_pop (redo_stack ed);
      (ed, next, s) \<leftarrow> editor_state_restore (ed\<lparr>redo_stack := stack\<rparr>) next s;
      (_, s) \<leftarrow> editor_state_free next s;
      Some (ed, s) }"
    using False by (simp add: editor_redo_def case_prod_unfold)
  show ?thesis
    unfolding run returns_bind[of "do { (current, s) \<leftarrow> editor_state_clone ed s; _ current s }"]
  proof (rule keep_current_returns[OF m, where upd = "\<lambda>stack ed. ed\<lparr>undo_stack := stack\<rparr>"], goal_cases)
    case (4 s1)
    show ?case
      unfolding prod.case
      by (rule redo_in_place[of R _ s]) (use 4 wf1 False in \<open>simp_all add: own_undo ac_simps redone_def last_map map_butlast same_file_def\<close>)
  next
    case (5 st s1)
    show ?case
      unfolding prod.case
      by (rule redo_in_place[of R _ s])
        (use 5 wf1 False stacks_wf_push(1)[OF wf1(2) 5(1)] in
          \<open>simp_all add: own_undo ac_simps redone_def map_pushed last_map map_butlast same_file_def\<close>)
  qed (use wf1 in \<open>simp_all add: stacks_wf_def\<close>)
qed

end
