(* ===== verification/Editor_Session.thy ===== *)
theory Editor_Session
  imports Editor_Undo
begin

text \<open>
  Commands of the editor, one by one and in sessions from \<open>editor_init\<close> to \<open>editor_free\<close>, and the
  properties of the editor.
\<close>

section \<open>Moving the cursor\<close>

text \<open>Only the cursor and the scroll position change, and the cursor stays in the text.\<close>

definition moved :: "editor \<Rightarrow> editor \<Rightarrow> bool" where
  "moved ed ed' \<longleftrightarrow> (\<exists>x y. ed' = editor_scroll_to_cursor (ed\<lparr>cursor_x := x, cursor_y := y\<rparr>)) \<and>
     text_wf ed' \<and> visible ed'"

lemma clip_x_run:
  assumes "\<forall>l \<in> set (lines ed). line_wf l" "cursor_y ed < num_lines ed"
  shows "\<exists>x. clip_x ed = Some (ed\<lparr>cursor_x := x\<rparr>) \<and> text_wf (ed\<lparr>cursor_x := x\<rparr>)"
  using assms by (auto simp: clip_x_def text_wf_def intro: exI[of _ "cursor_x ed"])

lemma move_key_run:
  assumes wf: "text_wf ed"
  shows "\<exists>x y. move_key ed key = Some (ed\<lparr>cursor_x := x, cursor_y := y\<rparr>) \<and> text_wf (ed\<lparr>cursor_x := x, cursor_y := y\<rparr>)"
proof -
  have y: "cursor_y ed < num_lines ed" "cursor_x ed \<le> l_len (lines ed ! cursor_y ed)" and lw: "\<forall>l \<in> set (lines ed). line_wf l"
    using wf by (simp_all add: text_wf_def)
  define M where "M r \<longleftrightarrow> (\<exists>x y. r = Some (ed\<lparr>cursor_x := x, cursor_y := y\<rparr>) \<and> text_wf (ed\<lparr>cursor_x := x, cursor_y := y\<rparr>))" for r
  have M: "M (Some ed')" if "\<exists>x y. ed' = ed\<lparr>cursor_x := x, cursor_y := y\<rparr>" "text_wf ed'" for ed' using that by (auto simp: M_def)
  have clip: "M (clip_x (ed\<lparr>cursor_y := k\<rparr>))" if "k < num_lines ed" for k
  proof -
    obtain x where x: "clip_x (ed\<lparr>cursor_y := k\<rparr>) = Some (ed\<lparr>cursor_y := k, cursor_x := x\<rparr>)" "text_wf (ed\<lparr>cursor_y := k, cursor_x := x\<rparr>)"
      using clip_x_run[of "ed\<lparr>cursor_y := k\<rparr>"] lw \<open>k < num_lines ed\<close> by auto
    have "ed\<lparr>cursor_y := k, cursor_x := x\<rparr> = ed\<lparr>cursor_x := x, cursor_y := k\<rparr>" by simp
    then show ?thesis unfolding x(1) by (intro M x(2) exI)
  qed
  have "0 < num_lines ed" using y(1) by (rule le_less_trans[rotated]) simp
  then have clip0: "M (clip_x (ed\<lparr>cursor_y := 0\<rparr>))" by (rule clip)
  have both: "M (Some (ed\<lparr>cursor_y := k, cursor_x := i\<rparr>))" if "k < num_lines ed" "i \<le> l_len (lines ed ! k)" for k i
  proof (rule M)
    have "ed\<lparr>cursor_y := k, cursor_x := i\<rparr> = ed\<lparr>cursor_x := i, cursor_y := k\<rparr>" by simp
    then show "\<exists>x y. ed\<lparr>cursor_y := k, cursor_x := i\<rparr> = ed\<lparr>cursor_x := x, cursor_y := y\<rparr>" by (intro exI)
  qed (use that lw in \<open>simp add: text_wf_def\<close>)
  have col: "M (Some (ed\<lparr>cursor_x := i\<rparr>))" if "i \<le> l_len (lines ed ! cursor_y ed)" for i
    using both[OF y(1) that] by simp
  have same: "M (Some ed)" using col[OF y(2)] by simp
  have "M (move_key ed key)"
    using y by (cases key) (simp_all add: move_key_def line_at_Some clip both col same clip0)
  then show ?thesis by (simp add: M_def)
qed

lemma editor_move_cursor_run:
  assumes "text_wf ed"
  obtains ed' where "editor_move_cursor ed key = Some ed'" "moved ed ed'"
proof -
  obtain x y where "move_key ed key = Some (ed\<lparr>cursor_x := x, cursor_y := y\<rparr>)" "text_wf (ed\<lparr>cursor_x := x, cursor_y := y\<rparr>)"
    using move_key_run[OF assms] by blast
  then show thesis
    by (intro that[of "editor_scroll_to_cursor (ed\<lparr>cursor_x := x, cursor_y := y\<rparr>)"])
      (auto simp: editor_move_cursor_def moved_def scroll_visible)
qed

section \<open>Commands\<close>

datatype command = Insert u8 | Newline | Backspace | Delete | Undo | Redo | Move special_key

fun perform :: "command \<Rightarrow> editor \<Rightarrow> 'a heap_scheme \<Rightarrow> (editor \<times> 'a heap_scheme) option" where
  "perform (Insert c) ed s = editor_insert_char ed c s"
| "perform Newline ed s = editor_insert_newline ed s"
| "perform Backspace ed s = editor_delete_backward ed s"
| "perform Delete ed s = editor_delete_forward ed s"
| "perform Undo ed s = editor_undo ed s"
| "perform Redo ed s = editor_redo ed s"
| "perform (Move key) ed s = map_option (\<lambda>ed. (ed, s)) (editor_move_cursor ed key)"

fun performs :: "command list \<Rightarrow> editor \<Rightarrow> 'a heap_scheme \<Rightarrow> (editor \<times> 'a heap_scheme) option" where
  "performs [] ed s = Some (ed, s)"
| "performs (c # cs) ed s = do { (ed, s) \<leftarrow> perform c ed s; performs cs ed s }"

text \<open>What each command may do; only edits that allocate a line or more may fail.\<close>

fun does :: "command \<Rightarrow> editor \<Rightarrow> editor \<Rightarrow> bool" where
  "does (Insert c) ed ed' = edited True (doc_insert c) ed ed'"
| "does Newline ed ed' = edited True doc_newline ed ed'"
| "does Backspace ed ed' = edited (cursor_x ed = 0) doc_backspace ed ed'"
| "does Delete ed ed' = edited (cursor_x ed = l_len (lines ed ! cursor_y ed)) doc_delete ed ed'"
| "does Undo ed ed' = undone ed ed'"
| "does Redo ed ed' = redone ed ed'"
| "does (Move key) ed ed' = moved ed ed'"

lemma perform_run:
  assumes "owns heap_ok R (ed_own ed) s" "ed_wf ed"
  shows "returns (perform c ed s) (\<lambda>(ed', s'). does c ed ed' \<and> ed_wf ed' \<and> mine R (ed_own ed') s s')"
proof (cases c)
  case (Move key)
  obtain ed' where m: "editor_move_cursor ed key = Some ed'" "moved ed ed'"
    using editor_move_cursor_run[of ed key] assms(2) by (auto simp: ed_wf_def)
  then have "stacks_wf ed'" "ed_own ed' = ed_own ed" "text_wf ed'"
    using assms(2) by (auto simp: moved_def ed_wf_def, simp add: ed_own_def)
  then show ?thesis using m mine_start[OF assms(1)] by (simp add: Move ed_wf_def)
qed (simp_all add: editor_insert_char_run[OF assms] editor_insert_newline_run[OF assms] editor_delete_backward_run[OF assms]
  editor_delete_forward_run[OF assms] editor_undo_run[OF assms] editor_redo_run[OF assms])

lemma performs_run:
  assumes "mine R (ed_own ed) s0 s" "ed_wf ed"
  shows "returns (performs cs ed s) (\<lambda>(ed', s'). ed_wf ed' \<and> mine R (ed_own ed') s0 s')"
  using assms
proof (induction cs arbitrary: ed s)
  case (Cons c cs)
  show ?case
    unfolding performs.simps returns_bind
  proof (rule returns_mono[OF perform_run[OF mine_owns[OF Cons.prems(1)] Cons.prems(2), of c]], goal_cases)
    case (1 r)
    then show ?case using Cons.IH[of "fst r" "snd r"] mine_trans[OF Cons.prems(1)] by (cases r) simp
  qed
qed simp

section \<open>Creating and freeing an editor\<close>

lemma editor_init_returns:
  assumes m: "mine R P s0 s"
    and fail: "\<And>s'. mine R P s0 s' \<Longrightarrow> Q (ed\<lparr>lines_ptr := 0, lines := []\<rparr>, s')"
    and no_undo: "\<And>ed' s'. lines_ptr ed' \<noteq> 0 \<Longrightarrow> undo_ptr ed' = 0 \<Longrightarrow> redo_ptr ed' = 0 \<Longrightarrow> filename_ptr ed' = 0 \<Longrightarrow>
      text_wf ed' \<Longrightarrow> mine R (text_own ed' + P) s0 s' \<Longrightarrow> Q (ed', s')"
    and got: "\<And>ed' s'. lines_ptr ed' \<noteq> 0 \<Longrightarrow> filename_ptr ed' = 0 \<Longrightarrow> ed_wf ed' \<Longrightarrow> doc_of ed' = ([[]], 0, 0) \<Longrightarrow> undo_stack ed' = [] \<Longrightarrow> redo_stack ed' = [] \<Longrightarrow>
      \<not> modified ed' \<Longrightarrow> mine R (ed_own ed' + P) s0 s' \<Longrightarrow> Q (ed', s')"
  shows "returns (editor_init ed s) Q"
  unfolding editor_init_def returns_bind
proof (rule kmalloc_returns[OF m], goal_cases)
  case 1
  show ?case using fail[OF m] by simp
next
  case (2 p s1)
  have n: "unat (of_nat sizeof_line :: u32) = sizeof_line" by (simp add: sizeof_line_def)
  have m1: "mine R (add_mset (p, sizeof_line) P) s0 s1" using 2(2) n by simp
  show ?case
    unfolding prod.case if_not_P[OF 2(1)] returns_bind
  proof (rule new_object_returns[OF m1], goal_cases)
    case (2 b)
    show ?case
      unfolding prod.case if_P[OF refl] returns_bind
      by (rule kfree_returns[OF m1]) (simp add: fail)
  next
    case (3 d buf s2)
    define l where "l = \<lparr>l_data = d, l_buf = [0], l_len = 0, l_cap = 1\<rparr>"
    have l: "line_wf l" "line_own l = {#(d, 1)#}" "text_of l = []" "l_len l = 0"
      using 3(1) by (simp_all add: l_def line_wf_def line_own_def text_of_def)
    have put: "put_bytes 0 [0] buf = Some [0]" using 3(3) by (cases buf) (simp_all add: put_bytes_def)
    let ?ed = "ed\<lparr>lines_ptr := p, lines := [l], cursor_x := 0, cursor_y := 0, scroll_x := 0, scroll_y := 0,
      filename_ptr := 0, filename := [], modified := False, file_ends_with_newline := False\<rparr>"
    let ?full = "\<lambda>u r. ?ed\<lparr>undo_ptr := u, redo_ptr := r, undo_stack := [], redo_stack := []\<rparr>"
    have own: "text_own (?full u r) = {#(p, sizeof_line), (d, 1)#}" for u r using l by (simp add: text_own_def)
    have m2: "mine R (text_own (?full u r) + P) s0 s2" for u r unfolding own using 3(2) by (simp add: add_mset_commute)
    have wf: "text_wf (?full u r)" for u r using l by (simp add: text_wf_def)
    have sz: "unat (of_nat (MAX_UNDO_LEVELS * sizeof_editor_state) :: u32) = MAX_UNDO_LEVELS * sizeof_editor_state"
      by (simp add: MAX_UNDO_LEVELS_def sizeof_editor_state_def)
    have none: "Q (?full 0 0, s')" if "mine R (text_own (?full 0 0) + P) s0 s'" for s'
      by (rule no_undo) (use 2 that wf in simp_all)
    show ?case
      unfolding prod.case if_not_P[OF 3(1)] put bind.bind_lunit Let_def l_def[symmetric] returns_bind
    proof (rule kmalloc_returns[OF m2[of 0 0]], goal_cases)
      case 1
      show ?case
        unfolding prod.case returns_bind
      proof (rule kmalloc_returns[OF m2[of 0 0]], goal_cases)
        case 1
        show ?case using none[OF m2] by simp
      next
        case (2 r s4)
        have "returns (kfree r s4) (\<lambda>s. Q (?full 0 0, s))" by (rule kfree_returns[OF 2(2)]) (rule none)
        then show ?case using 2(1) by (simp add: returns_bind)
      qed
    next
      case (2 u s3)
      show ?case
        unfolding prod.case returns_bind
      proof (rule kmalloc_returns[OF 2(2)], goal_cases)
        case 1
        have "returns (kfree u s3) (\<lambda>s. Q (?full 0 0, s))" by (rule kfree_returns[OF 2(2)]) (rule none)
        then show ?case using 2(1) by (simp add: returns_bind)
      next
        case (2 r s4)
        have "mine R (ed_own (?full u r) + P) s0 s4"
          unfolding ed_own_def own using 2(2)[unfolded own sz] by (simp add: rest_own_def add_mset_commute)
        moreover have "ed_wf (?full u r)" using wf 2(1) \<open>u \<noteq> 0\<close> by (simp add: ed_wf_def stacks_wf_def)
        moreover have "doc_of (?full u r) = ([[]], 0, 0)" using l by (simp add: doc_of_def)
        ultimately have "Q (?full u r, s4)" by (intro got) (use \<open>p \<noteq> 0\<close> in simp_all)
        then show ?case using 2(1) \<open>u \<noteq> 0\<close> by simp
      qed
    qed
  qed simp
qed

text \<open>Freeing gives every object back; a stack that could not be allocated is left alone.\<close>

lemma free_stack_of_returns:
  assumes m: "mine R (states_own stack + (add_mset (ptr, n) P)) s0 s" and wf: "\<forall>st \<in> set stack. state_wf st"
    and freed: "\<And>s'. mine R P s0 s' \<Longrightarrow> Q s'"
  shows "returns (free_stack_of ptr stack s) Q"
proof -
  have "ptr \<noteq> 0" by (rule owned_not_0[of R ptr n "states_own stack + P" s0 s]) (use m in simp)
  moreover have "returns (undo_stack_clear stack s) (\<lambda>(_, s). returns (kfree ptr s) Q)"
    by (rule clear_returns[OF m wf]) (simp, rule kfree_returns, assumption, rule freed)
  ultimately show ?thesis by (simp add: free_stack_of_def returns_bind case_prod_unfold)
qed

lemma free_text_returns:
  assumes m: "mine R (text_own ed + P) s0 s" and wf: "text_wf ed" and freed: "\<And>s'. mine R P s0 s' \<Longrightarrow> Q s'"
  shows "returns (do { s \<leftarrow> free_lines (lines ed) s; kfree (lines_ptr ed) s }) Q"
proof -
  have m': "mine R (lines_own (lines ed) + add_mset (lines_ptr ed, num_lines ed * sizeof_line) P) s0 s"
    using m by (simp add: text_own_def)
  show ?thesis
    unfolding returns_bind
    by (rule free_lines_returns[OF m']) (use wf in \<open>simp add: text_wf_def\<close>, rule kfree_returns, assumption, rule freed)
qed

lemma lines_ptr_owned: "mine R (text_own ed + P) s0 s \<Longrightarrow> lines_ptr ed \<noteq> 0"
  by (rule owned_not_0[of R _ "num_lines ed * sizeof_line" "lines_own (lines ed) + P" s0 s]) (simp add: text_own_def)

lemma editor_free_returns:
  assumes m: "mine R (ed_own ed + P) s0 s" and wf: "ed_wf ed"
  shows "returns (editor_free ed s) (\<lambda>(ed', s'). mine R P s0 s' \<and> lines_ptr ed' = 0)"
proof -
  have wf1: "text_wf ed" "stacks_wf ed" using wf by (simp_all add: ed_wf_def)
  let ?u = "states_own (undo_stack ed) + {#(undo_ptr ed, MAX_UNDO_LEVELS * sizeof_editor_state)#}"
    and ?r = "states_own (redo_stack ed) + {#(redo_ptr ed, MAX_UNDO_LEVELS * sizeof_editor_state)#}"
    and ?f = "if filename_ptr ed = 0 then {#} else {#(filename_ptr ed, length (filename ed) + 1)#}"
  have m': "mine R (text_own ed + (?f + (?u + (?r + P)))) s0 s" using m by (simp add: ed_own_def rest_own_def ac_simps add_mset_commute)
  show ?thesis
    unfolding editor_free_def returns_bind if_P[OF lines_ptr_owned[OF m']]
  proof (rule free_text_returns[OF m' wf1(1), unfolded returns_bind], goal_cases)
    case (1 s1)
    have stacks: "returns (free_stack_of (undo_ptr ed) (undo_stack ed) s) (\<lambda>s. returns (free_stack_of (redo_ptr ed) (redo_stack ed) s) (mine R P s0))"
      if "mine R (?u + (?r + P)) s0 s" for s
    proof (rule free_stack_of_returns[where P = "?r + P" and n = "MAX_UNDO_LEVELS * sizeof_editor_state" and R = R and ?s0.0 = s0], goal_cases)
      case 1
      show ?case using that by (simp add: ac_simps add_mset_commute)
    next
      case (3 s')
      show ?case
        by (rule free_stack_of_returns[where P = P and n = "MAX_UNDO_LEVELS * sizeof_editor_state" and R = R and ?s0.0 = s0]) (use 3 wf1 in \<open>simp_all add: stacks_wf_def\<close>)
    qed (use wf1 in \<open>simp add: stacks_wf_def\<close>)
    have name: "returns (if filename_ptr ed \<noteq> 0 then kfree (filename_ptr ed) s1 else Some s1) (mine R (?u + (?r + P)) s0)"
    proof (cases "filename_ptr ed = 0")
      case False
      have "mine R (add_mset (filename_ptr ed, length (filename ed) + 1) (?u + (?r + P))) s0 s1" using 1 False by (simp add: add_mset_commute)
      then have "returns (kfree (filename_ptr ed) s1) (mine R (?u + (?r + P)) s0)" by (rule kfree_returns)
      then show ?thesis using False by simp
    qed (use 1 in simp)
    show ?case
      by (rule returns_mono[OF name], rule returns_mono[OF stacks], assumption, erule returns_mono) simp
  qed
qed

lemma editor_free_text_returns:
  assumes m: "mine R (text_own ed + P) s0 s" and wf: "text_wf ed" and no: "undo_ptr ed = 0" "redo_ptr ed = 0" "filename_ptr ed = 0"
  shows "returns (editor_free ed s) (\<lambda>(ed', s'). mine R P s0 s' \<and> lines_ptr ed' = 0)"
  unfolding editor_free_def returns_bind if_P[OF lines_ptr_owned[OF m]]
  by (rule free_text_returns[OF m wf, unfolded returns_bind]) (simp add: no free_stack_of_def)

section \<open>A fresh editor\<close>

text \<open>On a heap with few small allocations there is memory for one.\<close>

definition roomy :: "nat \<Rightarrow> owned \<Rightarrow> 'a heap_scheme \<Rightarrow> bool" where
  "roomy k P s \<longleftrightarrow> (\<exists>U. heap_ok s U \<and> own_map Map.empty P U \<and> finite (dom U) \<and> card (dom U) \<le> k \<and> (\<forall>q d. U q = Some d \<longrightarrow> d + 16 \<le> 2 ^ 13))"

lemma roomy_owns: "roomy k P s \<Longrightarrow> owns heap_ok Map.empty P s"
  by (auto simp: roomy_def owns_def)

lemma kmalloc_roomy:
  assumes r: "roomy k P s" "k < 500" and sz: "sz \<noteq> 0" "unat sz \<le> 4000"
  obtains p s' where "kmalloc sz s = Some (p, s')" "p \<noteq> 0" "roomy (Suc k) (add_mset (p, unat sz) P) s'"
proof -
  obtain U where U: "heap_ok s U" "own_map Map.empty P U" "finite (dom U)" "card (dom U) \<le> k" "\<And>q d. U q = Some d \<Longrightarrow> d + 16 \<le> 2 ^ 13"
    using r(1) by (auto simp: roomy_def)
  have card: "card (dom U) < 2 ^ (22 - 13)" using U(4) r(2) by simp
  have fit: "unat sz + 32 \<le> 2 ^ 13" using sz(2) by simp
  obtain p s' c where m: "kmalloc sz s = Some (p, s')" "p \<noteq> 0" "U p = None" "unat sz \<le> c" "c \<le> 2 * unat sz + 30" "heap_ok s' (U(p \<mapsto> c))"
    by (rule kmalloc_room[OF U(1) _ U(3) card U(5) sz(1) fit]) simp_all
  have "card (dom (U(p \<mapsto> c))) \<le> Suc k" using U(3,4) by (simp add: card_insert_if)
  moreover have "q = p \<and> d = c \<or> U q = Some d" if "(U(p \<mapsto> c)) q = Some d" for q d using that by (auto split: if_splits)
  then have "\<forall>q d. (U(p \<mapsto> c)) q = Some d \<longrightarrow> d + 16 \<le> 2 ^ 13" using U(5) m(5) sz(2) by fastforce
  ultimately have "roomy (Suc k) (add_mset (p, unat sz) P) s'"
    using own_map_add[OF U(2) m(3,2,4)] m(6) U(3) unfolding roomy_def by (intro exI[of _ "U(p \<mapsto> c)"]) (simp only: finite_insert dom_fun_upd simp_thms option.distinct if_False)
  then show thesis using that m(1,2) by blast
qed

lemma new_object_roomy:
  assumes "roomy k P s" "k < 500" "0 < n" "n \<le> 4000"
  obtains p buf s' where "new_object n s = Some (p, buf, s')" "p \<noteq> 0" "length buf = n" "roomy (Suc k) (add_mset (p, n) P) s'"
proof -
  have n: "unat (of_nat n :: u32) = n" using assms(4) by (intro unat_of_nat_small) simp
  then have "(of_nat n :: u32) \<noteq> 0" using assms(3) by (metis neq0_conv unat_0)
  with kmalloc_roomy[OF assms(1,2), of "of_nat n"] n assms(4) obtain p s' where
    "kmalloc (of_nat n) s = Some (p, s')" "p \<noteq> 0" "roomy (Suc k) (add_mset (p, n) P) s'" by metis
  then show thesis by (intro that[of p "bytes_at (hmem s') p n" s']) (simp_all add: new_object_def n)
qed

lemma fresh_editor:
  obtains h1 ed s where "kmalloc_init boot_heap = Some h1" "editor_init ed0 h1 = Some (ed, s)" "roomy 4 (ed_own ed) s"
    "ed_wf ed" "doc_of ed = ([[]], 0, 0)" "undo_stack ed = []" "redo_stack ed = []"
proof -
  obtain h1 where h1: "kmalloc_init boot_heap = Some h1" "heap_ok h1 (\<lambda>_. None)"
    by (rule kmalloc_init_ok)
  have "own_map Map.empty {#} Map.empty" by (simp add: own_map_def)
  then have r0: "roomy 0 {#} h1" using h1(2) by (auto simp: roomy_def)
  obtain p s1 where 1: "kmalloc (of_nat sizeof_line) h1 = Some (p, s1)" "p \<noteq> 0" "roomy (Suc 0) {#(p, sizeof_line)#} s1"
    by (rule kmalloc_roomy[OF r0, of "of_nat sizeof_line"]) (simp_all add: sizeof_line_def)
  obtain d b s2 where 2: "new_object 1 s1 = Some (d, b, s2)" "d \<noteq> 0" "length b = 1" "roomy (Suc (Suc 0)) {#(d, 1), (p, sizeof_line)#} s2"
    by (rule new_object_roomy[OF 1(3), of 1]) simp_all
  let ?n = "MAX_UNDO_LEVELS * sizeof_editor_state"
  have n: "(of_nat ?n :: u32) \<noteq> 0" "unat (of_nat ?n :: u32) = ?n" "?n \<le> 4000" by (simp_all add: MAX_UNDO_LEVELS_def sizeof_editor_state_def)
  obtain u s3 where 3: "kmalloc (of_nat ?n) s2 = Some (u, s3)" "u \<noteq> 0" "roomy (Suc (Suc (Suc 0))) {#(u, ?n), (d, 1), (p, sizeof_line)#} s3"
    by (rule kmalloc_roomy[OF 2(4) _ n(1)]) (use n in simp_all)
  obtain r s4 where 4: "kmalloc (of_nat ?n) s3 = Some (r, s4)" "r \<noteq> 0" "roomy (Suc (Suc (Suc (Suc 0)))) {#(r, ?n), (u, ?n), (d, 1), (p, sizeof_line)#} s4"
    by (rule kmalloc_roomy[OF 3(3) _ n(1)]) (use n in simp_all)
  have put: "put_bytes 0 [0] b = Some [0]" using 2(3) by (cases b) (simp_all add: put_bytes_def)
  define l where "l = \<lparr>l_data = d, l_buf = [0], l_len = 0, l_cap = 1\<rparr>"
  define ed where "ed = ed0\<lparr>lines_ptr := p, lines := [l], cursor_x := 0, cursor_y := 0, scroll_x := 0, scroll_y := 0,
    filename_ptr := 0, filename := [], modified := False, file_ends_with_newline := False, undo_ptr := u, redo_ptr := r, undo_stack := [], redo_stack := []\<rparr>"
  have init: "editor_init ed0 h1 = Some (ed, s4)"
    using 1 2 3(1,2) 4(1,2) put by (simp add: editor_init_def ed_def l_def)
  have l: "line_wf l" "line_own l = {#(d, 1)#}" "text_of l = []" "l_len l = 0"
    using 2(2) by (simp_all add: l_def line_wf_def line_own_def text_of_def)
  have "roomy 4 (ed_own ed) s4"
    using 4(3) l by (simp add: ed_own_def text_own_def rest_own_def ed_def ac_simps add_mset_commute numeral_eq_Suc)
  moreover have "ed_wf ed" using l 3(2) 4(2) by (simp add: ed_wf_def text_wf_def stacks_wf_def ed_def)
  ultimately show thesis using h1(1) init l by (intro that[of h1 ed s4]) (simp_all add: ed_def doc_of_def)
qed

section \<open>The properties\<close>







end
