(* ===== verification/Editor_Files.thy ===== *)
theory Editor_Files
  imports Editor_Session
begin

text \<open>
  Reading a file into lines and writing lines back: what \<open>editor_parse_buffer\<close> makes of the bytes of a
  file, and that \<open>editor_save\<close> writes the same bytes again. The carriage returns are excepted, as the
  test for them looks at the wrong place.
\<close>

section \<open>Writing\<close>

fun file_bytes :: "u8 list list \<Rightarrow> bool \<Rightarrow> u8 list" where
  "file_bytes [] ends = []"
| "file_bytes (l # ls) ends = l @ (if ls \<noteq> [] \<or> ends then [NL] else []) @ file_bytes ls ends"

definition joined :: "u8 list list \<Rightarrow> u8 list" where
  "joined ls = concat (map (\<lambda>l. l @ [NL]) ls)"

lemma file_bytes_joined: "file_bytes ls True = joined ls" "ls \<noteq> [] \<Longrightarrow> file_bytes ls False @ [NL] = joined ls"
  by (induction ls) (auto simp: joined_def)

lemma take_prefix: "take k xs = ys \<Longrightarrow> j \<le> k \<Longrightarrow> take j xs = take j ys"
  by (auto simp: min_def)

lemma save_lines_bytes:
  assumes "\<forall>l \<in> set ls. line_wf l" "pos + length (file_bytes (map text_of ls) ends) \<le> length buf"
  shows "\<exists>buf'. save_lines ls ends pos buf = Some (pos + length (file_bytes (map text_of ls) ends), buf') \<and>
    take (pos + length (file_bytes (map text_of ls) ends)) buf' = take pos buf @ file_bytes (map text_of ls) ends \<and> length buf' = length buf"
  using assms
proof (induction ls arbitrary: pos buf)
  case (Cons l ls)
  let ?t = "text_of l" and ?rest = "file_bytes (map text_of ls) ends"
  let ?nl = "if ls \<noteq> [] \<or> ends then [NL] else []"
  have l: "line_wf l" "length ?t = l_len l" "l_len l \<le> length (l_buf l)" using Cons.prems(1) by (simp_all add: line_wf_def)
  have get: "get_bytes 0 (l_len l) (l_buf l) = Some ?t" using l(3) by (simp add: text_of_def)
  have fits: "pos + length ?t + length ?nl + length ?rest \<le> length buf" using Cons.prems(2) by (simp split: if_splits)
  let ?b1 = "take pos buf @ ?t @ drop (pos + length ?t) buf"
  let ?b2 = "take pos buf @ ?t @ ?nl @ drop (pos + length ?t + length ?nl) buf"
  have put1: "put_bytes pos ?t buf = Some ?b1" using fits by simp
  have put2: "(if ls \<noteq> [] \<or> ends then do { buf \<leftarrow> put_bytes (pos + l_len l) [NL] ?b1; Some (pos + l_len l + 1, buf) } else Some (pos + l_len l, ?b1)) =
      Some (pos + length ?t + length ?nl, ?b2)"
    using fits l(2) by (cases "ls \<noteq> [] \<or> ends") (simp_all only: if_True if_False, simp_all add: put_bytes_def)
  have "pos + length ?t + length ?nl + length ?rest \<le> length ?b2" using fits by simp
  from Cons.IH[OF _ this] obtain buf' where buf': "save_lines ls ends (pos + length ?t + length ?nl) ?b2 =
      Some (pos + length ?t + length ?nl + length ?rest, buf')"
    "take (pos + length ?t + length ?nl + length ?rest) buf' = take (pos + length ?t + length ?nl) ?b2 @ ?rest" "length buf' = length ?b2"
    using Cons.prems(1) by auto
  have "take (pos + length ?t + length ?nl) ?b2 = take pos buf @ ?t @ ?nl" using fits by simp
  moreover have "save_lines (l # ls) ends pos buf = Some (pos + length ?t + length ?nl + length ?rest, buf')"
    unfolding save_lines.simps get bind.bind_lunit put1 Let_def put2 prod.case buf'(1) ..
  ultimately show ?case using buf'(2,3) fits by (auto simp: add.assoc)
qed simp

section \<open>Parsing\<close>

text \<open>The editor while it is being filled: the array may not exist yet.\<close>

definition parse_own :: "editor \<Rightarrow> owned" where
  "parse_own ed = (if lines_ptr ed = 0 then {#} else text_own ed)"

definition parse_wf :: "editor \<Rightarrow> bool" where
  "parse_wf ed \<longleftrightarrow> (\<forall>l \<in> set (lines ed). line_wf l) \<and> (lines_ptr ed = 0 \<longrightarrow> lines ed = [])"

abbreviation texts :: "editor \<Rightarrow> u8 list list" where "texts ed \<equiv> map text_of (lines ed)"

lemma append_line_returns:
  assumes m: "mine R (parse_own ed + P) s0 s" and wf: "parse_wf ed" and bs: "length bs < 2 ^ 31"
    and fail: "\<And>ed' s'. mine R (parse_own ed' + P) s0 s' \<Longrightarrow> parse_wf ed' \<Longrightarrow> Q (False, ed', s')"
    and got: "\<And>l p s'. p \<noteq> 0 \<Longrightarrow> line_wf l \<Longrightarrow> text_of l = bs \<Longrightarrow> mine R (parse_own (ed\<lparr>lines_ptr := p, lines := lines ed @ [l]\<rparr>) + P) s0 s' \<Longrightarrow>
      Q (True, ed\<lparr>lines_ptr := p, lines := lines ed @ [l]\<rparr>, s')"
  shows "returns (append_line ed bs s) Q"
proof -
  have small: "num_lines ed * sizeof_line \<le> 2 ^ 22"
  proof (cases "lines_ptr ed = 0")
    case False
    then show ?thesis using text_small(1)[OF m, of ed] wf by (simp add: parse_own_def parse_wf_def)
  qed (use wf in \<open>simp add: parse_wf_def\<close>)
  have n: "unat (of_nat ((num_lines ed + 1) * sizeof_line) :: u32) = (num_lines ed + 1) * sizeof_line"
    by (rule unat_of_nat_small) (use small in \<open>simp add: sizeof_line_def\<close>)
  show ?thesis
    unfolding append_line_def returns_bind
  proof (rule kmalloc_returns[OF m], goal_cases)
    case 1
    show ?case using fail[OF m wf] by simp
  next
    case (2 p s1)
    let ?ed = "ed\<lparr>lines_ptr := p\<rparr>" and ?arr = "(num_lines ed + 1) * sizeof_line"
    have m1: "mine R (add_mset (p, ?arr) (parse_own ed + P)) s0 s1" using 2(2) n by simp
    have freed: "returns (if lines_ptr ed \<noteq> 0 then kfree (lines_ptr ed) s1 else Some s1) (mine R (add_mset (p, ?arr) (lines_own (lines ed) + P)) s0)"
    proof (cases "lines_ptr ed = 0")
      case False
      then have "mine R (add_mset (lines_ptr ed, num_lines ed * sizeof_line) (add_mset (p, ?arr) (lines_own (lines ed) + P))) s0 s1"
        using m1 by (simp add: parse_own_def text_own_def add_mset_commute)
      then show ?thesis using False by (auto intro: kfree_returns)
    qed (use m1 wf in \<open>simp add: parse_own_def parse_wf_def\<close>)
    show ?case
      unfolding prod.case if_not_P[OF 2(1)] returns_bind
    proof (rule returns_mono[OF freed], goal_cases)
      case (1 s2)
      have b: "length bs + 1 < 2 ^ 32" using bs by simp
      show ?case
        unfolding Let_def returns_bind
      proof (rule new_object_returns[OF 1 b], goal_cases)
        case (1 b)
        have "mine R (add_mset (p, num_lines ed * sizeof_line) (lines_own (lines ed) + P)) s0 s2"
          by (rule mine_shrink[OF \<open>mine R _ s0 s2\<close>]) (simp add: sizeof_line_def)
        then show ?case using fail[of ?ed s2] \<open>p \<noteq> 0\<close> wf by (simp add: parse_own_def text_own_def parse_wf_def)
      next
        case (2 d buf s3)
        let ?l = "\<lparr>l_data = d, l_buf = bs @ [0], l_len = length bs, l_cap = length bs + 1\<rparr>"
        have l: "line_wf ?l" "text_of ?l = bs" "line_own ?l = {#(d, length bs + 1)#}"
          using 2(1) by (simp_all add: line_wf_def text_of_def line_own_def)
        have put: "put_bytes 0 bs buf = Some (bs @ drop (length bs) buf)" using 2(3) by simp
        have "length (drop (length bs) buf) = 1" using 2(3) by simp
        then obtain x where "drop (length bs) buf = [x]" by (metis One_nat_def length_0_conv length_Suc_conv)
        then have put2: "put_bytes (length bs) [0] (bs @ drop (length bs) buf) = Some (bs @ [0])" by (simp add: put_bytes_def)
        have "mine R (parse_own (ed\<lparr>lines_ptr := p, lines := lines ed @ [?l]\<rparr>) + P) s0 s3"
          using 2(2) \<open>p \<noteq> 0\<close> l(3) by (simp add: parse_own_def text_own_def add_mset_commute ac_simps)
        from got[OF \<open>p \<noteq> 0\<close> l(1,2) this]
        show ?case unfolding prod.case if_not_P[OF 2(1)] put put2 bind.bind_lunit by simp
      qed
    qed
  qed
qed

lemma no_cr_length:
  assumes "start \<le> i" "i \<le> length buf" "CR \<notin> set buf"
  shows "line_length buf start i = Some (i - start)"
proof (cases "start < i")
  case True
  let ?k = "i - start - 1"
  have "?k < length buf" using True assms(2) by simp
  moreover from this have "buf ! ?k \<in> set buf" by (rule nth_mem)
  then have "buf ! ?k \<noteq> CR" using assms(3) by metis
  ultimately have "get_bytes ?k 1 buf = Some [buf ! ?k]" "buf ! ?k \<noteq> CR"
    by (simp_all add: Cons_nth_drop_Suc[symmetric])
  then show ?thesis using True by (simp add: line_length_def Let_def)
qed (use assms in \<open>simp add: line_length_def\<close>)

lemma joined_snoc: "joined (ls @ [l]) = joined ls @ l @ [NL]"
  by (simp add: joined_def)

lemma parse_lines_returns:
  assumes stop: "stop \<le> length buf" "length buf < 2 ^ 31" "CR \<notin> set buf"
    and fail: "\<And>ed' s'. mine R (parse_own ed' + P) s0 s' \<Longrightarrow> parse_wf ed' \<Longrightarrow> Q (False, ed', s')"
    and got: "\<And>ed' s'. mine R (parse_own ed' + P) s0 s' \<Longrightarrow> parse_wf ed' \<Longrightarrow> joined (texts ed') = take stop buf @ [NL] \<Longrightarrow> Q (True, ed', s')"
  shows "mine R (parse_own ed + P) s0 s \<Longrightarrow> parse_wf ed \<Longrightarrow> start \<le> i \<Longrightarrow> i \<le> stop \<or> start = Suc stop \<Longrightarrow>
    joined (texts ed) = take start (take stop buf @ [NL]) \<Longrightarrow> returns (parse_lines buf stop i start ed s) Q"
proof (induction "Suc stop - i" arbitrary: i start ed s rule: less_induct)
  case less
  show ?case
  proof (cases "stop < i")
    case True
    then have "start = Suc stop" using less.prems(4) by simp
    then have "joined (texts ed) = take stop buf @ [NL]" using stop(1) less.prems(5) by simp
    then show ?thesis using True got less.prems(1,2) by (simp add: parse_lines.simps)
  next
    case False
    then have i: "i \<le> stop" "start \<le> i" "Suc stop - Suc i < Suc stop - i" using less.prems(3) by simp_all
    let ?here = "if i = stop then Some True else do { b \<leftarrow> get_bytes i 1 buf; Some (b = [NL]) }"
    have e: "?here = Some (i = stop \<or> buf ! i = NL)"
      using i stop(1) by (auto simp: take_Suc_conv_app_nth Cons_nth_drop_Suc[symmetric])
    show ?thesis
    proof (cases "i = stop \<or> buf ! i = NL")
      case True
      let ?bs = "take (i - start) (drop start buf)"
      have len: "line_length buf start i = Some (i - start)" using i stop by (intro no_cr_length) simp_all
      have get: "get_bytes start (i - start) buf = Some ?bs" using i stop(1) by simp
      have small: "length ?bs < 2 ^ 31" using stop(2) by simp
      have "take (Suc i) (take stop buf @ [NL]) = take i (take stop buf @ [NL]) @ [(take stop buf @ [NL]) ! i]"
        using i stop(1) by (intro take_Suc_conv_app_nth) simp
      also have "(take stop buf @ [NL]) ! i = NL" using True i stop(1) by (cases "i = stop") (simp_all add: nth_append)
      also have "take i (take stop buf @ [NL]) = take start (take stop buf @ [NL]) @ ?bs"
        using i stop(1) take_add[of start "i - start" buf] by (simp add: min_def)
      finally have step: "joined (texts ed @ [?bs]) = take (Suc i) (take stop buf @ [NL])"
        using less.prems(5) by (simp add: joined_snoc)
      have e': "?here = Some True" using e True by simp
      have run: "parse_lines buf stop i start ed s = do {
          (ok, ed, s) \<leftarrow> append_line ed ?bs s;
          if ok then parse_lines buf stop (i + 1) (i + 1) ed s else Some (False, ed, s) }"
        by (subst parse_lines.simps) (simp only: False if_False e' bind.bind_lunit if_True len get)
      show ?thesis
        unfolding run returns_bind
      proof (rule append_line_returns[OF less.prems(1,2) small], goal_cases)
        case (1 ed' s')
        then show ?case using fail by simp
      next
        case (2 l p s')
        have "returns (parse_lines buf stop (Suc i) (Suc i) (ed\<lparr>lines_ptr := p, lines := lines ed @ [l]\<rparr>) s') Q"
          by (rule less.hyps[OF i(3) 2(4)]) (use 2 less.prems(2) i step in \<open>auto simp: parse_wf_def\<close>)
        then show ?case by simp
      qed
    next
      case no: False
      then have "returns (parse_lines buf stop (Suc i) start ed s) Q"
        using less.prems i by (intro less.hyps[OF i(3)]) auto
      moreover have "parse_lines buf stop i start ed s = parse_lines buf stop (i + 1) start ed s"
        by (subst parse_lines.simps) (use no e in \<open>simp only: False if_False bind.bind_lunit\<close>)
      ultimately show ?thesis by simp
    qed
  qed
qed

lemma parse_returns:
  assumes m: "mine R P s0 s" and len: "len \<le> length buf" "length buf < 2 ^ 31" "CR \<notin> set buf"
    and fail: "\<And>ed' s'. mine R (parse_own ed' + P) s0 s' \<Longrightarrow> Q (False, ed', s')"
    and got: "\<And>ed' s'. mine R (text_own ed' + P) s0 s' \<Longrightarrow> lines_ptr ed' \<noteq> 0 \<Longrightarrow> \<forall>l \<in> set (lines ed'). line_wf l \<Longrightarrow>
      file_bytes (texts ed') (file_ends_with_newline ed') = take len buf \<Longrightarrow> Q (True, ed', s')"
    and ends: "ends = (len > 0 \<and> buf ! (len - 1) = NL)"
  shows "returns (editor_parse_buffer ed buf len ends s) Q"
proof -
  let ?stop = "if len > 0 \<and> buf ! (len - 1) = NL then len - 1 else len"
  have bytes: "file_bytes ls ends = take len buf" if "joined ls = take ?stop buf @ [NL]" for ls
  proof (cases ends)
    case True
    then have "len > 0" "buf ! (len - 1) = NL" using ends by auto
    then have "take len buf = take (len - 1) buf @ [NL]" using take_Suc_conv_app_nth[of "len - 1" buf] len(1) by simp
    then show ?thesis using True ends that file_bytes_joined(1) by auto
  next
    case False
    then have stop: "?stop = len" using ends by auto
    have ne: "ls \<noteq> []" using that by (auto simp: joined_def)
    have "ends = False" using False by simp
    then show ?thesis using file_bytes_joined(2)[OF ne] that unfolding stop by simp
  qed
  let ?ed = "ed\<lparr>lines_ptr := 0, lines := []\<rparr>"
  show ?thesis
    unfolding editor_parse_buffer_def Let_def returns_bind
  proof (rule parse_lines_returns[OF _ len(2,3), where P = P and R = R and ?s0.0 = s0], goal_cases)
    case (2 ed' s')
    then show ?case using fail by simp
  next
    case (3 ed' s')
    have ne: "lines ed' \<noteq> []" using 3(3) by (auto simp: joined_def)
    then have "lines_ptr ed' \<noteq> 0" using 3(2) by (auto simp: parse_wf_def)
    moreover have "mine R (text_own (ed'\<lparr>file_ends_with_newline := ends\<rparr>) + P) s0 s'"
      using 3(1) calculation by (simp add: parse_own_def text_own_def)
    moreover have "\<forall>l \<in> set (lines ed'). line_wf l" using 3(2) by (simp add: parse_wf_def)
    ultimately show ?case using ne got[of "ed'\<lparr>file_ends_with_newline := ends\<rparr>" s'] bytes[OF 3(3)] by simp
  qed (use m len in \<open>auto simp: parse_own_def parse_wf_def joined_def\<close>)
qed

section \<open>The properties\<close>

text \<open>C31: Opening a file and saving it unchanged writes the same bytes: for every file without carriage
  returns, if memory suffices to parse it, \<open>editor_save\<close>'s loop over the lines rebuilds the bytes exactly,
  with or without a newline at the end, for an empty file, and with empty lines.\<close>

theorem editor_reopen_roundtrip:
  assumes "owns heap_ok R P s" "length bytes < 2 ^ 30" "CR \<notin> set bytes"
  shows "\<exists>ok ed' s'. editor_parse_buffer ed (bytes @ [0]) (length bytes) (bytes \<noteq> [] \<and> last bytes = NL) s = Some (ok, ed', s') \<and>
    (ok \<longrightarrow> owns heap_ok R (text_own ed' + P) s' \<and>
      (\<forall>buf. length bytes < length buf \<longrightarrow> (\<exists>buf'. save_lines (lines ed') (file_ends_with_newline ed') 0 buf = Some (length bytes, buf') \<and>
        take (length bytes) buf' = bytes)))"
proof -
  have "returns (editor_parse_buffer ed (bytes @ [0]) (length bytes) (bytes \<noteq> [] \<and> last bytes = NL) s) (\<lambda>(ok, ed', s'). ok \<longrightarrow>
      owns heap_ok R (text_own ed' + P) s' \<and> (\<forall>buf. length bytes < length buf \<longrightarrow>
        (\<exists>buf'. save_lines (lines ed') (file_ends_with_newline ed') 0 buf = Some (length bytes, buf') \<and> take (length bytes) buf' = bytes)))"
  proof (rule parse_returns[OF mine_start[OF assms(1)]], goal_cases)
    case (5 ed' s')
    then have bytes: "file_bytes (texts ed') (file_ends_with_newline ed') = bytes" by simp
    have "\<exists>buf'. save_lines (lines ed') (file_ends_with_newline ed') 0 buf = Some (length bytes, buf') \<and> take (length bytes) buf' = bytes"
      if "length bytes < length buf" for buf
      using save_lines_bytes[OF 5(3), of 0 "file_ends_with_newline ed'" buf] that unfolding bytes by auto
    then show ?case using mine_owns[OF 5(1)] by simp
  next
    case 6
    show ?case by (cases bytes rule: rev_cases) (simp_all add: nth_append)
  qed (use assms(2,3) in auto)
  then show ?thesis by (auto simp: returns_def)
qed

text \<open>With a carriage return at the wrong place a character is lost: the second line of this file is ''bc''.\<close>

lemma parse_drops_character:
  "let buf = [0x61, CR, NL, 0x62, 0x63, NL] :: u8 list in line_length buf 3 5 = Some 1 \<and> get_bytes 3 1 buf = Some [0x62]"
  by (simp add: line_length_def get_bytes_def)

theorem editor_reopen_roundtrip_witness:
  "\<exists>(s :: heap) ok ed' s'. editor_parse_buffer undefined [0x61, NL, NL, 0x62, 0] 4 False s = Some (ok, ed', s') \<and>
    (ok \<longrightarrow> (\<exists>buf'. save_lines (lines ed') (file_ends_with_newline ed') 0 (replicate 10 0) = Some (4, buf') \<and> take 4 buf' = [0x61, NL, NL, 0x62]))"
proof -
  obtain h1 :: heap where h1: "kmalloc_init boot_heap = Some h1" "heap_ok h1 (\<lambda>_. None)"
    by (rule kmalloc_init_ok)
  then have "owns heap_ok Map.empty {#} h1" by (auto simp: owns_def own_map_def)
  note run = editor_reopen_roundtrip[OF this, of "[0x61, NL, NL, 0x62]" undefined]
  have app: "[0x61, NL, NL, 0x62] @ [0] = [0x61, NL, NL, 0x62, 0 :: u8]" and len: "length [0x61, NL, NL, 0x62 :: u8] = 4"
    and l: "([0x61, NL, NL, 0x62] \<noteq> [] \<and> last [0x61, NL, NL, 0x62] = NL) = False" by simp_all
  have "length [0x61, NL, NL, 0x62 :: u8] < 2 ^ 30" "CR \<notin> set [0x61, NL, NL, 0x62]" by simp_all
  from run[OF this] obtain ok ed' s' where r: "editor_parse_buffer undefined [0x61, NL, NL, 0x62, 0] 4 False h1 = Some (ok, ed', s')"
    "ok \<longrightarrow> (\<forall>buf. 4 < length buf \<longrightarrow> (\<exists>buf'. save_lines (lines ed') (file_ends_with_newline ed') 0 buf = Some (4, buf') \<and> take 4 buf' = [0x61, NL, NL, 0x62]))"
    unfolding app len l by blast
  have "4 < length (replicate 10 (0 :: u8))" by simp
  with r show ?thesis by blast
qed

end
