(* ===== verification/Editor_Run.thy ===== *)
theory Editor_Run
  imports Editor
begin

text \<open>
  The interactive part of \<open>snake/snake.c\<close>: what it draws, how it reads keys from the driver, its
  prompts and its main loop. Drawing is a sequence of console events: cells of the video memory and
  moves of the cursor. A loop that waits for a key ends only if one is typed, so the loops are partial
  functions.
\<close>

section \<open>Drawing\<close>

definition cell_entry :: "u8 \<Rightarrow> u8 \<Rightarrow> u16" where
  "cell_entry c attr = ucast c OR push_bit 8 (ucast attr)"

abbreviation put_cursor :: "int \<Rightarrow> int \<Rightarrow> 'a machine_scheme \<Rightarrow> 'a machine_scheme" where
  "put_cursor x y \<equiv> con (Set_cursor_position x y)"

definition screen_clear :: "'a machine_scheme \<Rightarrow> 'a machine_scheme" where
  "screen_clear s = put_cursor 0 0 (fold (\<lambda>i. con (Vga_cell (int i) (cell_entry 0x20 0x07))) [0..<80 * 25] s)"

definition screen_putc :: "int \<Rightarrow> int \<Rightarrow> u8 \<Rightarrow> u8 \<Rightarrow> 'a machine_scheme \<Rightarrow> 'a machine_scheme" where
  "screen_putc x y c attr s =
     (if x < 0 \<or> x \<ge> 80 \<or> y < 0 \<or> y \<ge> 25 then s else con (Vga_cell (y * 80 + x) (cell_entry c attr)) s)"

definition screen_set_cursor :: "int \<Rightarrow> int \<Rightarrow> 'a machine_scheme \<Rightarrow> 'a machine_scheme" where
  "screen_set_cursor x y = put_cursor x y"

fun screen_print_string :: "int \<Rightarrow> int \<Rightarrow> string \<Rightarrow> u8 \<Rightarrow> 'a machine_scheme \<Rightarrow> 'a machine_scheme" where
  "screen_print_string x y [] attr s = s"
| "screen_print_string x y (c # cs) attr s =
     (let s = screen_putc x y (of_char c) attr s
      in if x + 1 \<ge> 80 then s else screen_print_string (x + 1) y cs attr s)"

definition decimal :: "int \<Rightarrow> string" where
  "decimal v = snd (int_to_str v)"

text \<open>The status line: as many characters as fit, and blanks.\<close>

definition status_line :: "editor \<Rightarrow> string" where
  "status_line ed =
     (let text = take 80 (if filename_ptr ed \<noteq> 0 then filename ed else ''[No Name]'');
          text = (if modified ed then take 80 (text @ ''*'') else text);
          text = take 80 (text @ decimal (int (cursor_y ed) + 1));
          text = take 80 (text @ '':'');
          text = take 80 (text @ decimal (int (cursor_x ed) + 1))
      in text @ replicate (80 - length text) (CHR '' ''))"

definition draw_line :: "editor \<Rightarrow> nat \<Rightarrow> 'a machine_scheme \<Rightarrow> 'a machine_scheme option" where
  "draw_line ed y s = do {
     line \<leftarrow> line_at ed y;
     let start = min (scroll_x ed) (l_len line);
     let n = min 80 (l_len line - start);
     bs \<leftarrow> get_bytes start n (l_buf line);
     Some (fold (\<lambda>i. screen_putc (int i) (int (y - scroll_y ed)) (bs ! i) 0x07) [0..<n] s) }"

fun draw_lines :: "editor \<Rightarrow> nat list \<Rightarrow> 'a machine_scheme \<Rightarrow> 'a machine_scheme option" where
  "draw_lines ed [] s = Some s"
| "draw_lines ed (y # ys) s = do { s \<leftarrow> draw_line ed y s; draw_lines ed ys s }"

definition editor_render :: "editor \<Rightarrow> 'a machine_scheme \<Rightarrow> 'a machine_scheme option" where
  "editor_render ed s = do {
     let s = screen_clear s;
     s \<leftarrow> draw_lines ed [scroll_y ed..<min (scroll_y ed + TEXT_HEIGHT) (num_lines ed)] s;
     let status = status_line ed;
     let s = fold (\<lambda>x. screen_putc (int x) 24 (of_char (status ! x)) 0x70) [0..<80] s;
     Some (screen_set_cursor (int (cursor_x ed) - int (scroll_x ed)) (int (cursor_y ed) - int (scroll_y ed)) s) }"

section \<open>Keys\<close>

text \<open>\<open>while (!keyboard_has_char()) sti; hlt\<close>.\<close>

partial_function (option) wait_char :: "'a tty_scheme \<Rightarrow> 'a tty_scheme option" where
  "wait_char s = (let (ready, s) = poll_has_char s in if ready then Some s else wait_char (sti s))"

fun wait_timeout :: "nat \<Rightarrow> 'a tty_scheme \<Rightarrow> 'a tty_scheme" where
  "wait_timeout timeout s =
     (let (ready, s) = poll_has_char s
      in if ready then s else case timeout of 0 \<Rightarrow> s | Suc t \<Rightarrow> wait_timeout t s)"

declare wait_timeout.simps [simp del]

definition final_key :: "u8 \<Rightarrow> special_key option" where
  "final_key c =
     (if c = 0x41 then Some KEY_UP else if c = 0x42 then Some KEY_DOWN else if c = 0x43 then Some KEY_RIGHT
      else if c = 0x44 then Some KEY_LEFT else if c = 0x48 then Some KEY_HOME else if c = 0x46 then Some KEY_END else None)"

definition tilde_key :: "u8 \<Rightarrow> special_key option" where
  "tilde_key c =
     (if c = 0x33 then Some KEY_DELETE else if c = 0x35 then Some KEY_PAGEUP else if c = 0x36 then Some KEY_PAGEDOWN
      else if c = 0x31 \<or> c = 0x37 then Some KEY_HOME else if c = 0x34 \<or> c = 0x38 then Some KEY_END else None)"

text \<open>Behind an escape character; \<open>None\<close> where the loop of \<open>kbd_read_event\<close> starts over.\<close>

definition escape_key :: "'a tty_scheme \<Rightarrow> special_key option \<times> 'a tty_scheme" where
  "escape_key s =
     (let (ready, s) = poll_has_char s
      in if \<not> ready then (Some KEY_ESC, s)
         else let (c1, s) = read_char s
           in if c1 \<noteq> 0x5B then (None, s)
              else let s = wait_timeout 100000 s; (ready, s) = poll_has_char s
                in if \<not> ready then (None, s)
                   else let (c2, s) = read_char s
                     in if final_key c2 \<noteq> None then (final_key c2, s)
                        else if 0x31 \<le> c2 \<and> c2 \<le> 0x39 then
                          (let s = wait_timeout 100000 s; (ready, s) = poll_has_char s
                           in if \<not> ready then (None, s)
                              else let (c3, s) = read_char s in (if c3 = 0x7E then tilde_key c2 else None, s))
                        else (None, s))"

definition plain_key :: "u8 \<Rightarrow> key_event" where
  "plain_key c =
     (if c = 0x08 \<or> c = 0x7F then KEY_SPECIAL KEY_BACKSPACE
      else if c = 0x0A \<or> c = 0x0D then KEY_SPECIAL KEY_ENTER
      else KEY_CHAR c)"

partial_function (option) kbd_read_event :: "'a tty_scheme \<Rightarrow> (key_event \<times> 'a tty_scheme) option" where
  "kbd_read_event s = do {
     s \<leftarrow> wait_char s;
     let (c, s) = read_char s;
     if c = 0x1B then
       (case escape_key s of (Some k, s) \<Rightarrow> Some (KEY_SPECIAL k, s) | (None, s) \<Rightarrow> kbd_read_event s)
     else Some (plain_key c, s) }"

section \<open>Prompts\<close>

partial_function (option) prompt_loop :: "nat \<Rightarrow> string \<Rightarrow> 'a tty_scheme \<Rightarrow> (string option \<times> 'a tty_scheme) option" where
  "prompt_loop buf_size buf s = do {
     (ev, s) \<leftarrow> kbd_read_event s;
     let pos = length buf;
     case ev of
       KEY_SPECIAL k \<Rightarrow>
         (if k = KEY_ENTER then Some (if pos > 0 then Some buf else None, s)
          else if k = KEY_ESC then Some (None, s)
          else if k = KEY_BACKSPACE \<and> pos > 0 then
            prompt_loop buf_size (butlast buf) (put_cursor (11 + int (pos - 1)) 0 (screen_putc (11 + int (pos - 1)) 0 0x20 0x0F s))
          else prompt_loop buf_size buf s)
     | KEY_CHAR c \<Rightarrow>
         (if 32 \<le> c \<and> c < 127 \<and> pos < buf_size - 1 then
            prompt_loop buf_size (buf @ [char_of (unat c)]) (put_cursor (11 + int (pos + 1)) 0 (screen_putc (11 + int pos) 0 c 0x0F s))
          else prompt_loop buf_size buf s) }"

definition editor_prompt_filename :: "nat \<Rightarrow> 'a tty_scheme \<Rightarrow> (string option \<times> 'a tty_scheme) option" where
  "editor_prompt_filename buf_size s =
     prompt_loop buf_size [] (put_cursor 11 0 (screen_print_string 0 0 ''Open file: '' 0x0F (screen_clear s)))"

partial_function (option) confirm_loop :: "'a tty_scheme \<Rightarrow> (bool \<times> 'a tty_scheme) option" where
  "confirm_loop s = do {
     (ev, s) \<leftarrow> kbd_read_event s;
     if ev = KEY_CHAR 0x79 \<or> ev = KEY_CHAR 0x59 then Some (True, screen_clear s)
     else if ev = KEY_CHAR 0x6E \<or> ev = KEY_CHAR 0x4E then Some (False, s)
     else confirm_loop s }"

definition editor_confirm_save :: "'a tty_scheme \<Rightarrow> (bool \<times> 'a tty_scheme) option" where
  "editor_confirm_save s =
     (let msg = ''Unsaved changes. Save? (Y/N)''
      in confirm_loop (put_cursor (int (length msg)) 12 (screen_print_string 0 12 msg 0x0F (screen_clear s))))"

section \<open>The main loop\<close>

text \<open>A message that stays until the next key.\<close>

definition error_screen :: "string \<Rightarrow> 'a tty_scheme \<Rightarrow> 'a tty_scheme option" where
  "error_screen msg s = map_option snd (kbd_read_event (screen_print_string 0 0 msg 0x0F s))"

definition save_key :: "string \<Rightarrow> editor \<Rightarrow> 'a tty_scheme \<Rightarrow> (editor \<times> 'a tty_scheme) option" where
  "save_key junk ed s = do {
     (ok, ed, s) \<leftarrow> editor_save junk ed s;
     if ok then Some (ed, s)
     else do { s \<leftarrow> error_screen ''Error saving file'' (screen_clear s); Some (ed, s) }}"

text \<open>Ctrl+Q: whether the editor goes on.\<close>

definition quit_key :: "string \<Rightarrow> editor \<Rightarrow> 'a tty_scheme \<Rightarrow> (bool \<times> editor \<times> 'a tty_scheme) option" where
  "quit_key junk ed s =
     (if \<not> modified ed then Some (False, ed, con Clear_screen s)
      else do {
        (save_choice, s) \<leftarrow> editor_confirm_save s;
        if \<not> save_choice then Some (False, ed, con Clear_screen s)
        else do {
          (ok, ed, s) \<leftarrow> editor_save junk ed s;
          if ok then Some (False, ed, con Clear_screen s)
          else do { s \<leftarrow> error_screen ''Error saving file'' (con Clear_screen s); Some (True, ed, s) }}})"

definition open_key :: "string \<Rightarrow> editor \<Rightarrow> editor \<Rightarrow> 'a tty_scheme \<Rightarrow> (editor \<times> 'a tty_scheme) option" where
  "open_key junk new_ed ed s = do {
     (name, s) \<leftarrow> editor_prompt_filename MAX_PATH_LEN s;
     case name of
       None \<Rightarrow> Some (ed, s)
     | Some pathname \<Rightarrow> do {
         (ok, ed, s) \<leftarrow> editor_load junk new_ed ed pathname s;
         if ok then Some (ed, s)
         else do { s \<leftarrow> error_screen ''Error opening file'' (screen_clear s); Some (ed, s) }}}"

text \<open>One event; \<open>junk\<close> and \<open>new_ed\<close> are what the stack holds in \<open>vfs_resolve_path\<close> and \<open>editor_load\<close>.\<close>

definition char_event :: "string \<Rightarrow> editor \<Rightarrow> u8 \<Rightarrow> editor \<Rightarrow> 'a tty_scheme \<Rightarrow> (bool \<times> editor \<times> 'a tty_scheme) option" where
  "char_event junk new_ed c ed s =
     (if c = 17 then quit_key junk ed s
      else map_option (Pair True)
        (if c = 26 then editor_undo ed s
         else if c = 25 then editor_redo ed s
         else if c = 15 then open_key junk new_ed ed s
         else if c = 19 then save_key junk ed s
         else if c = 0x0D \<or> c = 0x0A then editor_insert_newline ed s
         else if c = 0x09 then editor_insert_char ed 0x09 s
         else if 32 \<le> c \<and> c < 127 then editor_insert_char ed c s
         else Some (ed, s)))"

definition special_event :: "string \<Rightarrow> special_key \<Rightarrow> editor \<Rightarrow> 'a tty_scheme \<Rightarrow> (bool \<times> editor \<times> 'a tty_scheme) option" where
  "special_event junk key ed s =
     (if key = KEY_QUIT then Some (False, ed, s)
      else map_option (Pair True)
        (if key \<in> {KEY_UP, KEY_DOWN, KEY_LEFT, KEY_RIGHT, KEY_HOME, KEY_END, KEY_PAGEUP, KEY_PAGEDOWN}
         then map_option (\<lambda>ed. (ed, s)) (editor_move_cursor ed key)
         else if key = KEY_BACKSPACE then editor_delete_backward ed s
         else if key = KEY_DELETE then editor_delete_forward ed s
         else if key = KEY_ENTER then editor_insert_newline ed s
         else if key = KEY_SAVE then save_key junk ed s
         else Some (ed, s)))"

partial_function (option) editor_run :: "string \<Rightarrow> editor \<Rightarrow> editor \<Rightarrow> 'a tty_scheme \<Rightarrow> (editor \<times> 'a tty_scheme) option" where
  "editor_run junk new_ed ed s = do {
     s \<leftarrow> editor_render ed s;
     (ev, s) \<leftarrow> kbd_read_event s;
     (running, ed, s) \<leftarrow> (case ev of KEY_CHAR c \<Rightarrow> char_event junk new_ed c ed s | KEY_SPECIAL k \<Rightarrow> special_event junk k ed s);
     if running then editor_run junk new_ed ed s else Some (ed, s) }"

declare wait_char.simps [code] kbd_read_event.simps [code] prompt_loop.simps [code] confirm_loop.simps [code]
  editor_run.simps [code]

end
