(* ===== verification/Shell.thy ===== *)
theory Shell
  imports Line_Edit Editor_Run Multiboot Shutdown Task Rtc Screen
begin

text \<open>
  The commands of the shell, \<open>kernel/shell.c\<close>. They call the file system, the heap and the keyboard,
  whose state the shell's extends, and the page allocator, the boot memory map, the shutdown timer and
  the tasks, whose variables are parts of the shell's state beside it: a routine of these runs on
  the machine and its own part. A machine that stops for good is a left summand with the state it stops
  in; \<open>None\<close> is an access outside an object, to a freed one, or a wait that never ends.
\<close>

section \<open>State\<close>

record shell = line_edit +
  shell_cwd :: u32
  sd_default_secs :: u32
  sh_mem :: "unit multiboot_ext vmm_ext pmm_ext" \<comment> \<open>the variables of pmm.c, vmm.c and multiboot.c\<close>
  sh_down :: "unit shutdown_ext timers_ext" \<comment> \<open>those of pit.c, timer.c and shutdown.c\<close>
  sh_tasks :: "unit tasking_ext" \<comment> \<open>those of task.c\<close>
  sh_cr0 :: u32
  sh_cr3 :: u32

text \<open>What the stack holds below a command: the characters behind an unterminated number, the address of
  the buffer of \<open>cat\<close>, and the uninitialised editors of \<open>sn\<close> and \<open>editor_load\<close>.\<close>

record stack =
  junk :: string
  cat_buf :: u32
  sn_editor :: editor
  load_editor :: editor

definition memory_part :: "'a shell_scheme \<Rightarrow> multiboot" where
  "memory_part s = machine.extend (machine.truncate s) (sh_mem s)"

definition timer_part :: "'a shell_scheme \<Rightarrow> shutdown" where
  "timer_part s = machine.extend (machine.truncate s) (sh_down s)"

definition tasks_part :: "'a shell_scheme \<Rightarrow> tasking" where
  "tasks_part s = heap.extend (heap.truncate s) (sh_tasks s)"

text \<open>Back from a routine: the machine is as it left it.\<close>

definition set_machine :: "'b machine_scheme \<Rightarrow> 'a machine_scheme \<Rightarrow> 'a machine_scheme" where
  "set_machine k s = machine.extend (machine.truncate k) (machine.more s)"

definition put_memory :: "multiboot \<Rightarrow> 'a shell_scheme \<Rightarrow> 'a shell_scheme" where
  "put_memory k s = (set_machine k s)\<lparr>sh_mem := machine.more k\<rparr>"

definition put_timers :: "shutdown \<Rightarrow> 'a shell_scheme \<Rightarrow> 'a shell_scheme" where
  "put_timers k s = (set_machine k s)\<lparr>sh_down := machine.more k\<rparr>"

section \<open>Numbers and paths\<close>

abbreviation println :: "string \<Rightarrow> 'a machine_scheme \<Rightarrow> 'a machine_scheme" where
  "println t \<equiv> viprint (t @ newline)"

definition uint_text :: "u32 \<Rightarrow> string" where
  "uint_text n = (if n = 0 then ''0'' else rev (utoa_digits n 10))"

definition print_uint :: "u32 \<Rightarrow> 'a machine_scheme \<Rightarrow> 'a machine_scheme" where
  "print_uint n = viprint (uint_text n)"

definition hex_value :: "char \<Rightarrow> u32 option" where
  "hex_value c =
     (let n = of_char c :: nat
      in if 48 \<le> n \<and> n \<le> 57 then Some (of_nat (n - 48))
         else if 97 \<le> n \<and> n \<le> 102 then Some (of_nat (n - 97 + 10))
         else if 65 \<le> n \<and> n \<le> 70 then Some (of_nat (n - 65 + 10)) else None)"

fun hex_loop :: "string \<Rightarrow> u32 \<Rightarrow> u32 option" where
  "hex_loop [] val = Some val"
| "hex_loop (c # s) val = Option.bind (hex_value c) (\<lambda>d. hex_loop s (push_bit 4 val OR d))"

definition parse_hex :: "string \<Rightarrow> 'a machine_scheme \<Rightarrow> u32 option \<times> 'a machine_scheme" where
  "parse_hex t s =
     (let t = (if take 2 t = ''0x'' \<or> take 2 t = ''0X'' then drop 2 t else t)
      in if t = [] then (None, s)
         else case hex_loop t 0 of None \<Rightarrow> (None, println ''Error: invalid hex character.'' s) | Some v \<Rightarrow> (Some v, s))"

definition digit_value :: "char \<Rightarrow> u32 option" where
  "digit_value c = (let n = of_char c :: nat in if 48 \<le> n \<and> n \<le> 57 then Some (of_nat (n - 48)) else None)"

fun dec_loop :: "string \<Rightarrow> u32 \<Rightarrow> u32 option" where
  "dec_loop [] v = Some v"
| "dec_loop (c # s) v = Option.bind (digit_value c) (\<lambda>d. dec_loop s (v * 10 + d))"

definition parse_u32 :: "string \<Rightarrow> u32 option" where
  "parse_u32 t = (if t = [] then None else dec_loop t 0)"

definition parse_dec :: "string \<Rightarrow> 'a machine_scheme \<Rightarrow> u32 option \<times> 'a machine_scheme" where
  "parse_dec t s =
     (if t = [] then (None, s)
      else case dec_loop t 0 of None \<Rightarrow> (None, println ''Error: expected decimal number.'' s) | Some v \<Rightarrow> (Some v, s))"

definition debug_int_state :: "string \<Rightarrow> 'a machine_scheme \<Rightarrow> 'a machine_scheme" where
  "debug_int_state msg s =
     (if iflag s then viprint msg (println ''%s: interrupts ENABLED'' s)
      else viprint msg (println ''%s: interrupts DISABLED'' s))"

partial_function (option) print_path :: "u32 \<Rightarrow> 'a ramfs_scheme \<Rightarrow> 'a ramfs_scheme option" where
  "print_path node s =
     (if node = 0 then Some (viprint ''/'' s)
      else Option.bind (vnodes s node) (\<lambda>n.
        if n_parent n = 0 then Some (viprint ''/'' s)
        else Option.bind (print_path (n_parent n) s) (\<lambda>s.
          Option.bind (vnodes s (n_parent n)) (\<lambda>p.
            let s = (if n_parent p \<noteq> 0 then viprint ''/'' s else s)
            in Some (viprint (n_name n) s)))))"

declare print_path.simps [code]

section \<open>Simple commands\<close>

definition shell_init :: "'a shell_scheme \<Rightarrow> 'a shell_scheme" where
  "shell_init s =
     (let s = s\<lparr>cmd_len := 0, cmd_pos := 0, history_index := - 1, esc_state := ESC_NONE, shell_cwd := ramfs_get_root s\<rparr>;
          s = (if shell_cwd s \<noteq> 0 then ramfs_set_cwd (shell_cwd s) s else s);
          s = viprint (newline @ ''CobraOS Shell v'') (con Clear_screen s);
          s = print_uint 4 (con (Cprint 0x2E) (print_uint 0 s));
          s = viprint (newline @ ''Type '' @ [CHR 0x27] @ ''help'' @ [CHR 0x27] @ '' for available commands.'' @ newline) s
      in viprint PROMPT s)"

definition help_lines :: "string list" where
  "help_lines =
     [''CobraOS Shell commands:'',
      ''  help      - Show this message'',
      ''  ls        - List files in current directory'',
      ''  cat       - Print file contents'',
      ''  mkdir     - Create a new directory'',
      ''  rm        - Remove a file'',
      ''  sn        - Open a file with the file editor'',
      ''  cd        - Change directory'',
      ''  version   - Show kernel version'',
      ''  clear     - Clear the screen'',
      ''  date      - Show current date'',
      ''  time      - Show current time'',
      ''  echo ...  - Print arguments to screen'',
      ''  ticks     - Show raw PIT tick count'',
      ''  uptime    - Show uptime in seconds'',
      ''  timer ... - Schedule a shutdown (see '' @ [CHR 0x27] @ ''timer status'' @ [CHR 0x27] @ '')'',
      ''  tasks     - List all tasks and their states'',
      ''  shutdown  - Halt the CPU'',
      ''  reboot    - Reset via keyboard controller'',
      ''  memmap    - Display memory map from bootloader'',
      ''  alloc     - Allocate one physical page (PMM)'',
      ''  free <x>  - Free a physical page at hex address'',
      ''  freecount - Show number of free physical pages'',
      ''  kalloc <n>- Allocate n bytes from kernel heap'',
      ''  kfree <x> - Free a kernel heap pointer at hex address'',
      ''  kheapinfo - Show kernel heap start and current top'',
      ''  paging    - Show CR0 paging status'',
      ''  history   - Show command history'']"

definition cmd_help :: "'a shell_scheme \<Rightarrow> 'a shell_scheme" where
  "cmd_help s = fold println help_lines s"

definition cmd_clear :: "'a shell_scheme \<Rightarrow> 'a shell_scheme" where
  "cmd_clear s = con Clear_screen s"

definition cmd_echo :: "string \<Rightarrow> 'a shell_scheme \<Rightarrow> 'a shell_scheme" where
  "cmd_echo args s = viprint newline (viprint args s)"

definition cmd_ticks :: "'a shell_scheme \<Rightarrow> 'a shell_scheme" where
  "cmd_ticks s = viprint newline (print_uint (tick_count (timer_part s)) (viprint ''Ticks: '' s))"

definition cmd_uptime :: "'a shell_scheme \<Rightarrow> 'a shell_scheme" where
  "cmd_uptime s =
     (let seconds = tick_count (timer_part s) div 100; minutes = seconds div 60; hours = minutes div 60;
          s = viprint ''h '' (print_uint hours (viprint ''Uptime: '' s));
          s = viprint ''m '' (print_uint (minutes mod 60) s)
      in println ''s'' (print_uint (seconds mod 60) s))"

definition cmd_version :: "'a shell_scheme \<Rightarrow> 'a shell_scheme" where
  "cmd_version s =
     println '' (x86 32-bit, freestanding)'' (print_uint 4 (con (Cprint 0x2E) (print_uint 0 (viprint ''CobraOS kernel v'' s))))"

text \<open>Both end with the machine stopped.\<close>

definition cmd_shutdown :: "'a shell_scheme \<Rightarrow> 'a shell_scheme" where
  "cmd_shutdown s = cli (println ''System halting. Goodbye.'' s)"

partial_function (option) wait_input_empty :: "'a machine_scheme \<Rightarrow> 'a machine_scheme option" where
  "wait_input_empty s = (let (v, s) = inb 0x64 s in if v AND 2 \<noteq> 0 then wait_input_empty s else Some s)"

declare wait_input_empty.simps [code]

definition cmd_reboot :: "'a shell_scheme \<Rightarrow> 'a shell_scheme option" where
  "cmd_reboot s = map_option (outb 0x64 0xFE) (wait_input_empty (cli (println ''Rebooting...'' s)))"

definition cmd_memmap :: "'a shell_scheme \<Rightarrow> 'a shell_scheme option" where
  "cmd_memmap s = map_option (\<lambda>k. put_memory k s) (print_memory_map (memory_part s))"

definition cmd_alloc :: "'a shell_scheme \<Rightarrow> 'a shell_scheme option" where
  "cmd_alloc s =
     (case pmm_alloc_page (memory_part s) of
        Inl _ \<Rightarrow> None
      | Inr (page, k) \<Rightarrow>
          let s = put_memory k s
          in Some (if page \<noteq> 0 then hexprint page (viprint ''Allocated physical page at: '' s)
                   else println ''PMM: no free pages available.'' s))"

definition cmd_pfree :: "string \<Rightarrow> 'a shell_scheme \<Rightarrow> 'a shell_scheme option" where
  "cmd_pfree args s =
     (case parse_hex args s of
        (None, s) \<Rightarrow> Some (println ''Usage: free <hex_addr>'' s)
      | (Some addr, s) \<Rightarrow>
          (case pmm_free_page addr (memory_part s) of
             Inl _ \<Rightarrow> None
           | Inr k \<Rightarrow> Some (hexprint addr (viprint ''Freed physical page at: '' (put_memory k s)))))"

definition cmd_freecount :: "'a shell_scheme \<Rightarrow> 'a shell_scheme" where
  "cmd_freecount s =
     viprint newline (print_uint (pmm_get_free_page_count (memory_part s)) (viprint ''Free physical pages: '' s))"

definition history_line :: "nat \<Rightarrow> 'a shell_scheme \<Rightarrow> 'a shell_scheme" where
  "history_line i s =
     viprint newline (viprint (history s ! (i mod HISTORY_SIZE)) (viprint ''  '' (print_uint (of_nat (i + 1)) (viprint ''  '' s))))"

definition cmd_history :: "'a shell_scheme \<Rightarrow> 'a shell_scheme" where
  "cmd_history s =
     (if history_count s = 0 then println ''No history yet.'' s
      else
        let start = (if history_count s > HISTORY_SIZE then history_count s - HISTORY_SIZE else 0)
        in fold history_line [start..<history_count s] (println ''Command history:'' s))"

definition cmd_paging :: "'a shell_scheme \<Rightarrow> 'a shell_scheme" where
  "cmd_paging s =
     (let s = hexprint (sh_cr0 s) (viprint ''CR0: '' s);
          s = hexprint (sh_cr3 s) (viprint ''CR3: '' s)
      in if sh_cr0 s AND 0x80000000 \<noteq> 0 then println ''Paging: enabled'' s else println ''Paging: disabled'' s)"

definition cmd_kalloc :: "string \<Rightarrow> 'a shell_scheme \<Rightarrow> 'a shell_scheme option" where
  "cmd_kalloc args s =
     (case parse_dec args s of
        (None, s) \<Rightarrow> Some (println ''Usage: kalloc <decimal_size>'' s)
      | (Some sz, s) \<Rightarrow> map_option (\<lambda>(p, s).
          if p \<noteq> 0 then hexprint p (viprint '' bytes at: '' (print_uint sz (viprint ''Allocated '' s)))
          else println ''kmalloc: allocation failed.'' s) (kmalloc sz s))"

definition cmd_kfree :: "string \<Rightarrow> 'a shell_scheme \<Rightarrow> 'a shell_scheme option" where
  "cmd_kfree args s =
     (case parse_hex args s of
        (None, s) \<Rightarrow> Some (println ''Usage: kfree <hex_addr>'' s)
      | (Some addr, s) \<Rightarrow> map_option (\<lambda>s. hexprint addr (viprint ''Freed kernel heap pointer: '' s)) (kfree addr s))"

definition cmd_kheapinfo :: "'a shell_scheme \<Rightarrow> 'a shell_scheme" where
  "cmd_kheapinfo s =
     (let s = hexprint heap_get_start (viprint ''Heap start:   '' s)
      in hexprint (heap_get_current s) (viprint ''Heap current: '' s))"

end
