(* ===== verification/Shell_Run.thy ===== *)
theory Shell_Run
  imports Shell
begin

text \<open>
  The rest of \<open>kernel/shell.c\<close>: the commands on tasks, files, the clock and the shutdown timer, the
  dispatch of a command line, and \<open>shell_feed_char\<close>.
\<close>

section \<open>Tasks\<close>

definition task_line :: "u32 \<Rightarrow> task \<Rightarrow> 'a shell_scheme \<Rightarrow> 'a shell_scheme" where
  "task_line t n s =
     (let s = viprint ''    '' (print_uint (t_pid n) s);
          s = viprint (case t_state n of TASK_RUNNING \<Rightarrow> ''RUNNING'' | TASK_READY \<Rightarrow> ''READY'' | TASK_BLOCKED \<Rightarrow> ''BLOCKED''
                | _ \<Rightarrow> ''UNKNOWN'') s;
          s = (if t = current_task (tasks_part s) then viprint '' *'' s else s)
      in viprint newline s)"

text \<open>\<open>k\<close> is how many lines may still follow.\<close>

fun list_tasks :: "nat \<Rightarrow> u32 \<Rightarrow> 'a shell_scheme \<Rightarrow> 'a shell_scheme option" where
  "list_tasks k t s =
     Option.bind (tasks (tasks_part s) t) (\<lambda>n.
       let s = task_line t n s
       in case k of
            0 \<Rightarrow> Some s
          | Suc k \<Rightarrow> if t_next n \<noteq> 0 \<and> t_next n \<noteq> current_task (tasks_part s) then list_tasks k (t_next n) s else Some s)"

declare list_tasks.simps [simp del]

definition cmd_tasks :: "'a shell_scheme \<Rightarrow> 'a shell_scheme option" where
  "cmd_tasks s =
     (let s = println ''---  -----'' (println ''PID  STATE'' s); t = current_task (tasks_part s)
      in if t = 0 then Some (println ''No tasks.'' s) else list_tasks 63 t s)"

section \<open>Files\<close>

partial_function (option) list_children :: "u32 \<Rightarrow> 'a shell_scheme \<Rightarrow> 'a shell_scheme option" where
  "list_children child s =
     (if child = 0 then Some s
      else Option.bind (vnodes s child) (\<lambda>n.
        let s = viprint (n_name n) s;
            s = (if is_directory n then viprint ''/'' s else s)
        in list_children (n_next n) (viprint newline s)))"

definition cmd_ls :: "stack \<Rightarrow> string \<Rightarrow> 'a shell_scheme \<Rightarrow> 'a shell_scheme option" where
  "cmd_ls e args s =
     Option.bind (if args \<noteq> [] then ramfs_resolve (junk e) (Some args) s else Some (shell_cwd s, s)) (\<lambda>(dir, s).
       if dir = 0 then Some (println ''ls: directory not found.'' s)
       else Option.bind (vnodes s dir) (\<lambda>d.
         if \<not> is_directory d then Some (println ''ls: not a directory.'' s)
         else if n_children d = 0 then Some (println ''(empty)'' s)
         else list_children (n_children d) s))"

definition put_bytes_out :: "u8 list \<Rightarrow> 'a machine_scheme \<Rightarrow> 'a machine_scheme" where
  "put_bytes_out bs s = fold (\<lambda>b. con (Cprint b)) bs s"

partial_function (option) cat_loop :: "u32 \<Rightarrow> u32 \<Rightarrow> 'a shell_scheme \<Rightarrow> 'a shell_scheme option" where
  "cat_loop buf f s =
     Option.bind (ramfs_read f 256 buf s) (\<lambda>(n, s).
       if n > 0 then cat_loop buf f (put_bytes_out (bytes_at (hmem s) buf (nat n)) s) else Some s)"

definition cmd_cat :: "stack \<Rightarrow> string \<Rightarrow> 'a shell_scheme \<Rightarrow> 'a shell_scheme option" where
  "cmd_cat e args s =
     (if args = [] then Some (println ''Usage: cat <file>'' s)
      else Option.bind (ramfs_resolve (junk e) (Some args) s) (\<lambda>(node, s).
        if node = 0 then Some (println ''cat: file not found.'' s)
        else Option.bind (vnodes s node) (\<lambda>n.
          if \<not> is_file n then Some (println ''cat: not a file.'' s)
          else Option.bind (ramfs_open node O_READ s) (\<lambda>(f, s).
            if f = 0 then Some (println ''cat: failed to open file.'' s)
            else Option.bind (cat_loop (cat_buf e) f s) (\<lambda>s. ramfs_close f (viprint newline s))))))"

text \<open>Parent directory and name of the argument of \<open>mkdir\<close> and \<open>touch\<close>; \<open>None\<close> when the path is too long.\<close>

definition parent_of_path :: "stack \<Rightarrow> string \<Rightarrow> 'a shell_scheme \<Rightarrow> ((u32 \<times> string) option \<times> 'a shell_scheme) option" where
  "parent_of_path e args s =
     (if slash \<notin> set args then Some (Some (shell_cwd s, args), s)
      else
        let dir = butlast (rev (dropWhile (\<lambda>c. c \<noteq> slash) (rev args)));
            name = rev (takeWhile (\<lambda>c. c \<noteq> slash) (rev args))
        in if dir = [] then Some (Some (ramfs_get_root s, name), s)
           else if length dir \<ge> 256 then Some (None, s)
           else map_option (\<lambda>(p, s). (Some (p, name), s)) (ramfs_resolve (junk e) (Some dir) s))"

text \<open>What both do with the parent; \<open>cmd\<close> and \<open>what\<close> are the words of their messages.\<close>

definition make_node :: "string \<Rightarrow> string \<Rightarrow> u32 \<Rightarrow> u32 \<Rightarrow> string \<Rightarrow> 'a shell_scheme \<Rightarrow> (int option \<times> 'a shell_scheme) option" where
  "make_node cmd what ty parent name s =
     (if parent = 0 then Some (None, println (cmd @ '': parent directory not found.'') s)
      else Option.bind (vnodes s parent) (\<lambda>d.
        if \<not> is_directory d then Some (None, println (cmd @ '': parent is not a directory.'') s)
        else if name = [] then Some (None, println (cmd @ '': missing '' @ what @ '' name.'') s)
        else map_option (\<lambda>(r, s). (Some r, s)) (ramfs_create parent name ty s)))"

definition cmd_mkdir :: "stack \<Rightarrow> string \<Rightarrow> 'a shell_scheme \<Rightarrow> 'a shell_scheme option" where
  "cmd_mkdir e args s =
     (if args = [] then Some (println ''Usage: mkdir <path>'' s)
      else Option.bind (parent_of_path e args s) (\<lambda>(r, s). case r of
          None \<Rightarrow> Some (println ''mkdir: path too long.'' s)
        | Some (parent, name) \<Rightarrow> map_option (\<lambda>(code, s). case code of
              None \<Rightarrow> s
            | Some code \<Rightarrow> if code = 0 then println ''Directory created.'' s
                else if code = - 2 then println ''mkdir: already exists.'' s else println ''mkdir: failed.'' s)
            (make_node ''mkdir'' ''directory'' FS_DIRECTORY parent name s)))"

definition cmd_touch :: "stack \<Rightarrow> string \<Rightarrow> 'a shell_scheme \<Rightarrow> 'a shell_scheme option" where
  "cmd_touch e args s =
     (if args = [] then Some (println ''Usage: touch <file>'' s)
      else Option.bind (parent_of_path e args s) (\<lambda>(r, s). case r of
          None \<Rightarrow> Some (println ''touch: path too long.'' s)
        | Some (parent, name) \<Rightarrow> map_option (\<lambda>(code, s). case code of
              None \<Rightarrow> s
            | Some code \<Rightarrow> if code = 0 then s else if code = - 2 then s else println ''touch: failed to create file.'' s)
            (make_node ''touch'' ''file'' FS_FILE parent name s)))"

definition cmd_rm :: "stack \<Rightarrow> string \<Rightarrow> 'a shell_scheme \<Rightarrow> 'a shell_scheme option" where
  "cmd_rm e args s =
     (if args = [] then Some (println ''Usage: rm <path>'' s)
      else Option.bind (ramfs_resolve (junk e) (Some args) s) (\<lambda>(node, s).
        if node = 0 then Some (println ''rm: not found.'' s)
        else map_option (\<lambda>(code, s).
            if code = 0 then println ''Removed.'' s
            else if code = - 2 then println ''rm: directory not empty.'' s else println ''rm: failed.'' s)
          (ramfs_delete node s)))"

definition cmd_cd :: "stack \<Rightarrow> string \<Rightarrow> 'a shell_scheme \<Rightarrow> 'a shell_scheme option" where
  "cmd_cd e args s =
     Option.bind (if args = [] \<or> args = ''/'' then Some (ramfs_get_root s, s) else ramfs_resolve (junk e) (Some args) s) (\<lambda>(dir, s).
       if dir = 0 then Some (println ''cd: directory not found.'' s)
       else Option.bind (vnodes s dir) (\<lambda>d.
         if \<not> is_directory d then Some (println ''cd: not a directory.'' s)
         else Some (ramfs_set_cwd dir (s\<lparr>shell_cwd := dir\<rparr>))))"

definition cmd_pwd :: "'a shell_scheme \<Rightarrow> 'a shell_scheme option" where
  "cmd_pwd s =
     (if shell_cwd s = 0 then Some (println ''/'' s)
      else map_option (viprint newline) (print_path (shell_cwd s) s))"

definition cmd_sn :: "stack \<Rightarrow> string \<Rightarrow> 'a shell_scheme \<Rightarrow> 'a shell_scheme option" where
  "cmd_sn e args s =
     (if args = [] then Some (println ''Usage: sn <file-name>'' s)
      else
        let args = dropWhile (\<lambda>c. c = CHR '' '') args
        in if args = [] then Some (println ''Usage: sn <file-name>'' s)
           else do {
             let s = viprint args s;
             let filename = take 127 args;
             (ed, s) \<leftarrow> editor_init (sn_editor e) s;
             (ok, ed, s) \<leftarrow> editor_load (junk e) (load_editor e) ed filename s;
             if \<not> ok then do {
               let s = println ''Error: could not open file'' s;
               (_, s) \<leftarrow> editor_free ed s;
               Some s }
             else do {
               (ed, s) \<leftarrow> editor_run (junk e) (load_editor e) ed s;
               (_, s) \<leftarrow> editor_free ed s;
               Some s }})"

section \<open>The clock\<close>

definition two_digits :: "u8 \<Rightarrow> 'a machine_scheme \<Rightarrow> 'a machine_scheme" where
  "two_digits v s = print_uint (ucast v) (if v < 10 then viprint ''0'' s else s)"

definition cmd_date :: "'a shell_scheme \<Rightarrow> 'a shell_scheme option" where
  "cmd_date s = map_option (\<lambda>(dt, s).
     let s = viprint ''/'' (print_uint (ucast (month dt)) (viprint ''Date: '' s));
         s = viprint ''/'' (print_uint (ucast (day dt)) s)
     in viprint newline (print_uint (ucast (year dt)) s)) (rtc_read_datetime s)"

definition cmd_time :: "'a shell_scheme \<Rightarrow> 'a shell_scheme option" where
  "cmd_time s = map_option (\<lambda>(dt, s).
     let s = viprint '':'' (print_uint (ucast (hour dt)) (viprint ''Time: '' s))
     in viprint newline (two_digits (second dt) (viprint '':'' (two_digits (minute dt) s)))) (rtc_read_datetime s)"

section \<open>The shutdown timer\<close>

definition blank :: "char \<Rightarrow> bool" where
  "blank c \<longleftrightarrow> c = CHR '' '' \<or> c = CHR 0x09"

fun split_args :: "nat \<Rightarrow> string \<Rightarrow> string list" where
  "split_args 0 p = []"
| "split_args (Suc k) p =
     (let p = dropWhile blank p
      in if p = [] then []
         else takeWhile (\<lambda>c. \<not> blank c) p # split_args k (tl (dropWhile (\<lambda>c. \<not> blank c) p)))"

text \<open>The words of the message with spaces between them.\<close>

fun join_words :: "string list \<Rightarrow> string" where
  "join_words [] = []"
| "join_words [w] = w"
| "join_words (w # ws) = w @ '' '' @ join_words ws"

definition schedule_on :: "shutdown_mode \<Rightarrow> u32 \<Rightarrow> string option \<Rightarrow> 'a shell_scheme \<Rightarrow> 'a shell_scheme option" where
  "schedule_on mode ms msg s = map_option (\<lambda>k. put_timers k s) (schedule_shutdown mode ms msg (timer_part s))"

definition abort_hint :: string where
  "abort_hint = ''. Use '' @ [CHR 0x27] @ ''timer cancel'' @ [CHR 0x27] @ '' to abort.''"

definition timer_default :: "string list \<Rightarrow> 'a shell_scheme \<Rightarrow> 'a shell_scheme" where
  "timer_default argv s =
     (if length argv < 2 then
        println '' seconds.'' (print_uint (sd_default_secs s) (viprint ''Default shutdown: '' s))
      else case parse_u32 (argv ! 1) of
        None \<Rightarrow> println ''timer: bad default value.'' s
      | Some secs \<Rightarrow>
          if secs = 0 then println ''timer: bad default value.'' s
          else println '' seconds.'' (print_uint secs (viprint ''Default shutdown set to '' (s\<lparr>sd_default_secs := secs\<rparr>))))"

text \<open>\<open>reboot\<close> or \<open>halt\<close> as the second word.\<close>

definition mode_word :: "string list \<Rightarrow> shutdown_mode" where
  "mode_word argv =
     (if length argv \<ge> 2 \<and> argv ! 1 = ''reboot'' then SHUTDOWN_REBOOT
      else if length argv \<ge> 2 \<and> argv ! 1 = ''halt'' then SHUTDOWN_HALT
      else SHUTDOWN_POWEROFF)"

definition timer_usage :: "string \<Rightarrow> 'a shell_scheme \<Rightarrow> 'a shell_scheme" where
  "timer_usage w s =
     (let s = viprint ([CHR 0x27] @ newline) (viprint w (viprint (''timer: bad argument '' @ [CHR 0x27]) s));
          s = println ''usage: timer [<secs>] [reboot|halt] [message...]'' s;
          s = println ''       timer cancel | status | now [reboot|halt]'' s
      in println ''       timer default [secs]'' s)"

definition timer_in :: "string list \<Rightarrow> u32 \<Rightarrow> 'a shell_scheme \<Rightarrow> 'a shell_scheme option" where
  "timer_in argv secs s =
     (let mode = mode_word argv;
          msg = take 95 (join_words (drop (if mode = SHUTDOWN_POWEROFF then 1 else 2) argv))
      in map_option (\<lambda>s.
           let s = viprint ''s'' (print_uint secs (viprint ''Shutdown scheduled in '' s));
               s = (if mode = SHUTDOWN_REBOOT then viprint '' (reboot)'' s else s);
               s = (if mode = SHUTDOWN_HALT then viprint '' (halt)'' s else s)
           in println abort_hint s)
         (schedule_on mode (secs * 1000) (if msg = [] then None else Some msg) s))"

definition cmd_timer :: "string \<Rightarrow> 'a shell_scheme \<Rightarrow> 'a shell_scheme option" where
  "cmd_timer args s =
     (let argv = split_args 16 (take 255 args); k = timer_part s
      in if argv = [] then
           map_option (\<lambda>s.
             let secs = sd_default_secs s;
                 s = viprint '' min '' (print_uint (secs div 60) (viprint ''Shutdown scheduled in '' s))
             in println (CHR ''s'' # abort_hint) (print_uint (secs mod 60) s))
             (schedule_on SHUTDOWN_POWEROFF (sd_default_secs s * 1000) (Some ''default shutdown'') s)
         else if hd argv = ''cancel'' then
           (if \<not> shutdown_is_pending k then Some (println ''No shutdown pending.'' s)
            else map_option (\<lambda>k. println ''Shutdown cancelled.'' (put_timers k s)) (cancel_shutdown k))
         else if hd argv = ''status'' then
           (if \<not> shutdown_is_pending k then Some (println ''No shutdown scheduled.'' s)
            else case shutdown_remaining_ms k of
              Inl _ \<Rightarrow> None
            | Inr ms \<Rightarrow> Some (println '' seconds remaining.'' (print_uint (ms div 1000) (viprint ''Shutdown pending, '' s))))
         else if hd argv = ''default'' then Some (timer_default argv s)
         else if hd argv = ''now'' then schedule_on (mode_word argv) 0 (Some ''immediate shutdown'') s
         else case parse_u32 (hd argv) of
           None \<Rightarrow> Some (timer_usage (hd argv) s)
         | Some secs \<Rightarrow> timer_in argv secs s)"

section \<open>Command lines\<close>

definition unknown_command :: "string \<Rightarrow> 'a shell_scheme \<Rightarrow> 'a shell_scheme" where
  "unknown_command cmd s =
     viprint ([CHR 0x27] @ ''. Type '' @ [CHR 0x27] @ ''help'' @ [CHR 0x27] @ '' for a list.'' @ newline)
       (viprint cmd (viprint (''Unknown command: '' @ [CHR 0x27]) s))"

text \<open>The commands that return, and the two that stop the machine.\<close>

definition run_command :: "stack \<Rightarrow> string \<Rightarrow> string \<Rightarrow> 'a shell_scheme \<Rightarrow> 'a shell_scheme option" where
  "run_command e cmd args s =
     (if cmd = ''help'' then Some (cmd_help s)
      else if cmd = ''clear'' then Some (cmd_clear s)
      else if cmd = ''echo'' then Some (cmd_echo args s)
      else if cmd = ''ticks'' then Some (cmd_ticks s)
      else if cmd = ''uptime'' then Some (cmd_uptime s)
      else if cmd = ''version'' then Some (cmd_version s)
      else if cmd = ''memmap'' then cmd_memmap s
      else if cmd = ''alloc'' then cmd_alloc s
      else if cmd = ''free'' then cmd_pfree args s
      else if cmd = ''freecount'' then Some (cmd_freecount s)
      else if cmd = ''history'' then Some (cmd_history s)
      else if cmd = ''paging'' then Some (cmd_paging s)
      else if cmd = ''kalloc'' then cmd_kalloc args s
      else if cmd = ''kfree'' then cmd_kfree args s
      else if cmd = ''kheapinfo'' then Some (cmd_kheapinfo s)
      else if cmd = ''tasks'' then cmd_tasks s
      else if cmd = ''ls'' then cmd_ls e args s
      else if cmd = ''cat'' then cmd_cat e args s
      else if cmd = ''mkdir'' then cmd_mkdir e args s
      else if cmd = ''rm'' then cmd_rm e args s
      else if cmd = ''cd'' then cmd_cd e args s
      else if cmd = ''pwd'' then cmd_pwd s
      else if cmd = ''sn'' then cmd_sn e args s
      else if cmd = ''touch'' then cmd_touch e args s
      else if cmd = ''date'' then cmd_date s
      else if cmd = ''time'' then cmd_time s
      else if cmd = ''timer'' then cmd_timer args s
      else Some (unknown_command cmd s))"

definition split_command :: "string \<Rightarrow> string \<times> string" where
  "split_command line =
     (let cmd = take 31 (takeWhile (\<lambda>c. c \<noteq> CHR '' '') line)
      in (cmd, dropWhile (\<lambda>c. c = CHR '' '') (drop (length cmd) line)))"

definition shell_process_line :: "stack \<Rightarrow> string \<Rightarrow> 'a shell_scheme \<Rightarrow> ('a shell_scheme + 'a shell_scheme) option" where
  "shell_process_line e line s =
     (if line = [] then Some (Inr s)
      else
        let (cmd, args) = split_command line
        in if cmd = ''shutdown'' then Some (Inl (cmd_shutdown s))
           else if cmd = ''reboot'' then map_option Inl (cmd_reboot s)
           else map_option Inr (run_command e cmd args s))"

text \<open>The end of a line.\<close>

definition enter_line :: "stack \<Rightarrow> 'a shell_scheme \<Rightarrow> ('a shell_scheme + 'a shell_scheme) option" where
  "enter_line e s =
     (let s = viprint newline s
      in map_option (map_sum id (\<lambda>s. viprint PROMPT (s\<lparr>cmd_len := 0, cmd_pos := 0, history_index := - 1\<rparr>)))
        (if cmd_len s > 0 then
           let s = s\<lparr>cmd_buffer := (cmd_buffer s)[cmd_len s := NUL]\<rparr>;
               line = c_string (cmd_buffer s)
           in shell_process_line e line (shell_add_history line s)
         else Some (Inr s)))"

definition shell_feed_char :: "stack \<Rightarrow> char \<Rightarrow> 'a shell_scheme \<Rightarrow> ('a shell_scheme + 'a shell_scheme) option" where
  "shell_feed_char e c s =
     (if esc_state s = ESC_NONE \<and> c = CHR 0x0A then enter_line e s else Some (Inr (edit_char c s)))"

declare list_children.simps [code] cat_loop.simps [code]

end
