(* ===== verification/Kernel.thy ===== *)
theory Kernel
  imports Shell_Run Interrupts Descriptors Paging
begin

text \<open>
  \<open>kernel/kernel.c\<close> and \<open>cpu/checking_int.c\<close>: what the kernel does between the boot loader and the
  shell, its main loop, and the routines beside it that look at the processor and keep a queue of
  scancodes. The state extends the shell's, which holds the heap, the files, the keyboard, the page
  allocator and the timers, by the descriptor tables and the interrupt tables. Addresses that the
  linker chooses are the parameter \<open>symbols\<close>. Interrupts during the start are left out; in the main
  loop they are the characters that arrive while it waits (\<open>typed\<close>).
\<close>

section \<open>State\<close>

record kernel_state = shell +
  k_gdt :: gdt
  k_ldt :: gdt
  k_tss :: tss_entry
  k_segs :: segment_regs
  k_ints :: "unit interrupts_ext"
  scancode_queue :: "u8 \<Rightarrow> u8"
  queue_head :: u8
  queue_tail :: u8

record symbols =
  kernel_at :: u32
  kernel_end :: u32
  gdt_at :: u32
  ldt_at :: u32
  tss_at :: u32
  idt_at :: u32
  stubs_at :: "nat \<Rightarrow> u32"
  page_directory_at :: u32
  page_table_at :: "nat \<Rightarrow> u32"
  pit_handler_at :: u32
  keyboard_handler_at :: u32

definition ints_part :: "'a kernel_state_scheme \<Rightarrow> interrupts" where
  "ints_part s = machine.extend (machine.truncate s) (k_ints s)"

definition put_ints :: "interrupts \<Rightarrow> 'a kernel_state_scheme \<Rightarrow> 'a kernel_state_scheme" where
  "put_ints k s = (set_machine k s)\<lparr>k_ints := machine.more k\<rparr>"

definition put_driver :: "keyboard \<Rightarrow> 'a tty_scheme \<Rightarrow> 'a tty_scheme" where
  "put_driver k s = (set_machine k s)\<lparr>kbd := machine.more k\<rparr>"

definition paging_part :: "'a shell_scheme \<Rightarrow> paging" where
  "paging_part s = vmm.extend (vmm.truncate (memory_part s)) (paging.fields (sh_cr0 s) (sh_cr3 s))"

definition put_paging :: "paging \<Rightarrow> 'a shell_scheme \<Rightarrow> 'a shell_scheme" where
  "put_paging p s =
     (put_memory (vmm.extend (vmm.truncate p) (vmm.more (memory_part s))) s)\<lparr>sh_cr0 := cr0 p, sh_cr3 := cr3 p\<rparr>"

section \<open>Tables\<close>

definition setup_gdt_and_tss :: "symbols \<Rightarrow> 'a kernel_state_scheme \<Rightarrow> 'a kernel_state_scheme" where
  "setup_gdt_and_tss y s =
     (let s = s\<lparr>k_gdt := init_gdt (tss_at y) (ldt_at y) (k_gdt s)\<rparr>;
          s = s\<lparr>k_segs := load_gdt (gdt_at y) (k_segs s)\<rparr>;
          s = s\<lparr>k_ldt := init_ldt (k_ldt s)\<rparr>;
          s = s\<lparr>k_segs := load_ldt (k_segs s)\<rparr>;
          s = s\<lparr>k_tss := init_tss (k_tss s)\<rparr>;
          s = s\<lparr>k_segs := load_tss (k_segs s)\<rparr>
      in s\<lparr>k_segs := reload_segment_registers (k_segs s)\<rparr>)"

section \<open>Looking at the processor and the controllers\<close>

definition verify_mask :: "'a machine_scheme \<Rightarrow> 'a machine_scheme" where
  "verify_mask s =
     (let (mask, s) = inb PIC_DATA_MASTER s
      in viprint newline (hexprint (ucast mask) (viprint ''Master PIC mask: '' s)))"

definition get_things :: "'a machine_scheme \<Rightarrow> 'a machine_scheme" where
  "get_things s =
     (let (irr, s) = pic_get_irr s;
          (isr, s) = pic_get_isr s;
          s = hexprint (ucast irr) (viprint ''IRR: '' s)
      in viprint newline (hexprint (ucast isr) (viprint (newline @ ''ISR: '') s)))"

definition get_pic :: "u8 \<Rightarrow> 'a machine_scheme \<Rightarrow> u8 \<times> 'a machine_scheme" where
  "get_pic ocw3 s = inb 0x20 (outb 0x20 ocw3 s)"

definition check_int_sent :: "'a machine_scheme \<Rightarrow> 'a machine_scheme" where
  "check_int_sent s =
     (let (irr, s) = get_pic 0x0A s;
          (isr, s) = get_pic 0x0B s;
          s = printf_event (''IRR: %X'' @ newline) [Word_arg (ucast irr)] s
      in printf_event (''ISR: %X'' @ newline) [Word_arg (ucast isr)] s)"

definition check_cpu_mode_cpuid :: int where
  "check_cpu_mode_cpuid = 1"

definition check_cpu_mode_cs_reg :: "u16 \<Rightarrow> int" where
  "check_cpu_mode_cs_reg cs_register = (if cs_register < 0x1000 then 0 else 1)"

definition check_state :: "'a kernel_state_scheme \<Rightarrow> 'a kernel_state_scheme" where
  "check_state s =
     (let s = (if check_cpu_mode_cpuid \<noteq> 0 then viprint (''Protected Mode for CPUID'' @ newline) s
               else viprint (''Real Mode for CPUID'' @ newline) s)
      in if check_cpu_mode_cs_reg (seg_cs (k_segs s)) \<noteq> 0 then viprint (''Protected Mode for CS'' @ newline) s
         else viprint (''Real Mode for CS'' @ newline) s)"

text \<open>The interrupt flag is bit 9 of the flags.\<close>

definition are_interrupts_enabled :: "'a machine_scheme \<Rightarrow> int" where
  "are_interrupts_enabled s = (if iflag s then 0x200 else 0)"

definition check_ints :: "'a machine_scheme \<Rightarrow> 'a machine_scheme" where
  "check_ints s =
     (if are_interrupts_enabled s \<noteq> 0 then viprint (''IntOn'' @ newline) (con Has_loaded s)
      else viprint (''intOff'' @ newline) (con Has_loaded s))"

section \<open>The queue of scancodes\<close>

definition QUEUE_SIZE :: u8 where "QUEUE_SIZE = 128"

definition enqueue_scancode :: "u8 \<Rightarrow> 'a kernel_state_scheme \<Rightarrow> 'a kernel_state_scheme" where
  "enqueue_scancode scancode s =
     (let s = s\<lparr>scancode_queue := (scancode_queue s)(queue_tail s := scancode)\<rparr>
      in s\<lparr>queue_tail := (queue_tail s + 1) mod QUEUE_SIZE\<rparr>)"

definition dequeue_scancode :: "'a kernel_state_scheme \<Rightarrow> u8 \<times> 'a kernel_state_scheme" where
  "dequeue_scancode s =
     (let scancode = scancode_queue s (queue_head s)
      in (scancode, s\<lparr>queue_head := (queue_head s + 1) mod QUEUE_SIZE\<rparr>))"

definition queue_is_empty :: "'a kernel_state_scheme \<Rightarrow> bool" where
  "queue_is_empty s \<longleftrightarrow> queue_head s = queue_tail s"

partial_function (option) drain_scancodes :: "'a kernel_state_scheme \<Rightarrow> 'a kernel_state_scheme option" where
  "drain_scancodes s =
     (if queue_is_empty s then Some s
      else let (scancode, s) = dequeue_scancode s in drain_scancodes (hexprint (ucast scancode) s))"

text \<open>The listener never returns: this is its state after the interrupts \<open>ws\<close>, each with the scancodes its
  handler enqueues.\<close>

fun listener_rounds :: "u8 list list \<Rightarrow> 'a kernel_state_scheme \<Rightarrow> 'a kernel_state_scheme option" where
  "listener_rounds [] s = drain_scancodes s"
| "listener_rounds (w # ws) s = Option.bind (drain_scancodes s) (\<lambda>s. listener_rounds ws (fold enqueue_scancode w s))"

definition keyboard_listener :: "u8 list list \<Rightarrow> 'a kernel_state_scheme \<Rightarrow> 'a kernel_state_scheme option" where
  "keyboard_listener ws s = listener_rounds ws (viprint (''Keyboard listener started'' @ newline) s)"

declare drain_scancodes.simps [code]

section \<open>The start\<close>

text \<open>Up to the memory map. The handlers' entries in the table of interrupts are addresses.\<close>

definition register_irqs :: "symbols \<Rightarrow> interrupts \<Rightarrow> interrupts" where
  "register_irqs y k =
     (let k = snd (irq_register_handler 0 (pit_handler_at y) k)
      in snd (irq_register_handler 1 (keyboard_handler_at y) k))"

definition kernel_greeting :: "u32 \<Rightarrow> 'a machine_scheme \<Rightarrow> 'a machine_scheme" where
  "kernel_greeting magic s =
     (let s = con Has_loaded (con Init_screen s);
          s = viprint (''Set patch v0.4'' @ newline) (viprint (''Content load...'' @ newline) s)
      in viprint newline (hexprint magic (viprint ''Magic: '' s)))"

definition kernel_early :: "symbols \<Rightarrow> 'a kernel_state_scheme \<Rightarrow> 'a kernel_state_scheme option" where
  "kernel_early y s =
     (let s = viprint newline (hexprint (kernel_at y) (viprint ''Kernel running at virtual address: '' s));
          s = setup_gdt_and_tss y s;
          s = put_ints (init_ints (stubs_at y) (idt_at y) (ints_part s)) s
      in case pit_init 100 (timer_part s) of
           Inl _ \<Rightarrow> None
         | Inr k \<Rightarrow>
             let s = put_timers k s;
                 s = put_ints (register_irqs y (ints_part s)) s;
                 s = asm_ints_on s
             in Option.bind (schedule_default_shutdown (timer_part s)) (\<lambda>k.
                  let s = put_timers k s
                  in Some (put_paging (paging_init (page_directory_at y) (page_table_at y) (paging_part s)) s)))"

text \<open>From the memory map to the prompt.\<close>

definition kernel_late :: "'a kernel_state_scheme \<Rightarrow> 'a kernel_state_scheme option" where
  "kernel_late s =
     Option.bind (heap_init s) (\<lambda>s.
       let s = con Has_loaded (clear_mask 0 (unmask_kb s));
           s = put_driver (set_keyboard_layout 0 (driver s)) s
       in Option.bind (ramfs_init (con Has_loaded s)) (\<lambda>s.
           let s = ramfs_set_cwd (ramfs_get_root s) s;
               s = con Has_loaded (con Has_loaded (con Has_loaded s));
               s = viprint (''Content load complete'' @ newline) s;
               s = viprint (newline @ ''Cobra'' @ newline @ newline) s
           in Some (shell_init (con Has_loaded s))))"

text \<open>\<open>kernel\<close> up to its main loop; \<open>Inl\<close> is the halt after a wrong magic number.\<close>

definition kernel :: "symbols \<Rightarrow> u32 \<Rightarrow> u32 \<Rightarrow> 'a kernel_state_scheme \<Rightarrow> ('a kernel_state_scheme + 'a kernel_state_scheme) option" where
  "kernel y magic multiboot_info_ptr s =
     (let s = kernel_greeting magic s
      in if magic \<noteq> 0x2BADB002 then Some (Inl (viprint (''Error: Invalid Multiboot magic!'' @ newline) s))
         else Option.bind (kernel_early y s) (\<lambda>s.
           case parse_multiboot_info (kernel_end y) multiboot_info_ptr (memory_part s) of
             None \<Rightarrow> None
           | Some (Inl _) \<Rightarrow> None
           | Some (Inr k) \<Rightarrow> map_option Inr (kernel_late (put_memory k s))))"

section \<open>The main loop\<close>

partial_function (option) feed_typed :: "stack \<Rightarrow> 'a shell_scheme \<Rightarrow> ('a shell_scheme + 'a shell_scheme) option" where
  "feed_typed e s =
     (let (more, s) = poll_has_char s
      in if \<not> more then Some (Inr s)
         else let (c, s) = read_char s
           in Option.bind (shell_feed_char e (char_of (unat c)) s) (\<lambda>r. case r of Inl s \<Rightarrow> Some (Inl s) | Inr s \<Rightarrow> feed_typed e s))"

declare feed_typed.simps [code]

text \<open>One round: \<open>sti; hlt; cli\<close>, and everything typed goes to the shell.\<close>

definition kernel_round :: "stack \<Rightarrow> 'a shell_scheme \<Rightarrow> ('a shell_scheme + 'a shell_scheme) option" where
  "kernel_round e s = feed_typed e (cli (sti s))"

fun kernel_rounds :: "nat \<Rightarrow> stack \<Rightarrow> 'a shell_scheme \<Rightarrow> ('a shell_scheme + 'a shell_scheme) option" where
  "kernel_rounds 0 e s = Some (Inr s)"
| "kernel_rounds (Suc n) e s =
     Option.bind (kernel_round e s) (\<lambda>r. case r of Inl s \<Rightarrow> Some (Inl s) | Inr s \<Rightarrow> kernel_rounds n e s)"

end
