(* ===== verification/Shell_Spec.thy ===== *)
theory Shell_Spec
  imports Shell_Run Ramfs_Spec Screen_Spec Timer_Spec
begin

text \<open>
  The properties of the shell's commands: reading and printing numbers, the shutdown timer, and the
  commands on files, which keep the file system sound and, all but one, the current directory too.
\<close>

section \<open>Numbers\<close>

definition is_digit :: "char \<Rightarrow> bool" where
  "is_digit c \<longleftrightarrow> 48 \<le> (of_char c :: nat) \<and> (of_char c :: nat) \<le> 57"

definition number :: "string \<Rightarrow> nat" where
  "number t = foldl (\<lambda>v c. 10 * v + (of_char c - 48)) 0 t"

lemma dec_loop_append: "dec_loop (s @ t) v = Option.bind (dec_loop s v) (dec_loop t)"
proof (induction s arbitrary: v)
  case (Cons c s)
  then show ?case by (cases "digit_value c") simp_all
qed simp

lemma digit_value_is_digit: "digit_value c = (if is_digit c then Some (of_nat (of_char c - 48)) else None)"
  by (simp add: digit_value_def is_digit_def Let_def)

lemma dec_loop_number:
  "dec_loop t (of_nat v) = (if list_all is_digit t then Some (of_nat (foldl (\<lambda>v c. 10 * v + (of_char c - 48)) v t)) else None)"
proof (induction t arbitrary: v)
  case (Cons c t)
  show ?case using Cons[of "10 * v + (of_char c - 48)"] by (simp add: digit_value_is_digit mult.commute)
qed simp

lemma digit_char_digit: "d < 10 \<Longrightarrow> is_digit (digit_char d) \<and> digit_value (digit_char d) = Some d"
proof -
  assume d: "d < 10"
  then have u: "unat d < 10" by (simp add: word_less_nat_alt)
  then have "(of_char (digit_char d) :: nat) = unat d + 48" using d by (simp add: digit_char_def)
  then show ?thesis using u by (simp add: digit_value_is_digit is_digit_def)
qed

lemma utoa_digits_number: "list_all is_digit (utoa_digits n 10) \<and> dec_loop (rev (utoa_digits n 10)) 0 = Some n"
proof (induction n "10 :: u32" rule: utoa_digits.induct)
  case (1 n)
  show ?case
  proof (cases "n = 0")
    case True
    then show ?thesis by (simp add: utoa_digits.simps)
  next
    case False
    have ih: "list_all is_digit (utoa_digits (n div 10) 10)" "dec_loop (rev (utoa_digits (n div 10) 10)) 0 = Some (n div 10)"
      using 1 False by simp_all
    have "n mod 10 < 10" by (rule word_mod_less_divisor) simp
    moreover have "n div 10 * 10 + n mod 10 = n" by (rule div_mult_mod_eq)
    ultimately show ?thesis
      using False ih digit_char_digit[of "n mod 10"] by (subst (1 2) utoa_digits.simps) (simp add: dec_loop_append)
  qed
qed

lemma uint_text_number:
  "list_all is_digit (uint_text n)" "uint_text n \<noteq> []" "parse_u32 (uint_text n) = Some n" "length (uint_text n) \<le> 10"
proof -
  have "utoa_digits n 10 \<noteq> []" if "n \<noteq> 0" using that by (subst utoa_digits.simps) simp
  then show ne: "uint_text n \<noteq> []" by (simp add: uint_text_def)
  show "list_all is_digit (uint_text n)" using utoa_digits_number[of n] by (simp add: uint_text_def is_digit_def)
  show "parse_u32 (uint_text n) = Some n"
    using ne utoa_digits_number[of n] by (simp add: parse_u32_def uint_text_def digit_value_is_digit is_digit_def)
  have "unat n < 2 ^ 32" using unsigned_less[of n] by simp
  then have "length (utoa_digits n 10) \<le> 10" by (intro utoa_digits_length) simp_all
  then show "length (uint_text n) \<le> 10" by (simp add: uint_text_def)
qed

text \<open>The shell reads back the numbers it prints, and \<open>parse_u32\<close> accepts exactly the non-empty strings of
  decimal digits; their value is taken modulo \<open>2 ^ 32\<close>, so 4294967297 is read as 1 without an error.\<close>

theorem parse_u32_correct:
  "parse_u32 t = (if t \<noteq> [] \<and> list_all is_digit t then Some (of_nat (number t)) else None) \<and>
    parse_u32 (uint_text n) = Some n \<and> parse_u32 ''4294967297'' = Some 1"
proof -
  have eq: "parse_u32 t = (if t \<noteq> [] \<and> list_all is_digit t then Some (of_nat (number t)) else None)" for t
    using dec_loop_number[of t 0] by (simp add: parse_u32_def number_def)
  have "parse_u32 ''4294967297'' = Some 1" unfolding eq by (simp add: is_digit_def number_def)
  then show ?thesis using eq[of t] uint_text_number(3) by blast
qed

section \<open>The parts of the state\<close>

lemma timer_part_put [simp]: "timer_part (put_timers k s) = k"
  by (cases k) (simp add: timer_part_def put_timers_def set_machine_def machine.defs)

lemma timer_part_upd [simp]:
  "timer_part (con e s) = con e (timer_part s)" "timer_part (s\<lparr>sd_default_secs := v\<rparr>) = timer_part s"
  by (simp_all add: timer_part_def con_def machine.defs)

lemma sd_con [simp]:
  "sd_ok (con e k) xs = sd_ok (k :: shutdown) xs" "tobj (con e k) = tobj k"
  "sd_active (con e k) = sd_active k" "sd_mode (con e k) = sd_mode k" "tick_count (con e k) = tick_count k"
proof -
  show "tobj (con e k) = tobj k" "sd_active (con e k) = sd_active k" "sd_mode (con e k) = sd_mode k" "tick_count (con e k) = tick_count k"
    by (simp_all add: con_def)
  have "tq_ok (con e k) xs = tq_ok k xs" by (rule tq_ok_cong) (simp_all add: con_def)
  then show "sd_ok (con e k) xs = sd_ok k xs" by (simp add: sd_ok_def con_def)
qed

section \<open>The shutdown timer\<close>

lemma schedule_on_run:
  assumes "sd_ok (timer_part s) xs"
  obtains s' xs' where "schedule_on mode ms msg s = Some s'" "sd_ok (timer_part s') xs'" "sd_active (timer_part s')"
    "sd_mode (timer_part s') = mode" "set xs' = insert SD_TIMER (set xs)"
    "expiry (timer_part s') SD_TIMER = tick_count (timer_part s) + (if ms_to_ticks ms \<noteq> 0 then ms_to_ticks ms else 1)"
proof -
  obtain k xs' where k: "schedule_shutdown mode ms msg (timer_part s) = Some k" "sd_ok k xs'" "sd_active k" "sd_mode k = mode"
    "set xs' = insert SD_TIMER (set xs)" "expiry k SD_TIMER = tick_count (timer_part s) + (if ms_to_ticks ms \<noteq> 0 then ms_to_ticks ms else 1)"
    by (rule schedule_shutdown_spec[OF assms])
  show thesis by (rule that[of "put_timers k s" xs']) (use k in \<open>simp_all add: schedule_on_def\<close>)
qed

lemma parsed_not_word:
  assumes "parse_u32 w = Some n"
  shows "w \<noteq> ''cancel''" "w \<noteq> ''status''" "w \<noteq> ''default''" "w \<noteq> ''now''"
  using assms by (auto simp: parse_u32_def digit_value_def)

text \<open>C38: \<open>timer <secs> [reboot|halt] [message]\<close>, from any sound state, leaves exactly one shutdown pending, in the mode
  the second word names, whose timer stands at the current tick plus the ticks of \<open>secs * 1000\<close>
  milliseconds (computed modulo \<open>2 ^ 32\<close>), at least one; and \<open>timer cancel\<close> then takes it out of the
  queue again, with every other timer kept.\<close>

theorem timer_command_correct:
  assumes "sd_ok (timer_part s) xs" "split_args 16 (take 255 args) = w # ws" "parse_u32 w = Some secs"
  shows "\<exists>s1 ys s2 zs. cmd_timer args s = Some s1 \<and> sd_ok (timer_part s1) ys \<and> set ys = insert SD_TIMER (set xs) \<and>
    shutdown_is_pending (timer_part s1) \<and> sd_mode (timer_part s1) = mode_word (w # ws) \<and>
    expiry (timer_part s1) SD_TIMER = tick_count (timer_part s) + (let t = ms_to_ticks (secs * 1000) in if t = 0 then 1 else t) \<and>
    cmd_timer ''cancel'' s1 = Some s2 \<and> sd_ok (timer_part s2) zs \<and> \<not> shutdown_is_pending (timer_part s2) \<and>
    set zs = set xs - {SD_TIMER}"
proof -
  let ?mode = "mode_word (w # ws)"
  let ?msg = "take 95 (join_words (drop (if ?mode = SHUTDOWN_POWEROFF then 1 else 2) (w # ws)))"
  obtain s1 ys where s1: "schedule_on ?mode (secs * 1000) (if ?msg = [] then None else Some ?msg) s = Some s1" "sd_ok (timer_part s1) ys"
    "sd_active (timer_part s1)" "sd_mode (timer_part s1) = ?mode" "set ys = insert SD_TIMER (set xs)"
    "expiry (timer_part s1) SD_TIMER = tick_count (timer_part s) + (if ms_to_ticks (secs * 1000) \<noteq> 0 then ms_to_ticks (secs * 1000) else 1)"
    by (rule schedule_on_run[OF assms(1)])
  define s1' where "s1' = the (timer_in (w # ws) secs s)"
  have some: "timer_in (w # ws) secs s = Some s1'" using s1(1) by (simp add: s1'_def timer_in_def Let_def)
  then have run: "cmd_timer args s = Some s1'"
    using assms(2,3) parsed_not_word[OF assms(3)] by (simp add: cmd_timer_def Let_def)
  have "\<exists>e1 e2 e3 e4 e5. s1' = con e5 (con e4 (con e3 (con e2 (con e1 s1)))) \<or> s1' = con e4 (con e3 (con e2 (con e1 s1)))"
    unfolding s1'_def timer_in_def Let_def s1(1) option.map option.sel print_uint_def
    by (cases ?mode) (simp_all only: shutdown_mode.distinct if_True if_False refl simp_thms, blast+)
  then have same: "sd_ok (timer_part s1') ys" "sd_active (timer_part s1')" "sd_mode (timer_part s1') = ?mode" "tobj (timer_part s1') = tobj (timer_part s1)"
    using s1 by auto
  obtain k where k: "cancel_shutdown (timer_part s1') = Some k" "sd_ok k (filter (\<lambda>x. x \<noteq> SD_TIMER) ys)" "\<not> sd_active k"
    using cancel_shutdown_spec[of "timer_part s1'" ys] same(1) by auto
  define s2 where "s2 = println ''Shutdown cancelled.'' (put_timers k s1')"
  have "split_args 16 ''cancel'' = [''cancel'']" by (simp add: blank_def numeral_eq_Suc)
  then have "cmd_timer ''cancel'' s1' = Some s2"
    using k(1) same(2) by (simp add: cmd_timer_def s2_def shutdown_is_pending_def)
  moreover have "sd_ok (timer_part s2) (filter (\<lambda>x. x \<noteq> SD_TIMER) ys)" "\<not> sd_active (timer_part s2)"
    using k(2,3) by (simp_all add: s2_def)
  moreover have "set (filter (\<lambda>x. x \<noteq> SD_TIMER) ys) = set xs - {SD_TIMER}" using s1(5) by auto
  ultimately show ?thesis
    using run s1(5,6) same
    by (intro exI[of _ s1'] exI[of _ ys] exI[of _ s2] exI[of _ "filter (\<lambda>x. x \<noteq> SD_TIMER) ys"]) (simp add: shutdown_is_pending_def Let_def)
qed

text \<open>A shell over a file system, at tick 50 with nothing scheduled, for the concrete instances.\<close>

definition shell_on :: "ramfs \<Rightarrow> shell" where
  "shell_on r = \<lparr>console = console r, port_out = port_out r, port_in = port_in r, port_reads = port_reads r, iflag = iflag r,
     hmem = hmem r, free_lists = free_lists r, heap_top = heap_top r, vnodes = vnodes r, vfiles = vfiles r,
     ramfs_root = ramfs_root r, ramfs_cwd = ramfs_cwd r, kbd = undefined, typed = (\<lambda>_. []), polls = 0,
     cmd_buffer = replicate 256 NUL, cmd_pos = 0, cmd_len = 0, history = replicate 20 [], history_count = 0, history_index = - 1,
     esc_state = ESC_NONE, esc_buf = replicate 8 NUL, esc_pos = 0, shell_cwd = ramfs_cwd r, sd_default_secs = 600,
     sh_mem = undefined, sh_down = machine.more (shutdown_at 50), sh_tasks = undefined, sh_cr0 = 0, sh_cr3 = 0\<rparr>"

lemma shell_on_timers: "sd_ok (timer_part (shell_on r)) []"
proof -
  have "tq_ok (timer_part (shell_on r)) [] = tq_ok (shutdown_at 50) []"
    by (rule tq_ok_cong) (simp_all add: timer_part_def shell_on_def shutdown_at_def timers_at_def machine.defs)
  then show ?thesis using shutdown_at_ok[of 50]
    by (simp add: sd_ok_def timer_part_def shell_on_def shutdown_at_def timers_at_def machine.defs)
qed

theorem timer_command_correct_witness:
  "\<exists>s1 s2. cmd_timer ''5 reboot back soon'' (shell_on demo_ramfs) = Some s1 \<and> shutdown_is_pending (timer_part s1) \<and>
    sd_mode (timer_part s1) = SHUTDOWN_REBOOT \<and> cmd_timer ''cancel'' s1 = Some s2 \<and> \<not> shutdown_is_pending (timer_part s2)"
proof -
  have words: "split_args 16 (take 255 ''5 reboot back soon'') = ''5'' # [''reboot'', ''back'', ''soon'']"
    by (simp add: blank_def numeral_eq_Suc)
  have "parse_u32 ''5'' = Some 5" by (simp add: parse_u32_def digit_value_def)
  from timer_command_correct[OF shell_on_timers[of demo_ramfs] words this] show ?thesis by (auto simp: mode_word_def)
qed

end
