(* ===== verification/Shell_Files.thy ===== *)
theory Shell_Files
  imports Shell_Spec
begin

text \<open>
  The shell's commands on files. The file system stays sound whatever is typed, and all commands but
  one leave the current directory a directory of the tree: \<open>rm\<close> may free it.
\<close>

section \<open>What the operations of the file system leave alone\<close>

definition keeps_cwd :: "'a ramfs_scheme \<Rightarrow> 'a ramfs_scheme \<Rightarrow> bool" where
  "keeps_cwd s s' \<longleftrightarrow> ramfs.more s' = ramfs.more s \<and> ramfs_cwd s' = ramfs_cwd s"

lemma keeps_cwd_refl [simp]: "keeps_cwd s s"
  by (simp add: keeps_cwd_def)

lemma keeps_cwd_trans: "keeps_cwd s s' \<Longrightarrow> keeps_cwd s' s'' \<Longrightarrow> keeps_cwd s s''"
  by (simp add: keeps_cwd_def)

lemma keeps_cwd_upd [simp]:
  "keeps_cwd s (s'\<lparr>vnodes := v\<rparr>) = keeps_cwd s s'" "keeps_cwd s (s'\<lparr>vfiles := f\<rparr>) = keeps_cwd s s'"
  "keeps_cwd s (upd_node a g s') = keeps_cwd s s'"
  "keeps_cwd (upd_node a g s) s' = keeps_cwd s s'"
  by (simp_all add: keeps_cwd_def upd_node_def)

lemma keeps_cwd_heap: "heap_only s s' \<Longrightarrow> keeps_cwd s s'"
  by (cases s; cases s') (simp add: keeps_cwd_def heap_only_def)

lemma keeps_cwd_printed: "printed s s' \<Longrightarrow> keeps_cwd s s'"
  by (auto simp: printed_def keeps_cwd_def)

lemma ramfs_create_keeps:
  assumes "ramfs_create d name ty s = Some (r, s')"
  shows "keeps_cwd s s'"
proof -
  have "keeps_cwd s s1" if "kmalloc sizeof_vfs_node s = Some (p, s1)" for p s1
    by (rule keeps_cwd_heap[OF kmalloc_only[OF that]])
  then show ?thesis
    using assms by (auto simp: ramfs_create_def create_vfs_node_def add_child_def Let_def split: if_splits bind_splits)
qed

lemma remove_loop_keeps:
  assumes "remove_loop p c prev cur s = Some s'"
  shows "keeps_cwd s s'"
proof (rule remove_loop.raw_induct[OF _ assms])
  fix loop p c prev cur s s'
  assume IH: "\<And>p c prev cur s s'. loop p c prev cur s = Some s' \<Longrightarrow> keeps_cwd s (s' :: 'a ramfs_scheme)"
    and "(if cur = 0 then Some s
      else Option.bind (vnodes s cur) (\<lambda>n.
        if cur = c then
          (let s = (if prev \<noteq> 0 then upd_node prev (\<lambda>q. q\<lparr>n_next := n_next n\<rparr>) s
                    else upd_node p (\<lambda>q. q\<lparr>n_children := n_next n\<rparr>) s)
           in Some (upd_node c (\<lambda>c. c\<lparr>n_parent := 0, n_next := 0\<rparr>) s))
        else loop p c cur (n_next n) s)) = Some s'"
  then show "keeps_cwd s s'" by (auto simp: Let_def split: if_splits bind_splits)
qed

text \<open>The data of a node freed: the first step of \<open>ramfs_delete\<close>.\<close>

definition freed_data :: "u32 \<Rightarrow> vfs_node \<Rightarrow> 'a ramfs_scheme \<Rightarrow> 'a ramfs_scheme option" where
  "freed_data a n s =
     (if n_data n \<noteq> 0 then map_option (upd_node a (\<lambda>n. n\<lparr>n_data := 0\<rparr>)) (kfree (n_data n) s) else Some s)"

lemma ramfs_delete_steps:
  assumes "ramfs_delete a s = Some (r, s')"
  shows "s' = s \<or> (\<exists>n s1 s2. freed_data a n s = Some s1 \<and> remove_child a s1 = Some s2 \<and> free_node a s2 = Some s')"
proof (cases "a = 0 \<or> a = ramfs_root s")
  case True
  then show ?thesis using assms by (auto simp: ramfs_delete_def)
next
  case False
  then have "Option.bind (vnodes s a) (\<lambda>n. if is_directory n \<and> n_children n \<noteq> 0 then Some (- 2, s)
      else Option.bind (freed_data a n s) (\<lambda>s. Option.bind (remove_child a s) (\<lambda>s. map_option (Pair 0) (free_node a s)))) = Some (r, s')"
    using assms by (simp only: ramfs_delete_def if_not_P[OF False] freed_data_def if_False)
  then show ?thesis by (auto simp: Option.bind_eq_Some_conv split: if_split_asm)
qed

lemma ramfs_delete_keeps:
  assumes "ramfs_delete a s = Some (r, s')"
  shows "keeps_cwd s s'"
proof -
  have free: "keeps_cwd s1 s2" if "kfree p s1 = Some s2" for p and s1 s2 :: "'a ramfs_scheme"
    by (rule keeps_cwd_heap[OF kfree_only[OF that]])
  have rem: "keeps_cwd s1 s2" if "remove_child a s1 = Some s2" for s1 s2 :: "'a ramfs_scheme"
    using that remove_loop_keeps by (auto simp: remove_child_def split: if_splits bind_splits)
  have gone: "keeps_cwd s1 s2" if "free_node a s1 = Some s2" for s1 s2 :: "'a ramfs_scheme"
    using that free by (auto simp: free_node_def)
  have data: "keeps_cwd s s1" if "freed_data a n s = Some s1" for n s1
    using that free by (auto simp: freed_data_def split: if_splits)
  from ramfs_delete_steps[OF assms] show ?thesis
  proof (elim disjE exE conjE)
    fix n s1 s2
    assume "freed_data a n s = Some s1" "remove_child a s1 = Some s2" "free_node a s2 = Some s'"
    then show ?thesis by (rule keeps_cwd_trans[OF data keeps_cwd_trans[OF rem gone]])
  qed simp
qed

section \<open>Printing keeps the file system\<close>

lemma printed_fs:
  assumes "printed s s'"
  shows "fs_ok s' U K = fs_ok s U K" "vnodes s' = vnodes s" "ramfs_root s' = ramfs_root s"
proof -
  obtain es where s': "s' = s\<lparr>console := console s @ es\<rparr>" using assms by (auto simp: printed_def)
  then show "vnodes s' = vnodes s" "ramfs_root s' = ramfs_root s" by simp_all
  have "heap_ok s' U = heap_ok s U" by (rule heap_ok_same) (simp add: s' same_heap_def)
  then have "store_ok s' U = store_ok s U" by (simp add: store_ok_def data_ok_def data_of_def s')
  then show "fs_ok s' U K = fs_ok s U K" using tree_printed[OF assms] by (simp add: fs_ok_def)
qed

section \<open>Types of nodes\<close>

abbreviation node_type :: "'a ramfs_scheme \<Rightarrow> u32 \<Rightarrow> u32 option" where
  "node_type s b \<equiv> map_option n_type (vnodes s b)"

definition a_directory :: "'a ramfs_scheme \<Rightarrow> u32 \<Rightarrow> bool" where
  "a_directory s b \<longleftrightarrow> (\<exists>n. vnodes s b = Some n \<and> is_directory n)"

lemma a_directory_type: "node_type s' b = node_type s b \<Longrightarrow> a_directory s' b = a_directory s b"
  by (cases "vnodes s b"; cases "vnodes s' b") (simp_all add: a_directory_def is_directory_def)

lemma ramfs_create_types:
  assumes ok: "fs_ok s U K" and run: "ramfs_create d name ty s = Some (r, s')" and b: "vnodes s b \<noteq> None"
  shows "node_type s' b = node_type s b"
proof -
  have "vnodes s1 = vnodes s \<and> (p = 0 \<or> p \<noteq> b)" if k: "kmalloc sizeof_vfs_node s = Some (p, s1)" for p s1
  proof -
    have h: "heap_ok s U" and st: "store_ok s U" using ok by (simp_all add: fs_ok_def store_ok_def)
    obtain n where "vnodes s b = Some n" using b by auto
    then have "U b \<noteq> None" using store_okD(3)[OF st] by force
    then have "p = 0 \<or> p \<noteq> b" by - (rule kmalloc_cases[OF h, of sizeof_vfs_node], use k in auto)
    then show ?thesis using heap_only_ramfs(1)[OF kmalloc_only[OF k]] by simp
  qed
  then show ?thesis
    using run by (auto simp: ramfs_create_def create_vfs_node_def add_child_def Let_def option.map_comp comp_def
        split: if_splits bind_splits)
qed

lemma remove_loop_types:
  assumes "remove_loop p c prev cur s = Some s'"
  shows "node_type s' b = node_type s b"
proof (rule remove_loop.raw_induct[OF _ assms])
  fix loop p c prev cur s s'
  assume IH: "\<And>p c prev cur s s'. loop p c prev cur s = Some s' \<Longrightarrow> node_type (s' :: 'a ramfs_scheme) b = node_type s b"
    and "(if cur = 0 then Some s
      else Option.bind (vnodes s cur) (\<lambda>n.
        if cur = c then
          (let s = (if prev \<noteq> 0 then upd_node prev (\<lambda>q. q\<lparr>n_next := n_next n\<rparr>) s
                    else upd_node p (\<lambda>q. q\<lparr>n_children := n_next n\<rparr>) s)
           in Some (upd_node c (\<lambda>c. c\<lparr>n_parent := 0, n_next := 0\<rparr>) s))
        else loop p c cur (n_next n) s)) = Some s'"
  then show "node_type s' b = node_type s b"
    by (auto simp: Let_def option.map_comp comp_def split: if_splits bind_splits)
qed

lemma ramfs_delete_types:
  assumes run: "ramfs_delete a s = Some (r, s')" and b: "b \<noteq> a"
  shows "node_type s' b = node_type s b"
proof -
  have k: "vnodes s2 = vnodes s1" if "kfree p s1 = Some s2" for p and s1 s2 :: "'a ramfs_scheme"
    by (rule heap_only_ramfs(1)[OF kfree_only[OF that]])
  have rem: "node_type s2 b = node_type s1 b" if "remove_child a s1 = Some s2" for s1 s2 :: "'a ramfs_scheme"
    using that remove_loop_types by (auto simp: remove_child_def split: if_splits bind_splits)
  have gone: "node_type s2 b = node_type s1 b" if "free_node a s1 = Some s2" for s1 s2 :: "'a ramfs_scheme"
    using that k b by (auto simp: free_node_def)
  have data: "node_type s1 b = node_type s b"
    if "freed_data a n s = Some s1" for n s1
    using that k by (auto simp: freed_data_def option.map_comp comp_def split: if_splits)
  from ramfs_delete_steps[OF run] show ?thesis using data rem gone by (elim disjE exE conjE) (simp, metis)
qed

section \<open>Resolving\<close>

lemma walk_live: "tree_ok s K \<Longrightarrow> vnodes s cur \<noteq> None \<Longrightarrow> walk s K cur ts = Some c \<Longrightarrow> vnodes s c \<noteq> None"
proof (induction ts arbitrary: cur)
  case (Cons t ts)
  obtain n where n: "vnodes s cur = Some n" using Cons.prems(2) by auto
  have d: "dir_ok s K cur n" by (rule tree_okD[OF Cons.prems(1) n])
  have up: "vnodes s (if parent_of s cur = 0 then cur else parent_of s cur) \<noteq> None" using d n by (simp add: dir_ok_def parent_of_def)
  consider "walk s K cur ts = Some c" | "walk s K (if parent_of s cur = 0 then cur else parent_of s cur) ts = Some c"
    | k where "lookup s (K cur) t = Some k" "walk s K k ts = Some c"
    using Cons.prems(3) by (auto simp: Let_def split: if_splits bind_splits)
  then show ?case
  proof cases
    case 3
    then have "vnodes s k \<noteq> None" using lookup_Some[OF 3(1)] child_node[OF Cons.prems(1) n, of k] by auto
    then show ?thesis using Cons.IH[OF Cons.prems(1) _ 3(2)] by blast
  qed (use Cons.IH[OF Cons.prems(1)] Cons.prems(2) up in blast)+
qed simp

lemma resolve_live:
  assumes ok: "fs_ok s U K" and root: "a_directory s (ramfs_root s)" and cwd: "ramfs_cwd s = 0 \<or> vnodes s (ramfs_cwd s) \<noteq> None"
    and p: "p \<noteq> []"
  obtains c s' where "ramfs_resolve jk (Some p) s = Some (c, s')" "printed s s'" "c = 0 \<or> vnodes s c \<noteq> None"
proof -
  have tr: "tree_ok s K" and r: "vnodes s (ramfs_root s) \<noteq> None" using ok root by (auto simp: fs_ok_def a_directory_def)
  let ?cur = "if hd p = slash \<or> ramfs_cwd s = 0 then ramfs_root s else ramfs_cwd s"
  obtain s' where s': "ramfs_resolve jk (Some p) s = Some (case walk s K ?cur (components p) of None \<Rightarrow> 0 | Some c \<Rightarrow> c, s')" "printed s s'"
    using ramfs_resolve_run[OF tr r cwd p] by blast
  have "vnodes s ?cur \<noteq> None" using r cwd by auto
  then have "walk s K ?cur (components p) = Some c \<Longrightarrow> vnodes s c \<noteq> None" for c using walk_live[OF tr] by blast
  then show thesis using s' by (intro that) (auto split: option.splits)
qed

section \<open>The invariant of the shell\<close>

lemma fs_ok_same:
  assumes "same_heap s s'" "vnodes s' = vnodes s" "vfiles s' = vfiles s"
  shows "fs_ok s' U K = fs_ok s U K"
proof -
  have "heap_ok s' U = heap_ok s U" by (rule heap_ok_same[OF assms(1), symmetric])
  moreover have "data_of s' = data_of s" "sib s' = sib s" "name_of s' = name_of s" "parent_of s' = parent_of s"
    by (simp_all add: fun_eq_iff data_of_def sib_def name_of_def parent_of_def assms)
  ultimately show ?thesis using assms by (simp add: fs_ok_def store_ok_def data_ok_def tree_ok_def dir_ok_def)
qed

text \<open>A sound tree, with a directory as root and one as the current directory; the file system and the
  shell agree on the latter.\<close>

definition shell_ok :: "'a shell_scheme \<Rightarrow> (u32 \<Rightarrow> nat option) \<Rightarrow> (u32 \<Rightarrow> u32 list) \<Rightarrow> bool" where
  "shell_ok s U K \<longleftrightarrow> fs_ok s U K \<and> a_directory s (ramfs_root s) \<and> a_directory s (shell_cwd s) \<and> ramfs_cwd s = shell_cwd s"

lemma keeps_shell_cwd: "keeps_cwd s s' \<Longrightarrow> shell_cwd s' = shell_cwd s \<and> ramfs_cwd s' = ramfs_cwd s"
  by (cases s; cases s') (simp add: keeps_cwd_def)

lemma shell_ok_printed:
  assumes "printed s s'"
  shows "shell_ok s' U K = shell_ok s U K"
  using printed_fs[OF assms] keeps_shell_cwd[OF keeps_cwd_printed[OF assms]] by (simp add: shell_ok_def a_directory_def)

lemma shell_ok_con [simp]: "shell_ok (con e s) U K = shell_ok s U K"
  by (rule shell_ok_printed[OF printed_con[OF printed_refl]])

text \<open>Everything beside the files, the heap, the screen and the current directory.\<close>

definition others where
  "others s = ramfs.more (s\<lparr>shell_cwd := 0\<rparr>)"

lemma keeps_others: "keeps_cwd s s' \<Longrightarrow> others s' = others s"
  by (cases s; cases s') (simp add: keeps_cwd_def others_def)

lemma others_con [simp]: "others (con e s) = others s"
  by (rule keeps_others[OF keeps_cwd_printed[OF printed_con[OF printed_refl]]])

lemma shell_cwd_con [simp]: "shell_cwd (con e s) = shell_cwd s"
  by (simp add: con_def)

lemma shell_ok_live:
  assumes "shell_ok s U K"
  shows "vnodes s (ramfs_root s) \<noteq> None" "vnodes s (shell_cwd s) \<noteq> None" "ramfs_root s \<noteq> 0" "shell_cwd s \<noteq> 0"
proof -
  have tr: "tree_ok s K" and d: "a_directory s (ramfs_root s)" "a_directory s (shell_cwd s)"
    using assms by (simp_all add: shell_ok_def fs_ok_def)
  then obtain n m where nm: "vnodes s (ramfs_root s) = Some n" "vnodes s (shell_cwd s) = Some m" by (auto simp: a_directory_def)
  then show "vnodes s (ramfs_root s) \<noteq> None" "vnodes s (shell_cwd s) \<noteq> None" by simp_all
  show "ramfs_root s \<noteq> 0" "shell_cwd s \<noteq> 0" using tree_node_0[OF tr] nm by blast+
qed

lemma shell_resolve:
  assumes ok: "shell_ok s U K" and p: "p \<noteq> []"
  obtains c s' where "ramfs_resolve jk (Some p) s = Some (c, s')" "printed s s'" "c = 0 \<or> vnodes s' c \<noteq> None" "shell_ok s' U K" "others s' = others s"
proof -
  have "fs_ok s U K" "a_directory s (ramfs_root s)" "ramfs_cwd s = 0 \<or> vnodes s (ramfs_cwd s) \<noteq> None"
    using ok shell_ok_live[OF ok] by (simp_all add: shell_ok_def)
  then obtain c s' where r: "ramfs_resolve jk (Some p) s = Some (c, s')" "printed s s'" "c = 0 \<or> vnodes s c \<noteq> None"
    by (rule resolve_live[OF _ _ _ p])
  show thesis by (rule that[of c s']) (use r ok shell_ok_printed[OF r(2)] printed_same[OF r(2)] keeps_others[OF keeps_cwd_printed[OF r(2)]] in simp_all)
qed

section \<open>Listing\<close>

lemma list_children_chain:
  "chain (sib s) (ptr_of c) ks \<Longrightarrow> \<forall>k \<in> set ks. vnodes s k \<noteq> None \<Longrightarrow> \<exists>s'. list_children c s = Some s' \<and> printed s s'"
proof (induction ks arbitrary: c s)
  case Nil
  then show ?case by (simp add: list_children.simps[of 0])
next
  case (Cons k ks)
  then obtain n where n: "c = k" "k \<noteq> 0" "vnodes s k = Some n" by auto
  have "sib s k = ptr_of (n_next n)" by (simp add: sib_def n)
  then have ch: "chain (sib s) (ptr_of (n_next n)) ks" using Cons.prems(1) by simp
  define s1 where "s1 = viprint newline (if is_directory n then viprint ''/'' (viprint (n_name n) s) else viprint (n_name n) s)"
  have p: "printed s s1" by (simp add: s1_def printed_con)
  have "sib s1 = sib s" by (simp add: fun_eq_iff sib_def printed_same[OF p])
  then obtain s' where "list_children (n_next n) s1 = Some s'" "printed s1 s'"
    using Cons.IH[of s1 "n_next n"] ch Cons.prems(2) printed_same[OF p] by auto
  then show ?case using n printed_trans[OF p] by (subst list_children.simps) (auto simp: s1_def Let_def)
qed

lemma ls_safe:
  assumes ok: "shell_ok s U K"
  shows "\<exists>s'. cmd_ls e args s = Some s' \<and> shell_ok s' U K \<and> others s' = others s"
proof -
  obtain d s1 where d: "(if args \<noteq> [] then ramfs_resolve (junk e) (Some args) s else Some (shell_cwd s, s)) = Some (d, s1)"
    "d = 0 \<or> vnodes s1 d \<noteq> None" "shell_ok s1 U K" "others s1 = others s"
  proof (cases "args = []")
    case True
    then show thesis using that[of "shell_cwd s" s] ok shell_ok_live[OF ok] by simp
  next
    case False
    show thesis by (rule shell_resolve[OF ok False, where jk = "junk e"]) (use that False in simp)
  qed
  show ?thesis
  proof (cases "d = 0")
    case True
    then show ?thesis using d by (simp add: cmd_ls_def)
  next
    case False
    then obtain n where n: "vnodes s1 d = Some n" using d(2) by auto
    then have "dir_ok s1 K d n" using d(3) by (simp add: shell_ok_def fs_ok_def tree_okD)
    then have "chain (sib s1) (ptr_of (n_children n)) (K d)" "\<forall>k \<in> set (K d). vnodes s1 k \<noteq> None" by (simp_all add: dir_ok_def)
    from list_children_chain[OF this] obtain s2 where s2: "list_children (n_children n) s1 = Some s2" "printed s1 s2" by blast
    show ?thesis unfolding cmd_ls_def d(1) using False n s2 d(3,4) shell_ok_printed[OF s2(2)] keeps_others[OF keeps_cwd_printed[OF s2(2)]] by simp
  qed
qed

section \<open>Making, removing, changing directory\<close>

text \<open>A state that is sound and, beside the files, the heap and the current directory, as \<open>s0\<close> is.\<close>

definition fine :: "'a shell_scheme \<Rightarrow> 'a shell_scheme \<Rightarrow> bool" where
  "fine s0 s \<longleftrightarrow> (\<exists>U K. shell_ok s U K) \<and> others s = others s0"

lemma fineI: "shell_ok s U K \<Longrightarrow> others s = others s0 \<Longrightarrow> fine s0 s"
  by (auto simp: fine_def)

lemma fine_con [simp]: "fine s0 (con e s) = fine s0 s"
  by (simp add: fine_def)

definition safe :: "'a shell_scheme \<Rightarrow> ('b \<times> 'a shell_scheme) option \<Rightarrow> bool" where
  "safe s0 r \<longleftrightarrow> (\<exists>x s'. r = Some (x, s') \<and> fine s0 s')"

lemma make_node_safe:
  assumes ok: "shell_ok s U K" and p: "p = 0 \<or> vnodes s p \<noteq> None" and nm: "length name \<le> VFS_NAME_MAX"
  shows "safe s (make_node cmd what ty p name s)"
proof (cases "p = 0")
  case True
  then show ?thesis using fineI[OF ok refl] by (simp add: make_node_def safe_def)
next
  case False
  then obtain d where d: "vnodes s p = Some d" using p by auto
  show ?thesis
  proof (cases "is_directory d \<and> name \<noteq> []")
    case False
    then show ?thesis using \<open>p \<noteq> 0\<close> d fineI[OF ok refl] by (auto simp: make_node_def safe_def)
  next
    case True
    have fs: "fs_ok s U K" using ok by (simp add: shell_ok_def)
    obtain r s' where r: "ramfs_create p name ty s = Some (r, s')"
      "s' = s \<or> ramfs_root s' = ramfs_root s \<and> (\<exists>U K. fs_ok s' U K)"
      using ramfs_create_run[OF fs d _ nm, of ty] True by (metis (lifting))
    have "make_node cmd what ty p name s = Some (Some r, s')" using r(1) True d \<open>p \<noteq> 0\<close> by (simp add: make_node_def)
    moreover have "fine s s'"
    proof (cases "s' = s")
      case False
      have "a_directory s' b = a_directory s b" if "vnodes s b \<noteq> None" for b
        by (rule a_directory_type[OF ramfs_create_types[OF fs r(1) that]])
      then show ?thesis
        using ok r(2) False keeps_shell_cwd[OF ramfs_create_keeps[OF r(1)]] keeps_others[OF ramfs_create_keeps[OF r(1)]] shell_ok_live[OF ok]
        by (auto simp: shell_ok_def fine_def)
    qed (use fineI[OF ok refl] in simp)
    ultimately show ?thesis by (auto simp: safe_def)
  qed
qed

lemma parent_of_path_safe:
  assumes ok: "shell_ok s U K" and len: "length args \<le> VFS_NAME_MAX"
  obtains r s' where "parent_of_path e args s = Some (r, s')" "shell_ok s' U K" "others s' = others s"
    "pred_option (\<lambda>(p, name). (p = 0 \<or> vnodes s' p \<noteq> None) \<and> length name \<le> VFS_NAME_MAX) r"
proof -
  let ?dir = "butlast (rev (dropWhile (\<lambda>c. c \<noteq> slash) (rev args)))"
  let ?name = "rev (takeWhile (\<lambda>c. c \<noteq> slash) (rev args))"
  have nm: "length ?name \<le> VFS_NAME_MAX" using length_takeWhile_le[of "\<lambda>c. c \<noteq> slash" "rev args"] len by simp
  note live = shell_ok_live[OF ok]
  consider "slash \<notin> set args" | "slash \<in> set args" "?dir = []" | "slash \<in> set args" "?dir \<noteq> []" "256 \<le> length ?dir"
    | "slash \<in> set args" "?dir \<noteq> []" "length ?dir < 256" by linarith
  then show thesis
  proof cases
    case 1
    then show thesis using that[of "Some (shell_cwd s, args)" s] ok len live by (simp add: parent_of_path_def)
  next
    case 2
    then show thesis using that[of "Some (ramfs_root s, ?name)" s] ok nm live by (simp add: parent_of_path_def ramfs_get_root_def)
  next
    case 3
    then show thesis using that[of None s] ok by (simp add: parent_of_path_def Let_def)
  next
    case 4
    obtain c s' where c: "ramfs_resolve (junk e) (Some ?dir) s = Some (c, s')" "c = 0 \<or> vnodes s' c \<noteq> None" "shell_ok s' U K" "others s' = others s"
      by (rule shell_resolve[OF ok 4(2), where jk = "junk e"]) (use that in blast)
    then show thesis using that[of "Some (c, ?name)" s'] 4 nm by (simp add: parent_of_path_def Let_def)
  qed
qed

definition safe_state :: "'a shell_scheme \<Rightarrow> 'a shell_scheme option \<Rightarrow> bool" where
  "safe_state s0 r \<longleftrightarrow> (\<exists>s'. r = Some s' \<and> fine s0 s')"

lemma safe_state_Some [simp]: "safe_state s0 (Some s) = fine s0 s"
  by (auto simp: safe_state_def)

lemma safe_map: "safe s0 r \<Longrightarrow> (\<And>x s'. fine s0 s' \<Longrightarrow> fine s0 (f (x, s'))) \<Longrightarrow> safe_state s0 (map_option f r)"
  by (auto simp: safe_def safe_state_def)

lemma make_safe:
  assumes ok: "shell_ok s U K" and len: "length args \<le> VFS_NAME_MAX"
  shows "safe_state s (cmd_mkdir e args s)" "safe_state s (cmd_touch e args s)"
proof -
  obtain r s1 where r: "parent_of_path e args s = Some (r, s1)" "shell_ok s1 U K" "others s1 = others s"
    "pred_option (\<lambda>(p, name). (p = 0 \<or> vnodes s1 p \<noteq> None) \<and> length name \<le> VFS_NAME_MAX) r"
    by (rule parent_of_path_safe[OF ok len, where e = e])
  have made: "safe s (make_node c w ty p name s1)" if "r = Some (p, name)" for c w ty p name
    using make_node_safe[OF r(2)] r(3,4) that by (simp add: safe_def fine_def)
  show "safe_state s (cmd_mkdir e args s)"
    using fineI[OF ok refl] fineI[OF r(2,3)] r(1) made by (auto simp: cmd_mkdir_def split: option.split intro!: safe_map)
  show "safe_state s (cmd_touch e args s)"
    using fineI[OF ok refl] fineI[OF r(2,3)] r(1) made by (auto simp: cmd_touch_def split: option.split intro!: safe_map)
qed

lemma cd_safe:
  assumes ok: "shell_ok s U K"
  shows "safe_state s (cmd_cd e args s)"
proof -
  obtain d s1 where d: "(if args = [] \<or> args = ''/'' then Some (ramfs_get_root s, s) else ramfs_resolve (junk e) (Some args) s) = Some (d, s1)"
    "d = 0 \<or> vnodes s1 d \<noteq> None" "shell_ok s1 U K" "others s1 = others s"
  proof (cases "args = [] \<or> args = ''/''")
    case True
    then show thesis using that[of "ramfs_root s" s] ok shell_ok_live[OF ok] by (simp add: ramfs_get_root_def)
  next
    case False
    then have "args \<noteq> []" by simp
    then show thesis by (rule shell_resolve[OF ok, where jk = "junk e"]) (use that False in simp)
  qed
  show ?thesis
  proof (cases "d = 0 \<or> \<not> a_directory s1 d")
    case True
    then show ?thesis using d(2) fineI[OF d(3,4)] by (cases "vnodes s1 d") (auto simp: cmd_cd_def d(1) a_directory_def)
  next
    case False
    define s2 where "s2 = ramfs_set_cwd d (s1\<lparr>shell_cwd := d\<rparr>)"
    have "fs_ok s2 U K = fs_ok s1 U K" by (rule fs_ok_same) (simp_all add: s2_def ramfs_set_cwd_def same_heap_def)
    then have "shell_ok s2 U K" using d(3) False by (simp add: shell_ok_def s2_def ramfs_set_cwd_def a_directory_def)
    moreover have "cmd_cd e args s = Some s2" using False by (auto simp: cmd_cd_def d(1) a_directory_def s2_def)
    moreover have "others s2 = others s" using d(4) by (cases s1) (simp add: s2_def others_def ramfs_set_cwd_def)
    ultimately show ?thesis by (simp add: fineI)
  qed
qed

text \<open>What \<open>rm\<close> leaves: a sound tree, without a current directory when that is the node removed.\<close>

definition shell_lost :: "'a shell_scheme \<Rightarrow> (u32 \<Rightarrow> nat option) \<Rightarrow> (u32 \<Rightarrow> u32 list) \<Rightarrow> bool" where
  "shell_lost s U K \<longleftrightarrow> fs_ok s U K \<and> a_directory s (ramfs_root s) \<and> ramfs_cwd s = shell_cwd s \<and> shell_cwd s \<noteq> 0 \<and> vnodes s (shell_cwd s) = None"

lemma shell_lost_con [simp]: "shell_lost (con e s) U K = shell_lost s U K"
proof -
  have p: "printed s (con e s)" by (rule printed_con[OF printed_refl])
  show ?thesis using printed_fs[OF p] keeps_shell_cwd[OF keeps_cwd_printed[OF p]] by (simp add: shell_lost_def a_directory_def)
qed

lemma delete_safe:
  assumes ok: "shell_ok s U K" and a: "vnodes s a \<noteq> None"
  shows "\<exists>r s' U' K'. ramfs_delete a s = Some (r, s') \<and>
    (if a = shell_cwd s \<and> a \<noteq> ramfs_root s \<and> K a = [] then r = 0 \<and> shell_lost s' U' K' \<and> shell_cwd s' = a else shell_ok s' U' K')"
proof (cases "a = ramfs_root s")
  case True
  then have "ramfs_delete a s = Some (- 1, s)" by (simp add: ramfs_delete_def)
  then show ?thesis using ok True by auto
next
  case False
  obtain n where n: "vnodes s a = Some n" using a by auto
  have fs: "fs_ok s U K" using ok by (simp add: shell_ok_def)
  obtain r s' where r: "ramfs_delete a s = Some (r, s')"
    "if K a \<noteq> [] then r = - 2 \<and> s' = s
     else r = 0 \<and> vnodes s' a = None \<and> fs_ok s' (U(n_data n := None, a := None)) (without a K) \<and> same_nodes s s' {a} \<and> ramfs_root s' = ramfs_root s"
    using ramfs_delete_run[OF fs n False] by blast
  show ?thesis
  proof (cases "K a = []")
    case kids: True
    have dir: "a_directory s' b = a_directory s b" if "b \<noteq> a" for b
      by (rule a_directory_type[OF ramfs_delete_types[OF r(1) that]])
    note k = keeps_shell_cwd[OF ramfs_delete_keeps[OF r(1)]]
    show ?thesis
    proof (cases "a = shell_cwd s")
      case True
      then have "shell_lost s' (U(n_data n := None, a := None)) (without a K)"
        using r(2) kids k ok dir False shell_ok_live[OF ok] by (simp add: shell_lost_def shell_ok_def)
      then show ?thesis using r kids True False k by auto
    next
      case cwd: False
      then have "shell_ok s' (U(n_data n := None, a := None)) (without a K)"
        using r(2) kids k ok dir False by (simp add: shell_ok_def)
      then show ?thesis using r(1) cwd by auto
    qed
  next
    case False
    then show ?thesis using r ok by auto
  qed
qed

section \<open>Running a command on files\<close>

lemma run_file_commands:
  "run_command e ''ls'' args s = cmd_ls e args s" "run_command e ''mkdir'' args s = cmd_mkdir e args s"
  "run_command e ''touch'' args s = cmd_touch e args s" "run_command e ''cd'' args s = cmd_cd e args s"
  "run_command e ''rm'' args s = cmd_rm e args s" "run_command e ''pwd'' args s = cmd_pwd s"
  by (simp_all add: run_command_def)

lemma file_command_fine:
  assumes ok: "shell_ok s U K" and cmd: "cmd \<in> {''ls'', ''mkdir'', ''touch'', ''cd''}" and len: "length args \<le> VFS_NAME_MAX"
  shows "safe_state s (run_command e cmd args s)"
proof -
  have "safe_state s (cmd_ls e args s)" using ls_safe[OF ok] unfolding safe_state_def fine_def by blast
  with cmd make_safe[OF ok len] cd_safe[OF ok] show ?thesis by (auto simp only: run_file_commands insert_iff empty_iff)
qed

section \<open>What \<open>mkdir\<close> and \<open>touch\<close> make\<close>

lemma components_plain:
  assumes "name \<noteq> []" "slash \<notin> set name"
  shows "components name = [name]"
proof -
  have "skip_slashes name = name" using assms by (cases name) (auto simp: skip_slashes_def)
  moreover have "takeWhile (\<lambda>c. c \<noteq> slash) name = name" "dropWhile (\<lambda>c. c \<noteq> slash) name = []"
    using assms(2) by (auto simp: takeWhile_eq_all_conv dropWhile_eq_Nil_conv)
  moreover have "components [] = []" by (simp add: components.simps skip_slashes_def)
  ultimately show ?thesis using assms(1) by (subst components.simps) (simp only: Let_def if_False)
qed

text \<open>A name without slashes is looked up in the current directory.\<close>

lemma resolve_plain:
  assumes ok: "shell_ok s U K" and nm: "name \<noteq> []" "slash \<notin> set name" "length name \<le> VFS_NAME_MAX" "name \<noteq> ''.''" "name \<noteq> ''..''"
  shows "\<exists>s'. ramfs_resolve jk (Some name) s = Some (case lookup s (K (shell_cwd s)) name of None \<Rightarrow> 0 | Some c \<Rightarrow> c, s')"
proof -
  have tr: "tree_ok s K" and cwd: "ramfs_cwd s = shell_cwd s" using ok by (simp_all add: shell_ok_def fs_ok_def)
  have "hd name \<noteq> slash" using nm(1,2) by (cases name) auto
  moreover have "walk s K d [name] = lookup s (K d) name" for d using nm(3-5) by (simp add: Option.bind_eq_Some_conv split: Option.bind_split)
  ultimately show ?thesis
    using ramfs_resolve_run[OF tr shell_ok_live(1)[OF ok] _ nm(1), of jk] shell_ok_live[OF ok] cwd components_plain[OF nm(1,2)] by auto
qed

text \<open>A new, empty node of type \<open>ty\<close> in the current directory, found under its name; the rest as before.\<close>

definition made :: "u32 \<Rightarrow> string \<Rightarrow> 'a shell_scheme \<Rightarrow> (u32 \<Rightarrow> nat option) \<Rightarrow> (u32 \<Rightarrow> u32 list) \<Rightarrow> 'a shell_scheme \<Rightarrow> bool" where
  "made ty name s U K s' \<longleftrightarrow> (\<exists>p c. U p = None \<and>
     shell_ok s' (U(p \<mapsto> c)) (K(shell_cwd s := p # K (shell_cwd s), p := [])) \<and>
     (\<forall>jk. \<exists>s2. ramfs_resolve jk (Some name) s' = Some (p, s2)) \<and>
     node_type s' p = Some ty \<and> contents s' p = [] \<and> (\<forall>b. b \<noteq> p \<longrightarrow> contents s' b = contents s b))"

lemma make_node_made:
  assumes ok: "shell_ok s U K" and nm: "name \<noteq> []" "slash \<notin> set name" "length name \<le> VFS_NAME_MAX" "name \<noteq> ''.''" "name \<noteq> ''..''"
  obtains r s' where "make_node cmd what ty (shell_cwd s) name s = Some (Some r, s')" "shell_cwd s' = shell_cwd s"
    "if lookup s (K (shell_cwd s)) name \<noteq> None then s' = s else kmalloc sizeof_vfs_node s = Some (0, s) \<and> s' = s \<or> (\<forall>es. made ty name s U K (s'\<lparr>console := es\<rparr>))"
proof -
  let ?d = "shell_cwd s"
  have fs: "fs_ok s U K" using ok by (simp add: shell_ok_def)
  obtain n where n: "vnodes s ?d = Some n" "is_directory n" using ok by (auto simp: shell_ok_def a_directory_def)
  obtain r s' where r: "ramfs_create ?d name ty s = Some (r, s')"
    "if lookup s (K ?d) name \<noteq> None then r = - 2 \<and> s' = s
     else r = - 3 \<and> s' = s \<and> kmalloc sizeof_vfs_node s = Some (0, s) \<or>
       r = 0 \<and> (\<exists>p c. U p = None \<and> c \<le> 614 \<and> fs_ok s' (U(p \<mapsto> c)) (K(?d := p # K ?d, p := [])) \<and> ramfs_find ?d name s' = Some p \<and>
         map_option n_type (vnodes s' p) = Some ty \<and> contents s' p = [] \<and> same_nodes s s' {p} \<and> ramfs_root s' = ramfs_root s)"
    using ramfs_create_run[OF fs n nm(3), of ty] by blast
  note cwd = keeps_shell_cwd[OF ramfs_create_keeps[OF r(1)]]
  have run: "make_node cmd what ty ?d name s = Some (Some r, s')" using r(1) n nm(1) shell_ok_live[OF ok] by (simp add: make_node_def)
  have "made ty name s U K (s'\<lparr>console := es\<rparr>)"
    if p: "U p = None" "fs_ok s' (U(p \<mapsto> c)) (K(?d := p # K ?d, p := []))" "ramfs_find ?d name s' = Some p"
      "node_type s' p = Some ty" "contents s' p = []" "same_nodes s s' {p}" "ramfs_root s' = ramfs_root s" for p c es
  proof -
    let ?K = "K(?d := p # K ?d, p := [])" and ?t = "s'\<lparr>console := es\<rparr>"
    have dir: "a_directory s' b = a_directory s b" if "vnodes s b \<noteq> None" for b
      by (rule a_directory_type[OF ramfs_create_types[OF fs r(1) that]])
    then have s': "shell_ok s' (U(p \<mapsto> c)) ?K" using ok p(2,7) cwd shell_ok_live[OF ok] by (simp add: shell_ok_def)
    have "fs_ok ?t (U(p \<mapsto> c)) ?K = fs_ok s' (U(p \<mapsto> c)) ?K" by (rule fs_ok_same) (simp_all add: same_heap_def)
    then have t: "shell_ok ?t (U(p \<mapsto> c)) ?K" using s' by (simp add: shell_ok_def a_directory_def)
    have tr: "tree_ok s' ?K" using s' by (simp add: shell_ok_def fs_ok_def)
    have z: "p \<noteq> 0" using p(4) tree_node_0[OF tr] by auto
    obtain d' where d': "vnodes s' ?d = Some d'" using shell_ok_live(2)[OF s'] cwd by auto
    have "ramfs_find ?d name s' = call_finddir ?d name s'"
      using store_okD(4)[of s' "U(p \<mapsto> c)" ?d d'] d' s' by (simp add: ramfs_find_def shell_ok_def fs_ok_def)
    moreover have "U ?d \<noteq> None" using fs store_okD(3)[of s U ?d n] n(1) by (auto simp: fs_ok_def)
    then have "p \<noteq> ?d" using p(1) by auto
    ultimately have "lookup s' (?K ?d) name = Some p" using p(3) z call_finddir_tree[OF tr d', of name] by (simp split: option.splits)
    then have "lookup ?t (?K (shell_cwd ?t)) name = Some p" using cwd by (simp add: lookup_def name_of_def)
    then have "\<exists>s2. ramfs_resolve jk (Some name) ?t = Some (p, s2)" for jk using resolve_plain[OF t nm, of jk] by simp
    moreover have "contents ?t b = contents s' b" for b by (simp add: contents_def split: option.splits)
    ultimately show ?thesis using p(1,4-6) t by (auto simp: made_def same_nodes_def)
  qed
  then show thesis using that[OF run] r(2) cwd by (auto split: if_splits)
qed

text \<open>C36: \<open>mkdir\<close> and \<open>touch\<close> with a plain name do nothing but print when the name exists or memory is out, and
  otherwise make one empty node of the right type in the current directory, which the name then
  resolves to; all other files, and the current directory, stay as they were.\<close>

theorem make_command_correct:
  assumes "shell_ok s U K" "(cmd, ty) \<in> {(''mkdir'', FS_DIRECTORY), (''touch'', FS_FILE)}"
    and "name \<noteq> []" "slash \<notin> set name" "length name \<le> VFS_NAME_MAX" "name \<noteq> ''.''" "name \<noteq> ''..''"
  shows "\<exists>s'. run_command e cmd name s = Some s' \<and> shell_cwd s' = shell_cwd s \<and>
    (if lookup s (K (shell_cwd s)) name \<noteq> None then printed s s'
     else kmalloc sizeof_vfs_node s = Some (0, s) \<and> printed s s' \<or> made ty name s U K s')"
proof -
  have path: "parent_of_path e name s = Some (Some (shell_cwd s, name), s)" using assms(4) by (simp add: parent_of_path_def)
  obtain what where what: "cmd = ''mkdir'' \<and> what = ''directory'' \<or> cmd = ''touch'' \<and> what = ''file''" using assms(2) by auto
  obtain r s1 where r: "make_node cmd what ty (shell_cwd s) name s = Some (Some r, s1)" "shell_cwd s1 = shell_cwd s"
    "if lookup s (K (shell_cwd s)) name \<noteq> None then s1 = s else kmalloc sizeof_vfs_node s = Some (0, s) \<and> s1 = s \<or> (\<forall>es. made ty name s U K (s1\<lparr>console := es\<rparr>))"
    by (rule make_node_made[OF assms(1,3-7)])
  obtain s' where s': "run_command e cmd name s = Some s'" "printed s1 s'"
    using assms(2,3) what r(1) by (auto simp: run_file_commands cmd_mkdir_def cmd_touch_def path printed_con)
  then obtain es where es: "s' = s1\<lparr>console := es\<rparr>" by (auto simp: printed_def)
  have "shell_cwd s' = shell_cwd s" using r(2) by (simp add: es)
  then show ?thesis using s' r(3) es by (intro exI[of _ s']) (auto split: if_splits)
qed

section \<open>The properties of the commands on files\<close>


text \<open>C37: After \<open>rm .\<close> in an empty directory other than the root, the next \<open>ls\<close>, \<open>pwd\<close> or relative path follows
  the freed node: the state is one where these commands access freed memory.\<close>

theorem rm_cwd_dangling:
  assumes "shell_ok s U K" "shell_cwd s \<noteq> ramfs_root s" "K (shell_cwd s) = []"
  shows "\<exists>s'. run_command e ''rm'' ''.'' s = Some s' \<and> vnodes s' (shell_cwd s') = None \<and>
    run_command e ''ls'' [] s' = None \<and> run_command e ''pwd'' [] s' = None \<and> run_command e ''touch'' ''a'' s' = None"
proof -
  note ok = assms(1) and live = shell_ok_live[OF assms(1)]
  have tr: "tree_ok s K" and fs: "ramfs_cwd s = shell_cwd s" using ok by (simp_all add: shell_ok_def fs_ok_def)
  have "components ''.'' = [''.'']" by (simp add: components.simps skip_slashes_def slash_def)
  then obtain s1 where r: "ramfs_resolve (junk e) (Some ''.'') s = Some (shell_cwd s, s1)" "printed s s1"
    using ramfs_resolve_run[OF tr live(1), of "''.''" "junk e"] live fs by (auto simp: slash_def)
  have ok1: "shell_ok s1 U K" using ok shell_ok_printed[OF r(2)] by simp
  have same: "shell_cwd s1 = shell_cwd s" "ramfs_root s1 = ramfs_root s" "vnodes s1 = vnodes s"
    using keeps_shell_cwd[OF keeps_cwd_printed[OF r(2)]] printed_fs[OF r(2)] by simp_all
  obtain s2 U' K' where d: "ramfs_delete (shell_cwd s) s1 = Some (0, s2)" "shell_lost s2 U' K'" "shell_cwd s2 = shell_cwd s"
    using delete_safe[OF ok1, of "shell_cwd s"] assms(2,3) live by (auto simp: same)
  define s' where "s' = println ''Removed.'' s2"
  have run: "run_command e ''rm'' ''.'' s = Some s'" using r(1) live d(1) by (simp add: run_file_commands cmd_rm_def s'_def)
  have lost: "shell_cwd s' = shell_cwd s" "vnodes s' (shell_cwd s) = None" "shell_cwd s \<noteq> 0"
    using d(2,3) live by (simp_all add: shell_lost_def s'_def con_def)
  then have "cmd_ls e [] s' = None" "cmd_pwd s' = None" "cmd_touch e ''a'' s' = None"
    by (simp_all add: cmd_ls_def cmd_pwd_def print_path.simps cmd_touch_def parent_of_path_def make_node_def slash_def)
  then show ?thesis using run lost by (intro exI[of _ s']) (simp add: run_file_commands)
qed

section \<open>A shell in a subdirectory\<close>

lemma two_directories:
  obtains s U r d where "shell_ok (shell_on s) U ((\<lambda>_. [])(r := [d]))" "ramfs_root (shell_on s) = r" "shell_cwd (shell_on s) = d" "r \<noteq> d"
    "name_of (shell_on s) d = Some ''d''" "parent_of (shell_on s) d = r" "parent_of (shell_on s) r = 0"
proof -
  obtain h :: ramfs and U ps where h: "heap_ok h U" "dom U = set ps" "length ps = 2" "distinct ps" "\<And>p c. U p = Some c \<Longrightarrow> 292 \<le> c \<and> c \<le> 614"
    using alloc_some[of 2] by auto
  then obtain r d where ps: "ps = [r, d]" by (auto simp: length_Suc_conv eval_nat_numeral)
  have z: "r \<noteq> 0" "d \<noteq> 0" "r \<noteq> d" using h(2,4) live_not_0[OF h(1)] by (auto simp: ps domIff)
  have cap: "\<exists>c. U x = Some c \<and> 292 \<le> c" if "x \<in> {r, d}" for x
  proof -
    have "x \<in> dom U" using that h(2) by (simp add: ps)
    then show ?thesis using h(5) by blast
  qed
  define nr where "nr = (new_node ''/'' FS_DIRECTORY)\<lparr>n_children := d\<rparr>"
  define nd where "nd = (new_node ''d'' FS_DIRECTORY)\<lparr>n_parent := r\<rparr>"
  note n = nr_def nd_def new_node_def is_directory_def FS_DIRECTORY_def fns_ok_def
  define s where "s = h\<lparr>vnodes := [r \<mapsto> nr, d \<mapsto> nd], ramfs_root := r, ramfs_cwd := d, vfiles := (\<lambda>_. None)\<rparr>"
  have v: "vnodes s = [r \<mapsto> nr, d \<mapsto> nd]" "vfiles s = (\<lambda>_. None)" by (simp_all add: s_def)
  have "store_ok s U"
    unfolding store_ok_def data_ok_def data_of_def using h(1) cap by (auto simp: v n s_def)
  moreover have "tree_ok s ((\<lambda>_. [])(r := [d]))"
    using z by (auto simp: tree_ok_def dir_ok_def sib_def v parent_of_def n)
  ultimately have "fs_ok s U ((\<lambda>_. [])(r := [d]))" by (simp add: fs_ok_def)
  moreover have "same_heap s (shell_on s)" "vnodes (shell_on s) = vnodes s" "vfiles (shell_on s) = vfiles s"
    "ramfs_root (shell_on s) = r" "ramfs_cwd (shell_on s) = d" "shell_cwd (shell_on s) = d"
    by (simp_all add: shell_on_def same_heap_def s_def)
  ultimately have "shell_ok (shell_on s) U ((\<lambda>_. [])(r := [d]))" and "vnodes (shell_on s) = [r \<mapsto> nr, d \<mapsto> nd]"
    "ramfs_root (shell_on s) = r" "shell_cwd (shell_on s) = d"
    using fs_ok_same[of s "shell_on s"] by (simp_all add: shell_ok_def a_directory_def v n)
  then show thesis using z by (intro that[of s U r d]) (simp_all add: name_of_def parent_of_def n)
qed

theorem make_command_correct_witness:
  "\<forall>e. \<exists>(s :: shell) s' U K. run_command e ''touch'' ''x'' s = Some s' \<and> shell_cwd s' = shell_cwd s \<and>
    (kmalloc sizeof_vfs_node s = Some (0, s) \<or> made FS_FILE ''x'' s U K s')"
proof
  fix e
  obtain s U r d where ok: "shell_ok (shell_on s) U ((\<lambda>_. [])(r := [d]))" "shell_cwd (shell_on s) = d" "r \<noteq> d"
    by (rule two_directories)
  then show "\<exists>(s :: shell) s' U K. run_command e ''touch'' ''x'' s = Some s' \<and> shell_cwd s' = shell_cwd s \<and>
    (kmalloc sizeof_vfs_node s = Some (0, s) \<or> made FS_FILE ''x'' s U K s')"
    using make_command_correct[OF ok(1), of "''touch''" FS_FILE "''x''" e] by (auto simp: slash_def lookup_def)
qed


theorem rm_cwd_dangling_witness:
  "\<forall>e. \<exists>(s :: shell) s'. run_command e ''rm'' ''.'' s = Some s' \<and> run_command e ''ls'' [] s' = None"
proof
  fix e
  obtain s U r d where ok: "shell_ok (shell_on s) U ((\<lambda>_. [])(r := [d]))" "ramfs_root (shell_on s) = r" "shell_cwd (shell_on s) = d" "r \<noteq> d"
    by (rule two_directories)
  then show "\<exists>(s :: shell) s'. run_command e ''rm'' ''.'' s = Some s' \<and> run_command e ''ls'' [] s' = None"
    using rm_cwd_dangling[OF ok(1), of e] by auto
qed

end
