(* ===== verification/Kernel_Loop.thy ===== *)
theory Kernel_Loop
  imports Kernel Shell_Files Line_Edit_Spec Keyboard_Spec
begin

text \<open>
  The kernel's main loop: what the interrupt handler has put into the ring of the keyboard driver
  reaches the shell in order, character by character, and whole sessions of file commands leave the
  shell sound and ready for the next.
\<close>

section \<open>The ring as the loop sees it\<close>

definition queued :: "'a tty_scheme \<Rightarrow> u8 list" where
  "queued s = typed_ahead (driver s)"

definition ring_ok :: "'a tty_scheme \<Rightarrow> bool" where
  "ring_ok s \<longleftrightarrow> kb_ok (driver s)"

definition quiet :: "'a tty_scheme \<Rightarrow> bool" where
  "quiet s \<longleftrightarrow> (\<forall>n \<ge> polls s. typed s n = [])"

lemma driver_more [simp]: "machine.more (driver s) = kbd s"
  by (simp add: driver_def machine.defs)

lemma ring_more:
  fixes r r' :: keyboard
  assumes "machine.more r = machine.more r'"
  shows "typed_ahead r = typed_ahead r'" "kb_ok r = kb_ok r'"
proof -
  have "key_buffer r = key_buffer r'" "key_head r = key_head r'" "key_tail r = key_tail r'"
    using assms by (cases r; cases r'; simp)+
  then show "typed_ahead r = typed_ahead r'" "kb_ok r = kb_ok r'" by (simp_all add: typed_ahead_def kb_ok_def)
qed

lemma ring_driver:
  assumes "kbd s = machine.more k"
  shows "queued s = typed_ahead k" "ring_ok s = kb_ok k"
  unfolding queued_def ring_ok_def by (rule ring_more; simp add: assms)+

lemma driver_same:
  assumes "kbd s' = kbd s"
  shows "queued s' = queued s" "ring_ok s' = ring_ok s"
  using ring_driver[of s' "driver s"] assms by (simp_all add: queued_def ring_ok_def)

lemma read_first:
  assumes "ring_ok s" "queued s = c # rs"
  obtains k where "read_char s = (c, s\<lparr>kbd := k\<rparr>)" "ring_ok (s\<lparr>kbd := k\<rparr>)" "queued (s\<lparr>kbd := k\<rparr>) = rs"
proof -
  obtain d k where k: "keyboard_get_char (driver s) = (d, k)" by (cases "keyboard_get_char (driver s)")
  have "kb_ok k" "typed_ahead (driver s) = d # typed_ahead k"
    using kbq.get_first[of "driver s"] assms k by (simp_all add: ring_ok_def queued_def)
  then show thesis using assms(2) by (intro that[of "machine.more k"]) (simp_all add: read_char_def k queued_def[of s] ring_driver[of _ k])
qed

section \<open>One character\<close>

definition serve :: "stack \<Rightarrow> 'a shell_scheme \<Rightarrow> ('a shell_scheme + 'a shell_scheme) option" where
  "serve e s =
     (if queued s = [] then Some (Inr s)
      else let (c, s) = read_char s
        in Option.bind (shell_feed_char e (char_of (unat c)) s) (\<lambda>r. case r of Inl s \<Rightarrow> Some (Inl s) | Inr s \<Rightarrow> feed_typed e s))"

lemma feed_serve:
  assumes "ring_ok (snd (poll_has_char s))"
  shows "feed_typed e s = serve e (snd (poll_has_char s))"
proof -
  let ?k = "fold (\<lambda>c k. snd (buffer_put c k)) (typed s (polls s)) (driver s)"
  have p: "poll_has_char s = (keyboard_has_char ?k, snd (poll_has_char s))" "kbd (snd (poll_has_char s)) = machine.more ?k"
    by (simp_all add: poll_has_char_def Let_def)
  have "fst (poll_has_char s) \<longleftrightarrow> queued (snd (poll_has_char s)) \<noteq> []"
    using assms kbq.nonempty_iff[of ?k] unfolding ring_driver[OF p(2)] by (subst p(1)) simp
  then show ?thesis by (subst feed_typed.simps) (cases "poll_has_char s"; simp add: serve_def)
qed

text \<open>Between two characters of a session: the shell is sound, the line editor is, nothing more is typed.\<close>

definition ready :: "'a shell_scheme \<Rightarrow> bool" where
  "ready s \<longleftrightarrow> (\<exists>U K. shell_ok s U K) \<and> line_ok s \<and> esc_state s = ESC_NONE \<and> ring_ok s \<and> quiet s"

text \<open>The same heap, files and current directory.\<close>

definition same_files :: "'a shell_scheme \<Rightarrow> 'a shell_scheme \<Rightarrow> bool" where
  "same_files s s' \<longleftrightarrow> same_heap s s' \<and> vnodes s' = vnodes s \<and> vfiles s' = vfiles s \<and> ramfs_root s' = ramfs_root s \<and>
     ramfs_cwd s' = ramfs_cwd s \<and> shell_cwd s' = shell_cwd s"

lemma same_files_refl [simp]: "same_files s s"
  by (simp add: same_files_def same_heap_def)

lemma same_files_trans: "same_files s s' \<Longrightarrow> same_files s' s'' \<Longrightarrow> same_files s s''"
  by (simp add: same_files_def same_heap_def)

lemma shell_ok_cong:
  assumes "same_files s s'"
  shows "shell_ok s' U K = shell_ok s U K"
  using fs_ok_same[of s s'] assms by (simp add: same_files_def shell_ok_def a_directory_def)

text \<open>The commands run on the files one after the other, and nothing else changes these in between.\<close>

primrec session :: "stack \<Rightarrow> (string \<times> string) list \<Rightarrow> 'a shell_scheme \<Rightarrow> 'a shell_scheme \<Rightarrow> bool" where
  "session e [] s s' \<longleftrightarrow> same_files s s'"
| "session e (ca # cas) s s' \<longleftrightarrow>
     (\<exists>t u. same_files s t \<and> run_command e (fst ca) (snd ca) t = Some u \<and> session e cas u s')"

lemma session_before: "same_files s0 s \<Longrightarrow> session e cas s s' \<Longrightarrow> session e cas s0 s'"
  by (cases cas) (auto intro: same_files_trans)

lemma session_Cons:
  assumes "session e [ca] s u" "session e cas u s'"
  shows "session e (ca # cas) s s'"
proof -
  obtain t v where "same_files s t" "run_command e (fst ca) (snd ca) t = Some v" "same_files v u" using assms(1) by auto
  then show ?thesis using session_before[OF _ assms(2), of v] by auto
qed

lemma feed_quiet:
  assumes "ready s"
  shows "feed_typed e s = serve e (s\<lparr>polls := Suc (polls s)\<rparr>)" "ready (s\<lparr>polls := Suc (polls s)\<rparr>)"
    "queued (s\<lparr>polls := Suc (polls s)\<rparr>) = queued s" "zip_of (s\<lparr>polls := Suc (polls s)\<rparr>) = zip_of s"
    "same_files s (s\<lparr>polls := Suc (polls s)\<rparr>)"
proof -
  let ?s = "s\<lparr>polls := Suc (polls s)\<rparr>"
  have p: "snd (poll_has_char s) = ?s" using assms by (simp add: poll_has_char_def Let_def ready_def quiet_def)
  have "ring_ok ?s" "quiet ?s" using assms driver_same[of ?s s] by (simp_all add: ready_def quiet_def)
  then show "feed_typed e s = serve e ?s" using feed_serve[of s] by (simp add: p)
  show same: "same_files s ?s" by (simp add: same_files_def same_heap_def)
  have "shell_ok ?s U K = shell_ok s U K" for U K by (rule shell_ok_cong[OF same])
  then show "ready ?s" using assms \<open>ring_ok ?s\<close> \<open>quiet ?s\<close> by (simp add: ready_def line_ok_def entry_ok_def esc_ok_def)
  show "queued ?s = queued s" by (rule driver_same) simp
  show "zip_of ?s = zip_of s" by (simp add: zip_of_def)
qed

text \<open>The state a step leaves, up to the poll before the next.\<close>

lemma serve_step:
  assumes "ring_ok s" "queued s = c # rs" "shell_feed_char e (char_of (unat c)) (s\<lparr>kbd := k\<rparr>) = Some (Inr s')" "ready s'"
    "read_char s = (c, s\<lparr>kbd := k\<rparr>)"
  shows "serve e s = serve e (s'\<lparr>polls := Suc (polls s')\<rparr>)"
  using assms feed_quiet(1)[OF assms(4), of e] by (simp add: serve_def)

lemma insert_frame:
  "kbd (shell_insert_char c s) = kbd s" "typed (shell_insert_char c s) = typed s" "polls (shell_insert_char c s) = polls s"
  "hmem (shell_insert_char c s) = hmem s" "free_lists (shell_insert_char c s) = free_lists s"
  "vnodes (shell_insert_char c s) = vnodes s" "vfiles (shell_insert_char c s) = vfiles s" "ramfs_root (shell_insert_char c s) = ramfs_root s"
  "ramfs_cwd (shell_insert_char c s) = ramfs_cwd s" "esc_state (shell_insert_char c s) = esc_state s"
  by (simp_all add: shell_insert_char_def Let_def shell_redraw_line_def con_def)

lemma insert_cwd: "shell_cwd (shell_insert_char c s) = shell_cwd s"
  by (simp add: shell_insert_char_def Let_def shell_redraw_line_def con_def)

lemma char_byte: "char_of (unat (of_char c :: u8)) = c"
proof -
  have "(of_char c :: u8) = of_nat (of_char c)" by (simp only: of_nat_of_char)
  then have "unat (of_char c :: u8) = of_char c mod 256" by (simp only: unat_of_nat) simp
  then show ?thesis by simp
qed

lemma serve_char:
  assumes r: "ready s" and q: "queued s = of_char c # rs" and c: "printable c" and z: "zip_of s = (l, [])" "length l < 255"
  obtains s' where "serve e s = serve e s'" "ready s'" "queued s' = rs" "zip_of s' = (l @ [c], [])" "same_files s s'"
proof -
  have ring: "ring_ok s" using r by (simp add: ready_def)
  obtain k where k: "read_char s = (of_char c, s\<lparr>kbd := k\<rparr>)" "ring_ok (s\<lparr>kbd := k\<rparr>)" "queued (s\<lparr>kbd := k\<rparr>) = rs"
    by (rule read_first[OF ring q])
  let ?u = "s\<lparr>kbd := k\<rparr>"
  let ?v = "shell_insert_char c ?u"
  have u: "line_ok ?u" "zip_of ?u = (l, [])" "esc_state ?u = ESC_NONE" "quiet ?u"
    using r z by (simp_all add: ready_def line_ok_def entry_ok_def esc_ok_def zip_of_def quiet_def)
  have ch: "char_of (unat (of_char c :: u8)) = c" by (rule char_byte)
  have "c \<noteq> CHR 0x0A" "edit_char c ?u = ?v" using c u(3) by (auto simp: edit_char_def printable_def)
  then have run: "shell_feed_char e (char_of (unat (of_char c :: u8))) ?u = Some (Inr ?v)" by (simp add: shell_feed_char_def ch)
  have same: "same_files s ?v" by (simp add: same_files_def same_heap_def insert_frame insert_cwd)
  have "shell_ok ?v U K = shell_ok s U K" for U K by (rule shell_ok_cong[OF same])
  then have v: "ready ?v" using insert_zip(1)[OF u(1) c] u(3,4) r k(2) driver_same[of ?v ?u]
    by (simp add: ready_def insert_frame quiet_def)
  have "zip_of ?v = (l @ [c], [])" "queued ?v = rs"
    using insert_zip(2)[OF u(1) c] u(2) z(2) k(3) driver_same[of ?v ?u] by (simp_all add: insert_frame)
  then show thesis
    using that[OF serve_step[OF ring q run v k(1)]] feed_quiet(2-4)[OF v] same_files_trans[OF same feed_quiet(5)[OF v]] by simp
qed

lemma serve_text:
  "ready s \<Longrightarrow> queued s = map of_char t @ rs \<Longrightarrow> \<forall>c \<in> set t. printable c \<Longrightarrow> zip_of s = (l, []) \<Longrightarrow> length l + length t \<le> 255 \<Longrightarrow>
    \<exists>s'. serve e s = serve e s' \<and> ready s' \<and> queued s' = rs \<and> zip_of s' = (l @ t, []) \<and> same_files s s'"
proof (induction t arbitrary: s l)
  case (Cons c t)
  obtain u where u: "serve e s = serve e u" "ready u" "queued u = map of_char t @ rs" "zip_of u = (l @ [c], [])" "same_files s u"
    by (rule serve_char[OF Cons.prems(1) _ _ Cons.prems(4)]) (use Cons.prems in auto)
  then obtain s' where "serve e u = serve e s'" "ready s'" "queued s' = rs" "zip_of s' = (l @ c # t, [])" "same_files u s'"
    using Cons.IH[of u "l @ [c]"] Cons.prems by auto
  then show ?case using u(1) same_files_trans[OF u(5)] by metis
qed auto

section \<open>One line\<close>

lemma others_eq:
  assumes "others s' = others s"
  shows "kbd s' = kbd s" "typed s' = typed s" "polls s' = polls s" "cmd_buffer s' = cmd_buffer s" "cmd_pos s' = cmd_pos s"
    "cmd_len s' = cmd_len s" "history s' = history s" "history_count s' = history_count s" "history_index s' = history_index s"
    "esc_state s' = esc_state s" "esc_buf s' = esc_buf s" "esc_pos s' = esc_pos s"
  using assms by (cases s; cases s'; simp add: others_def)+

definition typed_line :: "string \<times> string \<Rightarrow> string" where
  "typed_line ca = (case ca of (cmd, args) \<Rightarrow> cmd @ (if args = [] then [] else '' '' @ args))"

definition file_line :: "string \<times> string \<Rightarrow> bool" where
  "file_line ca \<longleftrightarrow> (case ca of (cmd, args) \<Rightarrow> cmd \<in> {''ls'', ''mkdir'', ''touch'', ''cd''} \<and> (\<forall>c \<in> set args. printable c) \<and>
     (args \<noteq> [] \<longrightarrow> hd args \<noteq> CHR '' ''))"

lemma file_line_split:
  assumes "file_line (cmd, args)"
  shows "split_command (typed_line (cmd, args)) = (cmd, args)" "typed_line (cmd, args) \<noteq> []" "\<forall>c \<in> set (typed_line (cmd, args)). printable c"
proof -
  have a: "dropWhile (\<lambda>c. c = CHR '' '') args = args" using assms by (cases args) (simp_all add: file_line_def)
  have cmd: "cmd \<in> {''ls'', ''mkdir'', ''touch'', ''cd''}" using assms by (simp add: file_line_def)
  then show "split_command (typed_line (cmd, args)) = (cmd, args)"
    using a by (auto simp: split_command_def typed_line_def Let_def)
  show "typed_line (cmd, args) \<noteq> []" using cmd by (auto simp: typed_line_def)
  show "\<forall>c \<in> set (typed_line (cmd, args)). printable c"
    using assms cmd by (auto simp: typed_line_def file_line_def printable_def)
qed

lemma c_string_terminated:
  assumes "n < length b" "\<forall>c \<in> set (take n b). c \<noteq> NUL"
  shows "c_string (b[n := NUL]) = take n b"
  using assms takeWhile_tail[of "\<lambda>c. c \<noteq> NUL" NUL "take n b" "drop (Suc n) b"]
  by (simp add: c_string_def upd_conv_take_nth_drop takeWhile_append2)

lemma add_history_frame:
  "kbd (shell_add_history t s) = kbd s" "typed (shell_add_history t s) = typed s" "polls (shell_add_history t s) = polls s"
  "hmem (shell_add_history t s) = hmem s" "free_lists (shell_add_history t s) = free_lists s" "vnodes (shell_add_history t s) = vnodes s"
  "vfiles (shell_add_history t s) = vfiles s" "ramfs_root (shell_add_history t s) = ramfs_root s" "ramfs_cwd (shell_add_history t s) = ramfs_cwd s"
  "esc_state (shell_add_history t s) = esc_state s"
  by (simp_all add: shell_add_history_def)

lemma add_history_cwd: "shell_cwd (shell_add_history t s) = shell_cwd s"
  by (simp add: shell_add_history_def)

lemma zip_len: "line_ok s \<Longrightarrow> zip_of s = (l, []) \<Longrightarrow> take (cmd_len s) (cmd_buffer s) = l \<and> cmd_len s = length l"
  using line_okD[of s] by (auto simp: zip_of_def)

text \<open>Enter runs the line and leaves an empty one.\<close>

lemma enter_file_line:
  assumes r: "ready s" and z: "zip_of s = (typed_line (cmd, args), [])" and f: "file_line (cmd, args)"
  obtains s' where "enter_line e s = Some (Inr s')" "ready s'" "queued s' = queued s" "zip_of s' = ([], [])"
    "session e [(cmd, args)] s s'"
proof -
  let ?t = "typed_line (cmd, args)"
  have ln: "line_ok s" and ring: "ring_ok s" using r by (simp_all add: ready_def)
  note o = line_okD[OF ln] and t = file_line_split[OF f] and len = zip_len[OF ln z]
  let ?s = "viprint newline s"
  let ?b = "?s\<lparr>cmd_buffer := (cmd_buffer ?s)[cmd_len ?s := NUL]\<rparr>"
  let ?h = "shell_add_history ?t ?b"
  have pos: "cmd_len s > 0" using t(2) len by simp
  have entry: "entry_ok ?t" using t(3) o len by (simp add: entry_ok_def)
  have line: "c_string (cmd_buffer ?b) = ?t"
  proof -
    have "cmd_len s < length (cmd_buffer s)" using o by simp
    from c_string_terminated[OF this] have "c_string ((cmd_buffer s)[cmd_len s := NUL]) = ?t"
      using entry_no_nul[OF entry] conjunct1[OF len] by (simp only:)
    then show ?thesis by (simp add: con_def)
  qed
  have before: "same_files s ?h" by (simp add: same_files_def same_heap_def add_history_frame add_history_cwd con_def)
  have same: "shell_ok ?h U K = shell_ok s U K" for U K by (rule shell_ok_cong[OF before])
  obtain U K where ok: "shell_ok s U K" using r by (auto simp: ready_def)
  have b: "line_ok ?b" using ln o by (simp add: line_ok_def entry_ok_def esc_ok_def con_def)
  have h: "line_ok ?h" by (rule add_history_ok[OF b entry])
  have "length args \<le> VFS_NAME_MAX" using o(3) len by (auto simp: typed_line_def split: if_splits)
  then have "safe_state ?h (run_command e cmd args ?h)"
    using f same ok by (intro file_command_fine[of ?h U K]) (simp_all add: file_line_def)
  then obtain s2 U' K' where s2: "run_command e cmd args ?h = Some s2" "shell_ok s2 U' K'" "others s2 = others ?h"
    by (auto simp: safe_state_def fine_def)
  note eq = others_eq[OF s2(3)]
  let ?s3 = "s2\<lparr>cmd_len := 0, cmd_pos := 0, history_index := - 1\<rparr>"
  define s' where "s' = viprint PROMPT ?s3"
  have "cmd \<noteq> ''shutdown''" "cmd \<noteq> ''reboot''" using f by (auto simp: file_line_def)
  then have "shell_process_line e ?t ?h = Some (Inr s2)" using t(1,2) s2(1) by (simp add: shell_process_line_def)
  then have run: "enter_line e s = Some (Inr s')"
    using pos line by (simp add: enter_line_def Let_def s'_def con_def[of _ s])
  have after: "same_files s2 s'" by (simp add: s'_def same_files_def same_heap_def con_def)
  have s3: "shell_ok s' U' K' = shell_ok s2 U' K'" by (rule shell_ok_cong[OF after])
  have "line_ok s'" using h eq by (simp add: s'_def line_ok_def entry_ok_def esc_ok_def con_def)
  moreover have kb: "kbd s' = kbd s" "typed s' = typed s" "polls s' = polls s" "esc_state s' = esc_state s"
    using eq by (simp_all add: s'_def con_def add_history_frame)
  ultimately have "ready s'" using r s3 s2(2) driver_same[OF kb(1)] by (auto simp: ready_def quiet_def)
  moreover have "zip_of s' = ([], [])" by (simp add: s'_def zip_of_def con_def)
  moreover have "session e [(cmd, args)] s s'" using before s2(1) after by auto
  ultimately show thesis using that run driver_same[OF kb(1)] by blast
qed

lemma serve_line:
  assumes r: "ready s" and f: "file_line ca" and z: "zip_of s = ([], [])" and len: "length (typed_line ca) \<le> 255"
    and q: "queued s = map of_char (typed_line ca @ newline) @ rs"
  obtains s' where "serve e s = serve e s'" "ready s'" "queued s' = rs" "zip_of s' = ([], [])" "session e [ca] s s'"
proof -
  obtain cmd args where ca: "ca = (cmd, args)" by (cases ca)
  note t = file_line_split[OF f[unfolded ca]]
  obtain u where u: "serve e s = serve e u" "ready u" "queued u = of_char (CHR 0x0A) # rs" "zip_of u = (typed_line ca, [])"
    "same_files s u"
    using serve_text[OF r, of "typed_line ca" "of_char (CHR 0x0A) # rs" "[]"] q z len t(3) ca by auto
  have ring: "ring_ok u" using u(2) by (simp add: ready_def)
  obtain k where k: "read_char u = (of_char (CHR 0x0A), u\<lparr>kbd := k\<rparr>)" "ring_ok (u\<lparr>kbd := k\<rparr>)" "queued (u\<lparr>kbd := k\<rparr>) = rs"
    by (rule read_first[OF ring u(3)])
  let ?u = "u\<lparr>kbd := k\<rparr>"
  have read: "same_files u ?u" by (simp add: same_files_def same_heap_def)
  have same: "shell_ok ?u U K = shell_ok u U K" for U K by (rule shell_ok_cong[OF read])
  have ru: "ready ?u" "zip_of ?u = (typed_line ca, [])"
    using u(2,4) k(2) same by (simp_all add: ready_def line_ok_def entry_ok_def esc_ok_def quiet_def zip_of_def)
  obtain v where v: "enter_line e ?u = Some (Inr v)" "ready v" "queued v = queued ?u" "zip_of v = ([], [])"
    "session e [ca] ?u v" unfolding ca
    by (rule enter_file_line[OF ru(1) ru(2)[unfolded ca] f[unfolded ca]])
  have "shell_feed_char e (char_of (unat (of_char (CHR 0x0A) :: u8))) ?u = Some (Inr v)"
    unfolding char_byte using v(1) ru(1) by (simp add: shell_feed_char_def ready_def)
  from serve_step[OF ring u(3) this v(2) k(1)] have "serve e s = serve e (v\<lparr>polls := Suc (polls v)\<rparr>)" using u(1) by simp
  moreover have "session e [ca] s (v\<lparr>polls := Suc (polls v)\<rparr>)"
    using session_before[OF same_files_trans[OF u(5) read] v(5)] same_files_trans[OF _ feed_quiet(5)[OF v(2)]] by auto
  ultimately show thesis using that feed_quiet(2-4)[OF v(2)] v(3,4) k(3) by metis
qed

definition typing :: "(string \<times> string) list \<Rightarrow> string" where
  "typing cmds = concat (map (\<lambda>ca. typed_line ca @ newline) cmds)"

lemma serve_session:
  "ready s \<Longrightarrow> zip_of s = ([], []) \<Longrightarrow> \<forall>ca \<in> set cmds. file_line ca \<Longrightarrow> length (typing cmds) \<le> 255 \<Longrightarrow>
    queued s = map of_char (typing cmds) \<Longrightarrow>
    \<exists>s'. serve e s = Some (Inr s') \<and> ready s' \<and> queued s' = [] \<and> zip_of s' = ([], []) \<and> session e cmds s s'"
proof (induction cmds arbitrary: s)
  case Nil
  then show ?case by (intro exI[of _ s]) (simp add: serve_def typing_def)
next
  case (Cons ca cmds)
  have t: "typing (ca # cmds) = typed_line ca @ newline @ typing cmds" by (simp add: typing_def)
  obtain u where u: "serve e s = serve e u" "ready u" "queued u = map of_char (typing cmds)" "zip_of u = ([], [])"
    "session e [ca] s u"
    by (rule serve_line[OF Cons.prems(1) _ Cons.prems(2), of ca "map of_char (typing cmds)" e])
      (use Cons.prems t in auto)
  then obtain s' where s': "serve e u = Some (Inr s')" "ready s'" "queued s' = []" "zip_of s' = ([], [])" "session e cmds u s'"
    using Cons.IH[OF u(2,4)] Cons.prems t by auto
  have "session e (ca # cmds) s s'" by (rule session_Cons[OF u(5) s'(5)])
  then show ?case using u(1) s' by auto
qed

lemma fold_puts:
  "kb_ok k \<Longrightarrow> length (typed_ahead k) + length w \<le> 255 \<Longrightarrow>
    kb_ok (fold (\<lambda>c k. snd (buffer_put c k)) w k) \<and> typed_ahead (fold (\<lambda>c k. snd (buffer_put c k)) w k) = typed_ahead k @ w"
proof (induction w arbitrary: k)
  case (Cons c w)
  then show ?case using kbq.put_room[of k c] by simp
qed simp

section \<open>One round of the main loop\<close>

text \<open>The typed lines enter the ring at the start of a round and are served one by one.\<close>

lemma round_session:
  assumes "shell_ok s U K" "line_ok s" "cmd_len s = 0" "esc_state s = ESC_NONE" "ring_ok s" "queued s = []"
    and "\<forall>ca \<in> set cmds. file_line ca" "length (typing cmds) \<le> 255"
    and "typed s (polls s) = map of_char (typing cmds)" "\<forall>n > polls s. typed s n = []"
  shows "\<exists>s' U' K'. kernel_round e s = Some (Inr s') \<and> shell_ok s' U' K' \<and> line_ok s' \<and> cmd_len s' = 0 \<and>
    esc_state s' = ESC_NONE \<and> ring_ok s' \<and> queued s' = [] \<and> session e cmds s s'"
proof -
  let ?w = "cli (sti s)"
  let ?k = "fold (\<lambda>c k. snd (buffer_put c k)) (typed s (polls s)) (driver ?w)"
  define u where "u = snd (poll_has_char ?w)"
  have u: "u = ?w\<lparr>kbd := machine.more ?k, polls := Suc (polls s)\<rparr>"
    by (simp add: u_def poll_has_char_def Let_def cli_def sti_def)
  have "kbd ?w = kbd s" by (simp add: cli_def sti_def)
  from driver_same[OF this] have "kb_ok (driver ?w)" "typed_ahead (driver ?w) = []"
    using assms(5,6) by (simp_all add: ring_ok_def queued_def)
  then have k: "kb_ok ?k" "typed_ahead ?k = map of_char (typing cmds)" using fold_puts[of "driver ?w" "typed s (polls s)"] assms(8,9) by simp_all
  have kbd: "kbd u = machine.more ?k" by (simp add: u)
  have ring: "ring_ok u" "queued u = map of_char (typing cmds)" using ring_driver[OF kbd] k by simp_all
  have same: "same_files s u" by (simp add: u same_files_def same_heap_def cli_def sti_def)
  have "shell_ok u U K = shell_ok s U K" by (rule shell_ok_cong[OF same])
  then have "ready u"
    using assms ring by (auto simp: ready_def quiet_def u line_ok_def entry_ok_def esc_ok_def cli_def sti_def)
  moreover have "zip_of u = ([], [])" using assms(2,3) by (simp add: zip_of_def u cli_def sti_def line_ok_def)
  ultimately obtain s' where s': "serve e u = Some (Inr s')" "ready s'" "queued s' = []" "zip_of s' = ([], [])"
    "session e cmds u s'"
    using serve_session[of u cmds e] assms(7,8) ring(2) by blast
  have "kernel_round e s = Some (Inr s')" unfolding kernel_round_def using feed_serve[of ?w e] ring(1) s'(1) by (simp add: u_def)
  moreover have "cmd_len s' = 0" using zip_len[of s' "[]"] s'(2,4) by (simp add: ready_def)
  ultimately show ?thesis using s'(2,3) session_before[OF same s'(5)] by (auto simp: ready_def)
qed

end
