(* ===== verification/Kernel_Boot.thy ===== *)
theory Kernel_Boot
  imports Kernel_Loop
begin

text \<open>
  What the start of the kernel establishes: from the C file's initial variables and a memory map that
  can be parsed, every component is in the state the shell's commands and the main loop need.
\<close>

section \<open>Running on a part of the state\<close>

lemma set_machine_keeps [simp]:
  "hmem (set_machine k s) = hmem s" "free_lists (set_machine k s) = free_lists s" "vnodes (set_machine k s) = vnodes s"
  "vfiles (set_machine k s) = vfiles s" "ramfs_root (set_machine k s) = ramfs_root s" "ramfs_cwd (set_machine k s) = ramfs_cwd s"
  "kbd (set_machine k s) = kbd s" "typed (set_machine k s) = typed s" "polls (set_machine k s) = polls s"
  "cmd_buffer (set_machine k s) = cmd_buffer s" "cmd_pos (set_machine k s) = cmd_pos s" "cmd_len (set_machine k s) = cmd_len s"
  by (cases s; simp add: set_machine_def machine.defs)+

lemma set_machine_keeps' [simp]:
  "history (set_machine k s) = history s" "history_count (set_machine k s) = history_count s"
  "history_index (set_machine k s) = history_index s" "esc_state (set_machine k s) = esc_state s" "esc_buf (set_machine k s) = esc_buf s"
  "esc_pos (set_machine k s) = esc_pos s" "shell_cwd (set_machine k s) = shell_cwd s" "sh_mem (set_machine k s) = sh_mem s"
  "sh_down (set_machine k s) = sh_down s" "sh_cr0 (set_machine k s) = sh_cr0 s" "sh_cr3 (set_machine k s) = sh_cr3 s"
  by (cases s; simp add: set_machine_def machine.defs)+

lemma set_machine_ints [simp]: "k_ints (set_machine k s) = k_ints s"
  by (cases s) (simp add: set_machine_def machine.defs)

lemma set_machine_machine [simp]:
  "console (set_machine k s) = console k" "port_out (set_machine k s) = port_out k" "iflag (set_machine k s) = iflag k"
  by (simp_all add: set_machine_def machine.defs)

text \<open>What the boot code leaves alone until it comes to it: the line editor, the files, what will be typed.\<close>

definition same_base :: "'a shell_scheme \<Rightarrow> 'a shell_scheme \<Rightarrow> bool" where
  "same_base s s' \<longleftrightarrow> vnodes s' = vnodes s \<and> vfiles s' = vfiles s \<and> ramfs_root s' = ramfs_root s \<and> ramfs_cwd s' = ramfs_cwd s \<and>
     typed s' = typed s \<and> polls s' = polls s \<and> cmd_buffer s' = cmd_buffer s \<and> history s' = history s \<and>
     history_count s' = history_count s \<and> esc_buf s' = esc_buf s \<and> esc_pos s' = esc_pos s"

lemma same_base_trans: "same_base s s' \<Longrightarrow> same_base s' s'' \<Longrightarrow> same_base s s''"
  by (simp add: same_base_def)

lemma same_base_steps [simp]:
  "same_base s (con e s') = same_base s s'" "same_base s (put_timers k s') = same_base s s'"
  "same_base s (put_memory m s') = same_base s s'" "same_base s (put_paging p s') = same_base s s'"
  "same_base s (outb a v s') = same_base s s'" "same_base s (cli s') = same_base s s'" "same_base s (sti s') = same_base s s'"
  "same_base s (snd (port_read a s')) = same_base s s'"
  by (simp_all add: same_base_def con_def put_timers_def put_memory_def put_paging_def outb_def cli_def sti_def port_read_def)

lemma same_base_ints [simp]: "same_base s (put_ints k s') = same_base s s'"
  by (simp add: same_base_def put_ints_def)

lemma same_base_tables [simp]: "same_base s (setup_gdt_and_tss y s') = same_base s s'"
  by (simp add: same_base_def setup_gdt_and_tss_def Let_def)

section \<open>The shutdown timer\<close>

lemma timers_more:
  fixes k k' :: shutdown
  assumes "machine.more k = machine.more k'"
  shows "sd_ok k xs = sd_ok k' xs" "sd_active k = sd_active k'" "sd_mode k = sd_mode k'" "tobj k = tobj k'" "tick_count k = tick_count k'"
proof -
  have f: "timer_queue k = timer_queue k'" "timer_lock k = timer_lock k'" "tobj k = tobj k'" "tick_count k = tick_count k'"
    "sd_active k = sd_active k'" "sd_mode k = sd_mode k'" "timer_ready k = timer_ready k'"
    using assms by (cases k; cases k'; simp)+
  have "tq_ok k xs = tq_ok k' xs" by (rule tq_ok_cong) (simp_all add: f)
  then show "sd_ok k xs = sd_ok k' xs" "sd_active k = sd_active k'" "sd_mode k = sd_mode k'" "tobj k = tobj k'" "tick_count k = tick_count k'"
    by (simp_all add: sd_ok_def f)
qed

lemma timer_part_more [simp]: "machine.more (timer_part s) = sh_down s"
  by (simp add: timer_part_def machine.defs)

lemma pit_init_run:
  "pit_init 100 k = Inr (pit_set_divisor 11931 (k\<lparr>pit_hz := 100, current_divisor := 11931\<rparr>))"
  by (simp add: pit_init_def Let_def)

lemma pit_init_timers:
  fixes k :: shutdown
  defines "k' \<equiv> pit_set_divisor 11931 (k\<lparr>pit_hz := 100, current_divisor := 11931\<rparr>)"
  shows "sd_ok k' xs = sd_ok k xs" "sd_active k' = sd_active k" "tick_count k' = tick_count k"
proof -
  have "tq_ok k' xs = tq_ok k xs" by (rule tq_ok_cong) (simp_all add: k'_def pit_set_divisor_def outb_def)
  then show "sd_ok k' xs = sd_ok k xs" "sd_active k' = sd_active k" "tick_count k' = tick_count k"
    by (simp_all add: sd_ok_def k'_def pit_set_divisor_def outb_def)
qed

section \<open>The memory of the page tables\<close>

lemma memory_part_more [simp]: "machine.more (memory_part s) = sh_mem s"
  by (simp add: memory_part_def machine.defs)

lemma vmem_memory_part:
  assumes "sh_mem s' = sh_mem s"
  shows "vmem (memory_part s') = vmem (memory_part s)"
proof -
  have "machine.more (memory_part s') = machine.more (memory_part s)" using assms by simp
  then show ?thesis by (cases "memory_part s"; cases "memory_part s'") simp
qed

lemma vmem_paging_part: "vmem (paging_part s) = vmem (memory_part s)"
  by (simp add: paging_part_def vmm.defs)

lemma vmem_paging_init: "vmem s' = vmem s \<Longrightarrow> vmem (paging_init d pt s') = vmem (paging_init d pt s)"
  by (simp add: paging_init_def Let_def)

lemma cr0_paging_init: "bit (cr0 (paging_init d pt s)) 31"
proof -
  have "\<exists>m. paging_init d pt s = s\<lparr>vmem := m, cr3 := d, cr0 := cr0 s OR 0x80000000\<rparr>"
    unfolding paging_init_def Let_def by (rule exI, rule refl)
  then have "cr0 (paging_init d pt s) = cr0 s OR 0x80000000" by auto
  then show ?thesis by (simp add: bit_simps)
qed

lemma vmem_put_paging: "vmem (memory_part (put_paging p s)) = vmem p"
proof -
  let ?m = "vmm.extend (vmm.truncate p) (vmm.more (memory_part s)) :: multiboot"
  have "machine.more (memory_part (put_paging p s)) = machine.more ?m" by (simp add: put_paging_def put_memory_def)
  then have "vmem (memory_part (put_paging p s)) = vmem ?m" by (cases "memory_part (put_paging p s)"; cases ?m) simp
  then show ?thesis by (simp add: vmm.defs)
qed

section \<open>The early part\<close>

lemma early_run:
  assumes sd: "sd_ok (timer_part s) []"
  obtains s1 xs where "kernel_early y s = Some s1" "same_base s s1" "kbd s1 = kbd s" "sd_ok (timer_part s1) xs" "set xs = {SD_TIMER}"
    "sd_active (timer_part s1)" "sd_mode (timer_part s1) = SHUTDOWN_POWEROFF"
    "expiry (timer_part s1) SD_TIMER = tick_count (timer_part s) + 60000" "bit (sh_cr0 s1) 31"
    "vmem (memory_part s1) = vmem (paging_init (page_directory_at y) (page_table_at y) (paging_part s))"
proof -
  let ?b = "setup_gdt_and_tss y (viprint newline (hexprint (kernel_at y) (viprint ''Kernel running at virtual address: '' s)))"
  define c where "c = put_ints (init_ints (stubs_at y) (idt_at y) (ints_part ?b)) ?b"
  define k1 where "k1 = pit_set_divisor 11931 ((timer_part c)\<lparr>pit_hz := 100, current_divisor := 11931\<rparr>)"
  define f where "f = asm_ints_on (put_ints (register_irqs y (ints_part (put_timers k1 c))) (put_timers k1 c))"
  have down: "sh_down c = sh_down s" "sh_down f = machine.more k1"
    by (simp_all add: c_def f_def put_ints_def put_timers_def setup_gdt_and_tss_def Let_def asm_ints_on_def con_def sti_def)
  note eq_s = timers_more[of "timer_part c" "timer_part s", unfolded timer_part_more, OF down(1)]
  note eq_f = timers_more[of "timer_part f" k1, unfolded timer_part_more, OF down(2)]
  have k1: "sd_ok k1 []" "tick_count k1 = tick_count (timer_part s)"
    unfolding k1_def pit_init_timers using sd eq_s by simp_all
  then have f: "sd_ok (timer_part f) []" "tick_count (timer_part f) = tick_count (timer_part s)" using eq_f by simp_all
  then have idle: "\<not> sd_active (timer_part f)" by (simp add: sd_ok_def)
  have wait: "ms_to_ticks SHUTDOWN_DEFAULT_MS = 60000" by (simp add: ms_to_ticks_def SHUTDOWN_DEFAULT_MS_def PIT_HZ_def)
  obtain k2 xs where k2: "schedule_shutdown SHUTDOWN_POWEROFF SHUTDOWN_DEFAULT_MS (Some ''automatic 10-minute shutdown'') (timer_part f) = Some k2"
    "sd_ok k2 xs" "sd_active k2" "sd_mode k2 = SHUTDOWN_POWEROFF" "set xs = {SD_TIMER}" "expiry k2 SD_TIMER = tick_count (timer_part s) + 60000"
    by (rule schedule_shutdown_spec[OF f(1), of SHUTDOWN_POWEROFF SHUTDOWN_DEFAULT_MS "Some ''automatic 10-minute shutdown''"])
      (use that f(2) wait in auto)
  define g where "g = put_timers k2 f"
  define s1 where "s1 = put_paging (paging_init (page_directory_at y) (page_table_at y) (paging_part g)) g"
  have run: "kernel_early y s = Some s1"
    using k2(1) idle by (simp add: kernel_early_def Let_def pit_init_run c_def[symmetric] k1_def[symmetric] f_def[symmetric]
        schedule_default_shutdown_def g_def s1_def)
  have down1: "sh_down s1 = machine.more k2" by (simp add: s1_def g_def put_paging_def put_memory_def put_timers_def)
  note eq_1 = timers_more[of "timer_part s1" k2, unfolded timer_part_more, OF down1]
  have "same_base s c" unfolding c_def by (simp only: same_base_ints same_base_tables same_base_steps) (simp add: same_base_def)
  then have "same_base s f" unfolding f_def asm_ints_on_def by (simp only: same_base_ints same_base_steps)
  then have base: "same_base s s1" unfolding s1_def g_def by (simp only: same_base_steps)
  have same_c: "kbd c = kbd s" "sh_mem c = sh_mem s"
    by (simp_all add: c_def put_ints_def setup_gdt_and_tss_def Let_def con_def)
  have same_f: "kbd f = kbd c" "sh_mem f = sh_mem c"
    by (simp_all add: f_def put_ints_def put_timers_def asm_ints_on_def con_def sti_def)
  have kb: "kbd s1 = kbd s" by (simp add: s1_def g_def put_timers_def put_paging_def put_memory_def same_f same_c)
  have mem: "sh_mem g = sh_mem s" by (simp add: g_def put_timers_def same_f same_c)
  have "sh_cr0 s1 = cr0 (paging_init (page_directory_at y) (page_table_at y) (paging_part g))" by (simp add: s1_def put_paging_def)
  then have pg: "bit (sh_cr0 s1) 31" by (simp only: cr0_paging_init)
  have vm: "vmem (memory_part s1) = vmem (paging_init (page_directory_at y) (page_table_at y) (paging_part s))"
    unfolding s1_def vmem_put_paging by (rule vmem_paging_init) (simp only: vmem_paging_part vmem_memory_part[OF mem])
  have "sd_ok (timer_part s1) xs" "sd_active (timer_part s1)" "sd_mode (timer_part s1) = SHUTDOWN_POWEROFF"
    "expiry (timer_part s1) SD_TIMER = tick_count (timer_part s) + 60000"
    unfolding eq_1 by (rule k2)+
  then show thesis by (intro that[OF run base kb _ k2(5) _ _ _ pg vm])
qed

section \<open>The late part\<close>

lemma same_more:
  assumes "machine.more s' = machine.more (s :: 'a shell_scheme)"
  shows "same_base s s'" "kbd s' = kbd s" "sh_down s' = sh_down s" "sh_cr0 s' = sh_cr0 s" "hmem s' = hmem s" "free_lists s' = free_lists s"
  using assms by (cases s; cases s'; simp add: same_base_def)+

lemma masks_more: "machine.more (clear_mask 0 (unmask_kb s)) = machine.more s"
  by (simp add: clear_mask_def unmask_kb_def inb_def port_read_def outb_def con_def Let_def case_prod_unfold)

lemma heap_init_only: "heap_init s = Some s' \<Longrightarrow> heap_only s s'"
  unfolding heap_init_def kmalloc_init_run by (auto simp: init_free_block_def Let_def heap_only_def machine.truncate_def put_fld_def)

lemma layout_ring:
  "typed_ahead (set_keyboard_layout 0 k) = typed_ahead k" "kb_ok (set_keyboard_layout 0 k) = kb_ok k"
  by (simp_all add: set_keyboard_layout_def layout_of_def typed_ahead_def kb_ok_def con_def)

text \<open>The root alone is a sound tree.\<close>

lemma root_only:
  assumes heap: "heap_ok s U" "U p = Some c" "292 \<le> c" and p: "p \<noteq> 0"
    and v: "vnodes s = [p \<mapsto> new_node ''/'' FS_DIRECTORY]" "vfiles s = (\<lambda>_. None)"
  shows "fs_ok s U (\<lambda>_. [])"
proof -
  note n = new_node_def is_directory_def FS_DIRECTORY_def fns_ok_def
  have "store_ok s U" unfolding store_ok_def data_ok_def data_of_def using heap by (auto simp: v n)
  moreover have "tree_ok s (\<lambda>_. [])" using p by (auto simp: tree_ok_def dir_ok_def v n)
  ultimately show ?thesis by (simp add: fs_ok_def)
qed

definition static_state :: "'a shell_scheme \<Rightarrow> bool" where
  "static_state s \<longleftrightarrow> vnodes s = (\<lambda>_. None) \<and> vfiles s = (\<lambda>_. None) \<and> ramfs_root s = 0 \<and> length (cmd_buffer s) = 256 \<and>
     history s = replicate 20 [] \<and> history_count s = 0 \<and> length (esc_buf s) = 8"

lemma static_same: "same_base s s' \<Longrightarrow> static_state s \<Longrightarrow> static_state s'"
  by (simp add: same_base_def static_state_def)

lemma late_run:
  assumes st: "static_state s" and ring: "ring_ok s" "queued s = []"
  obtains s' U where "kernel_late s = Some s'" "shell_ok s' U (\<lambda>_. [])" "shell_cwd s' = ramfs_root s'" "line_ok s'" "cmd_len s' = 0"
    "esc_state s' = ESC_NONE" "ring_ok s'" "queued s' = []" "typed s' = typed s" "polls s' = polls s" "sh_down s' = sh_down s" "sh_cr0 s' = sh_cr0 s"
proof -
  obtain h where h: "heap_init s = Some h" "heap_ok h (\<lambda>_. None)"
    unfolding heap_init_def by (rule kmalloc_init_ok[of s])
  have more_h: "heap.more h = heap.more s" using heap_only_more[OF heap_init_only[OF h(1)]] .
  have base_h: "same_base s h" "kbd h = kbd s" "sh_down h = sh_down s" "sh_cr0 h = sh_cr0 s"
    using more_h by (cases s; cases h; simp add: same_base_def)+
  define a where "a = con Has_loaded (clear_mask 0 (unmask_kb h))"
  have "machine.more a = machine.more h" by (simp add: a_def masks_more)
  note a = same_more[OF this]
  define b where "b = con Has_loaded (put_driver (set_keyboard_layout 0 (driver a)) a)"
  have b: "same_base a b" "sh_down b = sh_down a" "sh_cr0 b = sh_cr0 a" "hmem b = hmem a" "free_lists b = free_lists a"
    "kbd b = machine.more (set_keyboard_layout 0 (driver a))"
    by (simp_all add: b_def put_driver_def same_base_def con_def)
  have ring_b: "ring_ok b" "queued b = []"
    using ring ring_driver[OF b(6)] layout_ring[of "driver a"] driver_same[of a s] a(2) base_h(2)
    by (simp_all add: ring_ok_def queued_def)
  have sb: "same_base s b" by (rule same_base_trans[OF base_h(1) same_base_trans[OF a(1) b(1)]])
  have st_b: "static_state b" by (rule static_same[OF sb st])
  have "heap_ok h (\<lambda>_. None) = heap_ok b (\<lambda>_. None)" by (rule heap_ok_same) (simp add: same_heap_def a b)
  then have ok_b: "heap_ok b (\<lambda>_. None)" using h(2) by simp
  obtain p c k where k: "kmalloc sizeof_vfs_node b = Some (p, k)" "p \<noteq> 0" "unat sizeof_vfs_node \<le> c" "heap_ok k ((\<lambda>_. None)(p \<mapsto> c))"
    by (rule kmalloc_room[OF ok_b, of 22 sizeof_vfs_node]) (use that in \<open>auto simp: sizeof_vfs_node_def\<close>)
  note only = kmalloc_only[OF k(1)]
  have more_k: "same_base b k" "kbd k = kbd b" "sh_down k = sh_down b" "sh_cr0 k = sh_cr0 b"
    using heap_only_more[OF only] by (cases b; cases k; simp add: same_base_def)+
  define r where "r = viprint (''RAMFS: root node created'' @ newline) (k\<lparr>vnodes := [p \<mapsto> new_node ''/'' FS_DIRECTORY], ramfs_root := p\<rparr>)"
  have "vnodes k = (\<lambda>_. None)" using st_b more_k(1) by (simp add: static_state_def same_base_def)
  then have init: "ramfs_init b = Some r" using k(1,2) st_b by (simp add: ramfs_init_def create_vfs_node_def r_def static_state_def)
  define m where "m = con Has_loaded (viprint (newline @ ''Cobra'' @ newline @ newline) (viprint (''Content load complete'' @ newline)
    (con Has_loaded (con Has_loaded (con Has_loaded (ramfs_set_cwd (ramfs_get_root r) r))))))"
  have run: "kernel_late s = Some (shell_init m)"
    by (simp add: kernel_late_def h(1) Let_def a_def[symmetric] b_def[symmetric] init m_def)
  let ?s = "shell_init m"
  have root: "ramfs_root ?s = p" "ramfs_cwd ?s = p" "shell_cwd ?s = p" "vnodes ?s = [p \<mapsto> new_node ''/'' FS_DIRECTORY]" "vfiles ?s = vfiles k"
    "hmem ?s = hmem k" "free_lists ?s = free_lists k"
    using k(2) by (simp_all add: shell_init_def print_uint_def m_def r_def con_def ramfs_set_cwd_def ramfs_get_root_def Let_def)
  have line: "cmd_buffer ?s = cmd_buffer k" "cmd_len ?s = 0" "cmd_pos ?s = 0" "history ?s = history k" "history_count ?s = history_count k"
    "history_index ?s = - 1" "esc_state ?s = ESC_NONE" "esc_buf ?s = esc_buf k"
    by (simp_all add: shell_init_def print_uint_def m_def r_def con_def ramfs_set_cwd_def ramfs_get_root_def Let_def)
  have rest: "kbd ?s = kbd k" "typed ?s = typed k" "polls ?s = polls k" "sh_down ?s = sh_down k" "sh_cr0 ?s = sh_cr0 k"
    by (simp_all add: shell_init_def print_uint_def m_def r_def con_def ramfs_set_cwd_def ramfs_get_root_def Let_def)
  have st_k: "static_state k" by (rule static_same[OF more_k(1) st_b])
  have "heap_ok k ((\<lambda>_. None)(p \<mapsto> c)) = heap_ok ?s ((\<lambda>_. None)(p \<mapsto> c))" by (rule heap_ok_same) (simp add: same_heap_def root)
  then have "fs_ok ?s ((\<lambda>_. None)(p \<mapsto> c)) (\<lambda>_. [])"
    using k(2-4) st_k by (intro root_only[where p = p and c = c]) (simp_all add: root static_state_def sizeof_vfs_node_def)
  then have "shell_ok ?s ((\<lambda>_. None)(p \<mapsto> c)) (\<lambda>_. [])"
    by (simp add: shell_ok_def root a_directory_def new_node_def is_directory_def FS_DIRECTORY_def)
  moreover have "line_ok ?s" using st_k by (simp add: line_ok_def line entry_ok_def static_state_def esc_ok_def)
  moreover have "ring_ok ?s" "queued ?s = []" using driver_same[of ?s b] rest(1) more_k(2) ring_b by simp_all
  moreover have "typed ?s = typed s" "polls ?s = polls s" "sh_down ?s = sh_down s" "sh_cr0 ?s = sh_cr0 s"
    using rest more_k sb by (simp_all add: b a base_h) (simp_all add: same_base_def)
  ultimately show thesis using that[OF run] root(1,3) line(2,7) by simp
qed

section \<open>The properties of the kernel\<close>

lemma boot_run:
  assumes "static_state s" "sd_ok (timer_part s) []" "ring_ok s" "queued s = []"
  shows "\<exists>s1. kernel_early y (kernel_greeting 0x2BADB002 s) = Some s1 \<and>
    (\<forall>k. parse_multiboot_info (kernel_end y) mbi (memory_part s1) = Some (Inr k) \<longrightarrow>
      (\<exists>s' U xs. kernel y 0x2BADB002 mbi s = Some (Inr s') \<and> shell_ok s' U (\<lambda>_. []) \<and> shell_cwd s' = ramfs_root s' \<and>
        line_ok s' \<and> cmd_len s' = 0 \<and> esc_state s' = ESC_NONE \<and> ring_ok s' \<and> queued s' = [] \<and> typed s' = typed s \<and> polls s' = polls s \<and>
        bit (sh_cr0 s') 31 \<and> sd_ok (timer_part s') xs \<and> set xs = {SD_TIMER} \<and> shutdown_is_pending (timer_part s') \<and>
        sd_mode (timer_part s') = SHUTDOWN_POWEROFF \<and> expiry (timer_part s') SD_TIMER = tick_count (timer_part s) + 60000))"
proof -
  define g where "g = kernel_greeting 0x2BADB002 s"
  have "machine.more g = machine.more s" by (simp add: g_def kernel_greeting_def)
  note same = same_more[OF this]
  note t_g = timers_more[of "timer_part g" "timer_part s", unfolded timer_part_more, OF same(3)]
  obtain s1 xs where s1: "kernel_early y g = Some s1" "same_base g s1" "kbd s1 = kbd g" "sd_ok (timer_part s1) xs" "set xs = {SD_TIMER}"
    "sd_active (timer_part s1)" "sd_mode (timer_part s1) = SHUTDOWN_POWEROFF" "expiry (timer_part s1) SD_TIMER = tick_count (timer_part s) + 60000"
    "bit (sh_cr0 s1) 31"
    by (rule early_run[of g y]) (use assms(2) t_g in auto)
  have "\<exists>s' U xs. kernel y 0x2BADB002 mbi s = Some (Inr s') \<and> shell_ok s' U (\<lambda>_. []) \<and> shell_cwd s' = ramfs_root s' \<and>
        line_ok s' \<and> cmd_len s' = 0 \<and> esc_state s' = ESC_NONE \<and> ring_ok s' \<and> queued s' = [] \<and> typed s' = typed s \<and> polls s' = polls s \<and>
        bit (sh_cr0 s') 31 \<and> sd_ok (timer_part s') xs \<and> set xs = {SD_TIMER} \<and> shutdown_is_pending (timer_part s') \<and>
        sd_mode (timer_part s') = SHUTDOWN_POWEROFF \<and> expiry (timer_part s') SD_TIMER = tick_count (timer_part s) + 60000"
    if parse: "parse_multiboot_info (kernel_end y) mbi (memory_part s1) = Some (Inr k)" for k
  proof -
    define s2 where "s2 = put_memory k s1"
    have s2: "same_base s1 s2" "kbd s2 = kbd s1" "sh_down s2 = sh_down s1" "sh_cr0 s2 = sh_cr0 s1"
      by (simp_all add: s2_def same_base_def put_memory_def)
    have base: "same_base s s2" by (rule same_base_trans[OF same(1) same_base_trans[OF s1(2) s2(1)]])
    have kb: "kbd s2 = kbd s" using s2(2) s1(3) same(2) by simp
    obtain s' U where s': "kernel_late s2 = Some s'" "shell_ok s' U (\<lambda>_. [])" "shell_cwd s' = ramfs_root s'" "line_ok s'" "cmd_len s' = 0"
      "esc_state s' = ESC_NONE" "ring_ok s'" "queued s' = []" "typed s' = typed s2" "polls s' = polls s2" "sh_down s' = sh_down s2" "sh_cr0 s' = sh_cr0 s2"
      by (rule late_run[OF static_same[OF base assms(1)]]) (use assms(3,4) driver_same[OF kb] in auto)
    have run: "kernel y 0x2BADB002 mbi s = Some (Inr s')"
      using s1(1) parse s'(1) by (simp add: kernel_def Let_def g_def[symmetric] s2_def)
    have "sh_down s' = sh_down s1" using s'(11) s2(3) by simp
    note t_s' = timers_more[of "timer_part s'" "timer_part s1", unfolded timer_part_more, OF this]
    have typed: "typed s' = typed s" "polls s' = polls s" using s'(9,10) base by (simp_all add: same_base_def)
    have sd: "sd_ok (timer_part s') xs" "shutdown_is_pending (timer_part s')" "sd_mode (timer_part s') = SHUTDOWN_POWEROFF"
      "expiry (timer_part s') SD_TIMER = tick_count (timer_part s) + 60000"
      unfolding shutdown_is_pending_def t_s' by (rule s1)+
    have cr0: "bit (sh_cr0 s') 31" using s'(12) s2(4) s1(9) by simp
    show ?thesis
      by (rule exI[of _ s'], rule exI[of _ U], rule exI[of _ xs]) (intro conjI run s'(2-8) typed sd cr0 s1(5))
  qed
  then show ?thesis using s1(1) unfolding g_def by blast
qed

text \<open>C39: With the right magic number and a memory map that can be parsed, the kernel started on its initial
  variables reaches its main loop with everything in place: a sound heap and file system with an empty
  root as the current directory, an empty command line, an empty ring, paging on, and one shutdown
  pending, ten minutes (60,000 ticks) ahead.\<close>

theorem kernel_boots:
  assumes "static_state s" "sd_ok (timer_part s) []" "ring_ok s" "queued s = []"
  shows "\<exists>s1. kernel_early y (kernel_greeting 0x2BADB002 s) = Some s1 \<and>
    (\<forall>k. parse_multiboot_info (kernel_end y) mbi (memory_part s1) = Some (Inr k) \<longrightarrow>
      (\<exists>s' U xs. kernel y 0x2BADB002 mbi s = Some (Inr s') \<and> shell_ok s' U (\<lambda>_. []) \<and> shell_cwd s' = ramfs_root s' \<and>
        line_ok s' \<and> cmd_len s' = 0 \<and> esc_state s' = ESC_NONE \<and> ring_ok s' \<and> queued s' = [] \<and> typed s' = typed s \<and> polls s' = polls s \<and>
        bit (sh_cr0 s') 31 \<and> sd_ok (timer_part s') xs \<and> set xs = {SD_TIMER} \<and> shutdown_is_pending (timer_part s') \<and>
        sd_mode (timer_part s') = SHUTDOWN_POWEROFF \<and> expiry (timer_part s') SD_TIMER = tick_count (timer_part s) + 60000))"
  by (rule boot_run[OF assms])


section \<open>A concrete start\<close>

text \<open>Tables at 1 and 2 MiB, and a boot information block at 256 with an empty memory map.\<close>

definition demo_symbols :: symbols where
  "demo_symbols = \<lparr>kernel_at = 0x100000, kernel_end = 0x200000, gdt_at = 0x110000, ldt_at = 0x111000, tss_at = 0x112000, idt_at = 0x113000,
     stubs_at = (\<lambda>i. 0x120000 + 16 * of_nat i), page_directory_at = 0x100000, page_table_at = sample_pt,
     pit_handler_at = 0x130000, keyboard_handler_at = 0x131000\<rparr>"

definition demo_memory :: mem where
  "demo_memory = (\<lambda>a. if a = 256 then 64 else 0)"

definition demo_kernel :: "string \<Rightarrow> kernel_state" where
  "demo_kernel t = (undefined :: kernel_state)\<lparr>vnodes := (\<lambda>_. None), vfiles := (\<lambda>_. None), ramfs_root := 0, cmd_buffer := replicate 256 NUL,
     history := replicate 20 [], history_count := 0, esc_buf := replicate 8 NUL, sh_down := machine.more (shutdown_at 50),
     sh_mem := machine.more (sample_boot\<lparr>vmem := demo_memory\<rparr>), kbd := machine.more ((undefined :: keyboard)\<lparr>key_head := 0, key_tail := 0\<rparr>),
     typed := (\<lambda>n. if n = 0 then map of_char t else []), polls := 0\<rparr>"

lemma demo_kernel_ok:
  "static_state (demo_kernel t)" "sd_ok (timer_part (demo_kernel t)) []" "ring_ok (demo_kernel t)" "queued (demo_kernel t) = []"
proof -
  show "static_state (demo_kernel t)" by (simp add: static_state_def demo_kernel_def)
  have "sh_down (demo_kernel t) = machine.more (shutdown_at 50)" by (simp add: demo_kernel_def)
  from timers_more[of "timer_part (demo_kernel t)" "shutdown_at 50", unfolded timer_part_more, OF this]
  show "sd_ok (timer_part (demo_kernel t)) []" using shutdown_at_ok by simp
  have kb: "kbd (demo_kernel t) = machine.more ((undefined :: keyboard)\<lparr>key_head := 0, key_tail := 0\<rparr>)" by (simp add: demo_kernel_def)
  show "ring_ok (demo_kernel t)" "queued (demo_kernel t) = []"
    unfolding ring_driver[OF kb] by (simp_all add: kb_ok_def typed_ahead_def ring_def)
qed

lemma parse_empty:
  assumes "bit (mbi_flags (vmem (s :: 'a multiboot_scheme)) p) 6" "mbi_mmap_length (vmem s) p = 0"
  shows "\<exists>k. parse_multiboot_info kend p s = Some (Inr k)"
proof -
  have none: "sum_available m a a n = Some n" "free_available kend m a a r = Some (Inr r)" for m a n and r :: "'a multiboot_scheme"
    by (subst sum_available.simps, simp) (subst free_available.simps, simp)
  have init: "mem_map_addr (pmm_init n r) = mem_map_addr r" "mem_map_addr (con e r) = mem_map_addr r" for n e and r :: "'a multiboot_scheme"
    by (simp_all add: pmm_init_def Let_def con_def)
  show ?thesis using assms by (simp add: parse_multiboot_info_def Let_def init none)
qed

lemma demo_parse:
  assumes "kernel_early demo_symbols (kernel_greeting magic (demo_kernel t)) = Some s1"
  shows "\<exists>k. parse_multiboot_info kend 256 (memory_part s1) = Some (Inr k)"
proof -
  let ?g = "kernel_greeting magic (demo_kernel t)"
  have more: "machine.more ?g = machine.more (demo_kernel t)" by (simp add: kernel_greeting_def)
  have sd: "sd_ok (timer_part ?g) []"
    using timers_more(1)[of "timer_part ?g" "timer_part (demo_kernel t)"] same_more(3)[OF more] demo_kernel_ok(2) by simp
  have "page_directory_at demo_symbols = 0x100000" "page_table_at demo_symbols = sample_pt" by (simp_all add: demo_symbols_def)
  then have m: "vmem (memory_part s1) = vmem (paging_init 0x100000 sample_pt (paging_part ?g))"
    by - (rule early_run[OF sd, of demo_symbols], use assms in simp)
  have "machine.more (memory_part ?g) = machine.more (sample_boot\<lparr>vmem := demo_memory\<rparr>)"
    by (simp add: kernel_greeting_def demo_kernel_def con_def)
  then have "vmem (memory_part ?g) = vmem (sample_boot\<lparr>vmem := demo_memory\<rparr>)"
    by (cases "memory_part ?g"; cases "sample_boot\<lparr>vmem := demo_memory\<rparr>") simp
  then have g: "vmem (paging_part ?g) = demo_memory" by (simp add: vmem_paging_part)
  have "0 \<notin> set (map sample_pt [0..<16])" by code_simp
  then have zero: "0 \<notin> sample_pt ` {..<16}" by (simp only: set_map set_upt atLeast0LessThan simp_thms)
  have word: "load32 (vmem (memory_part s1)) (0 + 4 * j) = load32 demo_memory (0 + 4 * j)" if "unat j < 1024" for j
    unfolding m using paging_init_elsewhere[OF _ sample_pt_ok(1) _ _ zero that, of "0x100000" "paging_part ?g"] g by simp
  have "load32 (vmem (memory_part s1)) 256 = 64" "load32 (vmem (memory_part s1)) 300 = 0"
    using word[of 64] word[of 75] by (simp_all add: load32_def demo_memory_def)
  then show ?thesis by (intro parse_empty) (simp_all add: bit_numeral_rec)
qed

lemma demo_starts:
  "\<exists>s' U. kernel demo_symbols 0x2BADB002 256 (demo_kernel t) = Some (Inr s') \<and> shell_ok s' U (\<lambda>_. []) \<and> line_ok s' \<and> cmd_len s' = 0 \<and>
    esc_state s' = ESC_NONE \<and> ring_ok s' \<and> queued s' = [] \<and> typed s' = typed (demo_kernel t) \<and> polls s' = 0"
proof -
  have "polls (demo_kernel t) = 0" by (simp add: demo_kernel_def)
  then show ?thesis using boot_run[OF demo_kernel_ok[of t], of demo_symbols 256] demo_parse[of "0x2BADB002" t] by metis
qed

theorem kernel_boots_witness:
  "\<exists>(s :: kernel_state) s'. kernel demo_symbols 0x2BADB002 256 s = Some (Inr s') \<and> shell_cwd s' = ramfs_root s' \<and> shutdown_is_pending (timer_part s')"
  using kernel_boots[OF demo_kernel_ok[of "[]"], of demo_symbols 256] demo_parse[of "0x2BADB002" "[]"] by metis


end
