(* ===== verification/Scancodes.thy ===== *)
theory Scancodes
  imports Kernel Fifo
begin

text \<open>
  The queue of scancodes of \<open>kernel/kernel.c\<close> meets the contract of a queue while it has room; it does
  not check for room, so a put into a full queue empties it. The listener prints what comes in.
\<close>

section \<open>The queue\<close>

definition scan_ok :: "'a kernel_state_scheme \<Rightarrow> bool" where
  "scan_ok s \<longleftrightarrow> unat (queue_head s) < 128 \<and> unat (queue_tail s) < 128"

definition pending :: "'a kernel_state_scheme \<Rightarrow> u8 list" where
  "pending s = ring (\<lambda>i. scancode_queue s (of_nat i)) 128 (unat (queue_tail s)) (unat (queue_head s))"

lemma unat_next_128: "unat (a :: u8) < 128 \<Longrightarrow> unat ((a + 1) mod QUEUE_SIZE) = (unat a + 1) mod 128"
  by (simp add: QUEUE_SIZE_def unat_mod unat_word_ariths)

lemma queue_upd:
  assumes "unat h < 128" "i < (128 :: nat)"
  shows "(f(h := c)) (of_nat i :: u8) = ((\<lambda>i. f (of_nat i))(unat h := c)) i"
proof -
  have "of_nat i = h \<longleftrightarrow> i = unat h" using assms by (auto simp: word_unat_eq_iff unat_of_nat)
  then show ?thesis by simp
qed

lemma enqueue_ok: "scan_ok s \<Longrightarrow> scan_ok (enqueue_scancode c s)"
  using unat_next_128[of "queue_tail s"] by (simp add: scan_ok_def enqueue_scancode_def Let_def)

lemma enqueue_room:
  assumes "scan_ok s" "length (pending s) < 127"
  shows "pending (enqueue_scancode c s) = pending s @ [c]"
proof -
  have b: "unat (queue_tail s) < 128" "unat (queue_head s) < 128" using assms(1) by (simp_all add: scan_ok_def)
  have ne: "(unat (queue_tail s) + 1) mod 128 \<noteq> unat (queue_head s)"
    using ring_full_iff[OF b, of "\<lambda>i. scancode_queue s (of_nat i)"] assms(2) by (simp add: pending_def)
  have "ring (\<lambda>i. ((scancode_queue s)(queue_tail s := c)) (of_nat i)) 128 ((unat (queue_tail s) + 1) mod 128) (unat (queue_head s)) =
      ring ((\<lambda>i. scancode_queue s (of_nat i))(unat (queue_tail s) := c)) 128 ((unat (queue_tail s) + 1) mod 128) (unat (queue_head s))"
    by (rule ring_cong[OF queue_upd[OF b(1)]]) simp_all
  also have "\<dots> = pending s @ [c]" unfolding pending_def by (rule ring_put[OF b ne])
  finally show ?thesis using b by (simp add: enqueue_scancode_def Let_def pending_def unat_next_128)
qed

text \<open>A put into a full queue.\<close>

lemma enqueue_full:
  assumes "scan_ok s" "length (pending s) = 127"
  shows "pending (enqueue_scancode c s) = []"
proof -
  have b: "unat (queue_tail s) < 128" "unat (queue_head s) < 128" using assms(1) by (simp_all add: scan_ok_def)
  have "(unat (queue_tail s) + 1) mod 128 = unat (queue_head s)"
    using ring_full_iff[OF b, of "\<lambda>i. scancode_queue s (of_nat i)"] assms(2) by (simp add: pending_def)
  then show ?thesis using b by (simp add: pending_def enqueue_scancode_def Let_def unat_next_128 ring_def)
qed

lemma empty_iff: "scan_ok s \<Longrightarrow> queue_is_empty s \<longleftrightarrow> pending s = []"
  by (auto simp: queue_is_empty_def pending_def scan_ok_def ring_empty_iff word_unat_eq_iff)

lemma dequeue_first:
  assumes "scan_ok s" "pending s \<noteq> []"
  shows "scan_ok (snd (dequeue_scancode s)) \<and> pending s = fst (dequeue_scancode s) # pending (snd (dequeue_scancode s))"
proof -
  have b: "unat (queue_tail s) < 128" "unat (queue_head s) < 128" using assms(1) by (simp_all add: scan_ok_def)
  have "\<not> queue_is_empty s" using empty_iff[OF assms(1)] assms(2) by simp
  then have "unat (queue_tail s) \<noteq> unat (queue_head s)" by (auto simp: queue_is_empty_def word_unat_eq_iff)
  from ring_get[OF b this, of "\<lambda>i. scancode_queue s (of_nat i)"] b show ?thesis
    by (simp add: dequeue_scancode_def scan_ok_def pending_def unat_next_128)
qed

interpretation scq: fifo "\<lambda>c s. (True, enqueue_scancode c s)" dequeue_scancode "\<lambda>s. \<not> queue_is_empty s" scan_ok pending 127
  by unfold_locales ((rule dequeue_first; assumption) | simp add: enqueue_ok enqueue_room empty_iff)+

section \<open>The listener\<close>

lemma pending_con [simp]: "pending (con e s) = pending s" "scan_ok (con e s) = scan_ok s"
  by (simp_all add: pending_def scan_ok_def con_def)

lemma drain_prints:
  "scan_ok s \<Longrightarrow> \<exists>s'. drain_scancodes s = Some s' \<and> scan_ok s' \<and> pending s' = [] \<and>
    console s' = console s @ map (\<lambda>c. Hexprint (ucast c)) (pending s)"
proof (induction "pending s" arbitrary: s)
  case Nil
  then show ?case using empty_iff[of s] by (simp add: drain_scancodes.simps[of s])
next
  case (Cons c cs)
  obtain d t where d: "dequeue_scancode s = (d, t)" by (cases "dequeue_scancode s")
  have ne: "pending s \<noteq> []" "\<not> queue_is_empty s" using Cons.hyps(2) empty_iff[OF Cons.prems] by auto
  have t: "scan_ok t" "pending s = d # pending t" "console t = console s"
    using dequeue_first[OF Cons.prems ne(1)] d by (auto simp: dequeue_scancode_def Let_def)
  then have "cs = pending (hexprint (ucast d) t)" "scan_ok (hexprint (ucast d) t)" using Cons.hyps(2) by simp_all
  from Cons.hyps(1)[OF this] obtain s' where "drain_scancodes (hexprint (ucast d) t) = Some s'" "scan_ok s'" "pending s' = []"
    "console s' = console s @ map (\<lambda>c. Hexprint (ucast c)) (pending s)"
    using t by auto
  then show ?case using ne(2) d by (subst drain_scancodes.simps) simp
qed

lemma enqueue_all:
  "scan_ok s \<Longrightarrow> length (pending s) + length w \<le> 127 \<Longrightarrow>
    scan_ok (fold enqueue_scancode w s) \<and> pending (fold enqueue_scancode w s) = pending s @ w \<and>
    console (fold enqueue_scancode w s) = console s"
proof (induction w arbitrary: s)
  case (Cons c w)
  have c: "console (enqueue_scancode c s) = console s" by (simp add: enqueue_scancode_def Let_def)
  from Cons.IH[of "enqueue_scancode c s"] Cons.prems show ?case by (simp add: c enqueue_ok enqueue_room)
qed simp

lemma rounds_print:
  "scan_ok s \<Longrightarrow> \<forall>w \<in> set ws. length w \<le> 127 \<Longrightarrow> \<exists>s'. listener_rounds ws s = Some s' \<and> scan_ok s' \<and> pending s' = [] \<and>
    console s' = console s @ map (\<lambda>c. Hexprint (ucast c)) (pending s @ concat ws)"
proof (induction ws arbitrary: s)
  case Nil
  then show ?case using drain_prints[of s] by auto
next
  case (Cons w ws)
  obtain t where t: "drain_scancodes s = Some t" "scan_ok t" "pending t = []"
    "console t = console s @ map (\<lambda>c. Hexprint (ucast c)) (pending s)"
    using drain_prints[OF Cons.prems(1)] by blast
  have w: "scan_ok (fold enqueue_scancode w t)" "pending (fold enqueue_scancode w t) = w" "console (fold enqueue_scancode w t) = console t"
    using enqueue_all[OF t(2), of w] t(3) Cons.prems(2) by simp_all
  from Cons.IH[OF w(1)] Cons.prems(2) show ?case by (simp add: t(1,4) w(2,3))
qed

text \<open>The keyboard listener prints every scancode once and in the order they came, as long as no more
  than 127 come between two rounds; a burst of 128 into the empty queue is lost as a whole, as the
  queue does not check for room.\<close>

theorem keyboard_listener_prints:
  assumes "scan_ok s" "pending s = []" "\<forall>w \<in> set ws. length w \<le> 127" "length burst = 128"
  shows "(\<exists>s'. keyboard_listener ws s = Some s' \<and> pending s' = [] \<and>
      console s' = console s @ Viprint (''Keyboard listener started'' @ newline) # map (\<lambda>c. Hexprint (ucast c)) (concat ws)) \<and>
    pending (fold enqueue_scancode burst s) = []"
proof -
  have "\<exists>s'. keyboard_listener ws s = Some s' \<and> pending s' = [] \<and>
      console s' = console s @ Viprint (''Keyboard listener started'' @ newline) # map (\<lambda>c. Hexprint (ucast c)) (concat ws)"
    using rounds_print[of "viprint (''Keyboard listener started'' @ newline) s" ws] assms(1-3) by (auto simp: keyboard_listener_def)
  moreover obtain w c where b: "burst = w @ [c]" "length w = 127"
    using assms(4) by (cases burst rule: rev_cases) auto
  have "scan_ok (fold enqueue_scancode w s)" "length (pending (fold enqueue_scancode w s)) = 127"
    using enqueue_all[OF assms(1), of w] assms(2) b(2) by simp_all
  then have "pending (fold enqueue_scancode burst s) = []" using enqueue_full by (simp add: b(1))
  ultimately show ?thesis by blast
qed

theorem keyboard_listener_prints_witness:
  "\<exists>(s :: kernel_state) s'. keyboard_listener [[30], [31, 32]] s = Some s' \<and> last (console s') = Hexprint 32 \<and>
    pending (fold enqueue_scancode (replicate 128 30) s) = []"
proof -
  define s :: kernel_state where "s = undefined\<lparr>queue_head := 5, queue_tail := 5\<rparr>"
  have s: "scan_ok s" "pending s = []" by (simp_all add: s_def scan_ok_def pending_def ring_def)
  have "\<forall>w \<in> set [[30], [31, 32]]. length w \<le> 127" "length (replicate 128 (30 :: u8)) = 128" by simp_all
  note p = keyboard_listener_prints[OF s this]
  from conjunct1[OF p] obtain s' where r: "keyboard_listener [[30], [31, 32]] s = Some s'"
    "console s' = console s @ Viprint (''Keyboard listener started'' @ newline) # map (\<lambda>c. Hexprint (ucast c)) (concat [[30 :: u8], [31, 32]])"
    by blast
  have "last (console s') = Hexprint 32" unfolding r(2) by simp
  with r(1) conjunct2[OF p] show ?thesis by - (rule exI[of _ s], rule exI[of _ s'], intro conjI)
qed

end
