(* ===== verification/Apic.thy ===== *)
theory Apic
  imports Machine
begin

text \<open>
  \<open>cpu/apic.c\<close>: the local and the I/O interrupt controllers. Their registers are words of memory that
  belong to the device: a store is a write the device sees (\<open>mmio_out\<close>, in order), a load is an
  arbitrary answer of the device that may differ from read to read (\<open>mmio_in\<close>). The model-specific
  registers hold two halves; \<open>cpuid_edx\<close> is what \<open>cpuid\<close> leaves in \<open>edx\<close> for leaf 1. The fences
  order accesses that are in order here. A processor caught in \<open>for (;;)\<close> is \<open>Inl\<close> with its state.
\<close>

section \<open>State\<close>

record apic = machine +
  lapic_base :: u32
  mmio_out :: "(u32 \<times> u32) list"
  mmio_in :: "u32 \<Rightarrow> nat \<Rightarrow> u32"
  mmio_reads :: nat
  msr :: "u32 \<Rightarrow> u32 \<times> u32" \<comment> \<open>low and high half\<close>
  cpuid_edx :: u32

definition IOAPIC_REG :: u32 where "IOAPIC_REG = 0xFEC00000"
definition IOAPIC_INDEX :: u32 where "IOAPIC_INDEX = IOAPIC_REG + 0x00"
definition IOAPIC_DATA :: u32 where "IOAPIC_DATA = IOAPIC_REG + 0x10"

definition mmio_write :: "u32 \<Rightarrow> u32 \<Rightarrow> 'a apic_scheme \<Rightarrow> 'a apic_scheme" where
  "mmio_write a v s = s\<lparr>mmio_out := mmio_out s @ [(a, v)]\<rparr>"

definition mmio_read :: "u32 \<Rightarrow> 'a apic_scheme \<Rightarrow> u32 \<times> 'a apic_scheme" where
  "mmio_read a s = (mmio_in s a (mmio_reads s), s\<lparr>mmio_reads := Suc (mmio_reads s)\<rparr>)"

section \<open>The local controller\<close>

definition lapic_write :: "u32 \<Rightarrow> u32 \<Rightarrow> 'a apic_scheme \<Rightarrow> 'a apic_scheme" where
  "lapic_write reg v s = mmio_write (lapic_base s + reg) v s"

definition lapic_read :: "u32 \<Rightarrow> 'a apic_scheme \<Rightarrow> u32 \<times> 'a apic_scheme" where
  "lapic_read reg s = mmio_read (lapic_base s + reg) s"

definition enable_lapic :: "'a apic_scheme \<Rightarrow> 'a apic_scheme" where
  "enable_lapic s =
     (let (v, s) = lapic_read 0xF0 s
      in viprint (''LAPIC Enabled.'' @ newline) (lapic_write 0xF0 (v OR 0x100) s))"

definition init_lapic_timer :: "'a apic_scheme \<Rightarrow> 'a apic_scheme" where
  "init_lapic_timer s =
     (let s = lapic_write 0x3E0 5 s;
          s = lapic_write 0x380 1000 s;
          s = lapic_write 0x320 (0x20 OR 0x00020000) s
      in viprint (''LAPIC Timer Initialized.'' @ newline) s)"

definition lapic_eoi :: "'a apic_scheme \<Rightarrow> 'a apic_scheme" where
  "lapic_eoi s = lapic_write 0xB0 0 s"

definition lapic_handler :: "'a apic_scheme \<Rightarrow> 'a apic_scheme" where
  "lapic_handler s = lapic_eoi (viprint (''LAPIC Timer Interrupt Triggered'' @ newline) s)"

section \<open>The I/O controller\<close>

definition ioapic_write :: "u8 \<Rightarrow> u32 \<Rightarrow> 'a apic_scheme \<Rightarrow> 'a apic_scheme" where
  "ioapic_write reg v s = mmio_write IOAPIC_DATA v (mmio_write IOAPIC_INDEX (ucast reg) s)"

definition ioapic_read :: "u8 \<Rightarrow> 'a apic_scheme \<Rightarrow> u32 \<times> 'a apic_scheme" where
  "ioapic_read reg s = mmio_read IOAPIC_DATA (mmio_write IOAPIC_INDEX (ucast reg) s)"

definition init_ioapic :: "'a apic_scheme \<Rightarrow> 'a apic_scheme" where
  "init_ioapic s =
     (let (v, s) = ioapic_read 0x00 s;
          s = hexprint v (viprint ''IOAPIC Version: '' s)
      in ioapic_write (0x10 + (1 * 2)) 33 s)"

section \<open>Detection\<close>

definition cpu_supports_apic :: "'a apic_scheme \<Rightarrow> bool" where
  "cpu_supports_apic s \<longleftrightarrow> cpuid_edx s AND push_bit 9 1 \<noteq> 0"

definition enable_apic_msr :: "'a apic_scheme \<Rightarrow> 'a apic_scheme" where
  "enable_apic_msr s =
     (let (low, high) = msr s 0x1B;
          s = s\<lparr>msr := (msr s)(0x1B := (low, high OR 0x800))\<rparr>
      in viprint (''APIC MSR Enabled.'' @ newline) s)"

definition detect_and_enable_apic :: "'a apic_scheme \<Rightarrow> 'a apic_scheme + 'a apic_scheme" where
  "detect_and_enable_apic s =
     (if \<not> cpu_supports_apic s then Inl (viprint (''APIC not supported. Halting.'' @ newline) s)
      else
        let s = enable_apic_msr (viprint (''APIC supported. Enabling...'' @ newline) s);
            s = s\<lparr>lapic_base := fst (msr s 0x1B) AND 0xFFFFF000\<rparr>
        in if lapic_base s = 0 then Inl (viprint (''Invalid LAPIC base address. Halting.'' @ newline) s)
           else
             let s = hexprint (lapic_base s) (viprint ''LAPIC Base: '' s)
             in Inr (enable_lapic (viprint newline s)))"

definition vector_line :: "string \<Rightarrow> u32 \<Rightarrow> 'a machine_scheme \<Rightarrow> 'a machine_scheme" where
  "vector_line t v s = viprint newline (hexprint v (viprint t s))"

definition check_apic_vectors :: "'a apic_scheme \<Rightarrow> 'a apic_scheme" where
  "check_apic_vectors s =
     (let (svr, s) = lapic_read 0xF0 s;
          (timer, s) = lapic_read 0x320 s;
          (lint0, s) = lapic_read 0x350 s;
          (lint1, s) = lapic_read 0x360 s;
          (error, s) = lapic_read 0x370 s;
          s = viprint (''APIC Vector Table:'' @ newline) s;
          s = vector_line ''SVR (Spurious): '' svr s;
          s = vector_line ''Timer Vector: '' timer s;
          s = vector_line ''LINT0 Vector: '' lint0 s;
          s = vector_line ''LINT1 Vector: '' lint1 s
      in vector_line ''Error Vector: '' error s)"

section \<open>What the I/O controller makes of the writes\<close>

text \<open>The controller shows one register at a time: the one whose number was last written to its index.\<close>

record ioapic =
  selected :: u8
  regs :: "u8 \<Rightarrow> u32"

fun ioapic_take :: "u32 \<times> u32 \<Rightarrow> ioapic \<Rightarrow> ioapic" where
  "ioapic_take (a, v) d =
     (if a = IOAPIC_INDEX then d\<lparr>selected := ucast v\<rparr>
      else if a = IOAPIC_DATA then d\<lparr>regs := (regs d)(selected d := v)\<rparr> else d)"

definition ioapic_after :: "(u32 \<times> u32) list \<Rightarrow> ioapic \<Rightarrow> ioapic" where
  "ioapic_after ws d = fold ioapic_take ws d"

lemma ioapic_after_append: "ioapic_after (xs @ ys) d = ioapic_after ys (ioapic_after xs d)"
  by (simp add: ioapic_after_def)

lemma mmio_out_con [simp]: "mmio_out (con e s) = mmio_out s"
  by (simp add: con_def)

lemma index_roundtrip [simp]: "ucast (ucast (reg :: u8) :: u32) = reg"
  by (rule bit_word_eqI) (auto simp: bit_simps)

lemma ioapic_write_after:
  "ioapic_after (mmio_out (ioapic_write reg v s)) d =
    (ioapic_after (mmio_out s) d)\<lparr>selected := reg, regs := (regs (ioapic_after (mmio_out s) d))(reg := v)\<rparr>"
  by (simp add: ioapic_write_def mmio_write_def ioapic_after_def IOAPIC_INDEX_def IOAPIC_DATA_def IOAPIC_REG_def)

lemma ioapic_read_after:
  "ioapic_after (mmio_out (snd (ioapic_read reg s))) d = (ioapic_after (mmio_out s) d)\<lparr>selected := reg\<rparr>"
  by (simp add: ioapic_read_def mmio_read_def mmio_write_def ioapic_after_def IOAPIC_INDEX_def IOAPIC_DATA_def IOAPIC_REG_def)

text \<open>Where a line goes: whether it is masked, and the vector.\<close>

definition route :: "ioapic \<Rightarrow> u8 \<Rightarrow> bool \<times> u8" where
  "route d line = (bit (regs d (0x10 + 2 * line)) 16, ucast (regs d (0x10 + 2 * line)))"

text \<open>\<open>init_ioapic\<close> sends the keyboard's line, line 1, unmasked to vector 33, and changes no other register of
  the controller, whatever state the controller is in.\<close>

theorem init_ioapic_routes_keyboard:
  "let before = ioapic_after (mmio_out s) d; after = ioapic_after (mmio_out (init_ioapic s)) d
   in route after 1 = (False, 33) \<and> regs after = (regs before)(0x12 := regs after 0x12)"
proof -
  obtain v s1 where r: "ioapic_read 0 s = (v, s1)" by (cases "ioapic_read 0 s")
  have "regs (ioapic_after (mmio_out s1) d) = regs (ioapic_after (mmio_out s) d)"
    using ioapic_read_after[of 0 s d] r by simp
  then have "regs (ioapic_after (mmio_out (init_ioapic s)) d) = (regs (ioapic_after (mmio_out s) d))(0x12 := 33)"
    by (simp add: init_ioapic_def r ioapic_write_after Let_def)
  then show ?thesis by (simp add: route_def bit_numeral_rec)
qed

text \<open>The global enable of the local controller is bit 11 of the base register. \<open>detect_and_enable_apic\<close> sets
  bit 11 of the upper half instead, which belongs to the address: a controller that was disabled stays
  disabled, although the routine prints that it is enabled and goes on.\<close>

theorem apic_stays_disabled:
  assumes "cpu_supports_apic s" "\<not> bit (fst (msr s 0x1B)) 11" "fst (msr s 0x1B) AND 0xFFFFF000 \<noteq> 0"
  shows "\<exists>s'. detect_and_enable_apic s = Inr s' \<and> \<not> bit (fst (msr s' 0x1B)) 11 \<and> bit (snd (msr s' 0x1B)) 11 \<and>
    last (console s') = Viprint (''LAPIC Enabled.'' @ newline)"
proof -
  obtain low high where m: "msr s 0x1B = (low, high)" by (cases "msr s 0x1B")
  have con: "msr (con e t) = msr t" "lapic_base (con e t) = lapic_base t" for e and t :: "'a apic_scheme"
    by (simp_all add: con_def)
  have "bit (high OR 0x800) 11" by (simp add: bit_simps)
  then show ?thesis
    using assms by (simp add: detect_and_enable_apic_def enable_apic_msr_def enable_lapic_def lapic_read_def lapic_write_def
        mmio_read_def mmio_write_def m con Let_def)
qed

theorem apic_stays_disabled_witness:
  "\<exists>(s :: apic) s'. detect_and_enable_apic s = Inr s' \<and> \<not> bit (fst (msr s' 0x1B)) 11"
proof -
  define s :: apic where "s = \<lparr>console = [], port_out = [], port_in = (\<lambda>_ _. 0), port_reads = (\<lambda>_. 0), iflag = False,
    lapic_base = 0, mmio_out = [], mmio_in = (\<lambda>_ _. 0), mmio_reads = 0, msr = (\<lambda>_. (0xFEE00000, 0)), cpuid_edx = 0x200\<rparr>"
  have "cpu_supports_apic s" "\<not> bit (fst (msr s 0x1B)) 11" "fst (msr s 0x1B) AND 0xFFFFF000 \<noteq> 0"
    by (simp_all add: s_def cpu_supports_apic_def bit_numeral_rec)
  then show ?thesis using apic_stays_disabled[of s] by blast
qed

end
