(* ===== verification/Spec2Isabelle.thy ===== *)
theory Spec2Isabelle
  imports Heap_Spec CString Timer_Spec Multiboot Paging Screen_Spec Stdio Keyboard_Spec
    Descriptors Interrupts_Spec Rtc Klog Schedule Ramfs_Spec Spinlock Line_Screen Editor_Files Kernel_Boot Scancodes Apic
begin

text \<open>
  Verification of CobraOS, a kernel for 32-bit x86 in C: the heap, page allocator and paging, the
  string library and formatted output, the text console, the keyboard, the interrupt controllers and
  dispatch, timers and the delayed shutdown, tasks, a file system in memory, a text editor, the shell,
  and the start of the kernel with its main loop. Paths are relative to \<open>src/\<close>; \<open>arch/x86/\<close> is left out.

  HOW THE PROGRAM IS PUT TOGETHER. The boot loader enters \<open>kernel\<close> (\<open>kernel/kernel.c\<close>), which sets up the
  descriptor tables, the interrupt controllers and the timer, schedules a default shutdown, turns paging
  on, gives the pages of the boot memory map to the page allocator, and initialises heap, keyboard,
  file system and shell. Its main loop waits for interrupts. The keyboard interrupt puts characters into
  a ring; the loop takes them out and feeds them to the shell, which edits a line and, on Enter, runs a
  command. Commands call the file system, the editor, the page allocator, the heap, the tasks and the
  timers. File system, editor and tasks take their memory from the heap.

  THE STATE. \<open>Machine\<close> is the record all states extend: what went to the screen (a list of console
  events), the bytes written to ports, the answers of the devices (arbitrary functions), the interrupt
  flag. A C file with static variables is a record that extends it; operations are polymorphic in
  further extensions, so that a caller's state carries those it calls: the heap, the file system
  (\<open>Ramfs\<close>), what an interactive program sees of the keyboard (\<open>Tty\<close>), the command line (\<open>Line_Edit\<close>), the
  shell and the kernel extend one another in this order. Components beside this chain (page allocator and
  paging, timers, tasks, interrupt and descriptor tables) are fields of the shell's and the kernel's
  state, and a call runs on the machine and that field (\<open>memory_part\<close>, \<open>put_memory\<close> and the like).
  Byte memory (\<open>Memory\<close>) is a function on 32-bit addresses with the loads and stores of the x86.

  RESULTS. \<open>None\<close> is a run that never ends, or an access outside every object or to a freed one. A left
  summand is a halt of the machine with its state (heap, timers, shell) or undefined behaviour of C
  (\<open>fault\<close> of \<open>Prelude\<close>). Codes the C functions return are values. Loops that end for a structural reason
  are \<open>fun\<close> or \<open>function\<close> with a measure; all others are \<open>partial_function (option)\<close>, and the theorems prove
  that the result is \<open>Some\<close>. Fuel is used in one place only, \<open>list_tasks\<close> (\<open>Shell_Run\<close>), where the C loop counts to
  64 itself. Integers have their C width (\<open>u8\<close>, \<open>u16\<close>, \<open>u32\<close>); counters the code keeps within an array
  (\<open>cmd_len\<close>, \<open>esc_pos\<close>) are natural numbers, with the bound an invariant.

  THE THEORIES, by what they model.

  Base: \<open>Prelude\<close> (integer types, faults, lemmas on chains and words), \<open>Memory\<close>, \<open>Machine\<close>
  (\<open>lib/io.c\<close>), \<open>Fifo\<close> (locales \<open>fifo\<close> and \<open>bounded_fifo\<close>: the contract of a queue in a ring,
  interpreted for the ring of the keyboard driver as \<open>kbq\<close> and for the scancodes of the kernel as \<open>scq\<close>).

  Heap (\<open>kernel/heap.c\<close>, a buddy allocator): \<open>Heap\<close> has headers and free lists in memory. \<open>Heap_Blocks\<close> is the
  abstract heap, a partition of the region into blocks; \<open>Heap_Lists\<close> says how memory carries it;
  \<open>Heap_Correct\<close> is the simulation of every operation; \<open>Heap_Alloc\<close> the contract over live pointers (locale
  \<open>allocator\<close>, interpreted as \<open>kheap\<close>); \<open>Heap_Extra\<close> adds \<open>kcalloc\<close> and \<open>kmalloc_aligned\<close>; \<open>Heap_Spec\<close> holds the
  properties, whole lifetimes from \<open>kmalloc_init\<close> included. \<open>Heap_Client\<close> and \<open>Heap_Owner\<close> are for the clients: what
  the operations leave alone, and ownership as a multiset of pointers and sizes, with a rule per
  operation.

  Memory management: \<open>Pmm\<close> (\<open>kernel/pmm.c\<close>, locale \<open>frame_allocator\<close>), \<open>Vmm\<close> (\<open>cpu/vmm.c\<close>), \<open>Vmm_Spec\<close> (a mapping
  is what the processor finds when it walks the tables), \<open>Paging\<close> (\<open>cpu/paging.c\<close>), \<open>Multiboot\<close>
  (\<open>kernel/multiboot.c\<close>: the pages of the kernel image are never given away).

  Library and screen: \<open>CString\<close> (\<open>lib/string.c\<close>), \<open>Screen\<close> and \<open>Screen_Spec\<close> (\<open>drivers/screen/screen.c\<close>: no cell
  outside the screen is written; printing refines a terminal of 25 lines), \<open>Stdio\<close> (\<open>lib/stdio.c\<close>,
  \<open>lib/stdlib.c\<close>, and \<open>show_event\<close>, the meaning on the screen of the console events of all other theories).

  Time: \<open>Timer\<close>, \<open>Timer_Correct\<close>, \<open>Timer_Spec\<close> (\<open>cpu/timer.c\<close>: the queue is a sorted list, the tick runs exactly the
  due callbacks, and where it fails at the wrap of the counter), \<open>Pit\<close> (\<open>cpu/pit.c\<close>), \<open>Shutdown\<close>
  (\<open>cpu/shutdown.c\<close>), \<open>Rtc\<close> (\<open>drivers/cmos/rtc.c\<close>).

  Interrupts and tables: \<open>Pic\<close> (\<open>cpu/pic.c\<close>), \<open>Interrupts\<close> and \<open>Interrupts_Spec\<close> (\<open>cpu/interrupts.c\<close>: every vector runs
  its handler and gets its acknowledgement), \<open>Descriptors\<close> (\<open>cpu/gdt.c\<close>, \<open>cpu/ldt.c\<close>, \<open>cpu/tss.c\<close>), \<open>Apic\<close> (\<open>cpu/apic.c\<close>),
  \<open>Ps2\<close> (\<open>cpu/ps2.c\<close>), \<open>Klog\<close> (\<open>kernel/klog.c\<close>).

  Keyboard: \<open>Key_Maps\<close> (\<open>drivers/keyboard/include/key_maps.h\<close>), \<open>Keyboard\<close> and \<open>Keyboard_Spec\<close>
  (\<open>drivers/keyboard/keyboard.c\<close>: the handler types what the key stands for; readers get it in order).

  Tasks: \<open>Task\<close> (\<open>kernel/task.c\<close> and the switch of \<open>cpu/task_switch.asm\<close> on a stack in memory), \<open>Task_Switch\<close> (frames
  pushed and popped), \<open>Task_Spec\<close> (creation and reaping over the live objects of the heap), \<open>Schedule\<close> (round robin;
  every ready task runs again). \<open>Spinlock\<close> (\<open>kernel/spinlock.c\<close>): threads as an inductive step relation,
  interleaved at every access to the lock; mutual exclusion is an invariant of the reachable states.

  Files: \<open>Ramfs\<close> (\<open>fs/ramfs.c\<close>), \<open>Ramfs_Data\<close> (contents as lists of bytes), \<open>Ramfs_Tree\<close> (the tree, paths as walks),
  \<open>Ramfs_Spec\<close> (creating and deleting keep tree and storage sound; what is written is read).

  Editor (\<open>snake/snake.c\<close>): \<open>Editor\<close>, and \<open>Editor_Run\<close> for drawing, keys and the main loop. \<open>Editor_Lines\<close>,
  \<open>Editor_Spec\<close>, \<open>Editor_Edits\<close>, \<open>Editor_Undo\<close> show for each operation that it returns, owns exactly the objects it
  should and does the whole edit or, short of memory, nothing. \<open>Editor_Session\<close> puts these together: commands
  refine edits of a document, undo restores it, whole sessions leak nothing. \<open>Editor_Files\<close>: opening and
  saving a file gives the same bytes.

  Shell (\<open>kernel/shell.c\<close>): \<open>Line_Edit\<close> and \<open>Line_Edit_Spec\<close> (the line as text before and behind the cursor; the history),
  \<open>Line_Screen\<close> (what its redraw leaves on the screen), \<open>Shell\<close> and \<open>Shell_Run\<close> (all commands and their dispatch),
  \<open>Shell_Spec\<close> (numbers, the timer command), \<open>Shell_Files\<close> (the commands on files keep the file system sound and,
  \<open>rm\<close> apart, the current directory in it; what \<open>mkdir\<close> and \<open>touch\<close> make).

  Kernel (\<open>kernel/kernel.c\<close>, \<open>cpu/checking_int.c\<close>): \<open>Kernel\<close>; \<open>Scancodes\<close> (its queue of scancodes and the listener);
  \<open>Kernel_Loop\<close> (one round of the main loop, from the ring of the keyboard through the line editor to the
  files); \<open>Kernel_Boot\<close> (what the start establishes, and that a booted kernel serves typed lines).

  INTERFACES BETWEEN COMPONENTS. The heap's contract is used by file system, editor, tasks and shell through \<open>kheap\<close>,
  \<open>Heap_Client\<close> and \<open>Heap_Owner\<close>; the queue's by the driver and the main loop through \<open>kbq\<close>; the frame allocator's by
  \<open>Vmm_Spec\<close> through \<open>frames\<close>. The screen is used through console events only.

  PARAMETERS. Addresses the linker or the assembler chooses (\<open>symbols\<close> of \<open>Kernel\<close>), what an interrupt handler
  registered by address does, what a callback of a timer does, what the devices answer and when keys are typed
  are arguments or arbitrary parts of the state. What the stack holds below a function is an argument
  where the code reads it uninitialised (\<open>stack\<close> of \<open>Shell\<close>).

  SIMPLIFICATIONS. The heap's memory and the memory of the page tables are separate fields, although the
  kernel maps the first 64 MiB onto themselves: a program that frees a page of the heap's region to the
  page allocator is outside the model. File system nodes, tasks and lines of the editor are typed objects at the
  addresses the heap hands out; the bytes of files are in the heap's memory. Interrupts come between
  the instructions of the code only where it looks at what they change: the keyboard's at every look at
  the ring, the timer's at every halt of a wait; during the start they are left out.

  NOT MODELLED. \<open>cpu/serial.c\<close>, all of which is commented out. \<open>cpu/irq_stubs.asm\<close>, \<open>cpu/exception_stubs.asm\<close> and the
  linker script, which are no C code: their effect is the call of \<open>interrupt_dispatch\<close> on the saved registers. \<open>cpu/get_eip.c\<close> and
  \<open>kernel/stack_protector.c\<close>, which have no state. \<open>arch/arm/kernel/kernel.c\<close>, \<open>kernel/panic.c\<close> (empty), \<open>kernel/kernel.c\<close> (macros
  only) and \<open>panic.h\<close>, whose functions are defined nowhere.
\<close>

end
